(* ===== verification/Omp_Prelude.thy ===== *)
theory Omp_Prelude
  imports Complex_Main "HOL-Library.AList" "HOL-Library.Char_ord" "HOL-Library.List_Lexorder"
begin

text \<open>
  Shared vocabulary of the OpenModelPool development.

  \<^item> Signed 64-bit arithmetic: Go's \<open>int64\<close> (and \<open>int\<close> on the 64-bit targets the program is
    built for) is an \<open>int\<close> whose results are brought back into range by \<open>i64\<close>, which is two's
    complement wrap-around written out.
  \<^item> Go maps: a map is an association list whose keys are distinct (\<open>gmap_ok\<close>); the list order is
    the order in which one \<open>range\<close> loop visits the entries. The operations are \<open>gget\<close>, \<open>gget0\<close>
    (a read that yields the zero value when the key is absent), \<open>gput\<close>, \<open>gdel\<close> and \<open>gfilter\<close>.
    The locale \<open>finite_map\<close> states what a client may rely on, and is interpreted on them.
  \<^item> Quota sources: the locale \<open>quota_source\<close> is the contract of an atomic check-and-deduct
    operation; the accounting facts that every such operation shares are proved in it once.
  \<^item> Hash chains: the locale \<open>hash_chain\<close> is the contract of an append-only log whose entries
    carry the hash of their predecessor.
  \<^item> Sorting: \<open>stable_sort_by\<close> is what \<open>sort.SliceStable\<close> does for a strict weak order on the
    elements.
\<close>

named_theorems gmap_simps "rewrite rules for Go maps"
named_theorems i64_simps "rewrite rules for 64-bit arithmetic"

section \<open>Signed 64-bit integers\<close>

definition i64 :: "int \<Rightarrow> int" where
  "i64 x = (x + 2 ^ 63) mod 2 ^ 64 - 2 ^ 63"

definition in_i64 :: "int \<Rightarrow> bool" where
  "in_i64 x \<longleftrightarrow> - (2 ^ 63) \<le> x \<and> x < 2 ^ 63"

text \<open>Go's integer division truncates towards zero.\<close>

definition go_div :: "int \<Rightarrow> int \<Rightarrow> int" where
  "go_div a b = i64 (sgn a * sgn b * (\<bar>a\<bar> div \<bar>b\<bar>))"

lemma i64_id [simp, i64_simps]: "in_i64 x \<Longrightarrow> i64 x = x"
  unfolding i64_def in_i64_def by (simp add: mod_pos_pos_trivial)

lemma i64_range: "in_i64 (i64 x)"
proof -
  have "0 \<le> (x + 2 ^ 63) mod 2 ^ 64" "(x + 2 ^ 63) mod 2 ^ 64 < (2 ^ 64 :: int)"
    by simp_all
  then show ?thesis unfolding i64_def in_i64_def by auto
qed

lemma in_i64_0 [simp]: "in_i64 0"
  by (simp add: in_i64_def)

lemma in_i64_between: "in_i64 a \<Longrightarrow> in_i64 b \<Longrightarrow> a \<le> x \<Longrightarrow> x \<le> b \<Longrightarrow> in_i64 x"
  by (auto simp: in_i64_def)

lemma i64_between: "in_i64 a \<Longrightarrow> in_i64 b \<Longrightarrow> a \<le> x \<Longrightarrow> x \<le> b \<Longrightarrow> i64 x = x"
  by (rule i64_id) (rule in_i64_between)

lemma i64_diff_nonneg: "0 \<le> a \<Longrightarrow> 0 \<le> b \<Longrightarrow> in_i64 a \<Longrightarrow> in_i64 b \<Longrightarrow> i64 (a - b) = a - b"
  by (rule i64_id) (auto simp: in_i64_def)

lemma i64_add_i64 [i64_simps]: "i64 (i64 a + b) = i64 (a + b)"
proof -
  have "(i64 a + b + 2 ^ 63) mod 2 ^ 64 = ((a + 2 ^ 63) mod 2 ^ 64 + b) mod 2 ^ 64"
    unfolding i64_def by (rule arg_cong [where f = "\<lambda>x. x mod 2 ^ 64"]) simp
  also have "\<dots> = (a + b + 2 ^ 63) mod 2 ^ 64"
    unfolding mod_add_left_eq by (rule arg_cong [where f = "\<lambda>x. x mod 2 ^ 64"]) simp
  finally show ?thesis unfolding i64_def [of "i64 a + b"] i64_def [of "a + b"] by simp
qed

lemma go_div_pos: "0 \<le> a \<Longrightarrow> 0 < b \<Longrightarrow> in_i64 a \<Longrightarrow> go_div a b = a div b"
proof -
  assume a: "0 \<le> a" "0 < b" "in_i64 a"
  have "a div b \<le> a" using a by (simp add: div_by_1 zdiv_mono2 [of a 1 b, simplified])
  moreover have "0 \<le> a div b" using a by (simp add: pos_imp_zdiv_nonneg_iff)
  ultimately have "in_i64 (a div b)" using a by (auto simp: in_i64_def)
  moreover have "sgn a * sgn b * (\<bar>a\<bar> div \<bar>b\<bar>) = a div b"
    using a by (cases "a = 0") auto
  ultimately show ?thesis unfolding go_div_def by simp
qed

section \<open>Go maps\<close>

type_synonym ('k, 'v) gomap = "('k \<times> 'v) list"

definition gmap_ok :: "('k, 'v) gomap \<Rightarrow> bool" where
  "gmap_ok m \<longleftrightarrow> distinct (map fst m)"

definition gget :: "('k, 'v) gomap \<Rightarrow> 'k \<Rightarrow> 'v option" where
  "gget m k = map_of m k"

definition gget0 :: "'v \<Rightarrow> ('k, 'v) gomap \<Rightarrow> 'k \<Rightarrow> 'v" where
  "gget0 z m k = (case gget m k of None \<Rightarrow> z | Some v \<Rightarrow> v)"

definition gput :: "'k \<Rightarrow> 'v \<Rightarrow> ('k, 'v) gomap \<Rightarrow> ('k, 'v) gomap" where
  "gput k v m = AList.update k v m"

definition gdel :: "'k \<Rightarrow> ('k, 'v) gomap \<Rightarrow> ('k, 'v) gomap" where
  "gdel k m = filter (\<lambda>e. fst e \<noteq> k) m"

definition gfilter :: "('k \<Rightarrow> 'v \<Rightarrow> bool) \<Rightarrow> ('k, 'v) gomap \<Rightarrow> ('k, 'v) gomap" where
  "gfilter P m = filter (\<lambda>e. P (fst e) (snd e)) m"

definition gmapv :: "('v \<Rightarrow> 'w) \<Rightarrow> ('k, 'v) gomap \<Rightarrow> ('k, 'w) gomap" where
  "gmapv f m = map (\<lambda>e. (fst e, f (snd e))) m"

lemma gget_Nil [simp, gmap_simps]: "gget [] k = None"
  by (simp add: gget_def)

lemma gget_Cons [simp, gmap_simps]: "gget ((k, v) # m) j = (if k = j then Some v else gget m j)"
  by (simp add: gget_def)

lemma gget_None_iff: "gget m k = None \<longleftrightarrow> k \<notin> fst ` set m"
  by (simp add: gget_def map_of_eq_None_iff)

lemma gmap_ok_Cons [simp, gmap_simps]: "gmap_ok ((k, v) # m) \<longleftrightarrow> gget m k = None \<and> gmap_ok m"
  by (simp add: gmap_ok_def gget_None_iff)

lemma gget_gput [simp, gmap_simps]: "gget (gput k v m) k' = (if k' = k then Some v else gget m k')"
  by (simp add: gget_def gput_def update_conv')

lemma gget0_gput [simp, gmap_simps]: "gget0 z (gput k v m) k' = (if k' = k then v else gget0 z m k')"
  by (simp add: gget0_def)

lemma gget_gdel [simp, gmap_simps]: "gget (gdel k m) k' = (if k' = k then None else gget m k')"
  unfolding gget_def gdel_def by (induction m) auto

lemma gmap_ok_Nil [simp, intro]: "gmap_ok []"
  by (simp add: gmap_ok_def)

lemma gmap_ok_gput [simp, intro]: "gmap_ok m \<Longrightarrow> gmap_ok (gput k v m)"
  unfolding gmap_ok_def gput_def by (rule distinct_update)

lemma gmap_ok_filter: "gmap_ok m \<Longrightarrow> gmap_ok (filter P m)"
  unfolding gmap_ok_def by (induction m) auto

lemma gmap_ok_gdel [simp, intro]: "gmap_ok m \<Longrightarrow> gmap_ok (gdel k m)"
  unfolding gdel_def by (rule gmap_ok_filter)

lemma gmap_ok_gfilter [simp, intro]: "gmap_ok m \<Longrightarrow> gmap_ok (gfilter P m)"
  unfolding gfilter_def by (rule gmap_ok_filter)

lemma keys_gmapv [simp]: "map fst (gmapv f m) = map fst m"
  by (simp add: gmapv_def)

lemma gmap_ok_gmapv [simp]: "gmap_ok (gmapv f m) \<longleftrightarrow> gmap_ok m"
  by (simp add: gmap_ok_def)

lemma gget_gmapv [simp, gmap_simps]: "gget (gmapv f m) k = map_option f (gget m k)"
  unfolding gget_def gmapv_def by (induction m) auto

lemma gget_gfilter [gmap_simps]:
  "gmap_ok m \<Longrightarrow> gget (gfilter P m) k = (case gget m k of Some v \<Rightarrow> if P k v then Some v else None | None \<Rightarrow> None)"
  unfolding gget_def gfilter_def gmap_ok_def
proof (induction m)
  case (Cons e m)
  show ?case
  proof (cases "fst e = k")
    case True
    with Cons.prems have "map_of m k = None" by (auto simp: map_of_eq_None_iff)
    with Cons True show ?thesis by (cases e) auto
  next
    case False
    with Cons show ?thesis by (cases e) auto
  qed
qed simp

lemma gget_in_set: "gget m k = Some v \<Longrightarrow> (k, v) \<in> set m"
  unfolding gget_def by (rule map_of_SomeD)

lemma in_set_gget: "gmap_ok m \<Longrightarrow> (k, v) \<in> set m \<Longrightarrow> gget m k = Some v"
  unfolding gget_def gmap_ok_def by (rule map_of_is_SomeI)

lemma set_gput: "gmap_ok m \<Longrightarrow> set (gput k v m) = {e \<in> set m. fst e \<noteq> k} \<union> {(k, v)}"
  unfolding gput_def gmap_ok_def
proof (induction m)
  case (Cons e m)
  then show ?case by (cases e) (auto simp: rev_image_eqI)
qed simp

lemma length_gput: "gmap_ok m \<Longrightarrow> length (gput k v m) = (if gget m k = None then Suc (length m) else length m)"
  unfolding gput_def gget_def gmap_ok_def by (induction m) auto

lemma gput_gput [simp]: "gput k v (gput k w m) = gput k v m"
  unfolding gput_def by (induction m) auto

lemma gput_new: "gget m k = None \<Longrightarrow> gput k v m = m @ [(k, v)]"
  unfolding gput_def gget_def by (induction m) (auto split: if_splits)

lemma length_gdel_le: "length (gdel k m) \<le> length m"
  by (simp add: gdel_def)

lemma length_gdel_less: "gget m k \<noteq> None \<Longrightarrow> length (gdel k m) < length m"
  unfolding gdel_def gget_def
  by (induction m) (auto split: if_splits simp: le_imp_less_Suc)

subsection \<open>Sums over a map\<close>

definition gsum :: "('v \<Rightarrow> int) \<Rightarrow> ('k, 'v) gomap \<Rightarrow> int" where
  "gsum f m = (\<Sum>e \<leftarrow> m. f (snd e))"

lemma gsum_gput:
  "gmap_ok m \<Longrightarrow> gsum f (gput k v m) = gsum f m - (case gget m k of None \<Rightarrow> 0 | Some w \<Rightarrow> f w) + f v"
  unfolding gsum_def gput_def gget_def gmap_ok_def by (induction m) auto

lemma gsum_nonneg: "(\<And>e. e \<in> set m \<Longrightarrow> 0 \<le> f (snd e)) \<Longrightarrow> 0 \<le> gsum f m"
  unfolding gsum_def by (induction m) auto

lemma gsum_mono: "(\<And>e. e \<in> set m \<Longrightarrow> f (snd e) \<le> g (snd e)) \<Longrightarrow> gsum f m \<le> gsum g m"
  unfolding gsum_def by (induction m) (auto intro: add_mono)

lemma gsum_gmapv: "gsum f (gmapv h m) = gsum (f \<circ> h) m"
  unfolding gsum_def gmapv_def by (simp add: comp_def)

subsection \<open>The interface of a map\<close>

locale finite_map =
  fixes put :: "'k \<Rightarrow> 'v \<Rightarrow> 'm \<Rightarrow> 'm"
    and del :: "'k \<Rightarrow> 'm \<Rightarrow> 'm"
    and look :: "'m \<Rightarrow> 'k \<Rightarrow> 'v option"
    and ok :: "'m \<Rightarrow> bool"
  assumes look_put: "ok m \<Longrightarrow> look (put k v m) = (look m)(k \<mapsto> v)"
    and look_del: "ok m \<Longrightarrow> look (del k m) = (look m)(k := None)"
    and ok_put: "ok m \<Longrightarrow> ok (put k v m)"
    and ok_del: "ok m \<Longrightarrow> ok (del k m)"
begin

lemma put_put: "ok m \<Longrightarrow> look (put k v (put k w m)) = look (put k v m)"
  by (simp add: look_put ok_put)

lemma put_commute: "ok m \<Longrightarrow> k \<noteq> l \<Longrightarrow> look (put k v (put l w m)) = look (put l w (put k v m))"
  by (auto simp: look_put ok_put fun_upd_twist)

lemma del_put: "ok m \<Longrightarrow> look m k = None \<Longrightarrow> look (del k (put k v m)) = look m"
  by (auto simp: look_put look_del ok_put)

end

interpretation gm: finite_map gput gdel gget gmap_ok
  by unfold_locales (auto simp: fun_eq_iff)

section \<open>Quota sources\<close>

text \<open>
  \<open>run_takes draw ns s\<close> serves the requests \<open>ns\<close> one after the other and returns the requests
  that were granted together with the last state.
\<close>

fun run_takes :: "('r \<Rightarrow> 's \<Rightarrow> bool \<times> 's) \<Rightarrow> 'r list \<Rightarrow> 's \<Rightarrow> 'r list \<times> 's" where
  "run_takes draw [] s = ([], s)"
| "run_takes draw (r # rs) s =
     (let (b, s') = draw r s; (gs, s'') = run_takes draw rs s'
      in (if b then r # gs else gs, s''))"

text \<open>
  The contract of an atomic check-and-deduct operation that guards one budget: a refused request
  changes nothing that is left, a granted request was covered and lowers what is left by exactly its
  amount, and the invariant is kept.
\<close>

locale quota_guard =
  fixes draw :: "'r \<Rightarrow> 's \<Rightarrow> bool \<times> 's"
    and amount :: "'r \<Rightarrow> int"
    and left :: "'s \<Rightarrow> int"
    and ok :: "'s \<Rightarrow> bool"
  assumes draw_refused: "ok s \<Longrightarrow> 0 \<le> amount r \<Longrightarrow> draw r s = (False, s') \<Longrightarrow> left s' = left s \<and> ok s'"
    and draw_granted: "ok s \<Longrightarrow> 0 \<le> amount r \<Longrightarrow> draw r s = (True, s') \<Longrightarrow>
           amount r \<le> left s \<and> left s' = left s - amount r \<and> ok s'"
    and left_nonneg: "ok s \<Longrightarrow> 0 \<le> left s"
begin

lemma draw_ok: "ok s \<Longrightarrow> 0 \<le> amount r \<Longrightarrow> ok (snd (draw r s))"
  using draw_refused draw_granted by (cases "draw r s") (metis (full_types) snd_conv)

lemma run_accounting:
  assumes "ok s" and "\<forall>r \<in> set rs. 0 \<le> amount r" and "run_takes draw rs s = (gs, s')"
  shows "ok s' \<and> sum_list (map amount gs) + left s' = left s"
  using assms
proof (induction rs arbitrary: s gs s')
  case (Cons r rs)
  obtain b t where t: "draw r s = (b, t)" by fastforce
  obtain hs u where u: "run_takes draw rs t = (hs, u)" by fastforce
  have step: "ok t \<and> left t = left s - (if b then amount r else 0)"
    using draw_refused [of s r t] draw_granted [of s r t] Cons.prems t by (cases b) auto
  with Cons.IH [of t hs u] Cons.prems u
  have "ok u \<and> sum_list (map amount hs) + left u = left t" by simp
  with step Cons.prems t u show ?case by (auto split: if_splits)
qed simp

text \<open>However the requests come, what is granted in total never exceeds what was left.\<close>

lemma run_never_overissues:
  assumes "ok s" and "\<forall>r \<in> set rs. 0 \<le> amount r" and "run_takes draw rs s = (gs, s')"
  shows "sum_list (map amount gs) \<le> left s"
  using run_accounting [OF assms] left_nonneg [of s'] by auto

end

text \<open>A quota source guards a single budget, so it also grants every request that is covered.\<close>

locale quota_source = quota_guard +
  assumes draw_covered: "ok s \<Longrightarrow> 0 < amount r \<Longrightarrow> amount r \<le> left s \<Longrightarrow> fst (draw r s)"
begin

lemma draw_iff: "ok s \<Longrightarrow> 0 < amount r \<Longrightarrow> fst (draw r s) \<longleftrightarrow> amount r \<le> left s"
  using draw_covered draw_granted by (cases "draw r s") (metis (full_types) fst_conv less_imp_le)

end

lemma run_takes_cong:
  "(\<And>r s. r \<in> set rs \<Longrightarrow> d r s = e r s) \<Longrightarrow> run_takes d rs s = run_takes e rs s"
  by (induction rs arbitrary: s) (auto simp: Let_def split: prod.splits)

section \<open>Hash chains\<close>

text \<open>
  \<open>chain_from prev_of hash_of prev xs\<close> is the loop of a chain verifier: every entry names the hash
  of the entry before it and carries the hash of its own contents.
\<close>

fun chain_from :: "('a \<Rightarrow> 'h) \<Rightarrow> ('a \<Rightarrow> 'h) \<Rightarrow> ('a \<Rightarrow> 'h) \<Rightarrow> 'h \<Rightarrow> 'a list \<Rightarrow> bool" where
  "chain_from prev_of stored digest p [] = True"
| "chain_from prev_of stored digest p (x # xs) =
     (prev_of x = p \<and> stored x = digest x \<and> chain_from prev_of stored digest (stored x) xs)"

fun chain_head :: "('a \<Rightarrow> 'h) \<Rightarrow> 'h \<Rightarrow> 'a list \<Rightarrow> 'h" where
  "chain_head stored p [] = p"
| "chain_head stored p (x # xs) = chain_head stored (stored x) xs"

lemma chain_head_append [simp]: "chain_head stored p (xs @ [x]) = stored x"
  by (induction xs arbitrary: p) auto

lemma chain_from_append:
  "chain_from prev_of stored digest p (xs @ ys) \<longleftrightarrow>
     chain_from prev_of stored digest p xs \<and> chain_from prev_of stored digest (chain_head stored p xs) ys"
  by (induction xs arbitrary: p) auto

text \<open>
  The contract of an entry constructor \<open>mk\<close>: the entry it builds on top of the head \<open>p\<close> names \<open>p\<close>
  as its predecessor and carries its own digest. An update \<open>touch\<close> is harmless to the chain when it
  leaves the predecessor, the stored hash and the digest alone.
\<close>

locale hash_chain =
  fixes prev_of :: "'a \<Rightarrow> 'h" and stored :: "'a \<Rightarrow> 'h" and digest :: "'a \<Rightarrow> 'h"
    and mk :: "'h \<Rightarrow> 'b \<Rightarrow> 'a"
  assumes prev_mk: "prev_of (mk p b) = p"
    and stored_mk: "stored (mk p b) = digest (mk p b)"
begin

lemma append_mk:
  "chain_from prev_of stored digest p xs \<Longrightarrow>
     chain_from prev_of stored digest p (xs @ [mk (chain_head stored p xs) b])"
  by (simp add: chain_from_append prev_mk stored_mk)

end

text \<open>Updates that leave the predecessor, the stored hash and the digest alone go unnoticed.\<close>

definition same_link :: "('a \<Rightarrow> 'h) \<Rightarrow> ('a \<Rightarrow> 'h) \<Rightarrow> ('a \<Rightarrow> 'h) \<Rightarrow> 'a \<Rightarrow> 'a \<Rightarrow> bool" where
  "same_link prev_of stored digest x y \<longleftrightarrow>
     prev_of x = prev_of y \<and> stored x = stored y \<and> digest x = digest y"

lemma chain_from_same_link:
  "list_all2 (same_link prev_of stored digest) xs ys \<Longrightarrow>
     chain_from prev_of stored digest p xs = chain_from prev_of stored digest p ys"
  by (induction arbitrary: p rule: list_all2_induct) (auto simp: same_link_def)

lemma chain_head_same_link:
  "list_all2 (same_link prev_of stored digest) xs ys \<Longrightarrow> chain_head stored p xs = chain_head stored p ys"
  by (induction arbitrary: p rule: list_all2_induct) (auto simp: same_link_def)

lemma same_link_update:
  "i < length xs \<Longrightarrow> same_link prev_of stored digest (xs ! i) y \<Longrightarrow>
     list_all2 (same_link prev_of stored digest) xs (xs[i := y])"
  by (auto simp: list_all2_conv_all_nth nth_list_update same_link_def)

section \<open>Stable sorting\<close>

fun insert_by :: "('a \<Rightarrow> 'a \<Rightarrow> bool) \<Rightarrow> 'a \<Rightarrow> 'a list \<Rightarrow> 'a list" where
  "insert_by lt x [] = [x]"
| "insert_by lt x (y # ys) = (if lt y x then y # insert_by lt x ys else x # y # ys)"

definition stable_sort_by :: "('a \<Rightarrow> 'a \<Rightarrow> bool) \<Rightarrow> 'a list \<Rightarrow> 'a list" where
  "stable_sort_by lt xs = foldr (insert_by lt) xs []"

lemma stable_sort_by_Nil [simp]: "stable_sort_by lt [] = []"
  by (simp add: stable_sort_by_def)

lemma stable_sort_by_Cons [simp]: "stable_sort_by lt (x # xs) = insert_by lt x (stable_sort_by lt xs)"
  by (simp add: stable_sort_by_def)

lemma insert_by_key:
  "(\<And>y. y \<in> set ys \<Longrightarrow> lt y x \<longleftrightarrow> f y < f x) \<Longrightarrow> insert_by lt x ys = insort_key f x ys"
  by (induction ys) (auto simp: not_le)

text \<open>A comparison by a key of a linear order sorts by that key.\<close>

lemma stable_sort_by_key:
  "(\<And>a b. a \<in> set xs \<Longrightarrow> b \<in> set xs \<Longrightarrow> lt a b \<longleftrightarrow> f a < (f b :: 'b :: linorder)) \<Longrightarrow>
     stable_sort_by lt xs = sort_key f xs"
proof (induction xs)
  case (Cons x xs)
  then have "stable_sort_by lt xs = sort_key f xs" by simp
  moreover have "insert_by lt x (sort_key f xs) = insort_key f x (sort_key f xs)"
    using Cons.prems by (intro insert_by_key) simp
  ultimately show ?case by simp
qed simp

lemma set_insert_by [simp]: "set (insert_by lt x ys) = insert x (set ys)"
  by (induction ys) auto

lemma set_stable_sort_by [simp]: "set (stable_sort_by lt xs) = set xs"
  by (induction xs) simp_all

lemma length_insert_by [simp]: "length (insert_by lt x ys) = Suc (length ys)"
  by (induction ys) auto

lemma length_stable_sort_by [simp]: "length (stable_sort_by lt xs) = length xs"
  by (induction xs) simp_all

text \<open>The first elements of a sorted list are at most the others.\<close>

lemma sort_key_take_le:
  assumes "x \<in> set (take n (sort_key f xs))" and "y \<in> set xs" and "y \<notin> set (take n (sort_key f xs))"
  shows "f x \<le> f y"
proof -
  have "sorted (map f (take n (sort_key f xs)) @ map f (drop n (sort_key f xs)))"
    by (metis append_take_drop_id map_append sorted_sort_key)
  moreover have "y \<in> set (drop n (sort_key f xs))"
    using assms(2, 3) by (metis Un_iff append_take_drop_id set_append set_sort)
  ultimately show ?thesis using assms(1) by (auto simp: sorted_append)
qed

section \<open>Decimal numerals\<close>

text \<open>\<open>itoa\<close> is the decimal rendering of \<open>\%d\<close> and \<open>strconv.Itoa\<close>.\<close>

fun nat_digits :: "nat \<Rightarrow> string" where
  "nat_digits n = (if n < 10 then [char_of (48 + n)] else nat_digits (n div 10) @ [char_of (48 + n mod 10)])"

declare nat_digits.simps [simp del]

definition itoa :: "int \<Rightarrow> string" where
  "itoa i = (if i < 0 then CHR ''-'' # nat_digits (nat (- i)) else nat_digits (nat i))"

definition digits_value :: "string \<Rightarrow> nat" where
  "digits_value s = foldl (\<lambda>v c. 10 * v + (of_char c - 48)) 0 s"

lemma digits_value_nat_digits: "digits_value (nat_digits n) = n"
proof (induction n rule: nat_digits.induct)
  case (1 n)
  show ?case
  proof (cases "n < 10")
    case True
    then show ?thesis by (subst nat_digits.simps) (simp add: digits_value_def)
  next
    case False
    have m: "(48 + n mod 10) mod 256 = 48 + n mod 10" by (intro mod_less) linarith
    show ?thesis
      using False 1 [OF False] by (subst nat_digits.simps) (simp add: digits_value_def m)
  qed
qed

lemma nat_digits_not_Nil [simp]: "nat_digits n \<noteq> []"
  by (subst nat_digits.simps) simp

lemma hd_nat_digits: "hd (nat_digits n) \<noteq> CHR ''-''"
proof (induction n rule: nat_digits.induct)
  case (1 n)
  show ?case
  proof (cases "n < 10")
    case True
    then have "n \<in> {0, 1, 2, 3, 4, 5, 6, 7, 8, 9}" by auto
    then show ?thesis by (subst nat_digits.simps) (auto simp: char_of_def)
  next
    case False
    with 1 show ?thesis by (subst nat_digits.simps) simp
  qed
qed

lemma itoa_inj [simp]: "itoa i = itoa j \<longleftrightarrow> i = j"
proof
  assume eq: "itoa i = itoa j"
  have "nat_digits n \<noteq> CHR ''-'' # s" for n s using hd_nat_digits [of n] by auto
  with eq this [symmetric] have "(i < 0) = (j < 0)" by (auto simp: itoa_def split: if_splits)
  with eq show "i = j"
    by (auto simp: itoa_def split: if_splits dest!: arg_cong [where f = digits_value] simp: digits_value_nat_digits)
qed simp

section \<open>Answers of request handlers\<close>

datatype 'a http_result = HttpOK 'a | HttpError nat string

end
