(* ===== verification/Storage_Model.thy ===== *)
theory Storage_Model
  imports Omp_Prelude
begin

text \<open>
  Persistence as the components use it (\<open>src/storage_bbolt.go\<close>).

  A persisted value is kept as the structure that is marshalled: the JSON encoder and decoder of the
  standard library are lossless on the structs stored here, so a file is either absent (or
  unreadable), present but not decodable, or it holds a value. The embedded key-value store is a Go
  map of such values per bucket; one \<open>db.Update\<close> transaction is applied completely or not at all.
  Whether an I/O call succeeds is decided by the environment: the outcomes of the calls of one
  operation are the fields of \<open>io_env\<close>, an argument of that operation.
\<close>

datatype 'a stored_file = Absent | Corrupt | Content 'a

record io_env =
  io_use_bbolt :: bool   \<comment> \<open>\<open>storageUseBbolt()\<close>\<close>
  io_open :: bool        \<comment> \<open>\<open>openBbolt\<close> succeeds\<close>
  io_update :: bool      \<comment> \<open>\<open>db.Update\<close> with the data succeeds\<close>
  io_mark :: bool        \<comment> \<open>\<open>db.Update\<close> with the migration marker succeeds\<close>
  io_rename :: bool      \<comment> \<open>\<open>os.Rename\<close> to the backup succeeds\<close>
  io_write :: bool       \<comment> \<open>\<open>atomicWriteFile\<close> succeeds\<close>

definition io_fine :: "bool \<Rightarrow> io_env" where
  "io_fine use = \<lparr>io_use_bbolt = use, io_open = True, io_update = True, io_mark = True,
     io_rename = True, io_write = True\<rparr>"

text \<open>The JSON file of one migration domain, its backup and its migration marker.\<close>

record 'a domain_store =
  ds_json :: "'a stored_file"
  ds_bak :: bool
  ds_migrated :: bool

definition isMigrated :: "'a domain_store \<Rightarrow> bool" where
  "isMigrated d = ds_migrated d"

definition markMigrated :: "io_env \<Rightarrow> 'a domain_store \<Rightarrow> bool \<times> 'a domain_store" where
  "markMigrated io d = (if io_mark io then (True, d\<lparr>ds_migrated := True\<rparr>) else (False, d))"

definition bakJSON :: "io_env \<Rightarrow> 'a domain_store \<Rightarrow> bool \<times> 'a domain_store" where
  "bakJSON io d =
     (if ds_bak d then (True, d)
      else if ds_json d = Absent then (True, d)
      else if io_rename io then (True, d\<lparr>ds_json := Absent, ds_bak := True\<rparr>)
      else (False, d))"

definition atomicWriteFile :: "io_env \<Rightarrow> 'a \<Rightarrow> 'a stored_file \<Rightarrow> 'a stored_file" where
  "atomicWriteFile io v f = (if io_write io then Content v else f)"

lemma markMigrated_ok: "fst (markMigrated io d) \<Longrightarrow> ds_migrated (snd (markMigrated io d))"
  by (auto simp: markMigrated_def split: if_splits)

lemma bakJSON_idem:
  "bakJSON io d = (True, d') \<Longrightarrow> bakJSON io d' = (True, d')"
  by (auto simp: bakJSON_def split: if_splits)

lemma bakJSON_migrated [simp]: "ds_migrated (snd (bakJSON io d)) = ds_migrated d"
  by (simp add: bakJSON_def)

lemma markMigrated_json [simp]: "ds_json (snd (markMigrated io d)) = ds_json d"
  by (simp add: markMigrated_def)

lemma bakJSON_rename: "io_rename io \<Longrightarrow> fst (bakJSON io d)"
  by (simp add: bakJSON_def)

lemma bakJSON_fine: "\<exists>d'. bakJSON (io_fine use) d = (True, d')"
  using bakJSON_rename [of "io_fine use" d] by (cases "bakJSON (io_fine use) d") (auto simp: io_fine_def)

lemma markMigrated_fine: "markMigrated (io_fine u) d = (True, d\<lparr>ds_migrated := True\<rparr>)"
  by (simp add: markMigrated_def io_fine_def)

end
