(* ===== verification/Contribution_Quota.thy ===== *)
theory Contribution_Quota
  imports Storage_Model
begin

text \<open>
  The contribution entitlement: \<open>src/ledger_contrib_quota.go\<close> (the tracker that accrues one token
  of free quota per donated token) and \<open>src/ledger_quota_consume.go\<close> (drawing on it and settling).

  The state is the record \<open>ContributionQuotaTracker\<close>: the in-memory map, the data directory, whether
  the key-value backend is attached, and what is on disk. Each operation takes the wall clock
  \<open>now\<close> (Unix seconds) and the outcome of its write as arguments.
\<close>

section \<open>Data\<close>

record ContributionQuota =
  cq_PeerID :: string
  cq_ContributedTokens :: int
  cq_EarnedFreeQuota :: int
  cq_ConsumedQuota :: int
  cq_RemainingQuota :: int
  cq_LastUpdated :: int

type_synonym quota_rows = "(string, ContributionQuota) gomap"

record ContributionQuotaTracker =
  cqt_dataDir :: string
  cqt_entries :: quota_rows
  cqt_bbolt :: bool
  cqt_disk :: "quota_rows domain_store"
  cqt_bucket :: "(string, ContributionQuota option) gomap"
    \<comment> \<open>the keys below \<open>cquota/\<close>; \<open>None\<close> is a value that does not decode\<close>

definition zero_quota :: "string \<Rightarrow> ContributionQuota" where
  "zero_quota p = \<lparr>cq_PeerID = p, cq_ContributedTokens = 0, cq_EarnedFreeQuota = 0,
     cq_ConsumedQuota = 0, cq_RemainingQuota = 0, cq_LastUpdated = 0\<rparr>"

definition remainingLocked :: "ContributionQuota \<Rightarrow> int" where
  "remainingLocked q =
     (let r = i64 (cq_EarnedFreeQuota q - cq_ConsumedQuota q) in if r < 0 then 0 else r)"

section \<open>Persistence\<close>

definition cqt_save :: "io_env \<Rightarrow> ContributionQuotaTracker \<Rightarrow> ContributionQuotaTracker" where
  "cqt_save io t =
     (if cqt_dataDir t = '''' then t
      else t\<lparr>cqt_disk := (cqt_disk t)\<lparr>ds_json := atomicWriteFile io (cqt_entries t) (ds_json (cqt_disk t))\<rparr>\<rparr>)"

definition saveEntry :: "io_env \<Rightarrow> string \<Rightarrow> ContributionQuotaTracker \<Rightarrow> ContributionQuotaTracker" where
  "saveEntry io peerID t =
     (if cqt_bbolt t
      then (case gget (cqt_entries t) peerID of
              None \<Rightarrow> t
            | Some e \<Rightarrow> if io_update io then t\<lparr>cqt_bucket := gput peerID (Some e) (cqt_bucket t)\<rparr> else t)
      else cqt_save io t)"

definition renormalize :: "ContributionQuota \<Rightarrow> ContributionQuota" where
  "renormalize e =
     (let e1 = (if cq_EarnedFreeQuota e \<noteq> cq_ContributedTokens e
                then e\<lparr>cq_EarnedFreeQuota := cq_ContributedTokens e\<rparr> else e);
          e2 = (if cq_ConsumedQuota e1 < 0 then e1\<lparr>cq_ConsumedQuota := 0\<rparr> else e1);
          e3 = (if cq_ConsumedQuota e2 > cq_EarnedFreeQuota e2
                then e2\<lparr>cq_ConsumedQuota := cq_EarnedFreeQuota e2\<rparr> else e2)
      in e3\<lparr>cq_RemainingQuota := remainingLocked e3\<rparr>)"

definition cqt_load :: "ContributionQuotaTracker \<Rightarrow> ContributionQuotaTracker" where
  "cqt_load t =
     (if cqt_dataDir t = '''' then t
      else case ds_json (cqt_disk t) of
        Absent \<Rightarrow> t
      | Corrupt \<Rightarrow> t
      | Content loaded \<Rightarrow> t\<lparr>cqt_entries := gmapv renormalize loaded\<rparr>)"

fun decode_bucket :: "(string, ContributionQuota option) gomap \<Rightarrow> quota_rows" where
  "decode_bucket [] = []"
| "decode_bucket ((k, None) # b) = decode_bucket b"
| "decode_bucket ((k, Some e) # b) = (k, e) # decode_bucket b"

definition cqt_loadBbolt :: "ContributionQuotaTracker \<Rightarrow> ContributionQuotaTracker" where
  "cqt_loadBbolt t = t\<lparr>cqt_entries := gmapv renormalize (decode_bucket (cqt_bucket t))\<rparr>"

text \<open>The migration from the JSON file into the bucket; \<open>False\<close> is the error return.\<close>

definition cqt_importToBbolt ::
    "io_env \<Rightarrow> ContributionQuotaTracker \<Rightarrow> bool \<times> ContributionQuotaTracker" where
  "cqt_importToBbolt io t =
     (if isMigrated (cqt_disk t)
      then (case bakJSON io (cqt_disk t) of
              (False, d) \<Rightarrow> (False, t\<lparr>cqt_disk := d\<rparr>)
            | (True, d) \<Rightarrow> (True, t\<lparr>cqt_disk := d, cqt_bbolt := True\<rparr>))
      else
        let t1 = (if ds_json (cqt_disk t) \<noteq> Absent then cqt_load t else t) in
        if \<not> io_update io then (False, t1)
        else
          let t2 = t1\<lparr>cqt_bucket := fold (\<lambda>(k, e). gput k (Some e)) (cqt_entries t1) (cqt_bucket t1)\<rparr> in
          case markMigrated io (cqt_disk t2) of
            (False, d) \<Rightarrow> (False, t2\<lparr>cqt_disk := d\<rparr>)
          | (True, d) \<Rightarrow>
              (case bakJSON io d of (b, d') \<Rightarrow> (b, t2\<lparr>cqt_disk := d', cqt_bbolt := True\<rparr>)))"

definition initContributionQuotaTracker ::
    "io_env \<Rightarrow> string \<Rightarrow> quota_rows domain_store \<Rightarrow> (string, ContributionQuota option) gomap
     \<Rightarrow> ContributionQuotaTracker" where
  "initContributionQuotaTracker io dataDir disk bucket =
     (let t = \<lparr>cqt_dataDir = dataDir, cqt_entries = [], cqt_bbolt = False, cqt_disk = disk,
               cqt_bucket = bucket\<rparr> in
      if io_use_bbolt io then
        if io_open io then
          (case cqt_importToBbolt io t of
             (False, t') \<Rightarrow> cqt_load t'
           | (True, t') \<Rightarrow> cqt_loadBbolt t')
        else cqt_load t
      else cqt_load t)"

section \<open>Operations\<close>

definition Accrue ::
    "io_env \<Rightarrow> int \<Rightarrow> string \<Rightarrow> int \<Rightarrow> ContributionQuotaTracker \<Rightarrow> ContributionQuotaTracker" where
  "Accrue io now peerID tokens t =
     (if peerID = '''' \<or> tokens \<le> 0 then t
      else
        let e = (case gget (cqt_entries t) peerID of Some e \<Rightarrow> e | None \<Rightarrow> zero_quota peerID);
            e1 = e\<lparr>cq_ContributedTokens := i64 (cq_ContributedTokens e + tokens)\<rparr>;
            e2 = e1\<lparr>cq_EarnedFreeQuota := cq_ContributedTokens e1\<rparr>;
            e3 = e2\<lparr>cq_RemainingQuota := remainingLocked e2\<rparr>;
            e4 = e3\<lparr>cq_LastUpdated := now\<rparr>
        in saveEntry io peerID (t\<lparr>cqt_entries := gput peerID e4 (cqt_entries t)\<rparr>))"

definition Consume ::
    "io_env \<Rightarrow> int \<Rightarrow> string \<Rightarrow> int \<Rightarrow> ContributionQuotaTracker \<Rightarrow> (bool \<times> int) \<times> ContributionQuotaTracker" where
  "Consume io now peerID tokens t =
     (if peerID = '''' \<or> tokens \<le> 0 then ((False, 0), t)
      else case gget (cqt_entries t) peerID of
        None \<Rightarrow> ((False, 0), t)
      | Some e \<Rightarrow>
          let remaining = remainingLocked e in
          if remaining < tokens then ((False, remaining), t)
          else
            let e1 = e\<lparr>cq_ConsumedQuota := i64 (cq_ConsumedQuota e + tokens)\<rparr>;
                e2 = e1\<lparr>cq_RemainingQuota := remainingLocked e1, cq_LastUpdated := now\<rparr>
            in ((True, cq_RemainingQuota e2),
                saveEntry io peerID (t\<lparr>cqt_entries := gput peerID e2 (cqt_entries t)\<rparr>)))"

definition Refund ::
    "io_env \<Rightarrow> int \<Rightarrow> string \<Rightarrow> int \<Rightarrow> ContributionQuotaTracker \<Rightarrow> ContributionQuotaTracker" where
  "Refund io now peerID tokens t =
     (if peerID = '''' \<or> tokens \<le> 0 then t
      else case gget (cqt_entries t) peerID of
        None \<Rightarrow> t
      | Some e \<Rightarrow>
          let e1 = e\<lparr>cq_ConsumedQuota := i64 (cq_ConsumedQuota e - tokens)\<rparr>;
              e2 = (if cq_ConsumedQuota e1 < 0 then e1\<lparr>cq_ConsumedQuota := 0\<rparr> else e1);
              e3 = e2\<lparr>cq_RemainingQuota := remainingLocked e2, cq_LastUpdated := now\<rparr>
          in saveEntry io peerID (t\<lparr>cqt_entries := gput peerID e3 (cqt_entries t)\<rparr>))"

definition Remaining :: "ContributionQuotaTracker \<Rightarrow> string \<Rightarrow> int" where
  "Remaining t peerID =
     (if peerID = '''' then 0
      else case gget (cqt_entries t) peerID of Some e \<Rightarrow> remainingLocked e | None \<Rightarrow> 0)"

definition GetQuota :: "ContributionQuotaTracker \<Rightarrow> string \<Rightarrow> ContributionQuota option" where
  "GetQuota t peerID =
     (case gget (cqt_entries t) peerID of
        Some e \<Rightarrow> Some (e\<lparr>cq_RemainingQuota := remainingLocked e\<rparr>)
      | None \<Rightarrow> None)"

definition snapshot_less :: "ContributionQuota \<Rightarrow> ContributionQuota \<Rightarrow> bool" where
  "snapshot_less a b =
     (if cq_ContributedTokens a = cq_ContributedTokens b then cq_PeerID a < cq_PeerID b
      else cq_ContributedTokens a > cq_ContributedTokens b)"

definition Snapshot :: "ContributionQuotaTracker \<Rightarrow> ContributionQuota list" where
  "Snapshot t = stable_sort_by snapshot_less
     (map (\<lambda>(k, e). e\<lparr>cq_RemainingQuota := remainingLocked e\<rparr>) (cqt_entries t))"

definition TotalContributed :: "ContributionQuotaTracker \<Rightarrow> int" where
  "TotalContributed t = foldl (\<lambda>s (k, e). i64 (s + cq_ContributedTokens e)) 0 (cqt_entries t)"

definition TotalConsumed :: "ContributionQuotaTracker \<Rightarrow> int" where
  "TotalConsumed t = foldl (\<lambda>s (k, e). i64 (s + cq_ConsumedQuota e)) 0 (cqt_entries t)"

text \<open>The transparency view of the admin endpoint; \<open>None\<close> is its 503 answer.\<close>

record contribution_view =
  lv_total_contributed :: int
  lv_total_consumed :: int
  lv_total_remaining :: int
  lv_contributors :: "ContributionQuota list"

definition ledgerContributionView :: "ContributionQuotaTracker option \<Rightarrow> contribution_view option" where
  "ledgerContributionView tr =
     (case tr of
        None \<Rightarrow> None
      | Some t \<Rightarrow>
          let total = TotalContributed t; consumed = TotalConsumed t
          in Some \<lparr>lv_total_contributed = total, lv_total_consumed = consumed,
                   lv_total_remaining = i64 (total - consumed), lv_contributors = Snapshot t\<rparr>)"

section \<open>Drawing on the entitlement (ledger\_quota\_consume.go)\<close>

text \<open>
  A request is seen through its headers: \<open>hdr name\<close> is \<open>r.Header.Get(name)\<close>. The tracker variable
  may be nil, hence the option.
\<close>

definition node_id_char :: "char \<Rightarrow> bool" where
  "node_id_char c \<longleftrightarrow> (CHR ''a'' \<le> c \<and> c \<le> CHR ''z'') \<or> (CHR ''A'' \<le> c \<and> c \<le> CHR ''Z'')
     \<or> (CHR ''0'' \<le> c \<and> c \<le> CHR ''9'') \<or> c = CHR ''_'' \<or> c = CHR ''-''"

definition sanitizeNodeID :: "string \<Rightarrow> string" where
  "sanitizeNodeID s =
     (let s' = (if length s > 128 then take 128 s else s)
      in if s' \<noteq> [] \<and> list_all node_id_char s' then s' else '''')"

definition verifiedContributorID :: "(string \<Rightarrow> string) \<Rightarrow> string" where
  "verifiedContributorID hdr =
     (let i = sanitizeNodeID (hdr ''X-Node-ID'')
      in if i = '''' then sanitizeNodeID (hdr ''X-Node-Auth'') else i)"

record contributorDraw =
  dr_PeerID :: string
  dr_Tokens :: int
  dr_Remaining :: int
  dr_OK :: bool

definition no_draw :: contributorDraw where
  "no_draw = \<lparr>dr_PeerID = '''', dr_Tokens = 0, dr_Remaining = 0, dr_OK = False\<rparr>"

definition tryContributorDraw ::
    "io_env \<Rightarrow> int \<Rightarrow> (string \<Rightarrow> string) \<Rightarrow> int \<Rightarrow> ContributionQuotaTracker option
     \<Rightarrow> contributorDraw \<times> ContributionQuotaTracker option" where
  "tryContributorDraw io now hdr tokens tr =
     (case tr of
        None \<Rightarrow> (no_draw, tr)
      | Some t \<Rightarrow>
          if tokens \<le> 0 then (no_draw, tr)
          else
            let peerID = verifiedContributorID hdr in
            if peerID = '''' then (no_draw, tr)
            else
              case Consume io now peerID tokens t of ((ok, remaining), t') \<Rightarrow>
                if \<not> ok then (no_draw\<lparr>dr_PeerID := peerID, dr_Remaining := remaining\<rparr>, Some t')
                else (\<lparr>dr_PeerID = peerID, dr_Tokens = tokens, dr_Remaining = remaining, dr_OK = True\<rparr>,
                      Some t'))"

definition settle ::
    "io_env \<Rightarrow> int \<Rightarrow> contributorDraw \<Rightarrow> int \<Rightarrow> ContributionQuotaTracker option
     \<Rightarrow> ContributionQuotaTracker option" where
  "settle io now d actual tr =
     (case tr of
        None \<Rightarrow> None
      | Some t \<Rightarrow>
          if \<not> dr_OK d then tr
          else if actual \<le> 0 \<or> actual \<ge> dr_Tokens d then tr
          else Some (Refund io now (dr_PeerID d) (i64 (dr_Tokens d - actual)) t))"

section \<open>The invariant\<close>

definition row_ok :: "string \<Rightarrow> ContributionQuota \<Rightarrow> bool" where
  "row_ok k e \<longleftrightarrow> k \<noteq> '''' \<and> cq_PeerID e = k \<and> cq_EarnedFreeQuota e = cq_ContributedTokens e
     \<and> 0 \<le> cq_ConsumedQuota e \<and> cq_ConsumedQuota e \<le> cq_EarnedFreeQuota e
     \<and> cq_RemainingQuota e = cq_EarnedFreeQuota e - cq_ConsumedQuota e
     \<and> in_i64 (cq_ContributedTokens e)"

definition tracker_ok :: "ContributionQuotaTracker \<Rightarrow> bool" where
  "tracker_ok t \<longleftrightarrow> gmap_ok (cqt_entries t) \<and> (\<forall>k e. gget (cqt_entries t) k = Some e \<longrightarrow> row_ok k e)"

lemma remainingLocked_ok: "row_ok k e \<Longrightarrow> remainingLocked e = cq_EarnedFreeQuota e - cq_ConsumedQuota e"
  unfolding row_ok_def remainingLocked_def Let_def
  by (subst i64_diff_nonneg) (auto simp: in_i64_def)

lemma entries_save [simp]: "cqt_entries (saveEntry io p t) = cqt_entries t"
  by (simp add: saveEntry_def cqt_save_def split: option.splits)

lemma bbolt_save [simp]: "cqt_bbolt (saveEntry io p t) = cqt_bbolt t"
  by (simp add: saveEntry_def cqt_save_def split: option.splits)

lemma tracker_ok_save [simp]: "tracker_ok (saveEntry io p t) = tracker_ok t"
  by (simp add: tracker_ok_def)

lemma tracker_ok_put:
  "tracker_ok t \<Longrightarrow> row_ok k e \<Longrightarrow> tracker_ok (t\<lparr>cqt_entries := gput k e (cqt_entries t)\<rparr>)"
  by (auto simp: tracker_ok_def)

lemma tracker_okD: "tracker_ok t \<Longrightarrow> gget (cqt_entries t) k = Some e \<Longrightarrow> row_ok k e"
  by (simp add: tracker_ok_def)

text \<open>The total a peer has contributed so far, and what it consumed (zero when unknown).\<close>

definition contributed_of :: "ContributionQuotaTracker \<Rightarrow> string \<Rightarrow> int" where
  "contributed_of t p = (case gget (cqt_entries t) p of None \<Rightarrow> 0 | Some e \<Rightarrow> cq_ContributedTokens e)"

definition consumed_of :: "ContributionQuotaTracker \<Rightarrow> string \<Rightarrow> int" where
  "consumed_of t p = (case gget (cqt_entries t) p of None \<Rightarrow> 0 | Some e \<Rightarrow> cq_ConsumedQuota e)"

lemma row_ok_accrue:
  assumes "p \<noteq> ''''" and "0 < n" and "gget m p = None \<or> (\<exists>e. gget m p = Some e \<and> row_ok p e)"
    and e: "e = (case gget m p of Some e \<Rightarrow> e | None \<Rightarrow> zero_quota p)"
    and "cq_ContributedTokens e + n < 2 ^ 63"
  shows "row_ok p (e\<lparr>cq_ContributedTokens := i64 (cq_ContributedTokens e + n),
           cq_EarnedFreeQuota := i64 (cq_ContributedTokens e + n),
           cq_RemainingQuota := remainingLocked (e\<lparr>cq_ContributedTokens := i64 (cq_ContributedTokens e + n),
             cq_EarnedFreeQuota := i64 (cq_ContributedTokens e + n)\<rparr>), cq_LastUpdated := now\<rparr>)"
proof -
  have 1: "0 \<le> cq_ConsumedQuota e" "cq_ConsumedQuota e \<le> cq_ContributedTokens e" "cq_PeerID e = p"
    using assms by (auto simp: row_ok_def zero_quota_def split: option.splits)
  then have 2: "in_i64 (cq_ContributedTokens e + n)" using assms(2,5) by (simp add: in_i64_def)
  from 1 have 3: "i64 (cq_ContributedTokens e + n - cq_ConsumedQuota e) = cq_ContributedTokens e + n - cq_ConsumedQuota e"
    using assms(2,5) by (intro i64_id) (simp add: in_i64_def)
  show ?thesis using 1 2 3 assms(1,2) by (simp add: row_ok_def remainingLocked_def Let_def)
qed

lemma Accrue_ok:
  assumes "tracker_ok t" and "contributed_of t p + n < 2 ^ 63"
  shows "tracker_ok (Accrue io now p n t)"
proof (cases "p = '''' \<or> n \<le> 0")
  case False
  let ?e = "case gget (cqt_entries t) p of Some e \<Rightarrow> e | None \<Rightarrow> zero_quota p"
  have "cq_ContributedTokens ?e + n < 2 ^ 63"
    using assms(2) by (auto simp: contributed_of_def zero_quota_def split: option.splits)
  moreover have "gget (cqt_entries t) p = None \<or> (\<exists>e. gget (cqt_entries t) p = Some e \<and> row_ok p e)"
    using assms(1) by (cases "gget (cqt_entries t) p") (auto dest: tracker_okD)
  ultimately show ?thesis using False assms(1) row_ok_accrue [of p n "cqt_entries t" ?e now]
    by (simp add: Accrue_def Let_def tracker_ok_put)
qed (use assms in \<open>auto simp: Accrue_def\<close>)

lemma row_ok_consume:
  assumes "row_ok k e" and "0 < n" and "n \<le> remainingLocked e"
  shows "i64 (cq_ConsumedQuota e + n) = cq_ConsumedQuota e + n"
    and "remainingLocked (e\<lparr>cq_ConsumedQuota := cq_ConsumedQuota e + n\<rparr>) = remainingLocked e - n"
    and "row_ok k (e\<lparr>cq_ConsumedQuota := cq_ConsumedQuota e + n,
           cq_RemainingQuota := remainingLocked e - n, cq_LastUpdated := now\<rparr>)"
proof -
  note rem = remainingLocked_ok [OF assms(1)]
  have 1: "n \<le> cq_EarnedFreeQuota e - cq_ConsumedQuota e" using assms rem by simp
  show "i64 (cq_ConsumedQuota e + n) = cq_ConsumedQuota e + n"
    using assms(1,2) 1 by (intro i64_id) (auto simp: row_ok_def in_i64_def)
  have "i64 (cq_EarnedFreeQuota e - (cq_ConsumedQuota e + n)) = cq_EarnedFreeQuota e - (cq_ConsumedQuota e + n)"
    using assms(1,2) 1 by (intro i64_id) (auto simp: row_ok_def in_i64_def)
  then show "remainingLocked (e\<lparr>cq_ConsumedQuota := cq_ConsumedQuota e + n\<rparr>) = remainingLocked e - n"
    using 1 by (simp add: rem) (simp add: remainingLocked_def)
  show "row_ok k (e\<lparr>cq_ConsumedQuota := cq_ConsumedQuota e + n,
           cq_RemainingQuota := remainingLocked e - n, cq_LastUpdated := now\<rparr>)"
    using assms(1,2) 1 by (auto simp: row_ok_def rem)
qed

text \<open>The two ways a call of \<open>Consume\<close> ends.\<close>

lemma Consume_cases:
  assumes "tracker_ok t"
  obtains (refused) "n \<le> 0 \<or> Remaining t p < n" "Consume io now p n t = ((False, if n \<le> 0 then 0 else Remaining t p), t)"
  | (granted) e where "0 < n" "n \<le> Remaining t p" "p \<noteq> ''''" "gget (cqt_entries t) p = Some e" "row_ok p e"
      "Consume io now p n t = ((True, Remaining t p - n),
         saveEntry io p (t\<lparr>cqt_entries := gput p (e\<lparr>cq_ConsumedQuota := cq_ConsumedQuota e + n,
           cq_RemainingQuota := Remaining t p - n, cq_LastUpdated := now\<rparr>) (cqt_entries t)\<rparr>))"
proof (cases "0 < n \<and> n \<le> Remaining t p")
  case True
  then have p: "p \<noteq> ''''" by (auto simp: Remaining_def)
  with True obtain e where e: "gget (cqt_entries t) p = Some e"
    by (auto simp: Remaining_def split: option.splits)
  with assms have ok: "row_ok p e" by (rule tracker_okD)
  have r: "Remaining t p = remainingLocked e" using e p by (simp add: Remaining_def)
  with row_ok_consume(1,2) [OF ok, of n] True p e show ?thesis
    by (intro granted [OF _ _ p e ok]) (auto simp: Consume_def Let_def)
next
  case False
  have "0 \<le> Remaining t p"
    using assms by (auto simp: Remaining_def remainingLocked_def Let_def split: option.splits)
  with False show ?thesis
    by (intro refused) (auto simp: Consume_def Remaining_def Let_def split: option.splits if_splits)
qed

lemma Consume_ok:
  assumes "tracker_ok t"
  shows "tracker_ok (snd (Consume io now p n t))"
  using assms
proof (cases rule: Consume_cases [of t n p io now])
  case (granted e)
  with assms row_ok_consume(3) [of p e n now] show ?thesis
    by (simp add: Remaining_def tracker_ok_put)
qed (use assms in simp_all)

lemma row_ok_refund:
  assumes "row_ok k e" and "0 < n" and "in_i64 n"
  defines "c \<equiv> max 0 (cq_ConsumedQuota e - n)"
  shows "i64 (cq_ConsumedQuota e - n) = cq_ConsumedQuota e - n"
    and "row_ok k (e\<lparr>cq_ConsumedQuota := c, cq_RemainingQuota := remainingLocked (e\<lparr>cq_ConsumedQuota := c\<rparr>),
           cq_LastUpdated := now\<rparr>)"
proof -
  show "i64 (cq_ConsumedQuota e - n) = cq_ConsumedQuota e - n"
    using assms by (intro i64_id) (auto simp: row_ok_def in_i64_def)
  have "i64 (cq_EarnedFreeQuota e - c) = cq_EarnedFreeQuota e - c"
    using assms by (intro i64_id) (auto simp: row_ok_def in_i64_def)
  then show "row_ok k (e\<lparr>cq_ConsumedQuota := c,
      cq_RemainingQuota := remainingLocked (e\<lparr>cq_ConsumedQuota := c\<rparr>), cq_LastUpdated := now\<rparr>)"
    using assms by (auto simp: row_ok_def remainingLocked_def Let_def)
qed

lemma Refund_eq:
  assumes "tracker_ok t" and "in_i64 n"
  shows "Refund io now p n t =
     (if p = '''' \<or> n \<le> 0 then t
      else case gget (cqt_entries t) p of None \<Rightarrow> t
      | Some e \<Rightarrow>
          let c = max 0 (cq_ConsumedQuota e - n) in
          saveEntry io p (t\<lparr>cqt_entries := gput p (e\<lparr>cq_ConsumedQuota := c,
            cq_RemainingQuota := remainingLocked (e\<lparr>cq_ConsumedQuota := c\<rparr>), cq_LastUpdated := now\<rparr>) (cqt_entries t)\<rparr>))"
proof (cases "p = '''' \<or> n \<le> 0 \<or> gget (cqt_entries t) p = None")
  case False
  then obtain e where e: "gget (cqt_entries t) p = Some e" by auto
  with assms(1) have "row_ok p e" by (rule tracker_okD)
  with False assms(2) have 1: "i64 (cq_ConsumedQuota e - n) = cq_ConsumedQuota e - n"
    by (intro row_ok_refund(1)) auto
  show ?thesis
  proof (cases "cq_ConsumedQuota e < n")
    case True
    with 1 e False show ?thesis by (simp add: Refund_def Let_def max_def)
  next
    case False
    with 1 e \<open>\<not> (p = '''' \<or> n \<le> 0 \<or> gget (cqt_entries t) p = None)\<close> show ?thesis
      by (simp add: Refund_def Let_def max_def)
  qed
qed (auto simp: Refund_def)

lemma Refund_ok: "tracker_ok t \<Longrightarrow> in_i64 n \<Longrightarrow> tracker_ok (Refund io now p n t)"
  by (auto simp: Refund_eq Let_def row_ok_refund(2) intro!: tracker_ok_put dest: tracker_okD split: option.splits)

section \<open>The entitlement as a quota source\<close>

definition consume_req ::
    "string \<Rightarrow> io_env \<times> int \<times> int \<Rightarrow> ContributionQuotaTracker \<Rightarrow> bool \<times> ContributionQuotaTracker" where
  "consume_req p r t = (case r of (io, now, n) \<Rightarrow> case Consume io now p n t of ((b, _), t') \<Rightarrow> (b, t'))"

definition req_tokens :: "io_env \<times> int \<times> int \<Rightarrow> int" where
  "req_tokens r = snd (snd r)"

lemma Remaining_saved:
  "p \<noteq> '''' \<Longrightarrow> Remaining (saveEntry io q (t\<lparr>cqt_entries := gput p e m\<rparr>)) p = remainingLocked e"
  by (simp add: Remaining_def)

lemma Remaining_ok_nonneg: "0 \<le> Remaining t p"
  by (auto simp: Remaining_def remainingLocked_def Let_def split: option.splits)

lemma Consume_left:
  assumes "tracker_ok t" and "Consume io now p n t = ((b, r), t')"
  shows "Remaining t' p = Remaining t p - (if b then n else 0) \<and> (b \<longleftrightarrow> 0 < n \<and> n \<le> Remaining t p)"
  using assms(1)
proof (cases rule: Consume_cases [of t n p io now])
  case (granted e)
  have r: "Remaining t p = remainingLocked e" using granted by (simp add: Remaining_def)
  with row_ok_consume(2) [OF granted(5) granted(1)] granted(2)
  have "remainingLocked (e\<lparr>cq_ConsumedQuota := cq_ConsumedQuota e + n\<rparr>) = remainingLocked e - n" by simp
  with granted r assms(2) show ?thesis
    by (auto simp: Remaining_saved remainingLocked_def)
qed (use assms in auto)

lemma consume_req_step:
  assumes "tracker_ok t" and "consume_req p r t = (b, t')"
  shows "tracker_ok t' \<and> Remaining t' p = Remaining t p - (if b then req_tokens r else 0)
    \<and> (b \<longleftrightarrow> 0 < req_tokens r \<and> req_tokens r \<le> Remaining t p)"
proof -
  obtain io now n where r: "r = (io, now, n)" by (cases r)
  obtain x where x: "Consume io now p n t = ((b, x), t')"
    using assms(2) r by (auto simp: consume_req_def split: prod.splits)
  from Consume_left [OF assms(1) x] Consume_ok [OF assms(1), of io now p n] show ?thesis
    by (simp add: r x req_tokens_def)
qed

interpretation cq: quota_source "consume_req p" req_tokens "\<lambda>t. Remaining t p" tracker_ok for p
proof (unfold_locales, goal_cases)
  case (1 s r s')
  then show ?case using consume_req_step [of s p r False s'] by auto
next
  case (2 s r s')
  then show ?case using consume_req_step [of s p r True s'] by auto
next
  case (3 s)
  show ?case by (rule Remaining_ok_nonneg)
next
  case (4 s r)
  then show ?case using consume_req_step [of s p r] by (cases "consume_req p r s") auto
qed

section \<open>What is on disk\<close>

definition rows_ok :: "quota_rows \<Rightarrow> bool" where
  "rows_ok m \<longleftrightarrow> gmap_ok m \<and> (\<forall>k e. gget m k = Some e \<longrightarrow> row_ok k e)"

definition disk_ok :: "ContributionQuotaTracker \<Rightarrow> bool" where
  "disk_ok t \<longleftrightarrow> (\<forall>m. ds_json (cqt_disk t) = Content m \<longrightarrow> rows_ok m) \<and> gmap_ok (cqt_bucket t)
     \<and> (\<forall>k e. gget (cqt_bucket t) k = Some (Some e) \<longrightarrow> row_ok k e)"

lemma tracker_ok_rows: "tracker_ok t \<longleftrightarrow> rows_ok (cqt_entries t)"
  by (simp add: tracker_ok_def rows_ok_def)

lemma renormalize_ok [simp]: "row_ok k e \<Longrightarrow> renormalize e = e"
  using remainingLocked_ok [of k e]
  by (cases e) (auto simp: row_ok_def renormalize_def Let_def)

lemma rows_ok_renormalize: "rows_ok m \<Longrightarrow> gmapv renormalize m = m"
proof -
  assume m: "rows_ok m"
  have "renormalize (snd x) = snd x" if "x \<in> set m" for x
    using that m in_set_gget [of m "fst x" "snd x"] renormalize_ok [of "fst x" "snd x"]
    by (simp add: rows_ok_def)
  then show ?thesis unfolding gmapv_def by (intro map_idI) simp
qed

lemma gget_decode_bucket:
  "gmap_ok b \<Longrightarrow> gget (decode_bucket b) k = (case gget b k of None \<Rightarrow> None | Some v \<Rightarrow> v)"
  by (induction b rule: decode_bucket.induct) (auto split: option.splits)

lemma gmap_ok_decode_bucket: "gmap_ok b \<Longrightarrow> gmap_ok (decode_bucket b)"
  by (induction b rule: decode_bucket.induct) (auto simp: gget_decode_bucket)

lemma rows_ok_bucket: "disk_ok t \<Longrightarrow> rows_ok (decode_bucket (cqt_bucket t))"
  by (auto simp: disk_ok_def rows_ok_def gmap_ok_decode_bucket gget_decode_bucket split: option.splits)

lemma rows_ok_Nil [simp]: "rows_ok []"
  by (simp add: rows_ok_def)

lemma cqt_load_ok: "tracker_ok t \<Longrightarrow> disk_ok t \<Longrightarrow> tracker_ok (cqt_load t) \<and> disk_ok (cqt_load t)"
  unfolding cqt_load_def
  by (auto simp: tracker_ok_rows disk_ok_def rows_ok_renormalize split: stored_file.splits)

lemma cqt_loadBbolt_ok: "disk_ok t \<Longrightarrow> tracker_ok (cqt_loadBbolt t) \<and> disk_ok (cqt_loadBbolt t)"
  using rows_ok_bucket [of t]
  by (auto simp: cqt_loadBbolt_def tracker_ok_rows rows_ok_renormalize disk_ok_def)

lemma saveEntry_disk_ok: "tracker_ok t \<Longrightarrow> disk_ok t \<Longrightarrow> disk_ok (saveEntry io p t)"
  by (auto simp: saveEntry_def cqt_save_def disk_ok_def tracker_ok_rows rows_ok_def atomicWriteFile_def
      split: option.splits if_splits)

lemma gget_fold_put:
  "gmap_ok m \<Longrightarrow> gget (fold (\<lambda>(k, e). gput k (Some e)) m b) j =
     (case gget m j of None \<Rightarrow> gget b j | Some e \<Rightarrow> Some (Some e))"
  by (induction m arbitrary: b) (auto split: option.splits)

lemma gmap_ok_fold_put: "gmap_ok b \<Longrightarrow> gmap_ok (fold (\<lambda>(k, e). gput k (Some e)) m b)"
  by (induction m arbitrary: b) auto

lemma bakJSON_content:
  "ds_json (snd (bakJSON io d)) = Content m \<Longrightarrow> ds_json d = Content m"
  by (auto simp: bakJSON_def split: if_splits)

text \<open>Copying the entries into the bucket keeps what is on disk well-formed.\<close>

lemma disk_ok_import:
  assumes "tracker_ok t" and "disk_ok t"
  shows "disk_ok (t\<lparr>cqt_bucket := fold (\<lambda>(k, e). gput k (Some e)) (cqt_entries t) (cqt_bucket t)\<rparr>)"
  using assms
  by (auto simp: disk_ok_def tracker_ok_def gget_fold_put gmap_ok_fold_put split: option.splits)

lemma disk_ok_change:
  assumes "disk_ok t" and "\<And>m. ds_json d = Content m \<Longrightarrow> ds_json (cqt_disk t) = Content m"
  shows "disk_ok (t\<lparr>cqt_disk := d\<rparr>)" "disk_ok (t\<lparr>cqt_disk := d, cqt_bbolt := b\<rparr>)"
  using assms by (auto simp: disk_ok_def)

lemma cqt_importToBbolt_ok:
  assumes "tracker_ok t" and "disk_ok t"
  shows "tracker_ok (snd (cqt_importToBbolt io t)) \<and> disk_ok (snd (cqt_importToBbolt io t))"
proof -
  define t1 where "t1 = (if ds_json (cqt_disk t) \<noteq> Absent then cqt_load t else t)"
  define t2 where "t2 = t1\<lparr>cqt_bucket := fold (\<lambda>(k, e). gput k (Some e)) (cqt_entries t1) (cqt_bucket t1)\<rparr>"
  have 1: "tracker_ok t1" "disk_ok t1" using assms cqt_load_ok by (auto simp: t1_def)
  then have 2: "tracker_ok t2" "disk_ok t2" using disk_ok_import by (simp_all add: tracker_ok_def t2_def)
  have bak: "ds_json d' = Content m \<Longrightarrow> ds_json d = Content m" if "bakJSON io d = (b, d')" for b d d' m
    using that bakJSON_content [of io d m] by simp
  have mark: "ds_json d' = ds_json d" if "markMigrated io d = (b, d')" for b d d'
    using that markMigrated_json [of io d] by simp
  show ?thesis
  proof (cases "isMigrated (cqt_disk t)")
    case True
    obtain b d where bd: "bakJSON io (cqt_disk t) = (b, d)" by fastforce
    have "disk_ok (t\<lparr>cqt_disk := d\<rparr>)" "disk_ok (t\<lparr>cqt_disk := d, cqt_bbolt := True\<rparr>)"
      using bak [OF bd] by (auto intro!: disk_ok_change [OF assms(2)])
    with True bd assms(1) show ?thesis
      by (cases b) (simp_all add: cqt_importToBbolt_def tracker_ok_def)
  next
    case False
    obtain b d where mk: "markMigrated io (cqt_disk t2) = (b, d)" by fastforce
    obtain b' d' where bd: "bakJSON io d = (b', d')" by fastforce
    have "disk_ok (t2\<lparr>cqt_disk := d\<rparr>)" "disk_ok (t2\<lparr>cqt_disk := d', cqt_bbolt := True\<rparr>)"
      by (rule disk_ok_change [OF 2(2)], use bak [OF bd] mark [OF mk] in simp)+
    moreover have "cqt_importToBbolt io t =
        (if \<not> io_update io then (False, t1) else if \<not> b then (False, t2\<lparr>cqt_disk := d\<rparr>)
         else (b', t2\<lparr>cqt_disk := d', cqt_bbolt := True\<rparr>))"
      unfolding cqt_importToBbolt_def Let_def t1_def [symmetric] t2_def [symmetric]
      using False mk bd by (cases b) simp_all
    ultimately show ?thesis using 1 2(1) by (auto simp: tracker_ok_def)
  qed
qed

lemma init_ok:
  assumes "disk_ok t"
  shows "tracker_ok (initContributionQuotaTracker io dir (cqt_disk t) (cqt_bucket t))
    \<and> disk_ok (initContributionQuotaTracker io dir (cqt_disk t) (cqt_bucket t))"
proof -
  let ?t = "\<lparr>cqt_dataDir = dir, cqt_entries = [], cqt_bbolt = False, cqt_disk = cqt_disk t, cqt_bucket = cqt_bucket t\<rparr>"
  have "tracker_ok ?t" "disk_ok ?t" using assms by (auto simp: tracker_ok_rows disk_ok_def)
  moreover obtain b t' where imp: "cqt_importToBbolt io ?t = (b, t')" by fastforce
  ultimately have "tracker_ok t'" "disk_ok t'" using cqt_importToBbolt_ok [of ?t io] by simp_all
  then show ?thesis
    using imp cqt_load_ok [of t'] cqt_load_ok [of ?t] cqt_loadBbolt_ok [of t'] \<open>tracker_ok ?t\<close> \<open>disk_ok ?t\<close>
    by (cases b) (simp_all add: initContributionQuotaTracker_def Let_def)
qed

section \<open>The life of a tracker\<close>

text \<open>
  The steps of a tracker: the operations with any clock and any outcome of their write (an accrual
  as long as the peer's total fits into 64 bits), and a restart of the process, which finds on disk
  what the previous life left there.
\<close>

inductive cq_step :: "ContributionQuotaTracker \<Rightarrow> ContributionQuotaTracker \<Rightarrow> bool" where
  accrue: "contributed_of t p + n < 2 ^ 63 \<Longrightarrow> cq_step t (Accrue io now p n t)"
| consume: "cq_step t (snd (Consume io now p n t))"
| refund: "in_i64 n \<Longrightarrow> cq_step t (Refund io now p n t)"
| restart: "cq_step t (initContributionQuotaTracker io dir (cqt_disk t) (cqt_bucket t))"

inductive cq_reachable :: "ContributionQuotaTracker \<Rightarrow> bool" where
  fresh: "cq_reachable (initContributionQuotaTracker io dir \<lparr>ds_json = Absent, ds_bak = False, ds_migrated = False\<rparr> [])"
| step: "cq_reachable t \<Longrightarrow> cq_step t t' \<Longrightarrow> cq_reachable t'"

inductive_cases cq_stepE: "cq_step t t'"

lemma disk_ok_saved:
  "tracker_ok (t\<lparr>cqt_entries := m\<rparr>) \<Longrightarrow> disk_ok t \<Longrightarrow> disk_ok (saveEntry io p (t\<lparr>cqt_entries := m\<rparr>))"
  by (rule saveEntry_disk_ok) (auto simp: disk_ok_def)

lemma Accrue_disk_ok:
  assumes "tracker_ok t" and "disk_ok t" and "contributed_of t p + n < 2 ^ 63"
  shows "disk_ok (Accrue io now p n t)"
  using Accrue_ok [OF assms(1,3), of io now] assms(2)
  by (auto simp: Accrue_def Let_def intro!: disk_ok_saved split: if_splits)

lemma Consume_disk_ok:
  assumes "tracker_ok t" and "disk_ok t"
  shows "disk_ok (snd (Consume io now p n t))"
  using Consume_ok [OF assms(1), of io now p n] assms(2)
  by (auto simp: Consume_def Let_def intro!: disk_ok_saved split: if_splits option.splits)

lemma Refund_disk_ok:
  assumes "tracker_ok t" and "disk_ok t" and "in_i64 n"
  shows "disk_ok (Refund io now p n t)"
  using Refund_ok [OF assms(1,3), of io now p] assms(2)
  by (auto simp: Refund_def Let_def intro!: disk_ok_saved split: if_splits option.splits)

lemma cq_step_ok: "cq_step t t' \<Longrightarrow> tracker_ok t \<Longrightarrow> disk_ok t \<Longrightarrow> tracker_ok t' \<and> disk_ok t'"
  by (elim cq_stepE)
    (simp_all add: Accrue_ok Accrue_disk_ok Consume_ok Consume_disk_ok Refund_ok Refund_disk_ok init_ok)

lemma cq_reachable_ok: "cq_reachable t \<Longrightarrow> tracker_ok t \<and> disk_ok t"
proof (induction rule: cq_reachable.induct)
  case (fresh io dir)
  let ?d = "\<lparr>ds_json = Absent, ds_bak = False, ds_migrated = False\<rparr>"
  have "disk_ok \<lparr>cqt_dataDir = dir, cqt_entries = [], cqt_bbolt = False, cqt_disk = ?d, cqt_bucket = []\<rparr>"
    by (simp add: disk_ok_def)
  from init_ok [OF this, of io dir] show ?case by simp
next
  case (step t t')
  then show ?case by (simp add: cq_step_ok)
qed

section \<open>Restarts\<close>

datatype cq_op = OpAccrue int string int | OpConsume int string int | OpRefund int string int

fun cq_apply :: "io_env \<Rightarrow> cq_op \<Rightarrow> ContributionQuotaTracker \<Rightarrow> ContributionQuotaTracker" where
  "cq_apply io (OpAccrue now p n) t = Accrue io now p n t"
| "cq_apply io (OpConsume now p n) t = snd (Consume io now p n t)"
| "cq_apply io (OpRefund now p n) t = Refund io now p n t"

text \<open>Memory and disk agree; the JSON backend has not been migrated, the other one has.\<close>

definition synced :: "ContributionQuotaTracker \<Rightarrow> bool" where
  "synced t \<longleftrightarrow>
     (if cqt_bbolt t
      then isMigrated (cqt_disk t) \<and> (\<forall>k. gget (cqt_bucket t) k = map_option Some (gget (cqt_entries t) k))
      else cqt_dataDir t \<noteq> '''' \<and> \<not> isMigrated (cqt_disk t) \<and> cqt_bucket t = []
         \<and> (ds_json (cqt_disk t) = Content (cqt_entries t) \<or> ds_json (cqt_disk t) = Absent \<and> cqt_entries t = []))"

lemma synced_saved:
  assumes "synced t" and "io_update io" and "io_write io"
  shows "synced (saveEntry io p (t\<lparr>cqt_entries := gput p e (cqt_entries t)\<rparr>))"
  using assms
  by (auto simp: synced_def saveEntry_def cqt_save_def atomicWriteFile_def isMigrated_def)

lemma synced_apply:
  assumes "synced t" and "io_update io" and "io_write io"
  shows "synced (cq_apply io op t)"
  using assms
  by (cases op) (auto simp: Accrue_def Consume_def Refund_def Let_def synced_saved split: option.splits)

lemma synced_exec:
  assumes "synced t" and "io_update io" and "io_write io"
  shows "synced (fold (cq_apply io) ops t)"
  using assms by (induction ops arbitrary: t) (auto simp: synced_apply)

text \<open>The operations of a run stay within 64 bits.\<close>

fun cq_fits :: "io_env \<Rightarrow> cq_op list \<Rightarrow> ContributionQuotaTracker \<Rightarrow> bool" where
  "cq_fits io [] t = True"
| "cq_fits io (op # ops) t =
     ((case op of OpAccrue now p n \<Rightarrow> contributed_of t p + n < 2 ^ 63
       | OpConsume now p n \<Rightarrow> True | OpRefund now p n \<Rightarrow> in_i64 n)
      \<and> cq_fits io ops (cq_apply io op t))"

lemma bbolt_apply: "cqt_bbolt (cq_apply io op t) = cqt_bbolt t"
  by (cases op) (auto simp: Accrue_def Consume_def Refund_def Let_def split: option.splits)

lemma cq_exec_ok:
  "cq_fits io ops t \<Longrightarrow> tracker_ok t \<Longrightarrow> disk_ok t \<Longrightarrow>
     tracker_ok (fold (cq_apply io) ops t) \<and> disk_ok (fold (cq_apply io) ops t)
     \<and> cqt_bbolt (fold (cq_apply io) ops t) = cqt_bbolt t"
proof (induction ops arbitrary: t)
  case (Cons op ops)
  have "cq_step t (cq_apply io op t)"
    using Cons.prems(1) by (cases op) (auto intro: cq_step.intros)
  with Cons cq_step_ok [of t] show ?case by (auto simp: bbolt_apply)
qed simp

lemma restart_bbolt:
  assumes "synced t" and "disk_ok t" and "cqt_bbolt t"
  shows "gget (cqt_entries (initContributionQuotaTracker (io_fine True) (cqt_dataDir t) (cqt_disk t) (cqt_bucket t))) k
    = gget (cqt_entries t) k"
proof -
  obtain d where d: "bakJSON (io_fine True) (cqt_disk t) = (True, d)" using bakJSON_fine by blast
  have rows: "gmapv renormalize (decode_bucket (cqt_bucket t)) = decode_bucket (cqt_bucket t)"
    by (rule rows_ok_renormalize) (rule rows_ok_bucket [OF assms(2)])
  have "gget (decode_bucket (cqt_bucket t)) k = gget (cqt_entries t) k"
    using assms by (auto simp: gget_decode_bucket disk_ok_def synced_def split: option.splits)
  with assms(1,3) d rows show ?thesis
    by (simp add: initContributionQuotaTracker_def Let_def cqt_importToBbolt_def synced_def cqt_loadBbolt_def)
       (simp add: io_fine_def)
qed

text \<open>A restart on the JSON backend, or the restart that migrates to the key-value backend.\<close>

lemma restart_json:
  assumes "synced t" and "tracker_ok t" and "\<not> cqt_bbolt t"
  shows "gget (cqt_entries (initContributionQuotaTracker (io_fine use) (cqt_dataDir t) (cqt_disk t) (cqt_bucket t))) k
    = gget (cqt_entries t) k"
proof -
  let ?t0 = "\<lparr>cqt_dataDir = cqt_dataDir t, cqt_entries = [], cqt_bbolt = False, cqt_disk = cqt_disk t, cqt_bucket = []\<rparr>"
  have rows: "rows_ok (cqt_entries t)" using assms(2) by (simp add: tracker_ok_rows)
  have b: "cqt_bucket t = []" "\<not> isMigrated (cqt_disk t)" "cqt_dataDir t \<noteq> []"
    using assms by (auto simp: synced_def)
  have ld: "cqt_entries (cqt_load ?t0) = cqt_entries t" "cqt_bucket (cqt_load ?t0) = []"
      "cqt_disk (cqt_load ?t0) = cqt_disk t"
    using assms(1,3) rows b(3)
    by (auto simp: synced_def cqt_load_def rows_ok_renormalize split: stored_file.splits)
  show ?thesis
  proof (cases use)
    case True
    define b1 where "b1 = fold (\<lambda>(k, e). gput k (Some e)) (cqt_entries t) []"
    have ok: "rows_ok (decode_bucket b1)" "gget (decode_bucket b1) k = gget (cqt_entries t) k"
      using rows by (auto simp: b1_def rows_ok_def gmap_ok_fold_put gmap_ok_decode_bucket gget_decode_bucket
          gget_fold_put split: option.splits)
    obtain d' where d': "bakJSON (io_fine use) ((cqt_disk t)\<lparr>ds_migrated := True\<rparr>) = (True, d')"
      using bakJSON_fine by blast
    have "\<exists>t'. cqt_importToBbolt (io_fine use) ?t0 = (True, t') \<and> cqt_bucket t' = b1"
      using b(2) d' ld assms(1,3)
      by (auto simp: cqt_importToBbolt_def Let_def markMigrated_def b1_def synced_def) (auto simp: io_fine_def)
    then obtain t' where "cqt_importToBbolt (io_fine use) ?t0 = (True, t')" "cqt_bucket t' = b1" by blast
    with True b(1) ok show ?thesis
      by (simp add: initContributionQuotaTracker_def cqt_loadBbolt_def rows_ok_renormalize)
         (simp add: io_fine_def cqt_loadBbolt_def rows_ok_renormalize)
  next
    case False
    with ld(1) b show ?thesis by (simp add: initContributionQuotaTracker_def io_fine_def)
  qed
qed

section \<open>Sums over all contributors\<close>

lemma foldl_i64:
  "in_i64 s \<Longrightarrow> foldl (\<lambda>s (k, e). i64 (s + f e)) s m = i64 (s + gsum f m)"
proof (induction m arbitrary: s)
  case (Cons x m)
  then show ?case by (cases x) (simp add: gsum_def i64_add_i64 i64_range add.assoc)
qed (simp add: gsum_def)

lemma gsum_rows:
  assumes "rows_ok m"
  shows "0 \<le> gsum cq_ConsumedQuota m" "gsum cq_ConsumedQuota m \<le> gsum cq_ContributedTokens m"
    "gsum cq_ContributedTokens m - gsum cq_ConsumedQuota m = gsum remainingLocked m"
proof -
  have row: "row_ok (fst x) (snd x)" if "x \<in> set m" for x
    using that assms in_set_gget [of m "fst x" "snd x"] by (simp add: rows_ok_def)
  show "0 \<le> gsum cq_ConsumedQuota m" by (rule gsum_nonneg) (use row in \<open>auto simp: row_ok_def\<close>)
  show "gsum cq_ConsumedQuota m \<le> gsum cq_ContributedTokens m"
    by (rule gsum_mono) (metis row row_ok_def)
  show "gsum cq_ContributedTokens m - gsum cq_ConsumedQuota m = gsum remainingLocked m"
    using row
  proof (induction m)
    case (Cons x m)
    have "row_ok (fst x) (snd x)" using Cons.prems by auto
    then have "remainingLocked (snd x) = cq_ContributedTokens (snd x) - cq_ConsumedQuota (snd x)"
      using remainingLocked_ok row_ok_def by metis
    with Cons show ?case by (simp add: gsum_def)
  qed (simp add: gsum_def)
qed

section \<open>The abstract ledger\<close>

text \<open>
  What the tracker promises, without maps, clocks or disks: per peer a pair of a donated and a spent
  amount. Donations add up; a draw is granted exactly when it is covered; a refund gives back, but
  never below zero.
\<close>

type_synonym ledger = "string \<Rightarrow> int \<times> int"

definition abs_ledger :: "ContributionQuotaTracker \<Rightarrow> ledger" where
  "abs_ledger t p = (contributed_of t p, consumed_of t p)"

definition spec_donate :: "string \<Rightarrow> int \<Rightarrow> ledger \<Rightarrow> ledger" where
  "spec_donate p n l = (if p = '''' \<or> n \<le> 0 then l else l(p := (fst (l p) + n, snd (l p))))"

definition spec_covered :: "string \<Rightarrow> int \<Rightarrow> ledger \<Rightarrow> bool" where
  "spec_covered p n l \<longleftrightarrow> 0 < n \<and> n \<le> fst (l p) - snd (l p)"

definition spec_draw :: "string \<Rightarrow> int \<Rightarrow> ledger \<Rightarrow> bool \<times> ledger" where
  "spec_draw p n l =
     (if spec_covered p n l then (True, l(p := (fst (l p), snd (l p) + n))) else (False, l))"

definition spec_refund :: "string \<Rightarrow> int \<Rightarrow> ledger \<Rightarrow> ledger" where
  "spec_refund p n l = (if p = '''' \<or> n \<le> 0 then l else l(p := (fst (l p), max 0 (snd (l p) - n))))"

lemma abs_saved [simp]: "abs_ledger (saveEntry io p t) = abs_ledger t"
  by (simp add: abs_ledger_def contributed_of_def consumed_of_def fun_eq_iff)

lemma abs_put:
  "abs_ledger (t\<lparr>cqt_entries := gput p e (cqt_entries t)\<rparr>) =
     (abs_ledger t)(p := (cq_ContributedTokens e, cq_ConsumedQuota e))"
  by (auto simp: abs_ledger_def contributed_of_def consumed_of_def fun_eq_iff)

lemma abs_Some: "gget (cqt_entries t) p = Some e \<Longrightarrow> abs_ledger t p = (cq_ContributedTokens e, cq_ConsumedQuota e)"
  by (simp add: abs_ledger_def contributed_of_def consumed_of_def)

lemma abs_None: "gget (cqt_entries t) p = None \<Longrightarrow> abs_ledger t p = (0, 0)"
  by (simp add: abs_ledger_def contributed_of_def consumed_of_def)

lemma covered_Remaining:
  assumes "tracker_ok t"
  shows "spec_covered p n (abs_ledger t) \<longleftrightarrow> 0 < n \<and> n \<le> Remaining t p"
proof (cases "gget (cqt_entries t) p")
  case (Some e)
  with assms have ok: "row_ok p e" by (rule tracker_okD)
  then have "p \<noteq> ''''" "cq_EarnedFreeQuota e = cq_ContributedTokens e" by (auto simp: row_ok_def)
  with Some remainingLocked_ok [OF ok] show ?thesis by (simp add: spec_covered_def abs_Some Remaining_def)
qed (auto simp: spec_covered_def abs_None Remaining_def)

lemma Accrue_refines:
  assumes "tracker_ok t" and "contributed_of t p + n < 2 ^ 63"
  shows "abs_ledger (Accrue io now p n t) = spec_donate p n (abs_ledger t)"
proof (cases "p = '''' \<or> n \<le> 0")
  case False
  define e where "e = (case gget (cqt_entries t) p of Some e \<Rightarrow> e | None \<Rightarrow> zero_quota p)"
  have e: "abs_ledger t p = (cq_ContributedTokens e, cq_ConsumedQuota e)" "0 \<le> cq_ContributedTokens e"
    using assms(1) by (auto simp: e_def abs_Some abs_None zero_quota_def row_ok_def split: option.splits dest: tracker_okD)
  then have "i64 (cq_ContributedTokens e + n) = cq_ContributedTokens e + n"
    using assms(2) False by (intro i64_id) (simp add: in_i64_def abs_ledger_def)
  with False e show ?thesis by (simp add: Accrue_def Let_def spec_donate_def abs_put flip: e_def)
qed (auto simp: Accrue_def spec_donate_def)

lemma Consume_refines:
  assumes "tracker_ok t"
  shows "(case Consume io now p n t of ((b, _), t') \<Rightarrow> (b, abs_ledger t')) = spec_draw p n (abs_ledger t)"
  using assms
proof (cases rule: Consume_cases [of t n p io now])
  case refused
  then show ?thesis by (auto simp: spec_draw_def covered_Remaining [OF assms])
next
  case (granted e)
  then show ?thesis by (simp add: spec_draw_def covered_Remaining [OF assms] abs_put abs_Some)
qed

lemma Refund_refines:
  assumes "tracker_ok t" and "in_i64 n"
  shows "abs_ledger (Refund io now p n t) = spec_refund p n (abs_ledger t)"
proof (cases "gget (cqt_entries t) p")
  case None
  with abs_None [OF None] show ?thesis by (auto simp: Refund_eq [OF assms] spec_refund_def fun_eq_iff)
next
  case (Some e)
  then show ?thesis by (auto simp: Refund_eq [OF assms] spec_refund_def Let_def abs_put abs_Some)
qed

section \<open>Properties\<close>

text \<open>
  (C1) Whatever operations and restarts a tracker has been through, with whatever outcomes of its
  writes, every row pays out exactly what was donated: earned equals contributed, the consumed
  amount lies between zero and the earned amount, and the remaining amount is their difference.
\<close>

theorem entitlement_invariant:
  assumes "cq_reachable t" and "gget (cqt_entries t) p = Some e"
  shows "cq_EarnedFreeQuota e = cq_ContributedTokens e \<and> 0 \<le> cq_ConsumedQuota e
    \<and> cq_ConsumedQuota e \<le> cq_EarnedFreeQuota e
    \<and> cq_RemainingQuota e = cq_EarnedFreeQuota e - cq_ConsumedQuota e
    \<and> Remaining t p = cq_RemainingQuota e"
proof -
  have ok: "row_ok p e" using cq_reachable_ok [OF assms(1)] assms(2) by (auto dest: tracker_okD)
  then have "Remaining t p = cq_EarnedFreeQuota e - cq_ConsumedQuota e"
    using assms(2) remainingLocked_ok [OF ok] by (simp add: Remaining_def row_ok_def)
  with ok show ?thesis by (simp add: row_ok_def)
qed

definition demo_fresh :: ContributionQuotaTracker where
  "demo_fresh = initContributionQuotaTracker (io_fine False) ''data'' \<lparr>ds_json = Absent, ds_bak = False, ds_migrated = False\<rparr> []"

definition demo_tracker :: ContributionQuotaTracker where
  "demo_tracker = snd (Consume (io_fine False) 7 ''n1'' 30 (Accrue (io_fine False) 5 ''n1'' 100 demo_fresh))"

lemmas demo_defs = demo_tracker_def demo_fresh_def initContributionQuotaTracker_def io_fine_def cqt_load_def
  Accrue_def Consume_def saveEntry_def cqt_save_def atomicWriteFile_def zero_quota_def remainingLocked_def
  gget_def gput_def i64_def Let_def

lemma demo_fresh_reachable: "cq_reachable demo_fresh"
  unfolding demo_fresh_def by (rule cq_reachable.fresh)

lemma demo_reachable: "cq_reachable demo_tracker"
proof -
  have "contributed_of demo_fresh ''n1'' + 100 < 2 ^ 63"
    by (simp add: demo_fresh_def initContributionQuotaTracker_def io_fine_def cqt_load_def contributed_of_def)
  then have "cq_reachable (Accrue (io_fine False) 5 ''n1'' 100 demo_fresh)"
    by (intro cq_reachable.step [OF demo_fresh_reachable] cq_step.accrue)
  then show ?thesis unfolding demo_tracker_def by (rule cq_reachable.step) (rule cq_step.consume)
qed

lemma demo_row:
  "gget (cqt_entries demo_tracker) ''n1'' = Some \<lparr>cq_PeerID = ''n1'', cq_ContributedTokens = 100,
     cq_EarnedFreeQuota = 100, cq_ConsumedQuota = 30, cq_RemainingQuota = 70, cq_LastUpdated = 7\<rparr>"
  by (simp add: demo_defs)

theorem entitlement_invariant_witness:
  "cq_reachable demo_tracker \<and> Remaining demo_tracker ''n1'' = 70"
  using entitlement_invariant [OF demo_reachable demo_row] demo_reachable by simp

text \<open>
  (C2) No sequence of draws over-issues an entitlement: the draws that a peer is granted, whatever
  is asked in whatever order, together with what is left at the end are exactly what was left at the
  start; so the granted total never exceeds it.
\<close>

theorem entitlement_never_overdrawn:
  assumes "cq_reachable t" and "\<forall>r \<in> set rs. 0 \<le> req_tokens r"
    and "run_takes (consume_req p) rs t = (gs, t')"
  shows "sum_list (map req_tokens gs) + Remaining t' p = Remaining t p
    \<and> sum_list (map req_tokens gs) \<le> Remaining t p"
  using cq.run_accounting [of t rs p gs t'] cq.run_never_overissues [of t rs p gs t']
    cq_reachable_ok [OF assms(1)] assms(2,3) by simp

theorem entitlement_never_overdrawn_witness:
  "\<exists>gs t'. run_takes (consume_req ''n1'') [(io_fine False, 8, 60), (io_fine False, 9, 20), (io_fine False, 10, 10)] demo_tracker = (gs, t')
     \<and> sum_list (map req_tokens gs) + Remaining t' ''n1'' = Remaining demo_tracker ''n1''"
proof -
  let ?rs = "[(io_fine False, 8, 60), (io_fine False, 9, 20), (io_fine False, 10, 10)]"
  obtain gs t' where run: "run_takes (consume_req ''n1'') ?rs demo_tracker = (gs, t')" by fastforce
  have pos: "\<forall>r \<in> set ?rs. 0 \<le> req_tokens r" by (simp add: req_tokens_def)
  from entitlement_never_overdrawn [OF demo_reachable pos run] run show ?thesis by blast
qed

text \<open>
  (C23) The tracker refines the abstract ledger: as long as a peer's donations fit into 64 bits, an
  accrual adds to the donated amount, a draw is granted exactly when donated minus spent covers it
  and then adds to the spent amount, and a refund lowers the spent amount, never below zero; nothing
  else changes.
\<close>

theorem tracker_refines_ledger:
  assumes "cq_reachable t" and "in_i64 n" and "contributed_of t p + n < 2 ^ 63"
  shows "abs_ledger (Accrue io now p n t) = spec_donate p n (abs_ledger t)
    \<and> (case Consume io now p n t of ((b, _), t') \<Rightarrow> (b, abs_ledger t')) = spec_draw p n (abs_ledger t)
    \<and> abs_ledger (Refund io now p n t) = spec_refund p n (abs_ledger t)"
  using cq_reachable_ok [OF assms(1)] assms(2,3) Accrue_refines Consume_refines Refund_refines by blast

theorem tracker_refines_ledger_witness:
  "abs_ledger demo_tracker ''n1'' = (100, 30)
   \<and> abs_ledger (Refund (io_fine False) 9 ''n1'' 20 demo_tracker) = spec_refund ''n1'' 20 (abs_ledger demo_tracker)"
proof -
  have "contributed_of demo_tracker ''n1'' + 20 < 2 ^ 63" by (simp add: contributed_of_def demo_row)
  moreover have "in_i64 20" by (simp add: in_i64_def)
  ultimately show ?thesis
    using tracker_refines_ledger [OF demo_reachable, of 20 "''n1''" "io_fine False" 9] by (simp add: abs_Some demo_row)
qed

text \<open>
  A draw that is settled with the real usage costs the contributor exactly the real usage when
  that is known and smaller than the reservation, and the whole reservation otherwise (in particular
  when the usage reported is zero); no other peer's account moves.
\<close>

theorem draw_then_settle:
  assumes "cq_reachable t" and "in_i64 tokens"
    and "tryContributorDraw io now hdr tokens (Some t) = (d, Some t')" and "dr_OK d"
    and "settle io' now' d actual (Some t') = Some t''"
  shows "abs_ledger t'' = (abs_ledger t)(verifiedContributorID hdr :=
      (contributed_of t (verifiedContributorID hdr),
       consumed_of t (verifiedContributorID hdr) + (if 0 < actual \<and> actual < tokens then actual else tokens)))"
proof -
  let ?p = "verifiedContributorID hdr"
  have ok: "tracker_ok t" using cq_reachable_ok [OF assms(1)] by simp
  obtain r where c: "Consume io now ?p tokens t = ((True, r), t')" and d: "dr_PeerID d = ?p" "dr_Tokens d = tokens"
      and p: "?p \<noteq> ''''" "0 < tokens"
    using assms(3,4) by (auto simp: tryContributorDraw_def no_draw_def Let_def split: if_splits prod.splits)
  have abs': "abs_ledger t' = (abs_ledger t)(?p := (contributed_of t ?p, consumed_of t ?p + tokens))"
    using Consume_refines [OF ok, of io now ?p tokens] c
    by (auto simp: spec_draw_def abs_ledger_def split: if_splits)
  have ok': "tracker_ok t'" using Consume_ok [OF ok, of io now ?p tokens] c by simp
  show ?thesis
  proof (cases "0 < actual \<and> actual < tokens")
    case True
    then have n: "i64 (tokens - actual) = tokens - actual" "in_i64 (tokens - actual)"
      using assms(2) by (auto simp: in_i64_def intro!: i64_id)
    have "0 \<le> consumed_of t ?p"
      using ok by (auto simp: consumed_of_def row_ok_def split: option.splits dest!: tracker_okD)
    with True n d assms(4,5) Refund_refines [OF ok' n(2), of io' now' ?p] abs' p show ?thesis
      by (auto simp: settle_def spec_refund_def fun_eq_iff)
  next
    case False
    with assms(4,5) d abs' show ?thesis by (auto simp: settle_def split: if_splits)
  qed
qed

theorem draw_then_settle_witness:
  "\<exists>d t' t''. tryContributorDraw (io_fine False) 8 (\<lambda>h. ''n1'') 50 (Some demo_tracker) = (d, Some t')
     \<and> settle (io_fine False) 9 d 20 (Some t') = Some t'' \<and> abs_ledger t'' ''n1'' = (100, 50)"
proof -
  have v: "verifiedContributorID (\<lambda>h. ''n1'') = ''n1''"
    by (simp add: verifiedContributorID_def sanitizeNodeID_def node_id_char_def less_eq_char_def Let_def)
  have rem: "0 < (50::int)" "50 \<le> Remaining demo_tracker ''n1''"
    by (simp_all add: Remaining_def demo_row remainingLocked_def i64_def)
  have ok: "tracker_ok demo_tracker" using cq_reachable_ok [OF demo_reachable] by simp
  obtain b r t' where c: "Consume (io_fine False) 8 ''n1'' 50 demo_tracker = ((b, r), t')"
    by (metis prod.exhaust)
  with Consume_left [OF ok c] rem have b: "b" by simp
  let ?d = "\<lparr>dr_PeerID = ''n1'', dr_Tokens = 50, dr_Remaining = r, dr_OK = True\<rparr>"
  have 1: "tryContributorDraw (io_fine False) 8 (\<lambda>h. ''n1'') 50 (Some demo_tracker) = (?d, Some t')"
    using b c by (simp add: tryContributorDraw_def v)
  obtain t'' where 2: "settle (io_fine False) 9 ?d 20 (Some t') = Some t''" by (simp add: settle_def)
  have n: "in_i64 (50::int)" "dr_OK ?d" by (simp_all add: in_i64_def)
  from draw_then_settle [OF demo_reachable n(1) 1 n(2) 2] 1 2 show ?thesis
    by (auto simp: v contributed_of_def consumed_of_def demo_row)
qed



text \<open>
  The admin view balances: as long as all donations together fit into 64 bits, the reported
  total of remaining tokens is the sum of what the contributors can still draw, and it is never
  negative.
\<close>

theorem admin_view_balances:
  assumes "cq_reachable t" and "gsum cq_ContributedTokens (cqt_entries t) < 2 ^ 63"
    and "ledgerContributionView (Some t) = Some v"
  shows "lv_total_remaining v = gsum remainingLocked (cqt_entries t) \<and> 0 \<le> lv_total_remaining v
    \<and> lv_total_remaining v + lv_total_consumed v = lv_total_contributed v"
proof -
  have rows: "rows_ok (cqt_entries t)" using cq_reachable_ok [OF assms(1)] by (simp add: tracker_ok_rows)
  let ?c = "gsum cq_ContributedTokens (cqt_entries t)" and ?u = "gsum cq_ConsumedQuota (cqt_entries t)"
  note sums = gsum_rows [OF rows]
  have "in_i64 ?c" "in_i64 ?u" "in_i64 (?c - ?u)" using sums assms(2) by (auto simp: in_i64_def)
  then have "TotalContributed t = ?c" "TotalConsumed t = ?u" "i64 (?c - ?u) = ?c - ?u"
    by (simp_all add: TotalContributed_def TotalConsumed_def foldl_i64)
  with assms(3) sums show ?thesis by (auto simp: ledgerContributionView_def)
qed

theorem admin_view_balances_witness:
  "\<exists>v. ledgerContributionView (Some demo_tracker) = Some v \<and> 0 \<le> lv_total_remaining v
     \<and> lv_total_remaining v + lv_total_consumed v = lv_total_contributed v"
proof -
  obtain v where v: "ledgerContributionView (Some demo_tracker) = Some v" by (simp add: ledgerContributionView_def Let_def)
  have "gsum cq_ContributedTokens (cqt_entries demo_tracker) < 2 ^ 63"
    by (simp add: gsum_def demo_defs)
  from admin_view_balances [OF demo_reachable this v] v show ?thesis by blast
qed

end
