(* ===== verification/Rate_Limiter.thy ===== *)
theory Rate_Limiter
  imports Omp_Prelude
begin

text \<open>
  Request rate limiting: \<open>src/ratelimit.go\<close>. A token bucket per limiter, one global bucket and one
  per consumer behind \<open>rateLimitMiddleware\<close>, and one per client address and endpoint behind
  \<open>rateLimitByIP\<close>.

  Times are integers in nanoseconds, the unit of \<open>time.Duration\<close>; \<open>now\<close> is the reading of the clock
  of one call. \<open>float64\<close> quantities are exact reals: rounding is not modelled. The order in which a
  \<open>range\<close> loop visits a map matters where the loop can break off, so that order is an argument
  (\<open>order\<close>) there.
\<close>

section \<open>Token buckets\<close>

record RateLimiter =
  rl_tokens :: real
  rl_maxTokens :: real
  rl_refillRate :: real
  rl_lastRefill :: int

definition NewRateLimiter :: "int \<Rightarrow> real \<Rightarrow> RateLimiter" where
  "NewRateLimiter now qps =
     (if qps \<le> 0 then \<lparr>rl_tokens = 0, rl_maxTokens = 0, rl_refillRate = 0, rl_lastRefill = now\<rparr>
      else
        let maxTok = (if qps < 1 then 1 else qps)
        in \<lparr>rl_tokens = maxTok, rl_maxTokens = maxTok, rl_refillRate = qps, rl_lastRefill = now\<rparr>)"

definition NewRateLimiterWithBurst :: "int \<Rightarrow> real \<Rightarrow> real \<Rightarrow> RateLimiter" where
  "NewRateLimiterWithBurst now qps burst =
     (let burst' = (if burst < 1 then 1 else burst)
      in \<lparr>rl_tokens = burst', rl_maxTokens = burst', rl_refillRate = qps, rl_lastRefill = now\<rparr>)"

definition seconds :: "int \<Rightarrow> real" where
  "seconds d = real_of_int d / 1000000000"

definition Allow :: "int \<Rightarrow> RateLimiter \<Rightarrow> bool \<times> RateLimiter" where
  "Allow now rl =
     (let elapsed = seconds (now - rl_lastRefill rl);
          t1 = rl_tokens rl + elapsed * rl_refillRate rl;
          t2 = (if t1 > rl_maxTokens rl then rl_maxTokens rl else t1);
          rl' = rl\<lparr>rl_tokens := t2, rl_lastRefill := now\<rparr>
      in if t2 \<ge> 1 then (True, rl'\<lparr>rl_tokens := t2 - 1\<rparr>) else (False, rl'))"

section \<open>The global limiter and its consumers\<close>

definition consumersMaxEntries :: nat where
  "consumersMaxEntries = 10000"

definition minutes :: "int \<Rightarrow> int" where
  "minutes n = n * 60 * 1000000000"

record GlobalRateLimiter =
  grl_global :: RateLimiter
  grl_consumers :: "(string, RateLimiter) gomap"
  grl_globalQPS :: real
  grl_consumerQPS :: real

text \<open>\<open>parseFloat64\<close>: \<open>parsed\<close> is the result of \<open>strconv.ParseFloat\<close>, \<open>None\<close> on a syntax error.\<close>

definition parseFloat64 :: "real option \<Rightarrow> real \<Rightarrow> real" where
  "parseFloat64 parsed defaultVal =
     (case parsed of Some v \<Rightarrow> if v > 0 then v else defaultVal | None \<Rightarrow> defaultVal)"

definition initRateLimiter :: "int \<Rightarrow> real option \<Rightarrow> real option \<Rightarrow> GlobalRateLimiter" where
  "initRateLimiter now cfg_global cfg_consumer =
     (let globalQPS = parseFloat64 cfg_global 100; consumerQPS = parseFloat64 cfg_consumer 20
      in \<lparr>grl_global = NewRateLimiter now globalQPS, grl_consumers = [],
          grl_globalQPS = globalQPS, grl_consumerQPS = consumerQPS\<rparr>)"

fun cleanupConsumersLocked :: "int \<Rightarrow> string list \<Rightarrow> (string, RateLimiter) gomap \<Rightarrow> (string, RateLimiter) gomap" where
  "cleanupConsumersLocked now [] m = m"
| "cleanupConsumersLocked now (i # is) m =
     (case gget m i of
        None \<Rightarrow> cleanupConsumersLocked now is m
      | Some lm \<Rightarrow>
          let m' = (if now - rl_lastRefill lm > minutes 10 then gdel i m else m)
          in if length m' < consumersMaxEntries div 2 then m' else cleanupConsumersLocked now is m')"

definition getConsumerLimiter ::
    "int \<Rightarrow> string list \<Rightarrow> string \<Rightarrow> GlobalRateLimiter \<Rightarrow> RateLimiter \<times> GlobalRateLimiter" where
  "getConsumerLimiter now order consumerID g =
     (case gget (grl_consumers g) consumerID of
        Some limiter \<Rightarrow> (limiter, g)
      | None \<Rightarrow>
          let limiter = NewRateLimiter now (grl_consumerQPS g);
              m = (if length (grl_consumers g) \<ge> consumersMaxEntries
                   then cleanupConsumersLocked now order (grl_consumers g) else grl_consumers g)
          in (limiter, g\<lparr>grl_consumers := gput consumerID limiter m\<rparr>))"

datatype rl_outcome = Passed | GlobalLimited | ConsumerLimited | IpMapFull | IpLimited

text \<open>
  The middleware: which answer the request gets, and the limiter afterwards. \<open>owner\<close> is
  \<open>getRequestOwner(r)\<close>. The limiter found for the consumer is the object in the map, so the tokens
  it loses are stored back.
\<close>

definition rateLimitMiddleware ::
    "int \<Rightarrow> string list \<Rightarrow> string \<Rightarrow> string \<Rightarrow> GlobalRateLimiter option \<Rightarrow> rl_outcome \<times> GlobalRateLimiter option" where
  "rateLimitMiddleware now order owner remoteAddr gl =
     (case gl of
        None \<Rightarrow> (Passed, None)
      | Some g \<Rightarrow>
          (case Allow now (grl_global g) of
             (False, l) \<Rightarrow> (GlobalLimited, Some (g\<lparr>grl_global := l\<rparr>))
           | (True, l) \<Rightarrow>
               let g1 = g\<lparr>grl_global := l\<rparr>;
                   consumerID = (if owner = '''' then ''admin:'' @ remoteAddr else owner) in
               (case getConsumerLimiter now order consumerID g1 of
                  (limiter, g2) \<Rightarrow>
                    (case Allow now limiter of
                       (ok, limiter') \<Rightarrow>
                         (if ok then Passed else ConsumerLimited,
                          Some (g2\<lparr>grl_consumers := gput consumerID limiter' (grl_consumers g2)\<rparr>))))))"

section \<open>Limits per client address\<close>

record ipRateLimitEntry =
  ipe_limiter :: RateLimiter
  ipe_lastSeen :: int

definition ipRateLimitersMaxEntries :: nat where
  "ipRateLimitersMaxEntries = 10000"

text \<open>\<open>net.SplitHostPort\<close>, host part; \<open>None\<close> is its error.\<close>

definition last_index :: "char \<Rightarrow> string \<Rightarrow> nat option" where
  "last_index c s = (if c \<in> set s then Some (length s - 1 - length (takeWhile (\<lambda>d. d \<noteq> c) (rev s))) else None)"

definition first_index :: "char \<Rightarrow> string \<Rightarrow> nat option" where
  "first_index c s = (if c \<in> set s then Some (length (takeWhile (\<lambda>d. d \<noteq> c) s)) else None)"

definition SplitHostPort :: "string \<Rightarrow> string option" where
  "SplitHostPort s =
     (case last_index (CHR '':'') s of
        None \<Rightarrow> None
      | Some i \<Rightarrow>
          if s \<noteq> [] \<and> hd s = CHR ''['' then
            (case first_index (CHR '']'') s of
               None \<Rightarrow> None
             | Some e \<Rightarrow>
                 if e + 1 \<noteq> i then None
                 else if CHR ''['' \<in> set (drop 1 s) \<or> CHR '']'' \<in> set (drop (e + 1) s) then None
                 else Some (take (e - 1) (drop 1 s)))
          else
            let host = take i s in
            if CHR '':'' \<in> set host then None
            else if CHR ''['' \<in> set s \<or> CHR '']'' \<in> set s then None
            else Some host)"

definition extractClientIP :: "string \<Rightarrow> string" where
  "extractClientIP remoteAddr = (case SplitHostPort remoteAddr of None \<Rightarrow> remoteAddr | Some host \<Rightarrow> host)"

definition is_space :: "char \<Rightarrow> bool" where
  "is_space c \<longleftrightarrow> c \<in> {CHR '' '', CHR 0x09, CHR 0x0A, CHR 0x0B, CHR 0x0C, CHR 0x0D}"

definition trim_space :: "string \<Rightarrow> string" where
  "trim_space s = rev (dropWhile is_space (rev (dropWhile is_space s)))"

text \<open>The address a request is limited under: the rightmost forwarded address behind a trusted proxy.\<close>

definition client_key :: "bool \<Rightarrow> string \<Rightarrow> string \<Rightarrow> string" where
  "client_key trustedReverseProxy xff remoteAddr =
     (if trustedReverseProxy \<and> xff \<noteq> ''''
      then (case last_index (CHR '','') xff of
              Some idx \<Rightarrow> trim_space (drop (idx + 1) xff)
            | None \<Rightarrow> trim_space xff)
      else extractClientIP remoteAddr)"

definition rateLimitByIP ::
    "int \<Rightarrow> real \<Rightarrow> string \<Rightarrow> bool \<Rightarrow> string \<Rightarrow> string \<Rightarrow> (string, ipRateLimitEntry) gomap
     \<Rightarrow> rl_outcome \<times> (string, ipRateLimitEntry) gomap" where
  "rateLimitByIP now maxPerMinute endpointName trusted xff remoteAddr m =
     (let qps = maxPerMinute / 60;
          key = client_key trusted xff remoteAddr @ endpointName;
          admit = (\<lambda>entry m1.
            (case Allow now (ipe_limiter entry) of
               (ok, l) \<Rightarrow> (if ok then Passed else IpLimited,
                  gput key (entry\<lparr>ipe_lastSeen := now, ipe_limiter := l\<rparr>) m1)))
      in case gget m key of
           Some entry \<Rightarrow> admit entry m
         | None \<Rightarrow>
             let m1 = (if length m \<ge> ipRateLimitersMaxEntries
                       then gfilter (\<lambda>k e. \<not> (ipe_lastSeen e < now - minutes 5)) m else m)
             in if length m1 \<ge> ipRateLimitersMaxEntries then (IpMapFull, m1)
                else
                  let entry = \<lparr>ipe_limiter = NewRateLimiterWithBurst now qps maxPerMinute, ipe_lastSeen = now\<rparr>
                  in admit entry (gput key entry m1))"

definition cleanupIPRateLimiters ::
    "int \<Rightarrow> int \<Rightarrow> (string, ipRateLimitEntry) gomap \<Rightarrow> (string, ipRateLimitEntry) gomap" where
  "cleanupIPRateLimiters now maxAge m = gfilter (\<lambda>k e. \<not> (ipe_lastSeen e < now - maxAge)) m"

section \<open>The contract of a token bucket\<close>

text \<open>Admission decisions on a list of requests, one after the other, and how many were admitted.\<close>

fun admissions :: "('r \<Rightarrow> 's \<Rightarrow> bool \<times> 's) \<Rightarrow> 'r list \<Rightarrow> 's \<Rightarrow> nat \<times> 's" where
  "admissions allow [] s = (0, s)"
| "admissions allow (r # rs) s =
     (let (b, s') = allow r s; (n, s'') = admissions allow rs s' in (if b then Suc n else n, s''))"

locale token_bucket =
  fixes allow :: "'r \<Rightarrow> 's \<Rightarrow> bool \<times> 's"
    and time_of :: "'r \<Rightarrow> int"
    and level :: "'s \<Rightarrow> real"
    and rate :: "'s \<Rightarrow> real"
    and clock :: "'s \<Rightarrow> int"
    and ok :: "'s \<Rightarrow> bool"
  assumes allow_ok: "ok s \<Longrightarrow> clock s \<le> time_of r \<Longrightarrow> ok (snd (allow r s))"
    and allow_level: "ok s \<Longrightarrow> clock s \<le> time_of r \<Longrightarrow>
           (if fst (allow r s) then 1 else 0) + level (snd (allow r s))
             \<le> level s + rate s * seconds (time_of r - clock s)"
    and allow_rate: "rate (snd (allow r s)) = rate s"
    and allow_clock: "clock (snd (allow r s)) = time_of r"
    and level_nonneg: "ok s \<Longrightarrow> 0 \<le> level s"
begin

lemma admissions_level:
  assumes "ok s" and "sorted (clock s # map time_of rs)" and "admissions allow rs s = (n, s')"
  shows "ok s' \<and> real n + level s' \<le> level s + rate s * seconds (last (clock s # map time_of rs) - clock s)"
  using assms
proof (induction rs arbitrary: s n)
  case Nil
  then show ?case by (simp add: seconds_def)
next
  case (Cons r rs)
  obtain b u where u: "allow r s = (b, u)" by fastforce
  obtain k v where v: "admissions allow rs u = (k, v)" by fastforce
  have c: "clock u = time_of r" "rate u = rate s" "ok u"
    using allow_clock [of r s] allow_rate [of r s] allow_ok [of s r] Cons.prems u by auto
  have 1: "(if b then 1 else 0) + level u \<le> level s + rate s * seconds (time_of r - clock s)"
    using allow_level [of s r] Cons.prems u by simp
  have 2: "ok v \<and> real k + level v \<le> level u + rate s * seconds (last (map time_of (r # rs)) - time_of r)"
    using Cons.IH [of u k] Cons.prems u v c by (simp add: Let_def split: if_splits)
  have 3: "seconds (time_of r - clock s) + seconds (last (map time_of (r # rs)) - time_of r)
             = seconds (last (map time_of (r # rs)) - clock s)"
    by (simp add: seconds_def field_simps)
  have n: "n = (if b then Suc k else k)" "s' = v" using Cons.prems u v by (auto split: if_splits)
  have "real n + level s' \<le> level s + rate s * (seconds (time_of r - clock s) + seconds (last (map time_of (r # rs)) - time_of r))"
    using 1 2 n unfolding distrib_left by (auto split: if_splits)
  then have "real n + level s' \<le> level s + rate s * seconds (last (map time_of (r # rs)) - clock s)"
    unfolding 3 .
  then show ?case using 2 n by simp
qed

text \<open>Over any window the admissions are bounded by the level at its start plus the refill.\<close>

lemma admissions_bound:
  assumes "ok s" and "sorted (clock s # map time_of rs)"
  shows "real (fst (admissions allow rs s)) \<le> level s + rate s * seconds (last (clock s # map time_of rs) - clock s)"
proof -
  obtain n s' where "admissions allow rs s = (n, s')" by fastforce
  with admissions_level [OF assms this] level_nonneg [of s'] show ?thesis by auto
qed

lemma admissions_ok:
  assumes "ok s" and "sorted (clock s # map time_of rs)"
  shows "ok (snd (admissions allow rs s))"
  using admissions_level [OF assms, of "fst (admissions allow rs s)" "snd (admissions allow rs s)"] by simp

lemma admissions_rate [simp]: "rate (snd (admissions allow rs s)) = rate s"
  by (induction rs arbitrary: s) (simp_all add: Let_def split_beta allow_rate)

lemma admissions_clock: "clock (snd (admissions allow rs s)) = last (clock s # map time_of rs)"
  by (induction rs arbitrary: s) (simp_all add: Let_def split_beta allow_clock)

end

text \<open>
  A bucket that also holds no more than its capacity: what a request takes and leaves is at most the capacity, however long
  the bucket has been idle before. So a burst is bounded in every window, not only in the first one.
\<close>

locale capped_bucket = token_bucket allow time_of level rate clock ok
  for allow :: "'r \<Rightarrow> 's \<Rightarrow> bool \<times> 's"
    and time_of :: "'r \<Rightarrow> int"
    and level :: "'s \<Rightarrow> real"
    and rate :: "'s \<Rightarrow> real"
    and clock :: "'s \<Rightarrow> int"
    and ok :: "'s \<Rightarrow> bool" +
  fixes cap :: "'s \<Rightarrow> real"
  assumes allow_cap: "ok s \<Longrightarrow> clock s \<le> time_of r \<Longrightarrow>
    (if fst (allow r s) then 1 else 0) + level (snd (allow r s)) \<le> cap s"
begin

lemma window_bound:
  assumes "ok s" and "sorted (clock s # map time_of rs)" and "rs \<noteq> []"
  shows "real (fst (admissions allow rs s)) \<le> cap s + rate s * seconds (time_of (last rs) - time_of (hd rs))"
proof (cases rs)
  case (Cons r rs')
  let ?u = "snd (allow r s)"
  have "ok ?u" "clock ?u = time_of r" "sorted (clock ?u # map time_of rs')"
    using assms allow_ok [of s r] allow_clock [of r s] by (simp_all add: Cons)
  then have "real (fst (admissions allow rs' ?u)) \<le> level ?u + rate s * seconds (last (time_of r # map time_of rs') - time_of r)"
    using admissions_bound [of ?u rs'] by (simp add: allow_rate)
  moreover have "last (time_of r # map time_of rs') = time_of (last rs)" by (simp add: Cons last_map)
  ultimately show ?thesis using allow_cap [of s r] assms
    by (auto simp: Cons Let_def split_beta split: if_splits)
qed (simp add: assms(3))

end

section \<open>One bucket\<close>

definition bucket_ok :: "RateLimiter \<Rightarrow> bool" where
  "bucket_ok rl \<longleftrightarrow> 0 \<le> rl_tokens rl \<and> rl_tokens rl \<le> rl_maxTokens rl \<and> 0 \<le> rl_refillRate rl"

lemma bucket_ok_New [simp]:
  "bucket_ok (NewRateLimiter now qps)" "0 \<le> qps \<Longrightarrow> bucket_ok (NewRateLimiterWithBurst now qps burst)"
  by (auto simp: bucket_ok_def NewRateLimiter_def NewRateLimiterWithBurst_def Let_def)

lemma bucket_ok_nonneg: "bucket_ok rl \<Longrightarrow> 0 \<le> rl_tokens rl"
  by (simp add: bucket_ok_def)

lemma Allow_fields [simp]:
  "rl_maxTokens (snd (Allow now rl)) = rl_maxTokens rl"
  "rl_refillRate (snd (Allow now rl)) = rl_refillRate rl"
  "rl_lastRefill (snd (Allow now rl)) = now"
  by (auto simp: Allow_def Let_def)

lemma seconds_nonneg: "0 \<le> d \<Longrightarrow> 0 \<le> seconds d"
  by (simp add: seconds_def)

lemma Allow_tokens:
  assumes "bucket_ok rl" and "rl_lastRefill rl \<le> now"
  shows "(if fst (Allow now rl) then 1 else 0) + rl_tokens (snd (Allow now rl))
           = min (rl_maxTokens rl) (rl_tokens rl + rl_refillRate rl * seconds (now - rl_lastRefill rl))"
  by (auto simp: Allow_def Let_def min_def mult.commute)

lemma Allow_ok:
  assumes "bucket_ok rl" and "rl_lastRefill rl \<le> now"
  shows "bucket_ok (snd (Allow now rl))"
proof -
  have "0 \<le> seconds (now - rl_lastRefill rl) * rl_refillRate rl"
    using assms seconds_nonneg [of "now - rl_lastRefill rl"] by (simp add: bucket_ok_def)
  with assms(1) show ?thesis by (auto simp: bucket_ok_def Allow_def Let_def)
qed

interpretation tb: token_bucket Allow "\<lambda>t. t" rl_tokens rl_refillRate rl_lastRefill bucket_ok
proof unfold_locales
  show "(if fst (Allow r s) then 1 else 0) + rl_tokens (snd (Allow r s))
          \<le> rl_tokens s + rl_refillRate s * seconds (r - rl_lastRefill s)"
    if "bucket_ok s" "rl_lastRefill s \<le> r" for r s
    using Allow_tokens [OF that] by simp
qed (simp_all add: Allow_ok bucket_ok_nonneg)

text \<open>A bucket of positive rate that has waited one token's time admits the next request.\<close>

lemma Allow_after_wait:
  assumes "bucket_ok rl" and "1 \<le> rl_maxTokens rl"
    and "1 \<le> rl_refillRate rl * seconds (now - rl_lastRefill rl)"
  shows "fst (Allow now rl)"
  using assms by (auto simp: Allow_def Let_def bucket_ok_def mult.commute)

text \<open>A rate that is not positive blocks every request for ever.\<close>

lemma Allow_blocked: "qps \<le> 0 \<Longrightarrow> fst (admissions Allow ts (NewRateLimiter now qps)) = 0"
proof -
  have "rl_tokens s = 0 \<Longrightarrow> rl_maxTokens s = 0 \<Longrightarrow> rl_refillRate s = 0 \<Longrightarrow> fst (admissions Allow ts s) = 0" for s
    by (induction ts arbitrary: s) (auto simp: Allow_def Let_def split: prod.splits)
  then show "qps \<le> 0 \<Longrightarrow> ?thesis" by (simp add: NewRateLimiter_def)
qed

section \<open>The middleware\<close>

record rl_request =
  rq_now :: int
  rq_order :: "string list"
  rq_owner :: string
  rq_remote :: string

definition request_consumer :: "rl_request \<Rightarrow> string" where
  "request_consumer r = (if rq_owner r = '''' then ''admin:'' @ rq_remote r else rq_owner r)"

text \<open>One request through an initialised middleware: did it pass, and the limiter afterwards.\<close>

definition middleware_step :: "rl_request \<Rightarrow> GlobalRateLimiter \<Rightarrow> bool \<times> GlobalRateLimiter" where
  "middleware_step r g =
     (case rateLimitMiddleware (rq_now r) (rq_order r) (rq_owner r) (rq_remote r) (Some g) of
        (res, g') \<Rightarrow> (res = Passed, the g'))"

definition middleware_step_of :: "string \<Rightarrow> rl_request \<Rightarrow> GlobalRateLimiter \<Rightarrow> bool \<times> GlobalRateLimiter" where
  "middleware_step_of c r g = (fst (middleware_step r g) \<and> request_consumer r = c, snd (middleware_step r g))"

text \<open>What the code does after the global check has passed, with the map after a possible cleanup.\<close>

definition consumers_after :: "int \<Rightarrow> string list \<Rightarrow> string \<Rightarrow> GlobalRateLimiter \<Rightarrow> (string, RateLimiter) gomap" where
  "consumers_after now order c g =
     (if gget (grl_consumers g) c = None \<and> length (grl_consumers g) \<ge> consumersMaxEntries
      then cleanupConsumersLocked now order (grl_consumers g) else grl_consumers g)"

definition bucket_of :: "int \<Rightarrow> string \<Rightarrow> GlobalRateLimiter \<Rightarrow> RateLimiter" where
  "bucket_of now c g =
     (case gget (grl_consumers g) c of Some l \<Rightarrow> l | None \<Rightarrow> NewRateLimiter now (grl_consumerQPS g))"

lemma middleware_step_alt:
  "middleware_step r g =
     (let (b, l) = Allow (rq_now r) (grl_global g); c = request_consumer r;
          (b2, l2) = Allow (rq_now r) (bucket_of (rq_now r) c g)
      in if b then (b2, g\<lparr>grl_global := l,
                          grl_consumers := gput c l2 (consumers_after (rq_now r) (rq_order r) c g)\<rparr>)
         else (False, g\<lparr>grl_global := l\<rparr>))"
  by (auto simp: middleware_step_def rateLimitMiddleware_def getConsumerLimiter_def bucket_of_def
      consumers_after_def request_consumer_def Let_def split: option.splits prod.splits bool.splits)

lemma cleanup_keeps:
  "gget (cleanupConsumersLocked now order m) k = gget m k \<or>
   gget (cleanupConsumersLocked now order m) k = None \<and>
     (\<exists>l. gget m k = Some l \<and> now - rl_lastRefill l > minutes 10)"
proof (induction order arbitrary: m)
  case (Cons i order)
  show ?case
  proof (cases "gget m i")
    case None
    then show ?thesis using Cons.IH [of m] by simp
  next
    case (Some l)
    define m' where "m' = (if now - rl_lastRefill l > minutes 10 then gdel i m else m)"
    have eq: "cleanupConsumersLocked now (i # order) m =
                (if length m' < consumersMaxEntries div 2 then m' else cleanupConsumersLocked now order m')"
      using Some by (simp add: m'_def Let_def)
    have m': "gget m' k = (if now - rl_lastRefill l > minutes 10 \<and> k = i then None else gget m k)"
      by (simp add: m'_def)
    show ?thesis unfolding eq using Cons.IH [of m'] m' Some by (auto split: if_splits)
  qed
qed simp

lemma cleanup_gmap_ok [simp]: "gmap_ok m \<Longrightarrow> gmap_ok (cleanupConsumersLocked now order m)"
proof (induction order arbitrary: m)
  case (Cons i order)
  then show ?case by (auto simp: Let_def split: option.splits)
qed simp


text \<open>
  What a consumer could draw at time \<open>t\<close>: its bucket refilled up to \<open>t\<close>, a full bucket when it has
  none.
\<close>

definition avail :: "GlobalRateLimiter \<Rightarrow> string \<Rightarrow> int \<Rightarrow> real" where
  "avail g c t =
     (case gget (grl_consumers g) c of
        None \<Rightarrow> max (grl_consumerQPS g) 1
      | Some l \<Rightarrow> min (max (grl_consumerQPS g) 1) (rl_tokens l + grl_consumerQPS g * seconds (t - rl_lastRefill l)))"

definition grl_clock :: "GlobalRateLimiter \<Rightarrow> int" where
  "grl_clock g = rl_lastRefill (grl_global g)"

definition consumer_bucket_ok :: "real \<Rightarrow> int \<Rightarrow> RateLimiter \<Rightarrow> bool" where
  "consumer_bucket_ok qps t l \<longleftrightarrow>
     bucket_ok l \<and> rl_maxTokens l = max qps 1 \<and> rl_refillRate l = qps \<and> rl_lastRefill l \<le> t"

text \<open>
  The invariant. The last condition says that an idle bucket is full again before it may be
  forgotten; it holds for the default of 20 requests per second and down to one per ten minutes.
\<close>

definition grl_ok :: "GlobalRateLimiter \<Rightarrow> bool" where
  "grl_ok g \<longleftrightarrow> bucket_ok (grl_global g) \<and> gmap_ok (grl_consumers g) \<and>
     (\<forall>c l. gget (grl_consumers g) c = Some l \<longrightarrow> consumer_bucket_ok (grl_consumerQPS g) (grl_clock g) l) \<and>
     1 / 600 \<le> grl_consumerQPS g"

lemma Allow_consumer_bucket:
  "consumer_bucket_ok qps t l \<Longrightarrow> t \<le> now \<Longrightarrow> consumer_bucket_ok qps now (snd (Allow now l))"
  by (auto simp: consumer_bucket_ok_def Allow_ok)

lemma consumer_bucket_later: "consumer_bucket_ok qps t l \<Longrightarrow> t \<le> now \<Longrightarrow> consumer_bucket_ok qps now l"
  by (auto simp: consumer_bucket_ok_def)

lemma grl_ok_bucket:
  "grl_ok g \<Longrightarrow> gget (grl_consumers g) c = Some l \<Longrightarrow> grl_clock g \<le> now \<Longrightarrow>
     consumer_bucket_ok (grl_consumerQPS g) now l"
  by (auto simp: grl_ok_def intro: consumer_bucket_later)

lemma bucket_of_ok:
  assumes "grl_ok g" and "grl_clock g \<le> now"
  shows "consumer_bucket_ok (grl_consumerQPS g) now (bucket_of now c g)"
proof (cases "gget (grl_consumers g) c")
  case None
  with assms show ?thesis
    by (simp add: bucket_of_def consumer_bucket_ok_def) (auto simp: NewRateLimiter_def Let_def grl_ok_def)
next
  case (Some l)
  with assms show ?thesis by (auto simp: bucket_of_def grl_ok_def intro: consumer_bucket_later)
qed

lemma consumers_after_get:
  "gget (consumers_after now order c g) k = gget (grl_consumers g) k \<or>
   gget (consumers_after now order c g) k = None \<and>
     (\<exists>l. gget (grl_consumers g) k = Some l \<and> now - rl_lastRefill l > minutes 10)"
  using cleanup_keeps by (auto simp: consumers_after_def)

lemma consumers_after_ok:
  "grl_ok g \<Longrightarrow> grl_clock g \<le> now \<Longrightarrow> gget (consumers_after now order c g) k = Some l \<Longrightarrow>
     consumer_bucket_ok (grl_consumerQPS g) now l"
  using consumers_after_get [of now order c g k] grl_ok_bucket [of g k l now] by auto

lemma middleware_step_fields:
  "grl_consumerQPS (snd (middleware_step r g)) = grl_consumerQPS g"
  "grl_clock (snd (middleware_step r g)) = rq_now r"
  "grl_global (snd (middleware_step r g)) = snd (Allow (rq_now r) (grl_global g))"
  by (auto simp: middleware_step_alt grl_clock_def Let_def split: prod.splits)
    (metis Allow_fields(3) snd_conv)+

lemma middleware_step_consumers:
  "grl_consumers (snd (middleware_step r g)) =
     (if fst (Allow (rq_now r) (grl_global g))
      then gput (request_consumer r) (snd (Allow (rq_now r) (bucket_of (rq_now r) (request_consumer r) g)))
             (consumers_after (rq_now r) (rq_order r) (request_consumer r) g)
      else grl_consumers g)"
  by (auto simp: middleware_step_alt Let_def split: prod.splits)

lemma middleware_step_passed:
  "fst (middleware_step r g) \<longleftrightarrow>
     fst (Allow (rq_now r) (grl_global g)) \<and> fst (Allow (rq_now r) (bucket_of (rq_now r) (request_consumer r) g))"
  by (auto simp: middleware_step_alt Let_def split: prod.splits)

lemma middleware_step_ok:
  assumes "grl_ok g" and "grl_clock g \<le> rq_now r"
  shows "grl_ok (snd (middleware_step r g))"
proof -
  let ?g = "snd (middleware_step r g)" and ?c = "request_consumer r"
  have c: "consumer_bucket_ok (grl_consumerQPS g) (rq_now r) l" if "gget (grl_consumers ?g) k = Some l" for k l
  proof (cases "fst (Allow (rq_now r) (grl_global g))")
    case True
    with that consumers_after_ok [OF assms, of "rq_order r" ?c k l] show ?thesis
      using Allow_consumer_bucket [OF bucket_of_ok [OF assms] order_refl, of ?c]
      by (auto simp: middleware_step_consumers split: if_splits)
  next
    case False
    with that assms show ?thesis
      by (auto simp: middleware_step_consumers grl_ok_def intro: consumer_bucket_later)
  qed
  have "bucket_ok (grl_global ?g)"
    using assms by (simp add: middleware_step_fields grl_ok_def Allow_ok grl_clock_def)
  moreover have "gmap_ok (grl_consumers ?g)"
    using assms by (auto simp: middleware_step_consumers grl_ok_def consumers_after_def)
  ultimately show ?thesis using c assms by (auto simp: grl_ok_def middleware_step_fields)
qed

lemma avail_le_refill:
  assumes "grl_ok g" and "t \<le> t'"
  shows "avail g c t' \<le> avail g c t + grl_consumerQPS g * seconds (t' - t)"
proof (cases "gget (grl_consumers g) c")
  case None
  have "0 \<le> grl_consumerQPS g" using assms by (auto simp: grl_ok_def elim: order_trans [rotated])
  with None assms seconds_nonneg [of "t' - t"] show ?thesis by (simp add: avail_def)
next
  case (Some l)
  have 0: "0 \<le> grl_consumerQPS g" using assms by (auto simp: grl_ok_def elim: order_trans [rotated])
  have 1: "seconds (t' - rl_lastRefill l) = seconds (t - rl_lastRefill l) + seconds (t' - t)"
    by (simp add: seconds_def field_simps)
  have "0 \<le> grl_consumerQPS g * seconds (t' - t)"
    using 0 assms seconds_nonneg [of "t' - t"] by simp
  with Some show ?thesis by (simp add: avail_def 1 distrib_left)
qed

text \<open>A bucket idle for ten minutes is full: forgetting it gives its owner nothing.\<close>

lemma idle_bucket_full:
  assumes "grl_ok g" and "gget (grl_consumers g) c = Some l" and "now - rl_lastRefill l > minutes 10"
  shows "avail g c now = max (grl_consumerQPS g) 1"
proof -
  let ?q = "grl_consumerQPS g" and ?s = "seconds (now - rl_lastRefill l)"
  have q: "1 / 600 \<le> ?q" and l: "0 \<le> rl_tokens l"
    using assms by (auto simp: grl_ok_def consumer_bucket_ok_def bucket_ok_def)
  have s: "600 \<le> ?s" using assms(3) by (simp add: seconds_def minutes_def)
  have "?q * 600 \<le> ?q * ?s" using q s by (intro mult_left_mono) auto
  moreover have "1 \<le> ?q * 600" "?q \<le> ?q * 600" using q by auto
  ultimately have "max ?q 1 \<le> ?q * ?s" by (intro max.boundedI) linarith+
  then show ?thesis using l assms(2) by (simp add: avail_def)
qed

lemma avail_bucket_of:
  assumes "grl_ok g"
  shows "avail g c now = min (max (grl_consumerQPS g) 1)
           (rl_tokens (bucket_of now c g) + grl_consumerQPS g * seconds (now - rl_lastRefill (bucket_of now c g)))"
  using assms by (auto simp: avail_def bucket_of_def grl_ok_def NewRateLimiter_def Let_def seconds_def split: option.splits)

lemma middleware_step_avail:
  assumes "grl_ok g" and "grl_clock g \<le> rq_now r"
  shows "(if fst (middleware_step r g) \<and> request_consumer r = c then 1 else 0)
           + avail (snd (middleware_step r g)) c (rq_now r) \<le> avail g c (rq_now r)"
proof (cases "fst (Allow (rq_now r) (grl_global g))")
  case False
  then show ?thesis
    by (simp add: middleware_step_passed avail_def middleware_step_consumers middleware_step_fields
        split: option.split)
next
  case allowed: True
  let ?now = "rq_now r" and ?d = "request_consumer r" and ?q = "grl_consumerQPS g"
  let ?l = "bucket_of ?now ?d g"
  show ?thesis
  proof (cases "?d = c")
    case True
    have l: "bucket_ok ?l" "rl_lastRefill ?l \<le> ?now" "rl_maxTokens ?l = max ?q 1" "rl_refillRate ?l = ?q"
      using bucket_of_ok [OF assms, of ?d] by (auto simp: consumer_bucket_ok_def)
    have "avail (snd (middleware_step r g)) c ?now \<le> rl_tokens (snd (Allow ?now ?l))"
      using allowed True by (simp add: avail_def middleware_step_consumers middleware_step_fields seconds_def)
    moreover have "(if fst (Allow ?now ?l) then 1 else 0) + rl_tokens (snd (Allow ?now ?l)) = avail g c ?now"
      using Allow_tokens [OF l(1,2)] avail_bucket_of [OF assms(1), of c ?now] l True by simp
    ultimately show ?thesis using allowed True by (simp add: middleware_step_passed)
  next
    case False
    have "avail (snd (middleware_step r g)) c ?now = avail g c ?now"
      using consumers_after_get [of ?now "rq_order r" ?d g c]
    proof
      assume "gget (consumers_after ?now (rq_order r) ?d g) c = gget (grl_consumers g) c"
      then show ?thesis
        using allowed False
        by (simp add: avail_def middleware_step_consumers middleware_step_fields split: option.split)
    next
      assume "gget (consumers_after ?now (rq_order r) ?d g) c = None \<and>
                (\<exists>l. gget (grl_consumers g) c = Some l \<and> ?now - rl_lastRefill l > minutes 10)"
      moreover from this have "avail g c ?now = max ?q 1"
        using idle_bucket_full [OF assms(1)] by blast
      ultimately show ?thesis
        using allowed False
        by (simp add: avail_def middleware_step_consumers middleware_step_fields split: option.split)
    qed
    with False show ?thesis by simp
  qed
qed

lemma grl_ok_tokens: "grl_ok g \<Longrightarrow> 0 \<le> rl_tokens (grl_global g)"
  by (simp add: grl_ok_def bucket_ok_def)

text \<open>The middleware is a token bucket of the global rate, and one of the consumer rate per consumer.\<close>

interpretation mw_global: token_bucket middleware_step rq_now "\<lambda>g. rl_tokens (grl_global g)"
    "\<lambda>g. rl_refillRate (grl_global g)" grl_clock grl_ok
proof unfold_locales
  fix r :: rl_request and g :: GlobalRateLimiter
  assume ok: "grl_ok g" and t: "grl_clock g \<le> rq_now r"
  let ?a = "Allow (rq_now r) (grl_global g)"
  have "(if fst ?a then 1 else 0) + rl_tokens (snd ?a)
          \<le> rl_tokens (grl_global g) + rl_refillRate (grl_global g) * seconds (rq_now r - grl_clock g)"
    using tb.allow_level [of "grl_global g" "rq_now r"] ok t by (simp add: grl_ok_def grl_clock_def)
  then show "(if fst (middleware_step r g) then 1 else 0) + rl_tokens (grl_global (snd (middleware_step r g)))
          \<le> rl_tokens (grl_global g) + rl_refillRate (grl_global g) * seconds (rq_now r - grl_clock g)"
    by (auto simp: middleware_step_passed middleware_step_fields split: if_splits)
qed (simp_all add: middleware_step_ok middleware_step_fields grl_ok_tokens)

interpretation mw_consumer: token_bucket "middleware_step_of c" rq_now "\<lambda>g. avail g c (grl_clock g)"
    grl_consumerQPS grl_clock grl_ok for c
proof unfold_locales
  fix r :: rl_request and g :: GlobalRateLimiter
  assume ok: "grl_ok g" and t: "grl_clock g \<le> rq_now r"
  show "grl_ok (snd (middleware_step_of c r g))"
    using middleware_step_ok [OF ok t] by (simp add: middleware_step_of_def)
  show "(if fst (middleware_step_of c r g) then 1 else 0)
          + avail (snd (middleware_step_of c r g)) c (grl_clock (snd (middleware_step_of c r g)))
          \<le> avail g c (grl_clock g) + grl_consumerQPS g * seconds (rq_now r - grl_clock g)"
    using middleware_step_avail [OF ok t, of c] avail_le_refill [OF ok t, of c]
    by (simp add: middleware_step_of_def middleware_step_fields)
next
  fix g :: GlobalRateLimiter
  assume ok: "grl_ok g"
  show "0 \<le> avail g c (grl_clock g)"
  proof (cases "gget (grl_consumers g) c")
    case (Some l)
    have l: "consumer_bucket_ok (grl_consumerQPS g) (grl_clock g) l"
      using grl_ok_bucket [OF ok Some] by simp
    then have "0 \<le> grl_consumerQPS g * seconds (grl_clock g - rl_lastRefill l)"
      using seconds_nonneg [of "grl_clock g - rl_lastRefill l"] by (auto simp: consumer_bucket_ok_def bucket_ok_def)
    with l Some show ?thesis by (simp add: avail_def consumer_bucket_ok_def bucket_ok_def)
  qed (simp add: avail_def)
qed (simp_all add: middleware_step_of_def middleware_step_fields)

interpretation mw_global_cap: capped_bucket middleware_step rq_now "\<lambda>g. rl_tokens (grl_global g)"
    "\<lambda>g. rl_refillRate (grl_global g)" grl_clock grl_ok "\<lambda>g. rl_maxTokens (grl_global g)"
proof unfold_locales
  fix r :: rl_request and g :: GlobalRateLimiter
  assume ok: "grl_ok g" and t: "grl_clock g \<le> rq_now r"
  have "(if fst (Allow (rq_now r) (grl_global g)) then 1 else 0) + rl_tokens (snd (Allow (rq_now r) (grl_global g)))
          \<le> rl_maxTokens (grl_global g)"
    using Allow_tokens [of "grl_global g" "rq_now r"] ok t by (simp add: grl_ok_def grl_clock_def)
  then show "(if fst (middleware_step r g) then 1 else 0) + rl_tokens (grl_global (snd (middleware_step r g)))
          \<le> rl_maxTokens (grl_global g)"
    by (auto simp: middleware_step_passed middleware_step_fields split: if_splits)
qed

interpretation mw_consumer_cap: capped_bucket "middleware_step_of c" rq_now "\<lambda>g. avail g c (grl_clock g)"
    grl_consumerQPS grl_clock grl_ok "\<lambda>g. max (grl_consumerQPS g) 1" for c
proof unfold_locales
  fix r :: rl_request and g :: GlobalRateLimiter
  assume ok: "grl_ok g" and t: "grl_clock g \<le> rq_now r"
  have "avail g c (rq_now r) \<le> max (grl_consumerQPS g) 1" by (simp add: avail_def split: option.split)
  with middleware_step_avail [OF ok t, of c]
  show "(if fst (middleware_step_of c r g) then 1 else 0)
          + avail (snd (middleware_step_of c r g)) c (grl_clock (snd (middleware_step_of c r g))) \<le> max (grl_consumerQPS g) 1"
    by (simp add: middleware_step_of_def middleware_step_fields)
qed

lemma admissions_settings:
  "grl_consumerQPS (snd (admissions middleware_step rs g)) = grl_consumerQPS g"
  "rl_maxTokens (grl_global (snd (admissions middleware_step rs g))) = rl_maxTokens (grl_global g)"
  by (induction rs arbitrary: g) (simp_all add: Let_def split_beta middleware_step_fields)

lemma parseFloat64_pos: "0 < d \<Longrightarrow> 0 < parseFloat64 parsed d"
  by (simp add: parseFloat64_def split: option.splits)

lemma initRateLimiter_ok:
  assumes "1 / 600 \<le> parseFloat64 cfg_consumer 20"
  shows "grl_ok (initRateLimiter t0 cfg_global cfg_consumer)"
  using assms by (simp add: grl_ok_def initRateLimiter_def Let_def)

lemma initRateLimiter_levels:
  fixes cfg_global cfg_consumer :: "real option" and t0 :: int
  defines "g \<equiv> initRateLimiter t0 cfg_global cfg_consumer"
  shows "rl_maxTokens (grl_global g) = max (parseFloat64 cfg_global 100) 1"
    and "rl_refillRate (grl_global g) = parseFloat64 cfg_global 100"
    and "grl_clock g = t0" and "grl_consumerQPS g = parseFloat64 cfg_consumer 20"
  using parseFloat64_pos [of 100 cfg_global]
  by (auto simp: g_def initRateLimiter_def Let_def NewRateLimiter_def grl_clock_def)

text \<open>
  (C8) Rate limit. In any window of requests, after any earlier requests, by any consumers in any order and with any
  configured values, the middleware lets through at most one burst plus the refill of the global rate between the first and
  the last request of the window; and of each single consumer at most one burst plus the refill of the
  consumer rate, although idle consumers may be evicted from the map and start over with a full bucket. The clock does not
  go back, and the rate per consumer is at least one request in ten minutes, the idle time after which a bucket may be evicted.
\<close>

theorem middleware_window:
  fixes cfg_global cfg_consumer :: "real option" and t0 :: int
  assumes "sorted (t0 # map rq_now (hs @ rs))" and "rs \<noteq> []" and "1 / 600 \<le> parseFloat64 cfg_consumer 20"
  defines "g \<equiv> snd (admissions middleware_step hs (initRateLimiter t0 cfg_global cfg_consumer))"
    and "T \<equiv> seconds (rq_now (last rs) - rq_now (hd rs))"
  shows "real (fst (admissions middleware_step rs g))
           \<le> max (parseFloat64 cfg_global 100) 1 + parseFloat64 cfg_global 100 * T
       \<and> (\<forall>c. real (fst (admissions (middleware_step_of c) rs g))
           \<le> max (parseFloat64 cfg_consumer 20) 1 + parseFloat64 cfg_consumer 20 * T)"
proof -
  let ?g0 = "initRateLimiter t0 cfg_global cfg_consumer"
  note init = initRateLimiter_levels [of t0 cfg_global cfg_consumer]
  have hs: "sorted (grl_clock ?g0 # map rq_now hs)" using assms(1) by (simp add: init sorted_append)
  have ok: "grl_ok g" unfolding g_def
    by (rule mw_global.admissions_ok [OF initRateLimiter_ok [OF assms(3)] hs])
  have "grl_clock g = last (t0 # map rq_now hs)" by (simp add: g_def mw_global.admissions_clock init)
  then have rs: "sorted (grl_clock g # map rq_now rs)"
    using assms(1) by (auto simp: sorted_append last_map)
  have "rl_maxTokens (grl_global g) = max (parseFloat64 cfg_global 100) 1" "grl_consumerQPS g = parseFloat64 cfg_consumer 20"
    "rl_refillRate (grl_global g) = parseFloat64 cfg_global 100"
    by (simp_all add: g_def admissions_settings init)
  then show ?thesis
    using mw_global_cap.window_bound [OF ok rs assms(2)] mw_consumer_cap.window_bound [OF ok rs assms(2)]
    unfolding T_def by simp
qed

theorem middleware_window_witness:
  "real (fst (admissions middleware_step
       [\<lparr>rq_now = 9000000000, rq_order = [], rq_owner = ''a'', rq_remote = ''''\<rparr>,
        \<lparr>rq_now = 10000000000, rq_order = [], rq_owner = ''b'', rq_remote = ''''\<rparr>]
       (snd (admissions middleware_step [\<lparr>rq_now = 0, rq_order = [], rq_owner = ''a'', rq_remote = ''''\<rparr>]
         (initRateLimiter 0 (Some (1 / 2)) None))))) \<le> 1 + 1 / 2 * 1"
  using middleware_window [of 0 "[\<lparr>rq_now = 0, rq_order = [], rq_owner = ''a'', rq_remote = ''''\<rparr>]"
      "[\<lparr>rq_now = 9000000000, rq_order = [], rq_owner = ''a'', rq_remote = ''''\<rparr>,
        \<lparr>rq_now = 10000000000, rq_order = [], rq_owner = ''b'', rq_remote = ''''\<rparr>]" None "Some (1 / 2)"]
  by (simp add: parseFloat64_def seconds_def)

text \<open>
  The map of consumers has no such bound: when every bucket is fresh the cleanup deletes nothing and
  the new consumer is added all the same.
\<close>

lemma cleanup_all_fresh:
  assumes "\<forall>k l. gget m k = Some l \<longrightarrow> now - rl_lastRefill l \<le> minutes 10"
    and "length m \<ge> consumersMaxEntries div 2"
  shows "cleanupConsumersLocked now order m = m"
  using assms by (induction order) (fastforce split: option.splits simp: Let_def)+

lemma consumers_cap_not_enforced:
  assumes "gmap_ok (grl_consumers g)" and "length (grl_consumers g) = consumersMaxEntries"
    and "gget (grl_consumers g) c = None"
    and "\<forall>k l. gget (grl_consumers g) k = Some l \<longrightarrow> now - rl_lastRefill l \<le> minutes 10"
  shows "length (grl_consumers (snd (getConsumerLimiter now order c g))) = Suc consumersMaxEntries"
  using assms cleanup_all_fresh [OF assms(4), of order]
  by (simp add: getConsumerLimiter_def Let_def length_gput)

section \<open>Client addresses\<close>

datatype ip_op =
    IpRequest int real string bool string string
  | IpCleanup int int

fun ip_step :: "ip_op \<Rightarrow> (string, ipRateLimitEntry) gomap \<Rightarrow> (string, ipRateLimitEntry) gomap" where
  "ip_step (IpRequest now q ep trusted xff remote) m = snd (rateLimitByIP now q ep trusted xff remote m)"
| "ip_step (IpCleanup now maxAge) m = cleanupIPRateLimiters now maxAge m"

lemma length_gfilter_le: "length (gfilter P m) \<le> length m"
  by (simp add: gfilter_def)

lemma ip_step_bounded:
  assumes "gmap_ok m" and "length m \<le> ipRateLimitersMaxEntries"
  shows "gmap_ok (ip_step x m) \<and> length (ip_step x m) \<le> ipRateLimitersMaxEntries"
proof (cases x)
  case (IpRequest now q ep trusted xff remote)
  then show ?thesis
    using assms length_gfilter_le [of "\<lambda>k e. \<not> (ipe_lastSeen e < now - minutes 5)" m]
    by (auto simp: rateLimitByIP_def Let_def length_gput split: option.splits prod.splits)
next
  case (IpCleanup now maxAge)
  then show ?thesis
    using assms length_gfilter_le by (auto simp: cleanupIPRateLimiters_def intro: order_trans)
qed

text \<open>
  Bounded memory. Whatever requests arrive, from however many forged addresses, and whenever
  the cleanup runs, the map of limiters per client address has distinct keys and at most
  \<open>ipRateLimitersMaxEntries\<close> of them.
\<close>

theorem ip_map_bounded:
  "gmap_ok (fold ip_step ops []) \<and> length (fold ip_step ops []) \<le> ipRateLimitersMaxEntries"
proof -
  have "gmap_ok m \<Longrightarrow> length m \<le> ipRateLimitersMaxEntries \<Longrightarrow>
          gmap_ok (fold ip_step ops m) \<and> length (fold ip_step ops m) \<le> ipRateLimitersMaxEntries" for m
    by (induction ops arbitrary: m) (use ip_step_bounded in auto)
  then show ?thesis by simp
qed

text \<open>The entry of an address under a limit of \<open>q\<close> requests per minute.\<close>

definition ip_entry_ok :: "real \<Rightarrow> ipRateLimitEntry \<Rightarrow> bool" where
  "ip_entry_ok q e \<longleftrightarrow> bucket_ok (ipe_limiter e) \<and> rl_maxTokens (ipe_limiter e) = q \<and>
     rl_refillRate (ipe_limiter e) = q / 60 \<and> rl_lastRefill (ipe_limiter e) = ipe_lastSeen e"

lemma Allow_full:
  assumes "bucket_ok l" and "rl_maxTokens l \<le> rl_tokens l + rl_refillRate l * seconds (now - rl_lastRefill l)"
  shows "Allow now l = Allow now (l\<lparr>rl_tokens := rl_maxTokens l, rl_lastRefill := now\<rparr>)"
  using assms by (auto simp: Allow_def Let_def mult.commute seconds_def)

text \<open>
  Eviction is harmless. An address that has been idle for a minute is treated exactly as if its
  entry had been evicted: same answer, same entry for every address afterwards. So neither the
  periodic cleanup nor the eviction when the map is full gives a client more requests than it
  would have had.
\<close>

theorem ip_eviction_harmless:
  assumes "gmap_ok m" and "length m \<le> ipRateLimitersMaxEntries" and "1 \<le> q"
    and "gget m (client_key trusted xff remote @ ep) = Some e" and "ip_entry_ok q e"
    and "ipe_lastSeen e \<le> now - minutes 1"
  shows "fst (rateLimitByIP now q ep trusted xff remote (gdel (client_key trusted xff remote @ ep) m))
           = fst (rateLimitByIP now q ep trusted xff remote m)
       \<and> gget (snd (rateLimitByIP now q ep trusted xff remote (gdel (client_key trusted xff remote @ ep) m))) k
           = gget (snd (rateLimitByIP now q ep trusted xff remote m)) k"
proof -
  let ?key = "client_key trusted xff remote @ ep" and ?l = "ipe_limiter e"
  let ?full = "NewRateLimiterWithBurst now (q / 60) q"
  have l: "bucket_ok ?l" "rl_maxTokens ?l = q" "rl_refillRate ?l = q / 60" "rl_lastRefill ?l = ipe_lastSeen e"
    using assms(5) by (auto simp: ip_entry_ok_def)
  have "60 \<le> seconds (now - ipe_lastSeen e)" using assms(6) by (simp add: seconds_def minutes_def)
  then have "q / 60 * 60 \<le> q / 60 * seconds (now - ipe_lastSeen e)" using assms(3) by (intro mult_left_mono) auto
  then have "rl_maxTokens ?l \<le> rl_tokens ?l + rl_refillRate ?l * seconds (now - rl_lastRefill ?l)"
    unfolding l(2-4) using bucket_ok_nonneg [OF l(1)] by simp
  moreover have "?l\<lparr>rl_tokens := rl_maxTokens ?l, rl_lastRefill := now\<rparr> = ?full"
    by (rule RateLimiter.equality) (use l(2,3) assms(3) in \<open>simp_all add: NewRateLimiterWithBurst_def\<close>)
  ultimately have allow: "Allow now ?l = Allow now ?full"
    using Allow_full [OF l(1)] by simp
  have "length (gdel ?key m) < ipRateLimitersMaxEntries"
    using length_gdel_less [of m ?key] assms(2,4) by simp
  with assms(4) allow show ?thesis
    by (auto simp: rateLimitByIP_def Let_def split: prod.splits)
qed

theorem ip_eviction_harmless_witness:
  "fst (rateLimitByIP (minutes 2) 5 ''/login'' False '''' ''10.0.0.1:80'' [])
     = fst (rateLimitByIP (minutes 2) 5 ''/login'' False '''' ''10.0.0.1:80''
         [(''10.0.0.1/login'', \<lparr>ipe_limiter = \<lparr>rl_tokens = 0, rl_maxTokens = 5, rl_refillRate = 5 / 60,
             rl_lastRefill = 0\<rparr>, ipe_lastSeen = 0\<rparr>)])"
proof -
  have key: "client_key False '''' ''10.0.0.1:80'' @ ''/login'' = ''10.0.0.1/login''"
    by (simp add: client_key_def extractClientIP_def SplitHostPort_def last_index_def)
  show ?thesis
    using ip_eviction_harmless [of "[(''10.0.0.1/login'', \<lparr>ipe_limiter = \<lparr>rl_tokens = 0, rl_maxTokens = 5,
        rl_refillRate = 5 / 60, rl_lastRefill = 0\<rparr>, ipe_lastSeen = 0\<rparr>)]" 5 False "''''" "''10.0.0.1:80''" "''/login''"
        "\<lparr>ipe_limiter = \<lparr>rl_tokens = 0, rl_maxTokens = 5, rl_refillRate = 5 / 60,
             rl_lastRefill = 0\<rparr>, ipe_lastSeen = 0\<rparr>" "minutes 2"]
    unfolding key by (simp add: ip_entry_ok_def bucket_ok_def ipRateLimitersMaxEntries_def minutes_def gdel_def)
qed

end
