(* ===== verification/Json_Text.thy ===== *)
theory Json_Text
  imports Omp_Prelude
begin

text \<open>
  What \<open>encoding/json\<close> does to the text of a \<open>json.RawMessage\<close> field when the struct around it is
  marshalled: \<open>json.Marshal\<close> compacts it (drops white space outside string literals and escapes the
  characters that are special in HTML), \<open>json.MarshalIndent\<close> then lays the compact text out again at
  the nesting depth of the field. A nil message is written as \<open>null\<close>. Decoding gives the field the
  bytes between its first and its last character, so the text that comes back from the file is the
  text that was written. Characters are bytes; the argument is the
  text of a valid JSON value without the separators U+2028 and U+2029.
\<close>

datatype lex_state = Outside | InString | InEscape

definition json_space :: "char \<Rightarrow> bool" where
  "json_space c \<longleftrightarrow> c \<in> {CHR '' '', CHR 0x09, CHR 0x0A, CHR 0x0D}"

definition html_escape :: "char \<Rightarrow> string" where
  "html_escape c = (if c = CHR ''<'' then CHR 0x5C # ''u003c'' else if c = CHR ''>'' then CHR 0x5C # ''u003e''
     else if c = CHR ''&'' then CHR 0x5C # ''u0026'' else [c])"

fun lex_next :: "lex_state \<Rightarrow> char \<Rightarrow> lex_state" where
  "lex_next Outside c = (if c = CHR 0x22 then InString else Outside)"
| "lex_next InString c = (if c = CHR 0x22 then Outside else if c = CHR 0x5C then InEscape else InString)"
| "lex_next InEscape c = InString"

fun json_compact :: "lex_state \<Rightarrow> string \<Rightarrow> string" where
  "json_compact q [] = []"
| "json_compact q (c # cs) =
     (if q = Outside \<and> json_space c then json_compact q cs
      else html_escape c @ json_compact (lex_next q c) cs)"

definition newline_indent :: "nat \<Rightarrow> string" where
  "newline_indent depth = CHR 0x0A # replicate (2 * depth) (CHR '' '')"

text \<open>The loop of \<open>json.Indent\<close> on compact text: \<open>need\<close> is its \<open>needIndent\<close> flag.\<close>

fun json_indent :: "lex_state \<Rightarrow> bool \<Rightarrow> nat \<Rightarrow> string \<Rightarrow> string" where
  "json_indent q need depth [] = []"
| "json_indent q need depth (c # cs) =
     (if q \<noteq> Outside then c # json_indent (lex_next q c) need depth cs
      else if json_space c then json_indent q need depth cs
      else
        let closing = (c = CHR ''}'' \<or> c = CHR '']'');
            opened = need \<and> \<not> closing;
            depth1 = (if opened then Suc depth else depth);
            lead = (if opened then newline_indent depth1 else []);
            need1 = (need \<and> closing)
        in if c = CHR ''{'' \<or> c = CHR ''['' then lead @ c # json_indent Outside True depth1 cs
           else if c = CHR '','' then lead @ c # newline_indent depth1 @ json_indent Outside False depth1 cs
           else if c = CHR '':'' then lead @ c # CHR '' '' # json_indent Outside False depth1 cs
           else if closing then
             (if need1 then c # json_indent Outside False depth cs
              else newline_indent (depth - 1) @ c # json_indent Outside False (depth - 1) cs)
           else lead @ c # json_indent (lex_next Outside c) False depth1 cs)"

definition marshal_raw :: "string \<Rightarrow> string" where
  "marshal_raw s = (if s = [] then ''null'' else json_compact Outside s)"

definition marshal_raw_indent :: "nat \<Rightarrow> string \<Rightarrow> string" where
  "marshal_raw_indent depth s = json_indent Outside False depth (marshal_raw s)"

lemma json_compact_html_escape:
  "\<not> (q = Outside \<and> json_space c) \<Longrightarrow>
     json_compact q (html_escape c @ s) = html_escape c @ json_compact (lex_next q c) s"
  by (cases q) (auto simp: html_escape_def json_space_def)

text \<open>Compact text stays as it is, so a second save and load changes nothing more.\<close>

lemma json_compact_idem [simp]: "json_compact q (json_compact q s) = json_compact q s"
  by (induction s arbitrary: q) (simp_all add: json_compact_html_escape)

lemma marshal_raw_idem [simp]:
  "json_compact Outside s \<noteq> [] \<Longrightarrow> marshal_raw (marshal_raw s) = marshal_raw s"
  by (auto simp: marshal_raw_def html_escape_def json_space_def)

end
