(* ===== verification/Governance.thy ===== *)
theory Governance
  imports Storage_Model Json_Text
begin

text \<open>
  Community co-governance: \<open>src/governance.go\<close>. Proposals and ratifications are two append-only,
  hash-chained lists; a proposal closes by supermajority of the eligible voters; ratified
  \<open>admit_node\<close> and \<open>allow_model\<close> proposals fill two rosters.

  The code keeps pointers to the same proposal object in a list and in an index. Here the object
  lives in the list and the index holds its position, so an update through the index is seen in the
  list. \<open>H\<close> is SHA-256 in hexadecimal, an arbitrary function; times are nanoseconds. A payload is
  the raw text together with what decoding it yields: re-formatting the text (see \<open>Json_Text\<close>) does
  not change the decoded fields. The voter source is a function; its answer at the time of a call is
  the argument \<open>voters\<close>, \<open>None\<close> when no source is set.
\<close>

section \<open>Data\<close>

record RawPayload =
  raw_text :: string
  raw_node_id :: "string option"    \<comment> \<open>\<open>None\<close>: decoding into a node payload fails\<close>
  raw_model_id :: "string option"

datatype gov_status = GovOpen | GovRatified | GovRejected

record GovernanceProposal =
  gp_ID :: string
  gp_Type :: string
  gp_Title :: string
  gp_Payload :: RawPayload
  gp_Proposer :: string
  gp_CreatedAt :: int
  gp_Status :: gov_status
  gp_Seq :: int
  gp_PrevHash :: string
  gp_Hash :: string

record GovernanceRatification =
  gr_ProposalID :: string
  gr_NodeID :: string
  gr_Approve :: bool
  gr_Timestamp :: int
  gr_Seq :: int
  gr_PrevHash :: string
  gr_Hash :: string

record govLedgerSnapshot =
  gs_Proposals :: "GovernanceProposal list"
  gs_Ratifications :: "GovernanceRatification list"
  gs_LastPHash :: string
  gs_LastRHash :: string
  gs_Seq :: int

record GovernanceLedger =
  gl_selfID :: string
  gl_proposalList :: "GovernanceProposal list"
  gl_proposalIndex :: "(string, nat) gomap"
  gl_ratifications :: "GovernanceRatification list"
  gl_ratIndex :: "(string, (string, bool) gomap) gomap"
  gl_openByProp :: "(string, int) gomap"
  gl_proposalSeq :: int
  gl_lastPHash :: string
  gl_lastRHash :: string
  gl_dataPath :: string
  gl_bbolt :: bool
  gl_admittedNodes :: "(string, bool) gomap"
  gl_allowedModels :: "(string, bool) gomap"
  gl_disk :: "govLedgerSnapshot domain_store"
  gl_bucket :: "govLedgerSnapshot stored_file"   \<comment> \<open>the key \<open>snapshot\<close> of the governance bucket\<close>

datatype gov_error = TypeTitleRequired | TooManyOpen | ProposalNotFound | NotOpen gov_status | AlreadyRatified

definition govMaxOpenPerProposer :: int where
  "govMaxOpenPerProposer = 5"

section \<open>Hashes\<close>

definition unix :: "int \<Rightarrow> int" where
  "unix t = t div 1000000000"

definition hashProposal :: "(string \<Rightarrow> string) \<Rightarrow> GovernanceProposal \<Rightarrow> string" where
  "hashProposal H p = H (gp_ID p @ ''|'' @ gp_Type p @ ''|'' @ gp_Title p @ ''|'' @ raw_text (gp_Payload p) @ ''|''
     @ gp_Proposer p @ ''|'' @ itoa (unix (gp_CreatedAt p)))"

definition hashRatification :: "(string \<Rightarrow> string) \<Rightarrow> GovernanceRatification \<Rightarrow> string" where
  "hashRatification H r = H (gr_ProposalID r @ ''|'' @ gr_NodeID r @ ''|''
     @ (if gr_Approve r then ''true'' else ''false'') @ ''|'' @ itoa (unix (gr_Timestamp r)))"

definition VerifyChain :: "(string \<Rightarrow> string) \<Rightarrow> GovernanceLedger \<Rightarrow> bool" where
  "VerifyChain H g \<longleftrightarrow>
     chain_from gp_PrevHash gp_Hash (hashProposal H) '''' (gl_proposalList g) \<and>
     chain_from gr_PrevHash gr_Hash (hashRatification H) '''' (gl_ratifications g)"

section \<open>Voting\<close>

definition supermajority :: "int \<Rightarrow> int" where
  "supermajority n = (if n \<le> 0 then 1 else \<lceil>real_of_int n * 2 / 3\<rceil>)"

definition eligibleCount :: "string list option \<Rightarrow> int" where
  "eligibleCount voters = (case voters of None \<Rightarrow> 0 | Some vs \<Rightarrow> int (length vs))"

definition eligible_or_one :: "string list option \<Rightarrow> int" where
  "eligible_or_one voters = (if eligibleCount voters = 0 then 1 else eligibleCount voters)"

definition votes :: "bool \<Rightarrow> string \<Rightarrow> GovernanceRatification list \<Rightarrow> int" where
  "votes b pid rs = int (length (filter (\<lambda>r. gr_ProposalID r = pid \<and> gr_Approve r = b) rs))"

definition executeRatified :: "GovernanceProposal \<Rightarrow> GovernanceLedger \<Rightarrow> GovernanceLedger" where
  "executeRatified p g =
     (if gp_Type p = ''admit_node'' then
        (case raw_node_id (gp_Payload p) of
           None \<Rightarrow> g
         | Some n \<Rightarrow> if n = '''' then g else g\<lparr>gl_admittedNodes := gput n True (gl_admittedNodes g)\<rparr>)
      else if gp_Type p = ''allow_model'' then
        (case raw_model_id (gp_Payload p) of
           None \<Rightarrow> g
         | Some m \<Rightarrow> if m = '''' then g else g\<lparr>gl_allowedModels := gput m True (gl_allowedModels g)\<rparr>)
      else g)"

definition closeOpen :: "string \<Rightarrow> (string, int) gomap \<Rightarrow> (string, int) gomap" where
  "closeOpen proposer m =
     (let m1 = gput proposer (i64 (gget0 0 m proposer - 1)) m
      in if gget0 0 m1 proposer < 0 then gput proposer 0 m1 else m1)"

text \<open>\<open>i\<close> is the position of the proposal the pointer refers to.\<close>

definition recompute :: "string list option \<Rightarrow> nat \<Rightarrow> GovernanceLedger \<Rightarrow> GovernanceLedger" where
  "recompute voters i g =
     (let need = supermajority (eligible_or_one voters);
          p = gl_proposalList g ! i;
          approve = votes True (gp_ID p) (gl_ratifications g);
          reject = votes False (gp_ID p) (gl_ratifications g)
      in if approve \<ge> need then
           let p' = p\<lparr>gp_Status := GovRatified\<rparr>
           in executeRatified p' (g\<lparr>gl_proposalList := (gl_proposalList g)[i := p'],
                 gl_openByProp := closeOpen (gp_Proposer p) (gl_openByProp g)\<rparr>)
         else if reject \<ge> need then
           g\<lparr>gl_proposalList := (gl_proposalList g)[i := p\<lparr>gp_Status := GovRejected\<rparr>],
             gl_openByProp := closeOpen (gp_Proposer p) (gl_openByProp g)\<rparr>
         else g)"

section \<open>Persistence\<close>

text \<open>
  The snapshot as it reads back from the store: the payload of a proposal stands at depth three of
  the document.
\<close>

definition marshal_proposal :: "bool \<Rightarrow> GovernanceProposal \<Rightarrow> GovernanceProposal" where
  "marshal_proposal pretty p =
     p\<lparr>gp_Payload := (gp_Payload p)\<lparr>raw_text :=
        (if pretty then marshal_raw_indent 3 (raw_text (gp_Payload p)) else marshal_raw (raw_text (gp_Payload p)))\<rparr>\<rparr>"

definition marshal_snapshot :: "bool \<Rightarrow> govLedgerSnapshot \<Rightarrow> govLedgerSnapshot" where
  "marshal_snapshot pretty s = s\<lparr>gs_Proposals := map (marshal_proposal pretty) (gs_Proposals s)\<rparr>"

definition gov_snapshot :: "GovernanceLedger \<Rightarrow> govLedgerSnapshot" where
  "gov_snapshot g = \<lparr>gs_Proposals = gl_proposalList g, gs_Ratifications = gl_ratifications g,
     gs_LastPHash = gl_lastPHash g, gs_LastRHash = gl_lastRHash g, gs_Seq = gl_proposalSeq g\<rparr>"

definition saveLocked :: "io_env \<Rightarrow> GovernanceLedger \<Rightarrow> GovernanceLedger" where
  "saveLocked io g =
     (if gl_dataPath g = '''' then g
      else if gl_bbolt g then
        (if io_update io then g\<lparr>gl_bucket := Content (marshal_snapshot False (gov_snapshot g))\<rparr> else g)
      else g\<lparr>gl_disk := (gl_disk g)\<lparr>ds_json :=
               atomicWriteFile io (marshal_snapshot True (gov_snapshot g)) (ds_json (gl_disk g))\<rparr>\<rparr>)"

fun index_proposals :: "nat \<Rightarrow> GovernanceProposal list \<Rightarrow> (string, nat) gomap \<Rightarrow> (string, nat) gomap" where
  "index_proposals i [] m = m"
| "index_proposals i (p # ps) m = index_proposals (Suc i) ps (gput (gp_ID p) i m)"

fun count_open :: "GovernanceProposal list \<Rightarrow> (string, int) gomap \<Rightarrow> (string, int) gomap" where
  "count_open [] m = m"
| "count_open (p # ps) m =
     count_open ps (if gp_Status p = GovOpen then gput (gp_Proposer p) (i64 (gget0 0 m (gp_Proposer p) + 1)) m else m)"

fun index_ratifications ::
    "GovernanceRatification list \<Rightarrow> (string, (string, bool) gomap) gomap \<Rightarrow> (string, (string, bool) gomap) gomap" where
  "index_ratifications [] m = m"
| "index_ratifications (r # rs) m =
     index_ratifications rs (gput (gr_ProposalID r) (gput (gr_NodeID r) True (gget0 [] m (gr_ProposalID r))) m)"

fun rebuildEffect :: "GovernanceProposal list \<Rightarrow> GovernanceLedger \<Rightarrow> GovernanceLedger" where
  "rebuildEffect [] g = g"
| "rebuildEffect (p # ps) g = rebuildEffect ps (if gp_Status p = GovRatified then executeRatified p g else g)"

definition applySnapshot :: "govLedgerSnapshot \<Rightarrow> GovernanceLedger \<Rightarrow> GovernanceLedger" where
  "applySnapshot s g =
     rebuildEffect (gs_Proposals s)
       (g\<lparr>gl_proposalList := gs_Proposals s, gl_ratifications := gs_Ratifications s,
          gl_lastPHash := gs_LastPHash s, gl_lastRHash := gs_LastRHash s, gl_proposalSeq := gs_Seq s,
          gl_proposalIndex := index_proposals 0 (gs_Proposals s) [],
          gl_ratIndex := index_ratifications (gs_Ratifications s) [],
          gl_openByProp := count_open (gs_Proposals s) []\<rparr>)"

definition gov_load :: "GovernanceLedger \<Rightarrow> GovernanceLedger" where
  "gov_load g =
     (if gl_dataPath g = '''' then g
      else case ds_json (gl_disk g) of Content s \<Rightarrow> applySnapshot s g | _ \<Rightarrow> g)"

definition gov_loadBbolt :: "GovernanceLedger \<Rightarrow> GovernanceLedger" where
  "gov_loadBbolt g = (case gl_bucket g of Content s \<Rightarrow> applySnapshot s g | _ \<Rightarrow> g)"

definition gov_importToBbolt :: "io_env \<Rightarrow> GovernanceLedger \<Rightarrow> bool \<times> GovernanceLedger" where
  "gov_importToBbolt io g =
     (if isMigrated (gl_disk g)
      then (case bakJSON io (gl_disk g) of
              (False, d) \<Rightarrow> (False, g\<lparr>gl_disk := d\<rparr>)
            | (True, d) \<Rightarrow> (True, g\<lparr>gl_disk := d, gl_bbolt := True\<rparr>))
      else
        let g1 = gov_load g in
        if \<not> io_update io then (False, g1)
        else
          let g2 = g1\<lparr>gl_bucket := Content (marshal_snapshot False (gov_snapshot g1))\<rparr> in
          case markMigrated io (gl_disk g2) of
            (False, d) \<Rightarrow> (False, g2\<lparr>gl_disk := d\<rparr>)
          | (True, d) \<Rightarrow> (case bakJSON io d of (b, d') \<Rightarrow> (b, g2\<lparr>gl_disk := d', gl_bbolt := True\<rparr>)))"

definition empty_ledger ::
    "string \<Rightarrow> string \<Rightarrow> govLedgerSnapshot domain_store \<Rightarrow> govLedgerSnapshot stored_file \<Rightarrow> GovernanceLedger" where
  "empty_ledger selfID dataPath disk bucket =
     \<lparr>gl_selfID = selfID, gl_proposalList = [], gl_proposalIndex = [], gl_ratifications = [], gl_ratIndex = [],
      gl_openByProp = [], gl_proposalSeq = 0, gl_lastPHash = '''', gl_lastRHash = '''', gl_dataPath = dataPath,
      gl_bbolt = False, gl_admittedNodes = [], gl_allowedModels = [], gl_disk = disk, gl_bucket = bucket\<rparr>"

definition NewGovernanceLedger ::
    "io_env \<Rightarrow> string \<Rightarrow> string \<Rightarrow> govLedgerSnapshot domain_store \<Rightarrow> govLedgerSnapshot stored_file \<Rightarrow> GovernanceLedger" where
  "NewGovernanceLedger io selfID dataPath disk bucket =
     (let g = empty_ledger selfID dataPath disk bucket in
      if io_use_bbolt io \<and> dataPath \<noteq> '''' then
        if io_open io then
          (case gov_importToBbolt io g of
             (False, g') \<Rightarrow> gov_load g'
           | (True, g') \<Rightarrow> gov_loadBbolt g')
        else gov_load g
      else gov_load g)"

section \<open>Operations\<close>

definition gov_id :: "string \<Rightarrow> int \<Rightarrow> string" where
  "gov_id selfID seq = ''gov-'' @ selfID @ ''-'' @ itoa seq"

definition mk_proposal ::
    "(string \<Rightarrow> string) \<Rightarrow> string \<Rightarrow> string \<times> int \<times> int \<times> string \<times> string \<times> string \<times> RawPayload \<Rightarrow> GovernanceProposal" where
  "mk_proposal H prev x =
     (case x of (selfID, now, seq, proposer, ptype, title, payload) \<Rightarrow>
        let p = \<lparr>gp_ID = gov_id selfID seq, gp_Type = ptype, gp_Title = title, gp_Payload = payload,
                 gp_Proposer = proposer, gp_CreatedAt = now, gp_Status = GovOpen, gp_Seq = seq,
                 gp_PrevHash = prev, gp_Hash = ''''\<rparr>
        in p\<lparr>gp_Hash := hashProposal H p\<rparr>)"

definition Propose ::
    "(string \<Rightarrow> string) \<Rightarrow> io_env \<Rightarrow> int \<Rightarrow> string \<Rightarrow> string \<Rightarrow> string \<Rightarrow> RawPayload \<Rightarrow> GovernanceLedger
     \<Rightarrow> (gov_error + GovernanceProposal) \<times> GovernanceLedger" where
  "Propose H io now proposer0 ptype title payload g =
     (let proposer = (if proposer0 = '''' then gl_selfID g else proposer0) in
      if ptype = '''' \<or> title = '''' then (Inl TypeTitleRequired, g)
      else if gget0 0 (gl_openByProp g) proposer \<ge> govMaxOpenPerProposer then (Inl TooManyOpen, g)
      else
        let seq = i64 (gl_proposalSeq g + 1);
            p = mk_proposal H (gl_lastPHash g) (gl_selfID g, now, seq, proposer, ptype, title, payload)
        in (Inr p, saveLocked io
              (g\<lparr>gl_proposalSeq := seq, gl_lastPHash := gp_Hash p,
                 gl_proposalList := gl_proposalList g @ [p],
                 gl_proposalIndex := gput (gp_ID p) (length (gl_proposalList g)) (gl_proposalIndex g),
                 gl_openByProp := gput proposer (i64 (gget0 0 (gl_openByProp g) proposer + 1)) (gl_openByProp g)\<rparr>)))"

definition mk_ratification ::
    "(string \<Rightarrow> string) \<Rightarrow> string \<Rightarrow> string \<times> string \<times> bool \<times> int \<times> int \<Rightarrow> GovernanceRatification" where
  "mk_ratification H prev x =
     (case x of (pid, nodeID, approve, now, seq) \<Rightarrow>
        let r = \<lparr>gr_ProposalID = pid, gr_NodeID = nodeID, gr_Approve = approve, gr_Timestamp = now,
                 gr_Seq = seq, gr_PrevHash = prev, gr_Hash = ''''\<rparr>
        in r\<lparr>gr_Hash := hashRatification H r\<rparr>)"

definition Ratify ::
    "(string \<Rightarrow> string) \<Rightarrow> io_env \<Rightarrow> int \<Rightarrow> string list option \<Rightarrow> string \<Rightarrow> string \<Rightarrow> bool \<Rightarrow> GovernanceLedger
     \<Rightarrow> (gov_error + GovernanceRatification) \<times> GovernanceLedger" where
  "Ratify H io now voters proposalID nodeID0 approve g =
     (let nodeID = (if nodeID0 = '''' then gl_selfID g else nodeID0) in
      case gget (gl_proposalIndex g) proposalID of
        None \<Rightarrow> (Inl ProposalNotFound, g)
      | Some i \<Rightarrow>
          if gp_Status (gl_proposalList g ! i) \<noteq> GovOpen
          then (Inl (NotOpen (gp_Status (gl_proposalList g ! i))), g)
          else
            let g1 = (if gget (gl_ratIndex g) proposalID = None
                      then g\<lparr>gl_ratIndex := gput proposalID [] (gl_ratIndex g)\<rparr> else g);
                voted = gget0 [] (gl_ratIndex g1) proposalID in
            if gget0 False voted nodeID then (Inl AlreadyRatified, g1)
            else
              let r = mk_ratification H (gl_lastRHash g1)
                        (proposalID, nodeID, approve, now, i64 (int (length (gl_ratifications g1)) + 1));
                  g2 = g1\<lparr>gl_lastRHash := gr_Hash r, gl_ratifications := gl_ratifications g1 @ [r],
                          gl_ratIndex := gput proposalID (gput nodeID True voted) (gl_ratIndex g1)\<rparr>
              in (Inr r, saveLocked io (recompute voters i g2)))"

section \<open>Queries\<close>

definition AdmittedNodes :: "GovernanceLedger \<Rightarrow> string list" where
  "AdmittedNodes g = map fst (gl_admittedNodes g)"

definition AllowedModels :: "GovernanceLedger \<Rightarrow> string list" where
  "AllowedModels g = map fst (gl_allowedModels g)"

definition IsCommunityAdmitted :: "GovernanceLedger \<Rightarrow> string \<Rightarrow> bool" where
  "IsCommunityAdmitted g nodeID = (if nodeID = '''' then False else gget0 False (gl_admittedNodes g) nodeID)"

definition IsCommunityCuratedModel :: "GovernanceLedger \<Rightarrow> string \<Rightarrow> bool" where
  "IsCommunityCuratedModel g modelID = (if modelID = '''' then False else gget0 False (gl_allowedModels g) modelID)"

text \<open>The result is (found, open, approved, eligible, need).\<close>

definition Tally :: "string list option \<Rightarrow> GovernanceLedger \<Rightarrow> string \<Rightarrow> bool \<times> bool \<times> int \<times> int \<times> int" where
  "Tally voters g proposalID =
     (case gget (gl_proposalIndex g) proposalID of
        None \<Rightarrow> (False, False, 0, 0, 0)
      | Some i \<Rightarrow>
          let eligible = eligible_or_one voters in
          (True, gp_Status (gl_proposalList g ! i) = GovOpen, votes True proposalID (gl_ratifications g),
           eligible, supermajority eligible))"

fun status_text :: "gov_status \<Rightarrow> string" where
  "status_text GovOpen = ''open''"
| "status_text GovRatified = ''ratified''"
| "status_text GovRejected = ''rejected''"

definition gov_List :: "string \<Rightarrow> GovernanceLedger \<Rightarrow> GovernanceProposal list" where
  "gov_List statusFilter g =
     filter (\<lambda>p. statusFilter = '''' \<or> status_text (gp_Status p) = statusFilter) (gl_proposalList g)"

definition gov_Get :: "GovernanceLedger \<Rightarrow> string \<Rightarrow> GovernanceProposal option" where
  "gov_Get g proposalID = map_option (\<lambda>i. gl_proposalList g ! i) (gget (gl_proposalIndex g) proposalID)"

text \<open>The peers of the contribution ledger, without duplicates, in the order of their first record.\<close>

definition contributorsVoterSource :: "string list option \<Rightarrow> string list" where
  "contributorsVoterSource peers =
     (case peers of
        None \<Rightarrow> []
      | Some ps \<Rightarrow> foldl (\<lambda>out p. if p \<noteq> '''' \<and> p \<notin> set out then out @ [p] else out) [] ps)"

section \<open>Handlers\<close>

text \<open>
  The ledger variable may be nil; \<open>body\<close> is the decoded request body, \<open>None\<close> when it does not
  decode; \<open>nodeHdr\<close> is the header \<open>X-Node-ID\<close> and \<open>self\<close> the node's own identifier.
\<close>

fun gov_error_text :: "gov_error \<Rightarrow> string" where
  "gov_error_text TypeTitleRequired = ''type and title are required''"
| "gov_error_text TooManyOpen = ''proposer has too many open proposals (spam guard)''"
| "gov_error_text ProposalNotFound = ''proposal not found''"
| "gov_error_text (NotOpen s) = ''proposal is not open (status='' @ status_text s @ '')''"
| "gov_error_text AlreadyRatified = ''node already ratified this proposal''"

definition handleGovernancePropose ::
    "(string \<Rightarrow> string) \<Rightarrow> io_env \<Rightarrow> int \<Rightarrow> string \<Rightarrow> string \<Rightarrow> (string \<times> string \<times> RawPayload) option
     \<Rightarrow> GovernanceLedger option \<Rightarrow> GovernanceProposal http_result \<times> GovernanceLedger option" where
  "handleGovernancePropose H io now self nodeHdr body gl =
     (case gl of
        None \<Rightarrow> (HttpError 503 ''governance not initialized'', None)
      | Some g \<Rightarrow>
          (case body of
             None \<Rightarrow> (HttpError 400 ''invalid body'', Some g)
           | Some (ptype, title, payload) \<Rightarrow>
               let proposer = (if nodeHdr = '''' then self else nodeHdr) in
               (case Propose H io now proposer ptype title payload g of
                  (Inl e, g') \<Rightarrow> (HttpError 400 (gov_error_text e), Some g')
                | (Inr p, g') \<Rightarrow> (HttpOK p, Some g'))))"

definition handleGovernanceRatify ::
    "(string \<Rightarrow> string) \<Rightarrow> io_env \<Rightarrow> int \<Rightarrow> string list option \<Rightarrow> string \<Rightarrow> string \<Rightarrow> (string \<times> bool) option
     \<Rightarrow> GovernanceLedger option \<Rightarrow> GovernanceRatification http_result \<times> GovernanceLedger option" where
  "handleGovernanceRatify H io now voters self nodeHdr body gl =
     (case gl of
        None \<Rightarrow> (HttpError 503 ''governance not initialized'', None)
      | Some g \<Rightarrow>
          (case body of
             None \<Rightarrow> (HttpError 400 ''invalid body'', Some g)
           | Some (pid, approve) \<Rightarrow>
               let nodeID = (if nodeHdr = '''' then self else nodeHdr) in
               (case Ratify H io now voters pid nodeID approve g of
                  (Inl e, g') \<Rightarrow> (HttpError 400 (gov_error_text e), Some g')
                | (Inr r, g') \<Rightarrow> (HttpOK r, Some g'))))"

text \<open>The listing: the proposals, whether the chains verify, and the two rosters.\<close>

definition handleGovernanceProposals ::
    "(string \<Rightarrow> string) \<Rightarrow> string \<Rightarrow> GovernanceLedger option
     \<Rightarrow> (GovernanceProposal list \<times> bool \<times> string list \<times> string list) http_result" where
  "handleGovernanceProposals H status gl =
     (case gl of
        None \<Rightarrow> HttpError 503 ''governance not initialized''
      | Some g \<Rightarrow> HttpOK (gov_List status g, VerifyChain H g, AdmittedNodes g, AllowedModels g))"

section \<open>Supermajority\<close>

lemma supermajority_eq: "supermajority n = (if n \<le> 0 then 1 else (2 * n + 2) div 3)"
proof (cases "n \<le> 0")
  case False
  have "\<lceil>real_of_int n * 2 / 3\<rceil> = (2 * n + 2) div 3"
  proof (rule ceiling_unique)
    have "3 * ((2 * n + 2) div 3) \<le> 2 * n + 2" by linarith
    then show "real_of_int ((2 * n + 2) div 3) - 1 < real_of_int n * 2 / 3" by linarith
    have "2 * n \<le> 3 * ((2 * n + 2) div 3)" by linarith
    then show "real_of_int n * 2 / 3 \<le> real_of_int ((2 * n + 2) div 3)" by linarith
  qed
  with False show ?thesis by (simp add: supermajority_def)
qed (simp add: supermajority_def)

lemma contributorsVoterSource_distinct:
  "distinct (contributorsVoterSource ps) \<and> '''' \<notin> set (contributorsVoterSource ps) \<and>
   set (contributorsVoterSource ps) = {p \<in> set (case ps of None \<Rightarrow> [] | Some xs \<Rightarrow> xs). p \<noteq> ''''}"
proof -
  let ?f = "\<lambda>out p. if p \<noteq> '''' \<and> p \<notin> set out then out @ [p] else out"
  have "distinct out \<Longrightarrow> '''' \<notin> set out \<Longrightarrow> distinct (foldl ?f out xs) \<and> '''' \<notin> set (foldl ?f out xs) \<and>
      set (foldl ?f out xs) = set out \<union> {p \<in> set xs. p \<noteq> ''''}" for out and xs :: "string list"
    by (induction xs arbitrary: out) auto
  from this [of "[]"] show ?thesis by (auto simp: contributorsVoterSource_def split: option.splits)
qed

section \<open>The chains\<close>

interpretation proposals: hash_chain gp_PrevHash gp_Hash "hashProposal H" "mk_proposal H" for H
  by unfold_locales (auto simp: mk_proposal_def hashProposal_def Let_def split: prod.splits)

interpretation ratifications: hash_chain gr_PrevHash gr_Hash "hashRatification H" "mk_ratification H" for H
  by unfold_locales (auto simp: mk_ratification_def hashRatification_def Let_def split: prod.splits)

definition chains_ok :: "(string \<Rightarrow> string) \<Rightarrow> GovernanceLedger \<Rightarrow> bool" where
  "chains_ok H g \<longleftrightarrow> VerifyChain H g \<and>
     gl_lastPHash g = chain_head gp_Hash '''' (gl_proposalList g) \<and>
     gl_lastRHash g = chain_head gr_Hash '''' (gl_ratifications g)"

lemma saveLocked_fields [simp]:
  "gl_selfID (saveLocked io g) = gl_selfID g"
  "gl_proposalList (saveLocked io g) = gl_proposalList g"
  "gl_proposalIndex (saveLocked io g) = gl_proposalIndex g"
  "gl_ratifications (saveLocked io g) = gl_ratifications g"
  "gl_ratIndex (saveLocked io g) = gl_ratIndex g"
  "gl_openByProp (saveLocked io g) = gl_openByProp g"
  "gl_proposalSeq (saveLocked io g) = gl_proposalSeq g"
  "gl_lastPHash (saveLocked io g) = gl_lastPHash g"
  "gl_lastRHash (saveLocked io g) = gl_lastRHash g"
  "gl_dataPath (saveLocked io g) = gl_dataPath g"
  "gl_bbolt (saveLocked io g) = gl_bbolt g"
  "gl_admittedNodes (saveLocked io g) = gl_admittedNodes g"
  "gl_allowedModels (saveLocked io g) = gl_allowedModels g"
  by (simp_all add: saveLocked_def)

lemma executeRatified_fields [simp]:
  "gl_selfID (executeRatified p g) = gl_selfID g"
  "gl_proposalList (executeRatified p g) = gl_proposalList g"
  "gl_proposalIndex (executeRatified p g) = gl_proposalIndex g"
  "gl_ratifications (executeRatified p g) = gl_ratifications g"
  "gl_ratIndex (executeRatified p g) = gl_ratIndex g"
  "gl_openByProp (executeRatified p g) = gl_openByProp g"
  "gl_proposalSeq (executeRatified p g) = gl_proposalSeq g"
  "gl_lastPHash (executeRatified p g) = gl_lastPHash g"
  "gl_lastRHash (executeRatified p g) = gl_lastRHash g"
  "gl_dataPath (executeRatified p g) = gl_dataPath g"
  "gl_bbolt (executeRatified p g) = gl_bbolt g"
  "gl_disk (executeRatified p g) = gl_disk g"
  "gl_bucket (executeRatified p g) = gl_bucket g"
  by (simp_all add: executeRatified_def split: option.splits)

lemma chains_ok_save [simp]: "chains_ok H (saveLocked io g) = chains_ok H g"
  by (simp add: chains_ok_def VerifyChain_def)

text \<open>The status of a proposal is outside its hash, so closing one leaves the chains intact.\<close>

lemma same_link_status: "same_link gp_PrevHash gp_Hash (hashProposal H) p (p\<lparr>gp_Status := s\<rparr>)"
  by (simp add: same_link_def hashProposal_def)

lemma chains_ok_close:
  assumes "chains_ok H g" and "i < length (gl_proposalList g)"
    and "gl_proposalList g' = (gl_proposalList g)[i := (gl_proposalList g ! i)\<lparr>gp_Status := s\<rparr>]"
    and "gl_ratifications g' = gl_ratifications g"
    and "gl_lastPHash g' = gl_lastPHash g" and "gl_lastRHash g' = gl_lastRHash g"
  shows "chains_ok H g'"
  using assms(1) chain_from_same_link [OF same_link_update [OF assms(2) same_link_status]]
    chain_head_same_link [OF same_link_update [OF assms(2) same_link_status]]
  unfolding chains_ok_def VerifyChain_def assms(3-6) by metis

lemma chains_ok_recompute:
  assumes "chains_ok H g" and "i < length (gl_proposalList g)"
  shows "chains_ok H (recompute voters i g)"
  unfolding recompute_def Let_def
  using assms(1) by (auto intro!: chains_ok_close [OF assms])

lemma gp_Hash_mk: "gp_Hash (mk_proposal H prev x) = hashProposal H (mk_proposal H prev x)"
  by (rule proposals.stored_mk)

lemma chains_ok_Propose:
  assumes "chains_ok H g"
  shows "chains_ok H (snd (Propose H io now q ty ti pl g))"
  using assms proposals.append_mk [of H "''''" "gl_proposalList g"]
  by (auto simp: Propose_def Let_def chains_ok_def VerifyChain_def)

section \<open>The invariant of the ledger\<close>

definition proposal_ids_ok :: "string \<Rightarrow> GovernanceProposal list \<Rightarrow> bool" where
  "proposal_ids_ok self ps \<longleftrightarrow> (\<forall>i < length ps. gp_ID (ps ! i) = gov_id self (int i + 1))"

definition open_count :: "string \<Rightarrow> GovernanceProposal list \<Rightarrow> int" where
  "open_count q ps = int (length (filter (\<lambda>p. gp_Status p = GovOpen \<and> gp_Proposer p = q) ps))"

definition vote_keys :: "GovernanceRatification list \<Rightarrow> (string \<times> string) list" where
  "vote_keys rs = map (\<lambda>r. (gr_ProposalID r, gr_NodeID r)) rs"

definition admits :: "GovernanceProposal \<Rightarrow> string \<Rightarrow> bool" where
  "admits p n \<longleftrightarrow> gp_Type p = ''admit_node'' \<and> raw_node_id (gp_Payload p) = Some n \<and> n \<noteq> ''''"

definition allows :: "GovernanceProposal \<Rightarrow> string \<Rightarrow> bool" where
  "allows p m \<longleftrightarrow> gp_Type p = ''allow_model'' \<and> raw_model_id (gp_Payload p) = Some m \<and> m \<noteq> ''''"

definition on_roster :: "(GovernanceProposal \<Rightarrow> string \<Rightarrow> bool) \<Rightarrow> GovernanceProposal list \<Rightarrow> string \<Rightarrow> bool" where
  "on_roster P ps n \<longleftrightarrow> (\<exists>p \<in> set ps. gp_Status p = GovRatified \<and> P p n)"

text \<open>What holds of the records, in memory and on disk.\<close>

definition records_ok :: "string \<Rightarrow> GovernanceProposal list \<Rightarrow> GovernanceRatification list \<Rightarrow> int \<Rightarrow> bool" where
  "records_ok self ps rs seq \<longleftrightarrow> seq = int (length ps) \<and> int (length ps) < 2 ^ 63 \<and> proposal_ids_ok self ps \<and>
     distinct (vote_keys rs) \<and> (\<forall>q. open_count q ps \<le> govMaxOpenPerProposer)"

text \<open>What holds of the tables built from them.\<close>

definition tables_ok :: "GovernanceLedger \<Rightarrow> bool" where
  "tables_ok g \<longleftrightarrow>
     (\<forall>k i. gget (gl_proposalIndex g) k = Some i \<longleftrightarrow>
        i < length (gl_proposalList g) \<and> gp_ID (gl_proposalList g ! i) = k) \<and>
     (\<forall>pid n. gget0 False (gget0 [] (gl_ratIndex g) pid) n \<longleftrightarrow> (pid, n) \<in> set (vote_keys (gl_ratifications g))) \<and>
     (\<forall>q. gget0 0 (gl_openByProp g) q = open_count q (gl_proposalList g)) \<and>
     (\<forall>n. gget0 False (gl_admittedNodes g) n \<longleftrightarrow> on_roster admits (gl_proposalList g) n) \<and>
     (\<forall>m. gget0 False (gl_allowedModels g) m \<longleftrightarrow> on_roster allows (gl_proposalList g) m)"

definition gov_ok :: "GovernanceLedger \<Rightarrow> bool" where
  "gov_ok g \<longleftrightarrow> records_ok (gl_selfID g) (gl_proposalList g) (gl_ratifications g) (gl_proposalSeq g) \<and> tables_ok g"

lemma tables_ok_save [simp]: "tables_ok (saveLocked io g) = tables_ok g"
  by (simp add: tables_ok_def)

lemma gov_ok_save [simp]: "gov_ok (saveLocked io g) = gov_ok g"
  by (simp add: gov_ok_def)

lemma gov_id_inj [simp]: "gov_id self i = gov_id self j \<longleftrightarrow> i = j"
  by (simp add: gov_id_def)

lemma proposal_ids_inj:
  "proposal_ids_ok self ps \<Longrightarrow> i < length ps \<Longrightarrow> j < length ps \<Longrightarrow> gp_ID (ps ! i) = gp_ID (ps ! j) \<longleftrightarrow> i = j"
  by (auto simp: proposal_ids_ok_def)

lemma roster_executeRatified:
  "gget0 False (gl_admittedNodes (executeRatified p g)) n \<longleftrightarrow> gget0 False (gl_admittedNodes g) n \<or> admits p n"
  "gget0 False (gl_allowedModels (executeRatified p g)) m \<longleftrightarrow> gget0 False (gl_allowedModels g) m \<or> allows p m"
  by (auto simp: executeRatified_def admits_def allows_def split: option.splits)

lemma gget0_closeOpen:
  "in_i64 (gget0 0 m q - 1) \<Longrightarrow>
     gget0 0 (closeOpen q m) r = (if r = q then max 0 (gget0 0 m q - 1) else gget0 0 m r)"
  by (auto simp: closeOpen_def Let_def)

lemma length_filter_update:
  "i < length xs \<Longrightarrow> int (length (filter P (xs[i := y]))) =
     int (length (filter P xs)) - (if P (xs ! i) then 1 else 0) + (if P y then 1 else 0)"
proof (induction xs arbitrary: i)
  case (Cons x xs)
  show ?case
  proof (cases i)
    case (Suc j)
    with Cons.prems Cons.IH [of j] show ?thesis by auto
  qed auto
qed simp

lemma open_count_close:
  assumes "i < length ps" and "gp_Status (ps ! i) = GovOpen" and "s \<noteq> GovOpen"
  shows "open_count q (ps[i := (ps ! i)\<lparr>gp_Status := s\<rparr>]) =
           open_count q ps - (if gp_Proposer (ps ! i) = q then 1 else 0)"
  using assms by (simp add: open_count_def length_filter_update)

lemma open_count_bounds: "0 \<le> open_count q ps" "open_count q ps \<le> int (length ps)"
  by (simp_all add: open_count_def)

lemma open_count_pos:
  assumes "i < length ps" and "gp_Status (ps ! i) = GovOpen"
  shows "1 \<le> open_count (gp_Proposer (ps ! i)) ps"
proof -
  have "ps ! i \<in> set (filter (\<lambda>p. gp_Status p = GovOpen \<and> gp_Proposer p = gp_Proposer (ps ! i)) ps)"
    using assms by simp
  then show ?thesis unfolding open_count_def by (cases "filter (\<lambda>p. gp_Status p = GovOpen \<and> gp_Proposer p = gp_Proposer (ps ! i)) ps") auto
qed

lemma on_roster_nth:
  "on_roster P ps n \<longleftrightarrow> (\<exists>j < length ps. gp_Status (ps ! j) = GovRatified \<and> P (ps ! j) n)"
  unfolding on_roster_def set_conv_nth by auto

lemma on_roster_close:
  assumes "i < length ps" and "gp_Status (ps ! i) = GovOpen"
    and P: "\<And>p s. P (p\<lparr>gp_Status := s\<rparr>) = P p"
  shows "on_roster P (ps[i := (ps ! i)\<lparr>gp_Status := s\<rparr>]) n \<longleftrightarrow> on_roster P ps n \<or> s = GovRatified \<and> P (ps ! i) n"
  unfolding on_roster_nth using assms
  by (auto simp: nth_list_update split: if_splits) (metis gov_status.distinct(1))

lemma admits_status [simp]: "admits (p\<lparr>gp_Status := s\<rparr>) = admits p" "allows (p\<lparr>gp_Status := s\<rparr>) = allows p"
  by (auto simp: admits_def allows_def fun_eq_iff)

lemma nth_close [simp]:
  "i < length ps \<Longrightarrow> gp_ID (ps[i := (ps ! i)\<lparr>gp_Status := s\<rparr>] ! j) = gp_ID (ps ! j)"
  by (simp add: nth_list_update)

text \<open>Closing the open proposal at position \<open>i\<close>, as \<open>recompute\<close> does, keeps the invariant.\<close>

lemma gov_ok_close:
  assumes ok: "gov_ok g" and i: "i < length (gl_proposalList g)"
    and op: "gp_Status (gl_proposalList g ! i) = GovOpen" and s: "s \<noteq> GovOpen"
    and g': "g' = g\<lparr>gl_proposalList := (gl_proposalList g)[i := (gl_proposalList g ! i)\<lparr>gp_Status := s\<rparr>],
               gl_openByProp := closeOpen (gp_Proposer (gl_proposalList g ! i)) (gl_openByProp g)\<rparr>"
    and ros: "\<And>n. on_roster admits (gl_proposalList g') n \<longleftrightarrow> gget0 False (gl_admittedNodes g'') n"
             "\<And>m. on_roster allows (gl_proposalList g') m \<longleftrightarrow> gget0 False (gl_allowedModels g'') m"
    and g'': "g'' = g' \<or> g'' = executeRatified p g'"
  shows "gov_ok g''"
proof -
  let ?ps = "gl_proposalList g" and ?q = "gp_Proposer (gl_proposalList g ! i)"
  have r: "records_ok (gl_selfID g) ?ps (gl_ratifications g) (gl_proposalSeq g)" and t: "tables_ok g"
    using ok by (auto simp: gov_ok_def)
  have cnt: "gget0 0 (gl_openByProp g) q = open_count q ?ps" for q using t by (simp add: tables_ok_def)
  have "in_i64 (open_count ?q ?ps - 1)"
    using r open_count_bounds [of ?q ?ps] by (auto simp: records_ok_def in_i64_def)
  then have close: "gget0 0 (closeOpen ?q (gl_openByProp g)) q =
      open_count q (?ps[i := (?ps ! i)\<lparr>gp_Status := s\<rparr>])" for q
    using gget0_closeOpen [of "gl_openByProp g" ?q q] open_count_close [OF i op s, of q] open_count_pos [OF i op]
    by (auto simp: cnt)
  have "open_count q (?ps[i := (?ps ! i)\<lparr>gp_Status := s\<rparr>]) \<le> govMaxOpenPerProposer" for q
  proof -
    have "open_count q ?ps \<le> govMaxOpenPerProposer" using r by (simp add: records_ok_def)
    with open_count_close [OF i op s, of q] show ?thesis by (simp split: if_splits)
  qed
  then have "records_ok (gl_selfID g'') (gl_proposalList g'') (gl_ratifications g'') (gl_proposalSeq g'')"
    using r g'' i unfolding g' by (auto simp: records_ok_def proposal_ids_ok_def)
  moreover have "tables_ok g''"
    unfolding tables_ok_def using t g'' ros close i unfolding g' by (auto simp: tables_ok_def)
  ultimately show ?thesis by (simp add: gov_ok_def)
qed

lemma gov_ok_recompute:
  assumes ok: "gov_ok g" and i: "i < length (gl_proposalList g)"
    and op: "gp_Status (gl_proposalList g ! i) = GovOpen"
  shows "gov_ok (recompute voters i g)"
proof -
  let ?p = "gl_proposalList g ! i"
  let ?g = "\<lambda>s. g\<lparr>gl_proposalList := (gl_proposalList g)[i := ?p\<lparr>gp_Status := s\<rparr>],
               gl_openByProp := closeOpen (gp_Proposer ?p) (gl_openByProp g)\<rparr>"
  have ros: "on_roster admits (gl_proposalList g) n \<longleftrightarrow> gget0 False (gl_admittedNodes g) n"
            "on_roster allows (gl_proposalList g) n \<longleftrightarrow> gget0 False (gl_allowedModels g) n" for n
    using ok by (auto simp: gov_ok_def tables_ok_def)
  note close = on_roster_close [OF i op, of admits, simplified] on_roster_close [OF i op, of allows, simplified]
  have "gov_ok (executeRatified (?p\<lparr>gp_Status := GovRatified\<rparr>) (?g GovRatified))"
    by (rule gov_ok_close [OF ok i op, of GovRatified]) (auto simp: roster_executeRatified close ros)
  moreover have "gov_ok (?g GovRejected)"
    by (rule gov_ok_close [OF ok i op, of GovRejected]) (auto simp: close ros)
  ultimately show ?thesis using ok by (auto simp: recompute_def Let_def)
qed

lemma gov_ok_Propose:
  assumes ok: "gov_ok g" and room: "int (length (gl_proposalList g)) + 1 < 2 ^ 63"
  shows "gov_ok (snd (Propose H io now q0 ty ti pl g))"
proof -
  let ?q = "if q0 = '''' then gl_selfID g else q0" and ?ps = "gl_proposalList g"
  show ?thesis
  proof (cases "ty = '''' \<or> ti = '''' \<or> gget0 0 (gl_openByProp g) ?q \<ge> govMaxOpenPerProposer")
    case True
    with ok show ?thesis by (auto simp: Propose_def Let_def)
  next
    case False
    have r: "records_ok (gl_selfID g) ?ps (gl_ratifications g) (gl_proposalSeq g)" and t: "tables_ok g"
      using ok by (auto simp: gov_ok_def)
    have cnt: "gget0 0 (gl_openByProp g) q = open_count q ?ps" for q using t by (simp add: tables_ok_def)
    have seq: "i64 (gl_proposalSeq g + 1) = int (length ?ps) + 1"
      using r room by (simp add: records_ok_def in_i64_def)
    define p where "p = mk_proposal H (gl_lastPHash g) (gl_selfID g, now, int (length ?ps) + 1, ?q, ty, ti, pl)"
    have p: "gp_ID p = gov_id (gl_selfID g) (int (length ?ps) + 1)" "gp_Status p = GovOpen" "gp_Proposer p = ?q"
      by (simp_all add: p_def mk_proposal_def Let_def)
    have cnt_new: "open_count q (?ps @ [p]) = open_count q ?ps + (if q = ?q then 1 else 0)" for q
      using p by (simp add: open_count_def)
    have inc: "i64 (open_count ?q ?ps + 1) = open_count ?q ?ps + 1"
      using room open_count_bounds [of ?q ?ps] by (intro i64_id) (auto simp: in_i64_def)
    have ids: "gget (gl_proposalIndex g) k = Some i \<longleftrightarrow> i < length ?ps \<and> gp_ID (?ps ! i) = k" for k i
      using t by (simp add: tables_ok_def)
    have fresh: "gp_ID (?ps ! i) \<noteq> gp_ID p" if "i < length ?ps" for i
      using that r p by (auto simp: records_ok_def proposal_ids_ok_def)
    have ros: "on_roster P (?ps @ [p]) n = on_roster P ?ps n" for P n
      using p by (auto simp: on_roster_def)
    have "records_ok (gl_selfID g) (?ps @ [p]) (gl_ratifications g) (int (length ?ps) + 1)"
      using r room False cnt p by (auto simp: records_ok_def proposal_ids_ok_def nth_append cnt_new less_Suc_eq)
    moreover have "tables_ok (g\<lparr>gl_proposalSeq := int (length ?ps) + 1, gl_lastPHash := gp_Hash p,
        gl_proposalList := ?ps @ [p], gl_proposalIndex := gput (gp_ID p) (length ?ps) (gl_proposalIndex g),
        gl_openByProp := gput ?q (i64 (gget0 0 (gl_openByProp g) ?q + 1)) (gl_openByProp g)\<rparr>)"
      using t fresh inc by (auto simp: tables_ok_def ros cnt cnt_new nth_append less_Suc_eq ids split: if_splits)
    ultimately show ?thesis
      using False by (simp add: Propose_def Let_def seq p_def [symmetric] gov_ok_def split del: if_split)
  qed
qed

lemma gov_okD_index:
  "gov_ok g \<Longrightarrow> gget (gl_proposalIndex g) pid = Some i \<Longrightarrow>
     i < length (gl_proposalList g) \<and> gp_ID (gl_proposalList g ! i) = pid"
  by (auto simp: gov_ok_def tables_ok_def)

text \<open>The ledger after a first look at the votes of a proposal, and after recording a vote.\<close>

definition with_votes :: "string \<Rightarrow> GovernanceLedger \<Rightarrow> GovernanceLedger" where
  "with_votes pid g = (if gget (gl_ratIndex g) pid = None then g\<lparr>gl_ratIndex := gput pid [] (gl_ratIndex g)\<rparr> else g)"

definition with_vote :: "string \<Rightarrow> GovernanceRatification \<Rightarrow> GovernanceLedger \<Rightarrow> GovernanceLedger" where
  "with_vote node r g =
     g\<lparr>gl_lastRHash := gr_Hash r, gl_ratifications := gl_ratifications g @ [r],
       gl_ratIndex := gput (gr_ProposalID r) (gput node True (gget0 [] (gl_ratIndex g) (gr_ProposalID r))) (gl_ratIndex g)\<rparr>"

lemma with_votes_fields [simp]:
  "gl_proposalList (with_votes pid g) = gl_proposalList g"
  "gl_proposalIndex (with_votes pid g) = gl_proposalIndex g"
  "gl_ratifications (with_votes pid g) = gl_ratifications g"
  "gl_lastRHash (with_votes pid g) = gl_lastRHash g"
  "gl_selfID (with_votes pid g) = gl_selfID g"
  "gl_proposalSeq (with_votes pid g) = gl_proposalSeq g"
  "gl_openByProp (with_votes pid g) = gl_openByProp g"
  "gl_admittedNodes (with_votes pid g) = gl_admittedNodes g"
  "gl_allowedModels (with_votes pid g) = gl_allowedModels g"
  "gl_disk (with_votes pid g) = gl_disk g" "gl_bucket (with_votes pid g) = gl_bucket g"
  "chains_ok H (with_votes pid g) = chains_ok H g"
  "gget0 [] (gl_ratIndex (with_votes pid g)) k = gget0 [] (gl_ratIndex g) k"
  by (auto simp: with_votes_def chains_ok_def VerifyChain_def gget0_def)

lemma gov_ok_with_votes [simp]: "gov_ok g \<Longrightarrow> gov_ok (with_votes pid g)"
  by (simp add: gov_ok_def tables_ok_def)

lemma with_vote_fields [simp]:
  "gl_proposalList (with_vote n r g) = gl_proposalList g" "gl_ratifications (with_vote n r g) = gl_ratifications g @ [r]"
  by (simp_all add: with_vote_def)

lemma gov_ok_with_vote:
  assumes "gov_ok g" and "\<not> gget0 False (gget0 [] (gl_ratIndex g) (gr_ProposalID r)) (gr_NodeID r)"
  shows "gov_ok (with_vote (gr_NodeID r) r g)"
  using assms by (auto simp: gov_ok_def tables_ok_def records_ok_def with_vote_def vote_keys_def)

lemma Ratify_alt:
  "Ratify H io now voters pid node0 approve g =
     (let node = (if node0 = '''' then gl_selfID g else node0) in
      case gget (gl_proposalIndex g) pid of
        None \<Rightarrow> (Inl ProposalNotFound, g)
      | Some i \<Rightarrow>
          let s = gp_Status (gl_proposalList g ! i); g1 = with_votes pid g in
          if s \<noteq> GovOpen then (Inl (NotOpen s), g)
          else if gget0 False (gget0 [] (gl_ratIndex g) pid) node then (Inl AlreadyRatified, g1)
          else let r = mk_ratification H (gl_lastRHash g) (pid, node, approve, now, i64 (int (length (gl_ratifications g)) + 1))
               in (Inr r, saveLocked io (recompute voters i (with_vote node r g1))))"
proof -
  have r: "gr_ProposalID (mk_ratification H prev (pid, n, a, t, s)) = pid" for prev n a t s
    by (simp add: mk_ratification_def Let_def)
  show ?thesis
    unfolding Ratify_def with_votes_def [symmetric] Let_def by (simp add: with_vote_def r split: option.split)
qed

lemma mk_ratification_fields [simp]:
  "gr_ProposalID (mk_ratification H prev (pid, n, a, t, s)) = pid"
  "gr_NodeID (mk_ratification H prev (pid, n, a, t, s)) = n"
  "gr_Approve (mk_ratification H prev (pid, n, a, t, s)) = a"
  by (simp_all add: mk_ratification_def Let_def)

lemma gov_ok_Ratify:
  assumes "gov_ok g"
  shows "gov_ok (snd (Ratify H io now voters pid node0 approve g))"
proof -
  have "gov_ok (recompute voters i (with_vote node r (with_votes pid g)))"
    if "gget (gl_proposalIndex g) pid = Some i" "gp_Status (gl_proposalList g ! i) = GovOpen"
      "\<not> gget0 False (gget0 [] (gl_ratIndex g) pid) node" "gr_ProposalID r = pid" "gr_NodeID r = node" for i r node
    using that assms gov_okD_index [OF assms that(1)] gov_ok_with_vote [of "with_votes pid g" r]
    by (intro gov_ok_recompute) auto
  with assms show ?thesis by (auto simp: Ratify_alt Let_def split: option.splits)
qed

lemma chains_ok_Ratify:
  assumes "gov_ok g" and "chains_ok H g"
  shows "chains_ok H (snd (Ratify H io now voters pid node0 approve g))"
proof -
  have "chains_ok H (recompute voters i (with_vote node (mk_ratification H (gl_lastRHash g) x) (with_votes pid g)))"
    if "gget (gl_proposalIndex g) pid = Some i" for i node x
  proof (rule chains_ok_recompute)
    show "i < length (gl_proposalList (with_vote node (mk_ratification H (gl_lastRHash g) x) (with_votes pid g)))"
      using gov_okD_index [OF assms(1) that] by simp
    show "chains_ok H (with_vote node (mk_ratification H (gl_lastRHash g) x) (with_votes pid g))"
      using assms(2) ratifications.append_mk [of H "''''" "gl_ratifications g" x]
      by (simp add: with_vote_def with_votes_def chains_ok_def VerifyChain_def)
  qed
  with assms(2) show ?thesis by (auto simp: Ratify_alt Let_def split: option.splits)
qed

section \<open>Loading a snapshot\<close>

definition stored_ok :: "string \<Rightarrow> govLedgerSnapshot stored_file \<Rightarrow> bool" where
  "stored_ok self f \<longleftrightarrow> (case f of Content s \<Rightarrow> records_ok self (gs_Proposals s) (gs_Ratifications s) (gs_Seq s) | _ \<Rightarrow> True)"

definition store_ok :: "GovernanceLedger \<Rightarrow> bool" where
  "store_ok g \<longleftrightarrow> stored_ok (gl_selfID g) (ds_json (gl_disk g)) \<and> stored_ok (gl_selfID g) (gl_bucket g)"

lemma marshal_proposal_fields [simp]:
  "gp_ID (marshal_proposal b p) = gp_ID p" "gp_Status (marshal_proposal b p) = gp_Status p"
  "gp_Proposer (marshal_proposal b p) = gp_Proposer p"
  "admits (marshal_proposal b p) = admits p" "allows (marshal_proposal b p) = allows p"
  by (auto simp: marshal_proposal_def admits_def allows_def fun_eq_iff)

lemma open_count_marshal [simp]: "open_count q (map (marshal_proposal b) ps) = open_count q ps"
  by (simp add: open_count_def filter_map comp_def)

lemma on_roster_marshal [simp]:
  "on_roster admits (map (marshal_proposal b) ps) n = on_roster admits ps n"
  "on_roster allows (map (marshal_proposal b) ps) n = on_roster allows ps n"
  by (auto simp: on_roster_def)

lemma records_ok_marshal [simp]: "records_ok self (map (marshal_proposal b) ps) rs seq = records_ok self ps rs seq"
  by (simp add: records_ok_def proposal_ids_ok_def)

lemma stored_ok_simps [simp]:
  "stored_ok self (Content s) = records_ok self (gs_Proposals s) (gs_Ratifications s) (gs_Seq s)"
  "stored_ok self Absent" "stored_ok self Corrupt"
  by (simp_all add: stored_ok_def)

lemma store_ok_save: "gov_ok g \<Longrightarrow> store_ok g \<Longrightarrow> store_ok (saveLocked io g)"
  by (simp add: store_ok_def saveLocked_def atomicWriteFile_def marshal_snapshot_def gov_snapshot_def gov_ok_def)

lemma rebuildEffect_fields [simp]:
  "gl_selfID (rebuildEffect ps g) = gl_selfID g"
  "gl_proposalList (rebuildEffect ps g) = gl_proposalList g"
  "gl_proposalIndex (rebuildEffect ps g) = gl_proposalIndex g"
  "gl_ratifications (rebuildEffect ps g) = gl_ratifications g"
  "gl_ratIndex (rebuildEffect ps g) = gl_ratIndex g"
  "gl_openByProp (rebuildEffect ps g) = gl_openByProp g"
  "gl_proposalSeq (rebuildEffect ps g) = gl_proposalSeq g"
  "gl_lastPHash (rebuildEffect ps g) = gl_lastPHash g"
  "gl_lastRHash (rebuildEffect ps g) = gl_lastRHash g"
  "gl_dataPath (rebuildEffect ps g) = gl_dataPath g"
  "gl_bbolt (rebuildEffect ps g) = gl_bbolt g"
  "gl_disk (rebuildEffect ps g) = gl_disk g"
  "gl_bucket (rebuildEffect ps g) = gl_bucket g"
  by (induction ps arbitrary: g) auto

lemma roster_rebuildEffect:
  "gget0 False (gl_admittedNodes (rebuildEffect ps g)) n \<longleftrightarrow> gget0 False (gl_admittedNodes g) n \<or> on_roster admits ps n"
  "gget0 False (gl_allowedModels (rebuildEffect ps g)) m \<longleftrightarrow> gget0 False (gl_allowedModels g) m \<or> on_roster allows ps m"
  by (induction ps arbitrary: g) (auto simp: on_roster_def roster_executeRatified)

lemma applySnapshot_fields [simp]:
  "gl_selfID (applySnapshot s g) = gl_selfID g"
  "gl_proposalList (applySnapshot s g) = gs_Proposals s"
  "gl_ratifications (applySnapshot s g) = gs_Ratifications s"
  "gl_proposalSeq (applySnapshot s g) = gs_Seq s"
  "gl_lastPHash (applySnapshot s g) = gs_LastPHash s"
  "gl_lastRHash (applySnapshot s g) = gs_LastRHash s"
  "gl_dataPath (applySnapshot s g) = gl_dataPath g"
  "gl_bbolt (applySnapshot s g) = gl_bbolt g"
  "gl_disk (applySnapshot s g) = gl_disk g"
  "gl_bucket (applySnapshot s g) = gl_bucket g"
  by (simp_all add: applySnapshot_def)

lemma gget_index_proposals:
  "distinct (map gp_ID ps) \<Longrightarrow> gget (index_proposals j ps m) k =
     (if k \<in> gp_ID ` set ps then gget (index_proposals j ps m) k else gget m k)"
  by (induction ps arbitrary: j m) auto

lemma index_proposals_nth:
  "distinct (map gp_ID ps) \<Longrightarrow> i < length ps \<Longrightarrow> gget (index_proposals j ps m) (gp_ID (ps ! i)) = Some (j + i)"
proof (induction ps arbitrary: i j m)
  case (Cons p ps)
  show ?case
  proof (cases i)
    case 0
    then show ?thesis
      using Cons.prems gget_index_proposals [of ps "Suc j" "gput (gp_ID p) j m" "gp_ID p"] by simp
  next
    case (Suc i')
    then show ?thesis using Cons.IH [of i' "Suc j" "gput (gp_ID p) j m"] Cons.prems by simp
  qed
qed simp

lemma index_proposals_iff:
  assumes "distinct (map gp_ID ps)"
  shows "gget (index_proposals 0 ps []) k = Some i \<longleftrightarrow> i < length ps \<and> gp_ID (ps ! i) = k"
proof (cases "k \<in> gp_ID ` set ps")
  case True
  then obtain j where j: "j < length ps" "gp_ID (ps ! j) = k" by (auto simp: in_set_conv_nth)
  then have "gget (index_proposals 0 ps []) k = Some j"
    using index_proposals_nth [OF assms j(1), of 0 "[]"] by simp
  moreover have "i < length ps \<and> gp_ID (ps ! i) = k \<longleftrightarrow> i = j"
    using assms j by (auto simp: distinct_conv_nth)
  ultimately show ?thesis by auto
next
  case False
  then show ?thesis using gget_index_proposals [OF assms, of 0 "[]" k] by auto
qed

lemma gget0_count_open:
  "\<forall>q. 0 \<le> gget0 0 m q \<and> gget0 0 m q + int (length ps) < 2 ^ 63 \<Longrightarrow>
     gget0 0 (count_open ps m) q = gget0 0 m q + open_count q ps"
proof (induction ps arbitrary: m)
  case (Cons p ps)
  have 0: "0 \<le> gget0 0 m r" "gget0 0 m r + int (length ps) + 1 < 2 ^ 63" for r
    using Cons.prems by (auto simp: algebra_simps)
  have "i64 (gget0 0 m (gp_Proposer p) + 1) = gget0 0 m (gp_Proposer p) + 1"
    using 0 [of "gp_Proposer p"] by (intro i64_id) (auto simp: in_i64_def)
  moreover have "\<forall>q. 0 \<le> gget0 0 (gput (gp_Proposer p) (gget0 0 m (gp_Proposer p) + 1) m) q \<and>
      gget0 0 (gput (gp_Proposer p) (gget0 0 m (gp_Proposer p) + 1) m) q + int (length ps) < 2 ^ 63"
  proof
    fix r show "0 \<le> gget0 0 (gput (gp_Proposer p) (gget0 0 m (gp_Proposer p) + 1) m) r \<and>
      gget0 0 (gput (gp_Proposer p) (gget0 0 m (gp_Proposer p) + 1) m) r + int (length ps) < 2 ^ 63"
      using 0 [of r] by (auto simp: algebra_simps)
  qed
  moreover have "\<forall>q. 0 \<le> gget0 0 m q \<and> gget0 0 m q + int (length ps) < 2 ^ 63"
  proof
    fix r show "0 \<le> gget0 0 m r \<and> gget0 0 m r + int (length ps) < 2 ^ 63" using 0 [of r] by linarith
  qed
  ultimately show ?case
    using Cons.IH [of m] Cons.IH [of "gput (gp_Proposer p) (gget0 0 m (gp_Proposer p) + 1) m"]
    by (simp add: open_count_def)
qed (simp add: open_count_def)

lemma index_ratifications_iff:
  "gget0 False (gget0 [] (index_ratifications rs m) pid) n \<longleftrightarrow>
     gget0 False (gget0 [] m pid) n \<or> (pid, n) \<in> set (vote_keys rs)"
  by (induction rs arbitrary: m) (auto simp: vote_keys_def)

lemma proposal_ids_distinct: "proposal_ids_ok self ps \<Longrightarrow> distinct (map gp_ID ps)"
  by (auto simp: distinct_conv_nth proposal_ids_inj)

lemma gov_ok_applySnapshot:
  assumes r: "records_ok (gl_selfID g) (gs_Proposals s) (gs_Ratifications s) (gs_Seq s)"
    and a: "\<And>n. gget0 False (gl_admittedNodes g) n \<Longrightarrow> on_roster admits (gs_Proposals s) n"
    and b: "\<And>n. gget0 False (gl_allowedModels g) n \<Longrightarrow> on_roster allows (gs_Proposals s) n"
  shows "gov_ok (applySnapshot s g)"
proof -
  have ids: "distinct (map gp_ID (gs_Proposals s))" using r proposal_ids_distinct by (auto simp: records_ok_def)
  have z: "gget0 z [] k = z" for z :: 'z and k :: string by (simp add: gget0_def)
  have "gget0 0 (count_open (gs_Proposals s) []) q = open_count q (gs_Proposals s)" for q
    using gget0_count_open [of "[]" "gs_Proposals s" q] r by (simp add: z records_ok_def)
  then have "tables_ok (applySnapshot s g)"
    using a b unfolding tables_ok_def
    by (auto simp: applySnapshot_def index_proposals_iff [OF ids] index_ratifications_iff roster_rebuildEffect z)
  with r show ?thesis by (simp add: gov_ok_def)
qed

lemma empty_ledger_fields [simp]:
  "gl_selfID (empty_ledger self path disk bucket) = self" "gl_proposalList (empty_ledger self path disk bucket) = []"
  "gl_openByProp (empty_ledger self path disk bucket) = []" "gl_dataPath (empty_ledger self path disk bucket) = path"
  "gl_disk (empty_ledger self path disk bucket) = disk" "gl_bucket (empty_ledger self path disk bucket) = bucket"
  by (simp_all add: empty_ledger_def)

lemma gov_ok_empty [simp]: "gov_ok (empty_ledger self path disk bucket)"
  by (simp add: gov_ok_def records_ok_def tables_ok_def empty_ledger_def proposal_ids_ok_def vote_keys_def
      open_count_def on_roster_def gget0_def govMaxOpenPerProposer_def)

lemma gov_ok_rosters:
  "gov_ok g \<Longrightarrow> gget0 False (gl_admittedNodes g) n = on_roster admits (gl_proposalList g) n"
  "gov_ok g \<Longrightarrow> gget0 False (gl_allowedModels g) n = on_roster allows (gl_proposalList g) n"
  by (simp_all add: gov_ok_def tables_ok_def)

lemma gov_ok_cong:
  "gov_ok g \<Longrightarrow> gov_ok (g\<lparr>gl_disk := d\<rparr>)" "gov_ok g \<Longrightarrow> gov_ok (g\<lparr>gl_bucket := f\<rparr>)"
  "gov_ok g \<Longrightarrow> gov_ok (g\<lparr>gl_bbolt := b\<rparr>)"
  by (simp_all add: gov_ok_def tables_ok_def)

text \<open>Applying a snapshot to a ledger that is empty or already holds the same proposals.\<close>

lemma gov_ok_apply_again:
  assumes "gov_ok g" and "stored_ok (gl_selfID g) (Content s)"
    and "gl_proposalList g = [] \<or> (\<exists>b. gs_Proposals s = gl_proposalList g \<or> gs_Proposals s = map (marshal_proposal b) (gl_proposalList g))"
  shows "gov_ok (applySnapshot s g)"
  by (rule gov_ok_applySnapshot) (use assms in \<open>auto simp: gov_ok_rosters on_roster_def [of _ "[]"]\<close>)

lemma gov_load_fields [simp]:
  "gl_selfID (gov_load g) = gl_selfID g" "gl_disk (gov_load g) = gl_disk g" "gl_bucket (gov_load g) = gl_bucket g"
  "gl_dataPath (gov_load g) = gl_dataPath g" "gl_bbolt (gov_load g) = gl_bbolt g"
  by (auto simp: gov_load_def split: stored_file.splits)

lemma gov_load_list:
  "gl_dataPath g \<noteq> '''' \<Longrightarrow> gl_proposalList g = [] \<Longrightarrow>
     gl_proposalList (gov_load g) = [] \<or>
     (\<exists>s. ds_json (gl_disk g) = Content s \<and> gs_Proposals s = gl_proposalList (gov_load g))"
  by (auto simp: gov_load_def split: stored_file.splits)

lemma gov_ok_load:
  assumes "gov_ok g" and "stored_ok (gl_selfID g) (ds_json (gl_disk g))"
    and "gl_proposalList g = [] \<or> (\<exists>s. ds_json (gl_disk g) = Content s \<and> gs_Proposals s = gl_proposalList g)"
  shows "gov_ok (gov_load g)"
  using assms by (auto simp: gov_load_def split: stored_file.splits intro: gov_ok_apply_again)

lemma bakJSON_cases:
  "bakJSON io d = (False, d') \<Longrightarrow> d' = d" "ds_json (snd (bakJSON io d)) = ds_json d \<or> ds_json (snd (bakJSON io d)) = Absent"
  by (auto simp: bakJSON_def split: if_splits)

lemma gov_ok_loadBbolt:
  assumes "gov_ok g" and "stored_ok (gl_selfID g) (gl_bucket g)"
    and "gl_proposalList g = [] \<or>
         (\<exists>s b. gl_bucket g = Content s \<and> gs_Proposals s = map (marshal_proposal b) (gl_proposalList g))"
  shows "gov_ok (gov_loadBbolt g)"
proof (cases "gl_bucket g")
  case (Content s)
  have "gov_ok (applySnapshot s g)"
    by (rule gov_ok_apply_again) (use assms Content in auto)
  with Content show ?thesis by (simp add: gov_loadBbolt_def)
qed (use assms in \<open>simp_all add: gov_loadBbolt_def\<close>)

lemma gov_loadBbolt_fields [simp]:
  "gl_selfID (gov_loadBbolt g) = gl_selfID g" "gl_disk (gov_loadBbolt g) = gl_disk g"
  "gl_bucket (gov_loadBbolt g) = gl_bucket g"
  by (auto simp: gov_loadBbolt_def split: stored_file.splits)

text \<open>The state an import leaves behind can be loaded from either side.\<close>

definition loadable :: "GovernanceLedger \<Rightarrow> bool" where
  "loadable g \<longleftrightarrow> gov_ok g \<and> store_ok g \<and>
     (gl_proposalList g = [] \<or> (\<exists>s. ds_json (gl_disk g) = Content s \<and> gs_Proposals s = gl_proposalList g))"

definition loadableBbolt :: "GovernanceLedger \<Rightarrow> bool" where
  "loadableBbolt g \<longleftrightarrow> gov_ok g \<and> store_ok g \<and>
     (gl_proposalList g = [] \<or> (\<exists>s b. gl_bucket g = Content s \<and> gs_Proposals s = map (marshal_proposal b) (gl_proposalList g)))"

lemma loadable_load: "loadable g \<Longrightarrow> gov_ok (gov_load g) \<and> store_ok (gov_load g)"
  by (auto simp: loadable_def store_ok_def intro: gov_ok_load)

lemma loadableBbolt_load: "loadableBbolt g \<Longrightarrow> gov_ok (gov_loadBbolt g) \<and> store_ok (gov_loadBbolt g)"
  by (auto simp: loadableBbolt_def store_ok_def intro!: gov_ok_loadBbolt)

lemma import_loadable:
  assumes ok: "gov_ok g" "store_ok g" "gl_proposalList g = []" and path: "gl_dataPath g \<noteq> ''''"
    and imp: "gov_importToBbolt io g = (b, g')"
  shows "gl_selfID g' = gl_selfID g \<and> (if b then loadableBbolt g' else loadable g')"
proof (cases "ds_migrated (gl_disk g)")
  case True
  with assms bakJSON_cases(2) [of io "gl_disk g"] show ?thesis
    by (auto simp: gov_importToBbolt_def isMigrated_def loadable_def loadableBbolt_def store_ok_def gov_ok_cong
        split: prod.splits bool.splits dest!: bakJSON_cases(1))
next
  case False
  let ?g1 = "gov_load g" and ?s = "marshal_snapshot False (gov_snapshot (gov_load g))"
  have ok1: "gov_ok ?g1" using ok by (intro gov_ok_load) (auto simp: store_ok_def)
  have lst: "gl_proposalList ?g1 = [] \<or>
      (\<exists>s. ds_json (gl_disk g) = Content s \<and> gs_Proposals s = gl_proposalList ?g1)"
    using gov_load_list [OF path ok(3)] .
  have st: "stored_ok (gl_selfID g) (ds_json (gl_disk g))" "stored_ok (gl_selfID g) (gl_bucket g)"
    "stored_ok (gl_selfID g) (Content ?s)"
    using ok(2) ok1 by (auto simp: store_ok_def marshal_snapshot_def gov_snapshot_def gov_ok_def)
  obtain m d where m: "markMigrated io (gl_disk g) = (m, d)" by fastforce
  obtain k d' where k: "bakJSON io d = (k, d')" by fastforce
  have d: "ds_json d = ds_json (gl_disk g)" using m markMigrated_json [of io "gl_disk g"] by simp
  have d': "ds_json d' = ds_json d \<or> ds_json d' = Absent" "\<not> k \<Longrightarrow> d' = d"
    using k bakJSON_cases [of io d] by auto
  have list_s: "gs_Proposals ?s = map (marshal_proposal False) (gl_proposalList ?g1)"
    by (simp add: marshal_snapshot_def gov_snapshot_def)
  show ?thesis
  proof (cases "io_update io \<and> m")
    case both: True
    then have "b = k" "g' = ?g1\<lparr>gl_bucket := Content ?s, gl_disk := d', gl_bbolt := True\<rparr>"
      using imp False m k by (auto simp: gov_importToBbolt_def isMigrated_def Let_def)
    then show ?thesis
      using ok1 st lst d d' list_s by (auto simp: loadable_def loadableBbolt_def store_ok_def gov_ok_cong)
  next
    case neither: False
    then have "\<not> b \<and> (g' = ?g1 \<or> g' = ?g1\<lparr>gl_bucket := Content ?s, gl_disk := d\<rparr>)"
      using imp False m by (auto simp: gov_importToBbolt_def isMigrated_def Let_def split: if_splits)
    then show ?thesis
      using ok1 st lst d by (auto simp: loadable_def store_ok_def gov_ok_cong)
  qed
qed

lemma NewGovernanceLedger_ok:
  assumes "stored_ok self (ds_json disk)" and "stored_ok self bucket"
  shows "gov_ok (NewGovernanceLedger io self path disk bucket) \<and> store_ok (NewGovernanceLedger io self path disk bucket)
     \<and> gl_selfID (NewGovernanceLedger io self path disk bucket) = self"
proof -
  let ?g = "empty_ledger self path disk bucket"
  have e: "gl_proposalList ?g = []" "gl_selfID ?g = self" "gl_disk ?g = disk" "gl_bucket ?g = bucket" "gl_dataPath ?g = path"
    by (simp_all add: empty_ledger_def)
  have load: "gov_ok (gov_load ?g) \<and> store_ok (gov_load ?g) \<and> gl_selfID (gov_load ?g) = self"
    using assms gov_ok_load [OF gov_ok_empty, of self path disk bucket] by (simp add: e store_ok_def)
  have imp: "gl_selfID g' = self \<and> (if b then loadableBbolt g' else loadable g')"
    if "gov_importToBbolt io ?g = (b, g')" "path \<noteq> ''''" for b g'
    using import_loadable [OF gov_ok_empty _ e(1) _ that(1)] that(2) assms by (simp add: e store_ok_def)
  obtain b g' where b: "gov_importToBbolt io ?g = (b, g')" by fastforce
  show ?thesis
  proof (cases "io_use_bbolt io \<and> path \<noteq> [] \<and> io_open io")
    case True
    then have "gl_selfID g' = self \<and> (if b then loadableBbolt g' else loadable g')" using imp [OF b] by simp
    with True b loadable_load [of g'] loadableBbolt_load [of g'] show ?thesis
      by (simp add: NewGovernanceLedger_def Let_def split: bool.splits)
  next
    case False
    with load show ?thesis by (auto simp: NewGovernanceLedger_def Let_def)
  qed
qed

section \<open>Sessions and restarts\<close>

datatype gov_op =
    OpPropose io_env int string string string RawPayload
  | OpRatify io_env int "string list option" string string bool

fun gov_step :: "(string \<Rightarrow> string) \<Rightarrow> gov_op \<Rightarrow> GovernanceLedger \<Rightarrow> GovernanceLedger" where
  "gov_step H (OpPropose io now q ty ti pl) g = snd (Propose H io now q ty ti pl g)"
| "gov_step H (OpRatify io now voters pid node approve) g = snd (Ratify H io now voters pid node approve g)"

text \<open>
  The ledgers a node can have: a first start on an empty disk, operations with any outcome of their
  writes, and restarts with either backend on whatever the disk holds. A ledger has fewer than
  \<open>2 ^ 63 - 1\<close> proposals, the range of its sequence counter.
\<close>

inductive gov_reachable :: "(string \<Rightarrow> string) \<Rightarrow> string \<Rightarrow> GovernanceLedger \<Rightarrow> bool" for H self where
  gov_start: "gov_reachable H self (NewGovernanceLedger io self path \<lparr>ds_json = Absent, ds_bak = b, ds_migrated = m\<rparr> Absent)"
| gov_op: "gov_reachable H self g \<Longrightarrow> int (length (gl_proposalList g)) + 1 < 2 ^ 63 \<Longrightarrow> gov_reachable H self (gov_step H x g)"
| gov_restart: "gov_reachable H self g \<Longrightarrow> gov_reachable H self (NewGovernanceLedger io self path (gl_disk g) (gl_bucket g))"

lemma recompute_fields [simp]:
  "gl_selfID (recompute voters i g) = gl_selfID g" "gl_disk (recompute voters i g) = gl_disk g"
  "gl_bucket (recompute voters i g) = gl_bucket g" "gl_ratifications (recompute voters i g) = gl_ratifications g"
  by (simp_all add: recompute_def Let_def)

lemma gov_step_ok:
  assumes "gov_ok g" and "int (length (gl_proposalList g)) + 1 < 2 ^ 63"
  shows "gov_ok (gov_step H x g)"
  using assms by (cases x) (auto simp: gov_ok_Propose gov_ok_Ratify)

lemma gov_step_self [simp]: "gl_selfID (gov_step H x g) = gl_selfID g"
  by (cases x) (auto simp: Propose_def Ratify_alt with_vote_def Let_def split: option.splits)

lemma gov_step_store:
  assumes "gov_ok g" and "store_ok g" and "int (length (gl_proposalList g)) + 1 < 2 ^ 63"
  shows "store_ok (gov_step H x g)"
proof -
  have "gov_ok (gov_step H x g)" using assms by (intro gov_step_ok)
  then have mem: "gov_ok h" if "gov_step H x g = saveLocked io h" for h io using that by simp
  show ?thesis
  proof (cases x)
    case (OpPropose io now q ty ti pl)
    with assms mem show ?thesis
      by (auto simp: Propose_def Let_def intro!: store_ok_save) (auto simp: store_ok_def)
  next
    case (OpRatify io now voters pid node approve)
    with assms mem show ?thesis
      by (auto simp: Ratify_alt Let_def split: option.splits intro!: store_ok_save)
        (auto simp: store_ok_def with_vote_def)
  qed
qed

lemma gov_reachable_ok: "gov_reachable H self g \<Longrightarrow> gov_ok g \<and> store_ok g \<and> gl_selfID g = self"
proof (induction rule: gov_reachable.induct)
  case (gov_start io path b m)
  then show ?case by (intro NewGovernanceLedger_ok) simp_all
next
  case (gov_op g x)
  then show ?case using gov_step_ok [of g H x] gov_step_store [of g H x] by simp
next
  case (gov_restart g io path)
  then show ?case by (intro NewGovernanceLedger_ok) (auto simp: store_ok_def)
qed

lemma gov_Get_iff: "gov_ok g \<Longrightarrow> gov_Get g k = Some p \<longleftrightarrow> p \<in> set (gl_proposalList g) \<and> gp_ID p = k"
proof -
  assume "gov_ok g"
  then have i: "gget (gl_proposalIndex g) k = Some i \<longleftrightarrow> i < length (gl_proposalList g) \<and> gp_ID (gl_proposalList g ! i) = k" for i
    by (simp add: gov_ok_def tables_ok_def)
  show ?thesis
    unfolding gov_Get_def by (auto simp: i in_set_conv_nth)
qed

text \<open>
  (C5) The governance ledger. In every ledger a node can have, over any proposals, votes, failing
  writes, backends and restarts: no node has two votes on one proposal; the open proposals of each
  proposer are counted right and are at most five; a lookup finds exactly the recorded proposals;
  and the two rosters hold exactly the nodes and models of the ratified proposals, so a roster cannot
  diverge from the record.
\<close>

theorem governance_invariant:
  assumes "gov_reachable H self g"
  shows "distinct (vote_keys (gl_ratifications g))
       \<and> (\<forall>q. gget0 0 (gl_openByProp g) q = open_count q (gl_proposalList g) \<and> open_count q (gl_proposalList g) \<le> 5)
       \<and> (\<forall>k p. gov_Get g k = Some p \<longleftrightarrow> p \<in> set (gl_proposalList g) \<and> gp_ID p = k)
       \<and> (\<forall>n. IsCommunityAdmitted g n \<longleftrightarrow> on_roster admits (gl_proposalList g) n)
       \<and> (\<forall>m. IsCommunityCuratedModel g m \<longleftrightarrow> on_roster allows (gl_proposalList g) m)"
proof -
  have ok: "gov_ok g" using gov_reachable_ok [OF assms] by simp
  then have "IsCommunityAdmitted g n \<longleftrightarrow> on_roster admits (gl_proposalList g) n"
            "IsCommunityCuratedModel g n \<longleftrightarrow> on_roster allows (gl_proposalList g) n" for n
    by (auto simp: IsCommunityAdmitted_def IsCommunityCuratedModel_def gov_ok_rosters)
      (auto simp: on_roster_def admits_def allows_def)
  with ok gov_Get_iff [OF ok] show ?thesis
    by (auto simp: gov_ok_def records_ok_def tables_ok_def govMaxOpenPerProposer_def)
qed

theorem governance_invariant_witness:
  "distinct (vote_keys (gl_ratifications
     (gov_step (\<lambda>s. s) (OpRatify (io_fine False) 7 None ''gov-a-1'' ''a'' True)
       (gov_step (\<lambda>s. s) (OpPropose (io_fine False) 5 '''' ''param_change'' ''t'' \<lparr>raw_text = ''1'', raw_node_id = None, raw_model_id = None\<rparr>)
         (NewGovernanceLedger (io_fine False) ''a'' '''' \<lparr>ds_json = Absent, ds_bak = False, ds_migrated = False\<rparr> Absent)))))"
proof -
  let ?g = "NewGovernanceLedger (io_fine False) ''a'' '''' \<lparr>ds_json = Absent, ds_bak = False, ds_migrated = False\<rparr> Absent"
  let ?pl = "\<lparr>raw_text = ''1'', raw_node_id = None, raw_model_id = None\<rparr>"
  have 0: "gl_proposalList ?g = []" by (simp add: NewGovernanceLedger_def gov_load_def empty_ledger_def Let_def)
  then have 1: "length (gl_proposalList (gov_step (\<lambda>s. s) (OpPropose (io_fine False) 5 '''' ''param_change'' ''t'' ?pl) ?g)) \<le> 1"
    by (simp add: Propose_def Let_def)
  have r0: "gov_reachable (\<lambda>s. s) ''a'' ?g" by (rule gov_start)
  have r1: "gov_reachable (\<lambda>s. s) ''a'' (gov_step (\<lambda>s. s) (OpPropose (io_fine False) 5 '''' ''param_change'' ''t'' ?pl) ?g)"
    by (rule gov_op [OF r0]) (simp add: 0)
  have "gov_reachable (\<lambda>s. s) ''a'' (gov_step (\<lambda>s. s) (OpRatify (io_fine False) 7 None ''gov-a-1'' ''a'' True)
       (gov_step (\<lambda>s. s) (OpPropose (io_fine False) 5 '''' ''param_change'' ''t'' ?pl) ?g))"
    by (rule gov_op [OF r1], rule order.strict_trans1 [of _ 2]) (use 1 in auto)
  from governance_invariant [OF this] show ?thesis by blast
qed

section \<open>History\<close>

text \<open>A proposal may go from open to closed; nothing else of a recorded proposal ever changes.\<close>

definition evolves :: "GovernanceProposal \<Rightarrow> GovernanceProposal \<Rightarrow> bool" where
  "evolves p p' \<longleftrightarrow> p' = p \<or> gp_Status p = GovOpen \<and> (\<exists>s. p' = p\<lparr>gp_Status := s\<rparr>)"

definition extends :: "GovernanceLedger \<Rightarrow> GovernanceLedger \<Rightarrow> bool" where
  "extends g g' \<longleftrightarrow>
     (\<exists>qs. gl_ratifications g' = gl_ratifications g @ qs) \<and> length (gl_proposalList g) \<le> length (gl_proposalList g') \<and>
     (\<forall>i < length (gl_proposalList g). evolves (gl_proposalList g ! i) (gl_proposalList g' ! i))"

lemma evolves_trans: "evolves p q \<Longrightarrow> evolves q r \<Longrightarrow> evolves p r"
  by (auto simp: evolves_def)

lemma extends_refl: "extends g g"
  by (simp add: extends_def evolves_def)

lemma extends_trans: "extends f g \<Longrightarrow> extends g h \<Longrightarrow> extends f h"
  unfolding extends_def by (auto intro: evolves_trans elim!: order_trans)

lemma recompute_list:
  "gl_proposalList (recompute voters i g) =
     (let p = gl_proposalList g ! i; need = supermajority (eligible_or_one voters) in
      (gl_proposalList g)[i := (if votes True (gp_ID p) (gl_ratifications g) \<ge> need then p\<lparr>gp_Status := GovRatified\<rparr>
         else if votes False (gp_ID p) (gl_ratifications g) \<ge> need then p\<lparr>gp_Status := GovRejected\<rparr> else p)])"
  by (simp add: recompute_def Let_def)

lemma recompute_list_status:
  "\<exists>s. gl_proposalList (recompute voters i g) = (gl_proposalList g)[i := (gl_proposalList g ! i)\<lparr>gp_Status := s\<rparr>]"
  by (rule exI [of _ "let need = supermajority (eligible_or_one voters); k = gp_ID (gl_proposalList g ! i) in
        if votes True k (gl_ratifications g) \<ge> need then GovRatified
        else if votes False k (gl_ratifications g) \<ge> need then GovRejected else gp_Status (gl_proposalList g ! i)"])
    (simp add: recompute_list Let_def)

lemma extends_vote:
  assumes "gp_Status (gl_proposalList g ! i) = GovOpen"
    and "gl_proposalList h = (gl_proposalList g)[i := (gl_proposalList g ! i)\<lparr>gp_Status := s\<rparr>]"
    and "gl_ratifications h = gl_ratifications g @ rs"
  shows "extends g h"
proof -
  have "evolves (gl_proposalList g ! j) (gl_proposalList h ! j)" if "j < length (gl_proposalList g)" for j
    using assms(1,2) that by (cases "i = j") (auto simp: evolves_def)
  then show ?thesis using assms(2,3) by (simp add: extends_def)
qed

lemma gov_step_extends: "extends g (gov_step H x g)"
proof (cases x)
  case (OpPropose io now q ty ti pl)
  then show ?thesis by (auto simp: Propose_def Let_def extends_def evolves_def nth_append)
next
  case (OpRatify io now voters pid node approve)
  have "extends g (saveLocked io (recompute voters i (with_vote n r (with_votes pid g))))"
    if "gp_Status (gl_proposalList g ! i) = GovOpen" for i n r
    using recompute_list_status [of voters i "with_vote n r (with_votes pid g)"]
    by (auto intro!: extends_vote [OF that])
  moreover have "extends g (with_votes pid g)" by (simp add: extends_def evolves_def)
  ultimately show ?thesis
    using OpRatify by (auto simp: Ratify_alt Let_def extends_refl split: option.splits)
qed

lemma session_ok:
  assumes "gov_ok g" and "chains_ok H g" and "int (length (gl_proposalList g)) + int (length xs) < 2 ^ 63"
  shows "gov_ok (fold (gov_step H) xs g) \<and> chains_ok H (fold (gov_step H) xs g) \<and> extends g (fold (gov_step H) xs g)"
  using assms
proof (induction xs arbitrary: g)
  case (Cons x xs)
  have len: "length (gl_proposalList (gov_step H x g)) \<le> Suc (length (gl_proposalList g))"
    by (cases x) (auto simp: Propose_def Ratify_alt Let_def recompute_list split: option.splits)
  have "gov_ok (gov_step H x g)" using Cons.prems by (intro gov_step_ok) auto
  moreover have "chains_ok H (gov_step H x g)"
    using Cons.prems by (cases x) (auto simp: chains_ok_Propose chains_ok_Ratify)
  ultimately show ?case
    using Cons.IH [of "gov_step H x g"] Cons.prems len gov_step_extends [of g H x] by (auto intro: extends_trans)
qed (simp add: extends_refl)

text \<open>
  (C21) Append-only, hash-chained history. Over any run of proposals and votes on a ledger that is
  well-formed and whose chains verify, the chains of the result verify, every recorded ratification
  is still there in its place, and every recorded proposal is still there in its place, unchanged
  but for its status; a proposal that was closed keeps its status for good.
\<close>

theorem governance_history:
  assumes "gov_ok g" and "chains_ok H g" and "int (length (gl_proposalList g)) + int (length xs) < 2 ^ 63"
  defines "g' \<equiv> fold (gov_step H) xs g"
  shows "VerifyChain H g' \<and> take (length (gl_ratifications g)) (gl_ratifications g') = gl_ratifications g \<and>
     (\<forall>i < length (gl_proposalList g).
        i < length (gl_proposalList g') \<and>
        (\<exists>s. gl_proposalList g' ! i = (gl_proposalList g ! i)\<lparr>gp_Status := s\<rparr>) \<and>
        (gp_Status (gl_proposalList g ! i) \<noteq> GovOpen \<longrightarrow> gl_proposalList g' ! i = gl_proposalList g ! i))"
proof -
  have ok: "chains_ok H g'" "extends g g'" using session_ok [OF assms(1-3)] by (auto simp: g'_def)
  have "\<exists>s. p = (p :: GovernanceProposal)\<lparr>gp_Status := s\<rparr>" for p
    by (rule exI [of _ "gp_Status p"]) simp
  then have "evolves p p' \<Longrightarrow> (\<exists>s. p' = p\<lparr>gp_Status := s\<rparr>) \<and> (gp_Status p \<noteq> GovOpen \<longrightarrow> p' = p)" for p p'
    by (auto simp: evolves_def)
  with ok show ?thesis by (fastforce simp: chains_ok_def extends_def)
qed

lemma fresh_ledger_ok: "gov_ok (empty_ledger self path disk bucket) \<and> chains_ok H (empty_ledger self path disk bucket)"
  by (simp add: chains_ok_def VerifyChain_def) (simp add: empty_ledger_def)

theorem governance_history_witness:
  "VerifyChain (\<lambda>s. s) (fold (gov_step (\<lambda>s. s))
     [OpPropose (io_fine False) 5 '''' ''param_change'' ''t'' \<lparr>raw_text = ''1'', raw_node_id = None, raw_model_id = None\<rparr>,
      OpRatify (io_fine False) 7 None ''gov-a-1'' ''a'' True]
     (empty_ledger ''a'' '''' \<lparr>ds_json = Absent, ds_bak = False, ds_migrated = False\<rparr> Absent))"
proof -
  let ?g = "empty_ledger ''a'' '''' \<lparr>ds_json = Absent, ds_bak = False, ds_migrated = False\<rparr> Absent"
  have g: "gov_ok ?g" "chains_ok (\<lambda>s. s) ?g" using fresh_ledger_ok by auto
  have "length (gl_proposalList ?g) = 0" by (simp add: empty_ledger_def)
  with governance_history [OF g, of "[OpPropose (io_fine False) 5 '''' ''param_change'' ''t''
        \<lparr>raw_text = ''1'', raw_node_id = None, raw_model_id = None\<rparr>,
      OpRatify (io_fine False) 7 None ''gov-a-1'' ''a'' True]"]
  show ?thesis by (simp del: fold_simps)
qed

section \<open>Deciding a proposal\<close>

lemma votes_append: "votes b k (rs @ [r]) = votes b k rs + (if gr_ProposalID r = k \<and> gr_Approve r = b then 1 else 0)"
  by (simp add: votes_def)

lemma recompute_index [simp]: "gl_proposalIndex (recompute voters i g) = gl_proposalIndex g"
  by (simp add: recompute_def Let_def)

text \<open>
  (C30) When a vote closes a proposal. A first vote of a node on an open proposal is recorded, whoever the node is, and closes the proposal
  exactly when the votes on one side, of eligible voters or not, reach two thirds of the number of the eligible voters, rounded
  up (one voter when there are none): approvals ratify it, rejections reject it, otherwise it stays open. No other proposal
  changes.
\<close>

theorem ratify_decides:
  fixes voters :: "string list option" and approve :: bool
  assumes "gov_ok g" and "gov_Get g pid = Some p" and "gp_Status p = GovOpen"
    and "node \<noteq> ''''" and "(pid, node) \<notin> set (vote_keys (gl_ratifications g))"
  defines "n \<equiv> max 1 (eligibleCount voters)"
    and "yes \<equiv> votes True pid (gl_ratifications g) + (if approve then 1 else 0)"
    and "no \<equiv> votes False pid (gl_ratifications g) + (if approve then 0 else 1)"
  shows "\<exists>r g'. Ratify H io now voters pid node approve g = (Inr r, g') \<and> gl_ratifications g' = gl_ratifications g @ [r] \<and>
     gov_Get g' pid = Some (p\<lparr>gp_Status := (if 3 * yes \<ge> 2 * n then GovRatified else if 3 * no \<ge> 2 * n then GovRejected else GovOpen)\<rparr>) \<and>
     (\<forall>k. k \<noteq> pid \<longrightarrow> gov_Get g' k = gov_Get g k)"
proof -
  obtain i where i: "gget (gl_proposalIndex g) pid = Some i" "p = gl_proposalList g ! i"
    using assms(2) by (auto simp: gov_Get_def)
  have li: "i < length (gl_proposalList g)" "gp_ID p = pid" using gov_okD_index [OF assms(1) i(1)] i(2) by auto
  have nv: "\<not> gget0 False (gget0 [] (gl_ratIndex g) pid) node"
    using assms(1,5) by (simp add: gov_ok_def tables_ok_def)
  have same: "p\<lparr>gp_Status := GovOpen\<rparr> = p" using assms(3) by (cases p) simp
  let ?r = "mk_ratification H (gl_lastRHash g) (pid, node, approve, now, i64 (int (length (gl_ratifications g)) + 1))"
  let ?h = "recompute voters i (with_vote node ?r (with_votes pid g))"
  have n: "eligible_or_one voters = n" "1 \<le> n"
    by (auto simp: eligible_or_one_def n_def eligibleCount_def max_def Suc_le_eq split: option.splits)
  have "v \<ge> supermajority n \<longleftrightarrow> 3 * v \<ge> 2 * n" for v using n(2) by (auto simp: supermajority_eq)
  then have list: "gl_proposalList ?h = (gl_proposalList g)[i := p\<lparr>gp_Status :=
      (if 3 * yes \<ge> 2 * n then GovRatified else if 3 * no \<ge> 2 * n then GovRejected else GovOpen)\<rparr>]"
    using i li same by (simp add: recompute_list Let_def votes_append n(1) yes_def no_def)
  have other: "j \<noteq> i" if "k \<noteq> pid" "gget (gl_proposalIndex g) k = Some j" for k j
    using gov_okD_index [OF assms(1)] i(1) that by auto
  have idx: "gl_proposalIndex ?h = gl_proposalIndex g" by (simp add: with_vote_def)
  have "Ratify H io now voters pid node approve g = (Inr ?r, saveLocked io ?h)"
    using i assms(3,4) nv by (simp add: Ratify_alt Let_def)
  moreover have "gov_Get (saveLocked io ?h) k = gov_Get g k" if "k \<noteq> pid" for k
    using other [OF that] unfolding gov_Get_def saveLocked_fields list idx
    by (cases "gget (gl_proposalIndex g) k") auto
  moreover have "gov_Get (saveLocked io ?h) pid = Some (p\<lparr>gp_Status :=
      (if 3 * yes \<ge> 2 * n then GovRatified else if 3 * no \<ge> 2 * n then GovRejected else GovOpen)\<rparr>)"
    unfolding gov_Get_def saveLocked_fields list idx i(1) using li by simp
  ultimately show ?thesis by simp
qed

section \<open>Restarts\<close>

text \<open>The ledger after a successful save and a restart with the same backend.\<close>

definition gov_restarted :: "GovernanceLedger \<Rightarrow> GovernanceLedger" where
  "gov_restarted g =
     (let io = io_fine (gl_bbolt g); h = saveLocked io g
      in NewGovernanceLedger io (gl_selfID g) (gl_dataPath g) (gl_disk h) (gl_bucket h))"

lemma gov_restarted_apply:
  assumes "gl_dataPath g \<noteq> ''''" and "gl_bbolt g \<longrightarrow> ds_migrated (gl_disk g)"
  shows "\<exists>e. gl_proposalList e = [] \<and> gl_selfID e = gl_selfID g \<and> gov_ok e \<and>
     gov_restarted g = applySnapshot (marshal_snapshot (\<not> gl_bbolt g) (gov_snapshot g)) e"
proof (cases "gl_bbolt g")
  case False
  define e where "e = empty_ledger (gl_selfID g) (gl_dataPath g) (gl_disk (saveLocked (io_fine False) g)) (gl_bucket g)"
  have "gl_dataPath e = gl_dataPath g" "ds_json (gl_disk e) = Content (marshal_snapshot True (gov_snapshot g))"
    using False assms(1) by (simp_all add: e_def empty_ledger_def saveLocked_def atomicWriteFile_def io_fine_def)
  then have "gov_restarted g = applySnapshot (marshal_snapshot True (gov_snapshot g)) e"
    using False assms(1)
    by (simp add: gov_restarted_def NewGovernanceLedger_def Let_def io_fine_def gov_load_def e_def saveLocked_def)
  moreover have "gov_ok e" "gl_proposalList e = []" "gl_selfID e = gl_selfID g"
    unfolding e_def by (rule gov_ok_empty) (simp_all add: empty_ledger_def)
  ultimately show ?thesis using False by auto
next
  case True
  let ?h = "saveLocked (io_fine True) g"
  have "fst (bakJSON (io_fine True) (gl_disk g))" by (simp add: bakJSON_def io_fine_def)
  then obtain d where d: "bakJSON (io_fine True) (gl_disk g) = (True, d)" by (metis prod.collapse)
  define e where "e = (empty_ledger (gl_selfID g) (gl_dataPath g) (gl_disk ?h) (gl_bucket ?h))\<lparr>gl_disk := d, gl_bbolt := True\<rparr>"
  have h: "gl_disk ?h = gl_disk g" "gl_bucket ?h = Content (marshal_snapshot False (gov_snapshot g))"
    using True assms(1) by (simp_all add: saveLocked_def io_fine_def)
  then have imp: "gov_importToBbolt (io_fine True) (empty_ledger (gl_selfID g) (gl_dataPath g) (gl_disk ?h) (gl_bucket ?h)) = (True, e)"
    using True assms(2) d by (simp add: gov_importToBbolt_def isMigrated_def e_def empty_ledger_def)
  have "gov_restarted g = gov_loadBbolt e"
    using True assms(1) imp by (simp add: gov_restarted_def NewGovernanceLedger_def Let_def) (simp add: io_fine_def)
  then have "gov_restarted g = applySnapshot (marshal_snapshot False (gov_snapshot g)) e"
    using h by (simp add: gov_loadBbolt_def e_def empty_ledger_def)
  moreover have "gov_ok e" "gl_proposalList e = []" "gl_selfID e = gl_selfID g"
    unfolding e_def by (intro gov_ok_cong gov_ok_empty) (simp_all add: empty_ledger_def)
  ultimately show ?thesis using True by auto
qed

lemma VerifyChain_marshal:
  assumes "VerifyChain H g" and "gl_proposalList g' = map (marshal_proposal b) (gl_proposalList g)"
    and "gl_ratifications g' = gl_ratifications g"
  shows "VerifyChain H g' \<longleftrightarrow> (\<forall>p \<in> set (gl_proposalList g). hashProposal H (marshal_proposal b p) = hashProposal H p)"
proof -
  have m: "gp_PrevHash (marshal_proposal b p) = gp_PrevHash p" "gp_Hash (marshal_proposal b p) = gp_Hash p" for p
    by (simp_all add: marshal_proposal_def)
  have "chain_from gp_PrevHash gp_Hash (hashProposal H) q ps \<Longrightarrow>
     chain_from gp_PrevHash gp_Hash (hashProposal H) q (map (marshal_proposal b) ps) \<longleftrightarrow>
     (\<forall>p \<in> set ps. hashProposal H (marshal_proposal b p) = hashProposal H p)" for q ps
    by (induction ps arbitrary: q) (auto simp: m)
  with assms show ?thesis by (simp add: VerifyChain_def)
qed

lemma gov_restarted_lists:
  assumes "gl_dataPath g \<noteq> []" and "gl_bbolt g \<longrightarrow> ds_migrated (gl_disk g)"
  shows "gl_proposalList (gov_restarted g) = map (marshal_proposal (\<not> gl_bbolt g)) (gl_proposalList g)"
    and "gl_ratifications (gov_restarted g) = gl_ratifications g"
  using gov_restarted_apply [OF assms] by (auto simp: marshal_snapshot_def gov_snapshot_def)

lemma governance_restart_chain:
  assumes "gov_ok g" and "VerifyChain H g" and "gl_dataPath g \<noteq> []" and "gl_bbolt g \<longrightarrow> ds_migrated (gl_disk g)"
  shows "VerifyChain H (gov_restarted g) \<longleftrightarrow>
    (\<forall>p \<in> set (gl_proposalList g). hashProposal H (marshal_proposal (\<not> gl_bbolt g) p) = hashProposal H p)"
  by (rule VerifyChain_marshal [OF assms(2) gov_restarted_lists [OF assms(3,4)]])

text \<open>
  Restart. A ledger that was saved and is loaded again by a new process, with either backend, has
  the same votes, open counts and rosters and finds the same proposals, each with its payload in the
  form the encoder wrote. Its proposal chain verifies exactly when writing changed the hash of no
  proposal.
\<close>

theorem governance_restart:
  assumes "gov_ok g" and "VerifyChain H g" and "gl_dataPath g \<noteq> ''''" and "gl_bbolt g \<longrightarrow> ds_migrated (gl_disk g)"
  shows "gl_proposalList (gov_restarted g) = map (marshal_proposal (\<not> gl_bbolt g)) (gl_proposalList g)
       \<and> gl_ratifications (gov_restarted g) = gl_ratifications g
       \<and> (\<forall>q. gget0 0 (gl_openByProp (gov_restarted g)) q = gget0 0 (gl_openByProp g) q)
       \<and> (\<forall>n. IsCommunityAdmitted (gov_restarted g) n = IsCommunityAdmitted g n)
       \<and> (\<forall>m. IsCommunityCuratedModel (gov_restarted g) m = IsCommunityCuratedModel g m)
       \<and> (\<forall>k. gov_Get (gov_restarted g) k = map_option (marshal_proposal (\<not> gl_bbolt g)) (gov_Get g k))
       \<and> (VerifyChain H (gov_restarted g) \<longleftrightarrow>
            (\<forall>p \<in> set (gl_proposalList g). hashProposal H (marshal_proposal (\<not> gl_bbolt g) p) = hashProposal H p))"
proof -
  let ?b = "\<not> gl_bbolt g" and ?r = "gov_restarted g"
  obtain e where e: "gl_proposalList e = []" "gl_selfID e = gl_selfID g" "gov_ok e"
      and r: "?r = applySnapshot (marshal_snapshot ?b (gov_snapshot g)) e"
    using gov_restarted_apply [OF assms(3,4)] by blast
  have l: "gl_proposalList ?r = map (marshal_proposal ?b) (gl_proposalList g)" "gl_ratifications ?r = gl_ratifications g"
    by (simp_all add: r marshal_snapshot_def gov_snapshot_def)
  have ok: "gov_ok ?r"
    unfolding r by (rule gov_ok_apply_again [OF e(3)])
      (use assms(1) e in \<open>auto simp: marshal_snapshot_def gov_snapshot_def gov_ok_def\<close>)
  have "gov_Get ?r k = map_option (marshal_proposal ?b) (gov_Get g k)" for k
  proof (cases "gov_Get g k")
    case None
    then have "\<forall>p \<in> set (gl_proposalList g). gp_ID p \<noteq> k"
      using gov_Get_iff [OF assms(1), of k] by auto
    then have "gov_Get ?r k \<noteq> Some q" for q
      using gov_Get_iff [OF ok, of k q] l(1) by auto
    with None show ?thesis by (cases "gov_Get ?r k") auto
  next
    case (Some p)
    then have "marshal_proposal ?b p \<in> set (gl_proposalList ?r) \<and> gp_ID (marshal_proposal ?b p) = k"
      using gov_Get_iff [OF assms(1)] l(1) by auto
    then have "gov_Get ?r k = Some (marshal_proposal ?b p)" using gov_Get_iff [OF ok] by blast
    with Some show ?thesis by simp
  qed
  moreover have "gget0 0 (gl_openByProp ?r) q = gget0 0 (gl_openByProp g) q" for q
    using ok assms(1) l by (simp add: gov_ok_def tables_ok_def)
  moreover have "IsCommunityAdmitted ?r n = IsCommunityAdmitted g n"
      "IsCommunityCuratedModel ?r n = IsCommunityCuratedModel g n" for n
    using ok assms(1) l by (simp_all add: IsCommunityAdmitted_def IsCommunityCuratedModel_def gov_ok_rosters)
  ultimately show ?thesis using l VerifyChain_marshal [OF assms(2) l] by blast
qed

text \<open>
  A ledger on the JSON backend with one proposal whose payload is the object with one field. Its
  chain verifies; after a restart it does not, unless the hash of the indented text is the same.
\<close>

definition sample_ledger :: "string \<Rightarrow> bool \<Rightarrow> GovernanceLedger" where
  "sample_ledger txt use =
     snd (Propose (\<lambda>s. s) (io_fine use) 5 '''' ''admit_node'' ''t''
            \<lparr>raw_text = txt, raw_node_id = Some ''x'', raw_model_id = None\<rparr>
            ((empty_ledger ''a'' ''/d/governance.json''
               \<lparr>ds_json = Absent, ds_bak = False, ds_migrated = use\<rparr> Absent)\<lparr>gl_bbolt := use\<rparr>))"

lemma sample_governance_ok:
  "gov_ok (sample_ledger txt use)" "VerifyChain (\<lambda>s. s) (sample_ledger txt use)"
  "gl_dataPath (sample_ledger txt use) = ''/d/governance.json''" "gl_bbolt (sample_ledger txt use) = use"
  "ds_migrated (gl_disk (sample_ledger txt use)) = use"
  "map (\<lambda>p. raw_text (gp_Payload p)) (gl_proposalList (sample_ledger txt use)) = [txt]"
proof -
  let ?e = "(empty_ledger ''a'' ''/d/governance.json''
               \<lparr>ds_json = Absent, ds_bak = False, ds_migrated = use\<rparr> Absent)\<lparr>gl_bbolt := use\<rparr>"
  have e: "gl_proposalList ?e = []" "gget0 0 (gl_openByProp ?e) q = 0" for q by (simp_all add: empty_ledger_def gget0_def)
  show "gov_ok (sample_ledger txt use)"
    unfolding sample_ledger_def by (rule gov_ok_Propose) (simp_all add: e gov_ok_cong(3))
  have "chains_ok (\<lambda>s. s) ?e" by (simp add: chains_ok_def VerifyChain_def empty_ledger_def)
  then have "chains_ok (\<lambda>s. s) (sample_ledger txt use)"
    unfolding sample_ledger_def by (rule chains_ok_Propose)
  then show "VerifyChain (\<lambda>s. s) (sample_ledger txt use)" by (simp add: chains_ok_def)
  show "gl_dataPath (sample_ledger txt use) = ''/d/governance.json''" "gl_bbolt (sample_ledger txt use) = use"
    "ds_migrated (gl_disk (sample_ledger txt use)) = use"
    by (simp_all add: sample_ledger_def Propose_def Let_def gget0_def govMaxOpenPerProposer_def saveLocked_def)
  show "map (\<lambda>p. raw_text (gp_Payload p)) (gl_proposalList (sample_ledger txt use)) = [txt]"
    by (simp add: sample_ledger_def Propose_def Let_def gget0_def govMaxOpenPerProposer_def mk_proposal_def)
qed

theorem governance_restart_witness:
  "(\<forall>n. IsCommunityAdmitted (gov_restarted (sample_ledger ''null'' True)) n = IsCommunityAdmitted (sample_ledger ''null'' True) n)
   \<and> VerifyChain (\<lambda>s. s) (gov_restarted (sample_ledger ''null'' True))"
proof -
  note ok = sample_governance_ok [of "''null''" True]
  have "\<forall>p \<in> set (gl_proposalList (sample_ledger ''null'' True)). raw_text (gp_Payload p) = ''null''"
    using ok(6) by (auto simp: map_eq_Cons_conv)
  then have "\<forall>p \<in> set (gl_proposalList (sample_ledger ''null'' True)). marshal_proposal False p = p"
    by (auto simp: marshal_proposal_def marshal_raw_def json_space_def html_escape_def)
  with governance_restart [OF ok(1,2)] ok show ?thesis by simp
qed

text \<open>
  The chain is lost where writing re-formats a payload: on the JSON backend for any non-empty object,
  on the key-value backend for a proposal submitted without a payload.
\<close>

lemma restart_breaks_chain:
  assumes "marshal_raw_indent 3 txt \<noteq> txt \<and> \<not> use \<or> marshal_raw txt \<noteq> txt \<and> use"
  shows "VerifyChain (\<lambda>s. s) (sample_ledger txt use) \<and> \<not> VerifyChain (\<lambda>s. s) (gov_restarted (sample_ledger txt use))"
proof -
  note ok = sample_governance_ok [of "txt" use]
  obtain p where p: "p \<in> set (gl_proposalList (sample_ledger txt use))" "raw_text (gp_Payload p) = txt"
    using ok(6) by (auto simp: map_eq_Cons_conv)
  then have "hashProposal (\<lambda>s. s) (marshal_proposal (\<not> use) p) \<noteq> hashProposal (\<lambda>s. s) p"
    using assms by (auto simp: hashProposal_def marshal_proposal_def)
  with governance_restart_chain [OF ok(1,2)] ok p(1) show ?thesis by auto
qed

lemma restart_breaks_chain_object:
  "\<not> VerifyChain (\<lambda>s. s) (gov_restarted (sample_ledger (''{'' @ [CHR 0x22] @ ''node_id'' @ [CHR 0x22] @ '':1}'') False))"
  by (rule restart_breaks_chain [THEN conjunct2])
    (simp add: marshal_raw_indent_def marshal_raw_def json_space_def html_escape_def newline_indent_def)

lemma restart_breaks_chain_no_payload: "\<not> VerifyChain (\<lambda>s. s) (gov_restarted (sample_ledger '''' True))"
  by (rule restart_breaks_chain [THEN conjunct2]) (simp add: marshal_raw_def)

theorem ratify_decides_witness:
  "\<exists>r g'. Ratify (\<lambda>s. s) (io_fine True) 9 (Some [''a'', ''b'', ''c'']) ''gov-a-1'' ''b'' True (sample_ledger ''null'' True) = (Inr r, g')
     \<and> (\<exists>p. gov_Get g' ''gov-a-1'' = Some p \<and> gp_Status p = GovOpen)"
proof -
  let ?g = "sample_ledger ''null'' True"
  have "gl_proposalList ?g = [mk_proposal (\<lambda>s. s) '''' (''a'', 5, 1, ''a'', ''admit_node'', ''t'', \<lparr>raw_text = ''null'', raw_node_id = Some ''x'', raw_model_id = None\<rparr>)]"
    "gl_ratifications ?g = []"
    by (simp_all add: sample_ledger_def Propose_def Let_def gget0_def govMaxOpenPerProposer_def empty_ledger_def i64_def)
  moreover have "gov_id ''a'' 1 = ''gov-a-1''"
    by code_simp
  ultimately obtain p where p: "gov_Get ?g ''gov-a-1'' = Some p" "gp_Status p = GovOpen" "gl_ratifications ?g = []"
    using gov_Get_iff [OF sample_governance_ok(1), of "''null''" True "''gov-a-1''"] by (auto simp: mk_proposal_def Let_def)
  show ?thesis
    using ratify_decides [OF sample_governance_ok(1) p(1,2), where node = "''b''" and approve = True and
        voters = "Some [''a'', ''b'', ''c'']" and H = "\<lambda>s. s" and io = "io_fine True" and now = 9] p(3)
    by (fastforce simp: vote_keys_def votes_def eligibleCount_def)
qed

end
