(* ===== verification/Calendar.thy ===== *)
theory Calendar
  imports Omp_Prelude
begin

text \<open>
  Times and the window keys computed from them. A time is a number of nanoseconds since the epoch.
  The formatted keys of the source (\<open>2006-01-02\<close>, \<open>2006-01-02T15\<close>, \<open>2006-01-02T15:04\<close>) spell out the
  number of the day, the hour and the minute, and are represented by these numbers.
\<close>

section \<open>Calendar\<close>

definition ns_hour :: int where
  "ns_hour = 3600 * 1000000000"

definition ns_day :: int where
  "ns_day = 24 * ns_hour"

definition day_number :: "int \<Rightarrow> int" where
  "day_number t = t div ns_day"

definition ns_minute :: int where
  "ns_minute = 60 * 1000000000"

definition minute_key :: "int \<Rightarrow> int" where
  "minute_key t = t div ns_minute"

definition hour_key :: "int \<Rightarrow> int" where
  "hour_key t = t div ns_hour"

text \<open>The day of the month of a day number of the proleptic Gregorian calendar.\<close>

definition day_of_month :: "int \<Rightarrow> int" where
  "day_of_month z =
     (let doe = (z + 719468) mod 146097;
          yoe = (doe - doe div 1460 + doe div 36524 - doe div 146096) div 365;
          doy = doe - (365 * yoe + yoe div 4 - yoe div 100);
          mp = (5 * doy + 2) div 153
      in doy - (153 * mp + 2) div 5 + 1)"

text \<open>The month of a time, \<open>2006-01\<close>, as the number of months of the year 0.\<close>

definition month_key :: "int \<Rightarrow> int" where
  "month_key t =
     (let z = day_number t + 719468; era = z div 146097; doe = z mod 146097;
          yoe = (doe - doe div 1460 + doe div 36524 - doe div 146096) div 365;
          doy = doe - (365 * yoe + yoe div 4 - yoe div 100);
          mp = (5 * doy + 2) div 153
      in 12 * (yoe + era * 400) + mp + 2)"

text \<open>
  A time stamp in a text field: absent, not readable as RFC 3339, or the time it denotes. Formatting
  drops the fraction of the second.
\<close>

datatype stamp = NoStamp | BadStamp | Stamp int

definition format_stamp :: "int \<Rightarrow> stamp" where
  "format_stamp t = Stamp (t div 1000000000 * 1000000000)"

text \<open>The check of an expiry field: a stamp that cannot be read does not expire.\<close>

definition stamp_expired :: "int \<Rightarrow> stamp \<Rightarrow> bool" where
  "stamp_expired now s = (case s of Stamp t \<Rightarrow> now > t | _ \<Rightarrow> False)"

lemma hour_day: "hour_key a = hour_key b \<Longrightarrow> day_number a = day_number b"
proof -
  have "day_number t = hour_key t div 24" for t
    by (simp add: day_number_def hour_key_def ns_day_def ns_hour_def zdiv_zmult2_eq [symmetric])
  then show "hour_key a = hour_key b \<Longrightarrow> day_number a = day_number b" by simp
qed

lemma minute_hour: "minute_key a = minute_key b \<Longrightarrow> hour_key a = hour_key b"
proof -
  have "hour_key t = minute_key t div 60" for t
    by (simp add: minute_key_def hour_key_def ns_hour_def ns_minute_def zdiv_zmult2_eq [symmetric])
  then show "minute_key a = minute_key b \<Longrightarrow> hour_key a = hour_key b" by simp
qed

end
