(* ===== verification/Public_Key_Quota.thy ===== *)
theory Public_Key_Quota
  imports Calendar
begin

text \<open>
  The four-layer quota of the public key: \<open>src/network_global_pool.go\<close>, the part on
  \<open>PublicKeyQuota\<close>, and the settlement handoff of \<open>src/middleware.go\<close>.

  A time is the number of nanoseconds of the local clock since the epoch; the day of the month and
  the hour key are functions of it. The hour key \<open>2006-01-02-15\<close> is represented by the number of the
  hour, which it spells out.
\<close>

section \<open>State\<close>

record IPUsageTracker =
  it_DailyUsed :: int
  it_HourlyUsed :: int
  it_LastReset :: int

record PublicKeyQuota =
  pq_GlobalDailyLimit :: int
  pq_IPDailyLimit :: int
  pq_HourlyWindowLimit :: int
  pq_ModelLimits :: "(string, int) gomap"
  pq_globalUsedToday :: int
  pq_ipUsage :: "(string, IPUsageTracker) gomap"
  pq_hourlyUsage :: "(int, int) gomap"
  pq_modelUsage :: "(string, int) gomap"
  pq_lastDailyReset :: int
  pq_lastHourlyReset :: int

datatype pq_reason = GlobalExhausted | GlobalWouldExceed | IPExceeded | HourlyExceeded | ModelExceeded

section \<open>Configuration\<close>

text \<open>\<open>parsed\<close> is the configured value after \<open>strconv.ParseInt\<close>, \<open>None\<close> when absent or invalid.\<close>

definition parseQuotaConfig :: "int option \<Rightarrow> int \<Rightarrow> int" where
  "parseQuotaConfig parsed defaultVal =
     (case parsed of None \<Rightarrow> defaultVal | Some v \<Rightarrow> if v < 0 then defaultVal else v)"

text \<open>
  The overrides of the configuration, as the pairs that contain an equals sign, with the parsed
  right-hand side.
\<close>

definition loadModelLimits :: "(string \<times> int option) list \<Rightarrow> (string, int) gomap" where
  "loadModelLimits pairs =
     fold (\<lambda>(m, v) limits. case v of Some l \<Rightarrow> if l > 0 then gput m l limits else limits | None \<Rightarrow> limits) pairs
       [(''gpt-4o'', 500), (''claude-3-5-sonnet'', 500), (''deepseek-chat'', 500), (''gemini-2.5-flash'', 500)]"

definition initPublicKeyQuota ::
    "int \<Rightarrow> int option \<Rightarrow> int option \<Rightarrow> int option \<Rightarrow> (string \<times> int option) list \<Rightarrow> PublicKeyQuota" where
  "initPublicKeyQuota now cfg_global cfg_ip cfg_hourly pairs =
     \<lparr>pq_GlobalDailyLimit = parseQuotaConfig cfg_global 0, pq_IPDailyLimit = parseQuotaConfig cfg_ip 0,
      pq_HourlyWindowLimit = parseQuotaConfig cfg_hourly 0, pq_ModelLimits = loadModelLimits pairs,
      pq_globalUsedToday = 0, pq_ipUsage = [], pq_hourlyUsage = [], pq_modelUsage = [],
      pq_lastDailyReset = now, pq_lastHourlyReset = now\<rparr>"

section \<open>Operations\<close>

definition resetIfNeededLocked :: "int \<Rightarrow> PublicKeyQuota \<Rightarrow> PublicKeyQuota" where
  "resetIfNeededLocked now q =
     (let q1 = (if now - pq_lastDailyReset q \<ge> ns_day
                   \<or> day_of_month (day_number now) \<noteq> day_of_month (day_number (pq_lastDailyReset q))
                then q\<lparr>pq_globalUsedToday := 0, pq_ipUsage := [], pq_modelUsage := [], pq_lastDailyReset := now\<rparr>
                else q)
      in if now - pq_lastHourlyReset q1 \<ge> ns_hour
         then q1\<lparr>pq_hourlyUsage := gfilter (\<lambda>k v. k = hour_key now) (pq_hourlyUsage q1),
                 pq_ipUsage := gmapv (\<lambda>t. t\<lparr>it_HourlyUsed := 0\<rparr>) (pq_ipUsage q1),
                 pq_lastHourlyReset := now\<rparr>
         else q1)"

definition tracker_of :: "int \<Rightarrow> string \<Rightarrow> PublicKeyQuota \<Rightarrow> IPUsageTracker" where
  "tracker_of now ip q =
     (case gget (pq_ipUsage q) ip of Some t \<Rightarrow> t
      | None \<Rightarrow> \<lparr>it_DailyUsed = 0, it_HourlyUsed = 0, it_LastReset = now\<rparr>)"

text \<open>
  The four checks, in their order: the reason and the remaining amount on refusal, and the state in
  which the second layer may have created the tracker of a new address.
\<close>

definition layer_checks :: "int \<Rightarrow> string \<Rightarrow> string \<Rightarrow> int \<Rightarrow> PublicKeyQuota \<Rightarrow> (pq_reason \<times> int) option \<times> PublicKeyQuota" where
  "layer_checks now ip model est q =
     (let remaining = i64 (pq_GlobalDailyLimit q - pq_globalUsedToday q) in
      if pq_GlobalDailyLimit q > 0 \<and> remaining \<le> 0 then (Some (GlobalExhausted, 0), q)
      else if pq_GlobalDailyLimit q > 0 \<and> i64 (pq_globalUsedToday q + est) > pq_GlobalDailyLimit q
      then (Some (GlobalWouldExceed, remaining), q)
      else
        let checked = pq_IPDailyLimit q > 0 \<and> ip \<noteq> '''';
            t = tracker_of now ip q;
            q1 = (if checked \<and> gget (pq_ipUsage q) ip = None then q\<lparr>pq_ipUsage := gput ip t (pq_ipUsage q)\<rparr> else q);
            ipRem = i64 (pq_IPDailyLimit q - it_DailyUsed t) in
        if checked \<and> i64 (it_DailyUsed t + est) > pq_IPDailyLimit q
        then (Some (IPExceeded, if ipRem < 0 then 0 else ipRem), q1)
        else
          let hourlyUsed = gget0 0 (pq_hourlyUsage q1) (hour_key now);
              hRem = i64 (pq_HourlyWindowLimit q1 - hourlyUsed) in
          if pq_HourlyWindowLimit q1 > 0 \<and> i64 (hourlyUsed + est) > pq_HourlyWindowLimit q1
          then (Some (HourlyExceeded, if hRem < 0 then 0 else hRem), q1)
          else
            (case (if model = '''' then None else gget (pq_ModelLimits q1) model) of
               None \<Rightarrow> (None, q1)
             | Some modelLimit \<Rightarrow>
                 let modelUsed = gget0 0 (pq_modelUsage q1) model; mRem = i64 (modelLimit - modelUsed) in
                 if i64 (modelUsed + est) > modelLimit
                 then (Some (ModelExceeded, if mRem < 0 then 0 else mRem), q1)
                 else (None, q1)))"

definition min_remaining :: "int \<Rightarrow> string \<Rightarrow> string \<Rightarrow> PublicKeyQuota \<Rightarrow> int" where
  "min_remaining now ip model q =
     (let m0 = 2 ^ 62;
          m1 = (if pq_GlobalDailyLimit q > 0 then min m0 (i64 (pq_GlobalDailyLimit q - pq_globalUsedToday q)) else m0);
          m2 = (if pq_IPDailyLimit q > 0 \<and> ip \<noteq> ''''
                then (case gget (pq_ipUsage q) ip of Some t \<Rightarrow> min m1 (i64 (pq_IPDailyLimit q - it_DailyUsed t)) | None \<Rightarrow> m1)
                else m1);
          m3 = (if pq_HourlyWindowLimit q > 0
                then min m2 (i64 (pq_HourlyWindowLimit q - gget0 0 (pq_hourlyUsage q) (hour_key now))) else m2)
      in case (if model = '''' then None else gget (pq_ModelLimits q) model) of
           Some l \<Rightarrow> min m3 (i64 (l - gget0 0 (pq_modelUsage q) model))
         | None \<Rightarrow> m3)"

text \<open>Adding an amount to the counters of all four layers.\<close>

definition charge :: "int \<Rightarrow> string \<Rightarrow> string \<Rightarrow> int \<Rightarrow> PublicKeyQuota \<Rightarrow> PublicKeyQuota" where
  "charge now ip model n q =
     (let q1 = q\<lparr>pq_globalUsedToday := i64 (pq_globalUsedToday q + n)\<rparr>;
          q2 = (if ip \<noteq> ''''
                then let t = tracker_of now ip q1
                     in q1\<lparr>pq_ipUsage := gput ip (t\<lparr>it_DailyUsed := i64 (it_DailyUsed t + n),
                                                  it_HourlyUsed := i64 (it_HourlyUsed t + n)\<rparr>) (pq_ipUsage q1)\<rparr>
                else q1);
          k = hour_key now;
          q3 = q2\<lparr>pq_hourlyUsage := gput k (i64 (gget0 0 (pq_hourlyUsage q2) k + n)) (pq_hourlyUsage q2)\<rparr>
      in if model \<noteq> ''''
         then q3\<lparr>pq_modelUsage := gput model (i64 (gget0 0 (pq_modelUsage q3) model + n)) (pq_modelUsage q3)\<rparr>
         else q3)"

text \<open>The result is (allowed, reason, remaining).\<close>

definition CheckQuota ::
    "int \<Rightarrow> string \<Rightarrow> string \<Rightarrow> int \<Rightarrow> PublicKeyQuota \<Rightarrow> (bool \<times> pq_reason option \<times> int) \<times> PublicKeyQuota" where
  "CheckQuota now ip model est q =
     (case layer_checks now ip model est (resetIfNeededLocked now q) of
        (Some (r, m), q1) \<Rightarrow> ((False, Some r, m), q1)
      | (None, q1) \<Rightarrow> ((True, None, min_remaining now ip model q1), q1))"

definition ReserveQuota ::
    "int \<Rightarrow> string \<Rightarrow> string \<Rightarrow> int \<Rightarrow> PublicKeyQuota \<Rightarrow> (bool \<times> pq_reason option \<times> int) \<times> PublicKeyQuota" where
  "ReserveQuota now ip model est q =
     (case layer_checks now ip model est (resetIfNeededLocked now q) of
        (Some (r, m), q1) \<Rightarrow> ((False, Some r, m), q1)
      | (None, q1) \<Rightarrow>
          let q2 = charge now ip model est q1 in ((True, None, min_remaining now ip model q2), q2))"

definition AdjustQuota :: "int \<Rightarrow> string \<Rightarrow> string \<Rightarrow> int \<Rightarrow> int \<Rightarrow> PublicKeyQuota option \<Rightarrow> PublicKeyQuota option" where
  "AdjustQuota now ip model reserved actual qo =
     (case qo of
        None \<Rightarrow> None
      | Some q \<Rightarrow>
          let diff = i64 (actual - reserved) in
          if diff = 0 then Some q else Some (charge now ip model diff (resetIfNeededLocked now q)))"

definition RecordUsage :: "int \<Rightarrow> string \<Rightarrow> string \<Rightarrow> int \<Rightarrow> PublicKeyQuota option \<Rightarrow> PublicKeyQuota option" where
  "RecordUsage now ip model tokens qo =
     (case qo of
        None \<Rightarrow> None
      | Some q \<Rightarrow> if tokens \<le> 0 then Some q else Some (charge now ip model tokens (resetIfNeededLocked now q)))"

text \<open>The wrappers allow everything while the quota is not initialised.\<close>

definition CheckPublicKeyQuota ::
    "int \<Rightarrow> string \<Rightarrow> string \<Rightarrow> int \<Rightarrow> PublicKeyQuota option \<Rightarrow> (bool \<times> pq_reason option \<times> int) \<times> PublicKeyQuota option" where
  "CheckPublicKeyQuota now ip model est qo =
     (case qo of None \<Rightarrow> ((True, None, 0), None)
      | Some q \<Rightarrow> (case CheckQuota now ip model est q of (r, q') \<Rightarrow> (r, Some q')))"

definition gpm_ReserveQuota ::
    "int \<Rightarrow> string \<Rightarrow> string \<Rightarrow> int \<Rightarrow> PublicKeyQuota option \<Rightarrow> (bool \<times> pq_reason option \<times> int) \<times> PublicKeyQuota option" where
  "gpm_ReserveQuota now ip model est qo =
     (case qo of None \<Rightarrow> ((True, None, 0), None)
      | Some q \<Rightarrow> (case ReserveQuota now ip model est q of (r, q') \<Rightarrow> (r, Some q')))"

section \<open>Settlement handoff\<close>

record pqHandoff =
  ho_clientIP :: string
  ho_model :: string
  ho_reserved :: int
  ho_actual :: int
  ho_settled :: bool

definition pq_settle :: "int \<Rightarrow> pqHandoff option \<Rightarrow> pqHandoff option" where
  "pq_settle actual h =
     (case h of None \<Rightarrow> None
      | Some x \<Rightarrow> if ho_settled x then Some x else Some (x\<lparr>ho_actual := actual, ho_settled := True\<rparr>))"

section \<open>What a reservation changes\<close>

definition ip_used :: "string \<Rightarrow> PublicKeyQuota \<Rightarrow> int" where
  "ip_used p q = (case gget (pq_ipUsage q) p of Some t \<Rightarrow> it_DailyUsed t | None \<Rightarrow> 0)"

definition model_used :: "string \<Rightarrow> PublicKeyQuota \<Rightarrow> int" where
  "model_used m q = gget0 0 (pq_modelUsage q) m"

definition hour_used :: "int \<Rightarrow> PublicKeyQuota \<Rightarrow> int" where
  "hour_used h q = gget0 0 (pq_hourlyUsage q) h"

definition same_limits :: "PublicKeyQuota \<Rightarrow> PublicKeyQuota \<Rightarrow> bool" where
  "same_limits q q' \<longleftrightarrow> pq_GlobalDailyLimit q' = pq_GlobalDailyLimit q \<and> pq_IPDailyLimit q' = pq_IPDailyLimit q \<and>
     pq_HourlyWindowLimit q' = pq_HourlyWindowLimit q \<and> pq_ModelLimits q' = pq_ModelLimits q"

definition same_day :: "int \<Rightarrow> PublicKeyQuota \<Rightarrow> bool" where
  "same_day now q \<longleftrightarrow> day_number now = day_number (pq_lastDailyReset q)"

lemma same_limits_trans: "same_limits a b \<Longrightarrow> same_limits b c \<Longrightarrow> same_limits a c"
  by (simp add: same_limits_def)

lemma same_day_within: "day_number s = day_number t \<Longrightarrow> s - t < ns_day"
proof -
  have pos: "0 < ns_day" by (simp add: ns_day_def ns_hour_def)
  assume "day_number s = day_number t"
  then have "s div ns_day * ns_day = t div ns_day * ns_day" by (simp add: day_number_def)
  then have "s - t = s mod ns_day - t mod ns_day"
    using div_mult_mod_eq [of s ns_day] div_mult_mod_eq [of t ns_day] by linarith
  with pos pos_mod_bound [OF pos, of s] pos_mod_sign [OF pos, of t] show ?thesis by linarith
qed

text \<open>On the day of the last daily reset no daily counter is reset.\<close>

lemma reset_same_day:
  assumes "same_day now q"
  shows "pq_globalUsedToday (resetIfNeededLocked now q) = pq_globalUsedToday q"
    and "pq_modelUsage (resetIfNeededLocked now q) = pq_modelUsage q"
    and "pq_lastDailyReset (resetIfNeededLocked now q) = pq_lastDailyReset q"
    and "ip_used p (resetIfNeededLocked now q) = ip_used p q"
    and "same_limits q (resetIfNeededLocked now q)"
proof -
  have "\<not> (now - pq_lastDailyReset q \<ge> ns_day)" using assms same_day_within by (simp add: same_day_def not_le)
  moreover have "day_of_month (day_number now) = day_of_month (day_number (pq_lastDailyReset q))"
    using assms by (simp add: same_day_def)
  ultimately show "pq_globalUsedToday (resetIfNeededLocked now q) = pq_globalUsedToday q"
    and "pq_modelUsage (resetIfNeededLocked now q) = pq_modelUsage q"
    and "pq_lastDailyReset (resetIfNeededLocked now q) = pq_lastDailyReset q"
    and "ip_used p (resetIfNeededLocked now q) = ip_used p q"
    and "same_limits q (resetIfNeededLocked now q)"
    by (auto simp: resetIfNeededLocked_def Let_def ip_used_def same_limits_def split: option.splits)
qed

lemma reset_hour:
  "gmap_ok (pq_hourlyUsage q) \<Longrightarrow> hour_used (hour_key now) (resetIfNeededLocked now q) = hour_used (hour_key now) q"
  "gmap_ok (pq_hourlyUsage q) \<Longrightarrow> gmap_ok (pq_hourlyUsage (resetIfNeededLocked now q))"
  by (auto simp: resetIfNeededLocked_def Let_def hour_used_def gget0_def gget_gfilter split: option.splits)

lemma tracker_of_used: "it_DailyUsed (tracker_of now p q) = ip_used p q"
  by (simp add: tracker_of_def ip_used_def split: option.splits)

lemma layer_checks_state:
  assumes "layer_checks now ip model est q = (res, q')"
  shows "pq_globalUsedToday q' = pq_globalUsedToday q \<and> pq_modelUsage q' = pq_modelUsage q \<and>
    pq_hourlyUsage q' = pq_hourlyUsage q \<and> pq_lastDailyReset q' = pq_lastDailyReset q \<and> same_limits q q' \<and> ip_used p q' = ip_used p q"
proof -
  have "q' = q \<or> (gget (pq_ipUsage q) ip = None \<and> q' = q\<lparr>pq_ipUsage := gput ip (tracker_of now ip q) (pq_ipUsage q)\<rparr>)"
    using assms unfolding layer_checks_def Let_def by (auto split: if_splits option.splits)
  then show ?thesis
    by (cases "p = ip") (auto simp: same_limits_def ip_used_def tracker_of_def)
qed

lemma layer_checks_passed:
  assumes "layer_checks now ip model est q = (None, q')"
  shows "(pq_GlobalDailyLimit q > 0 \<longrightarrow> i64 (pq_globalUsedToday q + est) \<le> pq_GlobalDailyLimit q) \<and>
    (pq_IPDailyLimit q > 0 \<and> ip \<noteq> '''' \<longrightarrow> i64 (ip_used ip q + est) \<le> pq_IPDailyLimit q) \<and>
    (pq_HourlyWindowLimit q > 0 \<longrightarrow> i64 (hour_used (hour_key now) q + est) \<le> pq_HourlyWindowLimit q) \<and>
    (model \<noteq> '''' \<longrightarrow> (\<forall>l. gget (pq_ModelLimits q) model = Some l \<longrightarrow> i64 (model_used model q + est) \<le> l))"
  using assms unfolding layer_checks_def Let_def tracker_of_used hour_used_def model_used_def
  by (auto split: if_splits option.splits)

lemma charge_state:
  "pq_globalUsedToday (charge now ip model n q) = i64 (pq_globalUsedToday q + n)"
  "ip_used p (charge now ip model n q) = (if ip = p \<and> p \<noteq> '''' then i64 (ip_used p q + n) else ip_used p q)"
  "hour_used h (charge now ip model n q) = (if h = hour_key now then i64 (hour_used h q + n) else hour_used h q)"
  "model_used m (charge now ip model n q) = (if model = m \<and> m \<noteq> '''' then i64 (model_used m q + n) else model_used m q)"
  "pq_lastDailyReset (charge now ip model n q) = pq_lastDailyReset q" "same_limits q (charge now ip model n q)"
  "gmap_ok (pq_hourlyUsage q) \<Longrightarrow> gmap_ok (pq_hourlyUsage (charge now ip model n q))"
  by (auto simp: charge_def Let_def ip_used_def hour_used_def model_used_def same_limits_def tracker_of_def split: option.splits)

section \<open>The limits hold\<close>

text \<open>A request is its time, client address, model and estimate.\<close>

type_synonym pq_request = "int \<times> string \<times> string \<times> int"

definition reserve :: "pq_request \<Rightarrow> PublicKeyQuota \<Rightarrow> bool \<times> PublicKeyQuota" where
  "reserve r q = (case r of (now, ip, model, est) \<Rightarrow>
     (case ReserveQuota now ip model est q of (res, q') \<Rightarrow> (fst res, q')))"

definition rq_time :: "pq_request \<Rightarrow> int" where "rq_time r = fst r"
definition rq_ip :: "pq_request \<Rightarrow> string" where "rq_ip r = fst (snd r)"
definition rq_model :: "pq_request \<Rightarrow> string" where "rq_model r = fst (snd (snd r))"
definition rq_est :: "pq_request \<Rightarrow> int" where "rq_est r = snd (snd (snd r))"

lemmas rq_defs = rq_time_def rq_ip_def rq_model_def rq_est_def

text \<open>One reservation on the day of the last reset: what was checked, and every counter afterwards.\<close>

lemma reserve_step:
  assumes "reserve r q = (b, q')" and "same_day (rq_time r) q" and "gmap_ok (pq_hourlyUsage q)"
  shows "same_limits q q' \<and> pq_lastDailyReset q' = pq_lastDailyReset q \<and> gmap_ok (pq_hourlyUsage q') \<and>
    pq_globalUsedToday q' = (if b then i64 (pq_globalUsedToday q + rq_est r) else pq_globalUsedToday q) \<and>
    ip_used p q' = (if b \<and> rq_ip r = p \<and> p \<noteq> '''' then i64 (ip_used p q + rq_est r) else ip_used p q) \<and>
    model_used m q' = (if b \<and> rq_model r = m \<and> m \<noteq> '''' then i64 (model_used m q + rq_est r) else model_used m q) \<and>
    hour_used (hour_key (rq_time r)) q' =
      (if b then i64 (hour_used (hour_key (rq_time r)) q + rq_est r) else hour_used (hour_key (rq_time r)) q) \<and>
    (b \<longrightarrow> (pq_GlobalDailyLimit q > 0 \<longrightarrow> i64 (pq_globalUsedToday q + rq_est r) \<le> pq_GlobalDailyLimit q) \<and>
      (pq_IPDailyLimit q > 0 \<and> rq_ip r \<noteq> '''' \<longrightarrow> i64 (ip_used (rq_ip r) q + rq_est r) \<le> pq_IPDailyLimit q) \<and>
      (pq_HourlyWindowLimit q > 0 \<longrightarrow> i64 (hour_used (hour_key (rq_time r)) q + rq_est r) \<le> pq_HourlyWindowLimit q) \<and>
      (rq_model r \<noteq> '''' \<longrightarrow> (\<forall>l. gget (pq_ModelLimits q) (rq_model r) = Some l \<longrightarrow> i64 (model_used (rq_model r) q + rq_est r) \<le> l)))"
proof -
  obtain now ip model est where r: "r = (now, ip, model, est)" by (cases r) auto
  let ?q0 = "resetIfNeededLocked now q"
  obtain res q1 where c: "layer_checks now ip model est ?q0 = (res, q1)" by fastforce
  have day: "same_day now q" using assms(2) by (simp add: r rq_defs)
  note z = reset_same_day [OF day] reset_hour [OF assms(3), of now]
  note s = layer_checks_state [OF c]
  have f: "pq_globalUsedToday q1 = pq_globalUsedToday q" "ip_used x q1 = ip_used x q" "model_used x q1 = model_used x q"
    "hour_used (hour_key now) q1 = hour_used (hour_key now) q" "pq_lastDailyReset q1 = pq_lastDailyReset q"
    "gmap_ok (pq_hourlyUsage q1)" for x
    using z s by (simp_all add: model_used_def hour_used_def)
  have lim: "same_limits q ?q0" "same_limits q q1" using z(5) s same_limits_trans by blast+
  show ?thesis
  proof (cases res)
    case None
    then have q': "b = True" "q' = charge now ip model est q1"
      using assms(1) c by (auto simp: r reserve_def ReserveQuota_def Let_def)
    have "same_limits q q'" unfolding q'(2) by (rule same_limits_trans [OF lim(2) charge_state(6)])
    moreover have "(pq_GlobalDailyLimit q > 0 \<longrightarrow> i64 (pq_globalUsedToday q + est) \<le> pq_GlobalDailyLimit q) \<and>
      (pq_IPDailyLimit q > 0 \<and> ip \<noteq> [] \<longrightarrow> i64 (ip_used ip q + est) \<le> pq_IPDailyLimit q) \<and>
      (pq_HourlyWindowLimit q > 0 \<longrightarrow> i64 (hour_used (hour_key now) q + est) \<le> pq_HourlyWindowLimit q) \<and>
      (model \<noteq> [] \<longrightarrow> (\<forall>l. gget (pq_ModelLimits q) model = Some l \<longrightarrow> i64 (model_used model q + est) \<le> l))"
      using layer_checks_passed [OF c [unfolded None]] lim(1) z by (simp add: same_limits_def model_used_def)
    ultimately show ?thesis
      unfolding q' r rq_defs fst_conv snd_conv charge_state f
      using charge_state(7) [OF f(6)] by simp
  next
    case (Some x)
    then have q': "b = False" "q' = q1" using assms(1) c by (auto simp: r reserve_def ReserveQuota_def split: prod.splits)
    show ?thesis unfolding q' r rq_defs fst_conv snd_conv using lim(2) by (simp add: f)
  qed
qed

text \<open>Reservations of one day with a sane estimate, as one guard per layer.\<close>

definition sane_request :: "int \<Rightarrow> pq_request \<Rightarrow> bool" where
  "sane_request D r \<longleftrightarrow> day_number (rq_time r) = D \<and> 0 \<le> rq_est r \<and> rq_est r < 2 ^ 62"

definition pq_draw :: "int \<Rightarrow> (pq_request \<Rightarrow> bool) \<Rightarrow> pq_request \<Rightarrow> PublicKeyQuota \<Rightarrow> bool \<times> PublicKeyQuota" where
  "pq_draw D P r q = (if sane_request D r \<and> P r then reserve r q else (False, q))"

definition pq_base :: "int \<Rightarrow> PublicKeyQuota \<Rightarrow> bool" where
  "pq_base D q \<longleftrightarrow> day_number (pq_lastDailyReset q) = D \<and> gmap_ok (pq_hourlyUsage q)"

definition inside_limit :: "int \<Rightarrow> int \<Rightarrow> bool" where
  "inside_limit used limit \<longleftrightarrow> 0 \<le> used \<and> used \<le> limit \<and> limit < 2 ^ 62"

lemma inside_add: "inside_limit u l \<Longrightarrow> 0 \<le> e \<Longrightarrow> e < 2 ^ 62 \<Longrightarrow> i64 (u + e) = u + e"
  by (intro i64_id) (auto simp: inside_limit_def in_i64_def)

lemma pq_draw_step:
  assumes "pq_draw D P r q = (b, q')" and "pq_base D q"
  shows "pq_base D q' \<and> same_limits q q' \<and> (b \<longrightarrow> sane_request D r \<and> P r \<and> reserve r q = (True, q')) \<and>
     (\<not> b \<longrightarrow> pq_globalUsedToday q' = pq_globalUsedToday q \<and> ip_used p q' = ip_used p q \<and> model_used m q' = model_used m q \<and>
        (P r \<longrightarrow> hour_used (hour_key (rq_time r)) q' = hour_used (hour_key (rq_time r)) q))"
proof (cases "sane_request D r \<and> P r")
  case True
  then have r: "reserve r q = (b, q')" "same_day (rq_time r) q" "gmap_ok (pq_hourlyUsage q)"
    using assms by (auto simp: pq_draw_def sane_request_def same_day_def pq_base_def)
  from reserve_step [OF r, of p m] True r(1) assms(2) show ?thesis by (cases b) (auto simp: pq_base_def)
next
  case False
  then show ?thesis using assms by (auto simp: pq_draw_def same_limits_def)
qed

lemmas pq_granted = reserve_step [where b = True, simplified]

lemma sane_same_day: "sane_request D r \<Longrightarrow> pq_base D q \<Longrightarrow> same_day (rq_time r) q \<and> gmap_ok (pq_hourlyUsage q)"
  by (simp add: sane_request_def pq_base_def same_day_def)

interpretation pq_global: quota_guard "pq_draw D (\<lambda>r. True)" rq_est "\<lambda>q. pq_GlobalDailyLimit q - pq_globalUsedToday q"
    "\<lambda>q. pq_base D q \<and> 0 < pq_GlobalDailyLimit q \<and> inside_limit (pq_globalUsedToday q) (pq_GlobalDailyLimit q)" for D
proof (unfold_locales, goal_cases)
  case (1 q r q')
  then show ?case using pq_draw_step [of D "\<lambda>r. True" r q False q'] by (simp add: same_limits_def)
next
  case (2 q r q')
  then have s: "pq_base D q'" "same_limits q q'" "sane_request D r" "reserve r q = (True, q')"
    using pq_draw_step [of D "\<lambda>r. True" r q True q'] by auto
  have d: "same_day (rq_time r) q" "gmap_ok (pq_hourlyUsage q)" using sane_same_day [OF s(3)] 2 by auto
  from 2 s pq_granted [OF s(4) d, of "[]" "[]"] inside_add [of "pq_globalUsedToday q" "pq_GlobalDailyLimit q" "rq_est r"]
  show ?case by (simp add: same_limits_def sane_request_def inside_limit_def)
qed (simp add: inside_limit_def)

interpretation pq_ip: quota_guard "pq_draw D (\<lambda>r. True)" "\<lambda>r. if rq_ip r = p then rq_est r else 0" "\<lambda>q. pq_IPDailyLimit q - ip_used p q"
    "\<lambda>q. pq_base D q \<and> p \<noteq> '''' \<and> 0 < pq_IPDailyLimit q \<and> inside_limit (ip_used p q) (pq_IPDailyLimit q)" for D p
proof (unfold_locales, goal_cases)
  case (1 q r q')
  then show ?case using pq_draw_step [of D "\<lambda>r. True" r q False q'] by (simp add: same_limits_def)
next
  case (2 q r q')
  then have s: "pq_base D q'" "same_limits q q'" "sane_request D r" "reserve r q = (True, q')"
    using pq_draw_step [of D "\<lambda>r. True" r q True q'] by auto
  have d: "same_day (rq_time r) q" "gmap_ok (pq_hourlyUsage q)" using sane_same_day [OF s(3)] 2 by auto
  from 2 s pq_granted [OF s(4) d, of p "[]"] inside_add [of "ip_used p q" "pq_IPDailyLimit q" "rq_est r"]
  show ?case by (auto simp: same_limits_def sane_request_def inside_limit_def)
qed (simp add: inside_limit_def)

interpretation pq_model: quota_guard "pq_draw D (\<lambda>r. True)" "\<lambda>r. if rq_model r = m then rq_est r else 0" "\<lambda>q. l - model_used m q"
    "\<lambda>q. pq_base D q \<and> m \<noteq> '''' \<and> gget (pq_ModelLimits q) m = Some l \<and> inside_limit (model_used m q) l" for D m l
proof (unfold_locales, goal_cases)
  case (1 q r q')
  then show ?case using pq_draw_step [of D "\<lambda>r. True" r q False q'] by (simp add: same_limits_def)
next
  case (2 q r q')
  then have s: "pq_base D q'" "same_limits q q'" "sane_request D r" "reserve r q = (True, q')"
    using pq_draw_step [of D "\<lambda>r. True" r q True q'] by auto
  have d: "same_day (rq_time r) q" "gmap_ok (pq_hourlyUsage q)" using sane_same_day [OF s(3)] 2 by auto
  from 2 s pq_granted [OF s(4) d, of "[]" m] inside_add [of "model_used m q" l "rq_est r"]
  show ?case by (auto simp: same_limits_def sane_request_def inside_limit_def)
qed (simp add: inside_limit_def)

interpretation pq_hour: quota_guard "pq_draw D (\<lambda>r. hour_key (rq_time r) = h)" rq_est "\<lambda>q. pq_HourlyWindowLimit q - hour_used h q"
    "\<lambda>q. pq_base D q \<and> 0 < pq_HourlyWindowLimit q \<and> inside_limit (hour_used h q) (pq_HourlyWindowLimit q)" for D h
proof (unfold_locales, goal_cases)
  case (1 q r q')
  show ?case
  proof (cases "hour_key (rq_time r) = h")
    case True
    with 1 pq_draw_step [of D "\<lambda>r. hour_key (rq_time r) = h" r q False q' "[]" "[]"] show ?thesis
      by (simp add: same_limits_def)
  next
    case False
    with 1 show ?thesis by (simp add: pq_draw_def)
  qed
next
  case (2 q r q')
  then have s: "pq_base D q'" "same_limits q q'" "sane_request D r" "reserve r q = (True, q')" "hour_key (rq_time r) = h"
    using pq_draw_step [of D "\<lambda>r. hour_key (rq_time r) = h" r q True q'] by auto
  have d: "same_day (rq_time r) q" "gmap_ok (pq_hourlyUsage q)" using sane_same_day [OF s(3)] 2 by auto
  from 2 s pq_granted [OF s(4) d, of "[]" "[]"] inside_add [of "hour_used h q" "pq_HourlyWindowLimit q" "rq_est r"]
  show ?case by (simp add: same_limits_def sane_request_def inside_limit_def)
qed (simp add: inside_limit_def)

text \<open>The state a day may start from: no counter is above its limit, and limits are below \<open>2 ^ 62\<close>.\<close>

definition quota_ok :: "int \<Rightarrow> PublicKeyQuota \<Rightarrow> bool" where
  "quota_ok D q \<longleftrightarrow> pq_base D q \<and>
     (0 < pq_GlobalDailyLimit q \<longrightarrow> inside_limit (pq_globalUsedToday q) (pq_GlobalDailyLimit q)) \<and>
     (0 < pq_IPDailyLimit q \<longrightarrow> (\<forall>p. inside_limit (ip_used p q) (pq_IPDailyLimit q))) \<and>
     (0 < pq_HourlyWindowLimit q \<longrightarrow> (\<forall>h. inside_limit (hour_used h q) (pq_HourlyWindowLimit q))) \<and>
     (\<forall>m l. gget (pq_ModelLimits q) m = Some l \<longrightarrow> inside_limit (model_used m q) l)"

definition granted_sum :: "(pq_request \<Rightarrow> bool) \<Rightarrow> pq_request list \<Rightarrow> int" where
  "granted_sum P gs = (\<Sum>r \<leftarrow> gs. if P r then rq_est r else 0)"

lemma reserve_guarded:
  "list_all (\<lambda>r. sane_request D r \<and> P r) rs \<Longrightarrow> run_takes reserve rs q = run_takes (pq_draw D P) rs q"
  by (rule run_takes_cong) (auto simp: list_all_iff pq_draw_def)

text \<open>
  (C3) The four layers. Whatever reservations clients make during a day, from whatever addresses and
  for whatever models, with estimates below \<open>2 ^ 62\<close>: the granted total stays within the global daily
  limit, the total granted to one address within the address limit, the total granted for one model
  within its limit, each on top of what was used before; and for requests of one hour the granted
  total stays within the hourly limit. A limit of zero is no limit.
\<close>

theorem public_key_limits:
  assumes "quota_ok D q" and "list_all (sane_request D) rs" and "run_takes reserve rs q = (gs, q')"
  shows "(0 < pq_GlobalDailyLimit q \<longrightarrow> pq_globalUsedToday q + granted_sum (\<lambda>r. True) gs \<le> pq_GlobalDailyLimit q)
    \<and> (0 < pq_IPDailyLimit q \<and> p \<noteq> '''' \<longrightarrow> ip_used p q + granted_sum (\<lambda>r. rq_ip r = p) gs \<le> pq_IPDailyLimit q)
    \<and> (gget (pq_ModelLimits q) m = Some l \<and> m \<noteq> '''' \<longrightarrow> model_used m q + granted_sum (\<lambda>r. rq_model r = m) gs \<le> l)
    \<and> (0 < pq_HourlyWindowLimit q \<and> list_all (\<lambda>r. hour_key (rq_time r) = h) rs \<longrightarrow>
         hour_used h q + granted_sum (\<lambda>r. True) gs \<le> pq_HourlyWindowLimit q)"
proof -
  have est: "\<forall>r \<in> set rs. 0 \<le> rq_est r" using assms(2) by (auto simp: list_all_iff sane_request_def)
  have est_if: "\<forall>r \<in> set rs. 0 \<le> (if P r then rq_est r else 0)" for P using est by simp
  have run: "run_takes (pq_draw D (\<lambda>r. True)) rs q = (gs, q')"
    using reserve_guarded [of D "\<lambda>r. True" rs q] assms(2,3) by simp
  have "0 < pq_GlobalDailyLimit q \<Longrightarrow> pq_globalUsedToday q + granted_sum (\<lambda>r. True) gs \<le> pq_GlobalDailyLimit q"
    using pq_global.run_never_overissues [OF _ _ run] assms(1) est by (simp add: quota_ok_def granted_sum_def)
  moreover have "0 < pq_IPDailyLimit q \<Longrightarrow> p \<noteq> '''' \<Longrightarrow> ip_used p q + granted_sum (\<lambda>r. rq_ip r = p) gs \<le> pq_IPDailyLimit q"
    using pq_ip.run_never_overissues [OF _ est_if run, of p] assms(1) by (simp add: quota_ok_def granted_sum_def)
  moreover have "gget (pq_ModelLimits q) m = Some l \<Longrightarrow> m \<noteq> '''' \<Longrightarrow> model_used m q + granted_sum (\<lambda>r. rq_model r = m) gs \<le> l"
    using pq_model.run_never_overissues [OF _ est_if run, of m l] assms(1) by (simp add: quota_ok_def granted_sum_def)
  moreover have "hour_used h q + granted_sum (\<lambda>r. True) gs \<le> pq_HourlyWindowLimit q"
    if "0 < pq_HourlyWindowLimit q" "list_all (\<lambda>r. hour_key (rq_time r) = h) rs"
  proof -
    have "run_takes (pq_draw D (\<lambda>r. hour_key (rq_time r) = h)) rs q = (gs, q')"
      using reserve_guarded [of D "\<lambda>r. hour_key (rq_time r) = h" rs q] assms(2,3) that(2) by (simp add: list_all_iff)
    from pq_hour.run_never_overissues [OF _ _ this] assms(1) est that(1) show ?thesis
      by (simp add: quota_ok_def granted_sum_def)
  qed
  ultimately show ?thesis by blast
qed

lemma loadModelLimits_range:
  assumes "list_all (\<lambda>(m, v). case v of Some l \<Rightarrow> l < 2 ^ 62 | None \<Rightarrow> True) ps"
  shows "gget (loadModelLimits ps) m = Some l \<Longrightarrow> 0 < l \<and> l < 2 ^ 62"
proof -
  let ?f = "\<lambda>(m, v) limits. case v of Some l \<Rightarrow> if l > 0 then gput m l limits else limits | None \<Rightarrow> limits"
  have "(\<forall>m l. gget (lim0 :: (string, int) gomap) m = Some l \<longrightarrow> 0 < l \<and> l < 2 ^ 62) \<Longrightarrow>
      (\<forall>m l. gget (fold ?f ps lim0) m = Some l \<longrightarrow> 0 < l \<and> l < 2 ^ 62)" for lim0
    using assms
  proof (induction ps arbitrary: lim0)
    case (Cons x ps)
    obtain k v where x: "x = (k, v)" by (cases x)
    have "\<forall>m l. gget (?f x lim0) m = Some l \<longrightarrow> 0 < l \<and> l < 2 ^ 62"
      using Cons.prems by (auto simp: x split: option.splits)
    from Cons.IH [OF this] Cons.prems(2) show ?case by simp
  qed simp
  moreover have "\<forall>m l. gget ([(''gpt-4o'', 500), (''claude-3-5-sonnet'', 500), (''deepseek-chat'', 500),
      (''gemini-2.5-flash'', 500)] :: (string, int) gomap) m = Some l \<longrightarrow> 0 < l \<and> l < 2 ^ 62"
    by (simp split: if_split)
  ultimately show "gget (loadModelLimits ps) m = Some l \<Longrightarrow> 0 < l \<and> l < 2 ^ 62"
    unfolding loadModelLimits_def by blast
qed

lemma initPublicKeyQuota_ok:
  assumes "parseQuotaConfig g 0 < 2 ^ 62" and "parseQuotaConfig i 0 < 2 ^ 62" and "parseQuotaConfig h 0 < 2 ^ 62"
    and "list_all (\<lambda>(m, v). case v of Some l \<Rightarrow> l < 2 ^ 62 | None \<Rightarrow> True) ps"
  shows "quota_ok (day_number now) (initPublicKeyQuota now g i h ps)"
proof -
  let ?q = "initPublicKeyQuota now g i h ps"
  have "pq_base (day_number now) ?q" "pq_globalUsedToday ?q = 0" "ip_used p ?q = 0" "hour_used k ?q = 0" "model_used m ?q = 0"
    "pq_GlobalDailyLimit ?q < 2 ^ 62" "pq_IPDailyLimit ?q < 2 ^ 62" "pq_HourlyWindowLimit ?q < 2 ^ 62"
    "pq_ModelLimits ?q = loadModelLimits ps" for p k m
    using assms(1-3) by (simp_all add: pq_base_def initPublicKeyQuota_def ip_used_def hour_used_def model_used_def gget0_def)
  then show ?thesis using loadModelLimits_range [OF assms(4)] by (simp add: quota_ok_def inside_limit_def less_imp_le)
qed

theorem public_key_limits_witness:
  "let (gs, q') = run_takes reserve [(5, ''1.2.3.4'', ''gpt-4o'', 300), (6, ''1.2.3.4'', ''gpt-4o'', 300)]
        (initPublicKeyQuota 0 (Some 1000) None None [])
   in granted_sum (\<lambda>r. rq_model r = ''gpt-4o'') gs \<le> 500"
proof -
  let ?q = "initPublicKeyQuota 0 (Some 1000) None None []"
  let ?rs = "[(5, ''1.2.3.4'', ''gpt-4o'', 300), (6, ''1.2.3.4'', ''gpt-4o'', 300)] :: pq_request list"
  obtain gs q' where r: "run_takes reserve ?rs ?q = (gs, q')" by fastforce
  have ok: "quota_ok 0 ?q" using initPublicKeyQuota_ok [of "Some 1000" None None "[]" 0]
    by (simp add: parseQuotaConfig_def day_number_def)
  have rs: "list_all (sane_request 0) ?rs"
    by (simp add: sane_request_def rq_defs day_number_def ns_day_def ns_hour_def)
  have m: "gget (pq_ModelLimits ?q) ''gpt-4o'' = Some 500" "model_used ''gpt-4o'' ?q = 0"
    by (simp_all add: initPublicKeyQuota_def loadModelLimits_def model_used_def gget0_def)
  show ?thesis
    unfolding Let_def r using public_key_limits [OF ok rs r, of _ "''gpt-4o''" 500] m by auto
qed

section \<open>Settling\<close>

text \<open>
  Settlement. On the day of the reservation and while no counter leaves the 64-bit range, a
  reservation of \<open>est\<close> that is settled with the actual usage leaves every counter as if the actual
  usage had been charged at once: the refund or the extra charge reaches all four layers.
\<close>

theorem reserve_then_adjust:
  assumes "ReserveQuota now ip model est q = ((True, x), q1)" and "AdjustQuota now ip model est actual (Some q1) = Some q2"
    and "same_day now q" and "gmap_ok (pq_hourlyUsage q)"
    and "list_all in_i64 [actual - est, pq_globalUsedToday q + est, ip_used ip q + est, model_used model q + est,
           hour_used (hour_key now) q + est]"
  shows "pq_globalUsedToday q2 = i64 (pq_globalUsedToday q + actual)
    \<and> ip_used p q2 = (if p = ip \<and> p \<noteq> '''' then i64 (ip_used p q + actual) else ip_used p q)
    \<and> model_used m q2 = (if m = model \<and> m \<noteq> '''' then i64 (model_used m q + actual) else model_used m q)
    \<and> hour_used (hour_key now) q2 = i64 (hour_used (hour_key now) q + actual)"
proof -
  have r: "reserve (now, ip, model, est) q = (True, q1)" using assms(1) by (simp add: reserve_def)
  have s: "pq_globalUsedToday q1 = pq_globalUsedToday q + est" "hour_used (hour_key now) q1 = hour_used (hour_key now) q + est"
      "ip_used p q1 = (if p = ip \<and> p \<noteq> '''' then ip_used p q + est else ip_used p q)"
      "model_used m q1 = (if m = model \<and> m \<noteq> '''' then model_used m q + est else model_used m q)"
      "same_day now q1" "gmap_ok (pq_hourlyUsage q1)"
    using reserve_step [OF r, of p m] assms(3-5) by (auto simp: rq_defs same_day_def)
  show ?thesis
  proof (cases "actual = est")
    case True
    then have "q2 = q1" using assms(2) by (simp add: AdjustQuota_def Let_def i64_def)
    with True s assms(5) show ?thesis by auto
  next
    case False
    have "i64 (actual - est) = actual - est" using assms(5) by simp
    then have q2: "q2 = charge now ip model (actual - est) (resetIfNeededLocked now q1)"
      using False assms(2) by (simp add: AdjustQuota_def Let_def)
    note z = reset_same_day [OF s(5)] reset_hour [OF s(6), of now]
    show ?thesis
      unfolding q2 charge_state using z s by (auto simp: model_used_def)
  qed
qed

lemmas pq_eval = ReserveQuota_def AdjustQuota_def layer_checks_def charge_def min_remaining_def resetIfNeededLocked_def tracker_of_def
  initPublicKeyQuota_def parseQuotaConfig_def loadModelLimits_def day_number_def hour_key_def ns_day_def ns_hour_def
  day_of_month_def gget0_def gput_def i64_def Let_def

theorem reserve_then_adjust_witness:
  "pq_globalUsedToday (the (AdjustQuota 5 '''' '''' 300 120
     (Some (snd (ReserveQuota 5 '''' '''' 300 (initPublicKeyQuota 0 (Some 1000) None None [])))))) = 120"
proof -
  let ?q = "initPublicKeyQuota 0 (Some 1000) None None []"
  obtain x q1 where r: "ReserveQuota 5 '''' '''' 300 ?q = ((True, x), q1)"
    by (simp add: pq_eval)
  obtain q2 where a: "AdjustQuota 5 '''' '''' 300 120 (Some q1) = Some q2" by (simp add: AdjustQuota_def Let_def i64_def)
  have "same_day 5 ?q" "gmap_ok (pq_hourlyUsage ?q)" "pq_globalUsedToday ?q = 0" "ip_used '''' ?q = 0" "model_used '''' ?q = 0"
    "hour_used (hour_key 5) ?q = 0"
    by (simp_all add: same_day_def day_number_def ns_day_def ns_hour_def initPublicKeyQuota_def ip_used_def model_used_def
        hour_used_def gget0_def)
  with reserve_then_adjust [OF r a] have "pq_globalUsedToday q2 = i64 120" by (simp add: in_i64_def)
  with r a show ?thesis by (simp add: i64_def)
qed

text \<open>
  Without the bound on the estimate the checks are void: the sum of used and estimated tokens wraps
  around, so an estimate near the top of the 64-bit range passes a nearly exhausted limit.
\<close>

lemma huge_estimate_passes:
  "fst (fst (ReserveQuota 5 '''' '''' (2 ^ 63 - 1) ((initPublicKeyQuota 0 (Some 1000) None None [])\<lparr>pq_globalUsedToday := 999\<rparr>)))"
  by (simp add: pq_eval)

text \<open>
  A reservation that is settled after the daily reset is refunded from counters that no longer hold
  it: the global counter goes negative, and the new day has more than its limit to give.
\<close>

lemma refund_after_midnight:
  "pq_globalUsedToday (the (AdjustQuota (ns_day + 5) '''' '''' 900 0
     (Some (snd (ReserveQuota 5 '''' '''' 900 (initPublicKeyQuota 0 (Some 1000) None None [])))))) = - 900"
  by (simp add: pq_eval)

end
