(* ===== verification/Global_Pool.thy ===== *)
theory Global_Pool
  imports Storage_Model
begin

text \<open>
  The global computing pool: \<open>src/network_global_pool.go\<close>, the part on \<open>GlobalPool\<close>. Nodes join
  with a minimum contribution, contribute, and consume against their own share.

  \<open>globalPoolStore\<close> is the persisted state, \<open>GlobalPool\<close> extends it by the backend and the disk.
  Times are nanoseconds, \<open>float64\<close> ratios are exact reals. Registration of the region with the
  region manager is a different component and not part of this state.
\<close>

section \<open>Data\<close>

datatype node_status = Active | Degraded | Offline

record GlobalPoolNode =
  pn_NodeID :: string
  pn_Region :: string
  pn_Contributed :: int
  pn_Consumed :: int
  pn_Ratio :: real
  pn_Reputation :: real
  pn_LastHeartbeat :: int
  pn_JoinedAt :: int
  pn_Status :: node_status

record globalPoolStore =
  gp_TotalContributed :: int
  gp_TotalConsumed :: int
  gp_AvailableQuota :: int
  gp_NodeContributions :: "(string, int) gomap"
  gp_NodeConsumptions :: "(string, int) gomap"
  gp_ParticipantNodes :: "GlobalPoolNode list"
  gp_LastUpdated :: int

record GlobalPool = globalPoolStore +
  gp_bbolt :: bool
  gp_disk :: "globalPoolStore domain_store"
  gp_bucket :: "globalPoolStore stored_file"

datatype pool_error = NodeIDRequired | BelowMinimum | NotParticipant string | AmountNotPositive

definition globalPoolMinJoinContribution :: int where
  "globalPoolMinJoinContribution = 10000"

definition globalKeySigningThreshold :: int where
  "globalKeySigningThreshold = 5000"

definition minute :: int where
  "minute = 60 * 1000000000"

section \<open>Persistence\<close>

definition applyStore :: "globalPoolStore \<Rightarrow> GlobalPool \<Rightarrow> GlobalPool" where
  "applyStore s gp = gp\<lparr>gp_TotalContributed := gp_TotalContributed s, gp_TotalConsumed := gp_TotalConsumed s,
     gp_AvailableQuota := gp_AvailableQuota s, gp_NodeContributions := gp_NodeContributions s,
     gp_NodeConsumptions := gp_NodeConsumptions s, gp_ParticipantNodes := gp_ParticipantNodes s,
     gp_LastUpdated := gp_LastUpdated s\<rparr>"

definition snapshotStore :: "GlobalPool \<Rightarrow> globalPoolStore" where
  "snapshotStore gp = \<lparr>gp_TotalContributed = gp_TotalContributed gp, gp_TotalConsumed = gp_TotalConsumed gp,
     gp_AvailableQuota = gp_AvailableQuota gp, gp_NodeContributions = gp_NodeContributions gp,
     gp_NodeConsumptions = gp_NodeConsumptions gp, gp_ParticipantNodes = gp_ParticipantNodes gp,
     gp_LastUpdated = gp_LastUpdated gp\<rparr>"

definition writeStore :: "io_env \<Rightarrow> globalPoolStore \<Rightarrow> GlobalPool \<Rightarrow> GlobalPool" where
  "writeStore io s gp =
     (if gp_bbolt gp then (if io_update io then gp\<lparr>gp_bucket := Content s\<rparr> else gp)
      else gp\<lparr>gp_disk := (gp_disk gp)\<lparr>ds_json := atomicWriteFile io s (ds_json (gp_disk gp))\<rparr>\<rparr>)"

definition doSave :: "io_env \<Rightarrow> GlobalPool \<Rightarrow> GlobalPool" where
  "doSave io gp = writeStore io (snapshotStore gp) gp"

definition gp_load :: "GlobalPool \<Rightarrow> GlobalPool" where
  "gp_load gp = (case ds_json (gp_disk gp) of Content s \<Rightarrow> applyStore s gp | _ \<Rightarrow> gp)"

definition gp_loadBbolt :: "GlobalPool \<Rightarrow> GlobalPool" where
  "gp_loadBbolt gp = (case gp_bucket gp of Content s \<Rightarrow> applyStore s gp | _ \<Rightarrow> gp)"

definition gp_importToBbolt :: "io_env \<Rightarrow> GlobalPool \<Rightarrow> bool \<times> GlobalPool" where
  "gp_importToBbolt io gp =
     (if isMigrated (gp_disk gp)
      then (case bakJSON io (gp_disk gp) of
              (False, d) \<Rightarrow> (False, gp\<lparr>gp_disk := d\<rparr>)
            | (True, d) \<Rightarrow> (True, gp\<lparr>gp_disk := d, gp_bbolt := True\<rparr>))
      else
        let gp1 = gp_load gp in
        if \<not> io_update io then (False, gp1)
        else
          let gp2 = gp1\<lparr>gp_bucket := Content (snapshotStore gp1)\<rparr> in
          case markMigrated io (gp_disk gp2) of
            (False, d) \<Rightarrow> (False, gp2\<lparr>gp_disk := d\<rparr>)
          | (True, d) \<Rightarrow> (case bakJSON io d of (b, d') \<Rightarrow> (b, gp2\<lparr>gp_disk := d', gp_bbolt := True\<rparr>)))"

definition empty_pool :: "globalPoolStore domain_store \<Rightarrow> globalPoolStore stored_file \<Rightarrow> GlobalPool" where
  "empty_pool disk bucket =
     \<lparr>gp_TotalContributed = 0, gp_TotalConsumed = 0, gp_AvailableQuota = 0, gp_NodeContributions = [],
      gp_NodeConsumptions = [], gp_ParticipantNodes = [], gp_LastUpdated = 0, gp_bbolt = False,
      gp_disk = disk, gp_bucket = bucket\<rparr>"

definition initGlobalPool :: "io_env \<Rightarrow> globalPoolStore domain_store \<Rightarrow> globalPoolStore stored_file \<Rightarrow> GlobalPool" where
  "initGlobalPool io disk bucket =
     (let gp = empty_pool disk bucket in
      if io_use_bbolt io then
        if io_open io then
          (case gp_importToBbolt io gp of
             (False, gp') \<Rightarrow> gp_load gp'
           | (True, gp') \<Rightarrow> gp_loadBbolt gp')
        else gp_load gp
      else gp_load gp)"

section \<open>Operations\<close>

definition node_ratio :: "int \<Rightarrow> int \<Rightarrow> real" where
  "node_ratio contrib consumed =
     (if contrib > 0 then real_of_int contrib / real_of_int (i64 (consumed + 1)) else 0)"

definition recalc_node :: "int \<Rightarrow> (string, int) gomap \<Rightarrow> (string, int) gomap \<Rightarrow> GlobalPoolNode \<Rightarrow> GlobalPoolNode" where
  "recalc_node now contribs consumed n =
     (let c = gget0 0 contribs (pn_NodeID n); u = gget0 0 consumed (pn_NodeID n);
          age = now - pn_LastHeartbeat n
      in n\<lparr>pn_Contributed := c, pn_Consumed := u, pn_Ratio := node_ratio c u,
           pn_Status := (if age > 10 * minute then Offline else if age > 5 * minute then Degraded else Active)\<rparr>)"

definition sum64 :: "int list \<Rightarrow> int" where
  "sum64 xs = foldl (\<lambda>s x. i64 (s + x)) 0 xs"

definition recalculateLocked :: "int \<Rightarrow> GlobalPool \<Rightarrow> GlobalPool" where
  "recalculateLocked now gp =
     (let ids = map pn_NodeID (gp_ParticipantNodes gp);
          totalContrib = sum64 (map (gget0 0 (gp_NodeContributions gp)) ids);
          totalConsumed = sum64 (map (gget0 0 (gp_NodeConsumptions gp)) ids);
          avail = i64 (totalContrib - totalConsumed)
      in gp\<lparr>gp_ParticipantNodes := map (recalc_node now (gp_NodeContributions gp) (gp_NodeConsumptions gp)) (gp_ParticipantNodes gp),
            gp_TotalContributed := totalContrib, gp_TotalConsumed := totalConsumed,
            gp_AvailableQuota := (if avail < 0 then 0 else avail), gp_LastUpdated := now\<rparr>)"

text \<open>The update of the first participant with a given identifier, as the search loops do it.\<close>

fun update_node :: "string \<Rightarrow> (GlobalPoolNode \<Rightarrow> GlobalPoolNode) \<Rightarrow> GlobalPoolNode list \<Rightarrow> GlobalPoolNode list" where
  "update_node i f [] = []"
| "update_node i f (n # ns) = (if pn_NodeID n = i then f n # ns else n # update_node i f ns)"

definition is_participant :: "string \<Rightarrow> GlobalPoolNode list \<Rightarrow> bool" where
  "is_participant i ns = list_ex (\<lambda>n. pn_NodeID n = i) ns"

definition JoinPool ::
    "io_env \<Rightarrow> int \<Rightarrow> string \<Rightarrow> string \<Rightarrow> int \<Rightarrow> GlobalPool \<Rightarrow> (pool_error + unit) \<times> GlobalPool" where
  "JoinPool io now nodeID region initialContribution gp =
     (if nodeID = '''' then (Inl NodeIDRequired, gp)
      else if initialContribution < globalPoolMinJoinContribution then (Inl BelowMinimum, gp)
      else if is_participant nodeID (gp_ParticipantNodes gp) then
        let total = i64 (gget0 0 (gp_NodeContributions gp) nodeID + initialContribution);
            contribs = gput nodeID total (gp_NodeContributions gp);
            upd = (\<lambda>n. let n1 = n\<lparr>pn_Contributed := total, pn_LastHeartbeat := now, pn_Status := Active\<rparr>
                       in if total > 0
                          then n1\<lparr>pn_Ratio := real_of_int total / real_of_int (i64 (gget0 0 (gp_NodeConsumptions gp) nodeID + 1))\<rparr>
                          else n1)
        in (Inr (), doSave io (recalculateLocked now
              (gp\<lparr>gp_NodeContributions := contribs,
                  gp_ParticipantNodes := update_node nodeID upd (gp_ParticipantNodes gp)\<rparr>)))
      else
        let n = \<lparr>pn_NodeID = nodeID, pn_Region = region, pn_Contributed = initialContribution, pn_Consumed = 0,
                 pn_Ratio = real_of_int initialContribution, pn_Reputation = 0, pn_LastHeartbeat = now,
                 pn_JoinedAt = now, pn_Status = Active\<rparr>
        in (Inr (), doSave io (recalculateLocked now
              (gp\<lparr>gp_NodeContributions := gput nodeID initialContribution (gp_NodeContributions gp),
                  gp_ParticipantNodes := gp_ParticipantNodes gp @ [n]\<rparr>))))"

definition Contribute :: "io_env \<Rightarrow> int \<Rightarrow> string \<Rightarrow> int \<Rightarrow> GlobalPool \<Rightarrow> (pool_error + unit) \<times> GlobalPool" where
  "Contribute io now nodeID amount gp =
     (if amount \<le> 0 then (Inl AmountNotPositive, gp)
      else if \<not> is_participant nodeID (gp_ParticipantNodes gp) then (Inl (NotParticipant nodeID), gp)
      else (Inr (), doSave io (recalculateLocked now
              (gp\<lparr>gp_NodeContributions :=
                    gput nodeID (i64 (gget0 0 (gp_NodeContributions gp) nodeID + amount)) (gp_NodeContributions gp)\<rparr>))))"

definition consume_at :: "int \<Rightarrow> string \<Rightarrow> int \<Rightarrow> GlobalPool \<Rightarrow> GlobalPool" where
  "consume_at now nodeID amount gp =
     recalculateLocked now
       (gp\<lparr>gp_NodeConsumptions := gput nodeID (i64 (gget0 0 (gp_NodeConsumptions gp) nodeID + amount)) (gp_NodeConsumptions gp),
           gp_TotalConsumed := i64 (gp_TotalConsumed gp + amount)\<rparr>)"

definition RecordConsumption :: "io_env \<Rightarrow> int \<Rightarrow> string \<Rightarrow> int \<Rightarrow> GlobalPool \<Rightarrow> GlobalPool" where
  "RecordConsumption io now nodeID amount gp = doSave io (consume_at now nodeID amount gp)"

definition TryConsume :: "io_env \<Rightarrow> int \<Rightarrow> string \<Rightarrow> int \<Rightarrow> GlobalPool \<Rightarrow> bool \<times> GlobalPool" where
  "TryConsume io now nodeID amount gp =
     (let r = i64 (gget0 0 (gp_NodeContributions gp) nodeID - gget0 0 (gp_NodeConsumptions gp) nodeID);
          remain = (if r < 0 then 0 else r)
      in if remain < amount then (False, gp)
         else let gp' = consume_at now nodeID amount gp in (True, writeStore io (snapshotStore gp') gp'))"

definition Heartbeat :: "int \<Rightarrow> string \<Rightarrow> GlobalPool \<Rightarrow> GlobalPool" where
  "Heartbeat now nodeID gp =
     gp\<lparr>gp_ParticipantNodes :=
        update_node nodeID (\<lambda>n. n\<lparr>pn_LastHeartbeat := now, pn_Status := Active\<rparr>) (gp_ParticipantNodes gp)\<rparr>"

text \<open>One tick of the refresh loop.\<close>

definition refresh_tick :: "io_env \<Rightarrow> int \<Rightarrow> GlobalPool \<Rightarrow> GlobalPool" where
  "refresh_tick io now gp =
     doSave io (recalculateLocked now
       (gp\<lparr>gp_ParticipantNodes := map (\<lambda>n.
             if now - pn_LastHeartbeat n > 10 * minute then n\<lparr>pn_Status := Offline\<rparr>
             else if now - pn_LastHeartbeat n > 5 * minute then n\<lparr>pn_Status := Degraded\<rparr> else n) (gp_ParticipantNodes gp)\<rparr>))"

section \<open>Queries\<close>

definition utilizationLocked :: "GlobalPool \<Rightarrow> real" where
  "utilizationLocked gp =
     (if gp_TotalContributed gp = 0 then 0 else real_of_int (gp_TotalConsumed gp) / real_of_int (gp_TotalContributed gp))"

record pool_status =
  ps_total_contributed :: int
  ps_total_consumed :: int
  ps_available_quota :: int
  ps_participant_count :: nat
  ps_active_count :: nat
  ps_utilization :: real
  ps_last_updated :: int

definition GetStatus :: "GlobalPool \<Rightarrow> pool_status" where
  "GetStatus gp = \<lparr>ps_total_contributed = gp_TotalContributed gp, ps_total_consumed = gp_TotalConsumed gp,
     ps_available_quota = gp_AvailableQuota gp, ps_participant_count = length (gp_ParticipantNodes gp),
     ps_active_count = length (filter (\<lambda>n. pn_Status n = Active) (gp_ParticipantNodes gp)),
     ps_utilization = utilizationLocked gp, ps_last_updated = gp_LastUpdated gp\<rparr>"

definition GetNodes :: "GlobalPool \<Rightarrow> GlobalPoolNode list" where
  "GetNodes gp = gp_ParticipantNodes gp"

text \<open>
  The score of a participant. \<open>rep\<close> is the overall score the reputation manager has for a node,
  \<open>None\<close> when it has none (or there is no manager).
\<close>

definition node_score :: "(string \<Rightarrow> real option) \<Rightarrow> string \<Rightarrow> GlobalPool \<Rightarrow> GlobalPoolNode \<Rightarrow> real" where
  "node_score rep requestedRegion gp n =
     (let ratioScore = (if pn_Ratio n > 10 then 10 else pn_Ratio n) / 10;
          available = i64 (gget0 0 (gp_NodeContributions gp) (pn_NodeID n) - gget0 0 (gp_NodeConsumptions gp) (pn_NodeID n));
          q = (if gp_TotalContributed gp > 0 then real_of_int available / real_of_int (gp_TotalContributed gp) else 0);
          quotaScore = (if q > 1 then 1 else q);
          regionScore = (if requestedRegion \<noteq> '''' \<and> pn_Region n = requestedRegion then 1 else 1 / 2);
          repScore = (if pn_Reputation n > 0 then pn_Reputation n
                      else case rep (pn_NodeID n) of Some s \<Rightarrow> s | None \<Rightarrow> 1 / 2)
      in 3 / 10 * ratioScore + 25 / 100 * quotaScore + 15 / 100 * regionScore + 3 / 10 * repScore)"

fun select_loop :: "(GlobalPoolNode \<Rightarrow> real) \<Rightarrow> GlobalPoolNode list \<Rightarrow> GlobalPoolNode option \<times> real \<Rightarrow> GlobalPoolNode option \<times> real" where
  "select_loop score [] best = best"
| "select_loop score (n # ns) (bestNode, bestScore) =
     (if pn_Status n \<noteq> Active then select_loop score ns (bestNode, bestScore)
      else if score n > bestScore then select_loop score ns (Some n, score n)
      else select_loop score ns (bestNode, bestScore))"

definition SelectBestNode :: "(string \<Rightarrow> real option) \<Rightarrow> string \<Rightarrow> GlobalPool \<Rightarrow> GlobalPoolNode option" where
  "SelectBestNode rep requestedRegion gp =
     fst (select_loop (node_score rep requestedRegion gp) (gp_ParticipantNodes gp) (None, 0))"

section \<open>Handlers\<close>

text \<open>\<open>selfID\<close> is the identifier of the network manager, empty when there is none.\<close>

fun pool_error_text :: "pool_error \<Rightarrow> string" where
  "pool_error_text NodeIDRequired = ''node_id is required''"
| "pool_error_text BelowMinimum = ''minimum contribution to join: 10000''"
| "pool_error_text (NotParticipant i) = ''node '' @ i @ '' is not a pool participant''"
| "pool_error_text AmountNotPositive = ''contribution amount must be positive''"

definition handleGlobalPoolJoin ::
    "io_env \<Rightarrow> int \<Rightarrow> string \<Rightarrow> (string \<times> string \<times> int) option \<Rightarrow> GlobalPool option
     \<Rightarrow> (string \<times> string \<times> int) http_result \<times> GlobalPool option" where
  "handleGlobalPoolJoin io now selfID body pool =
     (case pool of
        None \<Rightarrow> (HttpError 500 ''global pool not initialized'', None)
      | Some gp \<Rightarrow>
          (case body of
             None \<Rightarrow> (HttpError 400 ''invalid request body'', pool)
           | Some (nodeID0, region, amount0) \<Rightarrow>
               let nodeID = (if nodeID0 = '''' then selfID else nodeID0) in
               if nodeID = '''' then (HttpError 400 ''node_id is required'', pool)
               else
                 let amount = (if amount0 \<le> 0 then globalPoolMinJoinContribution else amount0) in
                 (case JoinPool io now nodeID region amount gp of
                    (Inl e, gp') \<Rightarrow> (HttpError 400 (pool_error_text e), Some gp')
                  | (Inr _, gp') \<Rightarrow> (HttpOK (nodeID, region, amount), Some gp'))))"

definition handleGlobalPoolContribute ::
    "io_env \<Rightarrow> int \<Rightarrow> string \<Rightarrow> (string \<times> int) option \<Rightarrow> GlobalPool option
     \<Rightarrow> (string \<times> int) http_result \<times> GlobalPool option" where
  "handleGlobalPoolContribute io now selfID body pool =
     (case pool of
        None \<Rightarrow> (HttpError 500 ''global pool not initialized'', None)
      | Some gp \<Rightarrow>
          (case body of
             None \<Rightarrow> (HttpError 400 ''invalid request body'', pool)
           | Some (nodeID0, amount) \<Rightarrow>
               let nodeID = (if nodeID0 = '''' then selfID else nodeID0) in
               if nodeID = '''' then (HttpError 400 ''node_id is required'', pool)
               else if amount \<le> 0 then (HttpError 400 ''amount must be positive'', pool)
               else (case Contribute io now nodeID amount gp of
                       (Inl e, gp') \<Rightarrow> (HttpError 400 (pool_error_text e), Some gp')
                     | (Inr _, gp') \<Rightarrow> (HttpOK (nodeID, amount), Some gp'))))"

section \<open>Drawing on a node's share\<close>

lemma writeStore_fields [simp]:
  "gp_NodeContributions (writeStore io s gp) = gp_NodeContributions gp"
  "gp_NodeConsumptions (writeStore io s gp) = gp_NodeConsumptions gp"
  "gp_ParticipantNodes (writeStore io s gp) = gp_ParticipantNodes gp"
  "gp_TotalContributed (writeStore io s gp) = gp_TotalContributed gp"
  "gp_TotalConsumed (writeStore io s gp) = gp_TotalConsumed gp"
  "gp_AvailableQuota (writeStore io s gp) = gp_AvailableQuota gp"
  by (simp_all add: writeStore_def)

lemma doSave_fields [simp]:
  "gp_NodeContributions (doSave io gp) = gp_NodeContributions gp"
  "gp_NodeConsumptions (doSave io gp) = gp_NodeConsumptions gp"
  "gp_ParticipantNodes (doSave io gp) = gp_ParticipantNodes gp"
  "gp_TotalContributed (doSave io gp) = gp_TotalContributed gp"
  "gp_TotalConsumed (doSave io gp) = gp_TotalConsumed gp"
  "gp_AvailableQuota (doSave io gp) = gp_AvailableQuota gp"
  by (simp_all add: doSave_def)

lemma recalculate_fields [simp]:
  "gp_NodeContributions (recalculateLocked now gp) = gp_NodeContributions gp"
  "gp_NodeConsumptions (recalculateLocked now gp) = gp_NodeConsumptions gp"
  "map pn_NodeID (gp_ParticipantNodes (recalculateLocked now gp)) = map pn_NodeID (gp_ParticipantNodes gp)"
  "gp_bucket (recalculateLocked now gp) = gp_bucket gp" "gp_disk (recalculateLocked now gp) = gp_disk gp"
  by (simp_all add: recalculateLocked_def Let_def recalc_node_def)

text \<open>A node's share: what it contributed and has not consumed, never negative.\<close>

definition pool_share :: "string \<Rightarrow> GlobalPool \<Rightarrow> int" where
  "pool_share p gp = max 0 (gget0 0 (gp_NodeContributions gp) p - gget0 0 (gp_NodeConsumptions gp) p)"

definition share_ok :: "string \<Rightarrow> GlobalPool \<Rightarrow> bool" where
  "share_ok p gp \<longleftrightarrow> 0 \<le> gget0 0 (gp_NodeContributions gp) p \<and> gget0 0 (gp_NodeContributions gp) p < 2 ^ 63 \<and>
     0 \<le> gget0 0 (gp_NodeConsumptions gp) p \<and> gget0 0 (gp_NodeConsumptions gp) p < 2 ^ 63"

definition pool_draw :: "string \<Rightarrow> io_env \<times> int \<times> int \<Rightarrow> GlobalPool \<Rightarrow> bool \<times> GlobalPool" where
  "pool_draw p r gp = (case r of (io, now, amount) \<Rightarrow> TryConsume io now p amount gp)"

lemma TryConsume_remain:
  assumes "share_ok p gp"
  shows "TryConsume io now p amount gp =
     (if pool_share p gp < amount then (False, gp)
      else let gp' = consume_at now p amount gp in (True, writeStore io (snapshotStore gp') gp'))"
proof -
  have "in_i64 (gget0 0 (gp_NodeContributions gp) p - gget0 0 (gp_NodeConsumptions gp) p)"
    using assms by (auto simp: share_ok_def in_i64_def)
  then show ?thesis by (simp add: TryConsume_def pool_share_def Let_def max_def)
qed

lemma consume_at_fields [simp]:
  "gp_NodeContributions (consume_at now p a gp) = gp_NodeContributions gp"
  "gp_NodeConsumptions (consume_at now p a gp) = gput p (i64 (gget0 0 (gp_NodeConsumptions gp) p + a)) (gp_NodeConsumptions gp)"
  by (simp_all add: consume_at_def)

lemma consume_in_share:
  assumes "share_ok p gp" and "0 \<le> a" and "a \<le> pool_share p gp"
  shows "i64 (gget0 0 (gp_NodeConsumptions gp) p + a) = gget0 0 (gp_NodeConsumptions gp) p + a"
    and "gget0 0 (gp_NodeConsumptions gp) p + a < 2 ^ 63" and "0 < a \<Longrightarrow> gget0 0 (gp_NodeConsumptions gp) p + a \<le> gget0 0 (gp_NodeContributions gp) p"
proof -
  show 1: "gget0 0 (gp_NodeConsumptions gp) p + a < 2 ^ 63"
    using assms by (auto simp: share_ok_def pool_share_def max_def split: if_splits)
  show "i64 (gget0 0 (gp_NodeConsumptions gp) p + a) = gget0 0 (gp_NodeConsumptions gp) p + a"
    using assms 1 by (intro i64_id) (auto simp: share_ok_def in_i64_def)
  show "0 < a \<Longrightarrow> gget0 0 (gp_NodeConsumptions gp) p + a \<le> gget0 0 (gp_NodeContributions gp) p"
    using assms by (auto simp: pool_share_def max_def split: if_splits)
qed

interpretation pool: quota_source "pool_draw p" "\<lambda>(io, now, amount). amount" "pool_share p" "share_ok p" for p
proof unfold_locales
  fix s s' :: GlobalPool and r :: "io_env \<times> int \<times> int"
  assume ok: "share_ok p s" and n: "0 \<le> (case r of (io, now, amount) \<Rightarrow> amount)" and d: "pool_draw p r s = (False, s')"
  obtain io now a where r: "r = (io, now, a)" by (cases r)
  have "s' = s" using d ok by (auto simp: r pool_draw_def TryConsume_remain Let_def split: if_splits)
  with ok show "pool_share p s' = pool_share p s \<and> share_ok p s'" by simp
next
  fix s s' :: GlobalPool and r :: "io_env \<times> int \<times> int"
  assume ok: "share_ok p s" and n: "0 \<le> (case r of (io, now, amount) \<Rightarrow> amount)" and d: "pool_draw p r s = (True, s')"
  obtain io now a where r: "r = (io, now, a)" by (cases r)
  have a: "0 \<le> a" "a \<le> pool_share p s" and
    f: "gp_NodeContributions s' = gp_NodeContributions s"
       "gp_NodeConsumptions s' = gput p (i64 (gget0 0 (gp_NodeConsumptions s) p + a)) (gp_NodeConsumptions s)"
    using d ok n by (auto simp: r pool_draw_def TryConsume_remain Let_def split: if_splits)
  note c = consume_in_share [OF ok a]
  show "(case r of (io, now, amount) \<Rightarrow> amount) \<le> pool_share p s \<and>
      pool_share p s' = pool_share p s - (case r of (io, now, amount) \<Rightarrow> amount) \<and> share_ok p s'"
    using ok a c by (cases "a = 0") (auto simp: r f share_ok_def pool_share_def)
next
  fix s :: GlobalPool and r :: "io_env \<times> int \<times> int"
  show "share_ok p s \<Longrightarrow> 0 < (case r of (io, now, amount) \<Rightarrow> amount) \<Longrightarrow>
     (case r of (io, now, amount) \<Rightarrow> amount) \<le> pool_share p s \<Longrightarrow> fst (pool_draw p r s)"
    by (cases r) (auto simp: pool_draw_def TryConsume_remain Let_def)
  show "share_ok p s \<Longrightarrow> 0 \<le> pool_share p s" by (simp add: pool_share_def)
qed

text \<open>
  (C33) The pool is never over-issued. However many draws a node attempts against its share, with any
  outcome of the writes, what is granted plus what is left at the end is what was left at the start.
\<close>

theorem pool_never_overissued:
  assumes "share_ok p gp" and "\<forall>r \<in> set rs. 0 \<le> snd (snd r)"
    and "run_takes (\<lambda>r. TryConsume (fst r) (fst (snd r)) p (snd (snd r))) rs gp = (granted, gp')"
  shows "sum_list (map (\<lambda>r. snd (snd r)) granted) + pool_share p gp' = pool_share p gp \<and> 0 \<le> pool_share p gp'"
proof -
  have eq: "(\<lambda>r. TryConsume (fst r) (fst (snd r)) p (snd (snd r))) = pool_draw p"
    by (auto simp: pool_draw_def fun_eq_iff split: prod.splits)
  have am: "(\<lambda>(io, now, amount). amount) = (\<lambda>r :: io_env \<times> int \<times> int. snd (snd r))" by auto
  show ?thesis
    using pool.run_accounting [of p gp rs granted gp'] assms unfolding eq am by (simp add: pool_share_def)
qed

theorem pool_never_overissued_witness:
  "let gp = (empty_pool \<lparr>ds_json = Absent, ds_bak = False, ds_migrated = False\<rparr> Absent)\<lparr>gp_NodeContributions := [(''a'', 10)]\<rparr>;
       (granted, gp') = run_takes (\<lambda>r. TryConsume (fst r) (fst (snd r)) ''a'' (snd (snd r)))
          [(io_fine True, 0, 7), (io_fine True, 1, 7)] gp
   in sum_list (map (\<lambda>r. snd (snd r)) granted) + pool_share ''a'' gp' = 10"
proof -
  let ?gp = "(empty_pool \<lparr>ds_json = Absent, ds_bak = False, ds_migrated = False\<rparr> Absent)\<lparr>gp_NodeContributions := [(''a'', 10)]\<rparr>"
  let ?rs = "[(io_fine True, 0, 7), (io_fine True, 1, 7)]"
  obtain gs gp' where r: "run_takes (\<lambda>r. TryConsume (fst r) (fst (snd r)) ''a'' (snd (snd r))) ?rs ?gp = (gs, gp')" by fastforce
  have "share_ok ''a'' ?gp" "pool_share ''a'' ?gp = 10"
    by (simp_all add: share_ok_def pool_share_def empty_pool_def gget0_def)
  with pool_never_overissued [OF _ _ r] show ?thesis unfolding Let_def r by auto
qed

section \<open>The books of the pool\<close>

definition pool_ids :: "'a globalPoolStore_scheme \<Rightarrow> string list" where
  "pool_ids s = map pn_NodeID (gp_ParticipantNodes s)"

text \<open>Who takes part: distinct named nodes, exactly those with a contribution, each above the minimum.\<close>

definition members_ok :: "'a globalPoolStore_scheme \<Rightarrow> bool" where
  "members_ok s \<longleftrightarrow> distinct (pool_ids s) \<and>
     (\<forall>k. gget (gp_NodeContributions s) k \<noteq> None \<longleftrightarrow> k \<in> set (pool_ids s)) \<and>
     (\<forall>k \<in> set (pool_ids s). k \<noteq> '''' \<and> globalPoolMinJoinContribution \<le> gget0 0 (gp_NodeContributions s) k)"

text \<open>Every participant row shows the two tables, and the totals are the sums of the rows.\<close>

definition books_ok :: "'a globalPoolStore_scheme \<Rightarrow> bool" where
  "books_ok s \<longleftrightarrow>
     (\<forall>n \<in> set (gp_ParticipantNodes s). pn_Contributed n = gget0 0 (gp_NodeContributions s) (pn_NodeID n) \<and>
        pn_Consumed n = gget0 0 (gp_NodeConsumptions s) (pn_NodeID n)) \<and>
     gp_TotalContributed s = sum64 (map pn_Contributed (gp_ParticipantNodes s)) \<and>
     gp_TotalConsumed s = sum64 (map pn_Consumed (gp_ParticipantNodes s)) \<and>
     gp_AvailableQuota s = max 0 (i64 (gp_TotalContributed s - gp_TotalConsumed s))"

definition pool_ok :: "'a globalPoolStore_scheme \<Rightarrow> bool" where
  "pool_ok s \<longleftrightarrow> members_ok s \<and> books_ok s"

lemma members_ok_cong:
  "map pn_NodeID (gp_ParticipantNodes s) = map pn_NodeID (gp_ParticipantNodes t) \<Longrightarrow>
   gp_NodeContributions s = gp_NodeContributions t \<Longrightarrow> members_ok s = members_ok t"
  by (simp add: members_ok_def pool_ids_def)

lemma books_ok_recalculate: "books_ok (recalculateLocked now gp)"
  by (auto simp: books_ok_def recalculateLocked_def Let_def recalc_node_def comp_def max_def)

lemma pool_ok_recalculate: "members_ok gp \<Longrightarrow> pool_ok (recalculateLocked now gp)"
  using members_ok_cong [of "recalculateLocked now gp" gp] by (simp add: pool_ok_def books_ok_recalculate)

lemma pool_ok_doSave [simp]: "pool_ok (doSave io gp) = pool_ok gp" "pool_ok (writeStore io s gp) = pool_ok gp"
  by (simp_all add: pool_ok_def members_ok_def books_ok_def pool_ids_def)

lemma pool_ok_snapshot [simp]: "pool_ok (snapshotStore gp) = pool_ok gp"
  by (simp add: pool_ok_def members_ok_def books_ok_def pool_ids_def snapshotStore_def)

lemma pool_ok_applyStore [simp]: "pool_ok (applyStore s gp) = pool_ok s"
  by (simp add: pool_ok_def members_ok_def books_ok_def pool_ids_def applyStore_def)

lemma ids_update_node: "(\<And>n. pn_NodeID (f n) = pn_NodeID n) \<Longrightarrow> map pn_NodeID (update_node i f ns) = map pn_NodeID ns"
  by (induction ns) auto

lemma map_update_node: "(\<And>n. g (f n) = g n) \<Longrightarrow> map g (update_node i f ns) = map g ns"
  by (induction ns) auto

lemma set_update_node: "n \<in> set (update_node i f ns) \<Longrightarrow> n \<in> set ns \<or> (\<exists>m \<in> set ns. n = f m)"
  by (induction ns) (auto split: if_splits)

lemma is_participant_iff: "is_participant i (gp_ParticipantNodes s) \<longleftrightarrow> i \<in> set (pool_ids s)"
  by (auto simp: is_participant_def list_ex_iff pool_ids_def)

lemma Heartbeat_ok: "pool_ok gp \<Longrightarrow> pool_ok (Heartbeat now i gp)"
proof -
  let ?f = "\<lambda>n. n\<lparr>pn_LastHeartbeat := now, pn_Status := Active\<rparr>"
  assume ok: "pool_ok gp"
  have "members_ok (Heartbeat now i gp) = members_ok gp"
    by (rule members_ok_cong) (simp_all add: Heartbeat_def map_update_node)
  with ok show ?thesis
    by (auto simp: pool_ok_def books_ok_def Heartbeat_def map_update_node dest!: set_update_node)
qed

datatype pool_op =
    PoolJoin io_env int string string int
  | PoolContribute io_env int string int
  | PoolRecord io_env int string int
  | PoolTry io_env int string int
  | PoolHeartbeat int string
  | PoolRefresh io_env int

fun pool_step :: "pool_op \<Rightarrow> GlobalPool \<Rightarrow> GlobalPool" where
  "pool_step (PoolJoin io now i r a) gp = snd (JoinPool io now i r a gp)"
| "pool_step (PoolContribute io now i a) gp = snd (Contribute io now i a gp)"
| "pool_step (PoolRecord io now i a) gp = RecordConsumption io now i a gp"
| "pool_step (PoolTry io now i a) gp = snd (TryConsume io now i a gp)"
| "pool_step (PoolHeartbeat now i) gp = Heartbeat now i gp"
| "pool_step (PoolRefresh io now) gp = refresh_tick io now gp"

text \<open>A contribution keeps the total of its node in the 64-bit range.\<close>

fun pool_room :: "pool_op \<Rightarrow> GlobalPool \<Rightarrow> bool" where
  "pool_room (PoolJoin io now i r a) gp = (gget0 0 (gp_NodeContributions gp) i + a < 2 ^ 63)"
| "pool_room (PoolContribute io now i a) gp = (gget0 0 (gp_NodeContributions gp) i + a < 2 ^ 63)"
| "pool_room _ gp = True"

lemma members_ok_contribute:
  assumes "members_ok gp" and "i \<in> set (pool_ids gp)" and "0 \<le> a" and "gget0 0 (gp_NodeContributions gp) i + a < 2 ^ 63"
    and "map pn_NodeID (gp_ParticipantNodes gp') = map pn_NodeID (gp_ParticipantNodes gp)"
    and "gp_NodeContributions gp' = gput i (i64 (gget0 0 (gp_NodeContributions gp) i + a)) (gp_NodeContributions gp)"
  shows "members_ok gp'"
proof -
  have "globalPoolMinJoinContribution \<le> gget0 0 (gp_NodeContributions gp) i"
    using assms(1,2) by (simp add: members_ok_def)
  then have 1: "i64 (gget0 0 (gp_NodeContributions gp) i + a) = gget0 0 (gp_NodeContributions gp) i + a"
      "globalPoolMinJoinContribution \<le> gget0 0 (gp_NodeContributions gp) i + a"
    using assms(3,4) by (auto simp: globalPoolMinJoinContribution_def in_i64_def intro: i64_id)
  have ids: "pool_ids gp' = pool_ids gp" using assms(5) by (simp add: pool_ids_def)
  show ?thesis
    unfolding members_ok_def ids assms(6) using assms(1,2) 1 by (auto simp: members_ok_def)
qed

lemma pool_step_ok:
  assumes ok: "pool_ok gp" and room: "pool_room x gp"
  shows "pool_ok (pool_step x gp)"
proof (cases x)
  case (PoolJoin io now i r a)
  show ?thesis
  proof (cases "i = '''' \<or> a < globalPoolMinJoinContribution")
    case True
    with ok PoolJoin show ?thesis by (auto simp: JoinPool_def)
  next
    case new: False
    show ?thesis
    proof (cases "i \<in> set (pool_ids gp)")
      case True
      have "0 \<le> a" using new by (simp add: globalPoolMinJoinContribution_def)
      with ok room new True PoolJoin show ?thesis
        by (auto simp: JoinPool_def Let_def is_participant_iff map_update_node pool_ok_def [of gp]
            intro!: pool_ok_recalculate members_ok_contribute [of gp i a])
    next
      case False
      with ok new PoolJoin show ?thesis
        by (auto simp: JoinPool_def Let_def is_participant_iff pool_ok_def [of gp] members_ok_def pool_ids_def
            intro!: pool_ok_recalculate)
    qed
  qed
next
  case (PoolContribute io now i a)
  with ok room show ?thesis
    by (auto simp: Contribute_def is_participant_iff pool_ok_def [of gp]
        intro!: pool_ok_recalculate members_ok_contribute [of gp i a])
next
  case (PoolRecord io now i a)
  have "members_ok gp" using ok by (simp add: pool_ok_def)
  with PoolRecord show ?thesis
    by (simp add: RecordConsumption_def consume_at_def) (auto intro!: pool_ok_recalculate simp: members_ok_def pool_ids_def)
next
  case (PoolTry io now i a)
  have "members_ok gp" using ok by (simp add: pool_ok_def)
  then have "pool_ok (consume_at now i a gp)"
    unfolding consume_at_def by (auto intro!: pool_ok_recalculate simp: members_ok_def pool_ids_def)
  with PoolTry ok show ?thesis by (auto simp: TryConsume_def Let_def)
next
  case (PoolHeartbeat now i)
  with ok show ?thesis by (simp add: Heartbeat_ok)
next
  case (PoolRefresh io now)
  have m: "members_ok gp" using ok by (simp add: pool_ok_def)
  let ?ns = "\<lambda>n. if now - pn_LastHeartbeat n > 10 * minute then n\<lparr>pn_Status := Offline\<rparr>
             else if now - pn_LastHeartbeat n > 5 * minute then n\<lparr>pn_Status := Degraded\<rparr> else n"
  have "members_ok (gp\<lparr>gp_ParticipantNodes := map ?ns (gp_ParticipantNodes gp)\<rparr>)"
    using m by (subst members_ok_cong [of _ gp]) auto
  with PoolRefresh show ?thesis by (simp add: refresh_tick_def pool_ok_recalculate)
qed

definition stored_pool_ok :: "globalPoolStore stored_file \<Rightarrow> bool" where
  "stored_pool_ok f \<longleftrightarrow> (case f of Content s \<Rightarrow> pool_ok s | _ \<Rightarrow> True)"

lemma stored_pool_ok_simps [simp]:
  "stored_pool_ok Absent" "stored_pool_ok Corrupt" "stored_pool_ok (Content s) = pool_ok s"
  by (simp_all add: stored_pool_ok_def)

definition pool_store_ok :: "GlobalPool \<Rightarrow> bool" where
  "pool_store_ok gp \<longleftrightarrow> stored_pool_ok (ds_json (gp_disk gp)) \<and> stored_pool_ok (gp_bucket gp)"

lemma pool_ok_fields [simp]:
  "pool_ok (gp\<lparr>gp_disk := d\<rparr>) = pool_ok gp" "pool_ok (gp\<lparr>gp_bucket := f\<rparr>) = pool_ok gp"
  "pool_ok (gp\<lparr>gp_bbolt := b\<rparr>) = pool_ok gp"
  by (simp_all add: pool_ok_def members_ok_def books_ok_def pool_ids_def)

lemma pool_ok_empty [simp]: "pool_ok (empty_pool disk bucket)"
  by (simp add: pool_ok_def members_ok_def books_ok_def pool_ids_def empty_pool_def sum64_def i64_def)

lemma gp_load_keeps [simp]:
  "gp_disk (gp_load gp) = gp_disk gp" "gp_bucket (gp_load gp) = gp_bucket gp"
  "gp_disk (gp_loadBbolt gp) = gp_disk gp" "gp_bucket (gp_loadBbolt gp) = gp_bucket gp"
  by (auto simp: gp_load_def gp_loadBbolt_def applyStore_def split: stored_file.splits)

lemma gp_load_ok: "pool_ok gp \<Longrightarrow> pool_store_ok gp \<Longrightarrow> pool_ok (gp_load gp)"
  by (auto simp: gp_load_def pool_store_ok_def split: stored_file.splits)

lemma gp_loadBbolt_ok: "pool_ok gp \<Longrightarrow> pool_store_ok gp \<Longrightarrow> pool_ok (gp_loadBbolt gp)"
  by (auto simp: gp_loadBbolt_def pool_store_ok_def split: stored_file.splits)

lemma bakJSON_stored: "stored_pool_ok (ds_json d) \<Longrightarrow> stored_pool_ok (ds_json (snd (bakJSON io d)))"
  by (simp add: bakJSON_def)

lemma gp_import_ok:
  assumes "pool_ok gp" and "pool_store_ok gp"
  shows "pool_ok (snd (gp_importToBbolt io gp)) \<and> pool_store_ok (snd (gp_importToBbolt io gp))"
proof -
  have l: "pool_ok (gp_load gp)" using assms by (rule gp_load_ok)
  have d: "stored_pool_ok (ds_json (gp_disk gp))" "stored_pool_ok (gp_bucket gp)"
    using assms(2) by (auto simp: pool_store_ok_def)
  have b: "stored_pool_ok (ds_json d')" if "bakJSON io d = (c, d')" "stored_pool_ok (ds_json d)" for c and d d' :: "globalPoolStore domain_store"
    using bakJSON_stored [of d io] that by simp
  have m: "stored_pool_ok (ds_json d')" if "markMigrated io (gp_disk gp) = (c, d')" for c d'
    using that d by (auto simp: markMigrated_def split: if_splits)
  show ?thesis
    using assms(1) l d by (auto simp: gp_importToBbolt_def Let_def pool_store_ok_def split: prod.splits bool.splits dest: b m)
qed

lemma initGlobalPool_ok:
  assumes "stored_pool_ok (ds_json disk)" and "stored_pool_ok bucket"
  shows "pool_ok (initGlobalPool io disk bucket) \<and> pool_store_ok (initGlobalPool io disk bucket)"
proof -
  let ?e = "empty_pool disk bucket"
  have e: "pool_ok ?e" "pool_store_ok ?e" using assms by (simp_all add: pool_store_ok_def) (simp_all add: empty_pool_def)
  obtain b gp' where i: "gp_importToBbolt io ?e = (b, gp')" by fastforce
  have "pool_ok gp'" "pool_store_ok gp'" using gp_import_ok [OF e, of io] i by auto
  then have "pool_ok (gp_load gp') \<and> pool_ok (gp_loadBbolt gp')" "pool_store_ok (gp_load gp') \<and> pool_store_ok (gp_loadBbolt gp')"
    by (auto simp: gp_load_ok gp_loadBbolt_ok) (auto simp: pool_store_ok_def)
  moreover have "pool_ok (gp_load ?e)" "pool_store_ok (gp_load ?e)"
    using e by (auto simp: gp_load_ok) (auto simp: pool_store_ok_def)
  ultimately show ?thesis by (simp add: initGlobalPool_def Let_def i split: bool.splits)
qed

lemma writeStore_store: "pool_ok s \<Longrightarrow> pool_store_ok gp \<Longrightarrow> pool_store_ok (writeStore io s gp)"
  by (auto simp: writeStore_def pool_store_ok_def atomicWriteFile_def)

lemma pool_store_ok_recalculate [simp]: "pool_store_ok (recalculateLocked now gp) = pool_store_ok gp"
  by (simp add: pool_store_ok_def)

lemma pool_step_store:
  assumes "pool_ok gp" and "pool_store_ok gp" and "pool_room x gp"
  shows "pool_store_ok (pool_step x gp)"
proof -
  have ok: "pool_ok (pool_step x gp)" using assms by (intro pool_step_ok)
  have save: "pool_store_ok (doSave io h)" if "pool_step x gp = doSave io h" "pool_store_ok h" for io h
    using ok that by (simp add: doSave_def writeStore_store)
  have draw: "pool_store_ok (writeStore io (snapshotStore h) h)"
    if "pool_step x gp = writeStore io (snapshotStore h) h" "pool_store_ok h" for io h
    using ok that by (simp add: writeStore_store)
  have fields: "gp_disk (consume_at now i a gp) = gp_disk gp" "gp_bucket (consume_at now i a gp) = gp_bucket gp" for now i a
    by (simp_all add: consume_at_def)
  show ?thesis
  proof (cases x)
    case (PoolTry io now i a)
    with assms draw fields show ?thesis by (auto simp: TryConsume_def Let_def) (auto simp: pool_store_ok_def)
  next
    case (PoolRecord io now i a)
    with assms save fields show ?thesis by (auto simp: RecordConsumption_def pool_store_ok_def)
  next
    case (PoolJoin io now i r a)
    with assms save show ?thesis by (auto simp: JoinPool_def Let_def) (auto simp: pool_store_ok_def)
  next
    case (PoolContribute io now i a)
    with assms save show ?thesis by (auto simp: Contribute_def) (auto simp: pool_store_ok_def)
  next
    case (PoolHeartbeat now i)
    with assms show ?thesis by (simp add: Heartbeat_def pool_store_ok_def)
  next
    case (PoolRefresh io now)
    with assms save show ?thesis by (auto simp: refresh_tick_def) (auto simp: pool_store_ok_def)
  qed
qed

text \<open>The pools a node can have: operations with any write outcome, and restarts.\<close>

inductive pool_reachable :: "GlobalPool \<Rightarrow> bool" where
  pool_start: "pool_reachable (initGlobalPool io \<lparr>ds_json = Absent, ds_bak = b, ds_migrated = m\<rparr> Absent)"
| pool_op: "pool_reachable gp \<Longrightarrow> pool_room x gp \<Longrightarrow> pool_reachable (pool_step x gp)"
| pool_restart: "pool_reachable gp \<Longrightarrow> pool_reachable (initGlobalPool io (gp_disk gp) (gp_bucket gp))"

lemma pool_reachable_ok: "pool_reachable gp \<Longrightarrow> pool_ok gp \<and> pool_store_ok gp"
proof (induction rule: pool_reachable.induct)
  case (pool_start io b m)
  then show ?case by (intro initGlobalPool_ok) simp_all
next
  case (pool_op gp x)
  then show ?case by (simp add: pool_step_ok pool_step_store)
next
  case (pool_restart gp io)
  then show ?case by (intro initGlobalPool_ok) (simp_all add: pool_store_ok_def)
qed

text \<open>
  (C6) The books balance. In every pool a node can have, over joins, contributions, consumptions,
  heartbeats, refresh ticks, failing writes and restarts: the participants are distinct named nodes,
  exactly those with a recorded contribution, each with at least the joining minimum; every
  participant row shows its entries of the two tables; and the reported totals and the available
  quota are those of the rows.
\<close>

theorem pool_books:
  assumes "pool_reachable gp"
  shows "distinct (map pn_NodeID (GetNodes gp))
       \<and> (\<forall>k. gget (gp_NodeContributions gp) k \<noteq> None \<longleftrightarrow> k \<in> pn_NodeID ` set (GetNodes gp))
       \<and> (\<forall>n \<in> set (GetNodes gp). pn_NodeID n \<noteq> '''' \<and> 10000 \<le> pn_Contributed n
            \<and> pn_Contributed n = gget0 0 (gp_NodeContributions gp) (pn_NodeID n)
            \<and> pn_Consumed n = gget0 0 (gp_NodeConsumptions gp) (pn_NodeID n))
       \<and> ps_total_contributed (GetStatus gp) = sum64 (map pn_Contributed (GetNodes gp))
       \<and> ps_total_consumed (GetStatus gp) = sum64 (map pn_Consumed (GetNodes gp))
       \<and> ps_available_quota (GetStatus gp) = max 0 (i64 (ps_total_contributed (GetStatus gp) - ps_total_consumed (GetStatus gp)))"
  using pool_reachable_ok [OF assms]
  unfolding pool_ok_def members_ok_def books_ok_def GetNodes_def GetStatus_def pool_ids_def globalPoolMinJoinContribution_def
  by auto

theorem pool_books_witness:
  "distinct (map pn_NodeID (GetNodes (pool_step (PoolJoin (io_fine True) 3 ''a'' ''eu'' 10000)
      (initGlobalPool (io_fine True) \<lparr>ds_json = Absent, ds_bak = False, ds_migrated = False\<rparr> Absent))))"
proof -
  let ?g = "initGlobalPool (io_fine True) \<lparr>ds_json = Absent, ds_bak = False, ds_migrated = False\<rparr> Absent"
  have "gp_NodeContributions ?g = []"
    by (simp add: initGlobalPool_def io_fine_def gp_importToBbolt_def isMigrated_def markMigrated_def bakJSON_def
        gp_load_def gp_loadBbolt_def applyStore_def snapshotStore_def empty_pool_def Let_def)
  then have "pool_reachable (pool_step (PoolJoin (io_fine True) 3 ''a'' ''eu'' 10000) ?g)"
    by (intro pool_op pool_start) (simp add: gget0_def)
  from pool_books [OF this] show ?thesis by blast
qed

text \<open>
  Consumption recorded for a node that takes no part is booked in the table but in no total: the
  increment of \<open>TotalConsumed\<close> is overwritten by the recalculation.
\<close>

lemma consumption_of_outsider_lost:
  assumes "i \<notin> set (pool_ids gp)" and "books_ok gp"
  shows "gp_TotalConsumed (RecordConsumption io now i a gp) = gp_TotalConsumed gp"
proof -
  have eq: "map (gget0 0 (gput i v (gp_NodeConsumptions gp)) \<circ> pn_NodeID) (gp_ParticipantNodes gp)
      = map pn_Consumed (gp_ParticipantNodes gp)" for v
    using assms by (auto simp: books_ok_def pool_ids_def)
  show ?thesis
    using assms(2) by (simp add: RecordConsumption_def consume_at_def recalculateLocked_def Let_def eq) (simp add: books_ok_def)
qed

section \<open>Choosing a node\<close>

lemma select_loop_spec:
  assumes "select_loop score ns (b, s) = (b', s')"
  shows "s \<le> s' \<and> (\<forall>n \<in> set ns. pn_Status n = Active \<longrightarrow> score n \<le> s') \<and>
     (b' = b \<and> s' = s \<or> (\<exists>n \<in> set ns. b' = Some n \<and> s' = score n \<and> pn_Status n = Active \<and> s < score n))"
  using assms
proof (induction ns arbitrary: b s)
  case (Cons n ns)
  show ?case
  proof (cases "pn_Status n = Active \<and> score n > s")
    case True
    with Cons.prems Cons.IH [of "Some n" "score n"] show ?thesis by auto
  next
    case False
    with Cons.prems Cons.IH [of b s] show ?thesis by (auto split: if_splits)
  qed
qed simp

text \<open>
  Node selection. The node chosen for a request of the global key is an active participant
  with a positive score that no active participant exceeds; when none is chosen, no active
  participant has a positive score.
\<close>

theorem select_best_node:
  "case SelectBestNode rep region gp of
     Some n \<Rightarrow> n \<in> set (GetNodes gp) \<and> pn_Status n = Active \<and> 0 < node_score rep region gp n \<and>
       list_all (\<lambda>m. node_score rep region gp m \<le> node_score rep region gp n) (filter (\<lambda>m. pn_Status m = Active) (GetNodes gp))
   | None \<Rightarrow> list_all (\<lambda>m. node_score rep region gp m \<le> 0) (filter (\<lambda>m. pn_Status m = Active) (GetNodes gp))"
proof -
  obtain b s where r: "select_loop (node_score rep region gp) (gp_ParticipantNodes gp) (None, 0) = (b, s)" by fastforce
  with select_loop_spec [OF r] show ?thesis
    by (auto simp: SelectBestNode_def GetNodes_def list_all_iff split: option.splits)
qed

end
