(* ===== verification/Quota_Priority.thy ===== *)
theory Quota_Priority
  imports Global_Pool
begin

text \<open>
  Consumption priority across the private, shared and remote pools: \<open>src/quota_priority.go\<close>.

  The manager keeps one long-lived pool object per kind, created from its limit on first use; a
  pool pointer is an option. The shared pool is the global pool ledger when there is one. The state
  an operation works on is \<open>qp_world\<close>: the manager, the ledger and the node's identifier.
\<close>

section \<open>Data\<close>

datatype PoolKeyType = KeyTypeUnknown | KeyTypePublic | KeyTypeGuest | KeyTypeProxy

datatype PoolKind = PoolPrivate | PoolShared | PoolRemoteShared

record QuotaPool =
  qp_Kind :: PoolKind
  qp_NodeID :: string
  qp_Balance :: int

record ConsumeResult =
  cr_OK :: bool
  cr_Kind :: PoolKind
  cr_NodeID :: string
  cr_Amount :: int
  cr_Reason :: string

record quotaPriorityManager =
  qm_enabled :: bool
  qm_privateLimit :: int
  qm_sharedLimit :: int
  qm_remoteLimit :: int
  qm_privatePool :: "QuotaPool option"
  qm_sharedPool :: "QuotaPool option"
  qm_remotePool :: "QuotaPool option"

record qp_world =
  qw_mgr :: quotaPriorityManager
  qw_globalPool :: "GlobalPool option"
  qw_self :: string

section \<open>Pools\<close>

definition CanDeduct :: "int \<Rightarrow> QuotaPool \<Rightarrow> bool" where
  "CanDeduct amount p = (if qp_Balance p < 0 then True else qp_Balance p \<ge> amount)"

definition Deduct :: "int \<Rightarrow> QuotaPool \<Rightarrow> bool \<times> QuotaPool" where
  "Deduct amount p =
     (if qp_Balance p < 0 then (True, p)
      else if qp_Balance p < amount then (False, p)
      else (True, p\<lparr>qp_Balance := i64 (qp_Balance p - amount)\<rparr>))"

definition TryDeduct :: "int \<Rightarrow> QuotaPool \<Rightarrow> bool \<times> QuotaPool" where
  "TryDeduct amount p = Deduct amount p"

fun PriorityOrder :: "PoolKeyType \<Rightarrow> PoolKind list" where
  "PriorityOrder KeyTypePublic = [PoolShared, PoolRemoteShared]"
| "PriorityOrder _ = [PoolPrivate, PoolShared, PoolRemoteShared]"

definition exhausted :: ConsumeResult where
  "exhausted = \<lparr>cr_OK = False, cr_Kind = PoolPrivate, cr_NodeID = '''', cr_Amount = 0,
     cr_Reason = ''quota exhausted across private/shared/remote pools''\<rparr>"

definition charged :: "PoolKind \<Rightarrow> string \<Rightarrow> int \<Rightarrow> ConsumeResult" where
  "charged kind nodeID amount =
     \<lparr>cr_OK = True, cr_Kind = kind, cr_NodeID = nodeID, cr_Amount = amount, cr_Reason = ''''\<rparr>"

text \<open>Over a map from kinds to pools; a missing or nil entry is skipped.\<close>

fun consume_kinds :: "PoolKind list \<Rightarrow> int \<Rightarrow> (PoolKind, QuotaPool option) gomap \<Rightarrow> ConsumeResult \<times> (PoolKind, QuotaPool option) gomap" where
  "consume_kinds [] amount pools = (exhausted, pools)"
| "consume_kinds (k # ks) amount pools =
     (case gget pools k of
        Some (Some pool) \<Rightarrow>
          (case TryDeduct amount pool of
             (True, pool') \<Rightarrow> (charged (qp_Kind pool) (qp_NodeID pool) amount, gput k (Some pool') pools)
           | (False, _) \<Rightarrow> consume_kinds ks amount pools)
      | _ \<Rightarrow> consume_kinds ks amount pools)"

definition ConsumeWithPriority ::
    "PoolKeyType \<Rightarrow> int \<Rightarrow> (PoolKind, QuotaPool option) gomap \<Rightarrow> ConsumeResult \<times> (PoolKind, QuotaPool option) gomap" where
  "ConsumeWithPriority keyType amount pools = consume_kinds (PriorityOrder keyType) amount pools"

section \<open>The manager\<close>

text \<open>\<open>parsed\<close> is the configured string after \<open>strconv.ParseInt\<close>, \<open>None\<close> when empty or invalid.\<close>

definition parseInt64Config :: "int option \<Rightarrow> int" where
  "parseInt64Config parsed = (case parsed of None \<Rightarrow> - 1 | Some v \<Rightarrow> if v < 0 then - 1 else v)"

definition initQuotaPriority :: "(bool \<times> int option \<times> int option \<times> int option) option \<Rightarrow> quotaPriorityManager" where
  "initQuotaPriority cfg =
     (let (en, pl, sl, rl) = (case cfg of
            None \<Rightarrow> (False, - 1, - 1, - 1)
          | Some (e, p, s, r) \<Rightarrow> (e, parseInt64Config p, parseInt64Config s, parseInt64Config r))
      in \<lparr>qm_enabled = en, qm_privateLimit = pl, qm_sharedLimit = sl, qm_remoteLimit = rl,
          qm_privatePool = Some \<lparr>qp_Kind = PoolPrivate, qp_NodeID = '''', qp_Balance = pl\<rparr>,
          qm_sharedPool = Some \<lparr>qp_Kind = PoolShared, qp_NodeID = '''', qp_Balance = sl\<rparr>,
          qm_remotePool = Some \<lparr>qp_Kind = PoolRemoteShared, qp_NodeID = '''', qp_Balance = rl\<rparr>\<rparr>)"

fun pool_slot :: "PoolKind \<Rightarrow> quotaPriorityManager \<Rightarrow> QuotaPool option" where
  "pool_slot PoolPrivate m = qm_privatePool m"
| "pool_slot PoolShared m = qm_sharedPool m"
| "pool_slot PoolRemoteShared m = qm_remotePool m"

fun pool_limit :: "PoolKind \<Rightarrow> quotaPriorityManager \<Rightarrow> int" where
  "pool_limit PoolPrivate m = qm_privateLimit m"
| "pool_limit PoolShared m = qm_sharedLimit m"
| "pool_limit PoolRemoteShared m = qm_remoteLimit m"

fun set_slot :: "PoolKind \<Rightarrow> QuotaPool \<Rightarrow> quotaPriorityManager \<Rightarrow> quotaPriorityManager" where
  "set_slot PoolPrivate p m = m\<lparr>qm_privatePool := Some p\<rparr>"
| "set_slot PoolShared p m = m\<lparr>qm_sharedPool := Some p\<rparr>"
| "set_slot PoolRemoteShared p m = m\<lparr>qm_remotePool := Some p\<rparr>"

text \<open>The pool object of a kind; it stays in its slot, so a deduction is stored there.\<close>

definition lazyPool :: "PoolKind \<Rightarrow> quotaPriorityManager \<Rightarrow> QuotaPool \<times> quotaPriorityManager" where
  "lazyPool kind m =
     (case pool_slot kind m of
        Some p \<Rightarrow> (p, m)
      | None \<Rightarrow>
          let p = \<lparr>qp_Kind = kind, qp_NodeID = '''', qp_Balance = pool_limit kind m\<rparr> in (p, set_slot kind p m))"

definition lazyDeduct :: "PoolKind \<Rightarrow> int \<Rightarrow> quotaPriorityManager \<Rightarrow> bool \<times> quotaPriorityManager" where
  "lazyDeduct kind amount m =
     (case lazyPool kind m of (p, m1) \<Rightarrow>
       (case TryDeduct amount p of (b, p') \<Rightarrow> (b, set_slot kind p' m1)))"

definition tryConsumeShared :: "io_env \<Rightarrow> int \<Rightarrow> string \<Rightarrow> int \<Rightarrow> qp_world \<Rightarrow> bool \<times> qp_world" where
  "tryConsumeShared io now nodeID amount w =
     (case qw_globalPool w of
        Some gp \<Rightarrow>
          if nodeID \<noteq> '''' then
            (case TryConsume io now nodeID amount gp of (b, gp') \<Rightarrow> (b, w\<lparr>qw_globalPool := Some gp'\<rparr>))
          else (case lazyDeduct PoolShared amount (qw_mgr w) of (b, m) \<Rightarrow> (b, w\<lparr>qw_mgr := m\<rparr>))
      | None \<Rightarrow> (case lazyDeduct PoolShared amount (qw_mgr w) of (b, m) \<Rightarrow> (b, w\<lparr>qw_mgr := m\<rparr>)))"

text \<open>
  Deducting from the remote view: the manager's own pool without a ledger, else a throwaway copy of
  the ledger's available quota.
\<close>

definition remotePoolDeduct :: "int \<Rightarrow> qp_world \<Rightarrow> bool \<times> string \<times> qp_world" where
  "remotePoolDeduct amount w =
     (case qw_globalPool w of
        None \<Rightarrow>
          (case lazyPool PoolRemoteShared (qw_mgr w) of (p, m1) \<Rightarrow>
            (case TryDeduct amount p of (b, p') \<Rightarrow>
              (b, qp_NodeID p, w\<lparr>qw_mgr := set_slot PoolRemoteShared p' m1\<rparr>)))
      | Some gp \<Rightarrow>
          let balance = (if gp_AvailableQuota gp < 0 then 0 else gp_AvailableQuota gp);
              p = \<lparr>qp_Kind = PoolRemoteShared, qp_NodeID = '''', qp_Balance = balance\<rparr>
          in (fst (TryDeduct amount p), '''', w))"

fun resolve_kinds :: "io_env \<Rightarrow> int \<Rightarrow> PoolKind list \<Rightarrow> int \<Rightarrow> qp_world \<Rightarrow> ConsumeResult \<times> qp_world" where
  "resolve_kinds io now [] amount w = (exhausted, w)"
| "resolve_kinds io now (PoolPrivate # ks) amount w =
     (case lazyDeduct PoolPrivate amount (qw_mgr w) of
        (True, m) \<Rightarrow> (charged PoolPrivate (qw_self w) amount, w\<lparr>qw_mgr := m\<rparr>)
      | (False, m) \<Rightarrow> resolve_kinds io now ks amount (w\<lparr>qw_mgr := m\<rparr>))"
| "resolve_kinds io now (PoolShared # ks) amount w =
     (case tryConsumeShared io now (qw_self w) amount w of
        (True, w') \<Rightarrow> (charged PoolShared (qw_self w) amount, w')
      | (False, w') \<Rightarrow> resolve_kinds io now ks amount w')"
| "resolve_kinds io now (PoolRemoteShared # ks) amount w =
     (case remotePoolDeduct amount w of
        (True, n, w') \<Rightarrow> (charged PoolRemoteShared n amount, w')
      | (False, n, w') \<Rightarrow> resolve_kinds io now ks amount w')"

definition Resolve :: "io_env \<Rightarrow> int \<Rightarrow> PoolKeyType \<Rightarrow> int \<Rightarrow> qp_world \<Rightarrow> ConsumeResult \<times> qp_world" where
  "Resolve io now keyType amount w =
     (if \<not> qm_enabled (qw_mgr w)
      then (\<lparr>cr_OK = True, cr_Kind = PoolPrivate, cr_NodeID = qw_self w, cr_Amount = amount, cr_Reason = ''''\<rparr>, w)
      else resolve_kinds io now (PriorityOrder keyType) amount w)"

definition keyTypeFromString :: "string \<Rightarrow> PoolKeyType" where
  "keyTypeFromString s =
     (if s = ''guest'' then KeyTypeGuest
      else if s = ''proxy'' \<or> s = ''admin'' then KeyTypeProxy
      else if s = ''public'' then KeyTypePublic
      else KeyTypeUnknown)"

section \<open>Budgets\<close>

text \<open>What a pool has left: \<open>None\<close> is unlimited.\<close>

definition slot_balance :: "PoolKind \<Rightarrow> quotaPriorityManager \<Rightarrow> int" where
  "slot_balance k m = (case pool_slot k m of Some p \<Rightarrow> qp_Balance p | None \<Rightarrow> pool_limit k m)"

definition finite_budget :: "int \<Rightarrow> int option" where
  "finite_budget b = (if b < 0 then None else Some b)"

fun budget :: "PoolKind \<Rightarrow> qp_world \<Rightarrow> int option" where
  "budget PoolPrivate w = finite_budget (slot_balance PoolPrivate (qw_mgr w))"
| "budget PoolShared w =
     (case qw_globalPool w of
        Some gp \<Rightarrow> if qw_self w \<noteq> '''' then Some (pool_share (qw_self w) gp)
                   else finite_budget (slot_balance PoolShared (qw_mgr w))
      | None \<Rightarrow> finite_budget (slot_balance PoolShared (qw_mgr w)))"
| "budget PoolRemoteShared w =
     (case qw_globalPool w of
        Some gp \<Rightarrow> Some (max 0 (gp_AvailableQuota gp))
      | None \<Rightarrow> finite_budget (slot_balance PoolRemoteShared (qw_mgr w)))"

definition covers :: "int \<Rightarrow> qp_world \<Rightarrow> PoolKind \<Rightarrow> bool" where
  "covers amount w k = (case budget k w of None \<Rightarrow> True | Some b \<Rightarrow> amount \<le> b)"

definition world_ok :: "qp_world \<Rightarrow> bool" where
  "world_ok w \<longleftrightarrow> (\<forall>k. slot_balance k (qw_mgr w) < 2 ^ 63) \<and>
     (case qw_globalPool w of None \<Rightarrow> True | Some gp \<Rightarrow> share_ok (qw_self w) gp)"

lemma slot_balance_set [simp]:
  "slot_balance k (set_slot j p m) = (if k = j then qp_Balance p else slot_balance k m)"
  by (cases k; cases j) (simp_all add: slot_balance_def split: option.split)

lemma enabled_set [simp]: "qm_enabled (set_slot j p m) = qm_enabled m"
  by (cases j) simp_all

lemma lazyPool_balance:
  "qp_Balance (fst (lazyPool k m)) = slot_balance k m" "slot_balance j (snd (lazyPool k m)) = slot_balance j m"
  "qm_enabled (snd (lazyPool k m)) = qm_enabled m"
  by (auto simp: lazyPool_def slot_balance_def [of k m] Let_def split: option.splits)

lemma lazyDeduct_budget:
  assumes "lazyDeduct k a m = (b, m')" and "0 < a" and "slot_balance k m < 2 ^ 63"
  shows "(b \<longleftrightarrow> slot_balance k m < 0 \<or> a \<le> slot_balance k m) \<and> qm_enabled m' = qm_enabled m \<and>
    slot_balance j m' = (if j = k \<and> b \<and> 0 \<le> slot_balance k m then slot_balance k m - a else slot_balance j m)"
proof -
  obtain p m1 where l: "lazyPool k m = (p, m1)" by fastforce
  have p: "qp_Balance p = slot_balance k m" "slot_balance j m1 = slot_balance j m" "qm_enabled m1 = qm_enabled m"
    using lazyPool_balance [where k = k and m = m] l by auto
  have "i64 (slot_balance k m - a) = slot_balance k m - a" if "0 \<le> slot_balance k m" "a \<le> slot_balance k m"
    using that assms(2,3) by (intro i64_id) (auto simp: in_i64_def)
  with assms(1) p show ?thesis
    by (auto simp: lazyDeduct_def l TryDeduct_def Deduct_def split: if_splits)
qed

text \<open>The manager's own pool for remote requests, which pays when there is no ledger.\<close>

definition remote_slot :: "qp_world \<Rightarrow> int" where
  "remote_slot w = slot_balance PoolRemoteShared (qw_mgr w)"

lemma remotePoolDeduct_budget:
  assumes "remotePoolDeduct a w = (b, n, w')" and "0 < a" and "world_ok w"
  shows "(b \<longleftrightarrow> covers a w PoolRemoteShared) \<and> world_ok w' \<and> qw_self w' = qw_self w \<and>
    budget PoolPrivate w' = budget PoolPrivate w \<and> budget PoolShared w' = budget PoolShared w \<and>
    qm_enabled (qw_mgr w') = qm_enabled (qw_mgr w) \<and> qw_globalPool w' = qw_globalPool w \<and>
    remote_slot w' = (if b \<and> qw_globalPool w = None \<and> 0 \<le> remote_slot w then remote_slot w - a else remote_slot w)"
proof (cases "qw_globalPool w")
  case (Some gp)
  with assms(1,3) show ?thesis
    by (auto simp: remotePoolDeduct_def covers_def TryDeduct_def Deduct_def Let_def max_def remote_slot_def split: if_splits)
next
  case None
  obtain m where m: "lazyDeduct PoolRemoteShared a (qw_mgr w) = (b, m)" "w' = w\<lparr>qw_mgr := m\<rparr>"
    using assms(1) None by (auto simp: remotePoolDeduct_def lazyDeduct_def split: prod.splits)
  have k: "slot_balance k (qw_mgr w) < 2 ^ 63" for k using assms(3) by (simp add: world_ok_def)
  note d = lazyDeduct_budget [OF m(1) assms(2) k]
  have "slot_balance k m < 2 ^ 63" for k using d [of k] k [of k] k [of PoolRemoteShared] assms(2) by (auto split: if_splits)
  with None d [of PoolPrivate] d [of PoolShared] d [of PoolRemoteShared] show ?thesis
    by (auto simp: m(2) world_ok_def covers_def finite_budget_def remote_slot_def)
qed

lemma private_budget:
  assumes "lazyDeduct PoolPrivate a (qw_mgr w) = (b, m)" and "0 < a" and "world_ok w"
  shows "(b \<longleftrightarrow> covers a w PoolPrivate) \<and> world_ok (w\<lparr>qw_mgr := m\<rparr>) \<and> qm_enabled m = qm_enabled (qw_mgr w) \<and>
    budget PoolPrivate (w\<lparr>qw_mgr := m\<rparr>) = (if b then map_option (\<lambda>x. x - a) (budget PoolPrivate w) else budget PoolPrivate w) \<and>
    budget PoolShared (w\<lparr>qw_mgr := m\<rparr>) = budget PoolShared w \<and> budget PoolRemoteShared (w\<lparr>qw_mgr := m\<rparr>) = budget PoolRemoteShared w \<and>
    remote_slot (w\<lparr>qw_mgr := m\<rparr>) = remote_slot w"
proof -
  have k: "slot_balance k (qw_mgr w) < 2 ^ 63" for k using assms(3) by (simp add: world_ok_def)
  note d = lazyDeduct_budget [OF assms(1,2) k]
  have "slot_balance j m < 2 ^ 63" for j using d [of j] k [of j] k [of PoolPrivate] assms(2) by (auto split: if_splits)
  with assms(3) d [of PoolPrivate] d [of PoolShared] d [of PoolRemoteShared] show ?thesis
    by (auto simp: world_ok_def covers_def finite_budget_def remote_slot_def split: option.splits)
qed

lemma shared_budget:
  assumes "tryConsumeShared io now (qw_self w) a w = (b, w')" and "0 < a" and "world_ok w"
  shows "(b \<longleftrightarrow> covers a w PoolShared) \<and> world_ok w' \<and> qw_self w' = qw_self w \<and> qm_enabled (qw_mgr w') = qm_enabled (qw_mgr w) \<and>
    budget PoolPrivate w' = budget PoolPrivate w \<and>
    budget PoolShared w' = (if b then map_option (\<lambda>x. x - a) (budget PoolShared w) else budget PoolShared w) \<and>
    remote_slot w' = remote_slot w \<and>
    (\<not> b \<longrightarrow> budget PoolRemoteShared w' = budget PoolRemoteShared w \<and> qw_globalPool w' = qw_globalPool w)"
proof (cases "\<exists>gp. qw_globalPool w = Some gp \<and> qw_self w \<noteq> ''''")
  case True
  then obtain gp where gp: "qw_globalPool w = Some gp" "qw_self w \<noteq> ''''" by blast
  have ok: "share_ok (qw_self w) gp" using assms(3) gp by (simp add: world_ok_def)
  obtain gp' where t: "TryConsume io now (qw_self w) a gp = (b, gp')" "w' = w\<lparr>qw_globalPool := Some gp'\<rparr>"
    using assms(1) gp by (auto simp: tryConsumeShared_def split: prod.splits)
  have d: "pool_draw (qw_self w) (io, now, a) gp = (b, gp')" using t by (simp add: pool_draw_def)
  have iff: "b \<longleftrightarrow> a \<le> pool_share (qw_self w) gp"
    using pool.draw_iff [OF ok, of "(io, now, a)"] d assms(2) by simp
  show ?thesis
  proof (cases b)
    case True
    with pool.draw_granted [OF ok, of "(io, now, a)" gp'] d assms(2,3) gp iff show ?thesis
      by (auto simp: t(2) covers_def world_ok_def remote_slot_def)
  next
    case False
    then have "gp' = gp" using t(1) TryConsume_remain [OF ok] by (auto simp: Let_def split: if_splits)
    then have "w' = w" using t(2) gp by simp
    with False assms(3) gp iff show ?thesis by (auto simp: covers_def)
  qed
next
  case False
  obtain m where m: "lazyDeduct PoolShared a (qw_mgr w) = (b, m)" "w' = w\<lparr>qw_mgr := m\<rparr>"
    using assms(1) False by (auto simp: tryConsumeShared_def split: prod.splits option.splits if_splits)
  have k: "slot_balance k (qw_mgr w) < 2 ^ 63" for k using assms(3) by (simp add: world_ok_def)
  note d = lazyDeduct_budget [OF m(1) assms(2) k]
  have "slot_balance j m < 2 ^ 63" for j using d [of j] k [of j] k [of PoolShared] assms(2) by (auto split: if_splits)
  with assms(3) False d [of PoolPrivate] d [of PoolShared] d [of PoolRemoteShared] show ?thesis
    by (auto simp: m(2) world_ok_def covers_def finite_budget_def remote_slot_def split: option.splits)
qed

declare budget.simps [simp del]

section \<open>Priority\<close>

text \<open>
  The outcome: the charged pool is the first of the list that covers the amount, and it pays. A remote charge is taken from the manager's own pool,
  or from nothing here when there is a ledger, which only a shared charge changes.
\<close>

definition outcome_ok :: "PoolKind list \<Rightarrow> int \<Rightarrow> qp_world \<Rightarrow> ConsumeResult \<Rightarrow> qp_world \<Rightarrow> bool" where
  "outcome_ok ks a w r w' \<longleftrightarrow>
     (if cr_OK r then find (covers a w) ks = Some (cr_Kind r) \<and> cr_Amount r = a
      else find (covers a w) ks = None) \<and>
     (\<forall>k \<in> {PoolPrivate, PoolShared}. budget k w' =
        (if cr_OK r \<and> cr_Kind r = k then map_option (\<lambda>x. x - a) (budget k w) else budget k w)) \<and>
     remote_slot w' = (if cr_OK r \<and> cr_Kind r = PoolRemoteShared \<and> qw_globalPool w = None \<and> 0 \<le> remote_slot w
       then remote_slot w - a else remote_slot w) \<and>
     (cr_OK r \<and> cr_Kind r = PoolShared \<or> qw_globalPool w' = qw_globalPool w)"

lemma outcome_ok_skip:
  assumes "outcome_ok ks a v r w'" and "\<not> covers a w k" and "\<And>j. budget j v = budget j w"
    and "remote_slot v = remote_slot w" and "qw_globalPool v = qw_globalPool w"
  shows "outcome_ok (k # ks) a w r w'"
proof -
  have "covers a v = covers a w" by (simp add: covers_def assms(3) fun_eq_iff)
  then have "find (covers a w) (k # ks) = find (covers a v) ks" using assms(2) by simp
  with assms(1) show ?thesis unfolding outcome_ok_def assms(3-5) by simp
qed

lemma resolve_remote:
  assumes "0 < a" and "world_ok w" and "resolve_kinds io now [PoolRemoteShared] a w = (r, w')"
  shows "outcome_ok [PoolRemoteShared] a w r w' \<and> world_ok w' \<and> qm_enabled (qw_mgr w') = qm_enabled (qw_mgr w) \<and> qw_self w' = qw_self w"
proof -
  obtain b n v where d: "remotePoolDeduct a w = (b, n, v)" by (metis prod_cases3)
  from remotePoolDeduct_budget [OF this assms(1,2)] assms(3) d show ?thesis
    by (cases b) (auto simp: outcome_ok_def charged_def exhausted_def)
qed

lemma resolve_shared:
  assumes "0 < a" and "world_ok w" and "resolve_kinds io now [PoolShared, PoolRemoteShared] a w = (r, w')"
  shows "outcome_ok [PoolShared, PoolRemoteShared] a w r w' \<and> world_ok w' \<and> qm_enabled (qw_mgr w') = qm_enabled (qw_mgr w) \<and> qw_self w' = qw_self w"
proof -
  obtain b v where d: "tryConsumeShared io now (qw_self w) a w = (b, v)" by fastforce
  note s = shared_budget [OF d assms(1,2)]
  show ?thesis
  proof (cases b)
    case True
    with s assms(3) d show ?thesis by (auto simp: outcome_ok_def charged_def)
  next
    case False
    then have r: "resolve_kinds io now [PoolRemoteShared] a v = (r, w')" using assms(3) d by simp
    have "budget j v = budget j w" for j using s False by (cases j) auto
    with resolve_remote [OF assms(1) _ r] s False show ?thesis by (auto intro: outcome_ok_skip)
  qed
qed

lemma resolve_private:
  assumes "0 < a" and "world_ok w" and "resolve_kinds io now [PoolPrivate, PoolShared, PoolRemoteShared] a w = (r, w')"
  shows "outcome_ok [PoolPrivate, PoolShared, PoolRemoteShared] a w r w' \<and> world_ok w' \<and> qm_enabled (qw_mgr w') = qm_enabled (qw_mgr w) \<and> qw_self w' = qw_self w"
proof -
  obtain b m where d: "lazyDeduct PoolPrivate a (qw_mgr w) = (b, m)" by fastforce
  note s = private_budget [OF d assms(1,2)]
  let ?v = "w\<lparr>qw_mgr := m\<rparr>"
  show ?thesis
  proof (cases b)
    case True
    with s assms(3) d show ?thesis by (auto simp: outcome_ok_def charged_def)
  next
    case False
    then have r: "resolve_kinds io now [PoolShared, PoolRemoteShared] a ?v = (r, w')" using assms(3) d by simp
    have "budget j ?v = budget j w" for j using s False by (cases j) auto
    with resolve_shared [OF assms(1) _ r] s False show ?thesis by (auto intro: outcome_ok_skip)
  qed
qed

lemma resolve_outcome:
  assumes "0 < a" and "world_ok w" and "qm_enabled (qw_mgr w)" and "Resolve io now kt a w = (r, w')"
  shows "outcome_ok (PriorityOrder kt) a w r w' \<and> world_ok w' \<and> qm_enabled (qw_mgr w') \<and> qw_self w' = qw_self w"
  using assms resolve_private [OF assms(1,2)] resolve_shared [OF assms(1,2)]
  by (cases kt) (simp_all add: Resolve_def)

lemma tryConsume_no_ledger: "tryConsumeShared io now n a w = (b, w') \<Longrightarrow> qw_globalPool w = None \<Longrightarrow> qw_globalPool w' = None"
  by (auto simp: tryConsumeShared_def split: prod.splits)

lemma remoteDeduct_ledger: "remotePoolDeduct a w = (b, n, w') \<Longrightarrow> qw_globalPool w' = qw_globalPool w"
  by (auto simp: remotePoolDeduct_def Let_def split: option.splits prod.splits)

lemma resolve_kinds_no_ledger: "resolve_kinds io now ks a w = (r, w') \<Longrightarrow> qw_globalPool w = None \<Longrightarrow> qw_globalPool w' = None"
proof (induction io now ks a w rule: resolve_kinds.induct)
  case (2 io now ks a w)
  obtain b m where "lazyDeduct PoolPrivate a (qw_mgr w) = (b, m)" by fastforce
  with 2 show ?case by (cases b) auto
next
  case (3 io now ks a w)
  obtain b v where d: "tryConsumeShared io now (qw_self w) a w = (b, v)" by fastforce
  with 3 tryConsume_no_ledger [OF d] show ?case by (cases b) auto
next
  case (4 io now ks a w)
  obtain b n v where d: "remotePoolDeduct a w = (b, n, v)" by (metis prod_cases3)
  with 4 remoteDeduct_ledger [OF d] show ?case by (cases b) auto
qed simp

lemma resolve_no_ledger: "Resolve io now kt a w = (r, w') \<Longrightarrow> qw_globalPool w = None \<Longrightarrow> qw_globalPool w' = None"
  using resolve_kinds_no_ledger by (auto simp: Resolve_def split: if_splits)

text \<open>
  (C7) Consumption priority. With enforcement on, a request of a positive amount is charged to the first pool in the
  priority order of its key type that covers it, and refused exactly when none does. Exactly that
  pool pays: the private, the shared and, without a ledger, the remote budget go down by the amount when charged and are untouched
  otherwise, refusals included. With a ledger, a remote charge changes nothing here, because the node that serves the request
  charges it, and only a shared charge changes the ledger. A public key never draws on the private pool.
\<close>

theorem resolve_priority:
  assumes "0 < a" and "world_ok w" and "qm_enabled (qw_mgr w)" and "Resolve io now kt a w = (r, w')"
  shows "(cr_OK r \<longleftrightarrow> list_ex (covers a w) (PriorityOrder kt))
    \<and> (cr_OK r \<longrightarrow> find (covers a w) (PriorityOrder kt) = Some (cr_Kind r) \<and> cr_Amount r = a)
    \<and> budget PoolPrivate w' = (if cr_OK r \<and> cr_Kind r = PoolPrivate then map_option (\<lambda>x. x - a) (budget PoolPrivate w) else budget PoolPrivate w)
    \<and> budget PoolShared w' = (if cr_OK r \<and> cr_Kind r = PoolShared then map_option (\<lambda>x. x - a) (budget PoolShared w) else budget PoolShared w)
    \<and> (qw_globalPool w = None \<longrightarrow> qw_globalPool w' = None \<and> budget PoolRemoteShared w' =
         (if cr_OK r \<and> cr_Kind r = PoolRemoteShared then map_option (\<lambda>x. x - a) (budget PoolRemoteShared w) else budget PoolRemoteShared w))
    \<and> (qw_globalPool w \<noteq> None \<and> \<not> (cr_OK r \<and> cr_Kind r = PoolShared) \<longrightarrow>
         qw_globalPool w' = qw_globalPool w \<and> budget PoolRemoteShared w' = budget PoolRemoteShared w)
    \<and> (kt = KeyTypePublic \<longrightarrow> budget PoolPrivate w' = budget PoolPrivate w)"
proof -
  have o: "outcome_ok (PriorityOrder kt) a w r w'" using resolve_outcome [OF assms] by simp
  have ex: "find P xs \<noteq> None \<longleftrightarrow> list_ex P xs" for P and xs :: "PoolKind list"
    by (induction xs) auto
  have pub: "kt = KeyTypePublic \<Longrightarrow> cr_OK r \<Longrightarrow> cr_Kind r \<noteq> PoolPrivate"
    using o by (auto simp: outcome_ok_def split: if_splits)
  have led: "qw_globalPool w = None \<Longrightarrow> qw_globalPool w' = None" using resolve_no_ledger [OF assms(4)] .
  have slot: "remote_slot w' = (if cr_OK r \<and> cr_Kind r = PoolRemoteShared \<and> qw_globalPool w = None \<and> 0 \<le> remote_slot w
       then remote_slot w - a else remote_slot w)" using o unfolding outcome_ok_def by blast
  have "cr_OK r \<Longrightarrow> cr_Kind r = PoolRemoteShared \<Longrightarrow> covers a w PoolRemoteShared"
    using o by (auto simp: outcome_ok_def find_Some_iff)
  with led slot have "qw_globalPool w = None \<longrightarrow> qw_globalPool w' = None \<and> budget PoolRemoteShared w' =
      (if cr_OK r \<and> cr_Kind r = PoolRemoteShared then map_option (\<lambda>x. x - a) (budget PoolRemoteShared w) else budget PoolRemoteShared w)"
    by (auto simp: budget.simps covers_def remote_slot_def finite_budget_def split: if_splits)
  moreover have "qw_globalPool w \<noteq> None \<and> \<not> (cr_OK r \<and> cr_Kind r = PoolShared) \<longrightarrow>
      qw_globalPool w' = qw_globalPool w \<and> budget PoolRemoteShared w' = budget PoolRemoteShared w"
    using o by (auto simp: outcome_ok_def budget.simps split: option.splits)
  ultimately show ?thesis using o ex [of "covers a w" "PriorityOrder kt"] pub by (auto simp: outcome_ok_def split: if_splits)
qed

definition sample_world :: qp_world where
  "sample_world = \<lparr>qw_mgr = initQuotaPriority (Some (True, Some 100, Some 50, None)), qw_globalPool = None, qw_self = ''a''\<rparr>"

lemma sample_world_ok: "world_ok sample_world" "qm_enabled (qw_mgr sample_world)"
    "budget PoolPrivate sample_world = Some 100" "budget PoolShared sample_world = Some 50"
proof -
  have "slot_balance k (qw_mgr sample_world) < 2 ^ 63" for k
    by (cases k) (simp_all add: slot_balance_def sample_world_def initQuotaPriority_def parseInt64Config_def)
  then show "world_ok sample_world" by (simp add: world_ok_def) (simp add: sample_world_def)
qed (simp_all add: sample_world_def initQuotaPriority_def parseInt64Config_def slot_balance_def finite_budget_def budget.simps)

theorem resolve_priority_witness:
  "\<exists>r w'. Resolve (io_fine True) 0 KeyTypeGuest 70 sample_world = (r, w') \<and> cr_OK r \<and> cr_Kind r = PoolPrivate \<and> budget PoolPrivate w' = Some 30"
proof -
  obtain r w' where rw: "Resolve (io_fine True) 0 KeyTypeGuest 70 sample_world = (r, w')" by fastforce
  have "covers 70 sample_world PoolPrivate" by (simp add: covers_def sample_world_ok(3))
  with resolve_priority [OF _ sample_world_ok(1,2) rw] sample_world_ok(3) rw show ?thesis
    by (auto)
qed

section \<open>A finite private pool depletes\<close>

text \<open>A sequence of requests, counting those the private pool paid for.\<close>

definition private_draw :: "io_env \<times> int \<times> PoolKeyType \<times> int \<Rightarrow> qp_world \<Rightarrow> bool \<times> qp_world" where
  "private_draw x w = (case x of (io, now, kt, a) \<Rightarrow>
     if a \<le> 0 then (False, w)
     else (case Resolve io now kt a w of (r, w') \<Rightarrow> (cr_OK r \<and> cr_Kind r = PoolPrivate, w')))"

interpretation priv: quota_guard private_draw "\<lambda>(io, now, kt, a). a" "\<lambda>w. case budget PoolPrivate w of Some b \<Rightarrow> b | None \<Rightarrow> 0"
    "\<lambda>w. world_ok w \<and> qm_enabled (qw_mgr w) \<and> budget PoolPrivate w \<noteq> None"
proof (unfold_locales, goal_cases)
  case (1 w x w')
  obtain io now kt a where x: "x = (io, now, kt, a)" by (cases x) auto
  show ?case
  proof (cases "a \<le> 0")
    case True
    with 1 show ?thesis by (simp add: x private_draw_def)
  next
    case False
    obtain r v where r: "Resolve io now kt a w = (r, v)" by fastforce
    with 1 False have v: "v = w'" "\<not> (cr_OK r \<and> cr_Kind r = PoolPrivate)" by (auto simp: x private_draw_def)
    with resolve_outcome [OF _ _ _ r] 1 False show ?thesis
      by (simp add: outcome_ok_def split: if_splits)
  qed
next
  case (2 w x w')
  obtain io now kt a where x: "x = (io, now, kt, a)" by (cases x) auto
  with 2 have a: "0 < a" by (auto simp: private_draw_def not_le split: if_splits)
  obtain r v where r: "Resolve io now kt a w = (r, v)" by fastforce
  with 2 a have v: "v = w'" "cr_OK r" "cr_Kind r = PoolPrivate" by (auto simp: x private_draw_def)
  have o: "outcome_ok (PriorityOrder kt) a w r w'" "world_ok w'" "qm_enabled (qw_mgr w')"
    using resolve_outcome [OF a _ _ r] 2 v by auto
  have "covers a w PoolPrivate" using o(1) v by (auto simp: outcome_ok_def find_Some_iff)
  then show ?case using 2 o v by (auto simp: x outcome_ok_def covers_def split: option.splits)
next
  case (3 w)
  then show ?case by (auto simp: finite_budget_def budget.simps split: if_splits option.splits)
qed

text \<open>
  (C37) No over-issue of the private pool. Over any sequence of requests of any key types, the
  amounts the private pool pays for never add up to more than its finite balance at the start.
\<close>

theorem private_pool_depletes:
  assumes "world_ok w" and "qm_enabled (qw_mgr w)" and "budget PoolPrivate w = Some b"
    and "\<forall>x \<in> set xs. 0 \<le> snd (snd (snd x))" and "run_takes private_draw xs w = (gs, w')"
  shows "(\<Sum>x \<leftarrow> gs. snd (snd (snd x))) \<le> b"
proof -
  have eq: "(\<lambda>(io, now, kt, a). a) = (\<lambda>x :: io_env \<times> int \<times> PoolKeyType \<times> int. snd (snd (snd x)))" by auto
  show ?thesis
    using priv.run_never_overissues [of w xs gs w'] assms unfolding eq by (simp)
qed

theorem private_pool_depletes_witness:
  "let (gs, w') = run_takes private_draw [(io_fine True, 0, KeyTypeGuest, 70), (io_fine True, 0, KeyTypeProxy, 70)] sample_world
   in (\<Sum>x \<leftarrow> gs. snd (snd (snd x))) \<le> 100"
proof -
  obtain gs w' where r: "run_takes private_draw [(io_fine True, 0, KeyTypeGuest, 70), (io_fine True, 0, KeyTypeProxy, 70)] sample_world = (gs, w')"
    by fastforce
  show ?thesis
    unfolding Let_def r using private_pool_depletes [OF sample_world_ok(1-3) _ r] by simp
qed

end
