(* ===== verification/Hex_Text.thy ===== *)
theory Hex_Text
  imports Omp_Prelude "HOL-Library.Word"
begin

text \<open>
  Bytes and their hexadecimal rendering, as \<open>encoding/hex\<close> does it.
\<close>

type_synonym byte = "8 word"

text \<open>\<open>hex.EncodeToString\<close> writes lower-case digits; \<open>hex.DecodeString\<close> reads both cases, in pairs.\<close>

definition hexDigit :: "nat \<Rightarrow> char" where
  "hexDigit n = ''0123456789abcdef'' ! n"

definition hexValue :: "char \<Rightarrow> nat option" where
  "hexValue c =
     (let v = of_char c :: nat
      in if 48 \<le> v \<and> v \<le> 57 then Some (v - 48)
         else if 97 \<le> v \<and> v \<le> 102 then Some (v - 87)
         else if 65 \<le> v \<and> v \<le> 70 then Some (v - 55)
         else None)"

fun hexEncode :: "byte list \<Rightarrow> string" where
  "hexEncode [] = []"
| "hexEncode (b # bs) = hexDigit (unat b div 16) # hexDigit (unat b mod 16) # hexEncode bs"

fun hexDecode :: "string \<Rightarrow> byte list option" where
  "hexDecode [] = Some []"
| "hexDecode [c] = None"
| "hexDecode (c # c' # s) =
     (case (hexValue c, hexValue c', hexDecode s) of
        (Some h, Some l, Some bs) \<Rightarrow> Some (word_of_nat (16 * h + l) # bs)
      | _ \<Rightarrow> None)"

lemma byte_bound: "unat (b :: byte) < 256"
  using unsigned_less [of b, where ?'a = nat] by simp

lemma hexValue_table: "list_all (\<lambda>n. hexValue (hexDigit n) = Some n) [0..<16]"
  by code_simp

lemma hexValue_hexDigit: "n < 16 \<Longrightarrow> hexValue (hexDigit n) = Some n"
  using hexValue_table by (simp add: list_all_iff)

lemma hexDecode_hexEncode: "hexDecode (hexEncode bs) = Some bs"
proof (induction bs)
  case (Cons b bs)
  have "unat b div 16 < 16" "unat b mod 16 < 16" using byte_bound [of b] by auto
  then have "hexValue (hexDigit (unat b div 16)) = Some (unat b div 16)" "hexValue (hexDigit (unat b mod 16)) = Some (unat b mod 16)"
    by (simp_all only: hexValue_hexDigit)
  with Cons show ?case by simp
qed simp

lemma hexDecode_length: "hexDecode s = Some bs \<Longrightarrow> length s = 2 * length bs"
  by (induction s arbitrary: bs rule: hexDecode.induct) (auto split: option.splits)

lemma hexEncode_digits: "c \<in> set (hexEncode bs) \<Longrightarrow> \<exists>n < 16. c = hexDigit n"
proof (induction bs)
  case (Cons b bs)
  have "unat b div 16 < 16" "unat b mod 16 < 16" using byte_bound [of b] by auto
  with Cons show ?case by (metis hexEncode.simps(2) set_ConsD)
qed simp

lemma hexEncode_no_dash: "CHR ''-'' \<notin> set (hexEncode bs)"
proof
  assume "CHR ''-'' \<in> set (hexEncode bs)"
  then obtain n where "n < 16" "CHR ''-'' = hexDigit n" using hexEncode_digits by blast
  moreover have "list_all (\<lambda>n. hexDigit n \<noteq> CHR ''-'') [0..<16]" by code_simp
  ultimately show False unfolding list_all_iff by (metis atLeastLessThan_iff le0 set_upt)
qed

lemma length_hexEncode [simp]: "length (hexEncode bs) = 2 * length bs"
  by (induction bs) simp_all

end
