(* ===== verification/Kademlia.thy ===== *)
theory Kademlia
  imports Hex_Text
begin

unbundle bit_operations_syntax

text \<open>
  The Kademlia routing table and record store: \<open>src/dht_kademlia.go\<close>.

  An identifier is an array of 32 bytes, here a list of 8-bit words of that length (\<open>id_ok\<close>); the hash
  that turns a name into an identifier is the argument \<open>sum256\<close>. The buckets are a list of 256 lists
  of entries. Times are nanoseconds. \<open>sort.Slice\<close> is modelled by a stable sort; the distances that
  \<open>FindClosest\<close> sorts by are distinct for distinct identifiers, so the order does not depend on it;
  \<open>StaleEntries\<close> may return entries of the same time in another order than the model.
\<close>

section \<open>Data\<close>

type_synonym DHTNodeID = "byte list"

definition id_ok :: "DHTNodeID \<Rightarrow> bool" where
  "id_ok x \<longleftrightarrow> length x = 32"

definition dhtK :: nat where "dhtK = 20"
definition dhtBuckets :: nat where "dhtBuckets = 256"
definition dhtRecordTTL :: int where "dhtRecordTTL = 48 * 3600 * 1000000000"

record DHTEntry =
  de_NodeID :: DHTNodeID
  de_Addresses :: "string list"
  de_LastSeen :: int

record DHTRecord =
  dr_Key :: string
  dr_Value :: "byte list"
  dr_Publisher :: DHTNodeID
  dr_ExpiresAt :: int

record DHT =
  dht_self :: DHTNodeID
  dht_buckets :: "DHTEntry list list"
  dht_records :: "(string, DHTRecord) gomap"

definition NewDHT :: "(string \<Rightarrow> DHTNodeID) \<Rightarrow> string \<Rightarrow> DHT" where
  "NewDHT sum256 selfID = \<lparr>dht_self = sum256 selfID, dht_buckets = replicate dhtBuckets [], dht_records = []\<rparr>"

section \<open>Distances\<close>

definition XORDistance :: "DHTNodeID \<Rightarrow> DHTNodeID \<Rightarrow> DHTNodeID" where
  "XORDistance a b = map2 (\<lambda>x y. x XOR y) a b"

definition bit_set :: "byte \<Rightarrow> nat \<Rightarrow> bool" where
  "bit_set b n \<longleftrightarrow> b AND push_bit n 1 \<noteq> 0"

fun bucket_loop :: "nat \<Rightarrow> DHTNodeID \<Rightarrow> nat" where
  "bucket_loop i [] = 0"
| "bucket_loop i (b # bs) =
     (if b \<noteq> 0
      then (case find (bit_set b) [7, 6, 5, 4, 3, 2, 1, 0] of
              Some n \<Rightarrow> (31 - i) * 8 + n
            | None \<Rightarrow> bucket_loop (Suc i) bs)
      else bucket_loop (Suc i) bs)"

definition bucketIndex :: "DHTNodeID \<Rightarrow> nat" where
  "bucketIndex delta = bucket_loop 0 delta"

fun dist_less :: "DHTNodeID \<Rightarrow> DHTNodeID \<Rightarrow> bool" where
  "dist_less (x # xs) (y # ys) = (if x \<noteq> y then x < y else dist_less xs ys)"
| "dist_less _ _ = False"

section \<open>Identifiers as text\<close>

datatype dht_id_error = InvalidHex | WrongLength nat

definition SelfID :: "DHT \<Rightarrow> string" where
  "SelfID d = hexEncode (dht_self d)"

definition StringToDHTID :: "string \<Rightarrow> dht_id_error + DHTNodeID" where
  "StringToDHTID s =
     (case hexDecode s of
        None \<Rightarrow> Inl InvalidHex
      | Some b \<Rightarrow> if length b \<noteq> 32 then Inl (WrongLength (length b)) else Inr b)"

section \<open>The routing table\<close>

fun replace_entry :: "DHTEntry \<Rightarrow> DHTEntry list \<Rightarrow> DHTEntry list" where
  "replace_entry e [] = []"
| "replace_entry e (x # xs) = (if de_NodeID x = de_NodeID e then e # xs else x # replace_entry e xs)"

definition AddNode :: "int \<Rightarrow> DHTEntry \<Rightarrow> DHT \<Rightarrow> DHT" where
  "AddNode now entry d =
     (let idx = bucketIndex (XORDistance (dht_self d) (de_NodeID entry));
          bucket = dht_buckets d ! idx;
          entry' = entry\<lparr>de_LastSeen := now\<rparr>
      in if list_ex (\<lambda>e. de_NodeID e = de_NodeID entry) bucket
         then d\<lparr>dht_buckets := (dht_buckets d)[idx := replace_entry entry' bucket]\<rparr>
         else if length bucket < dhtK
         then d\<lparr>dht_buckets := (dht_buckets d)[idx := bucket @ [entry']]\<rparr>
         else d)"

fun drop_entry :: "DHTNodeID \<Rightarrow> DHTEntry list \<Rightarrow> DHTEntry list" where
  "drop_entry i [] = []"
| "drop_entry i (x # xs) = (if de_NodeID x = i then xs else x # drop_entry i xs)"

definition RemoveNode :: "DHTNodeID \<Rightarrow> DHT \<Rightarrow> bool \<times> DHT" where
  "RemoveNode i d =
     (let idx = bucketIndex (XORDistance (dht_self d) i); bucket = dht_buckets d ! idx
      in if list_ex (\<lambda>e. de_NodeID e = i) bucket
         then (True, d\<lparr>dht_buckets := (dht_buckets d)[idx := drop_entry i bucket]\<rparr>)
         else (False, d))"

text \<open>\<open>None\<close> is the panic of slicing with a negative bound.\<close>

definition FindClosest :: "DHTNodeID \<Rightarrow> int \<Rightarrow> DHT \<Rightarrow> DHTEntry list option" where
  "FindClosest target count d =
     (let all = concat (dht_buckets d);
          byDist = stable_sort_by (\<lambda>a b. dist_less (XORDistance target (de_NodeID a)) (XORDistance target (de_NodeID b))) all;
          n = (if count > int (length all) then int (length all) else count)
      in if n < 0 then None else Some (take (nat n) byDist))"

definition StaleEntries :: "int \<Rightarrow> int \<Rightarrow> DHT \<Rightarrow> DHTEntry list" where
  "StaleEntries now maxAge d =
     stable_sort_by (\<lambda>a b. de_LastSeen a < de_LastSeen b)
       (filter (\<lambda>e. de_LastSeen e < now - maxAge) (concat (dht_buckets d)))"

definition TotalNodes :: "DHT \<Rightarrow> nat" where
  "TotalNodes d = foldl (\<lambda>n b. n + length b) 0 (dht_buckets d)"

definition BucketStats :: "DHT \<Rightarrow> (nat, nat) gomap" where
  "BucketStats d = map (\<lambda>i. (i, length (dht_buckets d ! i))) (filter (\<lambda>i. length (dht_buckets d ! i) > 0) [0..<length (dht_buckets d)])"

section \<open>Records\<close>

definition dht_Put :: "int \<Rightarrow> string \<Rightarrow> byte list \<Rightarrow> DHTNodeID \<Rightarrow> DHT \<Rightarrow> DHT" where
  "dht_Put now key v publisher d =
     d\<lparr>dht_records := gput key \<lparr>dr_Key = key, dr_Value = v, dr_Publisher = publisher, dr_ExpiresAt = now + dhtRecordTTL\<rparr> (dht_records d)\<rparr>"

definition dht_Get :: "int \<Rightarrow> string \<Rightarrow> DHT \<Rightarrow> DHTRecord option" where
  "dht_Get now key d =
     (case gget (dht_records d) key of
        None \<Rightarrow> None
      | Some r \<Rightarrow> if now > dr_ExpiresAt r then None else Some r)"

definition ExpireRecords :: "int \<Rightarrow> DHT \<Rightarrow> nat \<times> DHT" where
  "ExpireRecords now d =
     (length (filter (\<lambda>e. now > dr_ExpiresAt (snd e)) (dht_records d)),
      d\<lparr>dht_records := gfilter (\<lambda>k r. \<not> now > dr_ExpiresAt r) (dht_records d)\<rparr>)"

section \<open>Identifiers as numbers\<close>

fun id_value :: "DHTNodeID \<Rightarrow> nat" where
  "id_value [] = 0"
| "id_value (b # bs) = unat b * 256 ^ length bs + id_value bs"

lemma id_value_zeros: "id_value (replicate n 0 @ x) = id_value x"
  by (induction n) simp_all

lemma id_value_bound: "id_value x < 256 ^ length x"
proof (induction x)
  case (Cons b bs)
  have "unat b \<le> 255" using byte_bound [of b] by simp
  then have "unat b * 256 ^ length bs \<le> 255 * 256 ^ length bs" by (rule mult_le_mono1)
  with Cons have "id_value (b # bs) < 255 * 256 ^ length bs + 256 ^ length bs"
    unfolding id_value.simps by linarith
  then show ?case by simp
qed simp

lemma bit_find_table:
  "list_all (\<lambda>k. case find (bit_set (word_of_nat k)) [7, 6, 5, 4, 3, 2, 1, 0] of
      Some n \<Rightarrow> 2 ^ n \<le> k \<and> k < 2 ^ Suc n | None \<Rightarrow> False) [1..<256]"
  by code_simp

lemma bit_find:
  assumes "b \<noteq> 0"
  shows "\<exists>n. find (bit_set b) [7, 6, 5, 4, 3, 2, 1, 0] = Some n \<and> 2 ^ n \<le> unat b \<and> unat b < 2 ^ Suc n"
proof -
  have "unat b \<in> set [1..<256]" using byte_bound [of b] assms by (auto simp: Suc_le_eq unat_gt_0)
  with bit_find_table have "case find (bit_set (word_of_nat (unat b) :: byte)) [7, 6, 5, 4, 3, 2, 1, 0] of
      Some n \<Rightarrow> 2 ^ n \<le> unat b \<and> unat b < 2 ^ Suc n | None \<Rightarrow> False"
    unfolding list_all_iff by blast
  then show ?thesis
    by (cases "find (bit_set b) [7, 6, 5, 4, 3, 2, 1, 0]") (simp_all del: find.simps)
qed

lemma bucket_loop_value:
  assumes "i + length x = 32" and "id_value x \<noteq> 0"
  shows "2 ^ bucket_loop i x \<le> id_value x \<and> id_value x < 2 ^ Suc (bucket_loop i x)"
  using assms
proof (induction i x rule: bucket_loop.induct)
  case (2 i b bs)
  show ?case
  proof (cases "b = 0")
    case True
    with 2 show ?thesis by simp
  next
    case False
    then obtain n where n: "find (bit_set b) [7, 6, 5, 4, 3, 2, 1, 0] = Some n" "2 ^ n \<le> unat b" "unat b < 2 ^ Suc n"
      using bit_find by blast
    have e: "bucket_loop i (b # bs) = length bs * 8 + n" using False n(1) 2(3) by simp
    have p: "(256 :: nat) ^ length bs = 2 ^ (length bs * 8)" by (simp add: mult.commute [of _ 8] power_mult)
    have "2 ^ n * 2 ^ (length bs * 8) \<le> unat b * 2 ^ (length bs * 8)" using n(2) by simp
    moreover have "Suc (unat b) * 2 ^ (length bs * 8) \<le> 2 ^ Suc n * 2 ^ (length bs * 8)"
      using n(3) by (intro mult_le_mono1) simp
    moreover have "id_value bs < 2 ^ (length bs * 8)" using id_value_bound [of bs] p by simp
    ultimately have "2 ^ n * 2 ^ (length bs * 8) \<le> id_value (b # bs)"
      and "id_value (b # bs) < 2 ^ Suc n * 2 ^ (length bs * 8)"
      unfolding id_value.simps p mult_Suc by linarith+
    then show ?thesis unfolding e by (simp only: power_add power_Suc mult_ac)
  qed
qed simp

text \<open>
  Bucket index. For a non-zero distance of 32 bytes, read as a number, the bucket index is its
  binary logarithm: bucket \<open>i\<close> holds exactly the distances from \<open>2 ^ i\<close> up to \<open>2 ^ (i + 1)\<close>, and \<open>i\<close> is
  one of the 256 buckets.
\<close>

theorem bucket_index_log:
  assumes "id_ok delta" and "id_value delta \<noteq> 0"
  shows "2 ^ bucketIndex delta \<le> id_value delta \<and> id_value delta < 2 ^ Suc (bucketIndex delta) \<and> bucketIndex delta < dhtBuckets"
proof -
  have b: "2 ^ bucketIndex delta \<le> id_value delta \<and> id_value delta < 2 ^ Suc (bucketIndex delta)"
    using bucket_loop_value [of 0 delta] assms by (simp add: bucketIndex_def id_ok_def)
  have "id_value delta < 256 ^ 32" using id_value_bound [of delta] assms(1) by (simp add: id_ok_def)
  also have "(256 :: nat) ^ 32 = 2 ^ 256" by simp
  finally have "(2 :: nat) ^ bucketIndex delta < 2 ^ 256" using b by linarith
  then have "bucketIndex delta < 256" by (simp only: power_strict_increasing_iff)
  with b show ?thesis by (simp add: dhtBuckets_def)
qed

theorem bucket_index_log_witness:
  "id_value (replicate 31 0 @ [5]) = 5 \<and> 2 ^ bucketIndex (replicate 31 0 @ [5]) \<le> (5 :: nat) \<and> (5 :: nat) < 2 ^ Suc (bucketIndex (replicate 31 0 @ [5]))"
proof -
  have v: "id_value (replicate 31 0 @ [5]) = 5" by (simp only: id_value_zeros) simp
  show ?thesis using bucket_index_log [of "replicate 31 0 @ [5]"] v by (simp add: id_ok_def)
qed

section \<open>Distances order the table\<close>

lemma length_XORDistance [simp]: "length (XORDistance a b) = min (length a) (length b)"
  by (simp add: XORDistance_def)

lemma XORDistance_Cons [simp]: "XORDistance (x # a) (y # b) = (x XOR y) # XORDistance a b"
  by (simp add: XORDistance_def)

lemma XORDistance_inject:
  "length t = length a \<Longrightarrow> length a = length b \<Longrightarrow> XORDistance t a = XORDistance t b \<longleftrightarrow> a = b"
proof (induction t a b rule: list_induct3)
  case (Cons x xs y ys z zs)
  have "x XOR y = x XOR z \<longleftrightarrow> y = z" by (metis xor.assoc xor_self_eq xor.left_neutral)
  with Cons show ?case by simp
qed simp_all

lemma id_value_less:
  assumes "length x = length y"
  shows "dist_less x y \<longleftrightarrow> id_value x < id_value y"
  using assms
proof (induction x y rule: list_induct2)
  case (Cons a as b bs)
  have less: "id_value (c # cs) < id_value (d # ds)" if "c < d" "length cs = length ds" for c d :: byte and cs ds
  proof -
    have "Suc (unat c) * 256 ^ length cs \<le> unat d * 256 ^ length cs"
      using that(1) by (intro mult_le_mono1) (simp add: word_less_nat_alt)
    with id_value_bound [of cs] show ?thesis unfolding id_value.simps mult_Suc that(2) [symmetric] by linarith
  qed
  consider "a = b" | "a < b" | "b < a" by fastforce
  then show ?case
    by cases (use Cons less [of a b as bs] less [of b a bs as] in \<open>auto simp del: id_value.simps simp: id_value.simps(2) [of b as] id_value.simps(2) [of b bs]\<close>)
qed simp

lemma id_value_inject:
  assumes "length x = length y"
  shows "id_value x = id_value y \<longleftrightarrow> x = y"
proof -
  have "dist_less x y \<or> dist_less y x \<or> x = y"
    using assms by (induction x y rule: list_induct2) auto
  with assms show ?thesis using id_value_less [of x y] id_value_less [of y x] by auto
qed

section \<open>The invariant of the routing table\<close>

text \<open>
  Bucket \<open>i\<close> holds at most \<open>k\<close> entries, of distinct nodes, whose distance to this node belongs there.
\<close>

definition kbucket_ok :: "DHTNodeID \<Rightarrow> nat \<Rightarrow> DHTEntry list \<Rightarrow> bool" where
  "kbucket_ok self i b \<longleftrightarrow>
     length b \<le> dhtK \<and> distinct (map de_NodeID b) \<and>
     list_all (\<lambda>e. id_ok (de_NodeID e) \<and> bucketIndex (XORDistance self (de_NodeID e)) = i) b"

definition dht_ok :: "DHT \<Rightarrow> bool" where
  "dht_ok d \<longleftrightarrow>
     id_ok (dht_self d) \<and> length (dht_buckets d) = dhtBuckets \<and>
     (\<forall>i < dhtBuckets. kbucket_ok (dht_self d) i (dht_buckets d ! i)) \<and> gmap_ok (dht_records d)"

text \<open>The entries of the table.\<close>

definition routing :: "DHT \<Rightarrow> DHTEntry set" where
  "routing d = set (concat (dht_buckets d))"

lemma id_ok_XORDistance [simp]: "id_ok a \<Longrightarrow> id_ok b \<Longrightarrow> id_ok (XORDistance a b)"
  by (simp add: id_ok_def)

lemma bucket_loop_bound: "i + length x = 32 \<Longrightarrow> bucket_loop i x < 256"
proof (cases "id_value x = 0")
  case True
  have "id_value y = 0 \<Longrightarrow> bucket_loop j y = 0" for j y
    by (induction j y rule: bucket_loop.induct) (auto simp: unat_eq_0)
  with True show ?thesis by simp
next
  case False
  assume "i + length x = 32"
  with False have "2 ^ bucket_loop i x \<le> id_value x" using bucket_loop_value by blast
  also have "id_value x < 256 ^ length x" by (rule id_value_bound)
  also have "(256 :: nat) ^ length x \<le> 256 ^ 32" using \<open>i + length x = 32\<close> by (intro power_increasing) auto
  also have "(256 :: nat) ^ 32 = 2 ^ 256" by simp
  finally show ?thesis by (simp only: power_strict_increasing_iff)
qed

lemma bucketIndex_bound: "id_ok x \<Longrightarrow> bucketIndex x < dhtBuckets"
  using bucket_loop_bound [of 0 x] by (simp add: bucketIndex_def id_ok_def dhtBuckets_def)

lemma ids_replace_entry: "map de_NodeID (replace_entry e b) = map de_NodeID b"
  by (induction b) auto

lemma set_replace_entry:
  "distinct (map de_NodeID b) \<Longrightarrow> list_ex (\<lambda>x. de_NodeID x = de_NodeID e) b \<Longrightarrow>
     set (replace_entry e b) = {x \<in> set b. de_NodeID x \<noteq> de_NodeID e} \<union> {e}"
proof (induction b)
  case (Cons x b)
  show ?case
  proof (cases "de_NodeID x = de_NodeID e")
    case True
    with Cons.prems(1) have "\<forall>y \<in> set b. de_NodeID y \<noteq> de_NodeID e" by simp (metis image_eqI)
    with True show ?thesis by auto
  qed (use Cons in auto)
qed simp

lemma set_drop_entry:
  "distinct (map de_NodeID b) \<Longrightarrow> set (drop_entry i b) = {x \<in> set b. de_NodeID x \<noteq> i}"
proof (induction b)
  case (Cons x b)
  show ?case
  proof (cases "de_NodeID x = i")
    case True
    with Cons.prems have "\<forall>y \<in> set b. de_NodeID y \<noteq> i" by simp (metis image_eqI)
    with True show ?thesis by auto
  qed (use Cons in auto)
qed simp

lemma ids_drop_entry: "distinct (map de_NodeID b) \<Longrightarrow> distinct (map de_NodeID (drop_entry i b)) \<and> length (drop_entry i b) \<le> length b"
  by (induction b) (auto simp: set_drop_entry le_SucI)

lemma routing_iff:
  assumes "length (dht_buckets d) = dhtBuckets"
  shows "e \<in> routing d \<longleftrightarrow> (\<exists>i < dhtBuckets. e \<in> set (dht_buckets d ! i))"
  using assms by (auto simp: routing_def set_conv_nth [of "dht_buckets d"])

text \<open>An entry sits in the bucket of its own distance, so two entries never share a node.\<close>

lemma routing_bucket:
  assumes "dht_ok d" and "e \<in> routing d"
  shows "e \<in> set (dht_buckets d ! bucketIndex (XORDistance (dht_self d) (de_NodeID e))) \<and> id_ok (de_NodeID e)"
  using assms by (auto simp: dht_ok_def routing_iff kbucket_ok_def list_all_iff)

lemma routing_same_bucket:
  assumes "dht_ok d" and "bucketIndex (XORDistance (dht_self d) i) = k" and "k < dhtBuckets"
  shows "{e \<in> set (dht_buckets d ! k). de_NodeID e = i} = {e \<in> routing d. de_NodeID e = i}"
  using assms routing_bucket [OF assms(1)] by (auto simp: routing_iff dht_ok_def)

lemma routing_inj:
  assumes "dht_ok d"
  shows "inj_on de_NodeID (routing d)"
proof (rule inj_onI)
  fix e f
  assume e: "e \<in> routing d" and f: "f \<in> routing d" and eq: "de_NodeID e = de_NodeID f"
  define k where "k = bucketIndex (XORDistance (dht_self d) (de_NodeID e))"
  have "id_ok (de_NodeID e)" "id_ok (dht_self d)" using routing_bucket [OF assms e] assms by (auto simp: dht_ok_def)
  then have "k < dhtBuckets" by (simp add: k_def bucketIndex_bound)
  then have "distinct (map de_NodeID (dht_buckets d ! k))" using assms by (auto simp: dht_ok_def kbucket_ok_def)
  then have inj: "inj_on de_NodeID (set (dht_buckets d ! k))" by (simp add: distinct_map)
  show "e = f"
    by (rule inj_onD [OF inj eq]) (use routing_bucket [OF assms e] routing_bucket [OF assms f] eq in \<open>auto simp: k_def\<close>)
qed

text \<open>Replacing one bucket by a well-formed one keeps the invariant and exchanges its entries.\<close>

lemma dht_ok_update:
  assumes "dht_ok d" and "k < dhtBuckets" and "kbucket_ok (dht_self d) k b"
  shows "dht_ok (d\<lparr>dht_buckets := (dht_buckets d)[k := b]\<rparr>)"
  using assms by (auto simp: dht_ok_def nth_list_update)

lemma routing_update:
  assumes "dht_ok d" and "k < dhtBuckets"
  shows "routing (d\<lparr>dht_buckets := (dht_buckets d)[k := b]\<rparr>) =
    {e \<in> routing d. bucketIndex (XORDistance (dht_self d) (de_NodeID e)) \<noteq> k} \<union> set b"
proof (rule set_eqI)
  fix e
  have len: "length (dht_buckets d) = dhtBuckets" using assms(1) by (simp add: dht_ok_def)
  have place: "i < dhtBuckets \<Longrightarrow> e \<in> set (dht_buckets d ! i) \<Longrightarrow> bucketIndex (XORDistance (dht_self d) (de_NodeID e)) = i" for i
    using assms(1) by (simp add: dht_ok_def kbucket_ok_def list_all_iff)
  have "e \<in> routing (d\<lparr>dht_buckets := (dht_buckets d)[k := b]\<rparr>) \<longleftrightarrow>
      (\<exists>i < dhtBuckets. e \<in> set ((dht_buckets d)[k := b] ! i))"
    using routing_iff [of "d\<lparr>dht_buckets := (dht_buckets d)[k := b]\<rparr>" e] len by simp
  also have "\<dots> \<longleftrightarrow> e \<in> set b \<or> (\<exists>i < dhtBuckets. i \<noteq> k \<and> e \<in> set (dht_buckets d ! i))"
    using assms(2) len by (auto simp: nth_list_update split: if_splits)
  also have "(\<exists>i < dhtBuckets. i \<noteq> k \<and> e \<in> set (dht_buckets d ! i)) \<longleftrightarrow>
      e \<in> routing d \<and> bucketIndex (XORDistance (dht_self d) (de_NodeID e)) \<noteq> k"
    using place routing_iff [OF len, of e] by blast
  finally show "e \<in> routing (d\<lparr>dht_buckets := (dht_buckets d)[k := b]\<rparr>) \<longleftrightarrow>
    e \<in> {e \<in> routing d. bucketIndex (XORDistance (dht_self d) (de_NodeID e)) \<noteq> k} \<union> set b" by auto
qed

lemma home_bucket:
  assumes "dht_ok d" and "id_ok i"
  defines "k \<equiv> bucketIndex (XORDistance (dht_self d) i)"
  shows "k < dhtBuckets" and "kbucket_ok (dht_self d) k (dht_buckets d ! k)"
    and "list_ex (\<lambda>e. de_NodeID e = i) (dht_buckets d ! k) \<longleftrightarrow> i \<in> de_NodeID ` routing d"
proof -
  show k: "k < dhtBuckets" using assms by (simp add: dht_ok_def bucketIndex_bound)
  then show "kbucket_ok (dht_self d) k (dht_buckets d ! k)" using assms by (simp add: dht_ok_def)
  have "{e \<in> set (dht_buckets d ! k). de_NodeID e = i} = {e \<in> routing d. de_NodeID e = i}"
    by (rule routing_same_bucket [OF assms(1) _ k]) (simp add: k_def)
  then have "(\<exists>e \<in> set (dht_buckets d ! k). de_NodeID e = i) \<longleftrightarrow> (\<exists>e \<in> routing d. de_NodeID e = i)" by blast
  then show "list_ex (\<lambda>e. de_NodeID e = i) (dht_buckets d ! k) \<longleftrightarrow> i \<in> de_NodeID ` routing d"
    unfolding list_ex_iff image_iff by metis
qed

lemma AddNode_ok:
  assumes "dht_ok d" and "id_ok (de_NodeID entry)"
  shows "dht_ok (AddNode now entry d)"
proof -
  define k where "k = bucketIndex (XORDistance (dht_self d) (de_NodeID entry))"
  note b = home_bucket [OF assms, folded k_def]
  let ?e = "entry\<lparr>de_LastSeen := now\<rparr>"
  have "kbucket_ok (dht_self d) k (replace_entry ?e (dht_buckets d ! k))"
    if "list_ex (\<lambda>e. de_NodeID e = de_NodeID entry) (dht_buckets d ! k)"
  proof -
    have "length (replace_entry ?e (dht_buckets d ! k)) = length (dht_buckets d ! k)"
      using arg_cong [OF ids_replace_entry [of ?e "dht_buckets d ! k"], of length] by simp
    moreover have "set (replace_entry ?e (dht_buckets d ! k)) \<subseteq> insert ?e (set (dht_buckets d ! k))"
      using b(2) that set_replace_entry [of "dht_buckets d ! k" ?e] by (auto simp: kbucket_ok_def)
    moreover have "id_ok (de_NodeID x) \<and> bucketIndex (XORDistance (dht_self d) (de_NodeID x)) = k"
      if "x \<in> insert ?e (set (dht_buckets d ! k))" for x
      using that b(2) assms(2) unfolding kbucket_ok_def list_all_iff k_def by (elim insertE) simp_all
    ultimately show ?thesis
      using b(2) unfolding kbucket_ok_def list_all_iff ids_replace_entry by (simp add: subset_iff)
  qed
  moreover have "kbucket_ok (dht_self d) k (dht_buckets d ! k @ [?e])"
    if "\<not> list_ex (\<lambda>e. de_NodeID e = de_NodeID entry) (dht_buckets d ! k)" "length (dht_buckets d ! k) < dhtK"
    using b(2) that assms(2) unfolding kbucket_ok_def list_all_iff list_ex_iff
    by (auto simp: k_def [symmetric])
  ultimately show ?thesis
    using assms(1) b(1) by (simp add: AddNode_def Let_def k_def [symmetric] dht_ok_update)
qed

lemma AddNode_routing:
  assumes "dht_ok d" and "id_ok (de_NodeID entry)"
  shows "routing (AddNode now entry d) =
    (if de_NodeID entry \<in> de_NodeID ` routing d \<or>
        length (dht_buckets d ! bucketIndex (XORDistance (dht_self d) (de_NodeID entry))) < dhtK
     then {e \<in> routing d. de_NodeID e \<noteq> de_NodeID entry} \<union> {entry\<lparr>de_LastSeen := now\<rparr>}
     else routing d)"
proof -
  define k where "k = bucketIndex (XORDistance (dht_self d) (de_NodeID entry))"
  note b = home_bucket [OF assms, folded k_def]
  let ?e = "entry\<lparr>de_LastSeen := now\<rparr>" and ?b = "dht_buckets d ! k"
  have others: "{e \<in> routing d. bucketIndex (XORDistance (dht_self d) (de_NodeID e)) \<noteq> k} \<union> {x \<in> set ?b. de_NodeID x \<noteq> de_NodeID entry} =
      {e \<in> routing d. de_NodeID e \<noteq> de_NodeID entry}"
  proof (rule set_eqI)
    fix e
    have "e \<in> set ?b \<Longrightarrow> e \<in> routing d" using b(1) assms(1) by (auto simp: dht_ok_def routing_iff)
    then show "e \<in> {e \<in> routing d. bucketIndex (XORDistance (dht_self d) (de_NodeID e)) \<noteq> k} \<union> {x \<in> set ?b. de_NodeID x \<noteq> de_NodeID entry} \<longleftrightarrow>
        e \<in> {e \<in> routing d. de_NodeID e \<noteq> de_NodeID entry}"
      using routing_bucket [OF assms(1), of e] by (auto simp: k_def)
  qed
  show ?thesis
  proof (cases "list_ex (\<lambda>e. de_NodeID e = de_NodeID entry) ?b")
    case True
    then have "set (replace_entry ?e ?b) = {x \<in> set ?b. de_NodeID x \<noteq> de_NodeID entry} \<union> {?e}"
      using b(2) set_replace_entry [of ?b ?e] by (simp add: kbucket_ok_def)
    with True b(3) show ?thesis
      using routing_update [OF assms(1) b(1), of "replace_entry ?e ?b"] others
      by (simp add: AddNode_def Let_def k_def [symmetric] Un_assoc [symmetric])
  next
    case False
    then have "set ?b = {x \<in> set ?b. de_NodeID x \<noteq> de_NodeID entry}" by (auto simp: list_ex_iff)
    then have "set (?b @ [?e]) = {x \<in> set ?b. de_NodeID x \<noteq> de_NodeID entry} \<union> {?e}" by simp
    with False b(3) show ?thesis
      using routing_update [OF assms(1) b(1), of "?b @ [?e]"] others
      by (auto simp: AddNode_def Let_def k_def [symmetric] Un_assoc [symmetric])
  qed
qed

lemma RemoveNode_ok:
  assumes "dht_ok d" and "id_ok i"
  shows "dht_ok (snd (RemoveNode i d))"
proof -
  define k where "k = bucketIndex (XORDistance (dht_self d) i)"
  note b = home_bucket [OF assms, folded k_def]
  have "kbucket_ok (dht_self d) k (drop_entry i (dht_buckets d ! k))"
    using b(2) ids_drop_entry [of "dht_buckets d ! k" i] by (auto simp: kbucket_ok_def list_all_iff set_drop_entry)
  with assms b(1) show ?thesis by (simp add: RemoveNode_def Let_def k_def [symmetric] dht_ok_update)
qed

lemma RemoveNode_found:
  assumes "dht_ok d" and "id_ok i"
  shows "fst (RemoveNode i d) \<longleftrightarrow> i \<in> de_NodeID ` routing d"
  using home_bucket(3) [OF assms] by (simp add: RemoveNode_def Let_def)

lemma RemoveNode_routing:
  assumes "dht_ok d" and "id_ok i"
  shows "routing (snd (RemoveNode i d)) = {e \<in> routing d. de_NodeID e \<noteq> i}"
proof -
  define k where "k = bucketIndex (XORDistance (dht_self d) i)"
  note b = home_bucket [OF assms, folded k_def]
  have set_b: "set (drop_entry i (dht_buckets d ! k)) = {x \<in> set (dht_buckets d ! k). de_NodeID x \<noteq> i}"
    using b(2) by (simp add: kbucket_ok_def set_drop_entry)
  have here: "e \<in> routing d \<Longrightarrow> bucketIndex (XORDistance (dht_self d) (de_NodeID e)) = k \<Longrightarrow> e \<in> set (dht_buckets d ! k)" for e
    using routing_bucket [OF assms(1), of e] by simp
  have "e \<in> set (dht_buckets d ! k) \<Longrightarrow> e \<in> routing d" for e using b(1) assms(1) by (auto simp: dht_ok_def routing_iff)
  moreover have "bucketIndex (XORDistance (dht_self d) i) = k" by (simp add: k_def)
  ultimately have "routing (d\<lparr>dht_buckets := (dht_buckets d)[k := drop_entry i (dht_buckets d ! k)]\<rparr>) = {e \<in> routing d. de_NodeID e \<noteq> i}"
    unfolding routing_update [OF assms(1) b(1)] set_b using here by auto
  moreover have "\<not> list_ex (\<lambda>e. de_NodeID e = i) (dht_buckets d ! k) \<Longrightarrow> {e \<in> routing d. de_NodeID e \<noteq> i} = routing d"
    unfolding b(3) by auto
  ultimately show ?thesis by (simp add: RemoveNode_def Let_def k_def [symmetric])
qed

text \<open>The operations that change the table, and runs of them.\<close>

datatype dht_op =
    DAdd int DHTEntry
  | DRemove DHTNodeID
  | DPut int string "byte list" DHTNodeID
  | DExpire int

fun dht_exec :: "dht_op \<Rightarrow> DHT \<Rightarrow> DHT" where
  "dht_exec (DAdd now e) d = AddNode now e d"
| "dht_exec (DRemove i) d = snd (RemoveNode i d)"
| "dht_exec (DPut now k v p) d = dht_Put now k v p d"
| "dht_exec (DExpire now) d = snd (ExpireRecords now d)"

fun dht_op_ok :: "dht_op \<Rightarrow> bool" where
  "dht_op_ok (DAdd now e) = id_ok (de_NodeID e)"
| "dht_op_ok (DRemove i) = id_ok i"
| "dht_op_ok _ = True"

definition dht_run :: "dht_op list \<Rightarrow> DHT \<Rightarrow> DHT" where
  "dht_run ops d = fold dht_exec ops d"

lemma dht_ok_new: "id_ok (sum256 s) \<Longrightarrow> dht_ok (NewDHT sum256 s)"
  by (simp add: dht_ok_def NewDHT_def kbucket_ok_def)

lemma dht_ok_exec:
  assumes "dht_ok d" and "dht_op_ok op"
  shows "dht_ok (dht_exec op d)"
proof (cases op)
  case (DPut now k v p)
  with assms show ?thesis by (simp add: dht_Put_def dht_ok_def)
next
  case (DExpire now)
  with assms show ?thesis by (simp add: ExpireRecords_def dht_ok_def)
qed (use assms AddNode_ok RemoveNode_ok in simp_all)

lemma dht_run_ok: "dht_ok d \<Longrightarrow> list_all dht_op_ok ops \<Longrightarrow> dht_ok (dht_run ops d)"
  unfolding dht_run_def by (induction ops arbitrary: d) (auto simp: dht_ok_exec)

lemma TotalNodes_length: "TotalNodes d = length (concat (dht_buckets d))"
proof -
  have "foldl (\<lambda>n b. n + length b) k bs = k + length (concat bs)" for k and bs :: "DHTEntry list list"
    by (induction bs arbitrary: k) auto
  then show ?thesis by (simp add: TotalNodes_def)
qed

lemma distinct_concat_keyed:
  "(\<And>i. i < length bs \<Longrightarrow> distinct (bs ! i) \<and> (\<forall>x \<in> set (bs ! i). f x = k + i)) \<Longrightarrow> distinct (concat bs)"
proof (induction bs arbitrary: k)
  case (Cons b bs)
  have rest: "distinct (bs ! i) \<and> (\<forall>x \<in> set (bs ! i). f x = Suc k + i)" if "i < length bs" for i
    using Cons.prems [of "Suc i"] that by simp
  have "f x \<noteq> k" if x: "x \<in> set (concat bs)" for x
  proof -
    from x obtain i where "i < length bs" "x \<in> set (bs ! i)" by (auto simp: set_conv_nth [of bs])
    with rest [of i] show ?thesis by simp
  qed
  moreover have "distinct b" "\<forall>x \<in> set b. f x = k" using Cons.prems [of 0] by simp_all
  ultimately show ?case using Cons.IH [of "Suc k", OF rest] by auto
qed simp

lemma distinct_table:
  assumes "dht_ok d"
  shows "distinct (map de_NodeID (concat (dht_buckets d)))"
proof -
  have "distinct (dht_buckets d ! i) \<and> (\<forall>x \<in> set (dht_buckets d ! i). bucketIndex (XORDistance (dht_self d) (de_NodeID x)) = 0 + i)"
    if "i < length (dht_buckets d)" for i
    using assms that by (auto simp: dht_ok_def kbucket_ok_def list_all_iff distinct_map)
  then have "distinct (concat (dht_buckets d))" by (rule distinct_concat_keyed)
  with routing_inj [OF assms] show ?thesis by (simp add: distinct_map routing_def)
qed

lemma TotalNodes_card: "dht_ok d \<Longrightarrow> TotalNodes d = card (routing d)"
  using distinct_table [of d] distinct_card [of "concat (dht_buckets d)"]
  by (simp add: TotalNodes_length routing_def distinct_map del: set_concat)

text \<open>
  (C25) Routing table. Starting from an empty table, any sequence of additions, removals, stores and
  expiries with 32-byte identifiers keeps 256 buckets of at most 20 entries, every entry in the bucket
  of its distance, no node twice; the reported number of nodes is the number of entries.
\<close>

theorem routing_table_invariant:
  assumes "id_ok (sum256 selfID)" and "list_all dht_op_ok ops"
  shows "dht_ok (dht_run ops (NewDHT sum256 selfID)) \<and>
    inj_on de_NodeID (routing (dht_run ops (NewDHT sum256 selfID))) \<and>
    TotalNodes (dht_run ops (NewDHT sum256 selfID)) = card (routing (dht_run ops (NewDHT sum256 selfID)))"
proof -
  have "dht_ok (dht_run ops (NewDHT sum256 selfID))"
    by (intro dht_run_ok dht_ok_new assms)
  then show ?thesis by (simp add: routing_inj TotalNodes_card)
qed

definition sample_id :: "byte \<Rightarrow> DHTNodeID" where
  "sample_id b = replicate 31 0 @ [b]"

lemma id_ok_sample [simp]: "id_ok (sample_id b)"
  by (simp add: id_ok_def sample_id_def)

definition sample_entry :: "byte \<Rightarrow> DHTEntry" where
  "sample_entry b = \<lparr>de_NodeID = sample_id b, de_Addresses = [''10.0.0.1''], de_LastSeen = 0\<rparr>"

theorem routing_table_invariant_witness:
  "dht_ok (dht_run [DAdd 5 (sample_entry 3), DAdd 6 (sample_entry 9), DRemove (sample_id 3)] (NewDHT (\<lambda>s. sample_id 0) ''n''))"
  using routing_table_invariant [of "\<lambda>s. sample_id 0" "''n''"
      "[DAdd 5 (sample_entry 3), DAdd 6 (sample_entry 9), DRemove (sample_id 3)]"]
  by (simp add: sample_entry_def)

text \<open>
  Updates of the routing table. On a well-formed table, adding a node that is known or whose bucket has
  room makes its entry, stamped with the current time, the only one of that node and leaves the others
  alone; a new node whose bucket is full is ignored; removing a node answers whether it was known and
  drops exactly its entry.
\<close>

theorem routing_table_updates:
  assumes "dht_ok d" and "id_ok (de_NodeID entry)"
  shows "routing (AddNode now entry d) =
      (if de_NodeID entry \<in> de_NodeID ` routing d \<or>
          length (dht_buckets d ! bucketIndex (XORDistance (dht_self d) (de_NodeID entry))) < dhtK
       then {e \<in> routing d. de_NodeID e \<noteq> de_NodeID entry} \<union> {entry\<lparr>de_LastSeen := now\<rparr>}
       else routing d) \<and>
    (fst (RemoveNode (de_NodeID entry) d) \<longleftrightarrow> de_NodeID entry \<in> de_NodeID ` routing d) \<and>
    routing (snd (RemoveNode (de_NodeID entry) d)) = {e \<in> routing d. de_NodeID e \<noteq> de_NodeID entry}"
  by (intro conjI AddNode_routing RemoveNode_found RemoveNode_routing assms)

lemma routing_new [simp]: "routing (NewDHT sum256 s) = {}"
  by (auto simp: routing_def NewDHT_def)

theorem routing_table_updates_witness:
  "routing (AddNode 7 (sample_entry 3) (NewDHT (\<lambda>s. sample_id 0) ''n'')) = {(sample_entry 3)\<lparr>de_LastSeen := 7\<rparr>}"
proof -
  let ?d = "NewDHT (\<lambda>s. sample_id 0) ''n''" and ?i = "sample_id 3"
  have "bucketIndex (XORDistance (dht_self ?d) ?i) < dhtBuckets" by (simp add: NewDHT_def bucketIndex_bound)
  then have "length (dht_buckets ?d ! bucketIndex (XORDistance (dht_self ?d) ?i)) < dhtK" by (simp add: NewDHT_def dhtK_def)
  then show ?thesis
    using routing_table_updates [of ?d "sample_entry 3" 7] dht_ok_new [of "\<lambda>s. sample_id 0" "''n''"]
    by (simp add: sample_entry_def)
qed

section \<open>Queries\<close>

lemma FindClosest_sort:
  assumes "dht_ok d" and "id_ok target"
  shows "FindClosest target count d =
    (if count < 0 then None
     else Some (take (nat count) (sort_key (\<lambda>e. id_value (XORDistance target (de_NodeID e))) (concat (dht_buckets d)))))"
proof -
  let ?all = "concat (dht_buckets d)"
  have "id_ok (de_NodeID e)" if "e \<in> set ?all" for e
    using routing_bucket [OF assms(1), of e] that unfolding routing_def by simp
  then have "stable_sort_by (\<lambda>a b. dist_less (XORDistance target (de_NodeID a)) (XORDistance target (de_NodeID b))) ?all =
      sort_key (\<lambda>e. id_value (XORDistance target (de_NodeID e))) ?all"
    using assms(2) by (intro stable_sort_by_key id_value_less) (simp del: set_concat add: id_ok_def)
  then show ?thesis
    by (auto simp: FindClosest_def Let_def min_def nat_le_iff intro!: take_all)
qed

text \<open>
  (C36) Lookup. For a count that is not negative, \<open>FindClosest\<close> returns that many entries of the table
  (all of them when there are fewer), without repetition, in strictly increasing XOR distance to the
  target, and every entry left out is further away than every entry returned. A negative count panics.
\<close>

theorem find_closest:
  assumes "dht_ok d" and "id_ok target"
  shows "(count < 0 \<longrightarrow> FindClosest target count d = None) \<and>
    (0 \<le> count \<longrightarrow> (\<exists>es. FindClosest target count d = Some es \<and>
      length es = min (nat count) (TotalNodes d) \<and> set es \<subseteq> routing d \<and>
      sorted_wrt (\<lambda>a b. id_value (XORDistance target (de_NodeID a)) < id_value (XORDistance target (de_NodeID b))) es \<and>
      (\<forall>x \<in> set es. \<forall>y \<in> routing d - set es.
         id_value (XORDistance target (de_NodeID x)) < id_value (XORDistance target (de_NodeID y)))))"
proof (intro conjI impI)
  let ?f = "\<lambda>e. id_value (XORDistance target (de_NodeID e))"
  let ?es = "take (nat count) (sort_key ?f (concat (dht_buckets d)))"
  show "FindClosest target count d = None" if "count < 0" using that FindClosest_sort [OF assms] by simp
  assume "0 \<le> count"
  then have r: "FindClosest target count d = Some ?es" using FindClosest_sort [OF assms] by simp
  have sub: "set ?es \<subseteq> routing d" using set_take_subset by (fastforce simp: routing_def simp del: set_concat)
  have len: "length ?es = min (nat count) (TotalNodes d)" by (simp add: TotalNodes_length min.commute del: length_concat)
  have same: "?f x = ?f y \<Longrightarrow> x = y" if "x \<in> routing d" "y \<in> routing d" for x y
  proof -
    have "length (de_NodeID x) = 32" "length (de_NodeID y) = 32" "length target = 32"
      using that routing_bucket [OF assms(1)] assms(2) by (auto simp: id_ok_def)
    then show "?f x = ?f y \<Longrightarrow> x = y"
      using inj_onD [OF routing_inj [OF assms(1)]] that by (simp add: id_value_inject XORDistance_inject)
  qed
  have "inj_on ?f (routing d)" using same by (intro inj_onI) blast
  moreover have "distinct (concat (dht_buckets d))" using distinct_table [OF assms(1)] by (simp add: distinct_map)
  ultimately have "distinct (map ?f (sort_key ?f (concat (dht_buckets d))))"
    by (simp add: distinct_map routing_def)
  then have "sorted_wrt (<) (map ?f (sort_key ?f (concat (dht_buckets d))))"
    by (simp add: strict_sorted_iff)
  then have srt: "sorted_wrt (\<lambda>a b. ?f a < ?f b) ?es" by (simp add: sorted_wrt_map sorted_wrt_take)
  have far: "?f x < ?f y" if x: "x \<in> set ?es" and y: "y \<in> routing d - set ?es" for x y
  proof -
    have "?f x \<le> ?f y" using x y by (intro sort_key_take_le [where n = "nat count" and xs = "concat (dht_buckets d)"]) (auto simp: routing_def)
    moreover have "?f x \<noteq> ?f y" using same [of x y] x y sub by blast
    ultimately show ?thesis by simp
  qed
  show "\<exists>es. FindClosest target count d = Some es \<and>
      length es = min (nat count) (TotalNodes d) \<and> set es \<subseteq> routing d \<and> sorted_wrt (\<lambda>a b. ?f a < ?f b) es \<and>
      (\<forall>x \<in> set es. \<forall>y \<in> routing d - set es. ?f x < ?f y)"
    using r len sub srt far by blast
qed

theorem find_closest_witness:
  "\<exists>es. FindClosest (sample_id 1) 2 (dht_run [DAdd 5 (sample_entry 3)] (NewDHT (\<lambda>s. sample_id 0) ''n'')) = Some es \<and> length es \<le> 2"
proof -
  let ?d = "dht_run [DAdd 5 (sample_entry 3)] (NewDHT (\<lambda>s. sample_id 0) ''n'')"
  have "dht_ok ?d" by (intro dht_run_ok dht_ok_new) (simp_all add: sample_entry_def)
  then have "\<exists>es. FindClosest (sample_id 1) 2 ?d = Some es \<and> length es = min (nat 2) (TotalNodes ?d)"
    using find_closest [of ?d "sample_id 1" 2] by auto
  then show ?thesis by auto
qed

lemma stale_entries:
  "set (StaleEntries now maxAge d) = {e \<in> routing d. de_LastSeen e < now - maxAge} \<and>
   sorted (map de_LastSeen (StaleEntries now maxAge d))"
proof -
  have "StaleEntries now maxAge d = sort_key de_LastSeen (filter (\<lambda>e. de_LastSeen e < now - maxAge) (concat (dht_buckets d)))"
    unfolding StaleEntries_def by (rule stable_sort_by_key) simp
  then show ?thesis by (auto simp: routing_def)
qed

section \<open>Records are kept for 48 hours\<close>

definition keeps_key :: "string \<Rightarrow> int \<Rightarrow> dht_op \<Rightarrow> bool" where
  "keeps_key key limit op \<longleftrightarrow> (case op of DPut _ k _ _ \<Rightarrow> k \<noteq> key | DExpire now \<Rightarrow> now \<le> limit | _ \<Rightarrow> True)"

lemma AddNode_records [simp]: "dht_records (AddNode now e d) = dht_records d"
  by (simp add: AddNode_def Let_def)

lemma RemoveNode_records [simp]: "dht_records (snd (RemoveNode i d)) = dht_records d"
  by (simp add: RemoveNode_def Let_def)

lemma dht_exec_keeps:
  assumes "gmap_ok (dht_records d)" and "gget (dht_records d) key = Some r" and "keeps_key key (dr_ExpiresAt r) op"
  shows "gmap_ok (dht_records (dht_exec op d)) \<and> gget (dht_records (dht_exec op d)) key = Some r"
  using assms by (cases op) (simp_all add: keeps_key_def dht_Put_def ExpireRecords_def gget_gfilter)

lemma dht_run_keeps:
  "gmap_ok (dht_records d) \<Longrightarrow> gget (dht_records d) key = Some r \<Longrightarrow> list_all (keeps_key key (dr_ExpiresAt r)) ops \<Longrightarrow>
     gget (dht_records (dht_run ops d)) key = Some r"
  unfolding dht_run_def by (induction ops arbitrary: d) (simp_all add: dht_exec_keeps)

text \<open>
  Records. A value stored under a key is read back until 48 hours after it was stored and not later,
  whatever happens to the nodes and to other keys meanwhile and however often expired records are
  removed; removing expired records at some time changes no read from that time on.
\<close>

theorem record_lifetime:
  assumes "dht_ok d" and "list_all (keeps_key key (now + dhtRecordTTL)) ops"
  shows "map_option dr_Value (dht_Get t key (dht_run ops (dht_Put now key v p d))) =
      (if t \<le> now + dhtRecordTTL then Some v else None) \<and>
    (t' \<le> t \<longrightarrow> dht_Get t k (snd (ExpireRecords t' d)) = dht_Get t k d)"
proof (intro conjI impI)
  have "gget (dht_records (dht_run ops (dht_Put now key v p d))) key =
      Some \<lparr>dr_Key = key, dr_Value = v, dr_Publisher = p, dr_ExpiresAt = now + dhtRecordTTL\<rparr>"
    using assms by (intro dht_run_keeps) (simp_all add: dht_Put_def dht_ok_def)
  then show "map_option dr_Value (dht_Get t key (dht_run ops (dht_Put now key v p d))) =
      (if t \<le> now + dhtRecordTTL then Some v else None)"
    by (simp add: dht_Get_def)
  assume "t' \<le> t"
  then show "dht_Get t k (snd (ExpireRecords t' d)) = dht_Get t k d"
    using assms(1) by (simp add: dht_Get_def ExpireRecords_def gget_gfilter dht_ok_def split: option.splits)
qed

theorem record_lifetime_witness:
  "map_option dr_Value (dht_Get 100 ''k'' (dht_run [DPut 2 ''other'' [8] (sample_id 2), DExpire 50]
     (dht_Put 1 ''k'' [7] (sample_id 1) (NewDHT (\<lambda>s. sample_id 0) ''n'')))) = Some [7]"
  using record_lifetime [of "NewDHT (\<lambda>s. sample_id 0) ''n''" "''k''" 1
      "[DPut 2 ''other'' [8] (sample_id 2), DExpire 50]" 100 "[7]" "sample_id 1"]
    dht_ok_new [of "\<lambda>s. sample_id 0" "''n''"]
  by (simp add: keeps_key_def dhtRecordTTL_def)

section \<open>Identifiers survive printing\<close>

text \<open>
  Identifiers as text. The printed identifier of a node is parsed back to the same identifier, and
  whatever is parsed successfully is an identifier of 32 bytes written in 64 digits.
\<close>

theorem dht_id_roundtrip:
  "(id_ok (dht_self d) \<longrightarrow> StringToDHTID (SelfID d) = Inr (dht_self d)) \<and>
   (\<forall>i. StringToDHTID s = Inr i \<longrightarrow> id_ok i \<and> length s = 64)"
  by (auto simp: StringToDHTID_def SelfID_def hexDecode_hexEncode id_ok_def dest!: hexDecode_length split: option.splits if_splits)

theorem dht_id_roundtrip_witness:
  "StringToDHTID (SelfID (NewDHT (\<lambda>s. sample_id 171) ''n'')) = Inr (sample_id 171)"
  using dht_id_roundtrip [of "NewDHT (\<lambda>s. sample_id 171) ''n''"] by (simp add: NewDHT_def)

end
