(* ===== verification/Field_Encryption.thy ===== *)
theory Field_Encryption
  imports Omp_Prelude "HOL-Library.Sublist"
begin

text \<open>
  Encryption of single fields at rest: \<open>src/encryptor.go\<close>, from \<open>Encrypt\<close> to \<open>decryptAPIKey\<close>.

  Strings are lists of bytes. Base64 is modelled in full; AES-GCM is the argument \<open>aead\<close>, a pair of a
  sealing and an opening function, of which the theorems assume that opening undoes sealing under the
  same key and nonce. The nonce drawn from the system's random source is an argument of the operations
  that draw one, \<open>None\<close> when the draw fails. Where the key comes from (\<open>NewEncryptor\<close>: environment,
  keyring, file) is not modelled.
\<close>

section \<open>Base64\<close>

definition b64_alphabet :: string where
  "b64_alphabet = ''ABCDEFGHIJKLMNOPQRSTUVWXYZabcdefghijklmnopqrstuvwxyz0123456789+/''"

definition b64_char :: "nat \<Rightarrow> char" where
  "b64_char n = b64_alphabet ! n"

fun index_of :: "'a \<Rightarrow> 'a list \<Rightarrow> nat option" where
  "index_of x [] = None"
| "index_of x (y # ys) = (if x = y then Some 0 else map_option Suc (index_of x ys))"

definition b64_value :: "char \<Rightarrow> nat option" where
  "b64_value c = index_of c b64_alphabet"

abbreviation byte_of :: "char \<Rightarrow> nat" where
  "byte_of c \<equiv> of_char c"

fun b64_encode :: "string \<Rightarrow> string" where
  "b64_encode [] = []"
| "b64_encode [a] =
     [b64_char (byte_of a div 4), b64_char (byte_of a mod 4 * 16), CHR ''='', CHR ''='']"
| "b64_encode [a, b] =
     [b64_char (byte_of a div 4), b64_char (byte_of a mod 4 * 16 + byte_of b div 16),
      b64_char (byte_of b mod 16 * 4), CHR ''='']"
| "b64_encode (a # b # c # s) =
     b64_char (byte_of a div 4) # b64_char (byte_of a mod 4 * 16 + byte_of b div 16) #
     b64_char (byte_of b mod 16 * 4 + byte_of c div 64) # b64_char (byte_of c mod 64) # b64_encode s"

text \<open>Line breaks are skipped; padding is only allowed in the last group.\<close>

fun b64_groups :: "string \<Rightarrow> string option" where
  "b64_groups [] = Some []"
| "b64_groups (p # q # r # t # s) =
     (if r = CHR ''='' \<and> t = CHR ''='' \<and> s = [] then
        (case (b64_value p, b64_value q) of
           (Some x, Some y) \<Rightarrow> Some [char_of (x * 4 + y div 16)]
         | _ \<Rightarrow> None)
      else if t = CHR ''='' \<and> s = [] then
        (case (b64_value p, b64_value q, b64_value r) of
           (Some x, Some y, Some z) \<Rightarrow> Some [char_of (x * 4 + y div 16), char_of (y mod 16 * 16 + z div 4)]
         | _ \<Rightarrow> None)
      else
        (case (b64_value p, b64_value q, b64_value r, b64_value t, b64_groups s) of
           (Some x, Some y, Some z, Some w, Some rest) \<Rightarrow>
             Some (char_of (x * 4 + y div 16) # char_of (y mod 16 * 16 + z div 4) # char_of (z mod 4 * 64 + w) # rest)
         | _ \<Rightarrow> None))"
| "b64_groups _ = None"

definition b64_decode :: "string \<Rightarrow> string option" where
  "b64_decode s = b64_groups (filter (\<lambda>c. c \<noteq> char_of (10 :: nat) \<and> c \<noteq> char_of (13 :: nat)) s)"

lemma b64_table:
  "list_all (\<lambda>n. b64_value (b64_char n) = Some n \<and> b64_char n \<noteq> CHR ''='' \<and>
     b64_char n \<noteq> char_of (10 :: nat) \<and> b64_char n \<noteq> char_of (13 :: nat)) [0..<64]"
  by code_simp

lemma b64_char_facts:
  assumes "n < 64"
  shows "b64_value (b64_char n) = Some n" and "b64_char n \<noteq> CHR ''=''"
    and "b64_char n \<noteq> char_of (10 :: nat)" and "b64_char n \<noteq> char_of (13 :: nat)"
  using b64_table assms by (simp_all add: list_all_iff)

lemma byte_parts:
  "byte_of c div 4 < 64" "byte_of c mod 4 * 16 < 64" "byte_of c mod 4 * 16 + byte_of b div 16 < 64"
  "byte_of b mod 16 * 4 < 64" "byte_of b mod 16 * 4 + byte_of d div 64 < 64" "byte_of d mod 64 < 64"
proof -
  have b: "byte_of c < 256" "byte_of b < 256" "byte_of d < 256" by (rule nat_of_char_less_256)+
  then have q: "byte_of c div 4 < 64" "byte_of b div 16 < 16" "byte_of d div 64 < 4"
    by (simp_all add: less_mult_imp_div_less)
  have m: "byte_of c mod 4 < 4" "byte_of b mod 16 < 16" "byte_of d mod 64 < 64" by simp_all
  show "byte_of c div 4 < 64" "byte_of c mod 4 * 16 < 64" "byte_of c mod 4 * 16 + byte_of b div 16 < 64"
    "byte_of b mod 16 * 4 < 64" "byte_of b mod 16 * 4 + byte_of d div 64 < 64" "byte_of d mod 64 < 64"
    using q m by linarith+
qed

lemma byte_high:
  "byte_of b div 16 div 16 = 0" "byte_of b div 16 mod 16 = byte_of b div 16"
  "byte_of b div 64 div 4 = 0" "byte_of b div 64 mod 4 = byte_of b div 64"
proof -
  have "byte_of b div 16 < 16" "byte_of b div 64 < 4"
    using nat_of_char_less_256 [of b] by (simp_all add: less_mult_imp_div_less)
  then show "byte_of b div 16 div 16 = 0" "byte_of b div 16 mod 16 = byte_of b div 16"
    "byte_of b div 64 div 4 = 0" "byte_of b div 64 mod 4 = byte_of b div 64" by simp_all
qed

lemma b64_groups_encode: "b64_groups (b64_encode s) = Some s"
proof (induction s rule: b64_encode.induct)
  case (4 a b c s)
  then show ?case by (simp add: b64_char_facts byte_parts byte_high)
qed (simp_all add: b64_char_facts byte_parts byte_high)

lemma b64_encode_chars: "c \<in> set (b64_encode s) \<Longrightarrow> c = CHR ''='' \<or> (\<exists>n < 64. c = b64_char n)"
  by (induction s rule: b64_encode.induct) (auto intro: byte_parts)

lemma b64_decode_encode: "b64_decode (b64_encode s) = Some s"
proof -
  have "c \<noteq> char_of (10 :: nat) \<and> c \<noteq> char_of (13 :: nat)" if "c \<in> set (b64_encode s)" for c
    using b64_encode_chars [OF that]
  proof
    assume "c = CHR ''=''"
    then show ?thesis by (simp add: char_of_def)
  qed (use b64_char_facts(3,4) in auto)
  then have "filter (\<lambda>c. c \<noteq> char_of (10 :: nat) \<and> c \<noteq> char_of (13 :: nat)) (b64_encode s) = b64_encode s"
    by (simp add: filter_id_conv)
  then show ?thesis by (simp add: b64_decode_def b64_groups_encode)
qed

section \<open>The encryptor\<close>

text \<open>\<open>aead key nonce\<close> is the pair of the sealing and the opening function; a nonce has 12 bytes.\<close>

type_synonym aead = "string \<Rightarrow> string \<Rightarrow> (string \<Rightarrow> string) \<times> (string \<Rightarrow> string option)"

record Encryptor =
  en_key :: string
  en_ready :: bool
  en_ephemeral :: bool

definition encPrefix :: string where
  "encPrefix = ''omp:e:''"

definition nonceSize :: nat where
  "nonceSize = 12"

text \<open>\<open>aes.NewCipher\<close> accepts keys of 16, 24 and 32 bytes.\<close>

definition cipher_key_ok :: "string \<Rightarrow> bool" where
  "cipher_key_ok k \<longleftrightarrow> length k = 16 \<or> length k = 24 \<or> length k = 32"

definition Encrypt :: "aead \<Rightarrow> string option \<Rightarrow> Encryptor \<Rightarrow> string \<Rightarrow> string option" where
  "Encrypt gcm rnd e plaintext =
     (if \<not> cipher_key_ok (en_key e) then None
      else case rnd of
        None \<Rightarrow> None
      | Some nonce \<Rightarrow> Some (encPrefix @ b64_encode (nonce @ fst (gcm (en_key e) nonce) plaintext)))"

definition Decrypt :: "aead \<Rightarrow> Encryptor \<Rightarrow> string \<Rightarrow> string option" where
  "Decrypt gcm e ciphertext =
     (if \<not> prefix encPrefix ciphertext then Some ciphertext
      else case b64_decode (drop (length encPrefix) ciphertext) of
        None \<Rightarrow> None
      | Some raw \<Rightarrow>
          if \<not> cipher_key_ok (en_key e) then None
          else if length raw < nonceSize then None
          else snd (gcm (en_key e) (take nonceSize raw)) (drop nonceSize raw))"

definition IsEncrypted :: "string \<Rightarrow> bool" where
  "IsEncrypted s = prefix encPrefix s"

definition encryptField :: "aead \<Rightarrow> string option \<Rightarrow> Encryptor option \<Rightarrow> string \<Rightarrow> string" where
  "encryptField gcm rnd enc s =
     (case enc of
        None \<Rightarrow> s
      | Some e \<Rightarrow>
          if s = [] then s
          else if en_ephemeral e then s
          else case Encrypt gcm rnd e s of None \<Rightarrow> s | Some c \<Rightarrow> c)"

definition decryptFieldWith :: "aead \<Rightarrow> Encryptor option \<Rightarrow> string \<Rightarrow> string" where
  "decryptFieldWith gcm enc s =
     (case enc of
        None \<Rightarrow> s
      | Some e \<Rightarrow>
          if s = [] then s
          else if \<not> IsEncrypted s then s
          else case Decrypt gcm e s of None \<Rightarrow> s | Some d \<Rightarrow> d)"

definition decryptFieldDisplay :: "aead \<Rightarrow> Encryptor option \<Rightarrow> string \<Rightarrow> string" where
  "decryptFieldDisplay gcm enc s =
     (case enc of
        None \<Rightarrow> s
      | Some e \<Rightarrow>
          if s = [] then s
          else if \<not> IsEncrypted s then s
          else case Decrypt gcm e s of None \<Rightarrow> ''DECRYPT_FAILED:'' @ s | Some d \<Rightarrow> d)"

definition decryptAPIKey :: "aead \<Rightarrow> Encryptor option \<Rightarrow> string \<Rightarrow> string option" where
  "decryptAPIKey gcm enc s = (case enc of None \<Rightarrow> Some s | Some e \<Rightarrow> Decrypt gcm e s)"

text \<open>What AES-GCM promises: opening what was sealed under the same key and nonce gives it back.\<close>

definition opens_sealed :: "aead \<Rightarrow> bool" where
  "opens_sealed gcm \<longleftrightarrow> (\<forall>k n p. snd (gcm k n) (fst (gcm k n) p) = Some p)"

definition nonce_ok :: "string option \<Rightarrow> bool" where
  "nonce_ok rnd = (case rnd of Some n \<Rightarrow> length n = nonceSize | None \<Rightarrow> True)"

lemma Decrypt_Encrypt:
  assumes "opens_sealed gcm" and "nonce_ok rnd" and "Encrypt gcm rnd e p = Some c"
  shows "Decrypt gcm e c = Some p \<and> IsEncrypted c"
proof -
  obtain n where n: "rnd = Some n" "length n = nonceSize" and k: "cipher_key_ok (en_key e)"
    and c: "c = encPrefix @ b64_encode (n @ fst (gcm (en_key e) n) p)"
    using assms(2,3) by (auto simp: Encrypt_def nonce_ok_def split: if_splits option.splits)
  have "b64_decode (drop (length encPrefix) c) = Some (n @ fst (gcm (en_key e) n) p)"
    by (simp add: c b64_decode_encode)
  with n k assms(1) show ?thesis
    by (simp add: Decrypt_def IsEncrypted_def c opens_sealed_def)
qed

lemma decrypt_encryptField:
  assumes "opens_sealed gcm" and "nonce_ok rnd" and "\<not> IsEncrypted s"
  shows "decryptFieldWith gcm enc (encryptField gcm rnd enc s) = s"
proof (cases enc)
  case (Some e)
  show ?thesis
  proof (cases "Encrypt gcm rnd e s")
    case None
    with Some assms(3) show ?thesis by (simp add: encryptField_def decryptFieldWith_def)
  next
    case (Some c)
    from Decrypt_Encrypt [OF assms(1,2) this] have "Decrypt gcm e c = Some s" "IsEncrypted c" by auto
    moreover from this(2) have "c \<noteq> []" by (auto simp: IsEncrypted_def encPrefix_def)
    ultimately show ?thesis using \<open>enc = Some e\<close> Some assms(3) by (simp add: encryptField_def decryptFieldWith_def)
  qed
qed (simp add: encryptField_def decryptFieldWith_def)

end
