(* ===== verification/Provider_Model.thy ===== *)
theory Provider_Model
  imports Calendar Storage_Model Field_Encryption
begin

text \<open>
  Providers, their API keys and the manager that stores them: the first and the last part of
  \<open>src/provider.go\<close>, with the types and \<open>Safe\<close> of \<open>src/types.go\<close>.

  Times are nanoseconds of the local clock; dates and months of the daily and monthly counters are
  represented by their numbers, \<open>None\<close> being the empty string. The settings of browser sessions
  (\<open>WebSession\<close>, \<open>ModelBotMap\<close>), which these operations only copy, are left out of the record. The
  preset catalogue is the argument \<open>presets\<close>. Random draws are arguments: \<open>newID\<close> gives the identifier drawn
  for a migrated key, \<open>nonces id i\<close> the nonce drawn for the \<open>i\<close>-th field of provider \<open>id\<close>. Copies of a
  provider share the slice of its keys with the manager in the source; the model has values only.
\<close>

section \<open>Types\<close>

record ModelDef =
  md_ID :: string
  md_Name :: string
  md_Tier :: string
  md_Enabled :: bool
  md_EnabledByKeys :: "(string, bool) gomap"
  md_AvailableKeys :: "string list"
  md_Source :: string

record APIKeyConfig =
  ak_ID :: string
  ak_Alias :: string
  ak_Key :: string
  ak_Quota :: int
  ak_QuotaDaily :: int
  ak_QuotaMonthly :: int
  ak_Used :: int
  ak_UsedDaily :: int
  ak_UsedMonthly :: int
  ak_LastDailyReset :: "int option"
  ak_LastMonthlyReset :: "int option"
  ak_AccessControl :: string
  ak_Enabled :: bool
  ak_Priority :: int
  ak_ExpiresAt :: stamp
  ak_CreatedAt :: stamp
  ak_UpdatedAt :: stamp

record ProviderAccessControl =
  ac_ShareToPool :: bool
  ac_GuestPoolPercent :: int
  ac_MigrationAllowPublic :: "bool option"

record Provider =
  pr_ID :: string
  pr_Name :: string
  pr_Type :: string
  pr_BaseURL :: string
  pr_APIKey :: string
  pr_Enabled :: bool
  pr_Models :: "ModelDef list"
  pr_Priority :: int
  pr_TokenLimit :: int
  pr_RateLimitEnabled :: bool
  pr_DailyRequestLimit :: int
  pr_RateLimitPerMin :: int
  pr_PrivateTokensDaily :: int
  pr_PrivateQuotaMonthly :: int
  pr_PrivateQuotaTotal :: int
  pr_SharedTokensDaily :: int
  pr_SharedQuotaMonthly :: int
  pr_SharedQuotaTotal :: int
  pr_Description :: string
  pr_Icon :: string
  pr_APIKeyURL :: string
  pr_Proxy :: string
  pr_HealthCheckEndpoint :: string
  pr_Owner :: string
  pr_AccessControl :: ProviderAccessControl
  pr_APIKeys :: "APIKeyConfig list"
  pr_KeyOptional :: bool
  pr_CreatedAt :: stamp
  pr_UpdatedAt :: stamp

definition no_access_control :: ProviderAccessControl where
  "no_access_control = \<lparr>ac_ShareToPool = False, ac_GuestPoolPercent = 0, ac_MigrationAllowPublic = None\<rparr>"

text \<open>The provider with every field at its zero value.\<close>

definition zero_provider :: Provider where
  "zero_provider = \<lparr>pr_ID = [], pr_Name = [], pr_Type = [], pr_BaseURL = [], pr_APIKey = [], pr_Enabled = False,
     pr_Models = [], pr_Priority = 0, pr_TokenLimit = 0, pr_RateLimitEnabled = False, pr_DailyRequestLimit = 0,
     pr_RateLimitPerMin = 0, pr_PrivateTokensDaily = 0, pr_PrivateQuotaMonthly = 0, pr_PrivateQuotaTotal = 0,
     pr_SharedTokensDaily = 0, pr_SharedQuotaMonthly = 0, pr_SharedQuotaTotal = 0, pr_Description = [], pr_Icon = [],
     pr_APIKeyURL = [], pr_Proxy = [], pr_HealthCheckEndpoint = [], pr_Owner = [], pr_AccessControl = no_access_control,
     pr_APIKeys = [], pr_KeyOptional = False, pr_CreatedAt = NoStamp, pr_UpdatedAt = NoStamp\<rparr>"

text \<open>Decoding carries the legacy flag over when the new one is not set.\<close>

definition ac_unmarshal :: "ProviderAccessControl \<Rightarrow> ProviderAccessControl" where
  "ac_unmarshal ac =
     (case ac_MigrationAllowPublic ac of
        Some b \<Rightarrow> if \<not> ac_ShareToPool ac then ac\<lparr>ac_ShareToPool := b, ac_MigrationAllowPublic := None\<rparr> else ac
      | None \<Rightarrow> ac)"

definition mask_secret :: "string \<Rightarrow> string" where
  "mask_secret s =
     (if length s > 8 then take 4 s @ ''...'' @ drop (length s - 4) s
      else if s \<noteq> [] then ''***'' else [])"

definition mask_proxy :: "string \<Rightarrow> string" where
  "mask_proxy s =
     (if prefix ''vmess://'' s then ''vmess://***''
      else if prefix ''vless://'' s then ''vless://***'' else s)"

definition Safe :: "Provider \<Rightarrow> Provider" where
  "Safe p = p\<lparr>pr_APIKeys := map (\<lambda>k. k\<lparr>ak_Key := mask_secret (ak_Key k)\<rparr>) (pr_APIKeys p),
             pr_APIKey := mask_secret (pr_APIKey p), pr_Proxy := mask_proxy (pr_Proxy p)\<rparr>"

section \<open>Loading and saving\<close>

record ProviderManager =
  pm_providers :: "(string, Provider) gomap"
  pm_file :: "Provider list stored_file"
  pm_cacheValid :: bool
  pm_cachedAll :: "Provider list"

definition migrateProviderKeys :: "int \<Rightarrow> string \<Rightarrow> Provider \<Rightarrow> bool \<times> Provider" where
  "migrateProviderKeys now keyID p =
     (if pr_APIKey p \<noteq> [] \<and> pr_APIKeys p = []
      then (True, p\<lparr>pr_APIKeys :=
              [\<lparr>ak_ID = keyID, ak_Alias = [], ak_Key = pr_APIKey p, ak_Quota = pr_TokenLimit p, ak_QuotaDaily = 0,
                ak_QuotaMonthly = 0, ak_Used = 0, ak_UsedDaily = 0, ak_UsedMonthly = 0, ak_LastDailyReset = None,
                ak_LastMonthlyReset = None, ak_AccessControl = ''private'', ak_Enabled = True, ak_Priority = 1,
                ak_ExpiresAt = NoStamp, ak_CreatedAt = format_stamp now, ak_UpdatedAt = NoStamp\<rparr>],
            pr_APIKey := []\<rparr>)
      else (False, p))"

definition migrateSiderType :: "Provider \<Rightarrow> bool \<times> Provider" where
  "migrateSiderType p =
     (if pr_ID p = ''sider'' \<and> (pr_Type p = ''web'' \<or> pr_Type p = ''web_session'')
      then (True, p\<lparr>pr_Type := ''sider''\<rparr>) else (False, p))"

definition normalizeAccessControl :: "ProviderAccessControl \<Rightarrow> ProviderAccessControl" where
  "normalizeAccessControl ac = ac"

definition decrypt_if :: "(string \<Rightarrow> string) \<Rightarrow> string \<Rightarrow> string" where
  "decrypt_if dec s = (if s \<noteq> [] \<and> IsEncrypted s then dec s else s)"

definition encrypt_if :: "(string \<Rightarrow> string) \<Rightarrow> string \<Rightarrow> string" where
  "encrypt_if enc s = (if s \<noteq> [] \<and> \<not> IsEncrypted s then enc s else s)"

text \<open>What \<open>load\<close> and \<open>Reload\<close> do with one provider of the file.\<close>

definition load_provider :: "aead \<Rightarrow> Encryptor option \<Rightarrow> int \<Rightarrow> (string \<Rightarrow> string) \<Rightarrow> Provider \<Rightarrow> Provider" where
  "load_provider gcm e now newID p0 =
     (let dec = decrypt_if (decryptFieldWith gcm e);
          p1 = p0\<lparr>pr_AccessControl := ac_unmarshal (pr_AccessControl p0), pr_APIKey := dec (pr_APIKey p0),
                  pr_APIKeys := map (\<lambda>k. k\<lparr>ak_Key := dec (ak_Key k)\<rparr>) (pr_APIKeys p0), pr_Proxy := dec (pr_Proxy p0)\<rparr>;
          p2 = snd (migrateSiderType (snd (migrateProviderKeys now (newID (pr_ID p1)) p1)))
      in p2\<lparr>pr_AccessControl := normalizeAccessControl (pr_AccessControl p2)\<rparr>)"

definition load_all :: "(Provider \<Rightarrow> Provider) \<Rightarrow> Provider list \<Rightarrow> (string, Provider) gomap \<Rightarrow> (string, Provider) gomap" where
  "load_all f ps m = fold (\<lambda>p. gput (pr_ID p) (f p)) ps m"

definition initProviderManager :: "aead \<Rightarrow> Encryptor option \<Rightarrow> int \<Rightarrow> (string \<Rightarrow> string) \<Rightarrow> Provider list stored_file \<Rightarrow> ProviderManager" where
  "initProviderManager gcm e now newID f =
     \<lparr>pm_providers = (case f of Content ps \<Rightarrow> load_all (load_provider gcm e now newID) ps [] | _ \<Rightarrow> []),
      pm_file = f, pm_cacheValid = False, pm_cachedAll = []\<rparr>"

text \<open>\<open>False\<close> is an error: the file cannot be read or decoded, and nothing changes.\<close>

definition Reload :: "aead \<Rightarrow> Encryptor option \<Rightarrow> int \<Rightarrow> (string \<Rightarrow> string) \<Rightarrow> ProviderManager \<Rightarrow> bool \<times> ProviderManager" where
  "Reload gcm e now newID m =
     (case pm_file m of
        Content ps \<Rightarrow> (True, m\<lparr>pm_providers := load_all (load_provider gcm e now newID) ps [], pm_cacheValid := False, pm_cachedAll := []\<rparr>)
      | _ \<Rightarrow> (False, m))"

definition seal_provider :: "aead \<Rightarrow> Encryptor option \<Rightarrow> (string \<Rightarrow> nat \<Rightarrow> string option) \<Rightarrow> Provider \<Rightarrow> Provider" where
  "seal_provider gcm e nonces p =
     (let sealf = (\<lambda>i. encrypt_if (encryptField gcm (nonces (pr_ID p) i) e))
      in p\<lparr>pr_APIKey := sealf 0 (pr_APIKey p),
           pr_APIKeys := map (\<lambda>(i, k). k\<lparr>ak_Key := sealf (Suc i) (ak_Key k)\<rparr>) (enumerate 0 (pr_APIKeys p)),
           pr_Proxy := sealf (Suc (length (pr_APIKeys p))) (pr_Proxy p)\<rparr>)"

text \<open>The environment of an operation that saves: whether the write succeeds, the encryptor and its nonces.\<close>

record save_env =
  sv_io :: io_env
  sv_gcm :: aead
  sv_enc :: "Encryptor option"
  sv_nonces :: "string \<Rightarrow> nat \<Rightarrow> string option"

definition makeProviderListLocked :: "save_env \<Rightarrow> ProviderManager \<Rightarrow> Provider list" where
  "makeProviderListLocked v m = map (\<lambda>e. seal_provider (sv_gcm v) (sv_enc v) (sv_nonces v) (snd e)) (pm_providers m)"

definition writeFile :: "save_env \<Rightarrow> Provider list \<Rightarrow> ProviderManager \<Rightarrow> ProviderManager" where
  "writeFile v ps m = m\<lparr>pm_file := atomicWriteFile (sv_io v) ps (pm_file m)\<rparr>"

definition pm_save :: "save_env \<Rightarrow> ProviderManager \<Rightarrow> ProviderManager" where
  "pm_save v m =
     (let m1 = writeFile v (makeProviderListLocked v m) m
      in if pm_cacheValid m then m1\<lparr>pm_cacheValid := False\<rparr> else m1)"

definition pm_saveLocked :: "save_env \<Rightarrow> ProviderManager \<Rightarrow> ProviderManager" where
  "pm_saveLocked v m = writeFile v (makeProviderListLocked v m) (m\<lparr>pm_cacheValid := False\<rparr>)"

section \<open>Reading\<close>

definition sortedConfiguredLocked :: "ProviderManager \<Rightarrow> Provider list" where
  "sortedConfiguredLocked m =
     map (\<lambda>i. gget0 zero_provider (pm_providers m) i) (sort (map fst (pm_providers m)))"

text \<open>The presets that no provider before them overrides.\<close>

fun unseen :: "string list \<Rightarrow> Provider list \<Rightarrow> Provider list" where
  "unseen seen [] = []"
| "unseen seen (p # ps) = (if pr_ID p \<in> set seen then unseen seen ps else p # unseen (pr_ID p # seen) ps)"

definition GetAllRaw :: "Provider list \<Rightarrow> ProviderManager \<Rightarrow> Provider list" where
  "GetAllRaw presets m =
     (let own = sortedConfiguredLocked m in own @ unseen (map pr_ID own) presets)"

definition GetAll :: "Provider list \<Rightarrow> ProviderManager \<Rightarrow> Provider list \<times> ProviderManager" where
  "GetAll presets m =
     (if pm_cacheValid m then (pm_cachedAll m, m)
      else
        let own = sortedConfiguredLocked m; result = map Safe own @ map Safe (unseen (map pr_ID own) presets)
        in (result, m\<lparr>pm_cachedAll := result, pm_cacheValid := True\<rparr>))"

definition GetConfigured :: "ProviderManager \<Rightarrow> Provider list" where
  "GetConfigured m = map (\<lambda>e. Safe (snd e)) (pm_providers m)"

definition GetVisible :: "Provider list \<Rightarrow> string \<Rightarrow> ProviderManager \<Rightarrow> Provider list \<times> ProviderManager" where
  "GetVisible presets owner m =
     (if owner = [] then GetAll presets m
      else
        let own = filter (\<lambda>p. pr_Owner p = owner) (sortedConfiguredLocked m)
        in (map Safe own @ map (\<lambda>p. (Safe p)\<lparr>pr_Owner := ''system''\<rparr>) (unseen (map pr_ID own) presets), m))"

definition GetRaw :: "Provider list \<Rightarrow> string \<Rightarrow> ProviderManager \<Rightarrow> Provider option" where
  "GetRaw presets i m =
     (case gget (pm_providers m) i of
        Some p \<Rightarrow> Some p
      | None \<Rightarrow> find (\<lambda>p. pr_ID p = i) presets)"

definition pm_Get :: "Provider list \<Rightarrow> string \<Rightarrow> ProviderManager \<Rightarrow> Provider option" where
  "pm_Get presets i m = map_option Safe (GetRaw presets i m)"

definition EnabledProviders :: "Provider list \<Rightarrow> ProviderManager \<Rightarrow> Provider list" where
  "EnabledProviders presets m = filter pr_Enabled (GetAllRaw presets m)"

definition EnabledRaw :: "Provider list \<Rightarrow> ProviderManager \<Rightarrow> Provider list" where
  "EnabledRaw presets m =
     (let own = filter pr_Enabled (map snd (pm_providers m))
      in own @ filter (\<lambda>p. pr_Enabled p \<and> pr_ID p \<notin> set (map pr_ID own)) presets)"

section \<open>Changing providers\<close>

definition pm_Add :: "save_env \<Rightarrow> int \<Rightarrow> Provider \<Rightarrow> ProviderManager \<Rightarrow> Provider \<times> ProviderManager" where
  "pm_Add v now p0 m =
     (let p1 = p0\<lparr>pr_CreatedAt := (case gget (pm_providers m) (pr_ID p0) of
                     Some existing \<Rightarrow> pr_CreatedAt existing | None \<Rightarrow> format_stamp now),
                  pr_UpdatedAt := format_stamp now,
                  pr_AccessControl := normalizeAccessControl (pr_AccessControl p0)\<rparr>
      in (Safe p1, pm_save v (m\<lparr>pm_providers := gput (pr_ID p1) p1 (pm_providers m)\<rparr>)))"

definition pm_Delete :: "save_env \<Rightarrow> Provider list \<Rightarrow> string \<Rightarrow> ProviderManager \<Rightarrow> bool \<times> ProviderManager" where
  "pm_Delete v presets i m =
     (case gget (pm_providers m) i of
        Some _ \<Rightarrow> (True, pm_save v (m\<lparr>pm_providers := gdel i (pm_providers m)\<rparr>))
      | None \<Rightarrow>
          (case find (\<lambda>p. pr_ID p = i) presets of
             None \<Rightarrow> (False, m)
           | Some p \<Rightarrow>
               (True, pm_save v (m\<lparr>pm_providers := gput i
                  (zero_provider\<lparr>pr_ID := i, pr_Name := pr_Name p, pr_Type := pr_Type p, pr_BaseURL := pr_BaseURL p\<rparr>)
                  (pm_providers m)\<rparr>))))"

definition DeleteByOwner :: "save_env \<Rightarrow> string \<Rightarrow> ProviderManager \<Rightarrow> nat \<times> ProviderManager" where
  "DeleteByOwner v owner m =
     (let count = length (filter (\<lambda>e. pr_Owner (snd e) = owner) (pm_providers m));
          m1 = m\<lparr>pm_providers := gfilter (\<lambda>i p. pr_Owner p \<noteq> owner) (pm_providers m)\<rparr>
      in (count, if count > 0 then pm_saveLocked v m1 else m1))"

definition ClearAllAPIKeys :: "save_env \<Rightarrow> ProviderManager \<Rightarrow> nat \<times> ProviderManager" where
  "ClearAllAPIKeys v m =
     (let count = sum_list (map (\<lambda>e. (if pr_APIKey (snd e) \<noteq> [] then 1 else 0) + (if pr_APIKeys (snd e) \<noteq> [] then 1 else 0)) (pm_providers m));
          m1 = m\<lparr>pm_providers := gmapv (\<lambda>p. p\<lparr>pr_APIKey := [], pr_APIKeys := []\<rparr>) (pm_providers m)\<rparr>
      in (count, if count > 0 then pm_saveLocked v m1 else m1))"

section \<open>Choosing an API key\<close>

definition keyAllowedForAccess :: "string \<Rightarrow> string \<Rightarrow> bool" where
  "keyAllowedForAccess keyAccess accessType =
     (if keyAccess = ''public'' then True
      else if keyAccess = ''shared'' then accessType = ''shared'' \<or> accessType = ''private'' \<or> accessType = []
      else if keyAccess = ''private'' then accessType = ''private'' \<or> accessType = []
      else False)"

text \<open>The filters of the loop, in their order.\<close>

definition key_eligible :: "int \<Rightarrow> string \<Rightarrow> APIKeyConfig \<Rightarrow> bool" where
  "key_eligible now accessType k \<longleftrightarrow>
     ak_Enabled k \<and> keyAllowedForAccess (ak_AccessControl k) accessType
     \<and> \<not> (ak_Quota k > 0 \<and> ak_Used k \<ge> ak_Quota k)
     \<and> \<not> (ak_QuotaDaily k > 0 \<and> ak_LastDailyReset k = Some (day_number now) \<and> ak_UsedDaily k \<ge> ak_QuotaDaily k)
     \<and> \<not> (ak_QuotaMonthly k > 0 \<and> ak_LastMonthlyReset k = Some (month_key now) \<and> ak_UsedMonthly k \<ge> ak_QuotaMonthly k)
     \<and> \<not> stamp_expired now (ak_ExpiresAt k)"

datatype select_error = NoKeyConfigured | NoKeyAvailable

definition legacy_key :: "string \<Rightarrow> APIKeyConfig" where
  "legacy_key s = \<lparr>ak_ID = ''legacy'', ak_Alias = [], ak_Key = s, ak_Quota = 0, ak_QuotaDaily = 0, ak_QuotaMonthly = 0,
     ak_Used = 0, ak_UsedDaily = 0, ak_UsedMonthly = 0, ak_LastDailyReset = None, ak_LastMonthlyReset = None,
     ak_AccessControl = ''private'', ak_Enabled = True, ak_Priority = 1, ak_ExpiresAt = NoStamp,
     ak_CreatedAt = NoStamp, ak_UpdatedAt = NoStamp\<rparr>"

text \<open>\<open>rr\<close> is the round-robin counter, one for all providers; the result has its next value.\<close>

definition SelectAPIKey :: "int \<Rightarrow> string \<Rightarrow> Provider \<Rightarrow> nat \<Rightarrow> (select_error + APIKeyConfig) \<times> nat" where
  "SelectAPIKey now accessType p rr =
     (if pr_APIKeys p = [] then
        (if pr_APIKey p = [] then (Inl NoKeyConfigured, rr) else (Inr (legacy_key (pr_APIKey p)), rr))
      else
        let candidates = stable_sort_by (\<lambda>a b. ak_Priority a > ak_Priority b) (filter (key_eligible now accessType) (pr_APIKeys p))
        in if candidates = [] then (Inl NoKeyAvailable, rr)
           else
             let topCandidates = filter (\<lambda>k. ak_Priority k = ak_Priority (hd candidates)) candidates
             in (Inr (topCandidates ! (rr mod length topCandidates)), (rr + 1) mod 2 ^ 64))"

definition GetEffectiveAPIKey :: "int \<Rightarrow> Provider \<Rightarrow> nat \<Rightarrow> string \<times> nat" where
  "GetEffectiveAPIKey now p rr =
     (case SelectAPIKey now [] p rr of
        (Inl _, rr') \<Rightarrow> (pr_APIKey p, rr')
      | (Inr k, rr') \<Rightarrow> (ak_Key k, rr'))"

section \<open>Changing API keys\<close>

datatype key_error = ProviderNotFound string | KeyNotFound string | TooManyKeys

fun update_key :: "string \<Rightarrow> (APIKeyConfig \<Rightarrow> APIKeyConfig) \<Rightarrow> APIKeyConfig list \<Rightarrow> APIKeyConfig list" where
  "update_key i f [] = []"
| "update_key i f (k # ks) = (if ak_ID k = i then f k # ks else k # update_key i f ks)"

definition set_keys :: "save_env \<Rightarrow> string \<Rightarrow> Provider \<Rightarrow> ProviderManager \<Rightarrow> ProviderManager" where
  "set_keys v providerID p m = pm_saveLocked v (m\<lparr>pm_providers := gput providerID p (pm_providers m)\<rparr>)"

definition charge_key :: "int \<Rightarrow> int \<Rightarrow> APIKeyConfig \<Rightarrow> APIKeyConfig" where
  "charge_key now tokens k =
     (let d0 = (if ak_LastDailyReset k \<noteq> Some (day_number now) then 0 else ak_UsedDaily k);
          m0 = (if ak_LastMonthlyReset k \<noteq> Some (month_key now) then 0 else ak_UsedMonthly k)
      in k\<lparr>ak_Used := i64 (ak_Used k + tokens),
           ak_UsedDaily := i64 (d0 + tokens), ak_LastDailyReset := Some (day_number now),
           ak_UsedMonthly := i64 (m0 + tokens), ak_LastMonthlyReset := Some (month_key now)\<rparr>)"

definition RecordKeyUsage :: "save_env \<Rightarrow> int \<Rightarrow> string \<Rightarrow> string \<Rightarrow> int \<Rightarrow> ProviderManager \<Rightarrow> ProviderManager" where
  "RecordKeyUsage v now providerID keyID tokens m =
     (case gget (pm_providers m) providerID of
        None \<Rightarrow> m
      | Some p \<Rightarrow>
          if keyID \<in> set (map ak_ID (pr_APIKeys p))
          then set_keys v providerID (p\<lparr>pr_APIKeys := update_key keyID (charge_key now tokens) (pr_APIKeys p)\<rparr>) m
          else m)"

definition ResetKeyQuota :: "save_env \<Rightarrow> int \<Rightarrow> string \<Rightarrow> string \<Rightarrow> ProviderManager \<Rightarrow> key_error option \<times> ProviderManager" where
  "ResetKeyQuota v now providerID keyID m =
     (case gget (pm_providers m) providerID of
        None \<Rightarrow> (Some (ProviderNotFound providerID), m)
      | Some p \<Rightarrow>
          if keyID \<in> set (map ak_ID (pr_APIKeys p))
          then (None, set_keys v providerID
                 (p\<lparr>pr_APIKeys := update_key keyID (\<lambda>k. k\<lparr>ak_Used := 0, ak_UpdatedAt := format_stamp now\<rparr>) (pr_APIKeys p)\<rparr>) m)
          else (Some (KeyNotFound keyID), m))"

definition AddAPIKey :: "save_env \<Rightarrow> int \<Rightarrow> string \<Rightarrow> string \<Rightarrow> APIKeyConfig \<Rightarrow> ProviderManager \<Rightarrow> key_error option \<times> ProviderManager" where
  "AddAPIKey v now newKeyID providerID key m =
     (case gget (pm_providers m) providerID of
        None \<Rightarrow> (Some (ProviderNotFound providerID), m)
      | Some p \<Rightarrow>
          if length (pr_APIKeys p) \<ge> 10 then (Some TooManyKeys, m)
          else
            let key' = key\<lparr>ak_ID := (if ak_ID key = [] then newKeyID else ak_ID key),
                           ak_CreatedAt := format_stamp now, ak_UpdatedAt := format_stamp now,
                           ak_AccessControl := (if ak_AccessControl key = [] then ''private'' else ak_AccessControl key)\<rparr>
            in (None, set_keys v providerID (p\<lparr>pr_APIKeys := pr_APIKeys p @ [key'], pr_UpdatedAt := format_stamp now\<rparr>) m))"

text \<open>
  The requested changes of a key: a field is \<open>None\<close> when it is absent or of another JSON type. Numbers
  are decoded as floating point and truncated.
\<close>

record key_updates =
  ku_key :: "string option"
  ku_quota :: "real option"
  ku_quota_daily :: "real option"
  ku_quota_monthly :: "real option"
  ku_access_control :: "string option"
  ku_enabled :: "bool option"
  ku_priority :: "real option"
  ku_expires_at :: "stamp option"
  ku_alias :: "string option"

definition trunc :: "real \<Rightarrow> int" where
  "trunc x = (if x < 0 then \<lceil>x\<rceil> else \<lfloor>x\<rfloor>)"

definition opt_or :: "'a option \<Rightarrow> 'a \<Rightarrow> 'a" where
  "opt_or v d = (case v of Some x \<Rightarrow> x | None \<Rightarrow> d)"

definition apply_updates :: "int \<Rightarrow> key_updates \<Rightarrow> APIKeyConfig \<Rightarrow> APIKeyConfig" where
  "apply_updates now u k =
     k\<lparr>ak_Key := (case ku_key u of Some s \<Rightarrow> if s \<noteq> [] \<and> \<not> sublist ''...'' s then s else ak_Key k | None \<Rightarrow> ak_Key k),
       ak_Quota := opt_or (map_option trunc (ku_quota u)) (ak_Quota k),
       ak_QuotaDaily := opt_or (map_option trunc (ku_quota_daily u)) (ak_QuotaDaily k),
       ak_QuotaMonthly := opt_or (map_option trunc (ku_quota_monthly u)) (ak_QuotaMonthly k),
       ak_AccessControl := opt_or (ku_access_control u) (ak_AccessControl k),
       ak_Enabled := opt_or (ku_enabled u) (ak_Enabled k),
       ak_Priority := opt_or (map_option trunc (ku_priority u)) (ak_Priority k),
       ak_ExpiresAt := opt_or (ku_expires_at u) (ak_ExpiresAt k),
       ak_Alias := opt_or (ku_alias u) (ak_Alias k),
       ak_UpdatedAt := format_stamp now\<rparr>"

definition UpdateAPIKey :: "save_env \<Rightarrow> int \<Rightarrow> string \<Rightarrow> string \<Rightarrow> key_updates \<Rightarrow> ProviderManager \<Rightarrow> key_error option \<times> ProviderManager" where
  "UpdateAPIKey v now providerID keyID u m =
     (case gget (pm_providers m) providerID of
        None \<Rightarrow> (Some (ProviderNotFound providerID), m)
      | Some p \<Rightarrow>
          if keyID \<in> set (map ak_ID (pr_APIKeys p))
          then (None, set_keys v providerID (p\<lparr>pr_APIKeys := update_key keyID (apply_updates now u) (pr_APIKeys p)\<rparr>) m)
          else (Some (KeyNotFound keyID), m))"

definition DeleteAPIKey :: "save_env \<Rightarrow> int \<Rightarrow> string \<Rightarrow> string \<Rightarrow> ProviderManager \<Rightarrow> key_error option \<times> ProviderManager" where
  "DeleteAPIKey v now providerID keyID m =
     (case gget (pm_providers m) providerID of
        None \<Rightarrow> (Some (ProviderNotFound providerID), m)
      | Some p \<Rightarrow>
          if keyID \<in> set (map ak_ID (pr_APIKeys p))
          then (None, set_keys v providerID
                 (p\<lparr>pr_APIKeys := filter (\<lambda>k. ak_ID k \<noteq> keyID) (pr_APIKeys p), pr_UpdatedAt := format_stamp now\<rparr>) m)
          else (Some (KeyNotFound keyID), m))"

text \<open>\<open>dots\<close> is the mask, the bullet character eight times in UTF-8.\<close>

definition dots :: string where
  "dots = concat (replicate 8 (map char_of [0xE2 :: nat, 0x80, 0xA2]))"

definition GetAPIKeys :: "string \<Rightarrow> ProviderManager \<Rightarrow> key_error + APIKeyConfig list" where
  "GetAPIKeys providerID m =
     (case gget (pm_providers m) providerID of
        None \<Rightarrow> Inl (ProviderNotFound providerID)
      | Some p \<Rightarrow>
          Inr (map (\<lambda>k. k\<lparr>ak_Key := (if length (ak_Key k) > 8 then take 4 (ak_Key k) @ dots @ drop (length (ak_Key k) - 4) (ak_Key k)
                                       else if ak_Key k \<noteq> [] then dots else [])\<rparr>) (pr_APIKeys p)))"

section \<open>Model lists\<close>

text \<open>
  One fetch per key: \<open>fetch key\<close> is the list of the remote model identifiers and names, from the upstream
  service. A failed decryption skips the key. The result is the error or the number of models, and the manager.
\<close>

datatype sync_error = SyncNotFound | SyncUnsupported | SyncNoKey | SyncNoModels

definition key_results :: "(string \<Rightarrow> string option) \<Rightarrow> (string \<Rightarrow> (string \<times> string) list) \<Rightarrow> Provider \<Rightarrow> (string \<times> (string \<times> string) list) list" where
  "key_results dec fetch p =
     (if pr_APIKeys p \<noteq> [] then
        concat (map (\<lambda>k. if \<not> ak_Enabled k then [] else case dec (ak_Key k) of None \<Rightarrow> [] | Some d \<Rightarrow> [(ak_ID k, fetch d)]) (pr_APIKeys p))
      else [(''default'', fetch (case dec (pr_APIKey p) of Some d \<Rightarrow> d | None \<Rightarrow> pr_APIKey p))])"

definition synced_model :: "Provider \<Rightarrow> (string \<times> (string \<times> string) list) list \<Rightarrow> string \<Rightarrow> string \<Rightarrow> ModelDef" where
  "synced_model p results mid mname =
     (let existing = gget (fold (\<lambda>md. gput (md_ID md) md) (pr_Models p) []) mid
      in \<lparr>md_ID = mid, md_Name = mname, md_Tier = [],
          md_Enabled = (case existing of Some md \<Rightarrow> md_Enabled md | None \<Rightarrow> False),
          md_EnabledByKeys = (case existing of Some md \<Rightarrow> md_EnabledByKeys md | None \<Rightarrow> []),
          md_AvailableKeys = sort (remdups (map fst (filter (\<lambda>r. mid \<in> set (map fst (snd r))) results))),
          md_Source = []\<rparr>)"

definition SyncModels :: "save_env \<Rightarrow> int \<Rightarrow> (string \<Rightarrow> (string \<times> string) list) \<Rightarrow> Provider list \<Rightarrow> string \<Rightarrow> ProviderManager \<Rightarrow> (sync_error + nat) \<times> ProviderManager" where
  "SyncModels v now fetch presets providerID m =
     (case GetRaw presets providerID m of
        None \<Rightarrow> (Inl SyncNotFound, m)
      | Some p \<Rightarrow>
          if pr_Type p = ''web_session'' \<or> pr_Type p \<noteq> ''openai_compatible'' then (Inl SyncUnsupported, m)
          else if pr_APIKey p = [] \<and> pr_APIKeys p = [] then (Inl SyncNoKey, m)
          else
            let results = key_results (decryptAPIKey (sv_gcm v) (sv_enc v)) fetch p;
                allModels = fold (\<lambda>(mid, mname). gput mid mname) (concat (map snd results)) []
            in if allModels = [] then (Inl SyncNoModels, m)
               else
                 let newModels = map (\<lambda>mid. synced_model p results mid (gget0 [] allModels mid)) (sort (map fst allModels));
                     m1 = (case gget (pm_providers m) providerID of
                             Some ex \<Rightarrow> m\<lparr>pm_providers := gput providerID
                                          (ex\<lparr>pr_Models := newModels, pr_UpdatedAt := format_stamp now\<rparr>) (pm_providers m)\<rparr>
                           | None \<Rightarrow> m)
                 in (Inr (length newModels), pm_saveLocked v m1))"

section \<open>Secrets on disk\<close>

definition plain :: "Provider \<Rightarrow> bool" where
  "plain p \<longleftrightarrow> \<not> IsEncrypted (pr_APIKey p) \<and> \<not> IsEncrypted (pr_Proxy p) \<and> list_all (\<lambda>k. \<not> IsEncrypted (ak_Key k)) (pr_APIKeys p)"

text \<open>A provider that loading has nothing to migrate in.\<close>

definition settled :: "Provider \<Rightarrow> bool" where
  "settled p \<longleftrightarrow> \<not> (pr_APIKey p \<noteq> [] \<and> pr_APIKeys p = []) \<and>
     \<not> (pr_ID p = ''sider'' \<and> (pr_Type p = ''web'' \<or> pr_Type p = ''web_session'')) \<and>
     ac_MigrationAllowPublic (pr_AccessControl p) = None"

lemma decrypt_encrypt_if:
  assumes "opens_sealed gcm" and "nonce_ok rnd" and "\<not> IsEncrypted s"
  shows "decrypt_if (decryptFieldWith gcm e) (encrypt_if (encryptField gcm rnd e) s) = s"
proof (cases "s = []")
  case False
  let ?c = "encryptField gcm rnd e s"
  have opened: "decryptFieldWith gcm e ?c = s" by (rule decrypt_encryptField [OF assms])
  have same: "decryptFieldWith gcm e x = x" if "x = [] \<or> \<not> IsEncrypted x" for x
    using that by (auto simp: decryptFieldWith_def split: option.splits)
  have "decrypt_if (decryptFieldWith gcm e) ?c = s"
    using opened same [of ?c] by (cases "?c = [] \<or> \<not> IsEncrypted ?c") (auto simp: decrypt_if_def)
  with False assms(3) show ?thesis by (simp add: encrypt_if_def)
qed (simp add: decrypt_if_def encrypt_if_def)

lemma load_seal_provider:
  assumes "opens_sealed gcm" and "\<And>i j. nonce_ok (nonces i j)" and "plain p" and "settled p"
  shows "load_provider gcm e now newID (seal_provider gcm e nonces p) = p"
proof -
  let ?d = "decrypt_if (decryptFieldWith gcm e)" and ?s = "\<lambda>i. encrypt_if (encryptField gcm (nonces (pr_ID p) i) e)"
  have inv: "?d (?s i x) = x" if "\<not> IsEncrypted x" for i x
    using decrypt_encrypt_if [OF assms(1,2) that] by simp
  have keys: "map (\<lambda>k. k\<lparr>ak_Key := ?d (ak_Key k)\<rparr>) (map (\<lambda>(i, k). k\<lparr>ak_Key := ?s (Suc i) (ak_Key k)\<rparr>) (enumerate n ks)) = ks"
    if "list_all (\<lambda>k. \<not> IsEncrypted (ak_Key k)) ks" for n ks
    using that by (induction ks arbitrary: n) (simp_all add: inv)
  have sealed: "pr_APIKey (seal_provider gcm e nonces p) = ?s 0 (pr_APIKey p)"
    "pr_Proxy (seal_provider gcm e nonces p) = ?s (Suc (length (pr_APIKeys p))) (pr_Proxy p)"
    "pr_APIKeys (seal_provider gcm e nonces p) = map (\<lambda>(i, k). k\<lparr>ak_Key := ?s (Suc i) (ak_Key k)\<rparr>) (enumerate 0 (pr_APIKeys p))"
    "pr_AccessControl (seal_provider gcm e nonces p) = pr_AccessControl p"
    by (simp_all add: seal_provider_def Let_def)
  have "(seal_provider gcm e nonces p)\<lparr>pr_AccessControl := ac_unmarshal (pr_AccessControl p), pr_APIKey := ?d (?s 0 (pr_APIKey p)),
      pr_APIKeys := map (\<lambda>k. k\<lparr>ak_Key := ?d (ak_Key k)\<rparr>) (map (\<lambda>(i, k). k\<lparr>ak_Key := ?s (Suc i) (ak_Key k)\<rparr>) (enumerate 0 (pr_APIKeys p))),
      pr_Proxy := ?d (?s (Suc (length (pr_APIKeys p))) (pr_Proxy p))\<rparr> = p"
    using assms(3,4) by (simp add: keys inv plain_def settled_def ac_unmarshal_def seal_provider_def Let_def del: map_map)
  then have "load_provider gcm e now newID (seal_provider gcm e nonces p) =
      (let p2 = snd (migrateSiderType (snd (migrateProviderKeys now (newID (pr_ID p)) p)))
       in p2\<lparr>pr_AccessControl := normalizeAccessControl (pr_AccessControl p2)\<rparr>)"
    unfolding load_provider_def sealed Let_def by (simp only:)
  moreover have "snd (migrateProviderKeys now (newID (pr_ID p)) p) = p" "snd (migrateSiderType p) = p"
    using assms(4) unfolding migrateProviderKeys_def migrateSiderType_def settled_def by auto
  ultimately show ?thesis by (simp add: normalizeAccessControl_def)
qed

lemma seal_provider_ID [simp]: "pr_ID (seal_provider gcm e nonces p) = pr_ID p"
  by (simp add: seal_provider_def Let_def)

definition pm_ok :: "ProviderManager \<Rightarrow> bool" where
  "pm_ok m \<longleftrightarrow> gmap_ok (pm_providers m) \<and> list_all (\<lambda>e. pr_ID (snd e) = fst e) (pm_providers m)"

lemma load_all_lookup:
  assumes "distinct (map pr_ID ps)"
  shows "gget (load_all f ps m0) i = (case find (\<lambda>p. pr_ID p = i) ps of Some p \<Rightarrow> Some (f p) | None \<Rightarrow> gget m0 i)"
  using assms unfolding load_all_def
proof (induction ps arbitrary: m0)
  case (Cons p ps)
  have "pr_ID p = i \<Longrightarrow> find (\<lambda>p. pr_ID p = i) ps = None"
    using Cons.prems by (auto simp: find_None_iff rev_image_eqI)
  with Cons show ?case by (auto split: option.splits)
qed simp

lemma pm_save_file:
  "io_write (sv_io v) \<Longrightarrow> pm_file (pm_save v m) = Content (makeProviderListLocked v m)"
  "io_write (sv_io v) \<Longrightarrow> pm_file (pm_saveLocked v m) = Content (makeProviderListLocked v m)"
  by (simp_all add: pm_save_def pm_saveLocked_def writeFile_def atomicWriteFile_def Let_def makeProviderListLocked_def)

lemma find_saved:
  assumes "pm_ok m"
  shows "find (\<lambda>p. pr_ID p = i) (makeProviderListLocked v m) =
    map_option (seal_provider (sv_gcm v) (sv_enc v) (sv_nonces v)) (gget (pm_providers m) i)"
proof -
  have f: "find (\<lambda>p. pr_ID p = i) (map (\<lambda>e. f (snd e)) ms) = map_option f (map_of ms i)"
    if "list_all (\<lambda>e. pr_ID (snd e) = fst e) ms" "\<And>p. pr_ID (f p) = pr_ID p" for f and ms :: "(string, Provider) gomap"
    using that by (induction ms) auto
  show ?thesis using assms unfolding makeProviderListLocked_def pm_ok_def gget_def by (intro f) simp_all
qed

text \<open>
  Restart of the provider manager. When the write succeeds, what is saved is read back by a new process
  provider by provider, keys and proxies decrypted, whatever the state of the encryptor, provided the
  cipher opens what it sealed, no secret in memory looks like a ciphertext and no provider is in a legacy
  form that loading migrates.
\<close>

theorem provider_restart:
  assumes "pm_ok m" and "list_all (\<lambda>e. plain (snd e) \<and> settled (snd e)) (pm_providers m)"
    and "opens_sealed (sv_gcm v)" and "\<forall>i j. nonce_ok (sv_nonces v i j)" and "io_write (sv_io v)"
  shows "gget (pm_providers (initProviderManager (sv_gcm v) (sv_enc v) now newID (pm_file (pm_save v m)))) i = gget (pm_providers m) i"
proof -
  let ?l = "makeProviderListLocked v m"
  have "distinct (map pr_ID ?l)"
  proof -
    have "map pr_ID ?l = map fst (pm_providers m)"
      using assms(1) by (auto simp: makeProviderListLocked_def pm_ok_def list_all_iff)
    then show ?thesis using assms(1) by (simp add: pm_ok_def gmap_ok_def)
  qed
  then have "gget (pm_providers (initProviderManager (sv_gcm v) (sv_enc v) now newID (pm_file (pm_save v m)))) i =
      map_option (load_provider (sv_gcm v) (sv_enc v) now newID) (find (\<lambda>p. pr_ID p = i) ?l)"
    using assms(5) by (simp add: initProviderManager_def pm_save_file load_all_lookup split: option.splits)
  also have "\<dots> = gget (pm_providers m) i"
  proof (cases "gget (pm_providers m) i")
    case (Some p)
    then have "plain p" "settled p" using assms(2) gget_in_set [of "pm_providers m" i p] by (auto simp: list_all_iff)
    then show ?thesis using load_seal_provider assms(3,4) Some by (simp add: find_saved [OF assms(1)])
  qed (simp add: find_saved [OF assms(1)])
  finally show ?thesis .
qed

definition toy_aead :: aead where
  "toy_aead k n = (\<lambda>p. rev p, \<lambda>c. Some (rev c))"

definition sample_provider :: Provider where
  "sample_provider = zero_provider\<lparr>pr_ID := ''p1'', pr_Enabled := True, pr_APIKeys := [legacy_key ''sk-secret'']\<rparr>"

definition sample_manager :: ProviderManager where
  "sample_manager = \<lparr>pm_providers = [(''p1'', sample_provider)], pm_file = Absent, pm_cacheValid = False, pm_cachedAll = []\<rparr>"

definition sample_env :: save_env where
  "sample_env = \<lparr>sv_io = io_fine False, sv_gcm = toy_aead,
     sv_enc = Some \<lparr>en_key = replicate 32 CHR ''k'', en_ready = True, en_ephemeral = False\<rparr>, sv_nonces = (\<lambda>i j. Some (replicate 12 CHR ''n''))\<rparr>"

lemmas sample_provider_defs = sample_manager_def sample_provider_def legacy_key_def zero_provider_def no_access_control_def

lemma sample_env_ok [simp]:
  "opens_sealed (sv_gcm sample_env)" "nonce_ok (sv_nonces sample_env i j)" "io_write (sv_io sample_env)"
  by (simp_all add: sample_env_def opens_sealed_def toy_aead_def nonce_ok_def nonceSize_def io_fine_def)

theorem provider_restart_witness:
  "gget (pm_providers (initProviderManager (sv_gcm sample_env) (sv_enc sample_env) 5 (\<lambda>i. ''key_x'') (pm_file (pm_save sample_env sample_manager)))) ''p1''
     = Some sample_provider"
proof -
  have "pm_ok sample_manager" "list_all (\<lambda>e. plain (snd e) \<and> settled (snd e)) (pm_providers sample_manager)"
    by (simp_all add: pm_ok_def sample_provider_defs plain_def settled_def IsEncrypted_def encPrefix_def)
  from provider_restart [OF this, of sample_env 5 "\<lambda>i. ''key_x''" "''p1''"]
  show ?thesis by (simp add: sample_manager_def)
qed

text \<open>
  Secrets at rest. With a working encryptor (a permanent key of a valid length, random source and
  cipher available), every file written by a save has each API key, legacy key and proxy either empty or
  in encrypted form.
\<close>

theorem secrets_encrypted_at_rest:
  assumes "sv_enc v = Some e" and "\<not> en_ephemeral e" and "cipher_key_ok (en_key e)" and "\<forall>i j. sv_nonces v i j \<noteq> None"
    and "io_write (sv_io v)" and "pm_file (pm_saveLocked v m) = Content ps"
  shows "list_all (\<lambda>p. (pr_APIKey p = [] \<or> IsEncrypted (pr_APIKey p)) \<and> (pr_Proxy p = [] \<or> IsEncrypted (pr_Proxy p)) \<and>
     list_all (\<lambda>k. ak_Key k = [] \<or> IsEncrypted (ak_Key k)) (pr_APIKeys p)) ps"
proof -
  have c: "encrypt_if (encryptField (sv_gcm v) (sv_nonces v i j) (sv_enc v)) s = [] \<or>
      IsEncrypted (encrypt_if (encryptField (sv_gcm v) (sv_nonces v i j) (sv_enc v)) s)" for i j s
  proof -
    obtain n where "sv_nonces v i j = Some n" using assms(4) by blast
    then show ?thesis using assms(1-3)
      by (simp add: encrypt_if_def encryptField_def Encrypt_def IsEncrypted_def)
  qed
  have "ps = makeProviderListLocked v m" using assms(5,6) by (simp add: pm_save_file)
  moreover have "list_all (\<lambda>k. ak_Key k = [] \<or> IsEncrypted (ak_Key k)) (pr_APIKeys (seal_provider (sv_gcm v) (sv_enc v) (sv_nonces v) p))" for p
    unfolding seal_provider_def Let_def list_all_iff using c by fastforce
  moreover have "pr_APIKey (seal_provider (sv_gcm v) (sv_enc v) (sv_nonces v) p) = [] \<or> IsEncrypted (pr_APIKey (seal_provider (sv_gcm v) (sv_enc v) (sv_nonces v) p))"
    "pr_Proxy (seal_provider (sv_gcm v) (sv_enc v) (sv_nonces v) p) = [] \<or> IsEncrypted (pr_Proxy (seal_provider (sv_gcm v) (sv_enc v) (sv_nonces v) p))" for p
    unfolding seal_provider_def Let_def using c by simp_all
  ultimately show ?thesis by (simp add: makeProviderListLocked_def list_all_iff)
qed

theorem secrets_encrypted_at_rest_witness:
  "case pm_file (pm_saveLocked sample_env sample_manager) of
     Content ps \<Rightarrow> list_all (\<lambda>p. list_all (\<lambda>k. ak_Key k = [] \<or> IsEncrypted (ak_Key k)) (pr_APIKeys p)) ps | _ \<Rightarrow> False"
proof -
  obtain ps where ps: "pm_file (pm_saveLocked sample_env sample_manager) = Content ps" by (simp add: pm_save_file)
  have "sv_enc sample_env = Some \<lparr>en_key = replicate 32 CHR ''k'', en_ready = True, en_ephemeral = False\<rparr>"
    "\<forall>i j. sv_nonces sample_env i j \<noteq> None" by (simp_all add: sample_env_def)
  from secrets_encrypted_at_rest [OF this(1) _ _ this(2) _ ps] ps show ?thesis
    by (auto simp: cipher_key_ok_def list_all_iff)
qed

section \<open>The chosen key\<close>

lemma insert_by_hd:
  "(\<And>y. y \<in> set ys \<Longrightarrow> ak_Priority y \<le> ak_Priority (hd ys)) \<Longrightarrow>
     z \<in> set (insert_by (\<lambda>a b. ak_Priority a > ak_Priority b) x ys) \<Longrightarrow>
     ak_Priority z \<le> ak_Priority (hd (insert_by (\<lambda>a b. ak_Priority a > ak_Priority b) x ys))"
  by (cases ys) (fastforce split: if_splits)+

lemma sorted_hd_top:
  "z \<in> set xs \<Longrightarrow> ak_Priority z \<le> ak_Priority (hd (stable_sort_by (\<lambda>a b. ak_Priority a > ak_Priority b) xs))"
proof (induction xs arbitrary: z)
  case (Cons x xs)
  let ?s = "stable_sort_by (\<lambda>a b. ak_Priority a > ak_Priority b) xs"
  have "y \<in> set ?s \<Longrightarrow> ak_Priority y \<le> ak_Priority (hd ?s)" for y using Cons.IH by simp
  from insert_by_hd [OF this, of z x] Cons.prems show ?case by simp
qed simp

text \<open>The eligible keys of the highest priority, in the order they rotate.\<close>

definition top_keys :: "int \<Rightarrow> string \<Rightarrow> Provider \<Rightarrow> APIKeyConfig list" where
  "top_keys now accessType p =
     (let cs = stable_sort_by (\<lambda>a b. ak_Priority a > ak_Priority b) (filter (key_eligible now accessType) (pr_APIKeys p))
      in filter (\<lambda>k. ak_Priority k = ak_Priority (hd cs)) cs)"

lemma set_top_keys:
  "set (top_keys now acc p) = {k \<in> set (pr_APIKeys p). key_eligible now acc k \<and>
     (\<forall>k' \<in> set (pr_APIKeys p). key_eligible now acc k' \<longrightarrow> ak_Priority k' \<le> ak_Priority k)}"
proof -
  let ?es = "filter (key_eligible now acc) (pr_APIKeys p)"
  let ?cs = "stable_sort_by (\<lambda>a b. ak_Priority a > ak_Priority b) ?es"
  have top: "k \<in> set ?es \<Longrightarrow> ak_Priority k \<le> ak_Priority (hd ?cs)" for k by (rule sorted_hd_top)
  have hd: "?es \<noteq> [] \<Longrightarrow> hd ?cs \<in> set ?es"
    by (metis hd_in_set length_0_conv length_stable_sort_by set_stable_sort_by)
  show ?thesis
  proof (intro set_eqI iffI)
    fix k assume "k \<in> set (top_keys now acc p)"
    then show "k \<in> {k \<in> set (pr_APIKeys p). key_eligible now acc k \<and>
        (\<forall>k' \<in> set (pr_APIKeys p). key_eligible now acc k' \<longrightarrow> ak_Priority k' \<le> ak_Priority k)}"
      using top by (auto simp: top_keys_def Let_def)
  next
    fix k assume k: "k \<in> {k \<in> set (pr_APIKeys p). key_eligible now acc k \<and>
        (\<forall>k' \<in> set (pr_APIKeys p). key_eligible now acc k' \<longrightarrow> ak_Priority k' \<le> ak_Priority k)}"
    then have "k \<in> set ?es" by simp
    moreover from this have "?es \<noteq> []" by (metis list.distinct(1) list.set_cases)
    then have "ak_Priority (hd ?cs) \<le> ak_Priority k" using hd k by auto
    ultimately show "k \<in> set (top_keys now acc p)" using top [of k] by (auto simp: top_keys_def Let_def)
  qed
qed

lemma top_keys_empty: "top_keys now acc p = [] \<longleftrightarrow> filter (key_eligible now acc) (pr_APIKeys p) = []"
proof -
  let ?cs = "stable_sort_by (\<lambda>a b. ak_Priority a > ak_Priority b) (filter (key_eligible now acc) (pr_APIKeys p))"
  have "?cs \<noteq> [] \<Longrightarrow> hd ?cs \<in> set (top_keys now acc p)"
    unfolding top_keys_def Let_def by (drule hd_in_set) (simp del: set_stable_sort_by)
  then show ?thesis
    by (metis (no_types, lifting) filter.simps(1) length_0_conv length_stable_sort_by list.distinct(1) list.set_cases top_keys_def)
qed

lemma SelectAPIKey_top:
  assumes "pr_APIKeys p \<noteq> []"
  shows "SelectAPIKey now acc p rr =
    (if top_keys now acc p = [] then (Inl NoKeyAvailable, rr)
     else (Inr (top_keys now acc p ! (rr mod length (top_keys now acc p))), (rr + 1) mod 2 ^ 64))"
proof -
  let ?es = "filter (key_eligible now acc) (pr_APIKeys p)"
  have "stable_sort_by (\<lambda>a b. ak_Priority a > ak_Priority b) ?es = [] \<longleftrightarrow> top_keys now acc p = []"
    unfolding top_keys_empty by (metis length_0_conv length_stable_sort_by)
  then show ?thesis using assms unfolding SelectAPIKey_def Let_def top_keys_def by simp
qed

text \<open>
  When a key may be used, said without the filters of the code: what was used of a daily or monthly quota counts only in the day
  or month of the last reset, and a stamp that cannot be read does not expire.
\<close>

definition used_of_day :: "int \<Rightarrow> APIKeyConfig \<Rightarrow> int" where
  "used_of_day now k = (if ak_LastDailyReset k = Some (day_number now) then ak_UsedDaily k else 0)"

definition used_of_month :: "int \<Rightarrow> APIKeyConfig \<Rightarrow> int" where
  "used_of_month now k = (if ak_LastMonthlyReset k = Some (month_key now) then ak_UsedMonthly k else 0)"

definition open_to :: "string \<Rightarrow> string \<Rightarrow> bool" where
  "open_to keyAccess acc \<longleftrightarrow> (keyAccess, acc) \<in> {''public''} \<times> UNIV \<union> {''shared''} \<times> {''shared'', ''private'', []} \<union> {''private''} \<times> {''private'', []}"

definition key_usable :: "int \<Rightarrow> string \<Rightarrow> APIKeyConfig \<Rightarrow> bool" where
  "key_usable now acc k \<longleftrightarrow> ak_Enabled k \<and> open_to (ak_AccessControl k) acc \<and>
     (0 < ak_Quota k \<longrightarrow> ak_Used k < ak_Quota k) \<and>
     (0 < ak_QuotaDaily k \<longrightarrow> used_of_day now k < ak_QuotaDaily k) \<and>
     (0 < ak_QuotaMonthly k \<longrightarrow> used_of_month now k < ak_QuotaMonthly k) \<and>
     (\<forall>e. ak_ExpiresAt k = Stamp e \<longrightarrow> now \<le> e)"

lemma keyAllowedForAccess_open: "keyAllowedForAccess ka acc \<longleftrightarrow> open_to ka acc"
  by (auto simp: keyAllowedForAccess_def open_to_def)

lemma key_eligible_usable: "key_eligible now acc k \<longleftrightarrow> key_usable now acc k"
  by (auto simp: key_eligible_def key_usable_def keyAllowedForAccess_open used_of_day_def used_of_month_def stamp_expired_def
      split: stamp.splits)

text \<open>
  (C17) Key selection. For a provider with configured keys, selection returns a key of the provider that is
  enabled, open to the kind of access, within its total, daily and monthly quota, not expired, and of the
  highest priority among such keys; it fails exactly when no key qualifies. A provider without configured keys hands out its
  single old-style key for every kind of access, and fails exactly when it has none.
\<close>

theorem select_api_key:
  "case fst (SelectAPIKey now acc p rr) of
     Inr k \<Rightarrow>
       (if pr_APIKeys p = [] then pr_APIKey p \<noteq> [] \<and> k = legacy_key (pr_APIKey p)
        else k \<in> set (pr_APIKeys p) \<and> key_usable now acc k \<and>
          (\<forall>k' \<in> set (pr_APIKeys p). key_usable now acc k' \<longrightarrow> ak_Priority k' \<le> ak_Priority k))
   | Inl e \<Rightarrow>
       (if pr_APIKeys p = [] then e = NoKeyConfigured \<and> pr_APIKey p = []
        else e = NoKeyAvailable \<and> list_all (\<lambda>k. \<not> key_usable now acc k) (pr_APIKeys p))"
proof (cases "pr_APIKeys p = []")
  case True
  then show ?thesis by (simp add: SelectAPIKey_def)
next
  case keys: False
  show ?thesis
  proof (cases "top_keys now acc p = []")
    case True
    then show ?thesis using SelectAPIKey_top [OF keys] keys
      by (auto simp: top_keys_empty list_all_iff filter_empty_conv key_eligible_usable)
  next
    case False
    then have "top_keys now acc p ! (rr mod length (top_keys now acc p)) \<in> set (top_keys now acc p)" by simp
    with False keys show ?thesis using SelectAPIKey_top [OF keys] unfolding set_top_keys key_eligible_usable by simp
  qed
qed

theorem select_api_key_witness:
  "case fst (SelectAPIKey 5 [] sample_provider 3) of Inr k \<Rightarrow> key_usable 5 [] k | Inl _ \<Rightarrow> False"
proof -
  have k: "pr_APIKeys sample_provider = [legacy_key ''sk-secret'']" by (simp add: sample_provider_def)
  have "key_usable 5 [] (legacy_key ''sk-secret'')"
    by (simp add: legacy_key_def key_usable_def open_to_def)
  with select_api_key [where now = 5 and acc = "[]" and p = sample_provider and rr = 3] k show ?thesis by (auto split: sum.splits)
qed

text \<open>Several selections in a row, with nothing else between them.\<close>

fun select_run :: "nat \<Rightarrow> int \<Rightarrow> string \<Rightarrow> Provider \<Rightarrow> nat \<Rightarrow> (select_error + APIKeyConfig) list" where
  "select_run 0 now acc p rr = []"
| "select_run (Suc n) now acc p rr =
     (case SelectAPIKey now acc p rr of (r, rr') \<Rightarrow> r # select_run n now acc p rr')"

lemma select_run_rotates:
  assumes "pr_APIKeys p \<noteq> []" and "top_keys now acc p \<noteq> []" and "rr + n < 2 ^ 64"
  shows "select_run n now acc p rr =
    map (\<lambda>i. Inr (top_keys now acc p ! (i mod length (top_keys now acc p)))) [rr..<rr + n]"
  using assms(3)
proof (induction n arbitrary: rr)
  case (Suc n)
  have "(rr + 1) mod 2 ^ 64 = Suc rr" using Suc.prems by simp
  moreover have "[rr..<rr + Suc n] = rr # [Suc rr..<Suc rr + n]" by (simp add: upt_conv_Cons)
  ultimately show ?case
    using Suc.IH [of "Suc rr"] Suc.prems SelectAPIKey_top [OF assms(1), of now acc rr] assms(2) by simp
qed simp

lemma residues_cover:
  assumes "0 < (n :: nat)"
  shows "(\<lambda>i. i mod n) ` {r..<r + n} = {..<n}"
proof (intro equalityI subsetI)
  fix j assume j: "j \<in> {..<n}"
  define i where "i = (if r mod n \<le> j then r div n * n + j else Suc (r div n) * n + j)"
  have "i mod n = j" using j unfolding i_def by (simp only: mod_mult_self3 mod_less lessThan_iff split: if_split) simp
  moreover define q where "q = r div n * n"
  have b: "r = q + r mod n" "r mod n < n" using assms by (simp_all add: q_def)
  have "r \<le> i \<and> i < r + n"
  proof (cases "r mod n \<le> j")
    case True
    then have "i = q + j" by (simp add: i_def q_def)
    with b j True show ?thesis unfolding lessThan_iff by linarith
  next
    case False
    then have "i = n + q + j" by (simp add: i_def q_def)
    with b j False show ?thesis unfolding lessThan_iff by linarith
  qed
  ultimately show "j \<in> (\<lambda>i. i mod n) ` {r..<r + n}" by force
qed (use assms in auto)

text \<open>
  Rotation. As many selections in a row as there are eligible keys of the highest priority return every
  one of these keys once, whatever the value of the shared counter (short of its 64-bit wrap-around).
\<close>

theorem key_rotation_fair:
  assumes "top_keys now acc p \<noteq> []" and "distinct (top_keys now acc p)" and "rr + length (top_keys now acc p) < 2 ^ 64"
  shows "set (select_run (length (top_keys now acc p)) now acc p rr) = Inr ` set (top_keys now acc p) \<and>
    distinct (select_run (length (top_keys now acc p)) now acc p rr)"
proof -
  let ?ts = "top_keys now acc p" and ?n = "length (top_keys now acc p)"
  have keys: "pr_APIKeys p \<noteq> []" using assms(1) by (auto simp: top_keys_empty)
  have run: "select_run ?n now acc p rr = map (\<lambda>i. Inr (?ts ! (i mod ?n))) [rr..<rr + ?n]"
    by (rule select_run_rotates [OF keys assms(1,3)])
  have "(\<lambda>i. ?ts ! (i mod ?n)) ` {rr..<rr + ?n} = (!) ?ts ` {..<?n}"
    using residues_cover [of ?n rr] assms(1) by (metis image_image length_greater_0_conv)
  also have "\<dots> = set ?ts" by (metis atLeast0LessThan list.set_map map_nth set_upt)
  finally have s: "set (select_run ?n now acc p rr) = Inr ` set ?ts"
    unfolding run by (metis (no_types) image_image list.set_map set_upt)
  moreover have "card (Inr ` set ?ts) = length (select_run ?n now acc p rr)"
    using assms(2) by (simp add: run card_image distinct_card)
  ultimately show ?thesis using card_distinct [of "select_run ?n now acc p rr"] by simp
qed

definition two_keys :: Provider where
  "two_keys = sample_provider\<lparr>pr_APIKeys := [legacy_key ''k1'', legacy_key ''k2'', (legacy_key ''k3'')\<lparr>ak_Enabled := False\<rparr>]\<rparr>"

lemma two_keys_top: "top_keys 5 [] two_keys = [legacy_key ''k1'', legacy_key ''k2'']"
  by (simp add: top_keys_def two_keys_def sample_provider_defs key_eligible_def keyAllowedForAccess_def stamp_expired_def)

theorem key_rotation_fair_witness:
  "set (select_run 2 5 [] two_keys 7) = {Inr (legacy_key ''k1''), Inr (legacy_key ''k2'')}"
proof -
  have n: "length (top_keys 5 [] two_keys) = 2" by (simp add: two_keys_top)
  have "distinct (top_keys 5 [] two_keys)" "top_keys 5 [] two_keys \<noteq> []" unfolding two_keys_top by (simp_all add: legacy_key_def)
  with key_rotation_fair [of 5 "[]" two_keys 7, unfolded n] show ?thesis by (simp add: two_keys_top del: select_run.simps)
qed

section \<open>The manager keeps its invariant\<close>

text \<open>
  Keys of the map are the identifiers of the providers, and a cache that is marked valid holds what would
  be computed.
\<close>

definition cache_ok :: "Provider list \<Rightarrow> ProviderManager \<Rightarrow> bool" where
  "cache_ok presets m \<longleftrightarrow> (pm_cacheValid m \<longrightarrow> pm_cachedAll m = map Safe (GetAllRaw presets m))"

datatype pm_op =
    PAdd save_env int Provider
  | PDelete save_env string
  | PDeleteByOwner save_env string
  | PClear save_env
  | PUsage save_env int string string int
  | PResetQuota save_env int string string
  | PAddKey save_env int string string APIKeyConfig
  | PUpdateKey save_env int string string key_updates
  | PDeleteKey save_env int string string
  | PSync save_env int "string \<Rightarrow> (string \<times> string) list" string
  | PReload save_env int "string \<Rightarrow> string"
  | PGetAll

fun pm_exec :: "Provider list \<Rightarrow> pm_op \<Rightarrow> ProviderManager \<Rightarrow> ProviderManager" where
  "pm_exec presets (PAdd v now p) m = snd (pm_Add v now p m)"
| "pm_exec presets (PDelete v i) m = snd (pm_Delete v presets i m)"
| "pm_exec presets (PDeleteByOwner v owner) m = snd (DeleteByOwner v owner m)"
| "pm_exec presets (PClear v) m = snd (ClearAllAPIKeys v m)"
| "pm_exec presets (PUsage v now i k n) m = RecordKeyUsage v now i k n m"
| "pm_exec presets (PResetQuota v now i k) m = snd (ResetKeyQuota v now i k m)"
| "pm_exec presets (PAddKey v now new i key) m = snd (AddAPIKey v now new i key m)"
| "pm_exec presets (PUpdateKey v now i k u) m = snd (UpdateAPIKey v now i k u m)"
| "pm_exec presets (PDeleteKey v now i k) m = snd (DeleteAPIKey v now i k m)"
| "pm_exec presets (PSync v now fetch i) m = snd (SyncModels v now fetch presets i m)"
| "pm_exec presets (PReload v now newID) m = snd (Reload (sv_gcm v) (sv_enc v) now newID m)"
| "pm_exec presets PGetAll m = snd (GetAll presets m)"

lemma pm_save_fields [simp]:
  "pm_providers (pm_save v m) = pm_providers m" "\<not> pm_cacheValid (pm_save v m)"
  "pm_providers (pm_saveLocked v m) = pm_providers m" "\<not> pm_cacheValid (pm_saveLocked v m)"
  by (auto simp: pm_save_def pm_saveLocked_def writeFile_def Let_def)

lemma pm_ok_save [simp]: "pm_ok (pm_save v m) = pm_ok m" "pm_ok (pm_saveLocked v m) = pm_ok m"
  by (simp_all add: pm_ok_def)

lemma pm_ok_put:
  assumes "pm_ok m" and "pr_ID p = i"
  shows "pm_ok (m\<lparr>pm_providers := gput i p (pm_providers m)\<rparr>)"
  using assms by (auto simp: pm_ok_def list_all_iff set_gput)

lemma pm_ok_cong: "pm_providers m = pm_providers m' \<Longrightarrow> pm_ok m = pm_ok m'"
  by (simp add: pm_ok_def)

lemma pm_ok_get: "pm_ok m \<Longrightarrow> gget (pm_providers m) i = Some p \<Longrightarrow> pr_ID p = i"
  by (auto simp: pm_ok_def list_all_iff dest!: gget_in_set)

lemma set_keys_ok:
  assumes "pm_ok m" and "pr_ID p = i"
  shows "pm_ok (set_keys v i p m) \<and> \<not> pm_cacheValid (set_keys v i p m)"
  using pm_ok_put [OF assms] by (simp add: set_keys_def pm_ok_def)

lemma load_provider_ID [simp]: "pr_ID (load_provider gcm e now newID p) = pr_ID p"
  by (simp add: load_provider_def Let_def migrateProviderKeys_def migrateSiderType_def)

lemma pm_ok_load_all:
  "pm_ok (m\<lparr>pm_providers := m0\<rparr>) \<Longrightarrow> (\<And>p. pr_ID (f p) = pr_ID p) \<Longrightarrow> pm_ok (m\<lparr>pm_providers := load_all f ps m0\<rparr>)"
  unfolding load_all_def
proof (induction ps arbitrary: m0)
  case (Cons p ps)
  have "pm_ok (m\<lparr>pm_providers := gput (pr_ID p) (f p) m0\<rparr>)"
    using pm_ok_put [of "m\<lparr>pm_providers := m0\<rparr>" "f p" "pr_ID p"] Cons.prems by simp
  with Cons show ?case by simp
qed simp

lemma cache_ok_invalid: "\<not> pm_cacheValid m \<Longrightarrow> cache_ok presets m"
  by (simp add: cache_ok_def)

lemma cache_ok_cong:
  "cache_ok presets m \<Longrightarrow> pm_providers m' = pm_providers m \<Longrightarrow> pm_cacheValid m' = pm_cacheValid m \<Longrightarrow> pm_cachedAll m' = pm_cachedAll m \<Longrightarrow> cache_ok presets m'"
  by (simp add: cache_ok_def GetAllRaw_def sortedConfiguredLocked_def)

lemma DeleteByOwner_ok:
  assumes "pm_ok m" and "cache_ok presets m"
  shows "pm_ok (snd (DeleteByOwner v owner m)) \<and> cache_ok presets (snd (DeleteByOwner v owner m))"
proof -
  let ?m1 = "m\<lparr>pm_providers := gfilter (\<lambda>i p. pr_Owner p \<noteq> owner) (pm_providers m)\<rparr>"
  have ok: "pm_ok ?m1" using assms(1) by (auto simp: pm_ok_def list_all_iff gfilter_def gmap_ok_filter)
  show ?thesis
  proof (cases "filter (\<lambda>e. pr_Owner (snd e) = owner) (pm_providers m) = []")
    case True
    then have "?m1 = m" by (simp add: gfilter_def filter_empty_conv filter_id_conv)
    with True assms show ?thesis by (simp add: DeleteByOwner_def Let_def)
  next
    case False
    then have "snd (DeleteByOwner v owner m) = pm_saveLocked v ?m1" by (simp add: DeleteByOwner_def Let_def)
    with ok show ?thesis by (simp add: cache_ok_invalid)
  qed
qed

lemma ClearAllAPIKeys_ok:
  assumes "pm_ok m" and "cache_ok presets m"
  shows "pm_ok (snd (ClearAllAPIKeys v m)) \<and> cache_ok presets (snd (ClearAllAPIKeys v m))"
proof -
  let ?f = "\<lambda>p. p\<lparr>pr_APIKey := [], pr_APIKeys := []\<rparr>"
  let ?m1 = "m\<lparr>pm_providers := gmapv ?f (pm_providers m)\<rparr>"
  let ?c = "sum_list (map (\<lambda>e. (if pr_APIKey (snd e) \<noteq> [] then 1 else 0) + (if pr_APIKeys (snd e) \<noteq> [] then 1 else 0)) (pm_providers m)) :: nat"
  have "list_all (\<lambda>e. pr_ID (snd e) = fst e) (gmapv ?f (pm_providers m))"
    using assms(1) by (auto simp: pm_ok_def list_all_iff gmapv_def)
  then have ok: "pm_ok ?m1" using assms(1) by (simp add: pm_ok_def)
  have r: "snd (ClearAllAPIKeys v m) = (if ?c > 0 then pm_saveLocked v ?m1 else ?m1)" by (simp add: ClearAllAPIKeys_def Let_def)
  have "?m1 = m" if "?c = 0"
  proof -
    have "?f (snd e) = snd e" if "e \<in> set (pm_providers m)" for e
      using that \<open>?c = 0\<close> by (cases "snd e") (auto split: if_splits)
    then have "gmapv ?f (pm_providers m) = pm_providers m" by (auto simp: gmapv_def intro!: map_idI)
    then show ?thesis by simp
  qed
  with r ok assms show ?thesis by (cases "?c = 0") (simp_all add: cache_ok_invalid)
qed

lemma key_op_ok:
  assumes "pm_ok m" and "gget (pm_providers m) i = Some p" and "pr_ID q = pr_ID p"
  shows "pm_ok (set_keys v i q m)" and "cache_ok presets (set_keys v i q m)"
  using set_keys_ok [OF assms(1), of q i v] pm_ok_get [OF assms(1,2)] assms(3) by (simp_all add: cache_ok_invalid)

lemma pm_exec_ok:
  assumes "pm_ok m" and "cache_ok presets m"
  shows "pm_ok (pm_exec presets op m) \<and> cache_ok presets (pm_exec presets op m)"
proof (cases op)
  case (PAdd v now p)
  then show ?thesis by (simp add: pm_Add_def Let_def pm_ok_put [OF assms(1)] cache_ok_invalid)
next
  case (PDelete v i)
  have "pm_ok (m\<lparr>pm_providers := gdel i (pm_providers m)\<rparr>)" using assms(1) by (auto simp: pm_ok_def list_all_iff gdel_def gmap_ok_filter)
  moreover have "pm_ok (m\<lparr>pm_providers := gput i p (pm_providers m)\<rparr>)" if "pr_ID p = i" for p using that by (rule pm_ok_put [OF assms(1)])
  ultimately show ?thesis
    using PDelete assms by (auto simp: pm_Delete_def split: option.splits intro!: cache_ok_invalid)
next
  case (PDeleteByOwner v owner)
  then show ?thesis using DeleteByOwner_ok [OF assms] by simp
next
  case (PClear v)
  then show ?thesis using ClearAllAPIKeys_ok [OF assms] by simp
next
  case (PUsage v now i k n)
  then show ?thesis using assms by (auto simp: RecordKeyUsage_def key_op_ok split: option.splits)
next
  case (PResetQuota v now i k)
  then show ?thesis using assms by (auto simp: ResetKeyQuota_def key_op_ok split: option.splits)
next
  case (PAddKey v now new i key)
  then show ?thesis using assms by (auto simp: AddAPIKey_def Let_def key_op_ok split: option.splits)
next
  case (PUpdateKey v now i k u)
  then show ?thesis using assms by (auto simp: UpdateAPIKey_def key_op_ok split: option.splits)
next
  case (PDeleteKey v now i k)
  then show ?thesis using assms by (auto simp: DeleteAPIKey_def key_op_ok split: option.splits)
next
  case (PSync v now fetch i)
  have "pm_ok (m\<lparr>pm_providers := gput i (ex\<lparr>pr_Models := ms, pr_UpdatedAt := t\<rparr>) (pm_providers m)\<rparr>)"
    if "gget (pm_providers m) i = Some ex" for ex ms t
    by (rule pm_ok_put [OF assms(1)]) (simp add: pm_ok_get [OF assms(1) that])
  then show ?thesis
    using PSync assms by (auto simp: SyncModels_def Let_def split: option.splits intro!: cache_ok_invalid)
next
  case (PReload v now newID)
  have "pm_ok (m\<lparr>pm_providers := load_all (load_provider (sv_gcm v) (sv_enc v) now newID) ps []\<rparr>)" for ps
    by (rule pm_ok_load_all) (simp_all add: pm_ok_def)
  then show ?thesis
    using PReload assms by (auto simp: Reload_def pm_ok_def split: stored_file.splits intro!: cache_ok_invalid)
next
  case PGetAll
  then show ?thesis
    using assms by (auto simp: GetAll_def Let_def pm_ok_def cache_ok_def GetAllRaw_def sortedConfiguredLocked_def)
qed

text \<open>
  The provider manager. From start-up on any file, whatever operations follow, with whatever write
  outcomes: the providers are stored under their own identifiers without repetition, and the masked list
  that is served, cached or not, is the masked form of the list that routing uses.
\<close>

theorem provider_manager_invariant:
  fixes gcm e now newID f presets ops
  defines "m \<equiv> fold (pm_exec presets) ops (initProviderManager gcm e now newID f)"
  shows "pm_ok m \<and> fst (GetAll presets m) = map Safe (GetAllRaw presets m)"
proof -
  have "pm_ok (\<lparr>pm_providers = [], pm_file = f, pm_cacheValid = False, pm_cachedAll = []\<rparr>
      \<lparr>pm_providers := load_all (load_provider gcm e now newID) ps []\<rparr>)" for ps
    by (rule pm_ok_load_all) (simp_all add: pm_ok_def)
  then have "pm_ok (initProviderManager gcm e now newID f)"
    by (cases f) (simp_all add: initProviderManager_def pm_ok_def)
  moreover have "cache_ok presets (initProviderManager gcm e now newID f)"
    by (rule cache_ok_invalid) (simp add: initProviderManager_def)
  moreover have "pm_ok s \<Longrightarrow> cache_ok presets s \<Longrightarrow> pm_ok (fold (pm_exec presets) ops s) \<and> cache_ok presets (fold (pm_exec presets) ops s)" for s
    by (induction ops arbitrary: s) (use pm_exec_ok in auto)
  ultimately have "pm_ok m \<and> cache_ok presets m" unfolding m_def by blast
  then show ?thesis by (auto simp: cache_ok_def GetAll_def GetAllRaw_def Let_def)
qed

section \<open>The order of the providers\<close>

lemma sorted_ids_unique:
  assumes "gmap_ok m" and "gmap_ok m'" and "\<And>i. gget m i = gget m' i"
  shows "sort (map fst m) = sort (map fst (m' :: (string, Provider) gomap))"
proof -
  have "set (map fst m) = set (map fst m')"
  proof (rule set_eqI)
    fix i show "i \<in> set (map fst m) \<longleftrightarrow> i \<in> set (map fst m')"
      using assms(3) [of i] gget_None_iff [of m i] gget_None_iff [of m' i] by auto
  qed
  then show ?thesis
    using assms(1,2) by (intro sorted_distinct_set_unique) (auto simp: gmap_ok_def)
qed

text \<open>
  Deterministic order. The lists of providers that routing and listing use depend on the stored
  providers only, not on the order in which the map is traversed; no identifier occurs twice when the
  presets have distinct identifiers, and every configured provider hides the preset of the same name.
\<close>

theorem provider_order_deterministic:
  assumes "pm_ok m" and "pm_ok m'" and "\<And>i. gget (pm_providers m) i = gget (pm_providers m') i"
  shows "GetAllRaw presets m = GetAllRaw presets m' \<and> distinct (map pr_ID (GetAllRaw presets m)) \<and>
    (\<forall>p \<in> set (GetAllRaw presets m). GetRaw presets (pr_ID p) m = Some p)"
proof -
  have eq: "sortedConfiguredLocked m = sortedConfiguredLocked m'"
    using sorted_ids_unique [of "pm_providers m" "pm_providers m'"] assms
    by (simp add: sortedConfiguredLocked_def gget0_def pm_ok_def)
  let ?own = "sortedConfiguredLocked m"
  have in_own: "gget (pm_providers m) (pr_ID p) = Some p" if "p \<in> set ?own" for p
  proof -
    from that obtain e where e: "e \<in> set (pm_providers m)" "p = gget0 zero_provider (pm_providers m) (fst e)"
      by (auto simp: sortedConfiguredLocked_def)
    with assms(1) have "gget (pm_providers m) (fst e) = Some (snd e)" by (intro in_set_gget) (auto simp: pm_ok_def)
    with e assms(1) show ?thesis by (simp add: gget0_def pm_ok_get)
  qed
  have ids: "map pr_ID ?own = sort (map fst (pm_providers m))"
  proof -
    have "pr_ID (gget0 zero_provider (pm_providers m) i) = i" if "i \<in> set (map fst (pm_providers m))" for i
      using that gget_None_iff [of "pm_providers m" i] pm_ok_get [OF assms(1), of i]
      by (cases "gget (pm_providers m) i") (auto simp: gget0_def)
    then show ?thesis unfolding sortedConfiguredLocked_def map_map comp_def by (intro map_idI) simp
  qed
  have un: "distinct (map pr_ID (unseen seen ps)) \<and> set (map pr_ID (unseen seen ps)) \<inter> set seen = {} \<and>
      (\<forall>p \<in> set (unseen seen ps). find (\<lambda>q. pr_ID q = pr_ID p) ps = Some p)" for seen ps
    by (induction seen ps rule: unseen.induct) (auto, blast+)
  have none: "gget (pm_providers m) (pr_ID p) = None" if "p \<in> set (unseen (map pr_ID ?own) presets)" for p
    using that un [of "map pr_ID ?own" presets] by (auto simp: gget_None_iff ids)
  have "distinct (map pr_ID ?own)" using assms(1) unfolding ids by (simp add: pm_ok_def gmap_ok_def)
  then have "distinct (map pr_ID (GetAllRaw presets m))"
    using un [of "map pr_ID ?own" presets] by (auto simp: GetAllRaw_def Let_def)
  moreover have "GetRaw presets (pr_ID p) m = Some p" if "p \<in> set (GetAllRaw presets m)" for p
    using that in_own none un [of "map pr_ID ?own" presets] by (auto simp: GetAllRaw_def Let_def GetRaw_def)
  ultimately show ?thesis using eq by (auto simp: GetAllRaw_def)
qed

definition order_a :: ProviderManager where
  "order_a = sample_manager\<lparr>pm_providers := [(''b'', zero_provider\<lparr>pr_ID := ''b''\<rparr>), (''a'', zero_provider\<lparr>pr_ID := ''a''\<rparr>)]\<rparr>"

definition order_b :: ProviderManager where
  "order_b = sample_manager\<lparr>pm_providers := [(''a'', zero_provider\<lparr>pr_ID := ''a''\<rparr>), (''b'', zero_provider\<lparr>pr_ID := ''b''\<rparr>)]\<rparr>"

theorem provider_order_deterministic_witness:
  "GetAllRaw [sample_provider] order_a = GetAllRaw [sample_provider] order_b"
  using provider_order_deterministic [of order_a order_b "[sample_provider]"]
  by (simp add: order_a_def order_b_def pm_ok_def)

section \<open>Observations\<close>

text \<open>
  Deleting a preset stores a disabled provider in its place; deleting it a second time removes that
  provider, and the preset is back.
\<close>

lemma delete_twice_restores_preset:
  assumes "gget (pm_providers m) i = None" and "find (\<lambda>p. pr_ID p = i) presets = Some p"
  shows "map_option pr_Enabled (GetRaw presets i (snd (pm_Delete v presets i m))) = Some False"
    and "GetRaw presets i (snd (pm_Delete v presets i (snd (pm_Delete v presets i m)))) = Some p"
  using assms by (simp_all add: pm_Delete_def GetRaw_def zero_provider_def)

text \<open>
  \<open>EnabledRaw\<close> marks only enabled providers as seen, so a preset that was deleted or disabled is still
  returned, while the routing list leaves it out.
\<close>

lemma deleted_preset_still_enabled:
  assumes "gget (pm_providers m) i = None" and "find (\<lambda>p. pr_ID p = i) presets = Some p" and "pr_Enabled p" and "pm_ok m"
  shows "p \<in> set (EnabledRaw presets (snd (pm_Delete v presets i m)))"
proof -
  have p: "p \<in> set presets" "pr_ID p = i" using assms(2) by (auto simp: find_Some_iff)
  have disabled: "\<not> pr_Enabled (zero_provider\<lparr>pr_ID := i, pr_Name := n, pr_Type := t, pr_BaseURL := b\<rparr>)" for i n t b
    by (simp add: zero_provider_def)
  have "pr_ID q \<noteq> i" if "q \<in> snd ` set (pm_providers m)" for q
    using that assms(1,4) by (auto simp: pm_ok_def list_all_iff gget_None_iff rev_image_eqI)
  then have "i \<notin> set (map pr_ID (filter pr_Enabled (map snd (gput i z (pm_providers m)))))" if "\<not> pr_Enabled z" for z
    using that assms(4) by (auto simp: set_gput pm_ok_def)
  with disabled p assms show ?thesis by (simp add: EnabledRaw_def pm_Delete_def Let_def)
qed

text \<open>The single legacy key is handed out for every kind of access, though it is labelled private.\<close>

lemma legacy_key_ignores_access:
  assumes "pr_APIKeys p = []" and "pr_APIKey p \<noteq> []"
  shows "fst (SelectAPIKey now ''public'' p rr) = Inr (legacy_key (pr_APIKey p)) \<and>
    \<not> keyAllowedForAccess (ak_AccessControl (legacy_key (pr_APIKey p))) ''public''"
  using assms by (simp add: SelectAPIKey_def legacy_key_def keyAllowedForAccess_def)

end
