(* ===== verification/Guest_Keys.thy ===== *)
theory Guest_Keys
  imports Calendar Hex_Text Storage_Model "HOL-Library.Sublist"
begin

text \<open>
  Key classes, guest keys and their local quotas: \<open>src/network_keys.go\<close>.

  Times are UTC nanoseconds (\<open>AddDate\<close> adds days of 24 hours). The random part of a key is an argument
  of the operation that draws it. The store of issued keys is a list in the order of issue and the file
  it is saved to; the usage tracker keeps three windows, each with the key of the window it counts in
  (\<open>None\<close> is the empty stamp of a tracker that was just built).
\<close>

section \<open>Classes of keys\<close>

datatype KeyType = KeyTypeProxy | KeyTypeGuest | KeyTypePublic | KeyTypeUnknown

definition PublicKeyValue :: string where
  "PublicKeyValue = ''sk-openmodelpool-com-github-lisiyu-openmodelpool-public-key-v1''"

definition ClassifyKey :: "string \<Rightarrow> KeyType" where
  "ClassifyKey key =
     (if key = PublicKeyValue then KeyTypePublic
      else if prefix ''sk-guest-'' key then KeyTypeGuest
      else if prefix ''sk-'' key then KeyTypeProxy
      else KeyTypeUnknown)"

section \<open>Issued keys\<close>

record GuestKeyRecord =
  gr_Key :: string
  gr_NodeID :: string
  gr_RandomPart :: string
  gr_IssuedAt :: stamp
  gr_Revoked :: bool
  gr_Quota :: int
  gr_QuotaHourly :: int
  gr_QuotaPerRequest :: int
  gr_RPM :: int
  gr_ExpDays :: int
  gr_ExpiresAt :: stamp
  gr_Note :: string
  gr_ShareType :: string

record GuestKeyOptions =
  go_Quota :: int
  go_QuotaHourly :: int
  go_QuotaPerRequest :: int
  go_RPM :: int
  go_ExpDays :: int
  go_Note :: string

record GuestKeyStore =
  gks_keys :: "GuestKeyRecord list"
  gks_file :: "GuestKeyRecord list stored_file"

datatype guest_error = NodeIDRequired | GuestKeyNotFound | NotRevoked | ShareTypeLocked string

definition gks_load :: "GuestKeyStore \<Rightarrow> GuestKeyStore" where
  "gks_load s = (case gks_file s of Content rs \<Rightarrow> s\<lparr>gks_keys := rs\<rparr> | _ \<Rightarrow> s)"

definition gks_save :: "io_env \<Rightarrow> GuestKeyStore \<Rightarrow> GuestKeyStore" where
  "gks_save io s = s\<lparr>gks_file := atomicWriteFile io (gks_keys s) (gks_file s)\<rparr>"

definition initGuestKeyStore :: "GuestKeyRecord list stored_file \<Rightarrow> GuestKeyStore" where
  "initGuestKeyStore f = gks_load \<lparr>gks_keys = [], gks_file = f\<rparr>"

definition guest_key_text :: "string \<Rightarrow> byte list \<Rightarrow> string" where
  "guest_key_text nodeID rnd = ''sk-guest-'' @ nodeID @ ''-'' @ hexEncode rnd"

definition GenerateGuestKey ::
    "io_env \<Rightarrow> int \<Rightarrow> byte list \<Rightarrow> string \<Rightarrow> GuestKeyOptions \<Rightarrow> GuestKeyStore \<Rightarrow> guest_error + string \<times> GuestKeyStore" where
  "GenerateGuestKey io now rnd nodeID opt s =
     (if nodeID = [] then Inl NodeIDRequired
      else
        let fullKey = guest_key_text nodeID rnd;
            rec = \<lparr>gr_Key = fullKey, gr_NodeID = nodeID, gr_RandomPart = hexEncode rnd, gr_IssuedAt = format_stamp now,
                   gr_Revoked = False, gr_Quota = go_Quota opt, gr_QuotaHourly = go_QuotaHourly opt,
                   gr_QuotaPerRequest = go_QuotaPerRequest opt, gr_RPM = go_RPM opt, gr_ExpDays = go_ExpDays opt,
                   gr_ExpiresAt = (if go_ExpDays opt > 0 then format_stamp (now + go_ExpDays opt * ns_day) else NoStamp),
                   gr_Note = go_Note opt, gr_ShareType = []\<rparr>
        in Inr (fullKey, gks_save io (s\<lparr>gks_keys := gks_keys s @ [rec]\<rparr>)))"

text \<open>The last dash splits the node from the random part, since node identifiers contain dashes.\<close>

definition last_dash :: "string \<Rightarrow> nat option" where
  "last_dash s = (if CHR ''-'' \<in> set s then Some (length s - 1 - length (takeWhile (\<lambda>c. c \<noteq> CHR ''-'') (rev s))) else None)"

definition ParseGuestKeyFormat :: "string \<Rightarrow> string option" where
  "ParseGuestKeyFormat key =
     (if \<not> prefix ''sk-guest-'' key then None
      else
        let rest = drop 9 key
        in case last_dash rest of
             None \<Rightarrow> None
           | Some idx \<Rightarrow> if idx = 0 \<or> idx = length rest - 1 then None else Some (take idx rest))"

definition find_guest :: "string \<Rightarrow> GuestKeyStore \<Rightarrow> GuestKeyRecord option" where
  "find_guest key s = find (\<lambda>r. gr_Key r = key) (gks_keys s)"

definition guest_live :: "int \<Rightarrow> GuestKeyRecord \<Rightarrow> bool" where
  "guest_live now r \<longleftrightarrow> \<not> gr_Revoked r \<and> \<not> stamp_expired now (gr_ExpiresAt r)"

definition ValidateGuestKey :: "int \<Rightarrow> string \<Rightarrow> GuestKeyStore option \<Rightarrow> string option" where
  "ValidateGuestKey now key store =
     (case ParseGuestKeyFormat key of
        None \<Rightarrow> None
      | Some _ \<Rightarrow>
          (case store of
             None \<Rightarrow> None
           | Some s \<Rightarrow>
               (case find_guest key s of
                  None \<Rightarrow> None
                | Some r \<Rightarrow> if guest_live now r then Some (gr_NodeID r) else None)))"

text \<open>
  \<open>shared\<close> is whether there is a network manager in shared mode. \<open>None\<close> is an invalid key, otherwise
  the issuing node and whether the public pool is open to the key.
\<close>

definition GetGuestKeyAccessPublicPool :: "int \<Rightarrow> bool \<Rightarrow> string \<Rightarrow> GuestKeyStore option \<Rightarrow> (string \<times> bool) option" where
  "GetGuestKeyAccessPublicPool now shared key store =
     (if \<not> prefix ''sk-guest-'' key then None
      else case store of
        None \<Rightarrow> None
      | Some s \<Rightarrow>
          (case find_guest key s of
             None \<Rightarrow> None
           | Some r \<Rightarrow> if guest_live now r then Some (gr_NodeID r, shared) else None))"

fun update_guest :: "string \<Rightarrow> (GuestKeyRecord \<Rightarrow> GuestKeyRecord) \<Rightarrow> GuestKeyRecord list \<Rightarrow> GuestKeyRecord list" where
  "update_guest key f [] = []"
| "update_guest key f (r # rs) = (if gr_Key r = key then f r # rs else r # update_guest key f rs)"

fun remove_guest :: "string \<Rightarrow> GuestKeyRecord list \<Rightarrow> GuestKeyRecord list" where
  "remove_guest key [] = []"
| "remove_guest key (r # rs) = (if gr_Key r = key then rs else r # remove_guest key rs)"

definition set_guest :: "io_env \<Rightarrow> string \<Rightarrow> (GuestKeyRecord \<Rightarrow> GuestKeyRecord) \<Rightarrow> GuestKeyStore \<Rightarrow> GuestKeyStore" where
  "set_guest io key f s = gks_save io (s\<lparr>gks_keys := update_guest key f (gks_keys s)\<rparr>)"

definition RevokeGuestKey :: "io_env \<Rightarrow> string \<Rightarrow> GuestKeyStore \<Rightarrow> guest_error + GuestKeyStore" where
  "RevokeGuestKey io key s =
     (case find_guest key s of
        None \<Rightarrow> Inl GuestKeyNotFound
      | Some _ \<Rightarrow> Inr (set_guest io key (\<lambda>r. r\<lparr>gr_Revoked := True\<rparr>) s))"

definition DeleteGuestKey :: "io_env \<Rightarrow> string \<Rightarrow> GuestKeyStore \<Rightarrow> guest_error + GuestKeyStore" where
  "DeleteGuestKey io key s =
     (case find_guest key s of
        None \<Rightarrow> Inl GuestKeyNotFound
      | Some r \<Rightarrow>
          if \<not> gr_Revoked r then Inl NotRevoked
          else Inr (gks_save io (s\<lparr>gks_keys := remove_guest key (gks_keys s)\<rparr>)))"

definition SetShareType :: "io_env \<Rightarrow> string \<Rightarrow> string \<Rightarrow> GuestKeyStore \<Rightarrow> guest_error + GuestKeyStore" where
  "SetShareType io key shareType s =
     (case find_guest key s of
        None \<Rightarrow> Inl GuestKeyNotFound
      | Some r \<Rightarrow>
          if gr_ShareType r \<noteq> [] then Inl (ShareTypeLocked (gr_ShareType r))
          else Inr (set_guest io key (\<lambda>r. r\<lparr>gr_ShareType := shareType\<rparr>) s))"

definition GetShareType :: "string \<Rightarrow> GuestKeyStore \<Rightarrow> string" where
  "GetShareType key s = (case find_guest key s of None \<Rightarrow> [] | Some r \<Rightarrow> gr_ShareType r)"

text \<open>
  The mark is the UTF-8 text of a bracketed word; its first three bytes decide whether a note carries
  it. The comparison of a slice of four bytes with the eight bytes of the mark is never true.
\<close>

definition collab_mark :: string where
  "collab_mark = CHR ''['' # map char_of [0xE5 :: nat, 0x8D, 0x8F, 0xE4, 0xBD, 0x9C] @ '']''"

definition MarkAsCollaborator :: "io_env \<Rightarrow> string \<Rightarrow> GuestKeyStore \<Rightarrow> guest_error + GuestKeyStore" where
  "MarkAsCollaborator io key s =
     (case find_guest key s of
        None \<Rightarrow> Inl GuestKeyNotFound
      | Some r \<Rightarrow>
          let note = gr_Note r in
          if note \<noteq> [] \<and> take 1 note = ''['' \<and> length note > 4 \<and> take 4 note = collab_mark then Inr s
          else if length note \<ge> 3 \<and> take 3 note = take 3 collab_mark then Inr s
          else Inr (set_guest io key (\<lambda>r. r\<lparr>gr_Note := (if note \<noteq> [] then collab_mark @ '' '' @ note else collab_mark)\<rparr>) s))"

definition UpdateGuestKeyQuotaMulti ::
    "io_env \<Rightarrow> string \<Rightarrow> int option \<Rightarrow> int option \<Rightarrow> int option \<Rightarrow> int option \<Rightarrow> GuestKeyStore \<Rightarrow> guest_error + GuestKeyStore" where
  "UpdateGuestKeyQuotaMulti io key quota quotaHourly quotaPerRequest rpm s =
     (case find_guest key s of
        None \<Rightarrow> Inl GuestKeyNotFound
      | Some _ \<Rightarrow>
          Inr (set_guest io key (\<lambda>r. r\<lparr>gr_Quota := (case quota of Some v \<Rightarrow> v | None \<Rightarrow> gr_Quota r),
                gr_QuotaHourly := (case quotaHourly of Some v \<Rightarrow> v | None \<Rightarrow> gr_QuotaHourly r),
                gr_QuotaPerRequest := (case quotaPerRequest of Some v \<Rightarrow> v | None \<Rightarrow> gr_QuotaPerRequest r),
                gr_RPM := (case rpm of Some v \<Rightarrow> v | None \<Rightarrow> gr_RPM r)\<rparr>) s))"

definition UpdateGuestKeyQuota :: "io_env \<Rightarrow> string \<Rightarrow> int \<Rightarrow> GuestKeyStore \<Rightarrow> guest_error + GuestKeyStore" where
  "UpdateGuestKeyQuota io key quota s = UpdateGuestKeyQuotaMulti io key (Some quota) None None None s"

definition GetGuestKeyRecord :: "string \<Rightarrow> GuestKeyStore \<Rightarrow> GuestKeyRecord option" where
  "GetGuestKeyRecord key s = find_guest key s"

section \<open>Local quotas of a guest key\<close>

record guestKeyUsageTracker =
  gt_usage :: "(string, int) gomap"
  gt_day :: "int option"
  gt_hourly :: "(string, int) gomap"
  gt_hour :: "int option"
  gt_rpm :: "(string, int) gomap"
  gt_minute :: "int option"

text \<open>A journal on disk may lack a map; the tracker then keeps its empty one.\<close>

record guestUsageJournal =
  gj_Day :: "int option"
  gj_Usage :: "(string, int) gomap option"
  gj_Hour :: "int option"
  gj_Hourly :: "(string, int) gomap option"
  gj_Minute :: "int option"
  gj_RPM :: "(string, int) gomap option"

definition initGuestKeyUsageTracker :: guestKeyUsageTracker where
  "initGuestKeyUsageTracker =
     \<lparr>gt_usage = [], gt_day = None, gt_hourly = [], gt_hour = None, gt_rpm = [], gt_minute = None\<rparr>"

definition initGuestKeyUsageTrackerWithDir :: "guestUsageJournal stored_file \<Rightarrow> guestKeyUsageTracker" where
  "initGuestKeyUsageTrackerWithDir f =
     (case f of
        Content j \<Rightarrow>
          \<lparr>gt_usage = (case gj_Usage j of Some m \<Rightarrow> m | None \<Rightarrow> []), gt_day = gj_Day j,
           gt_hourly = (case gj_Hourly j of Some m \<Rightarrow> m | None \<Rightarrow> []), gt_hour = gj_Hour j,
           gt_rpm = (case gj_RPM j of Some m \<Rightarrow> m | None \<Rightarrow> []), gt_minute = gj_Minute j\<rparr>
      | _ \<Rightarrow> initGuestKeyUsageTracker)"

definition usage_journal :: "guestKeyUsageTracker \<Rightarrow> guestUsageJournal" where
  "usage_journal t =
     \<lparr>gj_Day = gt_day t, gj_Usage = Some (gt_usage t), gj_Hour = gt_hour t, gj_Hourly = Some (gt_hourly t),
      gj_Minute = gt_minute t, gj_RPM = Some (gt_rpm t)\<rparr>"

definition ensureJournals :: "int \<Rightarrow> guestKeyUsageTracker \<Rightarrow> guestKeyUsageTracker" where
  "ensureJournals now t =
     \<lparr>gt_usage = (if gt_day t \<noteq> Some (day_number now) \<and> gt_day t \<noteq> None then [] else gt_usage t),
      gt_day = Some (day_number now),
      gt_hourly = (if gt_hour t \<noteq> Some (hour_key now) \<and> gt_hour t \<noteq> None then [] else gt_hourly t),
      gt_hour = Some (hour_key now),
      gt_rpm = (if gt_minute t \<noteq> Some (minute_key now) \<and> gt_minute t \<noteq> None then [] else gt_rpm t),
      gt_minute = Some (minute_key now)\<rparr>"

definition used_of :: "string \<Rightarrow> (string, int) gomap \<Rightarrow> int" where
  "used_of key m = gget0 0 m key"

definition CheckAndReserve ::
    "int \<Rightarrow> string \<Rightarrow> int \<Rightarrow> int \<Rightarrow> guestKeyUsageTracker \<Rightarrow> (bool \<times> int) \<times> guestKeyUsageTracker" where
  "CheckAndReserve now key quota estimated t =
     (if quota \<le> 0 then ((True, 0), t)
      else
        let t' = ensureJournals now t; used = used_of key (gt_usage t'); remaining = i64 (quota - used) in
        if remaining \<le> 0 then ((False, 0), t')
        else if estimated > 0 \<and> estimated \<le> remaining
        then ((True, i64 (remaining - estimated)), t'\<lparr>gt_usage := gput key (i64 (used + estimated)) (gt_usage t')\<rparr>)
        else if estimated \<le> 0 then ((True, remaining), t')
        else ((False, remaining), t'))"

text \<open>One window refuses when nothing is left of its limit or the estimate is more than what is left.\<close>

definition window_refuses :: "int \<Rightarrow> int \<Rightarrow> int \<Rightarrow> bool" where
  "window_refuses limit used estimated \<longleftrightarrow>
     limit > 0 \<and> (i64 (limit - used) \<le> 0 \<or> (estimated > 0 \<and> estimated > i64 (limit - used)))"

definition bump :: "string \<Rightarrow> int \<Rightarrow> (string, int) gomap \<Rightarrow> (string, int) gomap" where
  "bump key n m = gput key (i64 (used_of key m + n)) m"

definition CheckAndReserveFull ::
    "int \<Rightarrow> string \<Rightarrow> int \<Rightarrow> int \<Rightarrow> int \<Rightarrow> int \<Rightarrow> int \<Rightarrow> guestKeyUsageTracker \<Rightarrow> (bool \<times> int) \<times> guestKeyUsageTracker" where
  "CheckAndReserveFull now key quotaDaily quotaHourly quotaPerRequest rpm estimated t =
     (let t0 = ensureJournals now t in
      if quotaPerRequest > 0 \<and> estimated > quotaPerRequest then ((False, 0), t0)
      else if window_refuses quotaDaily (used_of key (gt_usage t0)) estimated then ((False, 0), t0)
      else if window_refuses quotaHourly (used_of key (gt_hourly t0)) estimated then ((False, 0), t0)
      else if rpm > 0 \<and> used_of key (gt_rpm t0) \<ge> rpm then ((False, i64 (rpm - used_of key (gt_rpm t0))), t0)
      else
        let t1 = t0\<lparr>gt_usage := (if quotaDaily > 0 \<and> estimated > 0 then bump key estimated (gt_usage t0) else gt_usage t0),
                    gt_hourly := (if quotaHourly > 0 \<and> estimated > 0 then bump key estimated (gt_hourly t0) else gt_hourly t0),
                    gt_rpm := bump key 1 (gt_rpm t0)\<rparr>
        in ((True, i64 (rpm - used_of key (gt_rpm t1))), t1))"

definition floor_at_zero :: "string \<Rightarrow> (string, int) gomap \<Rightarrow> (string, int) gomap" where
  "floor_at_zero key m = (if used_of key m < 0 then gput key 0 m else m)"

definition gk_Adjust :: "int \<Rightarrow> string \<Rightarrow> int \<Rightarrow> int \<Rightarrow> guestKeyUsageTracker \<Rightarrow> guestKeyUsageTracker" where
  "gk_Adjust now key reserved actual t =
     (if reserved \<le> 0 \<and> actual \<le> 0 then t
      else
        let t0 = ensureJournals now t; diff = i64 (actual - reserved)
        in t0\<lparr>gt_usage := floor_at_zero key (bump key diff (gt_usage t0)),
              gt_hourly := floor_at_zero key (bump key diff (gt_hourly t0))\<rparr>)"

datatype deny_reason = PerRequestTooLarge | RateSaturated | HourlyUsedUp | LocalUsedUp

definition guestQuotaDenyReason :: "int \<Rightarrow> int \<Rightarrow> int \<Rightarrow> int \<Rightarrow> int \<Rightarrow> int \<Rightarrow> deny_reason" where
  "guestQuotaDenyReason quotaPerRequest quotaDaily quotaHourly rpm estimated remaining =
     (if quotaPerRequest > 0 \<and> estimated > quotaPerRequest then PerRequestTooLarge
      else if rpm > 0 \<and> remaining \<le> 0 then RateSaturated
      else if quotaHourly > 0 then HourlyUsedUp
      else LocalUsedUp)"

definition gk_GetUsage :: "int \<Rightarrow> string \<Rightarrow> guestKeyUsageTracker \<Rightarrow> int \<times> guestKeyUsageTracker" where
  "gk_GetUsage now key t = (let t0 = ensureJournals now t in (used_of key (gt_usage t0), t0))"

section \<open>Handlers\<close>

fun guest_error_text :: "guest_error \<Rightarrow> string" where
  "guest_error_text NodeIDRequired = ''node_id is required''"
| "guest_error_text GuestKeyNotFound = ''guest key not found''"
| "guest_error_text NotRevoked = ''key must be revoked before deletion''"
| "guest_error_text (ShareTypeLocked t) = ''share type already locked as: '' @ t"

definition no_options :: GuestKeyOptions where
  "no_options = \<lparr>go_Quota = 0, go_QuotaHourly = 0, go_QuotaPerRequest = 0, go_RPM = 0, go_ExpDays = 0, go_Note = []\<rparr>"

text \<open>\<open>body\<close> is the decoded body, \<open>None\<close> when there is none or it does not decode: both leave the defaults.\<close>

definition handleGuestKeyIssue ::
    "io_env \<Rightarrow> int \<Rightarrow> byte list \<Rightarrow> string \<Rightarrow> GuestKeyOptions option \<Rightarrow> GuestKeyStore \<Rightarrow> string http_result \<times> GuestKeyStore" where
  "handleGuestKeyIssue io now rnd nodeID body s =
     (let opts = (case body of Some b \<Rightarrow> b | None \<Rightarrow> no_options) in
      if nodeID = [] then (HttpError 400 ''node not initialized'', s)
      else if go_Quota opts < 0 then (HttpError 400 ''quota must be >= 0'', s)
      else if go_QuotaHourly opts < 0 then (HttpError 400 ''quota_hourly must be >= 0'', s)
      else if go_QuotaPerRequest opts < 0 then (HttpError 400 ''quota_per_request must be >= 0'', s)
      else if go_RPM opts < 0 then (HttpError 400 ''rpm must be >= 0'', s)
      else if go_ExpDays opts < 0 then (HttpError 400 ''exp_days must be >= 0'', s)
      else
        case GenerateGuestKey io now rnd nodeID opts s of
          Inl e \<Rightarrow> (HttpError 400 (guest_error_text e), s)
        | Inr (key, s') \<Rightarrow> (HttpOK key, s'))"

definition guest_reply :: "nat \<Rightarrow> guest_error + GuestKeyStore \<Rightarrow> GuestKeyStore \<Rightarrow> string http_result \<times> GuestKeyStore" where
  "guest_reply code r s = (case r of Inl e \<Rightarrow> (HttpError code (guest_error_text e), s) | Inr s' \<Rightarrow> (HttpOK [], s'))"

definition handleGuestKeyRevoke :: "io_env \<Rightarrow> string \<Rightarrow> GuestKeyStore \<Rightarrow> string http_result \<times> GuestKeyStore" where
  "handleGuestKeyRevoke io key s =
     (if key = [] then (HttpError 400 ''key parameter is required'', s)
      else guest_reply 404 (RevokeGuestKey io key s) s)"

definition handleGuestKeyDelete :: "io_env \<Rightarrow> string \<Rightarrow> GuestKeyStore \<Rightarrow> string http_result \<times> GuestKeyStore" where
  "handleGuestKeyDelete io key s =
     (if key = [] then (HttpError 400 ''key parameter is required'', s)
      else guest_reply 400 (DeleteGuestKey io key s) s)"

definition handleGuestKeyMarkCollaborator :: "io_env \<Rightarrow> string \<Rightarrow> GuestKeyStore \<Rightarrow> string http_result \<times> GuestKeyStore" where
  "handleGuestKeyMarkCollaborator io key s =
     (if key = [] then (HttpError 400 ''key parameter is required'', s)
      else guest_reply 404 (MarkAsCollaborator io key s) s)"

definition handleGuestKeyShareType :: "io_env \<Rightarrow> string \<Rightarrow> string option \<Rightarrow> GuestKeyStore \<Rightarrow> string http_result \<times> GuestKeyStore" where
  "handleGuestKeyShareType io key body s =
     (if key = [] then (HttpError 400 ''key parameter is required'', s)
      else case body of
        None \<Rightarrow> (HttpError 400 ''invalid request body'', s)
      | Some shareType \<Rightarrow>
          if shareType \<noteq> ''consumer'' \<and> shareType \<noteq> ''collaborator''
          then (HttpError 400 ''share_type must be consumer or collaborator'', s)
          else guest_reply 400 (SetShareType io key shareType s) s)"

definition negative :: "int option \<Rightarrow> bool" where
  "negative v = (case v of Some n \<Rightarrow> n < 0 | None \<Rightarrow> False)"

definition handleGuestKeyUpdateQuota ::
    "io_env \<Rightarrow> string \<Rightarrow> (int option \<times> int option \<times> int option \<times> int option) option \<Rightarrow> GuestKeyStore \<Rightarrow> string http_result \<times> GuestKeyStore" where
  "handleGuestKeyUpdateQuota io key body s =
     (if key = [] then (HttpError 400 ''key parameter is required'', s)
      else case body of
        None \<Rightarrow> (HttpError 400 ''invalid request body'', s)
      | Some (quota, quotaHourly, quotaPerRequest, rpm) \<Rightarrow>
          if negative quota then (HttpError 400 ''quota must be >= 0'', s)
          else if negative quotaHourly then (HttpError 400 ''quota_hourly must be >= 0'', s)
          else if negative quotaPerRequest then (HttpError 400 ''quota_per_request must be >= 0'', s)
          else if negative rpm then (HttpError 400 ''rpm must be >= 0'', s)
          else guest_reply 404 (UpdateGuestKeyQuotaMulti io key quota quotaHourly quotaPerRequest rpm s) s)"

text \<open>The validity and the class reported for a key by the endpoint that needs no credentials.\<close>

definition handleNetworkKeyValidate :: "string option \<Rightarrow> (bool \<times> KeyType) http_result" where
  "handleNetworkKeyValidate body =
     (case body of
        None \<Rightarrow> HttpError 400 ''invalid request body''
      | Some key \<Rightarrow>
          if key = [] then HttpError 400 ''key is required''
          else case ClassifyKey key of
            KeyTypePublic \<Rightarrow> HttpOK (True, KeyTypePublic)
          | KeyTypeGuest \<Rightarrow> HttpOK (False, KeyTypeGuest)
          | KeyTypeProxy \<Rightarrow> HttpOK (True, KeyTypeProxy)
          | KeyTypeUnknown \<Rightarrow> HttpOK (False, KeyTypeUnknown))"

section \<open>A key is parsed back to its issuer\<close>

lemma last_dash_append:
  assumes "CHR ''-'' \<notin> set s"
  shows "last_dash (x @ ''-'' @ s) = Some (length x)"
proof -
  have "takeWhile (\<lambda>c. c \<noteq> CHR ''-'') (rev (x @ ''-'' @ s)) = rev s"
    using assms takeWhile_append2 [of "rev s" "\<lambda>c. c \<noteq> CHR ''-''" "CHR ''-'' # rev x"] by auto
  then show ?thesis by (simp add: last_dash_def)
qed

lemma parse_guest_key_text:
  assumes "nodeID \<noteq> []" and "rnd \<noteq> []"
  shows "ParseGuestKeyFormat (guest_key_text nodeID rnd) = Some nodeID"
proof -
  have d: "drop 9 (guest_key_text nodeID rnd) = nodeID @ ''-'' @ hexEncode rnd" by (simp add: guest_key_text_def)
  have l: "last_dash (nodeID @ ''-'' @ hexEncode rnd) = Some (length nodeID)"
    by (rule last_dash_append) (rule hexEncode_no_dash)
  have "length nodeID \<noteq> length (nodeID @ ''-'' @ hexEncode rnd) - 1" using assms(2) by simp
  with assms(1) l show ?thesis
    unfolding ParseGuestKeyFormat_def d Let_def by (simp add: guest_key_text_def)
qed

lemma classify_guest_key_text: "ClassifyKey (guest_key_text nodeID rnd) = KeyTypeGuest"
  by (simp add: ClassifyKey_def guest_key_text_def PublicKeyValue_def)

lemma find_guest_new:
  "gr_Key r \<notin> gr_Key ` set rs \<Longrightarrow> find (\<lambda>x. gr_Key x = gr_Key r) (rs @ [r]) = Some r"
  by (induction rs) auto

lemma gks_save_keys [simp]: "gks_keys (gks_save io s) = gks_keys s"
  by (simp add: gks_save_def)

text \<open>
  Issued guest keys. When the issuing handler answers with a key, the key is classified as a guest
  key and its text names the issuing node; if no record had that key before, it is accepted as a key of
  that node until its expiry, the given number of days after the second of issue (for ever when no
  expiry was asked for).
\<close>

theorem issued_key_valid:
  assumes "handleGuestKeyIssue io now rnd nodeID body s = (HttpOK key, s')" and "rnd \<noteq> []"
    and "key \<notin> gr_Key ` set (gks_keys s)"
  shows "ClassifyKey key = KeyTypeGuest \<and> ParseGuestKeyFormat key = Some nodeID \<and>
    ValidateGuestKey t key (Some s') =
      (let days = (case body of Some b \<Rightarrow> go_ExpDays b | None \<Rightarrow> 0)
       in if days > 0 \<and> t > (now + days * ns_day) div 1000000000 * 1000000000 then None else Some nodeID)"
proof -
  define opts where "opts = (case body of Some b \<Rightarrow> b | None \<Rightarrow> no_options)"
  have n: "nodeID \<noteq> []" and g: "GenerateGuestKey io now rnd nodeID opts s = Inr (key, s')"
    using assms(1) by (auto simp: handleGuestKeyIssue_def Let_def opts_def split: if_splits sum.splits)
  then have key: "key = guest_key_text nodeID rnd" by (auto simp: GenerateGuestKey_def Let_def)
  obtain r where r: "gks_keys s' = gks_keys s @ [r]" "gr_Key r = key" "gr_NodeID r = nodeID" "\<not> gr_Revoked r"
    "gr_ExpiresAt r = (if go_ExpDays opts > 0 then format_stamp (now + go_ExpDays opts * ns_day) else NoStamp)"
    using g by (auto simp: GenerateGuestKey_def Let_def split: if_splits)
  have f: "find_guest key s' = Some r"
    using find_guest_new [of r "gks_keys s"] assms(3) r by (simp add: find_guest_def)
  have days: "go_ExpDays opts = (case body of Some b \<Rightarrow> go_ExpDays b | None \<Rightarrow> 0)"
    by (simp add: opts_def no_options_def split: option.splits)
  have "ParseGuestKeyFormat key = Some nodeID" using parse_guest_key_text [OF n assms(2)] key by simp
  with f r days show ?thesis
    by (simp add: key [symmetric] classify_guest_key_text [of nodeID rnd, folded key] ValidateGuestKey_def guest_live_def
        stamp_expired_def format_stamp_def Let_def)
qed

theorem issued_key_valid_witness:
  "ValidateGuestKey (2 * ns_day) (guest_key_text ''mmx-1'' [7])
     (Some (snd (handleGuestKeyIssue (io_fine False) 0 [7] ''mmx-1'' (Some (no_options\<lparr>go_ExpDays := 1\<rparr>)) (initGuestKeyStore Absent)))) = None"
proof -
  let ?r = "handleGuestKeyIssue (io_fine False) 0 [7] ''mmx-1'' (Some (no_options\<lparr>go_ExpDays := 1\<rparr>)) (initGuestKeyStore Absent)"
  have "?r = (HttpOK (guest_key_text ''mmx-1'' [7]), snd ?r)"
    by (simp add: handleGuestKeyIssue_def GenerateGuestKey_def Let_def no_options_def)
  then show ?thesis
    using issued_key_valid [of "io_fine False" 0 "[7]" "''mmx-1''" "Some (no_options\<lparr>go_ExpDays := 1\<rparr>)" "initGuestKeyStore Absent"
        "guest_key_text ''mmx-1'' [7]" "snd ?r" "2 * ns_day"]
    by (simp add: initGuestKeyStore_def gks_load_def ns_day_def ns_hour_def)
qed

section \<open>A revoked key is never accepted again\<close>

datatype guest_op =
    GIssue io_env int "byte list" string "GuestKeyOptions option"
  | GRevoke io_env string
  | GDelete io_env string
  | GMark io_env string
  | GShare io_env string "string option"
  | GQuota io_env string "(int option \<times> int option \<times> int option \<times> int option) option"

fun guest_exec :: "guest_op \<Rightarrow> GuestKeyStore \<Rightarrow> GuestKeyStore" where
  "guest_exec (GIssue io now rnd nodeID body) s = snd (handleGuestKeyIssue io now rnd nodeID body s)"
| "guest_exec (GRevoke io key) s = snd (handleGuestKeyRevoke io key s)"
| "guest_exec (GDelete io key) s = snd (handleGuestKeyDelete io key s)"
| "guest_exec (GMark io key) s = snd (handleGuestKeyMarkCollaborator io key s)"
| "guest_exec (GShare io key body) s = snd (handleGuestKeyShareType io key body s)"
| "guest_exec (GQuota io key body) s = snd (handleGuestKeyUpdateQuota io key body s)"

definition guest_run :: "guest_op list \<Rightarrow> GuestKeyStore \<Rightarrow> GuestKeyStore" where
  "guest_run ops s = fold guest_exec ops s"

definition issues :: "string \<Rightarrow> guest_op \<Rightarrow> bool" where
  "issues key op = (case op of GIssue _ _ rnd nodeID _ \<Rightarrow> guest_key_text nodeID rnd = key | _ \<Rightarrow> False)"

text \<open>Every record of the key is revoked.\<close>

definition dead :: "string \<Rightarrow> GuestKeyStore \<Rightarrow> bool" where
  "dead key s \<longleftrightarrow> (\<forall>r \<in> set (gks_keys s). gr_Key r = key \<longrightarrow> gr_Revoked r)"

lemma dead_gks_save [simp]: "dead key (gks_save io s) = dead key s"
  by (simp add: dead_def)

lemma set_update_guest: "x \<in> set (update_guest k f rs) \<Longrightarrow> x \<in> set rs \<or> (\<exists>r \<in> set rs. x = f r)"
  by (induction rs) (auto split: if_splits)

lemma set_remove_guest: "x \<in> set (remove_guest k rs) \<Longrightarrow> x \<in> set rs"
  by (induction rs) (auto split: if_splits)

lemma dead_set_guest:
  assumes "dead key s" and "\<And>r. gr_Key (f r) = gr_Key r \<and> (gr_Revoked r \<longrightarrow> gr_Revoked (f r))"
  shows "dead key (set_guest io k f s)"
  using assms by (auto simp: dead_def set_guest_def dest!: set_update_guest)

lemma dead_reply:
  "dead key s \<Longrightarrow> (\<And>s'. r = Inr s' \<Longrightarrow> dead key s') \<Longrightarrow> dead key (snd (guest_reply c r s))"
  by (auto simp: guest_reply_def split: sum.splits)

lemma dead_exec:
  assumes "dead key s" and "\<not> issues key op"
  shows "dead key (guest_exec op s)"
proof (cases op)
  case (GIssue io now rnd nodeID body)
  with assms show ?thesis
    by (auto simp: handleGuestKeyIssue_def GenerateGuestKey_def Let_def issues_def dead_def split: sum.splits option.splits)
next
  case (GRevoke io k)
  with assms show ?thesis
    by (auto simp: handleGuestKeyRevoke_def RevokeGuestKey_def split: option.splits intro!: dead_reply dead_set_guest)
next
  case (GDelete io k)
  have "dead key (s\<lparr>gks_keys := remove_guest k (gks_keys s)\<rparr>)"
    using assms(1) by (auto simp: dead_def dest!: set_remove_guest)
  with GDelete assms show ?thesis
    by (auto simp: handleGuestKeyDelete_def DeleteGuestKey_def split: option.splits if_splits intro!: dead_reply)
next
  case (GMark io k)
  with assms show ?thesis
    by (auto simp: handleGuestKeyMarkCollaborator_def MarkAsCollaborator_def Let_def split: option.splits if_splits
        intro!: dead_reply dead_set_guest)
next
  case (GShare io k body)
  with assms show ?thesis
    by (auto simp: handleGuestKeyShareType_def SetShareType_def split: option.splits if_splits
        intro!: dead_reply dead_set_guest)
next
  case (GQuota io k body)
  with assms show ?thesis
    by (auto simp: handleGuestKeyUpdateQuota_def UpdateGuestKeyQuotaMulti_def split: option.splits if_splits
        intro!: dead_reply dead_set_guest)
qed

lemma dead_run: "dead key s \<Longrightarrow> list_all (\<lambda>op. \<not> issues key op) ops \<Longrightarrow> dead key (guest_run ops s)"
  unfolding guest_run_def by (induction ops arbitrary: s) (auto simp: dead_exec)

lemma dead_invalid: "dead key s \<Longrightarrow> ValidateGuestKey now key (Some s) = None \<and> GetGuestKeyAccessPublicPool now shared key (Some s) = None"
  by (auto simp: ValidateGuestKey_def GetGuestKeyAccessPublicPool_def find_guest_def dead_def guest_live_def find_Some_iff
      split: option.splits)

lemma revoke_dead:
  assumes "distinct (map gr_Key rs)"
  shows "\<forall>r \<in> set (update_guest k (\<lambda>r. r\<lparr>gr_Revoked := True\<rparr>) rs). gr_Key r = k \<longrightarrow> gr_Revoked r"
  using assms by (induction rs) (auto simp: rev_image_eqI)

text \<open>
  (C38) Revocation. Once a guest key is revoked in a store with distinct keys, no sequence of handler
  calls makes it valid again, for a relay or for the public pool, as long as the same random key is not
  drawn a second time.
\<close>

theorem revoked_key_stays_invalid:
  assumes "RevokeGuestKey io key s = Inr s'" and "distinct (map gr_Key (gks_keys s))"
    and "list_all (\<lambda>op. \<not> issues key op) ops"
  shows "ValidateGuestKey now key (Some (guest_run ops s')) = None \<and>
    GetGuestKeyAccessPublicPool now shared key (Some (guest_run ops s')) = None"
proof -
  have "dead key s'" using assms(1) revoke_dead [OF assms(2), of key]
    by (auto simp: RevokeGuestKey_def set_guest_def dead_def split: option.splits)
  with assms(3) show ?thesis using dead_run dead_invalid by blast
qed

definition one_key_store :: GuestKeyStore where
  "one_key_store = snd (handleGuestKeyIssue (io_fine False) 0 [7] ''mmx-1'' None (initGuestKeyStore Absent))"

theorem revoked_key_stays_invalid_witness:
  "ValidateGuestKey 5 (guest_key_text ''mmx-1'' [7])
     (Some (guest_run [GIssue (io_fine False) 3 [8] ''mmx-1'' None, GDelete (io_fine False) (guest_key_text ''mmx-1'' [7])]
       (case RevokeGuestKey (io_fine False) (guest_key_text ''mmx-1'' [7]) one_key_store of Inr s \<Rightarrow> s | Inl _ \<Rightarrow> one_key_store))) = None"
proof -
  have k: "gks_keys one_key_store \<noteq> []" "map gr_Key (gks_keys one_key_store) = [guest_key_text ''mmx-1'' [7]]"
    by (simp_all add: one_key_store_def handleGuestKeyIssue_def GenerateGuestKey_def Let_def no_options_def initGuestKeyStore_def gks_load_def)
  then obtain r where "gks_keys one_key_store = [r]" "gr_Key r = guest_key_text ''mmx-1'' [7]" by auto
  then have r: "RevokeGuestKey (io_fine False) (guest_key_text ''mmx-1'' [7]) one_key_store =
      Inr (set_guest (io_fine False) (guest_key_text ''mmx-1'' [7]) (\<lambda>r. r\<lparr>gr_Revoked := True\<rparr>) one_key_store)"
    by (simp add: RevokeGuestKey_def find_guest_def)
  have "list_all (\<lambda>op. \<not> issues (guest_key_text ''mmx-1'' [7]) op)
      [GIssue (io_fine False) 3 [8] ''mmx-1'' None, GDelete (io_fine False) (guest_key_text ''mmx-1'' [7])]"
    by (simp add: issues_def guest_key_text_def hexDigit_def)
  with revoked_key_stays_invalid [OF r, of "[GIssue (io_fine False) 3 [8] ''mmx-1'' None, GDelete (io_fine False) (guest_key_text ''mmx-1'' [7])]" 5]
  show ?thesis using k(2) r by simp
qed

section \<open>The local quotas hold\<close>

text \<open>
  A request is its time, key and estimate; \<open>limits\<close> gives the limits of a key: daily, hourly, per
  request and requests per minute. The guards below are the three windows of one key \<open>k\<close>.
\<close>

type_synonym guest_request = "int \<times> string \<times> int"
type_synonym guest_limits = "string \<Rightarrow> int \<times> int \<times> int \<times> int"

definition lim_daily :: "guest_limits \<Rightarrow> string \<Rightarrow> int" where "lim_daily l k = fst (l k)"
definition lim_hourly :: "guest_limits \<Rightarrow> string \<Rightarrow> int" where "lim_hourly l k = fst (snd (l k))"
definition lim_request :: "guest_limits \<Rightarrow> string \<Rightarrow> int" where "lim_request l k = fst (snd (snd (l k)))"
definition lim_rpm :: "guest_limits \<Rightarrow> string \<Rightarrow> int" where "lim_rpm l k = snd (snd (snd (l k)))"

definition gq_time :: "guest_request \<Rightarrow> int" where "gq_time r = fst r"
definition gq_key :: "guest_request \<Rightarrow> string" where "gq_key r = fst (snd r)"
definition gq_est :: "guest_request \<Rightarrow> int" where "gq_est r = snd (snd r)"

definition guest_draw :: "guest_limits \<Rightarrow> guest_request \<Rightarrow> guestKeyUsageTracker \<Rightarrow> bool \<times> guestKeyUsageTracker" where
  "guest_draw l r t =
     (let k = gq_key r;
          (res, t') = CheckAndReserveFull (gq_time r) k (lim_daily l k) (lim_hourly l k) (lim_request l k) (lim_rpm l k) (gq_est r) t
      in (fst res, t'))"

lemma used_of_bump: "used_of k (bump key n m) = (if k = key then i64 (used_of key m + n) else used_of k m)"
  by (simp add: used_of_def bump_def)

text \<open>One call: what was checked when it was granted, and the three counters of a key afterwards.\<close>

lemma guest_draw_refused:
  "guest_draw l r t = (False, t') \<Longrightarrow> t' = ensureJournals (gq_time r) t"
  by (auto simp: guest_draw_def CheckAndReserveFull_def Let_def split: if_splits)

lemma guest_draw_granted:
  fixes l r t t'
  defines "t0 \<equiv> ensureJournals (gq_time r) t" and "k \<equiv> gq_key r" and "e \<equiv> gq_est r"
  assumes "guest_draw l r t = (True, t')"
  shows "(lim_request l k > 0 \<longrightarrow> e \<le> lim_request l k)"
    and "\<not> window_refuses (lim_daily l k) (used_of k (gt_usage t0)) e"
    and "\<not> window_refuses (lim_hourly l k) (used_of k (gt_hourly t0)) e"
    and "lim_rpm l k > 0 \<longrightarrow> used_of k (gt_rpm t0) < lim_rpm l k"
    and "used_of j (gt_usage t') = (if j = k \<and> lim_daily l k > 0 \<and> e > 0 then i64 (used_of k (gt_usage t0) + e) else used_of j (gt_usage t0))"
    and "used_of j (gt_hourly t') = (if j = k \<and> lim_hourly l k > 0 \<and> e > 0 then i64 (used_of k (gt_hourly t0) + e) else used_of j (gt_hourly t0))"
    and "used_of j (gt_rpm t') = (if j = k then i64 (used_of k (gt_rpm t0) + 1) else used_of j (gt_rpm t0))"
    and "gt_day t' = gt_day t0" and "gt_hour t' = gt_hour t0" and "gt_minute t' = gt_minute t0"
proof -
  have c: "\<not> (lim_request l k > 0 \<and> e > lim_request l k)" "\<not> window_refuses (lim_daily l k) (used_of k (gt_usage t0)) e"
    "\<not> window_refuses (lim_hourly l k) (used_of k (gt_hourly t0)) e" "\<not> (lim_rpm l k > 0 \<and> used_of k (gt_rpm t0) \<ge> lim_rpm l k)"
    using assms by (auto simp: guest_draw_def CheckAndReserveFull_def Let_def split: if_splits)
  then show "(lim_request l k > 0 \<longrightarrow> e \<le> lim_request l k)"
    "\<not> window_refuses (lim_daily l k) (used_of k (gt_usage t0)) e"
    "\<not> window_refuses (lim_hourly l k) (used_of k (gt_hourly t0)) e"
    "lim_rpm l k > 0 \<longrightarrow> used_of k (gt_rpm t0) < lim_rpm l k" by auto
  have t': "t' = t0\<lparr>gt_usage := (if lim_daily l k > 0 \<and> e > 0 then bump k e (gt_usage t0) else gt_usage t0),
      gt_hourly := (if lim_hourly l k > 0 \<and> e > 0 then bump k e (gt_hourly t0) else gt_hourly t0),
      gt_rpm := bump k 1 (gt_rpm t0)\<rparr>"
    using assms(4) c unfolding guest_draw_def CheckAndReserveFull_def Let_def t0_def k_def e_def
    by (auto split: if_splits)
  show "used_of j (gt_usage t') = (if j = k \<and> lim_daily l k > 0 \<and> e > 0 then i64 (used_of k (gt_usage t0) + e) else used_of j (gt_usage t0))"
    "used_of j (gt_hourly t') = (if j = k \<and> lim_hourly l k > 0 \<and> e > 0 then i64 (used_of k (gt_hourly t0) + e) else used_of j (gt_hourly t0))"
    "used_of j (gt_rpm t') = (if j = k then i64 (used_of k (gt_rpm t0) + 1) else used_of j (gt_rpm t0))"
    "gt_day t' = gt_day t0" "gt_hour t' = gt_hour t0" "gt_minute t' = gt_minute t0"
    by (simp_all add: t' used_of_bump)
qed

text \<open>A counter inside its limit, and what a passed check says about it.\<close>

definition counter_ok :: "int \<Rightarrow> int \<Rightarrow> bool" where
  "counter_ok used limit \<longleftrightarrow> 0 \<le> used \<and> used \<le> limit \<and> limit < 2 ^ 63"

lemma counter_step:
  assumes "counter_ok u limit" and "\<not> window_refuses limit u e" and "0 < limit" and "0 < e"
  shows "e \<le> limit - u \<and> i64 (u + e) = u + e \<and> counter_ok (u + e) limit"
proof -
  have "i64 (limit - u) = limit - u" using assms(1) by (intro i64_id) (auto simp: counter_ok_def in_i64_def)
  with assms have "e \<le> limit - u" by (auto simp: window_refuses_def)
  moreover from this have "i64 (u + e) = u + e" using assms by (intro i64_id) (auto simp: counter_ok_def in_i64_def)
  ultimately show ?thesis using assms by (simp add: counter_ok_def)
qed

text \<open>The window a request falls in, and requests that stay in one window.\<close>

definition guest_in :: "(int \<Rightarrow> int) \<Rightarrow> int \<Rightarrow> guest_limits \<Rightarrow> guest_request \<Rightarrow> guestKeyUsageTracker \<Rightarrow> bool \<times> guestKeyUsageTracker" where
  "guest_in window w l r t = (if window (gq_time r) = w \<and> 0 \<le> gq_est r then guest_draw l r t else (False, t))"

lemma guest_in_cong:
  "list_all (\<lambda>r. window (gq_time r) = w \<and> 0 \<le> gq_est r) rs \<Longrightarrow> run_takes (guest_draw l) rs t = run_takes (guest_in window w l) rs t"
  by (rule run_takes_cong) (auto simp: list_all_iff guest_in_def)

interpretation gk_daily: quota_guard "guest_in day_number D l" "\<lambda>r. if gq_key r = k then gq_est r else 0"
    "\<lambda>t. lim_daily l k - used_of k (gt_usage t)"
    "\<lambda>t. 0 < lim_daily l k \<and> gt_day t = Some D \<and> counter_ok (used_of k (gt_usage t)) (lim_daily l k)" for D l k
proof (unfold_locales, goal_cases)
  case (1 t r t')
  then show ?case by (auto simp: guest_in_def ensureJournals_def split: if_splits dest!: guest_draw_refused)
next
  case (2 t r t')
  then have g: "guest_draw l r t = (True, t')" and w: "day_number (gq_time r) = D" "0 \<le> gq_est r"
    by (auto simp: guest_in_def split: if_splits)
  have z: "gt_usage (ensureJournals (gq_time r) t) = gt_usage t" "gt_day (ensureJournals (gq_time r) t) = Some D"
    using 2 w by (simp_all add: ensureJournals_def)
  note g' = guest_draw_granted [OF g, unfolded z]
  show ?case
  proof (cases "gq_key r = k \<and> 0 < gq_est r")
    case True
    with counter_step [of "used_of k (gt_usage t)" "lim_daily l k" "gq_est r"] 2 g'(2) g'(5) [of k] g'(8) show ?thesis by auto
  next
    case False
    with 2 w g'(5) [of k] g'(8) show ?thesis by (auto simp: counter_ok_def)
  qed
qed (simp add: counter_ok_def)

interpretation gk_hourly: quota_guard "guest_in hour_key H l" "\<lambda>r. if gq_key r = k then gq_est r else 0"
    "\<lambda>t. lim_hourly l k - used_of k (gt_hourly t)"
    "\<lambda>t. 0 < lim_hourly l k \<and> gt_hour t = Some H \<and> counter_ok (used_of k (gt_hourly t)) (lim_hourly l k)" for H l k
proof (unfold_locales, goal_cases)
  case (1 t r t')
  then show ?case by (auto simp: guest_in_def ensureJournals_def split: if_splits dest!: guest_draw_refused)
next
  case (2 t r t')
  then have g: "guest_draw l r t = (True, t')" and w: "hour_key (gq_time r) = H" "0 \<le> gq_est r"
    by (auto simp: guest_in_def split: if_splits)
  have z: "gt_hourly (ensureJournals (gq_time r) t) = gt_hourly t" "gt_hour (ensureJournals (gq_time r) t) = Some H"
    using 2 w by (simp_all add: ensureJournals_def)
  note g' = guest_draw_granted [OF g, unfolded z]
  show ?case
  proof (cases "gq_key r = k \<and> 0 < gq_est r")
    case True
    with counter_step [of "used_of k (gt_hourly t)" "lim_hourly l k" "gq_est r"] 2 g'(3) g'(6) [of k] g'(9) show ?thesis by auto
  next
    case False
    with 2 w g'(6) [of k] g'(9) show ?thesis by (auto simp: counter_ok_def)
  qed
qed (simp add: counter_ok_def)

interpretation gk_rate: quota_guard "guest_in minute_key M l" "\<lambda>r. if gq_key r = k then 1 else 0"
    "\<lambda>t. lim_rpm l k - used_of k (gt_rpm t)"
    "\<lambda>t. 0 < lim_rpm l k \<and> gt_minute t = Some M \<and> counter_ok (used_of k (gt_rpm t)) (lim_rpm l k)" for M l k
proof (unfold_locales, goal_cases)
  case (1 t r t')
  then show ?case by (auto simp: guest_in_def ensureJournals_def split: if_splits dest!: guest_draw_refused)
next
  case (2 t r t')
  then have g: "guest_draw l r t = (True, t')" and w: "minute_key (gq_time r) = M"
    by (auto simp: guest_in_def split: if_splits)
  have z: "gt_rpm (ensureJournals (gq_time r) t) = gt_rpm t" "gt_minute (ensureJournals (gq_time r) t) = Some M"
    using 2 w by (simp_all add: ensureJournals_def)
  note g' = guest_draw_granted [OF g, unfolded z]
  show ?case
  proof (cases "gq_key r = k")
    case True
    then have "used_of k (gt_rpm t) + 1 \<le> lim_rpm l k" using g'(4) 2 by simp
    moreover from this have "i64 (used_of k (gt_rpm t) + 1) = used_of k (gt_rpm t) + 1"
      using 2 by (intro i64_id) (auto simp: counter_ok_def in_i64_def)
    ultimately show ?thesis using True 2 g'(7) [of k] g'(10) by (auto simp: counter_ok_def)
  next
    case False
    with 2 g'(7) [of k] g'(10) show ?thesis by (auto simp: counter_ok_def)
  qed
qed (simp add: counter_ok_def)

definition guest_sum :: "string \<Rightarrow> guest_request list \<Rightarrow> int" where
  "guest_sum k gs = (\<Sum>r \<leftarrow> gs. if gq_key r = k then gq_est r else 0)"

definition guest_count :: "string \<Rightarrow> guest_request list \<Rightarrow> int" where
  "guest_count k gs = (\<Sum>r \<leftarrow> gs. if gq_key r = k then 1 else 0)"

lemma run_takes_granted:
  assumes "run_takes d rs s = (gs, s')" and "\<And>r s s'. d r s = (True, s') \<Longrightarrow> P r"
  shows "\<forall>r \<in> set gs. P r"
  using assms(1)
proof (induction rs arbitrary: s gs s')
  case (Cons r rs)
  obtain b t where t: "d r s = (b, t)" by fastforce
  obtain hs u where u: "run_takes d rs t = (hs, u)" by fastforce
  have "\<forall>r \<in> set hs. P r" using Cons.IH [OF u] Cons.prems t u by (auto split: if_splits)
  with Cons.prems t u assms(2) show ?case by (cases b) auto
qed simp

text \<open>
  (C15) Limits of a guest key. Whatever requests are made with whatever keys, with estimates that are not
  negative: no granted request of a key exceeds its per-request cap; the total granted to a key within a
  day stays within its daily quota and the total within an hour within its hourly quota, each on top of
  what was used before; and within a minute the number of granted requests stays within its rate. A limit
  of zero is no limit.
\<close>

theorem guest_key_limits:
  assumes "list_all (\<lambda>r. 0 \<le> gq_est r) rs" and "run_takes (guest_draw l) rs t = (gs, t')"
  shows "(\<forall>r \<in> set gs. lim_request l (gq_key r) > 0 \<longrightarrow> gq_est r \<le> lim_request l (gq_key r)) \<and>
    (lim_daily l k > 0 \<and> gt_day t = Some D \<and> counter_ok (used_of k (gt_usage t)) (lim_daily l k) \<and>
       list_all (\<lambda>r. day_number (gq_time r) = D) rs \<longrightarrow>
     used_of k (gt_usage t) + guest_sum k gs \<le> lim_daily l k) \<and>
    (lim_hourly l k > 0 \<and> gt_hour t = Some H \<and> counter_ok (used_of k (gt_hourly t)) (lim_hourly l k) \<and>
       list_all (\<lambda>r. hour_key (gq_time r) = H) rs \<longrightarrow>
     used_of k (gt_hourly t) + guest_sum k gs \<le> lim_hourly l k) \<and>
    (lim_rpm l k > 0 \<and> gt_minute t = Some M \<and> counter_ok (used_of k (gt_rpm t)) (lim_rpm l k) \<and>
       list_all (\<lambda>r. minute_key (gq_time r) = M) rs \<longrightarrow>
     used_of k (gt_rpm t) + guest_count k gs \<le> lim_rpm l k)"
proof (intro conjI impI)
  have est: "\<forall>r \<in> set rs. 0 \<le> (if gq_key r = k then gq_est r else 0)" "\<forall>r \<in> set rs. 0 \<le> (if gq_key r = k then 1 else (0 :: int))"
    using assms(1) by (auto simp: list_all_iff)
  have run: "run_takes (guest_in window w l) rs t = (gs, t')" if "list_all (\<lambda>r. window (gq_time r) = w) rs" for window w
    using guest_in_cong [of window w rs l t] assms that by (simp add: list_all_iff)
  show "\<forall>r \<in> set gs. lim_request l (gq_key r) > 0 \<longrightarrow> gq_est r \<le> lim_request l (gq_key r)"
    by (rule run_takes_granted [OF assms(2)]) (erule guest_draw_granted(1))
  show "used_of k (gt_usage t) + guest_sum k gs \<le> lim_daily l k"
    if "lim_daily l k > 0 \<and> gt_day t = Some D \<and> counter_ok (used_of k (gt_usage t)) (lim_daily l k) \<and>
      list_all (\<lambda>r. day_number (gq_time r) = D) rs"
    using gk_daily.run_never_overissues [OF _ est(1) run [of day_number D]] that by (simp add: guest_sum_def)
  show "used_of k (gt_hourly t) + guest_sum k gs \<le> lim_hourly l k"
    if "lim_hourly l k > 0 \<and> gt_hour t = Some H \<and> counter_ok (used_of k (gt_hourly t)) (lim_hourly l k) \<and>
      list_all (\<lambda>r. hour_key (gq_time r) = H) rs"
    using gk_hourly.run_never_overissues [OF _ est(1) run [of hour_key H]] that by (simp add: guest_sum_def)
  show "used_of k (gt_rpm t) + guest_count k gs \<le> lim_rpm l k"
    if "lim_rpm l k > 0 \<and> gt_minute t = Some M \<and> counter_ok (used_of k (gt_rpm t)) (lim_rpm l k) \<and>
      list_all (\<lambda>r. minute_key (gq_time r) = M) rs"
    using gk_rate.run_never_overissues [OF _ est(2) run [of minute_key M]] that by (simp add: guest_count_def)
qed

definition busy_tracker :: guestKeyUsageTracker where
  "busy_tracker = (ensureJournals 0 initGuestKeyUsageTracker)\<lparr>gt_usage := [(''g'', 90)]\<rparr>"

theorem guest_key_limits_witness:
  "90 + guest_sum ''g'' (fst (run_takes (guest_draw (\<lambda>k. (100, 0, 0, 0))) [(1, ''g'', 8), (2, ''g'', 8), (3, ''h'', 60)] busy_tracker)) \<le> 100"
proof -
  let ?l = "\<lambda>k. (100, 0, 0, 0)" and ?rs = "[(1, ''g'', 8), (2, ''g'', 8), (3, ''h'', 60)]"
  have b: "gt_day busy_tracker = Some 0" "used_of ''g'' (gt_usage busy_tracker) = 90"
    by (simp_all add: busy_tracker_def ensureJournals_def initGuestKeyUsageTracker_def used_of_def gget0_def day_number_def)
  have w: "list_all (\<lambda>r. day_number (gq_time r) = 0) ?rs" "list_all (\<lambda>r. 0 \<le> gq_est r) ?rs"
    by (simp_all add: day_number_def gq_time_def gq_est_def ns_day_def ns_hour_def)
  show ?thesis
    using guest_key_limits [OF w(2), of ?l busy_tracker "fst (run_takes (guest_draw ?l) ?rs busy_tracker)"
        "snd (run_takes (guest_draw ?l) ?rs busy_tracker)" "''g''" 0] w(1) b
    by (simp add: lim_daily_def counter_ok_def)
qed

section \<open>Restart, and two observations\<close>

lemma journal_roundtrip: "initGuestKeyUsageTrackerWithDir (Content (usage_journal t)) = t"
  by (simp add: initGuestKeyUsageTrackerWithDir_def usage_journal_def)

text \<open>
  A key with a rate limit that is refused because its daily or hourly quota is used up is told that its
  rate is saturated, even when it made no request in this minute: the refusal reports nothing left, which
  the message reads as the rest of the rate.
\<close>

lemma deny_reason_confused:
  assumes "rpm > 0" and "quotaPerRequest = 0"
    and "window_refuses quotaDaily (used_of key (gt_usage (ensureJournals now t))) estimated"
  shows "guestQuotaDenyReason quotaPerRequest quotaDaily quotaHourly rpm estimated
      (snd (fst (CheckAndReserveFull now key quotaDaily quotaHourly quotaPerRequest rpm estimated t))) = RateSaturated"
  using assms by (simp add: CheckAndReserveFull_def Let_def guestQuotaDenyReason_def)

text \<open>The full comparison with the mark is never true, since four bytes are compared with eight.\<close>

lemma collab_first_test_dead: "take 4 note \<noteq> collab_mark"
  by (auto simp: collab_mark_def dest!: arg_cong [where f = length])

end
