(* ===== verification/Provider_Routing.thy ===== *)
theory Provider_Routing
  imports Provider_Model Guest_Keys "HOL-Library.Multiset"
begin

text \<open>
  Routing of requests to providers: the middle part of \<open>src/provider.go\<close> (candidates, access control,
  circuit breaker, sort modes, model lists) and the prices of \<open>src/pricing_impl.go\<close>.

  What other components report is gathered in \<open>route_env\<close>: whether the Sider session has expired, whether
  the node is in shared mode, latencies and token totals of the usage tracker, and the decoded weights of
  the configuration. Prices and scores are real numbers. \<open>sort.SliceStable\<close> with a comparison of elements is
  \<open>stable_sort_by\<close>; where the comparison reads positions (\<open>sortAuto\<close>), its insertion sort is written out
  for up to 20 elements, and the merging of longer slices is the argument \<open>merge\<close>.
\<close>

section \<open>Prices\<close>

record Pricing =
  pc_Input :: real
  pc_Output :: real

definition platformPricing :: "(string, (string, real \<times> real) gomap) gomap" where
  "platformPricing =
     [(''anthropic'', [(''claude-sonnet-4-20250514'', (3, 15)), (''claude-3-5-sonnet'', (3, 15)), (''claude-3-haiku-20240307'', (0.25, 1.25))]),
      (''deepseek'', [(''deepseek-chat'', (0.27, 1.1)), (''deepseek-reasoner'', (0.55, 2.19))]),
      (''openai'', [(''gpt-4o'', (2.5, 10))]),
      (''coze'', [(''gpt-4o'', (2.5, 10)), (''deepseek-chat'', (0.27, 1.1))]),
      (''nvidia'', [(''meta/llama-4-maverick-17b-128e-instruct'', (0.0009, 0.0009))]),
      (''qianfan'', [(''ernie-4.5-turbo-32k'', (0.0008, 0.0008))]),
      (''sider'', [])]"

definition modelPricing :: "(string, real \<times> real) gomap" where
  "modelPricing = [(''gpt-4o'', (2.5, 10)), (''claude-3-5-sonnet'', (3, 15)), (''deepseek-chat'', (0.27, 1.1)), (''deepseek-reasoner'', (0.55, 2.19))]"

definition price_of :: "real \<times> real \<Rightarrow> Pricing" where
  "price_of p = \<lparr>pc_Input = fst p, pc_Output = snd p\<rparr>"

text \<open>The exact entry of a table, or the first one in iteration order whose name begins the model's.\<close>

definition table_price :: "(string, real \<times> real) gomap \<Rightarrow> string \<Rightarrow> (real \<times> real) option" where
  "table_price tab model =
     (case gget tab model of
        Some p \<Rightarrow> Some p
      | None \<Rightarrow> map_option snd (find (\<lambda>e. prefix (fst e) model) tab))"

definition getPricing :: "string \<Rightarrow> string \<Rightarrow> Pricing" where
  "getPricing model provider =
     (case Option.bind (gget platformPricing provider) (\<lambda>tab. table_price tab model) of
        Some p \<Rightarrow> price_of p
      | None \<Rightarrow>
          if provider = ''sider'' \<or> provider = ''coze'' then price_of (0, 0)
          else case table_price modelPricing model of Some p \<Rightarrow> price_of p | None \<Rightarrow> price_of (0, 0))"

text \<open>\<open>math.Round\<close> rounds halves away from zero.\<close>

definition roundTo6 :: "real \<Rightarrow> real" where
  "roundTo6 x = (if x < 0 then - \<lfloor>- x * 1000000 + 1 / 2\<rfloor> else \<lfloor>x * 1000000 + 1 / 2\<rfloor>) / 1000000"

definition estimateCost :: "string \<Rightarrow> int \<Rightarrow> int \<Rightarrow> string \<Rightarrow> real" where
  "estimateCost model promptTokens completionTokens provider =
     (let p = getPricing model provider
      in if pc_Input p = 0 \<and> pc_Output p = 0 then 0
         else roundTo6 (of_int promptTokens / 1000000 * pc_Input p + of_int completionTokens / 1000000 * pc_Output p))"

section \<open>Candidates\<close>

record candidate =
  ca_Provider :: Provider
  ca_Model :: string

record route_env =
  re_siderExpired :: bool
  re_sharedMode :: bool
  re_ewma :: "(string, real) gomap"
  re_tokensUsed :: "(string, int) gomap"
  re_weights :: "(string, real) gomap option"

definition FindCandidates :: "Provider list \<Rightarrow> string \<Rightarrow> ProviderManager \<Rightarrow> candidate list" where
  "FindCandidates presets model m =
     map (\<lambda>p. \<lparr>ca_Provider = p, ca_Model = model\<rparr>)
       (filter (\<lambda>p. pr_Enabled p \<and> list_ex (\<lambda>md. md_ID md = model \<and> md_Enabled md) (pr_Models p)) (GetAllRaw presets m))"

definition filterExpired :: "route_env \<Rightarrow> candidate list \<Rightarrow> candidate list" where
  "filterExpired env cands =
     (if \<not> re_siderExpired env then cands else filter (\<lambda>c. pr_ID (ca_Provider c) \<noteq> ''sider'') cands)"

section \<open>Access control\<close>

text \<open>
  The parts of a request that decide its class: the class set by the relay inside the process, the role
  header of the proxy authentication, and the authorization header.
\<close>

record key_request =
  kr_internal :: string
  kr_role :: string
  kr_authorization :: string

definition trim_bearer :: "string \<Rightarrow> string" where
  "trim_bearer s = (if prefix ''Bearer '' s then drop 7 s else s)"

definition RequestKeyType :: "int \<Rightarrow> bool \<Rightarrow> GuestKeyStore option \<Rightarrow> key_request \<Rightarrow> string" where
  "RequestKeyType now shared store r =
     (if kr_internal r \<noteq> [] then kr_internal r
      else if kr_role r = ''admin'' then ''admin''
      else
        let key = trim_bearer (kr_authorization r) in
        case ClassifyKey key of
          KeyTypePublic \<Rightarrow> ''public''
        | KeyTypeGuest \<Rightarrow>
            (case GetGuestKeyAccessPublicPool now shared key store of
               Some (_, True) \<Rightarrow> ''public''
             | _ \<Rightarrow> ''guest'')
        | KeyTypeProxy \<Rightarrow> ''proxy''
        | KeyTypeUnknown \<Rightarrow> ''unknown'')"

definition hasNonPrivateKey :: "Provider \<Rightarrow> bool" where
  "hasNonPrivateKey p \<longleftrightarrow>
     list_ex (\<lambda>k. ak_Enabled k \<and> ak_AccessControl k \<noteq> ''private'') (pr_APIKeys p)
     \<or> (pr_APIKeys p = [] \<and> pr_APIKey p \<noteq> [])"

definition isFreePoolProvider :: "Provider \<Rightarrow> bool" where
  "isFreePoolProvider p \<longleftrightarrow> pr_APIKey p = ''free-anonymous'' \<or> prefix ''free-'' (pr_ID p)"

definition filterFreePoolOnly :: "candidate list \<Rightarrow> candidate list" where
  "filterFreePoolOnly cands = filter (\<lambda>c. isFreePoolProvider (ca_Provider c)) cands"

definition FilterByAccessControl :: "bool \<Rightarrow> candidate list \<Rightarrow> string \<Rightarrow> candidate list" where
  "FilterByAccessControl shared cands keyType =
     (if keyType = ''admin'' then cands
      else if keyType = ''proxy'' then cands
      else if keyType = ''public'' \<and> \<not> shared then filterFreePoolOnly cands
      else
        filter (\<lambda>c.
          if pr_ID (ca_Provider c) = ''sider'' then True
          else if keyType = ''guest'' then hasNonPrivateKey (ca_Provider c)
          else if keyType = ''public'' then ac_ShareToPool (pr_AccessControl (ca_Provider c)) \<or> isFreePoolProvider (ca_Provider c)
          else False) cands)"

definition providerAllowsKeyType :: "bool \<Rightarrow> Provider \<Rightarrow> string \<Rightarrow> bool" where
  "providerAllowsKeyType shared p keyType =
     (if keyType = ''admin'' \<or> keyType = ''proxy'' then True
      else if keyType = ''guest'' then hasNonPrivateKey p
      else if keyType = ''public'' then
        (if isFreePoolProvider p then True
         else if \<not> shared then False
         else ac_ShareToPool (pr_AccessControl p) \<and> hasNonPrivateKey p)
      else False)"

section \<open>Cooldown and circuit breaker\<close>

record breaker =
  br_cooldown :: "(string, int) gomap"
  br_failures :: "(string, int) gomap"

definition cooldownTime :: int where "cooldownTime = 30 * 1000000000"
definition breakerOpenTime :: int where "breakerOpenTime = 60 * 1000000000"
definition breakerThreshold :: int where "breakerThreshold = 5"

definition recordProviderFailure :: "int \<Rightarrow> string \<Rightarrow> breaker \<Rightarrow> breaker" where
  "recordProviderFailure now i b =
     (let n = gget0 0 (br_failures b) i + 1; b1 = b\<lparr>br_failures := gput i n (br_failures b)\<rparr>
      in if n \<ge> breakerThreshold then b1\<lparr>br_cooldown := gput i (now + breakerOpenTime) (br_cooldown b1)\<rparr> else b1)"

definition recordProviderSuccess :: "string \<Rightarrow> breaker \<Rightarrow> breaker" where
  "recordProviderSuccess i b = b\<lparr>br_failures := gdel i (br_failures b)\<rparr>"

definition recordProviderCooldown :: "int \<Rightarrow> string \<Rightarrow> breaker \<Rightarrow> breaker" where
  "recordProviderCooldown now i b = b\<lparr>br_cooldown := gput i (now + cooldownTime) (br_cooldown b)\<rparr>"

definition providerInCooldown :: "int \<Rightarrow> string \<Rightarrow> breaker \<Rightarrow> bool \<times> breaker" where
  "providerInCooldown now i b =
     (case gget (br_cooldown b) i of
        None \<Rightarrow> (False, b)
      | Some until \<Rightarrow> if now > until then (False, b\<lparr>br_cooldown := gdel i (br_cooldown b)\<rparr>) else (True, b))"

fun keep_warm :: "int \<Rightarrow> candidate list \<Rightarrow> breaker \<Rightarrow> candidate list \<times> breaker" where
  "keep_warm now [] b = ([], b)"
| "keep_warm now (c # cs) b =
     (case providerInCooldown now (pr_ID (ca_Provider c)) b of
        (cold, b1) \<Rightarrow> (case keep_warm now cs b1 of (out, b2) \<Rightarrow> (if cold then out else c # out, b2)))"

definition filterCooldownProviders :: "int \<Rightarrow> candidate list \<Rightarrow> breaker \<Rightarrow> candidate list \<times> breaker" where
  "filterCooldownProviders now cands b =
     (case keep_warm now cands b of (out, b') \<Rightarrow> (if out = [] then cands else out, b'))"

definition isRateLimitError :: "string option \<Rightarrow> bool" where
  "isRateLimitError err =
     (case err of
        None \<Rightarrow> False
      | Some msg \<Rightarrow> sublist ''(429)'' msg \<or> sublist ''429 Too Many Requests'' msg \<or> sublist ''rate limit'' msg)"

section \<open>Sorting\<close>

definition price_key :: "candidate \<Rightarrow> real" where
  "price_key c =
     (let p = getPricing (ca_Model c) (pr_ID (ca_Provider c)); s = pc_Input p + pc_Output p
      in if s = 0 then 0.001 else s)"

definition latency_key :: "route_env \<Rightarrow> candidate \<Rightarrow> real" where
  "latency_key env c =
     (let e = gget0 0 (re_ewma env) (pr_ID (ca_Provider c)) in if e = 0 then 5000 else e)"

definition normalize :: "real \<Rightarrow> real \<Rightarrow> real \<Rightarrow> real" where
  "normalize val lo hi = (if hi = lo then 0 else (val - lo) / (hi - lo))"

definition minMax :: "real list \<Rightarrow> real \<times> real" where
  "minMax a =
     (case a of
        [] \<Rightarrow> (0, 1)
      | x # xs \<Rightarrow> foldl (\<lambda>(lo, hi) v. (if v < lo then v else lo, if v > hi then v else hi)) (x, x) xs)"

definition getWeights :: "route_env \<Rightarrow> (string, real) gomap" where
  "getWeights env =
     (let w = [(''priority'', 0.4), (''cost'', 0.25), (''latency'', 0.2), (''tokens'', 0.15)]
      in case re_weights env of None \<Rightarrow> w | Some parsed \<Rightarrow> fold (\<lambda>(k, v). gput k v) parsed w)"

definition remaining_tokens :: "route_env \<Rightarrow> candidate \<Rightarrow> real option" where
  "remaining_tokens env c =
     (let limit = pr_TokenLimit (ca_Provider c)
      in if limit > 0 then
           let rem = i64 (limit - gget0 0 (re_tokensUsed env) (pr_ID (ca_Provider c)))
           in Some (of_int (if rem < 0 then 0 else rem))
         else None)"

definition auto_scores :: "route_env \<Rightarrow> candidate list \<Rightarrow> real list" where
  "auto_scores env cs =
     (let w = getWeights env;
          pries = map (\<lambda>c. of_int (pr_Priority (ca_Provider c))) cs;
          costs = map (\<lambda>c. let p = getPricing (ca_Model c) (pr_ID (ca_Provider c)) in pc_Input p + pc_Output p) cs;
          lats = map (latency_key env) cs;
          rems = map (remaining_tokens env) cs;
          bounded = map the (filter (\<lambda>r. r \<noteq> None) rems);
          (minPri, maxPri) = minMax pries;
          (minCost, maxCost) = minMax costs;
          (minLat, maxLat) = minMax lats;
          (minTok, maxTok) = (if bounded \<noteq> [] then minMax bounded else (0, 1))
      in map (\<lambda>i. gget0 0 w ''priority'' * (1 - normalize (pries ! i) minPri maxPri)
                 + gget0 0 w ''cost'' * (1 - normalize (costs ! i) minCost maxCost)
                 + gget0 0 w ''latency'' * (1 - normalize (lats ! i) minLat maxLat)
                 + gget0 0 w ''tokens'' * (case rems ! i of None \<Rightarrow> 0.5 | Some r \<Rightarrow> normalize r minTok maxTok))
           [0..<length cs])"

text \<open>
  Insertion sort of a slice with a comparison of positions: the element at \<open>i\<close> is swapped downwards as long
  as the comparison of the neighbouring positions says so.
\<close>

fun sink :: "(nat \<Rightarrow> nat \<Rightarrow> bool) \<Rightarrow> nat \<Rightarrow> 'a list \<Rightarrow> 'a list" where
  "sink lt 0 xs = xs"
| "sink lt (Suc j) xs =
     (if lt (Suc j) j then sink lt j (xs[Suc j := xs ! j, j := xs ! Suc j]) else xs)"

definition insertionSort :: "(nat \<Rightarrow> nat \<Rightarrow> bool) \<Rightarrow> 'a list \<Rightarrow> 'a list" where
  "insertionSort lt xs = fold (sink lt) [1..<length xs] xs"

type_synonym merger = "(nat \<Rightarrow> nat \<Rightarrow> bool) \<Rightarrow> candidate list \<Rightarrow> candidate list"

definition sortAuto :: "merger \<Rightarrow> route_env \<Rightarrow> candidate list \<Rightarrow> candidate list" where
  "sortAuto merge env cs =
     (if length cs \<le> 1 then cs
      else
        let scores = auto_scores env cs; lt = (\<lambda>i j. scores ! i > scores ! j)
        in if length cs \<le> 20 then insertionSort lt cs else merge lt cs)"

definition by_priority :: "candidate \<Rightarrow> candidate \<Rightarrow> bool" where
  "by_priority a b \<longleftrightarrow> pr_Priority (ca_Provider a) < pr_Priority (ca_Provider b)"

definition sortCandidates :: "merger \<Rightarrow> route_env \<Rightarrow> string \<Rightarrow> candidate list \<Rightarrow> candidate list" where
  "sortCandidates merge env mode cs =
     (if mode = ''priority'' then stable_sort_by by_priority cs
      else if mode = ''cheapest'' then stable_sort_by (\<lambda>a b. price_key a < price_key b) cs
      else if mode = ''fastest'' then stable_sort_by (\<lambda>a b. latency_key env a < latency_key env b) cs
      else if mode = ''auto'' then sortAuto merge env cs
      else stable_sort_by by_priority cs)"

section \<open>Routes\<close>

definition isOrgPrefix :: "string \<Rightarrow> bool" where
  "isOrgPrefix s \<longleftrightarrow> s \<in> set [''Qwen'', ''deepseek-ai'', ''meta-llama'', ''openai'', ''anthropic'', ''google'']"

definition explicit_route :: "Provider list \<Rightarrow> string \<Rightarrow> ProviderManager \<Rightarrow> (Provider \<times> string) option" where
  "explicit_route presets model m =
     (let pre = takeWhile (\<lambda>c. c \<noteq> CHR ''/'') model
      in if CHR ''/'' \<in> set model \<and> pre \<noteq> [] \<and> \<not> isOrgPrefix pre
         then (case GetRaw presets pre m of
                 Some p \<Rightarrow> if pr_Enabled p then Some (p, drop (Suc (length pre)) model) else None
               | None \<Rightarrow> None)
         else None)"

definition ResolveRoute :: "merger \<Rightarrow> route_env \<Rightarrow> Provider list \<Rightarrow> string \<Rightarrow> string \<Rightarrow> ProviderManager \<Rightarrow> (Provider \<times> string) option" where
  "ResolveRoute merge env presets model mode m =
     (case explicit_route presets model m of
        Some r \<Rightarrow> Some r
      | None \<Rightarrow>
          let cands = filterExpired env (FindCandidates presets model m)
          in if cands = [] then None
             else if length cands = 1 then Some (ca_Provider (hd cands), ca_Model (hd cands))
             else let c = hd (sortCandidates merge env mode cands) in Some (ca_Provider c, ca_Model c))"

definition OrderedCandidates :: "merger \<Rightarrow> route_env \<Rightarrow> int \<Rightarrow> Provider list \<Rightarrow> string \<Rightarrow> string \<Rightarrow> ProviderManager \<Rightarrow> breaker \<Rightarrow> candidate list \<times> breaker" where
  "OrderedCandidates merge env now presets model mode m b =
     (let cands = filterExpired env (FindCandidates presets model m)
      in if cands = [] then ([], b)
         else case filterCooldownProviders now cands b of (warm, b') \<Rightarrow> (sortCandidates merge env mode warm, b'))"

section \<open>Model lists\<close>

record ModelInfo =
  mi_ID :: string
  mi_Object :: string
  mi_Created :: int
  mi_OwnedBy :: string

fun list_models :: "int \<Rightarrow> Provider list \<Rightarrow> string list \<Rightarrow> ModelInfo list" where
  "list_models now [] seen = []"
| "list_models now (p # ps) seen =
     (let ids = foldl (\<lambda>out md. if \<not> md_Enabled md \<or> md_ID md \<in> set seen \<or> md_ID md \<in> set out then out else out @ [md_ID md]) [] (pr_Models p)
      in map (\<lambda>i. \<lparr>mi_ID = i, mi_Object = ''model'', mi_Created = now div 1000000000, mi_OwnedBy = pr_Name p\<rparr>) ids
         @ list_models now ps (ids @ seen))"

definition coze_model :: "int \<Rightarrow> string \<Rightarrow> Provider list \<Rightarrow> ModelInfo list \<Rightarrow> ProviderManager \<Rightarrow> ModelInfo list" where
  "coze_model now botID presets ms m =
     (case GetRaw presets ''coze'' m of
        Some raw \<Rightarrow>
          if pr_Enabled raw \<and> pr_APIKey raw \<noteq> [] \<and> botID \<noteq> [] \<and> ''coze-'' @ botID \<notin> set (map mi_ID ms)
          then [\<lparr>mi_ID = ''coze-'' @ botID, mi_Object = ''model'', mi_Created = now div 1000000000, mi_OwnedBy = ''Coze''\<rparr>]
          else []
      | None \<Rightarrow> [])"

definition AllModels :: "int \<Rightarrow> string \<Rightarrow> Provider list \<Rightarrow> ProviderManager \<Rightarrow> ModelInfo list" where
  "AllModels now botID presets m =
     (let ms = list_models now (filter (\<lambda>p. pr_Enabled p \<and> \<not> (pr_APIKey p = [] \<and> pr_APIKeys p = [])) (GetAllRaw presets m)) []
      in ms @ coze_model now botID presets ms m)"

definition listed_to :: "bool \<Rightarrow> string \<Rightarrow> Provider \<Rightarrow> bool" where
  "listed_to shared keyType p \<longleftrightarrow>
     pr_Enabled p \<and> \<not> (pr_ID p \<noteq> ''sider'' \<and> pr_APIKey p = [] \<and> pr_APIKeys p = [])
     \<and> \<not> (pr_ID p \<noteq> ''sider'' \<and> \<not> providerAllowsKeyType shared p keyType)"

definition AllModelsFiltered :: "int \<Rightarrow> string \<Rightarrow> bool \<Rightarrow> Provider list \<Rightarrow> string \<Rightarrow> ProviderManager \<Rightarrow> ModelInfo list" where
  "AllModelsFiltered now botID shared presets keyType m =
     (if keyType = ''admin'' then AllModels now botID presets m
      else list_models now (filter (listed_to shared keyType) (GetAllRaw presets m)) [])"

text \<open>Upper case letters of ASCII; model identifiers are ASCII.\<close>

definition to_lower :: "string \<Rightarrow> string" where
  "to_lower s = map (\<lambda>c. if 65 \<le> byte_of c \<and> byte_of c \<le> 90 then char_of (byte_of c + 32) else c) s"

definition preview_words :: "string list" where
  "preview_words = [''preview'', ''beta'', ''experimental'', ''-exp'', ''emb'', ''embed'', ''tts'', ''image'', ''video'',
     ''reward'', ''safety'', ''guard'', ''vision'', ''retriever'']"

definition is_preview :: "ModelDef \<Rightarrow> bool" where
  "is_preview md = list_ex (\<lambda>w. sublist w (to_lower (md_ID md))) preview_words"

definition enableLatestModels :: "ModelDef list \<Rightarrow> ModelDef list" where
  "enableLatestModels models =
     (if length models \<le> 3 then models
      else
        let stable = stable_sort_by (\<lambda>a b. md_ID a > md_ID b) (filter (\<lambda>md. \<not> is_preview md) models);
            enabledSet = map md_ID (take 3 stable)
        in map (\<lambda>md. if md_ID md \<notin> set enabledSet then md\<lparr>md_Enabled := False\<rparr> else md) models)"

section \<open>What a client without the operator's credentials can reach\<close>

lemma FilterByAccessControl_iff:
  "c \<in> set (FilterByAccessControl shared cands keyType) \<longleftrightarrow>
     c \<in> set cands \<and>
     (keyType = ''admin'' \<or> keyType = ''proxy'' \<or>
      (keyType = ''guest'' \<and> (pr_ID (ca_Provider c) = ''sider'' \<or> hasNonPrivateKey (ca_Provider c))) \<or>
      (keyType = ''public'' \<and> (isFreePoolProvider (ca_Provider c) \<or>
         shared \<and> (pr_ID (ca_Provider c) = ''sider'' \<or> ac_ShareToPool (pr_AccessControl (ca_Provider c))))) \<or>
      (keyType \<notin> {''admin'', ''proxy'', ''guest'', ''public''} \<and> pr_ID (ca_Provider c) = ''sider''))"
  by (auto simp: FilterByAccessControl_def filterFreePoolOnly_def)

text \<open>
  Reach of outside keys. Take a request that carries neither the relay's internal class nor the
  administrator role nor a proxy key. Every provider it can be routed to is a community free-pool
  provider, or the Sider provider (never with the public key in personal mode), or a provider that its
  operator shares: with the public key in shared mode one that is shared to the pool; with a guest key
  that is valid in shared mode likewise; with any other guest key one that has an enabled key that is not
  private. A key of no known form reaches at most the Sider provider.
\<close>

theorem outside_keys_reach:
  fixes now store r shared
  defines "key \<equiv> trim_bearer (kr_authorization r)"
  assumes "kr_internal r = []" and "kr_role r \<noteq> ''admin''" and "ClassifyKey key \<noteq> KeyTypeProxy"
    and "c \<in> set (FilterByAccessControl shared cands (RequestKeyType now shared store r))"
  shows "case ClassifyKey key of
      KeyTypePublic \<Rightarrow> isFreePoolProvider (ca_Provider c) \<or>
        shared \<and> (pr_ID (ca_Provider c) = ''sider'' \<or> ac_ShareToPool (pr_AccessControl (ca_Provider c)))
    | KeyTypeGuest \<Rightarrow>
        (if shared \<and> GetGuestKeyAccessPublicPool now shared key store \<noteq> None
         then isFreePoolProvider (ca_Provider c) \<or> pr_ID (ca_Provider c) = ''sider'' \<or> ac_ShareToPool (pr_AccessControl (ca_Provider c))
         else pr_ID (ca_Provider c) = ''sider'' \<or> hasNonPrivateKey (ca_Provider c))
    | _ \<Rightarrow> pr_ID (ca_Provider c) = ''sider''"
proof (cases "ClassifyKey key")
  case KeyTypePublic
  then have "RequestKeyType now shared store r = ''public''" using assms by (simp add: RequestKeyType_def key_def Let_def)
  with KeyTypePublic assms(5) show ?thesis unfolding FilterByAccessControl_iff by simp
next
  case KeyTypeGuest
  have pool: "GetGuestKeyAccessPublicPool now shared key store = Some (n, b) \<Longrightarrow> b = shared" for n b
    by (auto simp: GetGuestKeyAccessPublicPool_def split: if_splits option.splits)
  define pooled where "pooled \<longleftrightarrow> shared \<and> GetGuestKeyAccessPublicPool now shared key store \<noteq> None"
  have kt: "RequestKeyType now shared store r = (if pooled then ''public'' else ''guest'')"
  proof (cases "GetGuestKeyAccessPublicPool now shared key store")
    case (Some nb)
    obtain n b where nb: "nb = (n, b)" by (cases nb)
    with Some pool have "b = shared" by simp
    with KeyTypeGuest assms(2,3) Some nb show ?thesis by (cases shared) (simp_all add: RequestKeyType_def key_def Let_def pooled_def)
  qed (use KeyTypeGuest assms(2,3) in \<open>simp add: RequestKeyType_def key_def Let_def pooled_def\<close>)
  from KeyTypeGuest assms(5) show ?thesis
    unfolding FilterByAccessControl_iff kt pooled_def [symmetric] by (cases pooled) auto
next
  case KeyTypeUnknown
  then have "RequestKeyType now shared store r = ''unknown''" using assms by (simp add: RequestKeyType_def key_def Let_def)
  with KeyTypeUnknown assms(5) show ?thesis unfolding FilterByAccessControl_iff by simp
qed (use assms in simp)

definition public_request :: key_request where
  "public_request = \<lparr>kr_internal = [], kr_role = [], kr_authorization = ''Bearer '' @ PublicKeyValue\<rparr>"

definition free_candidate :: candidate where
  "free_candidate = \<lparr>ca_Provider = zero_provider\<lparr>pr_ID := ''free-x''\<rparr>, ca_Model = ''m''\<rparr>"

theorem outside_keys_reach_witness:
  "isFreePoolProvider (ca_Provider free_candidate) \<and>
   free_candidate \<in> set (FilterByAccessControl False [free_candidate] (RequestKeyType 0 False None public_request))"
proof -
  have k: "trim_bearer (kr_authorization public_request) = PublicKeyValue" by (simp add: public_request_def trim_bearer_def)
  have p: "ClassifyKey PublicKeyValue = KeyTypePublic" by (simp add: ClassifyKey_def)
  have "RequestKeyType 0 False None public_request = ''public''"
    using k p by (simp add: RequestKeyType_def Let_def) (simp add: public_request_def)
  then have c: "free_candidate \<in> set (FilterByAccessControl False [free_candidate] (RequestKeyType 0 False None public_request))"
    by (simp add: FilterByAccessControl_iff isFreePoolProvider_def free_candidate_def)
  with outside_keys_reach [of public_request free_candidate False "[free_candidate]" 0 None] k p
  show ?thesis by (simp add: public_request_def)
qed

text \<open>The comment on unknown keys promises no access, but the exception for Sider comes first.\<close>

lemma unknown_key_reaches_sider:
  "pr_ID (ca_Provider c) = ''sider'' \<Longrightarrow> c \<in> set (FilterByAccessControl shared [c] ''unknown'')"
  by (simp add: FilterByAccessControl_iff)

section \<open>Listed models can be routed\<close>

lemma list_models_sound:
  "i \<in> mi_ID ` set (list_models now ps seen) \<Longrightarrow> \<exists>p \<in> set ps. list_ex (\<lambda>md. md_ID md = i \<and> md_Enabled md) (pr_Models p)"
proof (induction ps arbitrary: seen)
  case (Cons p ps)
  let ?step = "\<lambda>out md. if \<not> md_Enabled md \<or> md_ID md \<in> set seen \<or> md_ID md \<in> set out then out else out @ [md_ID md]"
  have ids: "x \<in> set (foldl ?step out mds) \<Longrightarrow> x \<in> set out \<or> list_ex (\<lambda>md. md_ID md = x \<and> md_Enabled md) mds" for x out mds
  proof (induction mds arbitrary: out)
    case (Cons a mds)
    from Cons.IH [of "?step out a"] Cons.prems show ?case by (cases "?step out a = out") (auto split: if_splits)
  qed simp
  from Cons.prems consider "i \<in> set (foldl ?step [] (pr_Models p))" |
      "i \<in> mi_ID ` set (list_models now ps (foldl ?step [] (pr_Models p) @ seen))"
    by (auto simp: Let_def)
  then show ?case using ids [of i "[]" "pr_Models p"] Cons.IH by cases auto
qed simp

lemma listed_admitted:
  assumes "listed_to shared keyType p" and "shared \<or> keyType \<noteq> ''public'' \<or> pr_ID p \<noteq> ''sider''"
    and "keyType \<in> {''proxy'', ''guest'', ''public'', ''unknown''}"
  shows "\<lparr>ca_Provider = p, ca_Model = model\<rparr> \<in> set (FilterByAccessControl shared [\<lparr>ca_Provider = p, ca_Model = model\<rparr>] keyType)"
  using assms unfolding FilterByAccessControl_iff
  by (auto simp: listed_to_def providerAllowsKeyType_def split: if_splits)

text \<open>
  Listing and routing agree. Every model that is listed for a key class other than the
  administrator's has a candidate provider that access control admits for this class. The one exception
  excluded here is the Sider provider for the public key in personal mode, which is listed but not routed.
\<close>

theorem listed_models_routable:
  assumes "keyType \<in> {''proxy'', ''guest'', ''public'', ''unknown''}"
    and "shared \<or> keyType \<noteq> ''public'' \<or> ''sider'' \<notin> pr_ID ` set (GetAllRaw presets m)"
    and "i \<in> mi_ID ` set (AllModelsFiltered now botID shared presets keyType m)"
  shows "FilterByAccessControl shared (FindCandidates presets i m) keyType \<noteq> []"
proof -
  have "AllModelsFiltered now botID shared presets keyType m = list_models now (filter (listed_to shared keyType) (GetAllRaw presets m)) []"
  proof -
    have "keyType \<noteq> ''admin''" using assms(1) by (elim insertE) simp_all
    then show ?thesis by (simp add: AllModelsFiltered_def)
  qed
  with assms(3) obtain p where p: "p \<in> set (GetAllRaw presets m)" "listed_to shared keyType p"
    "list_ex (\<lambda>md. md_ID md = i \<and> md_Enabled md) (pr_Models p)"
    using list_models_sound [of i now "filter (listed_to shared keyType) (GetAllRaw presets m)" "[]"] by (simp del: list_models.simps) blast
  let ?c = "\<lparr>ca_Provider = p, ca_Model = i\<rparr>"
  have "?c \<in> set (FindCandidates presets i m)"
    using p by (auto simp: FindCandidates_def listed_to_def)
  moreover have "?c \<in> set (FilterByAccessControl shared [?c] keyType)"
  proof (rule listed_admitted [OF p(2) _ assms(1)])
    show "shared \<or> keyType \<noteq> ''public'' \<or> pr_ID p \<noteq> ''sider''" using assms(2) p(1) by (metis imageI)
  qed
  ultimately have "?c \<in> set (FilterByAccessControl shared (FindCandidates presets i m) keyType)"
    unfolding FilterByAccessControl_iff by auto
  then show ?thesis by auto
qed

definition served_model :: ModelDef where
  "served_model = \<lparr>md_ID = ''m1'', md_Name = ''m1'', md_Tier = [], md_Enabled = True, md_EnabledByKeys = [], md_AvailableKeys = [], md_Source = []\<rparr>"

definition serving_manager :: ProviderManager where
  "serving_manager = sample_manager\<lparr>pm_providers := [(''p1'', sample_provider\<lparr>pr_Models := [served_model]\<rparr>)]\<rparr>"

theorem listed_models_routable_witness:
  "FilterByAccessControl True (FindCandidates [] ''m1'' serving_manager) ''proxy'' \<noteq> []"
proof -
  have "''m1'' \<in> mi_ID ` set (AllModelsFiltered 0 [] True [] ''proxy'' serving_manager)"
    by (simp add: serving_manager_def sample_provider_defs served_model_def AllModelsFiltered_def GetAllRaw_def
        sortedConfiguredLocked_def gget0_def listed_to_def providerAllowsKeyType_def Let_def)
  from listed_models_routable [OF _ _ this] show ?thesis by simp
qed

lemma sider_listed_not_routed:
  assumes "pr_ID p = ''sider''" and "pr_Enabled p" and "\<not> isFreePoolProvider p"
  shows "listed_to False ''public'' p \<and> FilterByAccessControl False [\<lparr>ca_Provider = p, ca_Model = i\<rparr>] ''public'' = []"
  using assms by (simp add: listed_to_def FilterByAccessControl_def filterFreePoolOnly_def)

section \<open>Candidates in order\<close>

definition cold :: "int \<Rightarrow> breaker \<Rightarrow> string \<Rightarrow> bool" where
  "cold now b i = (case gget (br_cooldown b) i of Some until \<Rightarrow> now \<le> until | None \<Rightarrow> False)"

lemma providerInCooldown_cold:
  assumes "providerInCooldown now i b = (c, b')"
  shows "c = cold now b i \<and> cold now b' j = cold now b j"
  using assms by (auto simp: providerInCooldown_def cold_def split: option.splits if_splits)

lemma keep_warm_filter:
  "keep_warm now cs b = (out, b') \<Longrightarrow> out = filter (\<lambda>c. \<not> cold now b (pr_ID (ca_Provider c))) cs"
proof (induction now cs b arbitrary: out b' rule: keep_warm.induct)
  case (2 now c cs b)
  obtain x b1 where p: "providerInCooldown now (pr_ID (ca_Provider c)) b = (x, b1)" by fastforce
  obtain o2 b2 where k: "keep_warm now cs b1 = (o2, b2)" by fastforce
  note 2(1) [OF p [symmetric] k]
  with providerInCooldown_cold [OF p] 2(2) p k show ?case by (auto split: if_splits)
qed simp

text \<open>The candidates that are tried: those not cooled down, or all of them when all are.\<close>

definition warm_candidates :: "route_env \<Rightarrow> int \<Rightarrow> Provider list \<Rightarrow> string \<Rightarrow> ProviderManager \<Rightarrow> breaker \<Rightarrow> candidate list" where
  "warm_candidates env now presets model m b =
     (let cands = filterExpired env (FindCandidates presets model m);
          warm = filter (\<lambda>c. \<not> cold now b (pr_ID (ca_Provider c))) cands
      in if warm = [] then cands else warm)"

lemma OrderedCandidates_warm:
  "fst (OrderedCandidates merge env now presets model mode m b) =
     (if warm_candidates env now presets model m b = [] then []
      else sortCandidates merge env mode (warm_candidates env now presets model m b))"
proof -
  let ?cands = "filterExpired env (FindCandidates presets model m)"
  obtain out b' where k: "keep_warm now ?cands b = (out, b')" by fastforce
  from keep_warm_filter [OF k] have "filterCooldownProviders now ?cands b = (warm_candidates env now presets model m b, b')"
    by (simp add: filterCooldownProviders_def k warm_candidates_def Let_def)
  then show ?thesis by (auto simp: OrderedCandidates_def Let_def warm_candidates_def split: if_splits)
qed

lemma mset_sink: "i < length xs \<Longrightarrow> mset (sink lt i xs) = mset xs"
  by (induction lt i xs rule: sink.induct) (auto simp: mset_swap)

lemma length_sink [simp]: "length (sink lt i xs) = length xs"
  by (induction lt i xs rule: sink.induct) auto

lemma mset_insertionSort: "mset (insertionSort lt xs) = mset xs"
proof -
  have run: "list_all (\<lambda>i. i < length ys) is \<Longrightarrow> mset (fold (sink lt) is ys) = mset ys" for "is" ys
    by (induction "is" arbitrary: ys) (simp_all add: mset_sink)
  show ?thesis unfolding insertionSort_def by (rule run) (simp add: list_all_iff)
qed

lemma candidate_sound:
  "c \<in> set (warm_candidates env now presets model m b) \<Longrightarrow>
     ca_Provider c \<in> set (GetAllRaw presets m) \<and> pr_Enabled (ca_Provider c) \<and> ca_Model c = model \<and>
     list_ex (\<lambda>md. md_ID md = model \<and> md_Enabled md) (pr_Models (ca_Provider c)) \<and>
     (re_siderExpired env \<longrightarrow> pr_ID (ca_Provider c) \<noteq> ''sider'')"
  by (auto simp: warm_candidates_def Let_def filterExpired_def FindCandidates_def split: if_splits)

text \<open>
  (C16) Order of the candidates. The candidates tried for a model are exactly the enabled providers that serve the
  model, without an expired Sider and without those in cooldown; when every one is in cooldown, all of them are tried.
  In the modes by priority (also any unknown mode), price and latency they come sorted by that key, equal
  ones in the order of the provider list. In the automatic mode no order is claimed: for at most 20 candidates none is
  lost or duplicated.
\<close>

theorem ordered_candidates:
  fixes merge env now presets model m b
  defines "ws \<equiv> warm_candidates env now presets model m b"
    and "result \<equiv> \<lambda>mode. fst (OrderedCandidates merge env now presets model mode m b)"
    and "serving \<equiv> {p \<in> set (GetAllRaw presets m). pr_Enabled p \<and> (\<exists>md\<in>set (pr_Models p). md_ID md = model \<and> md_Enabled md) \<and>
      (re_siderExpired env \<longrightarrow> pr_ID p \<noteq> ''sider'')}"
    and "cooling \<equiv> {p. \<exists>until. gget (br_cooldown b) (pr_ID p) = Some until \<and> now \<le> until}"
  shows "result ''cheapest'' = sort_key price_key ws \<and>
    result ''fastest'' = sort_key (latency_key env) ws \<and>
    (mode \<notin> {''cheapest'', ''fastest'', ''auto''} \<longrightarrow> result mode = sort_key (\<lambda>c. pr_Priority (ca_Provider c)) ws) \<and>
    (length ws \<le> 20 \<longrightarrow> mset (result ''auto'') = mset ws) \<and>
    ca_Provider ` set ws = (if serving \<subseteq> cooling then serving else serving - cooling) \<and>
    (\<forall>c\<in>set ws. ca_Model c = model)"
proof -
  have k: "stable_sort_by (\<lambda>a b. price_key a < price_key b) cs = sort_key price_key cs"
    "stable_sort_by (\<lambda>a b. latency_key env a < latency_key env b) cs = sort_key (latency_key env) cs"
    "stable_sort_by by_priority cs = sort_key (\<lambda>c. pr_Priority (ca_Provider c)) cs" for cs
    by (rule stable_sort_by_key, simp add: by_priority_def)+
  have "result ''cheapest'' = sort_key price_key ws" "result ''fastest'' = sort_key (latency_key env) ws"
    unfolding result_def OrderedCandidates_warm ws_def [symmetric] by (simp_all add: sortCandidates_def k)
  moreover have "result mode = sort_key (\<lambda>c. pr_Priority (ca_Provider c)) ws" if "mode \<notin> {''cheapest'', ''fastest'', ''auto''}"
    using that unfolding result_def OrderedCandidates_warm ws_def [symmetric] by (simp add: sortCandidates_def k)
  moreover have "mset (result ''auto'') = mset ws" if "length ws \<le> 20"
    using that unfolding result_def OrderedCandidates_warm ws_def [symmetric]
    by (simp add: sortCandidates_def sortAuto_def Let_def mset_insertionSort)
  moreover have "ca_Provider ` set ws = (if serving \<subseteq> cooling then serving else serving - cooling)"
  proof -
    let ?cands = "filterExpired env (FindCandidates presets model m)"
    let ?warm = "filter (\<lambda>c. \<not> cold now b (pr_ID (ca_Provider c))) ?cands"
    have cold: "cold now b (pr_ID p) \<longleftrightarrow> p \<in> cooling" for p by (simp add: cold_def cooling_def split: option.split)
    have all: "ca_Provider ` set ?cands = serving"
      by (force simp: filterExpired_def FindCandidates_def serving_def list_ex_iff image_iff)
    have "ca_Provider ` set ?warm = serving - cooling" unfolding all [symmetric] by (auto simp: cold)
    moreover from this have "?warm = [] \<longleftrightarrow> serving \<subseteq> cooling" by (metis Diff_eq_empty_iff image_is_empty set_empty)
    ultimately show ?thesis using all by (simp add: ws_def warm_candidates_def Let_def)
  qed
  moreover have "\<forall>c\<in>set ws. ca_Model c = model" using candidate_sound unfolding ws_def by blast
  ultimately show ?thesis by blast
qed

definition quiet_env :: route_env where
  "quiet_env = \<lparr>re_siderExpired = False, re_sharedMode = False, re_ewma = [], re_tokensUsed = [], re_weights = None\<rparr>"

definition no_breaker :: breaker where
  "no_breaker = \<lparr>br_cooldown = [], br_failures = []\<rparr>"

theorem ordered_candidates_witness:
  "fst (OrderedCandidates (\<lambda>lt cs. cs) quiet_env 0 [] ''m1'' ''priority'' serving_manager no_breaker) =
     sort_key (\<lambda>c. pr_Priority (ca_Provider c)) (warm_candidates quiet_env 0 [] ''m1'' serving_manager no_breaker)"
  using ordered_candidates [where mode = "''priority''" and merge = "\<lambda>lt cs. cs" and env = quiet_env and now = 0
      and presets = "[]" and model = "''m1''" and m = serving_manager and b = no_breaker]
  by simp

text \<open>
  The chosen route. A name of the form provider/model, whose provider is known and enabled and whose
  first part is not the name of an organisation, goes to that provider under the rest of the name. Any
  other name is refused exactly when no enabled provider serves it (an expired Sider apart), and goes to a
  provider of least priority value, price or latency among those that serve it, by the mode of routing.
\<close>

theorem resolve_route:
  assumes "explicit_route presets model m = None" and "mode \<noteq> ''auto''"
  shows "case ResolveRoute merge env presets model mode m of
      None \<Rightarrow> filterExpired env (FindCandidates presets model m) = []
    | Some (p, model') \<Rightarrow> model' = model \<and>
        (\<exists>c \<in> set (filterExpired env (FindCandidates presets model m)). ca_Provider c = p \<and>
          list_all (\<lambda>d.
            if mode = ''cheapest'' then price_key c \<le> price_key d
            else if mode = ''fastest'' then latency_key env c \<le> latency_key env d
            else pr_Priority p \<le> pr_Priority (ca_Provider d)) (filterExpired env (FindCandidates presets model m)))"
proof -
  let ?cs = "filterExpired env (FindCandidates presets model m)"
  define f where "f = sortCandidates merge env mode"
  have sorted_hd: "hd (sort_key g xs) \<in> set xs \<and> (\<forall>y \<in> set xs. g (hd (sort_key g xs)) \<le> g y)" if "xs \<noteq> []" for g :: "candidate \<Rightarrow> 'a :: linorder" and xs
  proof -
    have ne: "sort_key g xs \<noteq> []" using that by (metis length_0_conv length_sort)
    then have "hd (sort_key g xs) \<in> set (sort_key g xs)" by (rule hd_in_set)
    moreover have "\<forall>y \<in> set (sort_key g xs). g (hd (sort_key g xs)) \<le> g y"
      using sorted_sort_key [of g xs] ne by (cases "sort_key g xs") auto
    ultimately show ?thesis by simp
  qed
  have key: "f cs = sort_key price_key cs" if "mode = ''cheapest''" for cs
    using that unfolding f_def sortCandidates_def by (simp add: stable_sort_by_key [where f = price_key])
  have key2: "f cs = sort_key (latency_key env) cs" if "mode = ''fastest''" for cs
    using that unfolding f_def sortCandidates_def by (simp add: stable_sort_by_key [where f = "latency_key env"])
  have key3: "f cs = sort_key (\<lambda>c. pr_Priority (ca_Provider c)) cs" if "mode \<noteq> ''cheapest''" "mode \<noteq> ''fastest''" for cs
    using that assms(2) unfolding f_def sortCandidates_def
    by (simp add: stable_sort_by_key [where f = "\<lambda>c. pr_Priority (ca_Provider c)"] by_priority_def)
  have model: "d \<in> set ?cs \<Longrightarrow> ca_Model d = model" for d
    by (auto simp: filterExpired_def FindCandidates_def split: if_splits)
  show ?thesis
  proof (cases "?cs = []")
    case True
    then show ?thesis using assms(1) by (simp add: ResolveRoute_def)
  next
    case False
    define c where "c = (if length ?cs = 1 then hd ?cs else hd (f ?cs))"
    have r: "ResolveRoute merge env presets model mode m = Some (ca_Provider c, ca_Model c)"
      using False assms(1) by (simp add: ResolveRoute_def Let_def c_def f_def)
    have single: "length ?cs = 1 \<Longrightarrow> c \<in> set ?cs \<and> (\<forall>d \<in> set ?cs. d = c)"
      using False by (cases ?cs) (auto simp: c_def)
    have best: "c \<in> set ?cs \<and> (\<forall>d \<in> set ?cs. if mode = ''cheapest'' then price_key c \<le> price_key d
        else if mode = ''fastest'' then latency_key env c \<le> latency_key env d
        else pr_Priority (ca_Provider c) \<le> pr_Priority (ca_Provider d))"
    proof (cases "length ?cs = 1")
      case True
      with single show ?thesis by auto
    next
      case False
      consider "mode = ''cheapest''" | "mode = ''fastest''" | "mode \<noteq> ''cheapest''" "mode \<noteq> ''fastest''" by blast
      then show ?thesis
        using False \<open>?cs \<noteq> []\<close> sorted_hd [of ?cs price_key] sorted_hd [of ?cs "latency_key env"] sorted_hd [of ?cs "\<lambda>c. pr_Priority (ca_Provider c)"]
        by cases (simp_all add: c_def key key2 key3)
    qed
    with r model [of c] show ?thesis by (auto simp: list_all_iff)
  qed
qed

theorem resolve_route_witness:
  "\<exists>p. ResolveRoute (\<lambda>lt cs. cs) quiet_env [] ''m1'' ''fastest'' serving_manager = Some (p, ''m1'')"
proof -
  have "explicit_route [] ''m1'' serving_manager = None" by (simp add: explicit_route_def Let_def)
  moreover have "filterExpired quiet_env (FindCandidates [] ''m1'' serving_manager) \<noteq> []"
    by (simp add: filterExpired_def quiet_env_def FindCandidates_def GetAllRaw_def sortedConfiguredLocked_def Let_def
        serving_manager_def sample_provider_defs served_model_def gget0_def)
  ultimately show ?thesis
    using resolve_route [where presets = "[]" and model = "''m1''" and m = serving_manager and mode = "''fastest''"
        and merge = "\<lambda>lt cs. cs" and env = quiet_env]
    by (auto split: option.splits)
qed

section \<open>The circuit breaker opens and recovers\<close>

text \<open>
  The events of one process: a failure that is not a rate limit, a success, a rate-limit answer, and a query
  that may drop an expired entry. Failure counts are unbounded integers.
\<close>

datatype br_event = EvFail int string | EvOk string | EvLimit int string | EvQuery int string

fun br_step :: "br_event \<Rightarrow> breaker \<Rightarrow> breaker" where
  "br_step (EvFail t i) b = recordProviderFailure t i b"
| "br_step (EvOk i) b = recordProviderSuccess i b"
| "br_step (EvLimit t i) b = recordProviderCooldown t i b"
| "br_step (EvQuery t i) b = snd (providerInCooldown t i b)"

definition br_run :: "br_event list \<Rightarrow> breaker" where
  "br_run evs = fold br_step evs no_breaker"

fun ev_time :: "br_event \<Rightarrow> int \<Rightarrow> bool" where
  "ev_time (EvFail t i) T = (t \<le> T)"
| "ev_time (EvLimit t i) T = (t \<le> T)"
| "ev_time _ T = True"

text \<open>The number of failures of a provider since its last success; the latest event comes first.\<close>

fun streak :: "string \<Rightarrow> br_event list \<Rightarrow> int" where
  "streak i [] = 0"
| "streak i (EvFail t j # h) = (if i = j then streak i h + 1 else streak i h)"
| "streak i (EvOk j # h) = (if i = j then 0 else streak i h)"
| "streak i (_ # h) = streak i h"

lemma br_run_append: "br_run (evs @ [e]) = br_step e (br_run evs)"
  by (simp add: br_run_def)

lemma failures_streak: "gget0 0 (br_failures (br_run evs)) i = streak i (rev evs)"
proof (induction evs rule: rev_induct)
  case (snoc e evs)
  then show ?case
    by (cases e) (auto simp: br_run_append recordProviderFailure_def recordProviderSuccess_def recordProviderCooldown_def
        providerInCooldown_def Let_def gget0_def split: option.splits)
qed (simp add: br_run_def no_breaker_def gget0_def)

lemma cooldown_bounded:
  assumes "list_all (\<lambda>e. ev_time e T) evs" and "gget (br_cooldown (br_run evs)) i = Some until"
  shows "until \<le> T + breakerOpenTime"
  using assms
proof (induction evs arbitrary: until rule: rev_induct)
  case (snoc e evs)
  then show ?case
    by (cases e) (auto simp: br_run_append recordProviderFailure_def recordProviderSuccess_def recordProviderCooldown_def
        providerInCooldown_def Let_def cooldownTime_def breakerOpenTime_def split: option.splits if_splits)
qed (simp add: br_run_def no_breaker_def)

text \<open>
  (C24) Circuit breaker. A failure that is at least the fifth since the last success takes the provider out
  of rotation for the next 60 seconds. Whatever happened before, 60 seconds after the last failure or
  rate-limit answer every provider is in rotation again. A provider that has answered no rate limit and has
  never failed five times between two successes was never taken out.
\<close>

theorem breaker_opens_and_recovers:
  "(streak i (rev (evs @ [EvFail t i])) \<ge> breakerThreshold \<and> now \<le> t + breakerOpenTime \<longrightarrow>
      fst (providerInCooldown now i (br_run (evs @ [EvFail t i])))) \<and>
   (list_all (\<lambda>e. ev_time e T) evs \<and> now > T + breakerOpenTime \<longrightarrow>
      \<not> fst (providerInCooldown now i (br_run evs))) \<and>
   ((\<forall>t. EvLimit t i \<notin> set evs) \<and> (\<forall>n. streak i (drop n (rev evs)) < breakerThreshold) \<longrightarrow>
      \<not> fst (providerInCooldown now i (br_run evs)))"
proof (intro conjI impI)
  assume a: "streak i (rev (evs @ [EvFail t i])) \<ge> breakerThreshold \<and> now \<le> t + breakerOpenTime"
  then have "gget0 0 (br_failures (br_run evs)) i + 1 \<ge> breakerThreshold" by (simp add: failures_streak)
  then show "fst (providerInCooldown now i (br_run (evs @ [EvFail t i])))"
    using a by (simp add: br_run_append recordProviderFailure_def Let_def providerInCooldown_def)
next
  assume a: "list_all (\<lambda>e. ev_time e T) evs \<and> now > T + breakerOpenTime"
  show "\<not> fst (providerInCooldown now i (br_run evs))"
    using cooldown_bounded [of T evs i] a by (fastforce simp: providerInCooldown_def split: option.splits)
next
  assume a: "(\<forall>t. EvLimit t i \<notin> set evs) \<and> (\<forall>n. streak i (drop n (rev evs)) < breakerThreshold)"
  then have "gget (br_cooldown (br_run evs)) i = None"
  proof (induction evs rule: rev_induct)
    case (snoc e evs)
    have later: "streak i (drop n (rev evs)) < breakerThreshold" for n
      using conjunct2 [OF snoc.prems, rule_format, of "Suc n"] by simp
    then have "gget (br_cooldown (br_run evs)) i = None" using snoc.IH snoc.prems by simp
    moreover have "streak i (rev (evs @ [e])) < breakerThreshold" using conjunct2 [OF snoc.prems, rule_format, of 0] by simp
    ultimately show ?case
      using snoc.prems failures_streak [of "evs @ [e]" i]
      by (cases e) (auto simp: br_run_append recordProviderFailure_def recordProviderSuccess_def recordProviderCooldown_def
          providerInCooldown_def Let_def split: option.splits if_splits)
  qed (simp add: br_run_def no_breaker_def)
  then show "\<not> fst (providerInCooldown now i (br_run evs))" by (simp add: providerInCooldown_def)
qed

theorem breaker_opens_and_recovers_witness:
  "fst (providerInCooldown 9 ''p'' (br_run ([EvFail 1 ''p'', EvFail 2 ''p'', EvFail 3 ''p'', EvFail 4 ''p''] @ [EvFail 5 ''p'']))) \<and>
   \<not> fst (providerInCooldown (6 + breakerOpenTime) ''p'' (br_run [EvFail 1 ''p'', EvFail 2 ''p'', EvFail 3 ''p'', EvFail 4 ''p'', EvFail 5 ''p'']))"
  using breaker_opens_and_recovers [of "''p''" "[EvFail 1 ''p'', EvFail 2 ''p'', EvFail 3 ''p'', EvFail 4 ''p'']" 5 9]
    breaker_opens_and_recovers [of "''p''" "[EvFail 1 ''p'', EvFail 2 ''p'', EvFail 3 ''p'', EvFail 4 ''p'', EvFail 5 ''p'']" 5 "6 + breakerOpenTime" 5]
  by (simp add: breakerThreshold_def breakerOpenTime_def)

text \<open>A rate-limit answer during an open breaker shortens the pause: the later entry replaces the longer one.\<close>

lemma rate_limit_shortens_breaker:
  "gget (br_cooldown (recordProviderCooldown t' i (b\<lparr>br_cooldown := gput i (t + breakerOpenTime) c\<rparr>))) i = Some (t' + cooldownTime)"
  by (simp add: recordProviderCooldown_def)

section \<open>Prices do not depend on the iteration order\<close>

lemma platform_no_prefix:
  "list_all (\<lambda>e. list_all (\<lambda>(k, _). list_all (\<lambda>(k', _). prefix k k' \<longrightarrow> k = k') (snd e)) (snd e)) platformPricing"
  "list_all (\<lambda>(k, _). list_all (\<lambda>(k', _). prefix k k' \<longrightarrow> k = k') modelPricing) modelPricing"
  unfolding platformPricing_def modelPricing_def by simp_all

lemma table_price_order:
  assumes "list_all (\<lambda>(k, _). list_all (\<lambda>(k', _). prefix k k' \<longrightarrow> k = k') tab) tab"
    and "gmap_ok tab" and "gmap_ok tab'" and "set tab' = set tab"
  shows "table_price tab' model = table_price tab model"
proof -
  have g: "gget tab' model = gget tab model"
    using map_of_eqI [of tab' tab] assms(2-4) in_set_gget gget_in_set
    by (metis option.exhaust)
  have unique: "e = f" if "e \<in> set tab" "f \<in> set tab" "prefix (fst e) model" "prefix (fst f) model" for e f
  proof -
    have "fst e = fst f" using prefix_same_cases [OF that(3,4)] assms(1) that(1,2) by (force simp: list_all_iff)
    then show ?thesis using that(1,2) in_set_gget [OF assms(2)] by (metis option.inject prod.collapse)
  qed
  have "find (\<lambda>e. prefix (fst e) model) tab' = find (\<lambda>e. prefix (fst e) model) tab"
  proof (cases "find (\<lambda>e. prefix (fst e) model) tab")
    case None
    then have "find (\<lambda>e. prefix (fst e) model) tab' = None" using assms(4) unfolding find_None_iff by simp
    with None show ?thesis by simp
  next
    case (Some e)
    then have e: "e \<in> set tab" "prefix (fst e) model" by (auto simp: find_Some_iff)
    then obtain f where f: "find (\<lambda>e. prefix (fst e) model) tab' = Some f"
      using assms(4) by (metis find_None_iff not_Some_eq)
    then have "f \<in> set tab" "prefix (fst f) model" using assms(4) by (auto simp: find_Some_iff)
    with unique e f Some show ?thesis by metis
  qed
  with g show ?thesis by (simp add: table_price_def split: option.split)
qed

lemma prices_nonneg: "0 \<le> pc_Input (getPricing model provider) \<and> 0 \<le> pc_Output (getPricing model provider)"
proof -
  have tab: "table_price tab model = Some p \<Longrightarrow> p \<in> snd ` set tab" for tab p
  proof -
    assume "table_price tab model = Some p"
    then consider "gget tab model = Some p" | e where "find (\<lambda>e. prefix (fst e) model) tab = Some e" "p = snd e"
      by (auto simp: table_price_def split: option.splits)
    then show "p \<in> snd ` set tab"
    proof cases
      case 1
      then show ?thesis by (auto dest!: gget_in_set intro: rev_image_eqI)
    next
      case (2 e)
      then have "e \<in> set tab" by (auto simp: find_Some_iff)
      with 2 show ?thesis by blast
    qed
  qed
  have m: "list_all (\<lambda>e. 0 \<le> fst (snd e) \<and> 0 \<le> snd (snd e)) modelPricing" by (simp add: modelPricing_def)
  have pl: "list_all (\<lambda>t. list_all (\<lambda>e. 0 \<le> fst (snd e) \<and> 0 \<le> snd (snd e)) (snd t)) platformPricing" by (simp add: platformPricing_def)
  have "0 \<le> fst p \<and> 0 \<le> snd p" if found: "Option.bind (gget platformPricing provider) (\<lambda>tab. table_price tab model) = Some p" for p
  proof -
    obtain tab where t: "gget platformPricing provider = Some tab" "table_price tab model = Some p"
      using found unfolding bind_eq_Some_conv by blast
    then have "list_all (\<lambda>e. 0 \<le> fst (snd e) \<and> 0 \<le> snd (snd e)) tab"
      using pl gget_in_set [OF t(1)] by (auto simp: list_all_iff)
    with tab [OF t(2)] show ?thesis by (auto simp: list_all_iff)
  qed
  moreover have "0 \<le> fst p \<and> 0 \<le> snd p" if "table_price modelPricing model = Some p" for p
    using tab [OF that] m by (auto simp: list_all_iff)
  ultimately show ?thesis by (auto simp: getPricing_def price_of_def split: option.splits)
qed

lemma estimateCost_nonneg: "0 \<le> p \<Longrightarrow> 0 \<le> c \<Longrightarrow> 0 \<le> estimateCost model p c provider"
proof -
  assume "0 \<le> p" "0 \<le> c"
  then have "0 \<le> of_int p / 1000000 * pc_Input (getPricing model provider) + of_int c / 1000000 * pc_Output (getPricing model provider)"
    using prices_nonneg [of model provider] by simp
  then show ?thesis unfolding estimateCost_def Let_def roundTo6_def by simp
qed

section \<open>Observations\<close>

text \<open>
  The comparison of the automatic mode reads scores by position, and the scores stay where they are while
  the candidates are swapped. Three candidates that differ in their priority only, of priority values 2, 3
  and 1, are returned as first, third, second: the best one, the third, is not tried first.
\<close>

definition priority_candidate :: "string \<Rightarrow> int \<Rightarrow> candidate" where
  "priority_candidate i n = \<lparr>ca_Provider = zero_provider\<lparr>pr_ID := i, pr_Priority := n\<rparr>, ca_Model = ''m''\<rparr>"

lemma auto_mode_misses_best:
  "map (\<lambda>c. pr_Priority (ca_Provider c))
     (sortAuto merge quiet_env [priority_candidate ''a'' 2, priority_candidate ''b'' 3, priority_candidate ''c'' 1]) = [2, 1, 3]"
proof -
  let ?cs = "[priority_candidate ''a'' 2, priority_candidate ''b'' 3, priority_candidate ''c'' 1]"
  have "auto_scores quiet_env ?cs = [0.725, 0.525, 0.925]"
    by (simp add: auto_scores_def Let_def priority_candidate_def zero_provider_def quiet_env_def getWeights_def minMax_def
        normalize_def latency_key_def remaining_tokens_def getPricing_def platformPricing_def modelPricing_def table_price_def
        price_of_def gget0_def upt_rec)
  then show ?thesis
    by (simp add: sortAuto_def Let_def insertionSort_def upt_rec priority_candidate_def)
qed

text \<open>
  \<open>enableLatestModels\<close> sets the flag of the newest models on copies only: the returned list never has a
  model enabled that was not enabled before.
\<close>

lemma latest_models_never_enabled:
  assumes "md \<in> set (enableLatestModels models)" and "md_Enabled md"
  shows "md \<in> set models"
  using assms by (auto simp: enableLatestModels_def Let_def split: if_splits)

end
