(* ===== verification/DHT_Node.thy ===== *)
theory DHT_Node
  imports Kademlia
begin

text \<open>
  The node that speaks the lookup protocol over the routing table, \<open>src/dht_networking.go\<close>.

  The transport is the argument \<open>net\<close>: the answer to the \<open>k\<close>-th message sent, to which address and with what
  content, \<open>None\<close> when sending fails; so it stands for any behaviour of the network. \<open>clock k\<close> is the time at
  that moment. Entries of an answer may be null. The source keeps pointers to entries, which nodes of one
  process may share; the model copies them. Hashing is an argument.
\<close>

section \<open>Messages\<close>

datatype DHTMsgType =
    DHTMsgPing | DHTMsgPong | DHTMsgFindNode | DHTMsgFindNodeResp | DHTMsgFindValue | DHTMsgFindValueResp
  | DHTMsgStore | DHTMsgStoreAck | DHTMsgOther string

record DHTMessage =
  dm_ID :: string
  dm_From :: DHTNodeID
  dm_FromAddr :: string
  dm_Type :: DHTMsgType
  dm_Target :: DHTNodeID
  dm_Key :: string
  dm_Value :: "byte list"
  dm_Entries :: "DHTEntry option list"
  dm_Found :: bool
  dm_KeyID :: string
  dm_PubKey :: string
  dm_Sig :: string

definition zero_id :: DHTNodeID where
  "zero_id = replicate 32 0"

text \<open>A message with the given sender and type and everything else at its zero value.\<close>

definition blank_message :: "DHTNodeID \<Rightarrow> string \<Rightarrow> DHTMsgType \<Rightarrow> DHTMessage" where
  "blank_message from fromAddr t =
     \<lparr>dm_ID = [], dm_From = from, dm_FromAddr = fromAddr, dm_Type = t, dm_Target = zero_id, dm_Key = [], dm_Value = [],
      dm_Entries = [], dm_Found = False, dm_KeyID = [], dm_PubKey = [], dm_Sig = []\<rparr>"

type_synonym dht_net = "nat \<Rightarrow> string \<Rightarrow> DHTMessage \<Rightarrow> DHTMessage option"

record DHTNode =
  dn_id :: DHTNodeID
  dn_addr :: string
  dn_dht :: DHT
  dn_addrBook :: "(DHTNodeID, string) gomap"

definition NewDHTNode :: "(string \<Rightarrow> DHTNodeID) \<Rightarrow> string \<Rightarrow> string \<Rightarrow> DHTNode" where
  "NewDHTNode sum256 selfID addr =
     (let d = NewDHT sum256 selfID in \<lparr>dn_id = dht_self d, dn_addr = addr, dn_dht = d, dn_addrBook = []\<rparr>)"

definition TableSize :: "DHTNode \<Rightarrow> nat" where
  "TableSize n = TotalNodes (dn_dht n)"

section \<open>Learning peers\<close>

definition learn :: "int \<Rightarrow> DHTEntry option \<Rightarrow> DHTNode \<Rightarrow> DHTNode" where
  "learn now eo n =
     (case eo of
        None \<Rightarrow> n
      | Some e \<Rightarrow>
          if de_NodeID e = dn_id n then n
          else n\<lparr>dn_addrBook := (case de_Addresses e of [] \<Rightarrow> dn_addrBook n | a # _ \<Rightarrow> gput (de_NodeID e) a (dn_addrBook n)),
                 dn_dht := AddNode now e (dn_dht n)\<rparr>)"

definition learn_all :: "int \<Rightarrow> DHTEntry option list \<Rightarrow> DHTNode \<Rightarrow> DHTNode" where
  "learn_all now es n = fold (learn now) es n"

definition addrOf :: "DHTNodeID \<Rightarrow> DHTNode \<Rightarrow> string option" where
  "addrOf i n = gget (dn_addrBook n) i"

definition selfEntry :: "DHTNode \<Rightarrow> DHTEntry" where
  "selfEntry n = \<lparr>de_NodeID = dn_id n, de_Addresses = [dn_addr n], de_LastSeen = 0\<rparr>"

text \<open>The closest entries; the count is not negative here, so the call does not panic.\<close>

definition closest :: "DHTNodeID \<Rightarrow> DHTNode \<Rightarrow> DHTEntry list" where
  "closest target n = (case FindClosest target (int dhtK) (dn_dht n) of Some es \<Rightarrow> es | None \<Rightarrow> [])"

section \<open>Answering requests\<close>

fun respType :: "DHTMsgType \<Rightarrow> DHTMsgType" where
  "respType DHTMsgPing = DHTMsgPong"
| "respType DHTMsgFindNode = DHTMsgFindNodeResp"
| "respType DHTMsgFindValue = DHTMsgFindValueResp"
| "respType DHTMsgStore = DHTMsgStoreAck"
| "respType t = t"

definition dhtMaxKeyLen :: nat where "dhtMaxKeyLen = 256"
definition dhtMaxStoreValue :: nat where "dhtMaxStoreValue = 16384"

definition dn_handle :: "int \<Rightarrow> DHTMessage \<Rightarrow> DHTNode \<Rightarrow> DHTMessage \<times> DHTNode" where
  "dn_handle now msg n =
     (let n1 = (if dm_From msg \<noteq> dn_id n \<and> dm_FromAddr msg \<noteq> []
                then learn now (Some \<lparr>de_NodeID = dm_From msg, de_Addresses = [dm_FromAddr msg], de_LastSeen = 0\<rparr>) n else n);
          resp = (blank_message (dn_id n1) (dn_addr n1) (respType (dm_Type msg)))\<lparr>dm_ID := dm_ID msg\<rparr>;
          nearest = map Some (selfEntry n1 # closest (dm_Target msg) n1)
      in case dm_Type msg of
           DHTMsgFindNode \<Rightarrow> (resp\<lparr>dm_Entries := nearest\<rparr>, n1)
         | DHTMsgFindValue \<Rightarrow>
             (case dht_Get now (dm_Key msg) (dn_dht n1) of
                Some r \<Rightarrow> (resp\<lparr>dm_Found := True, dm_Value := dr_Value r\<rparr>, n1)
              | None \<Rightarrow> (resp\<lparr>dm_Entries := nearest\<rparr>, n1))
         | DHTMsgStore \<Rightarrow>
             if length (dm_Key msg) > dhtMaxKeyLen \<or> length (dm_Value msg) > dhtMaxStoreValue then (resp, n1)
             else (resp, n1\<lparr>dn_dht := dht_Put now (dm_Key msg) (dm_Value msg) (dm_From msg) (dn_dht n1)\<rparr>)
         | _ \<Rightarrow> (resp, n1))"

section \<open>Lookups\<close>

definition nextUnqueried :: "DHTNodeID \<Rightarrow> string list \<Rightarrow> DHTNode \<Rightarrow> DHTEntry option" where
  "nextUnqueried target queried n =
     find (\<lambda>e. de_NodeID e \<noteq> dn_id n \<and> hexEncode (de_NodeID e) \<notin> set queried \<and> addrOf (de_NodeID e) n \<noteq> None) (closest target n)"

definition addr_text :: "DHTNodeID \<Rightarrow> DHTNode \<Rightarrow> string" where
  "addr_text i n = (case addrOf i n of Some a \<Rightarrow> a | None \<Rightarrow> [])"

text \<open>
  The loops count down the rounds that are left; \<open>k\<close> is the number of messages sent so far, \<open>queried\<close> the
  identifiers asked already. The result has the node, the identifiers asked and the messages sent.
\<close>

fun find_node_loop :: "dht_net \<Rightarrow> (nat \<Rightarrow> int) \<Rightarrow> DHTNodeID \<Rightarrow> nat \<Rightarrow> nat \<Rightarrow> string list \<Rightarrow> DHTNode \<Rightarrow> DHTNode \<times> string list \<times> nat" where
  "find_node_loop net clock target 0 k queried n = (n, queried, k)"
| "find_node_loop net clock target (Suc rounds) k queried n =
     (case nextUnqueried target queried n of
        None \<Rightarrow> (n, queried, k)
      | Some e \<Rightarrow>
          let queried' = hexEncode (de_NodeID e) # queried;
              msg = (blank_message (dn_id n) (dn_addr n) DHTMsgFindNode)\<lparr>dm_Target := target\<rparr>
          in case net k (addr_text (de_NodeID e) n) msg of
               None \<Rightarrow> find_node_loop net clock target rounds (Suc k) queried' n
             | Some resp \<Rightarrow> find_node_loop net clock target rounds (Suc k) queried' (learn_all (clock k) (dm_Entries resp) n))"

definition IterativeFindNode :: "dht_net \<Rightarrow> (nat \<Rightarrow> int) \<Rightarrow> DHTNodeID \<Rightarrow> nat \<Rightarrow> DHTNode \<Rightarrow> DHTNode \<times> string list \<times> nat" where
  "IterativeFindNode net clock target k n = find_node_loop net clock target dhtBuckets k [] n"

fun find_value_loop :: "dht_net \<Rightarrow> (nat \<Rightarrow> int) \<Rightarrow> DHTNodeID \<Rightarrow> string \<Rightarrow> nat \<Rightarrow> nat \<Rightarrow> string list \<Rightarrow> DHTNode \<Rightarrow> byte list option \<times> DHTNode \<times> string list \<times> nat" where
  "find_value_loop net clock target key 0 k queried n = (None, n, queried, k)"
| "find_value_loop net clock target key (Suc rounds) k queried n =
     (case nextUnqueried target queried n of
        None \<Rightarrow> (None, n, queried, k)
      | Some e \<Rightarrow>
          let queried' = hexEncode (de_NodeID e) # queried;
              msg = (blank_message (dn_id n) (dn_addr n) DHTMsgFindValue)\<lparr>dm_Target := target, dm_Key := key\<rparr>
          in case net k (addr_text (de_NodeID e) n) msg of
               None \<Rightarrow> find_value_loop net clock target key rounds (Suc k) queried' n
             | Some resp \<Rightarrow>
                 if dm_Found resp then (Some (dm_Value resp), n, queried', Suc k)
                 else find_value_loop net clock target key rounds (Suc k) queried' (learn_all (clock k) (dm_Entries resp) n))"

definition IterativeFindValue :: "(string \<Rightarrow> DHTNodeID) \<Rightarrow> dht_net \<Rightarrow> (nat \<Rightarrow> int) \<Rightarrow> string \<Rightarrow> nat \<Rightarrow> DHTNode \<Rightarrow> byte list option \<times> DHTNode \<times> string list \<times> nat" where
  "IterativeFindValue sum256 net clock key k n = find_value_loop net clock (sum256 key) key dhtBuckets k [] n"

text \<open>\<open>False\<close> is the error of a seed that does not answer.\<close>

definition Bootstrap :: "dht_net \<Rightarrow> (nat \<Rightarrow> int) \<Rightarrow> string \<Rightarrow> nat \<Rightarrow> DHTNode \<Rightarrow> bool \<times> DHTNode" where
  "Bootstrap net clock seedAddr k n =
     (case net k seedAddr ((blank_message (dn_id n) (dn_addr n) DHTMsgFindNode)\<lparr>dm_Target := dn_id n\<rparr>) of
        None \<Rightarrow> (False, n)
      | Some resp \<Rightarrow> (True, fst (IterativeFindNode net clock (dn_id n) (Suc k) (learn_all (clock k) (dm_Entries resp) n))))"

fun store_loop :: "dht_net \<Rightarrow> DHTNode \<Rightarrow> DHTMessage \<Rightarrow> nat \<Rightarrow> DHTEntry list \<Rightarrow> nat" where
  "store_loop net n msg k [] = 0"
| "store_loop net n msg k (e # es) =
     (if de_NodeID e = dn_id n then store_loop net n msg k es
      else case addrOf (de_NodeID e) n of
        None \<Rightarrow> store_loop net n msg k es
      | Some a \<Rightarrow>
          (case net k a msg of
             Some resp \<Rightarrow> (if dm_Type resp = DHTMsgStoreAck then 1 else 0) + store_loop net n msg (Suc k) es
           | None \<Rightarrow> store_loop net n msg (Suc k) es))"

text \<open>\<open>False\<close> is the error that no node acknowledged.\<close>

definition dn_Store :: "(string \<Rightarrow> DHTNodeID) \<Rightarrow> dht_net \<Rightarrow> (nat \<Rightarrow> int) \<Rightarrow> string \<Rightarrow> byte list \<Rightarrow> nat \<Rightarrow> DHTNode \<Rightarrow> bool \<times> DHTNode" where
  "dn_Store sum256 net clock key v k n =
     (let target = sum256 key;
          (n1, _, k1) = IterativeFindNode net clock target k n;
          msg = (blank_message (dn_id n1) (dn_addr n1) DHTMsgStore)\<lparr>dm_Target := target, dm_Key := key, dm_Value := v\<rparr>
      in (store_loop net n1 msg k1 (closest target n1) \<noteq> 0, n1))"

definition dhtRefresh :: int where "dhtRefresh = 10 * 60 * 1000000000"

fun refresh_loop :: "dht_net \<Rightarrow> (nat \<Rightarrow> int) \<Rightarrow> nat \<Rightarrow> DHTEntry list \<Rightarrow> DHTNode \<Rightarrow> (nat \<times> nat) \<times> DHTNode" where
  "refresh_loop net clock k [] n = ((0, 0), n)"
| "refresh_loop net clock k (e # es) n =
     (if de_Addresses e = [] \<or> de_NodeID e = dn_id n then refresh_loop net clock k es n
      else case net k (hd (de_Addresses e)) (blank_message (dn_id n) (dn_addr n) DHTMsgPing) of
        None \<Rightarrow>
          (case refresh_loop net clock (Suc k) es
                  (n\<lparr>dn_dht := snd (RemoveNode (de_NodeID e) (dn_dht n)), dn_addrBook := gdel (de_NodeID e) (dn_addrBook n)\<rparr>) of
             ((p, v), n') \<Rightarrow> ((Suc p, Suc v), n'))
      | Some _ \<Rightarrow>
          (case refresh_loop net clock (Suc k) es (n\<lparr>dn_dht := AddNode (clock k) e (dn_dht n)\<rparr>) of
             ((p, v), n') \<Rightarrow> ((Suc p, v), n')))"

definition RefreshBuckets :: "dht_net \<Rightarrow> (nat \<Rightarrow> int) \<Rightarrow> int \<Rightarrow> DHTNode \<Rightarrow> (nat \<times> nat) \<times> DHTNode" where
  "RefreshBuckets net clock now n = refresh_loop net clock 0 (StaleEntries now dhtRefresh (dn_dht n)) n"

section \<open>The invariant of a node\<close>

definition node_ok :: "DHTNode \<Rightarrow> bool" where
  "node_ok n \<longleftrightarrow> dht_ok (dn_dht n) \<and> dht_self (dn_dht n) = dn_id n \<and> dn_id n \<notin> de_NodeID ` routing (dn_dht n)"

definition entry_ok :: "DHTEntry option \<Rightarrow> bool" where
  "entry_ok eo = (case eo of Some e \<Rightarrow> id_ok (de_NodeID e) | None \<Rightarrow> True)"

definition message_ok :: "DHTMessage \<Rightarrow> bool" where
  "message_ok m \<longleftrightarrow> id_ok (dm_From m) \<and> id_ok (dm_Target m) \<and> list_all entry_ok (dm_Entries m)"

lemma AddNode_self [simp]: "dht_self (AddNode now e d) = dht_self d"
  by (simp add: AddNode_def Let_def)

lemma RemoveNode_self [simp]: "dht_self (snd (RemoveNode i d)) = dht_self d"
  by (simp add: RemoveNode_def Let_def)

lemma node_ok_AddNode:
  assumes "node_ok n" and "id_ok (de_NodeID e)" and "de_NodeID e \<noteq> dn_id n"
  shows "node_ok (n\<lparr>dn_dht := AddNode now e (dn_dht n)\<rparr>)"
  using assms AddNode_ok [of "dn_dht n" e now] AddNode_routing [of "dn_dht n" e now]
  by (auto simp: node_ok_def split: if_splits)

lemma node_ok_learn:
  assumes "node_ok n" and "entry_ok eo"
  shows "node_ok (learn now eo n) \<and> dn_id (learn now eo n) = dn_id n"
proof (cases eo)
  case (Some e)
  from assms Some have "de_NodeID e \<noteq> dn_id n \<Longrightarrow> node_ok (n\<lparr>dn_dht := AddNode now e (dn_dht n)\<rparr>)"
    by (intro node_ok_AddNode) (simp_all add: entry_ok_def)
  then show ?thesis using assms Some by (auto simp: learn_def node_ok_def)
qed (use assms in \<open>simp add: learn_def\<close>)

lemma node_ok_learn_all:
  "node_ok n \<Longrightarrow> list_all entry_ok es \<Longrightarrow> node_ok (learn_all now es n) \<and> dn_id (learn_all now es n) = dn_id n"
  unfolding learn_all_def
proof (induction es arbitrary: n)
  case (Cons e es)
  then show ?case using node_ok_learn [of n e now] by auto
qed simp

lemma closest_sort:
  assumes "node_ok n" and "id_ok target"
  shows "closest target n = take dhtK (sort_key (\<lambda>e. id_value (XORDistance target (de_NodeID e))) (concat (dht_buckets (dn_dht n))))"
  using FindClosest_sort [of "dn_dht n" target "int dhtK"] assms by (simp add: closest_def node_ok_def)

lemma closest_routing:
  assumes "node_ok n" and "id_ok target"
  shows "set (closest target n) \<subseteq> routing (dn_dht n)"
  unfolding closest_sort [OF assms] by (auto simp: routing_def dest: in_set_takeD)

section \<open>Lookups end\<close>

text \<open>Answers of the network whose identifiers have the right length, as decoding guarantees.\<close>

definition net_ok :: "dht_net \<Rightarrow> bool" where
  "net_ok net \<longleftrightarrow> (\<forall>k a m resp. net k a m = Some resp \<longrightarrow> list_all entry_ok (dm_Entries resp))"

definition asked_ok :: "DHTNodeID \<Rightarrow> string list \<Rightarrow> bool" where
  "asked_ok self qs \<longleftrightarrow> distinct qs \<and> hexEncode self \<notin> set qs"

lemma hexEncode_inject: "hexEncode a = hexEncode b \<longleftrightarrow> a = b"
  by (metis hexDecode_hexEncode option.inject)

lemma nextUnqueried_Some:
  assumes "nextUnqueried target qs n = Some e" and "asked_ok (dn_id n) qs"
  shows "asked_ok (dn_id n) (hexEncode (de_NodeID e) # qs)"
  using assms by (auto simp: nextUnqueried_def find_Some_iff asked_ok_def hexEncode_inject)

lemma nextUnqueried_None:
  "nextUnqueried target qs n = None \<longleftrightarrow>
     list_all (\<lambda>e. de_NodeID e = dn_id n \<or> hexEncode (de_NodeID e) \<in> set qs \<or> addrOf (de_NodeID e) n = None) (closest target n)"
  by (auto simp: nextUnqueried_def find_None_iff list_all_iff)

lemma find_node_loop_spec:
  assumes "find_node_loop net clock target r k qs n = (n', qs', k')" and "node_ok n" and "net_ok net" and "asked_ok (dn_id n) qs"
  shows "node_ok n' \<and> dn_id n' = dn_id n \<and> asked_ok (dn_id n) qs' \<and> k' + length qs = k + length qs' \<and>
    k \<le> k' \<and> k' \<le> k + r \<and> (k' < k + r \<longrightarrow> nextUnqueried target qs' n' = None)"
  using assms
proof (induction r arbitrary: k qs n)
  case (Suc r)
  show ?case
  proof (cases "nextUnqueried target qs n")
    case None
    with Suc.prems show ?thesis by auto
  next
    case (Some e)
    define m where "m = (case net k (addr_text (de_NodeID e) n) ((blank_message (dn_id n) (dn_addr n) DHTMsgFindNode)\<lparr>dm_Target := target\<rparr>) of
        None \<Rightarrow> n | Some resp \<Rightarrow> learn_all (clock k) (dm_Entries resp) n)"
    have m: "node_ok m \<and> dn_id m = dn_id n"
      using Suc.prems(2,3) node_ok_learn_all unfolding m_def net_ok_def by (auto split: option.splits)
    have "find_node_loop net clock target r (Suc k) (hexEncode (de_NodeID e) # qs) m = (n', qs', k')"
      using Suc.prems(1) Some by (auto simp: m_def Let_def split: option.splits)
    from Suc.IH [OF this] m Suc.prems(3) nextUnqueried_Some [OF Some Suc.prems(4)] show ?thesis by auto
  qed
qed auto

text \<open>
  (C26) Iterative lookup. Whatever the other nodes answer, a lookup sends at most 256 messages, one per node,
  to distinct nodes other than itself; and unless it used up all 256 rounds, at its end every one of the 20
  known nodes that are closest to the target has been asked, is the node itself or has no known address.
  The routing table stays well-formed and never contains the node itself.
\<close>

theorem lookup_terminates:
  assumes "node_ok n" and "net_ok net" and "IterativeFindNode net clock target k n = (n', queried, k')"
  shows "node_ok n' \<and> k' = k + length queried \<and> length queried \<le> dhtBuckets \<and>
    distinct queried \<and> hexEncode (dn_id n) \<notin> set queried \<and>
    (length queried < dhtBuckets \<longrightarrow>
       list_all (\<lambda>e. de_NodeID e = dn_id n' \<or> hexEncode (de_NodeID e) \<in> set queried \<or> addrOf (de_NodeID e) n' = None) (closest target n'))"
proof -
  have "asked_ok (dn_id n) []" by (simp add: asked_ok_def)
  from find_node_loop_spec [OF assms(3) [unfolded IterativeFindNode_def] assms(1,2) this]
  have spec: "node_ok n'" "asked_ok (dn_id n) queried" "k' = k + length queried" "k' \<le> k + dhtBuckets"
    "k' < k + dhtBuckets \<Longrightarrow> nextUnqueried target queried n' = None" by simp_all
  from spec(1-4) spec(5) [unfolded nextUnqueried_None] show ?thesis unfolding asked_ok_def by simp
qed

definition lone_node :: DHTNode where
  "lone_node = learn 0 (Some (sample_entry 3)) (NewDHTNode (\<lambda>s. sample_id 0) ''a'' ''10.0.0.9'')"

lemma node_ok_new: "id_ok (sum256 s) \<Longrightarrow> node_ok (NewDHTNode sum256 s a)"
  by (simp add: node_ok_def NewDHTNode_def Let_def dht_ok_new)

theorem lookup_terminates_witness:
  "length (fst (snd (IterativeFindNode (\<lambda>k a m. None) (\<lambda>k. int k) (sample_id 7) 0 lone_node))) \<le> 256"
proof -
  have "node_ok lone_node" unfolding lone_node_def
    by (rule conjunct1 [OF node_ok_learn]) (simp_all add: node_ok_new entry_ok_def sample_entry_def)
  then show ?thesis
    using lookup_terminates [of lone_node "\<lambda>k a m. None" "\<lambda>k. int k" "sample_id 7" 0]
    by (cases "IterativeFindNode (\<lambda>k a m. None) (\<lambda>k. int k) (sample_id 7) 0 lone_node") (simp add: net_ok_def dhtBuckets_def)
qed

text \<open>The same for the search of a value: what it returns, some node answered.\<close>

lemma find_value_loop_spec:
  assumes "find_value_loop net clock target key r k qs n = (v, n', qs', k')" and "node_ok n" and "net_ok net" and "asked_ok (dn_id n) qs"
  shows "node_ok n' \<and> asked_ok (dn_id n) qs' \<and> k' \<le> k + r \<and>
    (\<forall>x. v = Some x \<longrightarrow> (\<exists>i a m resp. net i a m = Some resp \<and> dm_Key m = key \<and> dm_Found resp \<and> dm_Value resp = x))"
  using assms
proof (induction r arbitrary: k qs n)
  case (Suc r)
  show ?case
  proof (cases "nextUnqueried target qs n")
    case None
    with Suc.prems show ?thesis by auto
  next
    case (Some e)
    let ?msg = "(blank_message (dn_id n) (dn_addr n) DHTMsgFindValue)\<lparr>dm_Target := target, dm_Key := key\<rparr>"
    let ?a = "addr_text (de_NodeID e) n"
    note asked = nextUnqueried_Some [OF Some Suc.prems(4)]
    show ?thesis
    proof (cases "net k ?a ?msg")
      case None
      then have "find_value_loop net clock target key r (Suc k) (hexEncode (de_NodeID e) # qs) n = (v, n', qs', k')"
        using Suc.prems(1) Some by (simp add: Let_def)
      from Suc.IH [OF this Suc.prems(2,3) asked] show ?thesis by auto
    next
      case (Some resp)
      show ?thesis
      proof (cases "dm_Found resp")
        case True
        then have "v = Some (dm_Value resp)" "n' = n" "qs' = hexEncode (de_NodeID e) # qs" "k' = Suc k"
          using Suc.prems(1) Some \<open>nextUnqueried target qs n = Some e\<close> by (simp_all add: Let_def)
        moreover have "\<exists>i a m resp'. net i a m = Some resp' \<and> dm_Key m = key \<and> dm_Found resp' \<and> dm_Value resp' = dm_Value resp"
          using Some True by (intro exI [of _ k] exI [of _ ?a] exI [of _ ?msg] exI [of _ resp]) simp
        ultimately show ?thesis using Suc.prems(2) asked by simp
      next
        case False
        let ?m = "learn_all (clock k) (dm_Entries resp) n"
        have m: "node_ok ?m \<and> dn_id ?m = dn_id n"
          using Some Suc.prems(2,3) node_ok_learn_all unfolding net_ok_def by blast
        have "find_value_loop net clock target key r (Suc k) (hexEncode (de_NodeID e) # qs) ?m = (v, n', qs', k')"
          using Suc.prems(1) Some False \<open>nextUnqueried target qs n = Some e\<close> by (simp add: Let_def)
        from Suc.IH [OF this] m Suc.prems(3) asked show ?thesis by auto
      qed
    qed
  qed
qed auto

section \<open>Requests keep the node well-formed and its memory bounded\<close>

text \<open>Records that came with a message fit the limits.\<close>

definition records_small :: "DHTNode \<Rightarrow> bool" where
  "records_small n \<longleftrightarrow> list_all (\<lambda>e. length (fst e) \<le> dhtMaxKeyLen \<and> length (dr_Value (snd e)) \<le> dhtMaxStoreValue) (dht_records (dn_dht n))"

lemma records_small_learn: "records_small (learn now eo n) = records_small n"
  by (simp add: records_small_def learn_def split: option.split)

lemma learn_id [simp]: "dn_id (learn now eo n) = dn_id n"
  by (simp add: learn_def split: option.split)

lemma node_ok_Put: "node_ok n \<Longrightarrow> node_ok (n\<lparr>dn_dht := dht_Put now k v p (dn_dht n)\<rparr>)"
  unfolding node_ok_def dht_ok_def routing_def dht_Put_def by auto

lemma handle_ok:
  assumes "node_ok n" and "records_small n" and "message_ok msg"
  shows "node_ok (snd (dn_handle now msg n)) \<and> records_small (snd (dn_handle now msg n))"
proof -
  define n1 where "n1 = (if dm_From msg \<noteq> dn_id n \<and> dm_FromAddr msg \<noteq> []
      then learn now (Some \<lparr>de_NodeID = dm_From msg, de_Addresses = [dm_FromAddr msg], de_LastSeen = 0\<rparr>) n else n)"
  have n1: "node_ok n1" "records_small n1"
    using assms node_ok_learn [of n "Some \<lparr>de_NodeID = dm_From msg, de_Addresses = [dm_FromAddr msg], de_LastSeen = 0\<rparr>" now]
    by (simp_all add: n1_def records_small_learn entry_ok_def message_ok_def)
  have put: "records_small (n1\<lparr>dn_dht := dht_Put now (dm_Key msg) (dm_Value msg) (dm_From msg) (dn_dht n1)\<rparr>)"
    if "length (dm_Key msg) \<le> dhtMaxKeyLen" "length (dm_Value msg) \<le> dhtMaxStoreValue"
    using n1 that by (auto simp: records_small_def dht_Put_def list_all_iff set_gput node_ok_def dht_ok_def)
  have "snd (dn_handle now msg n) = n1 \<or>
      (length (dm_Key msg) \<le> dhtMaxKeyLen \<and> length (dm_Value msg) \<le> dhtMaxStoreValue \<and>
       snd (dn_handle now msg n) = n1\<lparr>dn_dht := dht_Put now (dm_Key msg) (dm_Value msg) (dm_From msg) (dn_dht n1)\<rparr>)"
    unfolding dn_handle_def Let_def n1_def [symmetric] by (auto split: DHTMsgType.splits option.splits)
  then show ?thesis using n1 put node_ok_Put by metis
qed

end
