(* ===== verification/DHT_Wire.thy ===== *)
theory DHT_Wire
  imports DHT_Node Field_Encryption
begin

text \<open>
  The datagrams of the DHT: their authentication, \<open>src/dht_wire_auth.go\<close>, and the UDP transport that sends,
  receives and dispatches them, \<open>src/dht_udp.go\<close>.

  SHA-256, JSON encoding and decoding of a message and Ed25519 verification are arguments, collected in
  \<open>wire_crypto\<close>; the callbacks of the source that read the node's identity, sign and look up the trust pool are
  \<open>wire_env\<close>, given anew at every use because the source reads them live. The read loop of the source is one
  goroutine, so a datagram is one step.
\<close>

section \<open>Signing and verifying\<close>

record wire_crypto =
  wc_sum256 :: "string \<Rightarrow> DHTNodeID"
  wc_marshal :: "DHTMessage \<Rightarrow> string option"
  wc_unmarshal :: "string \<Rightarrow> DHTMessage option"
  wc_Verify :: "string \<Rightarrow> string \<Rightarrow> string \<Rightarrow> bool"

text \<open>The identity and the signing function may be nil; each result has the flag \<open>ok\<close>.\<close>

record wire_env =
  we_identity :: "(string \<times> string \<times> bool) option"
  we_sign :: "(string \<Rightarrow> string \<times> bool) option"
  we_trustLookup :: "string \<Rightarrow> string \<times> bool"

record dhtWireAuth =
  wa_pins :: "(string, string) gomap"

definition newDHTWireAuth :: dhtWireAuth where
  "newDHTWireAuth = \<lparr>wa_pins = []\<rparr>"

definition canonicalDHTPayload :: "wire_crypto \<Rightarrow> DHTMessage \<Rightarrow> string option" where
  "canonicalDHTPayload cr msg = wc_marshal cr (msg\<lparr>dm_Sig := []\<rparr>)"

text \<open>\<open>None\<close> is the result false, on which the callers discard the message.\<close>

definition signMessage :: "wire_crypto \<Rightarrow> wire_env \<Rightarrow> DHTMessage \<Rightarrow> DHTMessage option" where
  "signMessage cr env msg =
     (case (we_identity env, we_sign env) of
        (Some (keyID, pubKeyB64, ok), Some sign) \<Rightarrow>
          if \<not> ok \<or> keyID = [] \<or> pubKeyB64 = [] then None
          else let msg' = msg\<lparr>dm_KeyID := keyID, dm_PubKey := pubKeyB64\<rparr> in
            (case canonicalDHTPayload cr msg' of
               None \<Rightarrow> None
             | Some payload \<Rightarrow>
                 (case sign payload of (sig, ok') \<Rightarrow> if \<not> ok' \<or> sig = [] then None else Some (msg'\<lparr>dm_Sig := sig\<rparr>)))
      | _ \<Rightarrow> None)"

definition SignatureSize :: nat where "SignatureSize = 64"
definition PublicKeySize :: nat where "PublicKeySize = 32"

definition decodeKey :: "string \<Rightarrow> string option" where
  "decodeKey s = (case b64_decode s of None \<Rightarrow> None | Some raw \<Rightarrow> if length raw \<noteq> PublicKeySize then None else Some raw)"

definition verifyMessage :: "wire_crypto \<Rightarrow> wire_env \<Rightarrow> DHTMessage \<Rightarrow> bool \<Rightarrow> dhtWireAuth option \<Rightarrow> bool \<times> dhtWireAuth option" where
  "verifyMessage cr env msg solicited auth =
     (case auth of
        None \<Rightarrow> (True, auth)
      | Some a \<Rightarrow>
          if dm_Sig msg = [] \<or> dm_KeyID msg = [] then (False, auth)
          else if wc_sum256 cr (dm_KeyID msg) \<noteq> dm_From msg then (False, auth)
          else case canonicalDHTPayload cr msg of None \<Rightarrow> (False, auth) | Some payload \<Rightarrow>
            (case b64_decode (dm_Sig msg) of None \<Rightarrow> (False, auth) | Some sig \<Rightarrow>
              if length sig \<noteq> SignatureSize then (False, auth)
              else case we_trustLookup env (dm_KeyID msg) of (keyB64, ok) \<Rightarrow>
                if ok \<and> keyB64 \<noteq> [] then
                  (case decodeKey keyB64 of None \<Rightarrow> (False, auth) | Some pub \<Rightarrow> (wc_Verify cr pub payload sig, auth))
                else case gget (wa_pins a) (dm_KeyID msg) of
                  Some pinned \<Rightarrow>
                    (case decodeKey pinned of None \<Rightarrow> (False, auth) | Some pub \<Rightarrow> (wc_Verify cr pub payload sig, auth))
                | None \<Rightarrow>
                    if \<not> solicited then (False, auth)
                    else case decodeKey (dm_PubKey msg) of
                      None \<Rightarrow> (False, auth)
                    | Some pub \<Rightarrow>
                        if \<not> wc_Verify cr pub payload sig then (False, auth)
                        else (True, Some (a\<lparr>wa_pins := gput (dm_KeyID msg) (dm_PubKey msg) (wa_pins a)\<rparr>))))"

section \<open>The transport\<close>

text \<open>
  \<open>ut_pending\<close> has the identifiers of the requests that wait, with the message put into their channel. A channel
  holds one message and leaves the map when it gets one, so putting it there never fails; what \<open>Send\<close> then
  returns is in \<open>ut_arrived\<close>.
\<close>

record UDPDHTTransport =
  ut_self :: DHTNode
  ut_pending :: "string list"
  ut_arrived :: "(string, DHTMessage) gomap"
  ut_auth :: "dhtWireAuth option"

definition NewUDPDHTTransport :: "DHTNode \<Rightarrow> UDPDHTTransport" where
  "NewUDPDHTTransport self = \<lparr>ut_self = self, ut_pending = [], ut_arrived = [], ut_auth = None\<rparr>"

definition EnableWireAuth :: "dhtWireAuth option \<Rightarrow> UDPDHTTransport \<Rightarrow> UDPDHTTransport" where
  "EnableWireAuth a t = t\<lparr>ut_auth := a\<rparr>"

definition takePending :: "string \<Rightarrow> UDPDHTTransport \<Rightarrow> bool \<times> UDPDHTTransport" where
  "takePending i t = (i \<in> set (ut_pending t), t\<lparr>ut_pending := removeAll i (ut_pending t)\<rparr>)"

definition dhtMaxDatagram :: nat where "dhtMaxDatagram = 32768"

text \<open>What becomes of a datagram; an answer is \<open>None\<close> when it could not be signed or encoded.\<close>

datatype datagram_fate =
    Dropped
  | Delivered DHTMessage
  | Answered DHTMessage "string option"

fun accepted :: "datagram_fate \<Rightarrow> DHTMessage option" where
  "accepted Dropped = None"
| "accepted (Delivered m) = Some m"
| "accepted (Answered m ans) = Some m"

definition dispatch :: "wire_crypto \<Rightarrow> wire_env \<Rightarrow> int \<Rightarrow> DHTMessage \<Rightarrow> UDPDHTTransport \<Rightarrow> datagram_fate \<times> UDPDHTTransport" where
  "dispatch cr env now msg t =
     (case takePending (dm_ID msg) t of (waits, t1) \<Rightarrow>
        if waits then (Delivered msg, t1\<lparr>ut_arrived := gput (dm_ID msg) msg (ut_arrived t1)\<rparr>)
        else case dn_handle now msg (ut_self t1) of (resp, self') \<Rightarrow>
          let t2 = t1\<lparr>ut_self := self'\<rparr>;
              signed = (if ut_auth t2 \<noteq> None then signMessage cr env resp else Some resp)
          in (Answered msg (case signed of None \<Rightarrow> None | Some r \<Rightarrow> wc_marshal cr r), t2))"

text \<open>One round of the read loop.\<close>

definition receive :: "wire_crypto \<Rightarrow> wire_env \<Rightarrow> int \<Rightarrow> string \<Rightarrow> UDPDHTTransport \<Rightarrow> datagram_fate \<times> UDPDHTTransport" where
  "receive cr env now buf t =
     (if length buf > dhtMaxDatagram then (Dropped, t)
      else case wc_unmarshal cr buf of
        None \<Rightarrow> (Dropped, t)
      | Some msg \<Rightarrow>
          let solicited = dm_ID msg \<in> set (ut_pending t) in
          (case verifyMessage cr env msg solicited (ut_auth t) of (ok, auth') \<Rightarrow>
             let t1 = t\<lparr>ut_auth := auth'\<rparr> in
             if \<not> ok then (Dropped, t1) else dispatch cr env now msg t1))"

text \<open>
  \<open>Send\<close> up to the wait. \<open>rnd\<close> are the random hexadecimal digits, if reading them works, \<open>resolves\<close> says
  whether the address resolves; the result is the identifier and the datagram that goes out, \<open>None\<close> an error. The source
  registers the request before it writes the datagram and removes it when it returns, also on an error.
\<close>

definition send_id :: "string option \<Rightarrow> DHTMessage \<Rightarrow> DHTNode \<Rightarrow> string option" where
  "send_id rnd msg n =
     (if dm_ID msg = [] then map_option (\<lambda>r. take 16 (hexEncode (dn_id n)) @ ''-'' @ r) rnd else Some (dm_ID msg))"

definition Send_begin :: "wire_crypto \<Rightarrow> wire_env \<Rightarrow> string option \<Rightarrow> bool \<Rightarrow> DHTMessage \<Rightarrow> UDPDHTTransport \<Rightarrow> (string \<times> string) option \<times> UDPDHTTransport" where
  "Send_begin cr env rnd resolves msg t =
     (case send_id rnd msg (ut_self t) of
        None \<Rightarrow> (None, t)
      | Some i \<Rightarrow>
          let msg' = msg\<lparr>dm_ID := i\<rparr> in
          case (if ut_auth t \<noteq> None then signMessage cr env msg' else Some msg') of
            None \<Rightarrow> (None, t)
          | Some msg'' \<Rightarrow>
              if \<not> resolves then (None, t)
              else case wc_marshal cr msg'' of
                None \<Rightarrow> (None, t\<lparr>ut_pending := removeAll i (ut_pending t)\<rparr>)
              | Some out \<Rightarrow> (Some (i, out), t\<lparr>ut_pending := i # removeAll i (ut_pending t)\<rparr>))"

text \<open>The end of \<open>Send\<close>: the message that arrived, or \<open>None\<close> for a timeout or a cancelled or stopped wait.\<close>

definition Send_end :: "string \<Rightarrow> UDPDHTTransport \<Rightarrow> DHTMessage option \<times> UDPDHTTransport" where
  "Send_end i t = (gget (ut_arrived t) i, t\<lparr>ut_pending := removeAll i (ut_pending t), ut_arrived := gdel i (ut_arrived t)\<rparr>)"


section \<open>Only authenticated messages act\<close>

text \<open>A message carries a signature by the key with the given base64 text.\<close>

definition signed_by :: "wire_crypto \<Rightarrow> string \<Rightarrow> DHTMessage \<Rightarrow> bool" where
  "signed_by cr key m =
     (case (decodeKey key, canonicalDHTPayload cr m, b64_decode (dm_Sig m)) of
        (Some pub, Some payload, Some sig) \<Rightarrow> length sig = SignatureSize \<and> wc_Verify cr pub payload sig
      | _ \<Rightarrow> False)"

text \<open>The key that counts for an identity: the one of the trust pool, else the pinned one.\<close>

definition key_of :: "wire_env \<Rightarrow> (string, string) gomap \<Rightarrow> string \<Rightarrow> string option" where
  "key_of env pins i =
     (case we_trustLookup env i of (k, ok) \<Rightarrow> if ok \<and> k \<noteq> [] then Some k else gget pins i)"

definition authentic :: "wire_crypto \<Rightarrow> (string, string) gomap \<Rightarrow> wire_env \<Rightarrow> DHTMessage \<Rightarrow> bool" where
  "authentic cr pins env m \<longleftrightarrow>
     dm_From m = wc_sum256 cr (dm_KeyID m) \<and> (\<exists>k. key_of env pins (dm_KeyID m) = Some k \<and> signed_by cr k m)"

text \<open>The pins of \<open>qs\<close> are those of \<open>ps\<close> and maybe more.\<close>

definition pins_kept :: "(string, string) gomap \<Rightarrow> (string, string) gomap \<Rightarrow> bool" where
  "pins_kept ps qs \<longleftrightarrow> (\<forall>i k. gget ps i = Some k \<longrightarrow> gget qs i = Some k)"

lemma pins_kept_refl [simp, intro]: "pins_kept ps ps"
  by (simp add: pins_kept_def)

lemma pins_kept_trans: "pins_kept ps qs \<Longrightarrow> pins_kept qs rs \<Longrightarrow> pins_kept ps rs"
  by (simp add: pins_kept_def)

lemma authentic_kept: "authentic cr ps env m \<Longrightarrow> pins_kept ps qs \<Longrightarrow> authentic cr qs env m"
  by (auto simp: authentic_def key_of_def pins_kept_def split: prod.splits if_splits)

lemma verifyMessage_eq:
  "verifyMessage cr env m solicited (Some a) =
     (if dm_Sig m = [] \<or> dm_KeyID m = [] \<or> wc_sum256 cr (dm_KeyID m) \<noteq> dm_From m then (False, Some a)
      else case key_of env (wa_pins a) (dm_KeyID m) of
        Some k \<Rightarrow> (signed_by cr k m, Some a)
      | None \<Rightarrow>
          if solicited \<and> signed_by cr (dm_PubKey m) m
          then (True, Some (a\<lparr>wa_pins := gput (dm_KeyID m) (dm_PubKey m) (wa_pins a)\<rparr>)) else (False, Some a))"
proof (cases "canonicalDHTPayload cr m")
  case None
  then show ?thesis by (simp add: verifyMessage_def signed_by_def split: option.split)
next
  case (Some payload)
  note payload = this
  show ?thesis
  proof (cases "b64_decode (dm_Sig m)")
    case None
    with payload show ?thesis by (simp add: verifyMessage_def signed_by_def split: option.split)
  next
    case (Some sig)
    obtain k ok where "we_trustLookup env (dm_KeyID m) = (k, ok)" by force
    with payload Some show ?thesis
      by (cases ok; cases k; cases "gget (wa_pins a) (dm_KeyID m)")
        (simp_all add: verifyMessage_def signed_by_def key_of_def split: option.split)
  qed
qed

lemma verifyMessage_spec:
  assumes "verifyMessage cr env m solicited (Some a) = (ok, auth')"
  shows "\<exists>a'. auth' = Some a' \<and> pins_kept (wa_pins a) (wa_pins a') \<and> (ok \<longrightarrow> authentic cr (wa_pins a') env m) \<and> (\<not> ok \<longrightarrow> a' = a)"
proof (cases "key_of env (wa_pins a) (dm_KeyID m)")
  case None
  then have "gget (wa_pins a) (dm_KeyID m) = None"
    "key_of env (gput (dm_KeyID m) (dm_PubKey m) (wa_pins a)) (dm_KeyID m) = Some (dm_PubKey m)"
    by (auto simp: key_of_def split: prod.splits if_splits)
  with None assms show ?thesis
    unfolding verifyMessage_eq authentic_def pins_kept_def by (auto split: if_splits)
qed (use assms in \<open>auto simp: verifyMessage_eq authentic_def split: if_splits\<close>)

text \<open>Runs of a transport: what arrives, and the requests it sends meanwhile.\<close>

datatype udp_event =
    Datagram wire_env int string
  | Request wire_env "string option" bool DHTMessage
  | Finish string

fun udp_run :: "wire_crypto \<Rightarrow> udp_event list \<Rightarrow> UDPDHTTransport \<Rightarrow> (wire_env \<times> datagram_fate) list \<times> UDPDHTTransport" where
  "udp_run cr [] t = ([], t)"
| "udp_run cr (Datagram env now buf # es) t =
     (let (f, t1) = receive cr env now buf t; (fs, t2) = udp_run cr es t1 in ((env, f) # fs, t2))"
| "udp_run cr (Request env rnd resolves msg # es) t = udp_run cr es (snd (Send_begin cr env rnd resolves msg t))"
| "udp_run cr (Finish i # es) t = udp_run cr es (snd (Send_end i t))"

lemma dispatch_auth [simp]: "ut_auth (snd (dispatch cr env now m t)) = ut_auth t"
  by (simp add: dispatch_def takePending_def Let_def split: prod.split)

lemma dispatch_fate: "accepted (fst (dispatch cr env now m t)) = Some m"
  by (simp add: dispatch_def takePending_def Let_def split: prod.split)

lemma Send_auth [simp]:
  "ut_auth (snd (Send_begin cr env rnd resolves msg t)) = ut_auth t" "ut_auth (snd (Send_end i t)) = ut_auth t"
  by (simp_all add: Send_begin_def Send_end_def Let_def split: option.split)

lemma receive_spec:
  assumes "receive cr env now buf t = (f, t')" and "ut_auth t = Some a"
  shows "\<exists>a'. ut_auth t' = Some a' \<and> pins_kept (wa_pins a) (wa_pins a') \<and>
    (case accepted f of Some m \<Rightarrow> authentic cr (wa_pins a') env m | None \<Rightarrow> t' = t)"
proof (cases "length buf > dhtMaxDatagram \<or> wc_unmarshal cr buf = None")
  case False
  then obtain msg where msg: "wc_unmarshal cr buf = Some msg" by auto
  obtain ok auth' where v: "verifyMessage cr env msg (dm_ID msg \<in> set (ut_pending t)) (Some a) = (ok, auth')" by force
  from verifyMessage_spec [OF v] obtain a' where a': "auth' = Some a'" "pins_kept (wa_pins a) (wa_pins a')"
    "ok \<Longrightarrow> authentic cr (wa_pins a') env msg" "\<not> ok \<Longrightarrow> a' = a" by auto
  let ?t = "t\<lparr>ut_auth := auth'\<rparr>"
  have r: "(f, t') = (if ok then dispatch cr env now msg ?t else (Dropped, ?t))"
    using assms False msg v by (simp add: receive_def Let_def split: if_splits)
  show ?thesis
  proof (cases ok)
    case True
    with r have "f = fst (dispatch cr env now msg ?t)" "t' = snd (dispatch cr env now msg ?t)" by (simp_all add: prod_eq_iff)
    with True a' show ?thesis by (simp add: dispatch_fate)
  next
    case False
    with r a' assms(2) show ?thesis by simp
  qed
qed (use assms in \<open>auto simp: receive_def split: if_splits\<close>)

text \<open>
  (C18) Wire authentication with trust on first use. From any state of a transport with authentication enabled,
  through any datagrams that arrive and any requests it sends, and whatever the trust pool says from one moment to
  the next: a message that is delivered to a waiting request or answered has a sender slot that is the hash of the
  identity it names, and it is signed by the key of the trust pool for that identity or, when the pool has none,
  by the key that is pinned at the end of the run. Pins are never changed or dropped, so all messages accepted for
  one identity outside the pool carry signatures of one and the same key.
\<close>

theorem wire_authentication:
  assumes "udp_run cr es t = (fs, t')" and "ut_auth t = Some a"
  shows "\<exists>a'. ut_auth t' = Some a' \<and> pins_kept (wa_pins a) (wa_pins a') \<and>
    (\<forall>(env, f) \<in> set fs. \<forall>m. accepted f = Some m \<longrightarrow> authentic cr (wa_pins a') env m)"
  using assms
proof (induction cr es t arbitrary: a fs rule: udp_run.induct)
  case (2 cr env now buf es t)
  obtain f t1 where r: "receive cr env now buf t = (f, t1)" by force
  obtain gs t2 where u: "udp_run cr es t1 = (gs, t2)" by force
  have eqs: "fs = (env, f) # gs" "t2 = t'" using 2(2) r u by auto
  from receive_spec [OF r 2(3)] obtain b where b: "ut_auth t1 = Some b" "pins_kept (wa_pins a) (wa_pins b)"
    "\<And>m. accepted f = Some m \<Longrightarrow> authentic cr (wa_pins b) env m" by (auto split: option.splits)
  from 2(1) [OF r [symmetric] refl u [unfolded eqs] b(1)] b show ?case
    unfolding eqs by (auto intro: pins_kept_trans authentic_kept)
next
  case (3 cr env rnd resolves msg es t)
  then show ?case by simp
next
  case (4 cr i es t)
  then show ?case by simp
qed auto

text \<open>
  What a node signs, its peers accept: with a signature scheme that verifies what it signed, a message of a node
  that stands in the trust pool of the receiver passes, and one that answers a request of the receiver passes also
  when its identity is new. The receiver's pins are the only state that can change.
\<close>

definition scheme_ok :: "wire_crypto \<Rightarrow> wire_env \<Rightarrow> bool" where
  "scheme_ok cr env =
     (case (we_identity env, we_sign env) of
        (Some (keyID, key, ok), Some sign) \<Rightarrow>
          (\<exists>pub. decodeKey key = Some pub \<and>
             (\<forall>p sig. sign p = (sig, True) \<longrightarrow> (\<exists>raw. b64_decode sig = Some raw \<and> length raw = SignatureSize \<and> wc_Verify cr pub p raw)))
      | _ \<Rightarrow> True)"

lemma sign_verify:
  assumes "signMessage cr env msg = Some m" and "scheme_ok cr env"
    and "dm_From msg = wc_sum256 cr (dm_KeyID m)" and "key_of renv (wa_pins a) (dm_KeyID m) = Some (dm_PubKey m) \<or>
      key_of renv (wa_pins a) (dm_KeyID m) = None \<and> solicited"
  shows "fst (verifyMessage cr renv m solicited (Some a))"
proof -
  from assms(1) obtain keyID key sign payload sig where
    id: "we_identity env = Some (keyID, key, True)" "we_sign env = Some sign" "keyID \<noteq> []"
    and pay: "canonicalDHTPayload cr (msg\<lparr>dm_KeyID := keyID, dm_PubKey := key\<rparr>) = Some payload"
    and sig: "sign payload = (sig, True)" "sig \<noteq> []"
    and m: "m = msg\<lparr>dm_KeyID := keyID, dm_PubKey := key, dm_Sig := sig\<rparr>"
    by (auto simp: signMessage_def Let_def split: option.splits prod.splits if_splits)
  have "canonicalDHTPayload cr m = Some payload" using pay unfolding m canonicalDHTPayload_def by simp
  moreover obtain pub raw where "decodeKey key = Some pub" "b64_decode sig = Some raw" "length raw = SignatureSize" "wc_Verify cr pub payload raw"
    using assms(2) id sig(1) by (simp add: scheme_ok_def) blast
  ultimately have "signed_by cr (dm_PubKey m) m" by (simp add: signed_by_def m)
  then show ?thesis using assms(3,4) id sig(2) by (auto simp: verifyMessage_eq m)
qed

text \<open>A small instance: keys and signatures of the right length, and verification by equality with one signature.\<close>

definition toy_crypto :: wire_crypto where
  "toy_crypto = \<lparr>wc_sum256 = (\<lambda>s. replicate 32 (of_nat (length s))), wc_marshal = (\<lambda>m. Some (dm_KeyID m)),
     wc_unmarshal = (\<lambda>s. if s = [] then None else Some ((blank_message (replicate 32 (of_nat (length s))) [] DHTMsgPing)
        \<lparr>dm_ID := ''q'', dm_KeyID := s, dm_PubKey := b64_encode (replicate 32 CHR ''k''), dm_Sig := b64_encode (replicate 64 CHR ''s'')\<rparr>)),
     wc_Verify = (\<lambda>pub p sig. sig = replicate 64 CHR ''s'')\<rparr>"

definition toy_env :: wire_env where
  "toy_env = \<lparr>we_identity = Some (''me'', b64_encode (replicate 32 CHR ''k''), True),
     we_sign = Some (\<lambda>p. (b64_encode (replicate 64 CHR ''s''), True)), we_trustLookup = (\<lambda>i. ([], False))\<rparr>"

definition toy_transport :: UDPDHTTransport where
  "toy_transport = EnableWireAuth (Some newDHTWireAuth) (NewUDPDHTTransport (NewDHTNode (wc_sum256 toy_crypto) ''me'' ''10.0.0.1''))"

definition toy_events :: "udp_event list" where
  "toy_events = [Request toy_env (Some ''00'') True ((blank_message zero_id [] DHTMsgPing)\<lparr>dm_ID := ''q''\<rparr>),
     Datagram toy_env 5 ''peer'', Datagram toy_env 6 []]"

lemma toy_fates: "map (\<lambda>(env, f). map_option dm_KeyID (accepted f)) (fst (udp_run toy_crypto toy_events toy_transport)) = [Some ''peer'', None]"
proof -
  have enc: "s \<noteq> [] \<Longrightarrow> b64_encode s \<noteq> []" for s by (cases s rule: b64_encode.cases) simp_all
  have key: "decodeKey (b64_encode (replicate 32 CHR ''k'')) = Some (replicate 32 CHR ''k'')"
    by (simp add: decodeKey_def b64_decode_encode PublicKeySize_def)
  show ?thesis
    by (simp add: toy_events_def toy_transport_def EnableWireAuth_def NewUDPDHTTransport_def newDHTWireAuth_def Send_begin_def send_id_def
        toy_env_def toy_crypto_def signMessage_def canonicalDHTPayload_def enc receive_def dhtMaxDatagram_def verifyMessage_eq key_of_def
        signed_by_def key b64_decode_encode SignatureSize_def blank_message_def dispatch_def takePending_def Let_def)
qed

theorem wire_authentication_witness:
  "map (\<lambda>(env, f). map_option dm_KeyID (accepted f)) (fst (udp_run toy_crypto toy_events toy_transport)) = [Some ''peer'', None] \<and>
   ut_auth toy_transport = Some newDHTWireAuth \<and>
   (\<exists>a'. ut_auth (snd (udp_run toy_crypto toy_events toy_transport)) = Some a' \<and>
     (\<forall>(env, f) \<in> set (fst (udp_run toy_crypto toy_events toy_transport)). \<forall>m. accepted f = Some m \<longrightarrow> authentic toy_crypto (wa_pins a') env m))"
proof -
  have start: "ut_auth toy_transport = Some newDHTWireAuth" by (simp add: toy_transport_def EnableWireAuth_def)
  obtain fs t' where r: "udp_run toy_crypto toy_events toy_transport = (fs, t')" by force
  from wire_authentication [OF r start] start toy_fates show ?thesis unfolding r by auto
qed

end
