(* ===== verification/Contribution_Ledger.thy ===== *)
theory Contribution_Ledger
  imports Contribution_Quota Calendar
begin

text \<open>
  The contribution ledger of a node, \<open>src/contribution_ledger.go\<close>: contributions, trust observations, capability
  claims and penalties by identifier, and the chain of signed transactions with its index and the daily counters.

  Digests, signatures and the JSON text that is signed or hashed are arguments, the fields of \<open>ledger_env\<close>:
  \<open>le_H\<close> is the hexadecimal SHA-256 of a text, \<open>le_sign\<close> the Ed25519 signature with a private key, the encoders may fail.
  A time is a number of nanoseconds of the local clock; \<open>zero_time\<close> is Go's zero time. Money is a real number.
  The source keeps pointers to records in its maps, which nothing changes after the recording; the model copies them.
\<close>

section \<open>Records\<close>

record StorageProof =
  sp_ContentHash :: string
  sp_StorageLocation :: string
  sp_Verified :: bool

record ContributionRecord =
  cnr_ID :: string
  cnr_PeerID :: string
  cnr_PeerPublicKey :: string
  cnr_ModelID :: string
  cnr_Provider :: string
  cnr_Tokens :: int
  cnr_ValueUSD :: real
  cnr_Timestamp :: int
  cnr_Signature :: string
  cnr_Proof :: StorageProof

record TrustRecord =
  tru_ID :: string
  tru_SubjectPeerID :: string
  tru_VerifierPeerID :: string
  tru_ModelID :: string
  tru_Success :: bool
  tru_LatencyMS :: int
  tru_Timestamp :: int
  tru_Signature :: string

record CapabilityClaim =
  cla_ID :: string
  cla_PeerID :: string
  cla_Models :: "string list"
  cla_Providers :: "string list"
  cla_MaxQuota :: int
  cla_Timestamp :: int
  cla_Signature :: string
  cla_ValidUntil :: int

record PenaltyRecord =
  pen_ID :: string
  pen_PeerID :: string
  pen_Reason :: string
  pen_Evidence :: "string list"
  pen_Action :: string
  pen_Timestamp :: int
  pen_Verifiers :: "string list"
  pen_Signature :: string

record SignedTransaction =
  stx_ID :: string
  stx_Type :: string
  stx_NodeID :: string
  stx_Amount :: int
  stx_ModelID :: string
  stx_RequestID :: string
  stx_PrevHash :: string
  stx_Hash :: string
  stx_Timestamp :: int
  stx_Signature :: string

definition zero_time :: int where
  "zero_time = - 62135596800 * 1000000000"

record ledger_env =
  le_H :: "string \<Rightarrow> string"
  le_sign :: "string \<Rightarrow> string \<Rightarrow> string"
  le_json_contribution :: "ContributionRecord \<Rightarrow> string option"
  le_json_penalty :: "PenaltyRecord \<Rightarrow> string option"
  le_json_tx :: "SignedTransaction \<Rightarrow> string option"

section \<open>The ledger\<close>

type_synonym daily_key = "string \<times> int"

record GossipLedger =
  gl_peerID :: string
  gl_localCache :: "(string, string) gomap"   \<comment> \<open>the content store \<open>hashStore\<close>\<close>
  gl_recs :: "(string, ContributionRecord) gomap"
  gl_trusts :: "(string, TrustRecord) gomap"
  gl_claims :: "(string, CapabilityClaim) gomap"
  gl_penalties :: "(string, PenaltyRecord) gomap"
  gl_txs :: "SignedTransaction list"
  gl_txIndex :: "(string, SignedTransaction) gomap"
  gl_dailyContrib :: "(daily_key, int) gomap"
  gl_seq :: nat
  gl_pub :: string
  gl_priv :: string
  gl_dirty :: "string list"

definition bboltLedgerContribPrefix :: string where "bboltLedgerContribPrefix = ''contrib/''"
definition bboltLedgerTrustPrefix :: string where "bboltLedgerTrustPrefix = ''trust/''"
definition bboltLedgerClaimPrefix :: string where "bboltLedgerClaimPrefix = ''claim/''"
definition bboltLedgerPenaltyPrefix :: string where "bboltLedgerPenaltyPrefix = ''penalty/''"
definition bboltLedgerTxPrefix :: string where "bboltLedgerTxPrefix = ''tx/''"
definition bboltLedgerIdentityKey :: string where "bboltLedgerIdentityKey = ''meta/identity''"

lemmas ledger_key_defs = bboltLedgerContribPrefix_def bboltLedgerTrustPrefix_def bboltLedgerClaimPrefix_def
  bboltLedgerPenaltyPrefix_def bboltLedgerTxPrefix_def bboltLedgerIdentityKey_def

definition markDirtyLocked :: "string list \<Rightarrow> GossipLedger \<Rightarrow> GossipLedger" where
  "markDirtyLocked keys g = g\<lparr>gl_dirty := fold List.insert keys (gl_dirty g)\<rparr>"

text \<open>The key pair is generated; \<open>None\<close> when that fails.\<close>

definition NewGossipLedger :: "(string \<times> string) option \<Rightarrow> string \<Rightarrow> GossipLedger option" where
  "NewGossipLedger keys peerID =
     map_option (\<lambda>(pub, priv). \<lparr>gl_peerID = peerID, gl_localCache = [], gl_recs = [], gl_trusts = [], gl_claims = [],
       gl_penalties = [], gl_txs = [], gl_txIndex = [], gl_dailyContrib = [], gl_seq = 0, gl_pub = pub, gl_priv = priv,
       gl_dirty = []\<rparr>) keys"

text \<open>The counter is a 64-bit unsigned integer.\<close>

definition next_seq :: "nat \<Rightarrow> nat" where
  "next_seq n = Suc n mod 18446744073709551616"

definition seq_id :: "string \<Rightarrow> string \<Rightarrow> nat \<Rightarrow> string" where
  "seq_id kind peerID n = kind @ ''-'' @ peerID @ ''-'' @ nat_digits n"

definition nextID :: "string \<Rightarrow> GossipLedger \<Rightarrow> string \<times> GossipLedger" where
  "nextID kind g =
     (let n = next_seq (gl_seq g)
      in (seq_id kind (gl_peerID g) n, markDirtyLocked [bboltLedgerIdentityKey] (g\<lparr>gl_seq := n\<rparr>)))"

subsection \<open>The content store\<close>

definition contentHashCacheMax :: nat where "contentHashCacheMax = 1024"

text \<open>A full store first loses one entry; which one, the iteration order of the map decides: argument \<open>pick\<close>.\<close>

definition drop_one :: "nat \<Rightarrow> ('k, 'v) gomap \<Rightarrow> ('k, 'v) gomap" where
  "drop_one pick m = (if m = [] then m else gdel (fst (m ! (pick mod length m))) m)"

definition StoreJSON :: "ledger_env \<Rightarrow> nat \<Rightarrow> string option \<Rightarrow> (string, string) gomap \<Rightarrow> string option \<times> (string, string) gomap" where
  "StoreJSON env pick json cache =
     (case json of
        None \<Rightarrow> (None, cache)
      | Some data \<Rightarrow>
          let cid = ''sha256:'' @ le_H env data;
              cache1 = (if length cache \<ge> contentHashCacheMax then drop_one pick cache else cache)
          in (Some cid, gput cid data cache1))"

lemma drop_one_less: "m \<noteq> [] \<Longrightarrow> length (drop_one pick m) < length m"
  by (simp add: drop_one_def length_gdel_less gget_None_iff)

text \<open>\<open>Cleanup\<close> of the content store; \<open>pick k\<close> decides which entry the \<open>k\<close>-th round drops.\<close>

function content_cleanup :: "(nat \<Rightarrow> nat) \<Rightarrow> nat \<Rightarrow> nat \<Rightarrow> (string, string) gomap \<Rightarrow> (string, string) gomap" where
  "content_cleanup pick k maxEntries m =
     (if length m > maxEntries then content_cleanup pick (Suc k) maxEntries (drop_one (pick k) m) else m)"
  by pat_completeness auto

termination content_cleanup
  by (relation "measure (\<lambda>(pick, k, maxEntries, m). length m)") (auto intro!: drop_one_less)

declare content_cleanup.simps [simp del]

subsection \<open>Recording\<close>

text \<open>Defaults, signature and the first store of \<open>RecordContribution\<close>, under the lock.\<close>

definition record_contribution :: "ledger_env \<Rightarrow> int \<Rightarrow> ContributionRecord \<Rightarrow> GossipLedger \<Rightarrow> ContributionRecord \<times> GossipLedger" where
  "record_contribution env now rec g =
     (let (i, g1) = (if cnr_ID rec = [] then nextID ''contrib'' g else (cnr_ID rec, g));
          rec1 = rec\<lparr>cnr_ID := i,
                     cnr_PeerID := (if cnr_PeerID rec = [] then gl_peerID g else cnr_PeerID rec),
                     cnr_Timestamp := (if cnr_Timestamp rec = zero_time then now else cnr_Timestamp rec)\<rparr>;
          rec2 = (case le_json_contribution env rec1 of
                    Some data \<Rightarrow> rec1\<lparr>cnr_Signature := le_sign env (gl_priv g) data\<rparr>
                  | None \<Rightarrow> rec1)
      in (rec2, markDirtyLocked [bboltLedgerContribPrefix @ i] (g1\<lparr>gl_recs := gput i rec2 (gl_recs g1)\<rparr>)))"

text \<open>The second part: the content hash becomes the proof of the stored copy.\<close>

definition attach_proof :: "ledger_env \<Rightarrow> nat \<Rightarrow> ContributionRecord \<Rightarrow> GossipLedger \<Rightarrow> GossipLedger" where
  "attach_proof env pick rec g =
     (case StoreJSON env pick (le_json_contribution env rec) (gl_localCache g) of
        (None, cache) \<Rightarrow> g\<lparr>gl_localCache := cache\<rparr>
      | (Some cid, cache) \<Rightarrow>
          let cp = rec\<lparr>cnr_Proof := (cnr_Proof rec)\<lparr>sp_ContentHash := cid, sp_StorageLocation := ''local-hash''\<rparr>\<rparr>
          in markDirtyLocked [bboltLedgerContribPrefix @ cnr_ID rec]
               (g\<lparr>gl_localCache := cache, gl_recs := gput (cnr_ID rec) cp (gl_recs g)\<rparr>))"

text \<open>
  The queue of the replicator that \<open>RecordContribution\<close> feeds (\<open>src/ledger_replication.go\<close>) and the tracker of
  entitlements; either may be missing.
\<close>

definition ledgerReplicateQueueSize :: nat where "ledgerReplicateQueueSize = 256"

definition EnqueueContribution :: "ContributionRecord \<Rightarrow> ContributionRecord list \<Rightarrow> ContributionRecord list" where
  "EnqueueContribution rec jobs = (if length jobs < ledgerReplicateQueueSize then jobs @ [rec] else jobs)"

record ledger_node =
  ln_ledger :: GossipLedger
  ln_jobs :: "ContributionRecord list option"
  ln_tracker :: "ContributionQuotaTracker option"

text \<open>\<open>Inl\<close> is the error of a nil record; the record itself changes, so the result has it.\<close>

definition RecordContribution :: "ledger_env \<Rightarrow> io_env \<Rightarrow> nat \<Rightarrow> int \<Rightarrow> ContributionRecord option \<Rightarrow> ledger_node
    \<Rightarrow> (string + ContributionRecord) \<times> ledger_node" where
  "RecordContribution env io pick now reco n =
     (case reco of
        None \<Rightarrow> (Inl ''nil contribution record'', n)
      | Some rec \<Rightarrow>
          let (rec', g1) = record_contribution env now rec (ln_ledger n);
              g2 = attach_proof env pick rec' g1
          in (Inr rec',
              n\<lparr>ln_ledger := g2,
                ln_jobs := map_option (EnqueueContribution rec') (ln_jobs n),
                ln_tracker := (if cnr_Tokens rec' > 0
                               then map_option (Accrue io now (cnr_PeerID rec') (cnr_Tokens rec')) (ln_tracker n)
                               else ln_tracker n)\<rparr>))"

definition RecordTrust :: "int \<Rightarrow> TrustRecord option \<Rightarrow> GossipLedger \<Rightarrow> (string + TrustRecord) \<times> GossipLedger" where
  "RecordTrust now reco g =
     (case reco of
        None \<Rightarrow> (Inl ''nil trust record'', g)
      | Some rec \<Rightarrow>
          let (i, g1) = (if tru_ID rec = [] then nextID ''trust'' g else (tru_ID rec, g));
              rec1 = rec\<lparr>tru_ID := i,
                         tru_VerifierPeerID := (if tru_VerifierPeerID rec = [] then gl_peerID g else tru_VerifierPeerID rec),
                         tru_Timestamp := (if tru_Timestamp rec = zero_time then now else tru_Timestamp rec)\<rparr>
          in (Inr rec1, markDirtyLocked [bboltLedgerTrustPrefix @ i] (g1\<lparr>gl_trusts := gput i rec1 (gl_trusts g1)\<rparr>)))"

text \<open>A nil claim gives the empty identifier.\<close>

definition RecordClaim :: "int \<Rightarrow> CapabilityClaim option \<Rightarrow> GossipLedger \<Rightarrow> string \<times> GossipLedger" where
  "RecordClaim now claimo g =
     (case claimo of
        None \<Rightarrow> ([], g)
      | Some claim \<Rightarrow>
          let (i, g1) = (if cla_ID claim = [] then nextID ''claim'' g else (cla_ID claim, g));
              claim1 = claim\<lparr>cla_ID := i,
                             cla_PeerID := (if cla_PeerID claim = [] then gl_peerID g else cla_PeerID claim),
                             cla_Timestamp := (if cla_Timestamp claim = zero_time then now else cla_Timestamp claim)\<rparr>
          in (i, markDirtyLocked [bboltLedgerClaimPrefix @ i] (g1\<lparr>gl_claims := gput i claim1 (gl_claims g1)\<rparr>)))"

definition RecordPenalty :: "ledger_env \<Rightarrow> int \<Rightarrow> PenaltyRecord option \<Rightarrow> GossipLedger \<Rightarrow> (string + PenaltyRecord) \<times> GossipLedger" where
  "RecordPenalty env now reco g =
     (case reco of
        None \<Rightarrow> (Inl ''nil penalty record'', g)
      | Some rec \<Rightarrow>
          let (i, g1) = (if pen_ID rec = [] then nextID ''penalty'' g else (pen_ID rec, g));
              rec1 = rec\<lparr>pen_ID := i,
                         pen_PeerID := (if pen_PeerID rec = [] then gl_peerID g else pen_PeerID rec),
                         pen_Timestamp := (if pen_Timestamp rec = zero_time then now else pen_Timestamp rec)\<rparr>;
              rec2 = (case le_json_penalty env rec1 of
                        Some data \<Rightarrow> rec1\<lparr>pen_Signature := le_sign env (gl_priv g) data\<rparr>
                      | None \<Rightarrow> rec1)
          in (Inr rec2, markDirtyLocked [bboltLedgerPenaltyPrefix @ i] (g1\<lparr>gl_penalties := gput i rec2 (gl_penalties g1)\<rparr>)))"

subsection \<open>Merging records of other nodes\<close>

text \<open>One loop of \<open>GossipSync\<close>: nil records, records without identifier and known identifiers are skipped.\<close>

fun sync_rows :: "('a \<Rightarrow> string) \<Rightarrow> string \<Rightarrow> 'a option list \<Rightarrow> (string, 'a) gomap \<Rightarrow> string list \<Rightarrow> nat \<times> (string, 'a) gomap \<times> string list" where
  "sync_rows id_of kind [] m dirty = (0, m, dirty)"
| "sync_rows id_of kind (None # rs) m dirty = sync_rows id_of kind rs m dirty"
| "sync_rows id_of kind (Some r # rs) m dirty =
     (if id_of r = [] then sync_rows id_of kind rs m dirty
      else if gget m (id_of r) \<noteq> None then sync_rows id_of kind rs m dirty
      else let (k, m', dirty') = sync_rows id_of kind rs (gput (id_of r) r m) (List.insert (kind @ id_of r) dirty)
           in (Suc k, m', dirty'))"

definition GossipSync :: "ContributionRecord option list \<Rightarrow> TrustRecord option list \<Rightarrow> CapabilityClaim option list
    \<Rightarrow> PenaltyRecord option list \<Rightarrow> GossipLedger \<Rightarrow> nat \<times> GossipLedger" where
  "GossipSync contributions trusts claims penalties g =
     (let (k1, recs, d1) = sync_rows cnr_ID bboltLedgerContribPrefix contributions (gl_recs g) (gl_dirty g);
          (k2, trs, d2) = sync_rows tru_ID bboltLedgerTrustPrefix trusts (gl_trusts g) d1;
          (k3, cls, d3) = sync_rows cla_ID bboltLedgerClaimPrefix claims (gl_claims g) d2;
          (k4, pens, d4) = sync_rows pen_ID bboltLedgerPenaltyPrefix penalties (gl_penalties g) d3
      in (k1 + k2 + k3 + k4,
          g\<lparr>gl_recs := recs, gl_trusts := trs, gl_claims := cls, gl_penalties := pens, gl_dirty := d4\<rparr>))"

subsection \<open>Transactions\<close>

definition dailyKey :: "string \<Rightarrow> int \<Rightarrow> daily_key" where
  "dailyKey nodeID t = (nodeID, day_number t)"

text \<open>The text that is hashed: the fields separated by vertical bars.\<close>

definition tx_payload :: "SignedTransaction \<Rightarrow> string" where
  "tx_payload tx = stx_ID tx @ ''|'' @ stx_Type tx @ ''|'' @ stx_NodeID tx @ ''|'' @ itoa (stx_Amount tx) @ ''|'' @
     stx_ModelID tx @ ''|'' @ stx_RequestID tx @ ''|'' @ stx_PrevHash tx"

definition tx_hash :: "ledger_env \<Rightarrow> SignedTransaction \<Rightarrow> string" where
  "tx_hash env tx = le_H env (tx_payload tx)"

definition add_daily :: "daily_key \<Rightarrow> int \<Rightarrow> (daily_key, int) gomap \<Rightarrow> (daily_key, int) gomap" where
  "add_daily k a m = gput k (i64 (gget0 0 m k + a)) m"

text \<open>
  The transaction built for a given identifier on top of a given head. A failing encoder leaves the text to sign empty.
\<close>

record tx_request =
  tq_ID :: string
  tq_Type :: string
  tq_NodeID :: string
  tq_Amount :: int
  tq_ModelID :: string
  tq_RequestID :: string
  tq_now :: int
  tq_priv :: string

definition mk_tx :: "ledger_env \<Rightarrow> string \<Rightarrow> tx_request \<Rightarrow> SignedTransaction" where
  "mk_tx env prevHash q =
     (let tx = \<lparr>stx_ID = tq_ID q, stx_Type = tq_Type q, stx_NodeID = tq_NodeID q, stx_Amount = tq_Amount q,
                stx_ModelID = tq_ModelID q, stx_RequestID = tq_RequestID q, stx_PrevHash = prevHash, stx_Hash = [],
                stx_Timestamp = tq_now q, stx_Signature = []\<rparr>;
          tx1 = tx\<lparr>stx_Hash := tx_hash env tx\<rparr>
      in tx1\<lparr>stx_Signature := le_sign env (tq_priv q) (case le_json_tx env tx1 of Some data \<Rightarrow> data | None \<Rightarrow> [])\<rparr>)"

definition AppendTransaction :: "ledger_env \<Rightarrow> int \<Rightarrow> string \<Rightarrow> string \<Rightarrow> int \<Rightarrow> string \<Rightarrow> string \<Rightarrow> GossipLedger
    \<Rightarrow> SignedTransaction \<times> GossipLedger" where
  "AppendTransaction env now txType nodeID amount modelID requestID g =
     (let n = next_seq (gl_seq g);
          txID = seq_id ''tx'' (gl_peerID g) n;
          prevHash = (if gl_txs g = [] then [] else stx_Hash (last (gl_txs g)));
          tx = mk_tx env prevHash \<lparr>tq_ID = txID, tq_Type = txType, tq_NodeID = nodeID, tq_Amount = amount,
                 tq_ModelID = modelID, tq_RequestID = requestID, tq_now = now, tq_priv = gl_priv g\<rparr>
      in (tx, markDirtyLocked [bboltLedgerTxPrefix @ txID, bboltLedgerIdentityKey]
               (g\<lparr>gl_seq := n, gl_txs := gl_txs g @ [tx], gl_txIndex := gput txID tx (gl_txIndex g),
                  gl_dailyContrib := (if txType = ''contribution'' \<and> amount \<noteq> 0
                                      then add_daily (dailyKey nodeID now) amount (gl_dailyContrib g)
                                      else gl_dailyContrib g)\<rparr>)))"

definition GetDailyContributions :: "string \<Rightarrow> int \<Rightarrow> GossipLedger \<Rightarrow> int" where
  "GetDailyContributions nodeID day g = gget0 0 (gl_dailyContrib g) (dailyKey nodeID day)"

definition GetTransactionChain :: "string \<Rightarrow> GossipLedger \<Rightarrow> SignedTransaction list" where
  "GetTransactionChain nodeID g = filter (\<lambda>tx. stx_NodeID tx = nodeID) (gl_txs g)"

definition DeriveBalance :: "string \<Rightarrow> GossipLedger \<Rightarrow> int" where
  "DeriveBalance nodeID g =
     foldl (\<lambda>balance tx. if stx_NodeID tx = nodeID
              then (if stx_Type tx = ''contribution'' then i64 (balance + stx_Amount tx)
                    else if stx_Type tx = ''consumption'' then i64 (balance - stx_Amount tx) else balance)
              else balance) 0 (gl_txs g)"

text \<open>The loop of \<open>chainValid\<close>; the argument is the transaction before, if there is one.\<close>

fun chain_loop :: "ledger_env \<Rightarrow> SignedTransaction option \<Rightarrow> SignedTransaction list \<Rightarrow> bool" where
  "chain_loop env before [] = True"
| "chain_loop env before (tx # txs) =
     (if (case before of Some b \<Rightarrow> stx_PrevHash tx \<noteq> stx_Hash b | None \<Rightarrow> False) then False
      else if stx_Hash tx \<noteq> tx_hash env tx then False
      else chain_loop env (Some tx) txs)"

definition chainValid :: "ledger_env \<Rightarrow> GossipLedger \<Rightarrow> bool" where
  "chainValid env g = chain_loop env None (gl_txs g)"

subsection \<open>Views\<close>

definition GetContribution :: "string \<Rightarrow> GossipLedger \<Rightarrow> ContributionRecord option" where
  "GetContribution i g = gget (gl_recs g) i"

definition VerifyContribution :: "string \<Rightarrow> GossipLedger \<Rightarrow> bool" where
  "VerifyContribution i g = (gget (gl_recs g) i \<noteq> None)"

definition GetPeerContributions :: "string \<Rightarrow> GossipLedger \<Rightarrow> ContributionRecord list" where
  "GetPeerContributions peerID g = filter (\<lambda>r. cnr_PeerID r = peerID) (map snd (gl_recs g))"

definition GetPenalties :: "string \<Rightarrow> GossipLedger \<Rightarrow> PenaltyRecord list" where
  "GetPenalties peerID g = filter (\<lambda>p. pen_PeerID p = peerID) (map snd (gl_penalties g))"

definition ledger_Count :: "GossipLedger \<Rightarrow> nat" where
  "ledger_Count g = length (gl_recs g) + length (gl_trusts g) + length (gl_claims g) + length (gl_penalties g)"

definition GetAllContributions :: "GossipLedger \<Rightarrow> ContributionRecord list" where
  "GetAllContributions g = map snd (gl_recs g)"

definition GetAllTrusts :: "GossipLedger \<Rightarrow> TrustRecord list" where
  "GetAllTrusts g = map snd (gl_trusts g)"

definition GetAllClaims :: "GossipLedger \<Rightarrow> CapabilityClaim list" where
  "GetAllClaims g = map snd (gl_claims g)"

definition GetAllPenalties :: "GossipLedger \<Rightarrow> PenaltyRecord list" where
  "GetAllPenalties g = map snd (gl_penalties g)"

definition GetAllTransactions :: "GossipLedger \<Rightarrow> SignedTransaction list" where
  "GetAllTransactions g = gl_txs g"

record LedgerTransparency =
  lt_PeerID :: string
  lt_TotalTokens :: int
  lt_ContributionCount :: nat
  lt_ByModel :: "(string, int) gomap"
  lt_ByPeer :: "(string, int) gomap"
  lt_TrustCount :: nat
  lt_ClaimCount :: nat
  lt_PenaltyCount :: nat
  lt_TransactionCount :: nat
  lt_ChainValid :: bool

definition add_to :: "string \<Rightarrow> int \<Rightarrow> (string, int) gomap \<Rightarrow> (string, int) gomap" where
  "add_to k a m = gput k (i64 (gget0 0 m k + a)) m"

definition transparency_row :: "ContributionRecord \<Rightarrow> LedgerTransparency \<Rightarrow> LedgerTransparency" where
  "transparency_row r t =
     t\<lparr>lt_TotalTokens := i64 (lt_TotalTokens t + cnr_Tokens r),
       lt_ContributionCount := Suc (lt_ContributionCount t),
       lt_ByModel := (if cnr_ModelID r \<noteq> [] then add_to (cnr_ModelID r) (cnr_Tokens r) (lt_ByModel t) else lt_ByModel t),
       lt_ByPeer := (if cnr_PeerID r \<noteq> [] then add_to (cnr_PeerID r) (cnr_Tokens r) (lt_ByPeer t) else lt_ByPeer t)\<rparr>"

definition GetTransparency :: "ledger_env \<Rightarrow> GossipLedger \<Rightarrow> LedgerTransparency" where
  "GetTransparency env g =
     (fold transparency_row (map snd (gl_recs g))
        \<lparr>lt_PeerID = gl_peerID g, lt_TotalTokens = 0, lt_ContributionCount = 0, lt_ByModel = [], lt_ByPeer = [],
         lt_TrustCount = 0, lt_ClaimCount = 0, lt_PenaltyCount = 0, lt_TransactionCount = 0, lt_ChainValid = False\<rparr>)
       \<lparr>lt_TrustCount := length (gl_trusts g), lt_ClaimCount := length (gl_claims g), lt_PenaltyCount := length (gl_penalties g),
        lt_TransactionCount := length (gl_txs g), lt_ChainValid := chainValid env g\<rparr>"

record ContributorHonor =
  ch_PeerID :: string
  ch_Tokens :: int
  ch_Records :: nat
  ch_LastSeen :: int

definition honor_row :: "ContributionRecord \<Rightarrow> (string, ContributorHonor) gomap \<Rightarrow> (string, ContributorHonor) gomap" where
  "honor_row r m =
     (let a = gget0 \<lparr>ch_PeerID = cnr_PeerID r, ch_Tokens = 0, ch_Records = 0, ch_LastSeen = zero_time\<rparr> m (cnr_PeerID r)
      in gput (cnr_PeerID r)
           (a\<lparr>ch_Tokens := i64 (ch_Tokens a + cnr_Tokens r), ch_Records := Suc (ch_Records a),
              ch_LastSeen := (if cnr_Timestamp r > ch_LastSeen a then cnr_Timestamp r else ch_LastSeen a)\<rparr>) m)"

text \<open>The order of the list: tokens and number of records descending, then the peer.\<close>

definition honor_less :: "ContributorHonor \<Rightarrow> ContributorHonor \<Rightarrow> bool" where
  "honor_less a b =
     (if ch_Tokens a \<noteq> ch_Tokens b then ch_Tokens a > ch_Tokens b
      else if ch_Records a \<noteq> ch_Records b then ch_Records a > ch_Records b
      else ch_PeerID a < ch_PeerID b)"

definition GetContributorHonors :: "GossipLedger \<Rightarrow> ContributorHonor list" where
  "GetContributorHonors g = stable_sort_by honor_less (map snd (fold honor_row (map snd (gl_recs g)) []))"

definition csvSafeCell :: "string \<Rightarrow> string" where
  "csvSafeCell s =
     (case s of
        [] \<Rightarrow> s
      | c # _ \<Rightarrow> if c \<in> {CHR ''='', CHR ''+'', CHR ''-'', CHR ''@'', CHR 0x09, CHR 0x0D} then CHR 0x27 # s else s)"

section \<open>The invariant of the ledger\<close>

text \<open>What a scan of the transactions counts for a node and a day.\<close>

definition contributed_on :: "string \<Rightarrow> int \<Rightarrow> SignedTransaction list \<Rightarrow> int" where
  "contributed_on nodeID d txs =
     sum_list (map stx_Amount (filter (\<lambda>tx. stx_Type tx = ''contribution'' \<and> dailyKey (stx_NodeID tx) (stx_Timestamp tx) = (nodeID, d)) txs))"

definition rows_keyed :: "('a \<Rightarrow> string) \<Rightarrow> (string, 'a) gomap \<Rightarrow> bool" where
  "rows_keyed id_of m \<longleftrightarrow> gmap_ok m \<and> list_all (\<lambda>(k, r). k \<noteq> [] \<and> id_of r = k) m"

definition maps_ok :: "GossipLedger \<Rightarrow> bool" where
  "maps_ok g \<longleftrightarrow> rows_keyed cnr_ID (gl_recs g) \<and> rows_keyed tru_ID (gl_trusts g) \<and> rows_keyed cla_ID (gl_claims g) \<and>
     rows_keyed pen_ID (gl_penalties g)"

text \<open>The numbers in the identifiers of the transactions grow and stay below the counter.\<close>

definition tx_ids_ok :: "string \<Rightarrow> nat \<Rightarrow> SignedTransaction list \<Rightarrow> bool" where
  "tx_ids_ok peer n txs \<longleftrightarrow>
     (\<exists>ns. map stx_ID txs = map (seq_id ''tx'' peer) ns \<and> sorted_wrt (<) ns \<and> (\<forall>i \<in> set ns. i \<le> n))"

definition index_ok :: "GossipLedger \<Rightarrow> bool" where
  "index_ok g \<longleftrightarrow> (\<forall>i. gget (gl_txIndex g) i = map_of (map (\<lambda>tx. (stx_ID tx, tx)) (gl_txs g)) i)"

abbreviation tx_chain :: "ledger_env \<Rightarrow> SignedTransaction list \<Rightarrow> bool" where
  "tx_chain env \<equiv> chain_from stx_PrevHash stx_Hash (tx_hash env) []"

definition daily_ok :: "GossipLedger \<Rightarrow> bool" where
  "daily_ok g \<longleftrightarrow> (\<forall>k d. gget0 0 (gl_dailyContrib g) (k, d) = i64 (contributed_on k d (gl_txs g)))"

definition txs_ok :: "ledger_env \<Rightarrow> GossipLedger \<Rightarrow> bool" where
  "txs_ok env g \<longleftrightarrow> tx_chain env (gl_txs g) \<and> tx_ids_ok (gl_peerID g) (gl_seq g) (gl_txs g) \<and> index_ok g \<and> daily_ok g"

text \<open>The keys that the ledger has something to write for.\<close>

definition live_in :: "string \<Rightarrow> (string, 'a) gomap \<Rightarrow> string \<Rightarrow> bool" where
  "live_in kind m k = list_ex (\<lambda>(i, r). k = kind @ i) m"

definition key_live :: "GossipLedger \<Rightarrow> string \<Rightarrow> bool" where
  "key_live g k \<longleftrightarrow> k = bboltLedgerIdentityKey \<or> live_in bboltLedgerContribPrefix (gl_recs g) k \<or>
     live_in bboltLedgerTrustPrefix (gl_trusts g) k \<or> live_in bboltLedgerClaimPrefix (gl_claims g) k \<or>
     live_in bboltLedgerPenaltyPrefix (gl_penalties g) k \<or> live_in bboltLedgerTxPrefix (gl_txIndex g) k"

definition dirty_ok :: "GossipLedger \<Rightarrow> bool" where
  "dirty_ok g \<longleftrightarrow> distinct (gl_dirty g) \<and> (\<forall>k \<in> set (gl_dirty g). key_live g k)"

definition cache_ok :: "GossipLedger \<Rightarrow> bool" where
  "cache_ok g \<longleftrightarrow> gmap_ok (gl_localCache g) \<and> length (gl_localCache g) \<le> contentHashCacheMax"

definition ledger_ok :: "ledger_env \<Rightarrow> GossipLedger \<Rightarrow> bool" where
  "ledger_ok env g \<longleftrightarrow> maps_ok g \<and> txs_ok env g \<and> dirty_ok g \<and> cache_ok g"

subsection \<open>Helpers\<close>

lemma markDirty_fields [simp]:
  "gl_peerID (markDirtyLocked ks g) = gl_peerID g" "gl_localCache (markDirtyLocked ks g) = gl_localCache g"
  "gl_recs (markDirtyLocked ks g) = gl_recs g" "gl_trusts (markDirtyLocked ks g) = gl_trusts g"
  "gl_claims (markDirtyLocked ks g) = gl_claims g" "gl_penalties (markDirtyLocked ks g) = gl_penalties g"
  "gl_txs (markDirtyLocked ks g) = gl_txs g" "gl_txIndex (markDirtyLocked ks g) = gl_txIndex g"
  "gl_dailyContrib (markDirtyLocked ks g) = gl_dailyContrib g" "gl_seq (markDirtyLocked ks g) = gl_seq g"
  "gl_pub (markDirtyLocked ks g) = gl_pub g" "gl_priv (markDirtyLocked ks g) = gl_priv g"
  by (simp_all add: markDirtyLocked_def)

lemma set_fold_insert [simp]: "set (fold List.insert ks xs) = set ks \<union> set xs"
  by (induction ks arbitrary: xs) auto

lemma distinct_fold_insert [simp]: "distinct xs \<Longrightarrow> distinct (fold List.insert ks xs)"
  by (induction ks arbitrary: xs) auto

lemma dirty_markDirty [simp]: "set (gl_dirty (markDirtyLocked ks g)) = set ks \<union> set (gl_dirty g)"
  by (simp add: markDirtyLocked_def)

lemma nat_digits_inj [simp]: "nat_digits a = nat_digits b \<longleftrightarrow> a = b"
  by (metis digits_value_nat_digits)

lemma seq_id_inj [simp]: "seq_id kind peer a = seq_id kind peer b \<longleftrightarrow> a = b"
  by (simp add: seq_id_def)

lemma seq_id_not_Nil [simp]: "seq_id kind peer a \<noteq> []"
  by (simp add: seq_id_def)

lemma nextID_fields:
  assumes "nextID kind g = (i, g')"
  shows "i = seq_id kind (gl_peerID g) (next_seq (gl_seq g))" "g' = markDirtyLocked [bboltLedgerIdentityKey] (g\<lparr>gl_seq := next_seq (gl_seq g)\<rparr>)"
  using assms by (simp_all add: nextID_def Let_def)

lemma live_in_iff: "live_in kind m k \<longleftrightarrow> (\<exists>i. k = kind @ i \<and> gget m i \<noteq> None)"
  by (force simp: live_in_def list_ex_iff gget_None_iff)

lemma live_in_put [simp]: "live_in kind (gput i r m) k \<longleftrightarrow> k = kind @ i \<or> live_in kind m k"
  by (auto simp: live_in_iff)

lemma rows_keyed_put: "rows_keyed id_of m \<Longrightarrow> k \<noteq> [] \<Longrightarrow> id_of r = k \<Longrightarrow> rows_keyed id_of (gput k r m)"
  by (auto simp: rows_keyed_def list_all_iff set_gput)

lemma rows_keyed_get: "rows_keyed id_of m \<Longrightarrow> gget m k = Some r \<Longrightarrow> id_of r = k \<and> k \<noteq> []"
  using gget_in_set [of m k r] by (force simp: rows_keyed_def list_all_iff)

lemma tx_ids_ok_mono: "tx_ids_ok peer n txs \<Longrightarrow> n \<le> m \<Longrightarrow> tx_ids_ok peer m txs"
  unfolding tx_ids_ok_def by (meson le_trans)

lemma next_seq_Suc: "gl_seq g < 18446744073709551615 \<Longrightarrow> next_seq (gl_seq g) = Suc (gl_seq g)"
  by (simp add: next_seq_def)

text \<open>Changes that leave the transactions alone.\<close>

lemma txs_ok_cong:
  assumes "txs_ok env g" and "gl_txs g' = gl_txs g" and "gl_txIndex g' = gl_txIndex g" and "gl_dailyContrib g' = gl_dailyContrib g"
    and "gl_peerID g' = gl_peerID g" and "gl_seq g \<le> gl_seq g'"
  shows "txs_ok env g'"
  using assms tx_ids_ok_mono [of "gl_peerID g" "gl_seq g" "gl_txs g" "gl_seq g'"]
  by (simp add: txs_ok_def index_ok_def daily_ok_def)

lemma ledger_ok_upd:
  assumes "ledger_ok env g" and "maps_ok g'" and "cache_ok g'" and "distinct (gl_dirty g')"
    and "gl_txs g' = gl_txs g" "gl_txIndex g' = gl_txIndex g" "gl_dailyContrib g' = gl_dailyContrib g"
      "gl_peerID g' = gl_peerID g" "gl_seq g \<le> gl_seq g'"
    and "\<And>k. k \<in> set (gl_dirty g') \<Longrightarrow> k \<in> set (gl_dirty g) \<or> key_live g' k"
    and "\<And>k. key_live g k \<Longrightarrow> key_live g' k"
  shows "ledger_ok env g'"
  using assms txs_ok_cong [of env g g'] unfolding ledger_ok_def dirty_ok_def by blast

lemma distinct_markDirty [simp]: "distinct (gl_dirty g) \<Longrightarrow> distinct (gl_dirty (markDirtyLocked ks g))"
  by (simp add: markDirtyLocked_def)

lemma key_live_markDirty [simp]: "key_live (markDirtyLocked ks g) k \<longleftrightarrow> key_live g k"
  by (simp add: key_live_def)

lemma ledger_ok_dirty: "ledger_ok env g \<Longrightarrow> distinct (gl_dirty g)"
  by (simp add: ledger_ok_def dirty_ok_def)

lemma ledger_ok_parts: "ledger_ok env g \<Longrightarrow> maps_ok g" "ledger_ok env g \<Longrightarrow> cache_ok g"
  by (simp_all add: ledger_ok_def)

text \<open>The identifier of a new record: the given one, or the next of the counter.\<close>

definition fresh_id :: "string \<Rightarrow> string \<Rightarrow> GossipLedger \<Rightarrow> string \<times> GossipLedger" where
  "fresh_id kind i g = (if i = [] then nextID kind g else (i, g))"

lemma fresh_id_props:
  assumes "fresh_id kind i g = (j, g1)" and "gl_seq g < 18446744073709551615"
  shows "j \<noteq> []" "gl_seq g \<le> gl_seq g1 \<and> gl_seq g1 \<le> Suc (gl_seq g)"
    "gl_recs g1 = gl_recs g" "gl_trusts g1 = gl_trusts g" "gl_claims g1 = gl_claims g" "gl_penalties g1 = gl_penalties g"
    "gl_txs g1 = gl_txs g" "gl_txIndex g1 = gl_txIndex g" "gl_dailyContrib g1 = gl_dailyContrib g" "gl_peerID g1 = gl_peerID g"
    "gl_localCache g1 = gl_localCache g" "gl_priv g1 = gl_priv g" "gl_pub g1 = gl_pub g"
    "set (gl_dirty g1) \<subseteq> insert bboltLedgerIdentityKey (set (gl_dirty g))" "distinct (gl_dirty g) \<Longrightarrow> distinct (gl_dirty g1)"
    "\<And>k. key_live g1 k \<longleftrightarrow> key_live g k"
  using assms next_seq_Suc [of g]
  by (auto simp: fresh_id_def nextID_def Let_def key_live_def markDirtyLocked_def split: if_splits)

lemmas fresh_id_fields = fresh_id_props(3-13)

lemma record_ok:
  assumes "ledger_ok env g" and "gl_seq g < 18446744073709551615" and "fresh_id kind i0 g = (i, g1)" and "maps_ok g'"
    and "gl_txs g' = gl_txs g" "gl_txIndex g' = gl_txIndex g" "gl_dailyContrib g' = gl_dailyContrib g"
      "gl_peerID g' = gl_peerID g" "gl_seq g' = gl_seq g1" "gl_localCache g' = gl_localCache g"
    and "gl_dirty g' = List.insert key (gl_dirty g1)" and "\<And>k. key_live g' k \<longleftrightarrow> k = key \<or> key_live g k"
  shows "ledger_ok env g'"
proof (rule ledger_ok_upd [OF assms(1)])
  note props = fresh_id_props [OF assms(3,2)]
  show "cache_ok g'" using ledger_ok_parts(2) [OF assms(1)] assms(10) by (simp add: cache_ok_def)
  show "distinct (gl_dirty g')" using ledger_ok_dirty [OF assms(1)] props(15) by (simp add: assms(11))
  show "k \<in> set (gl_dirty g) \<or> key_live g' k" if "k \<in> set (gl_dirty g')" for k
    using that props(14) unfolding assms(11,12) by (auto simp: key_live_def)
  show "gl_seq g \<le> gl_seq g'" using props(2) assms(9) by simp
qed (use assms in simp_all)

lemma record_contribution_ok:
  assumes "ledger_ok env g" and "gl_seq g < 18446744073709551615" and "record_contribution env now rec g = (rec', g')"
  shows "ledger_ok env g'" and "gl_seq g' \<le> Suc (gl_seq g)" and "cnr_ID rec' \<noteq> []" and "gget (gl_recs g') (cnr_ID rec') = Some rec'"
    and "cnr_Tokens rec' = cnr_Tokens rec" and "cnr_PeerID rec' = (if cnr_PeerID rec = [] then gl_peerID g else cnr_PeerID rec)"
proof -
  obtain i g1 where f: "fresh_id ''contrib'' (cnr_ID rec) g = (i, g1)" by force
  note props = fresh_id_props [OF f assms(2)]
  have id: "cnr_ID rec' = i" and g': "g' = markDirtyLocked [bboltLedgerContribPrefix @ i] (g1\<lparr>gl_recs := gput i rec' (gl_recs g1)\<rparr>)"
    using assms(3) f by (auto simp: record_contribution_def Let_def fresh_id_def split: option.split prod.splits if_splits)
  show "ledger_ok env g'"
    by (rule record_ok [OF assms(1,2) f])
      (use props id ledger_ok_parts(1) [OF assms(1)] in \<open>auto simp: g' maps_ok_def rows_keyed_put markDirtyLocked_def key_live_def\<close>)
  show "gl_seq g' \<le> Suc (gl_seq g)" "cnr_ID rec' \<noteq> []" "gget (gl_recs g') (cnr_ID rec') = Some rec'"
    using props id by (simp_all add: g')
qed (use assms(3) in \<open>auto simp: record_contribution_def Let_def split: option.split prod.splits\<close>)

lemma RecordTrust_ok:
  assumes "ledger_ok env g" and "gl_seq g < 18446744073709551615"
  shows "ledger_ok env (snd (RecordTrust now reco g))" and "gl_seq (snd (RecordTrust now reco g)) \<le> Suc (gl_seq g)"
proof (atomize (full), cases reco)
  case (Some rec)
  obtain i g1 where f: "fresh_id ''trust'' (tru_ID rec) g = (i, g1)" by force
  note props = fresh_id_props [OF f assms(2)]
  define rec' where "rec' = the (gget (gl_trusts (snd (RecordTrust now reco g))) i)"
  have id: "tru_ID rec' = i" and g': "snd (RecordTrust now reco g) = markDirtyLocked [bboltLedgerTrustPrefix @ i] (g1\<lparr>gl_trusts := gput i rec' (gl_trusts g1)\<rparr>)"
    using Some f by (auto simp: rec'_def RecordTrust_def Let_def fresh_id_def split: if_splits prod.splits)
  have "ledger_ok env (snd (RecordTrust now reco g))"
    by (rule record_ok [OF assms f])
      (use props id ledger_ok_parts(1) [OF assms(1)] in \<open>auto simp: g' maps_ok_def rows_keyed_put markDirtyLocked_def key_live_def\<close>)
  then show "ledger_ok env (snd (RecordTrust now reco g)) \<and> gl_seq (snd (RecordTrust now reco g)) \<le> Suc (gl_seq g)"
    using props by (simp add: g')
qed (use assms in \<open>simp add: RecordTrust_def\<close>)

lemma RecordClaim_ok:
  assumes "ledger_ok env g" and "gl_seq g < 18446744073709551615"
  shows "ledger_ok env (snd (RecordClaim now reco g))" and "gl_seq (snd (RecordClaim now reco g)) \<le> Suc (gl_seq g)"
proof (atomize (full), cases reco)
  case (Some rec)
  obtain i g1 where f: "fresh_id ''claim'' (cla_ID rec) g = (i, g1)" by force
  note props = fresh_id_props [OF f assms(2)]
  define rec' where "rec' = the (gget (gl_claims (snd (RecordClaim now reco g))) i)"
  have id: "cla_ID rec' = i" and g': "snd (RecordClaim now reco g) = markDirtyLocked [bboltLedgerClaimPrefix @ i] (g1\<lparr>gl_claims := gput i rec' (gl_claims g1)\<rparr>)"
    using Some f by (auto simp: rec'_def RecordClaim_def Let_def fresh_id_def split: if_splits prod.splits)
  have "ledger_ok env (snd (RecordClaim now reco g))"
    by (rule record_ok [OF assms f])
      (use props id ledger_ok_parts(1) [OF assms(1)] in \<open>auto simp: g' maps_ok_def rows_keyed_put markDirtyLocked_def key_live_def\<close>)
  then show "ledger_ok env (snd (RecordClaim now reco g)) \<and> gl_seq (snd (RecordClaim now reco g)) \<le> Suc (gl_seq g)"
    using props by (simp add: g')
qed (use assms in \<open>simp add: RecordClaim_def\<close>)

lemma RecordPenalty_ok:
  assumes "ledger_ok env g" and "gl_seq g < 18446744073709551615"
  shows "ledger_ok env (snd (RecordPenalty env now reco g))" and "gl_seq (snd (RecordPenalty env now reco g)) \<le> Suc (gl_seq g)"
proof (atomize (full), cases reco)
  case (Some rec)
  obtain i g1 where f: "fresh_id ''penalty'' (pen_ID rec) g = (i, g1)" by force
  note props = fresh_id_props [OF f assms(2)]
  define rec' where "rec' = the (gget (gl_penalties (snd (RecordPenalty env now reco g))) i)"
  have id: "pen_ID rec' = i" and g': "snd (RecordPenalty env now reco g) = markDirtyLocked [bboltLedgerPenaltyPrefix @ i] (g1\<lparr>gl_penalties := gput i rec' (gl_penalties g1)\<rparr>)"
    using Some f by (auto simp: rec'_def RecordPenalty_def Let_def fresh_id_def split: if_splits prod.splits option.splits)
  have "ledger_ok env (snd (RecordPenalty env now reco g))"
    by (rule record_ok [OF assms f])
      (use props id ledger_ok_parts(1) [OF assms(1)] in \<open>auto simp: g' maps_ok_def rows_keyed_put markDirtyLocked_def key_live_def\<close>)
  then show "ledger_ok env (snd (RecordPenalty env now reco g)) \<and> gl_seq (snd (RecordPenalty env now reco g)) \<le> Suc (gl_seq g)"
    using props by (simp add: g')
qed (use assms in \<open>simp add: RecordPenalty_def\<close>)

lemma drop_one_ok: "gmap_ok m \<Longrightarrow> gmap_ok (drop_one pick m)"
  by (simp add: drop_one_def)

lemma content_cleanup_ok:
  "length (content_cleanup pick k mx m) \<le> mx" "length (content_cleanup pick k mx m) \<le> length m"
  "gmap_ok m \<Longrightarrow> gmap_ok (content_cleanup pick k mx m)"
proof (induction pick k mx m rule: content_cleanup.induct)
  case (1 pick k mx m)
  {
    case 1
    then show ?case using "1.IH" by (subst content_cleanup.simps) auto
  next
    case 2
    show ?case
    proof (cases "length m > mx")
      case True
      then show ?thesis using "1.IH"(2) drop_one_less [of m "pick k"] by (subst content_cleanup.simps) force
    qed (simp add: content_cleanup.simps)
  next
    case 3
    then show ?case using "1.IH" by (subst content_cleanup.simps) (auto simp: drop_one_ok)
  }
qed

lemma StoreJSON_ok:
  assumes "StoreJSON env pick json cache = (cid, cache')" and "gmap_ok cache" and "length cache \<le> contentHashCacheMax"
  shows "gmap_ok cache'" and "length cache' \<le> contentHashCacheMax"
proof -
  let ?c = "if length cache \<ge> contentHashCacheMax then drop_one pick cache else cache"
  have "gmap_ok ?c" and "length ?c < contentHashCacheMax"
    using assms(2,3) drop_one_ok [OF assms(2), of pick] drop_one_less [of cache pick]
    by (cases "cache = []"; auto simp: contentHashCacheMax_def not_le)+
  moreover have "cache' = cache \<or> (\<exists>k d. cache' = gput k d ?c)"
    using assms(1) by (cases json) (simp_all only: StoreJSON_def Let_def option.case prod.inject, blast+)
  ultimately show "gmap_ok cache'" and "length cache' \<le> contentHashCacheMax"
    using assms(2,3) by (auto simp: length_gput)
qed

lemma attach_proof_ok:
  assumes "ledger_ok env g" and "cnr_ID rec \<noteq> []"
  shows "ledger_ok env (attach_proof env pick rec g)" and "gl_seq (attach_proof env pick rec g) = gl_seq g"
proof -
  obtain cid cache where s: "StoreJSON env pick (le_json_contribution env rec) (gl_localCache g) = (cid, cache)" by force
  have c: "gmap_ok cache" "length cache \<le> contentHashCacheMax"
    using StoreJSON_ok [OF s] assms(1) by (simp_all add: ledger_ok_def cache_ok_def)
  show "ledger_ok env (attach_proof env pick rec g)"
  proof (rule ledger_ok_upd [OF assms(1)])
    show "maps_ok (attach_proof env pick rec g)" using ledger_ok_parts(1) [OF assms(1)] assms(2)
      by (auto simp: attach_proof_def s maps_ok_def Let_def intro: rows_keyed_put split: option.split)
  qed (use c ledger_ok_dirty [OF assms(1)] in \<open>auto simp: attach_proof_def s cache_ok_def Let_def key_live_def split: option.splits\<close>)
  show "gl_seq (attach_proof env pick rec g) = gl_seq g"
    by (simp add: attach_proof_def s Let_def split: option.split)
qed

subsection \<open>Merging\<close>

definition syncable :: "('a \<Rightarrow> string) \<Rightarrow> 'a option \<Rightarrow> (string, 'a) gomap \<Rightarrow> bool" where
  "syncable id_of ro m = (case ro of None \<Rightarrow> False | Some r \<Rightarrow> id_of r \<noteq> [] \<and> gget m (id_of r) = None)"

text \<open>What a merge does to the map and the set of keys to write.\<close>

definition merge_spec :: "('a \<Rightarrow> string) \<Rightarrow> string \<Rightarrow> 'a option list \<Rightarrow> (string, 'a) gomap \<Rightarrow> string list \<Rightarrow> nat
    \<Rightarrow> (string, 'a) gomap \<Rightarrow> string list \<Rightarrow> bool" where
  "merge_spec id_of kind rs m dirty k m' dirty' \<longleftrightarrow>
     (\<forall>i r. gget m i = Some r \<longrightarrow> gget m' i = Some r) \<and>
     (\<forall>i r. gget m' i = Some r \<longrightarrow> gget m i = Some r \<or> Some r \<in> set rs \<and> i = id_of r \<and> i \<noteq> []) \<and>
     (\<forall>r. Some r \<in> set rs \<and> id_of r \<noteq> [] \<longrightarrow> gget m' (id_of r) \<noteq> None) \<and>
     set dirty' = set dirty \<union> {kind @ i | i. gget m' i \<noteq> None \<and> gget m i = None} \<and>
     (distinct dirty \<longrightarrow> distinct dirty') \<and> (gmap_ok m \<longrightarrow> gmap_ok m' \<and> length m' = length m + k)"

lemma merge_specD:
  assumes "merge_spec id_of kind rs m dirty k m' dirty'"
  shows "gget m i = Some r \<Longrightarrow> gget m' i = Some r"
    and "gget m' i = Some r \<Longrightarrow> gget m i = Some r \<or> Some r \<in> set rs \<and> i = id_of r \<and> i \<noteq> []"
    and "Some r \<in> set rs \<Longrightarrow> id_of r \<noteq> [] \<Longrightarrow> gget m' (id_of r) \<noteq> None"
    and "set dirty' = set dirty \<union> {kind @ i | i. gget m' i \<noteq> None \<and> gget m i = None}"
    and "distinct dirty \<Longrightarrow> distinct dirty'" and "gmap_ok m \<Longrightarrow> gmap_ok m'" and "gmap_ok m \<Longrightarrow> length m' = length m + k"
  using assms unfolding merge_spec_def by (simp_all del: split_paired_All)

lemma merge_spec_step:
  assumes "merge_spec id_of kind rs (gput (id_of r) r m) (List.insert (kind @ id_of r) dirty) k m' dirty'"
    and "id_of r \<noteq> []" and "gget m (id_of r) = None"
  shows "merge_spec id_of kind (Some r # rs) m dirty (Suc k) m' dirty'"
proof -
  note D = merge_specD [OF assms(1)]
  have r: "gget m' (id_of r) = Some r" using D(1) [of "id_of r" r] by simp
  have "{kind @ i | i. gget m' i \<noteq> None \<and> gget m i = None} =
      insert (kind @ id_of r) {kind @ i | i. gget m' i \<noteq> None \<and> gget (gput (id_of r) r m) i = None}"
    using r assms(3) by (auto split: if_splits)
  then have "set dirty' = set dirty \<union> {kind @ i | i. gget m' i \<noteq> None \<and> gget m i = None}" unfolding D(4) by simp
  moreover have "gget m' i = Some x" if "gget m i = Some x" for i x
    using that assms(3) D(1) [of i x] by (cases "i = id_of r") auto
  moreover have "gget m i = Some x \<or> Some x \<in> set (Some r # rs) \<and> i = id_of x \<and> i \<noteq> []" if "gget m' i = Some x" for i x
    using D(2) [OF that] r that assms(2) by (cases "i = id_of r") auto
  moreover have "gget m' (id_of x) \<noteq> None" if "Some x \<in> set (Some r # rs) \<and> id_of x \<noteq> []" for x
    using that r D(3) [of x] by auto
  moreover have "gmap_ok m' \<and> length m' = length m + Suc k" if "gmap_ok m"
    using that assms(3) D(6,7) by (simp add: length_gput)
  moreover have "distinct dirty'" if "distinct dirty" using D(5) that by simp
  ultimately show ?thesis unfolding merge_spec_def by blast
qed

lemma merge_spec_skip:
  assumes "merge_spec id_of kind rs m dirty k m' dirty'" and "\<not> syncable id_of ro m"
  shows "merge_spec id_of kind (ro # rs) m dirty k m' dirty'"
  using assms unfolding merge_spec_def syncable_def by (cases ro) auto

lemma sync_rows_Cons:
  "sync_rows id_of kind (ro # rs) m dirty =
     (if syncable id_of ro m
      then case sync_rows id_of kind rs (gput (id_of (the ro)) (the ro) m) (List.insert (kind @ id_of (the ro)) dirty) of
             (k, m', dirty') \<Rightarrow> (Suc k, m', dirty')
      else sync_rows id_of kind rs m dirty)"
  by (cases ro) (auto simp: syncable_def Let_def)

lemma sync_rows_spec:
  "sync_rows id_of kind rs m dirty = (k, m', dirty') \<Longrightarrow> merge_spec id_of kind rs m dirty k m' dirty'"
proof (induction rs arbitrary: k m dirty)
  case Nil
  then show ?case by (auto simp: merge_spec_def)
next
  case (Cons ro rs)
  show ?case
  proof (cases "syncable id_of ro m")
    case True
    then obtain r where r: "ro = Some r" "id_of r \<noteq> []" "gget m (id_of r) = None" by (auto simp: syncable_def split: option.splits)
    with True Cons.prems obtain k0 where k0: "k = Suc k0"
      and run: "sync_rows id_of kind rs (gput (id_of r) r m) (List.insert (kind @ id_of r) dirty) = (k0, m', dirty')"
      unfolding sync_rows_Cons by (auto split: prod.splits)
    from merge_spec_step [OF Cons.IH [OF run]] r show ?thesis by (simp add: k0)
  next
    case False
    with Cons.prems have "sync_rows id_of kind rs m dirty = (k, m', dirty')" by (simp add: sync_rows_Cons)
    from merge_spec_skip [OF Cons.IH [OF this] False] show ?thesis .
  qed
qed

lemma merge_rows_keyed:
  assumes "merge_spec id_of kind rs m dirty k m' dirty'" and "rows_keyed id_of m"
  shows "rows_keyed id_of m'"
proof -
  have ok: "gmap_ok m'" using assms by (simp add: merge_spec_def rows_keyed_def)
  have "i \<noteq> [] \<and> id_of r = i" if "(i, r) \<in> set m'" for i r
    using merge_specD(2) [OF assms(1) in_set_gget [OF ok that]] rows_keyed_get [OF assms(2)] by blast
  with ok show ?thesis by (auto simp: rows_keyed_def list_all_iff)
qed

lemma merge_live:
  assumes "merge_spec id_of kind rs m dirty k m' dirty'"
  shows "live_in kind m x \<Longrightarrow> live_in kind m' x" and "x \<in> set dirty' \<Longrightarrow> x \<in> set dirty \<or> live_in kind m' x"
  using merge_specD(1) [OF assms] merge_specD(4) [OF assms] unfolding live_in_iff by (metis not_None_eq, blast)

lemma GossipSync_parts:
  assumes "GossipSync cs ts cls ps g = (k, g')"
  obtains k1 k2 k3 k4 d1 d2 d3 where
    "merge_spec cnr_ID bboltLedgerContribPrefix cs (gl_recs g) (gl_dirty g) k1 (gl_recs g') d1"
    "merge_spec tru_ID bboltLedgerTrustPrefix ts (gl_trusts g) d1 k2 (gl_trusts g') d2"
    "merge_spec cla_ID bboltLedgerClaimPrefix cls (gl_claims g) d2 k3 (gl_claims g') d3"
    "merge_spec pen_ID bboltLedgerPenaltyPrefix ps (gl_penalties g) d3 k4 (gl_penalties g') (gl_dirty g')"
    "k = k1 + k2 + k3 + k4"
    "g' = g\<lparr>gl_recs := gl_recs g', gl_trusts := gl_trusts g', gl_claims := gl_claims g', gl_penalties := gl_penalties g', gl_dirty := gl_dirty g'\<rparr>"
proof -
  obtain k1 m1 d1 where 1: "sync_rows cnr_ID bboltLedgerContribPrefix cs (gl_recs g) (gl_dirty g) = (k1, m1, d1)" by (metis prod_cases3)
  obtain k2 m2 d2 where 2: "sync_rows tru_ID bboltLedgerTrustPrefix ts (gl_trusts g) d1 = (k2, m2, d2)" by (metis prod_cases3)
  obtain k3 m3 d3 where 3: "sync_rows cla_ID bboltLedgerClaimPrefix cls (gl_claims g) d2 = (k3, m3, d3)" by (metis prod_cases3)
  obtain k4 m4 d4 where 4: "sync_rows pen_ID bboltLedgerPenaltyPrefix ps (gl_penalties g) d3 = (k4, m4, d4)" by (metis prod_cases3)
  have "g' = g\<lparr>gl_recs := m1, gl_trusts := m2, gl_claims := m3, gl_penalties := m4, gl_dirty := d4\<rparr>" "k = k1 + k2 + k3 + k4"
    using assms by (simp_all add: GossipSync_def 1 2 3 4)
  with that [of k1 d1 k2 d2 k3 d3 k4] sync_rows_spec [OF 1] sync_rows_spec [OF 2] sync_rows_spec [OF 3] sync_rows_spec [OF 4]
  show thesis by simp
qed

lemma GossipSync_ok:
  assumes "ledger_ok env g"
  shows "ledger_ok env (snd (GossipSync cs ts cls ps g))" and "gl_seq (snd (GossipSync cs ts cls ps g)) = gl_seq g"
proof -
  obtain k g' where run: "GossipSync cs ts cls ps g = (k, g')" by force
  from run obtain k1 k2 k3 k4 d1 d2 d3 where
    m: "merge_spec cnr_ID bboltLedgerContribPrefix cs (gl_recs g) (gl_dirty g) k1 (gl_recs g') d1"
      "merge_spec tru_ID bboltLedgerTrustPrefix ts (gl_trusts g) d1 k2 (gl_trusts g') d2"
      "merge_spec cla_ID bboltLedgerClaimPrefix cls (gl_claims g) d2 k3 (gl_claims g') d3"
      "merge_spec pen_ID bboltLedgerPenaltyPrefix ps (gl_penalties g) d3 k4 (gl_penalties g') (gl_dirty g')"
    and g': "g' = g\<lparr>gl_recs := gl_recs g', gl_trusts := gl_trusts g', gl_claims := gl_claims g', gl_penalties := gl_penalties g', gl_dirty := gl_dirty g'\<rparr>"
    by (rule GossipSync_parts)
  have same: "gl_txs g' = gl_txs g" "gl_txIndex g' = gl_txIndex g" "gl_dailyContrib g' = gl_dailyContrib g"
    "gl_peerID g' = gl_peerID g" "gl_seq g' = gl_seq g" "gl_localCache g' = gl_localCache g" by (subst g', simp)+
  have "ledger_ok env g'"
  proof (rule ledger_ok_upd [OF assms])
    show "maps_ok g'" using ledger_ok_parts(1) [OF assms] m [THEN merge_rows_keyed] by (simp add: maps_ok_def)
    show "distinct (gl_dirty g')" using ledger_ok_dirty [OF assms] m [THEN merge_specD(5)] by blast
    show "x \<in> set (gl_dirty g) \<or> key_live g' x" if "x \<in> set (gl_dirty g')" for x
      using that merge_live(2) [OF m(1)] merge_live(2) [OF m(2)] merge_live(2) [OF m(3)] merge_live(2) [OF m(4)]
      unfolding key_live_def by blast
    show "key_live g' x" if "key_live g x" for x
      using that merge_live(1) [OF m(1)] merge_live(1) [OF m(2)] merge_live(1) [OF m(3)] merge_live(1) [OF m(4)] same
      unfolding key_live_def by metis
  qed (use same ledger_ok_parts(2) [OF assms] in \<open>simp_all add: cache_ok_def\<close>)
  then show "ledger_ok env (snd (GossipSync cs ts cls ps g))" and "gl_seq (snd (GossipSync cs ts cls ps g)) = gl_seq g"
    using same by (simp_all add: run)
qed

subsection \<open>The chain\<close>

lemma tx_hash_fields [simp]:
  "tx_hash env (tx\<lparr>stx_Hash := h\<rparr>) = tx_hash env tx" "tx_hash env (tx\<lparr>stx_Signature := s\<rparr>) = tx_hash env tx"
  "tx_hash env (tx\<lparr>stx_Hash := h, stx_Signature := s\<rparr>) = tx_hash env tx"
  by (simp_all add: tx_hash_def tx_payload_def)

interpretation transactions: hash_chain stx_PrevHash stx_Hash "tx_hash env" "mk_tx env" for env
  by unfold_locales (simp_all add: mk_tx_def Let_def tx_hash_def tx_payload_def)

lemma mk_tx_fields [simp]:
  "stx_ID (mk_tx env p q) = tq_ID q" "stx_Type (mk_tx env p q) = tq_Type q" "stx_NodeID (mk_tx env p q) = tq_NodeID q"
  "stx_Amount (mk_tx env p q) = tq_Amount q" "stx_Timestamp (mk_tx env p q) = tq_now q"
  by (simp_all add: mk_tx_def Let_def)

lemma chain_head_last: "chain_head stx_Hash p txs = (if txs = [] then p else stx_Hash (last txs))"
  by (induction txs arbitrary: p) auto

text \<open>The verifier of the source does not look at the predecessor of the first transaction; otherwise it is the chain.\<close>

lemma chain_loop_iff:
  "chain_loop env before txs \<longleftrightarrow>
     chain_from stx_PrevHash stx_Hash (tx_hash env) (case before of Some b \<Rightarrow> stx_Hash b | None \<Rightarrow> (case txs of [] \<Rightarrow> [] | t # _ \<Rightarrow> stx_PrevHash t)) txs"
  by (induction txs arbitrary: before) (auto split: option.split list.split)

lemma chain_valid: "tx_chain env (gl_txs g) \<Longrightarrow> chainValid env g"
  by (cases "gl_txs g") (auto simp: chainValid_def chain_loop_iff)

lemma AppendTransaction_fields:
  assumes "AppendTransaction env now ty n a mo rq g = (tx, g')"
  shows "tx = mk_tx env (chain_head stx_Hash [] (gl_txs g)) \<lparr>tq_ID = seq_id ''tx'' (gl_peerID g) (next_seq (gl_seq g)), tq_Type = ty,
      tq_NodeID = n, tq_Amount = a, tq_ModelID = mo, tq_RequestID = rq, tq_now = now, tq_priv = gl_priv g\<rparr>"
    and "gl_txs g' = gl_txs g @ [tx]" and "gl_txIndex g' = gput (stx_ID tx) tx (gl_txIndex g)"
    and "gl_dailyContrib g' = (if ty = ''contribution'' \<and> a \<noteq> 0 then add_daily (dailyKey n now) a (gl_dailyContrib g) else gl_dailyContrib g)"
    and "gl_seq g' = next_seq (gl_seq g)" and "gl_peerID g' = gl_peerID g" and "gl_localCache g' = gl_localCache g"
    and "gl_recs g' = gl_recs g" "gl_trusts g' = gl_trusts g" "gl_claims g' = gl_claims g" "gl_penalties g' = gl_penalties g"
      "gl_priv g' = gl_priv g" "gl_pub g' = gl_pub g"
    and "gl_dirty g' = List.insert bboltLedgerIdentityKey (List.insert (bboltLedgerTxPrefix @ stx_ID tx) (gl_dirty g))"
  using assms by (auto simp: AppendTransaction_def Let_def chain_head_last markDirtyLocked_def)

lemma contributed_on_snoc:
  "contributed_on k d (txs @ [tx]) =
     contributed_on k d txs + (if stx_Type tx = ''contribution'' \<and> dailyKey (stx_NodeID tx) (stx_Timestamp tx) = (k, d) then stx_Amount tx else 0)"
  by (simp add: contributed_on_def)

lemma AppendTransaction_txs_ok:
  assumes "txs_ok env g" and "gl_seq g < 18446744073709551615" and "AppendTransaction env now ty n a mo rq g = (tx, g')"
  shows "txs_ok env g'"
proof -
  note fields = AppendTransaction_fields [OF assms(3)]
  note ok = assms(1) [unfolded txs_ok_def]
  have id: "stx_ID tx = seq_id ''tx'' (gl_peerID g) (Suc (gl_seq g))" by (simp add: fields(1) next_seq_Suc [OF assms(2)])
  have chain: "tx_chain env (gl_txs g')"
    unfolding fields(2) fields(1) by (rule transactions.append_mk) (use ok in simp)
  obtain ns where ns: "map stx_ID (gl_txs g) = map (seq_id ''tx'' (gl_peerID g)) ns" "sorted_wrt (<) ns" "\<forall>i \<in> set ns. i \<le> gl_seq g"
    using ok by (auto simp: tx_ids_ok_def)
  have ids: "tx_ids_ok (gl_peerID g') (gl_seq g') (gl_txs g')"
    unfolding tx_ids_ok_def
    by (rule exI [of _ "ns @ [Suc (gl_seq g)]"]) (use ns fields id next_seq_Suc [OF assms(2)] in \<open>auto simp: sorted_wrt_append less_Suc_eq_le\<close>)
  have new: "map_of (map (\<lambda>tx. (stx_ID tx, tx)) (gl_txs g)) (stx_ID tx) = None"
  proof -
    have "stx_ID tx \<notin> set (map stx_ID (gl_txs g))" unfolding ns(1) id using ns(3) by auto
    then show ?thesis by (simp add: map_of_eq_None_iff image_image)
  qed
  have idx: "index_ok g'"
    using ok new by (auto simp: index_ok_def fields map_add_def split: option.split)
  have "gget0 0 (gl_dailyContrib g') (k, d) = i64 (contributed_on k d (gl_txs g'))" for k d
    using ok unfolding fields(2) contributed_on_snoc fields(4) daily_ok_def
    by (auto simp: add_daily_def fields(1) i64_add_i64 dailyKey_def)
  with chain ids idx show ?thesis by (simp add: txs_ok_def daily_ok_def)
qed

lemma AppendTransaction_ok:
  assumes "ledger_ok env g" and "gl_seq g < 18446744073709551615"
  shows "ledger_ok env (snd (AppendTransaction env now ty n a mo rq g))"
    and "gl_seq (snd (AppendTransaction env now ty n a mo rq g)) \<le> Suc (gl_seq g)"
proof -
  obtain tx g' where run: "AppendTransaction env now ty n a mo rq g = (tx, g')" by force
  note fields = AppendTransaction_fields [OF run]
  have "dirty_ok g'" using assms(1) by (auto simp: ledger_ok_def dirty_ok_def key_live_def fields)
  then show "ledger_ok env (snd (AppendTransaction env now ty n a mo rq g))"
    using assms(1) AppendTransaction_txs_ok [OF _ assms(2) run]
    by (simp add: run ledger_ok_def maps_ok_def cache_ok_def fields)
  show "gl_seq (snd (AppendTransaction env now ty n a mo rq g)) \<le> Suc (gl_seq g)"
    using next_seq_Suc [OF assms(2)] by (simp add: run fields)
qed

section \<open>Runs\<close>

datatype ledger_op =
    OpContribution io_env nat int "ContributionRecord option"
  | OpTrust int "TrustRecord option"
  | OpClaim int "CapabilityClaim option"
  | OpPenalty int "PenaltyRecord option"
  | OpSync "ContributionRecord option list" "TrustRecord option list" "CapabilityClaim option list" "PenaltyRecord option list"
  | OpTx int string string int string string
  | OpCleanup "nat \<Rightarrow> nat" nat

fun ledger_step :: "ledger_env \<Rightarrow> ledger_op \<Rightarrow> GossipLedger \<Rightarrow> GossipLedger" where
  "ledger_step env (OpContribution io pick now reco) g =
     (case reco of None \<Rightarrow> g | Some rec \<Rightarrow> (case record_contribution env now rec g of (rec', g1) \<Rightarrow> attach_proof env pick rec' g1))"
| "ledger_step env (OpTrust now r) g = snd (RecordTrust now r g)"
| "ledger_step env (OpClaim now r) g = snd (RecordClaim now r g)"
| "ledger_step env (OpPenalty now r) g = snd (RecordPenalty env now r g)"
| "ledger_step env (OpSync cs ts cls ps) g = snd (GossipSync cs ts cls ps g)"
| "ledger_step env (OpTx now ty n a mo rq) g = snd (AppendTransaction env now ty n a mo rq g)"
| "ledger_step env (OpCleanup pick mx) g = g\<lparr>gl_localCache := content_cleanup pick 0 mx (gl_localCache g)\<rparr>"

text \<open>A node runs the same operations; recording a contribution also feeds the replication queue and the entitlements.\<close>

definition node_step :: "ledger_env \<Rightarrow> ledger_op \<Rightarrow> ledger_node \<Rightarrow> ledger_node" where
  "node_step env op n =
     (case op of OpContribution io pick now reco \<Rightarrow> snd (RecordContribution env io pick now reco n)
      | _ \<Rightarrow> n\<lparr>ln_ledger := ledger_step env op (ln_ledger n)\<rparr>)"

lemma node_step_ledger [simp]: "ln_ledger (node_step env op n) = ledger_step env op (ln_ledger n)"
  by (cases op) (auto simp: node_step_def RecordContribution_def Let_def split: option.split prod.split)

lemma ledger_step_ok:
  assumes "ledger_ok env g" and "gl_seq g < 18446744073709551615"
  shows "ledger_ok env (ledger_step env op g) \<and> gl_seq (ledger_step env op g) \<le> Suc (gl_seq g)"
proof (cases op)
  case (OpContribution io pick now reco)
  show ?thesis
  proof (cases reco)
    case (Some rec)
    obtain rec' g1 where r: "record_contribution env now rec g = (rec', g1)" by force
    note ok = record_contribution_ok [OF assms r]
    show ?thesis using attach_proof_ok [OF ok(1,3), of pick] ok(2) by (simp add: OpContribution Some r)
  qed (use assms OpContribution in simp)
next
  case (OpCleanup pick mx)
  have "ledger_ok env (ledger_step env op g)"
    by (rule ledger_ok_upd [OF assms(1)])
      (use assms content_cleanup_ok(2,3) [where k = 0 and m = "gl_localCache g"] in
        \<open>auto simp: OpCleanup ledger_ok_def maps_ok_def cache_ok_def dirty_ok_def key_live_def intro: le_trans\<close>)
  then show ?thesis by (simp add: OpCleanup)
qed (use assms RecordTrust_ok RecordClaim_ok RecordPenalty_ok GossipSync_ok AppendTransaction_ok in simp_all)

lemma ledger_run_ok:
  "ledger_ok env g \<Longrightarrow> gl_seq g + length ops < 18446744073709551616 \<Longrightarrow> ledger_ok env (fold (ledger_step env) ops g)"
proof (induction ops arbitrary: g)
  case (Cons op ops)
  have "ledger_ok env (ledger_step env op g) \<and> gl_seq (ledger_step env op g) \<le> Suc (gl_seq g)"
    by (rule ledger_step_ok) (use Cons.prems in simp_all)
  with Cons show ?case by simp
qed simp

lemma node_run_ledger: "ln_ledger (fold (node_step env) ops n) = fold (ledger_step env) ops (ln_ledger n)"
  by (induction ops arbitrary: n) simp_all

text \<open>Transactions are only added, at the end.\<close>

lemma nextID_txs [simp]: "gl_txs (snd (nextID kind g)) = gl_txs g"
  by (simp add: nextID_def Let_def)

lemma record_txs [simp]:
  "gl_txs (snd (record_contribution env now rec g)) = gl_txs g" "gl_txs (attach_proof env pick rec g) = gl_txs g"
  "gl_txs (snd (RecordTrust now r g)) = gl_txs g" "gl_txs (snd (RecordClaim now c g)) = gl_txs g"
  "gl_txs (snd (RecordPenalty env now p g)) = gl_txs g" "gl_txs (snd (GossipSync cs ts cls ps g)) = gl_txs g"
proof -
  note [simp] = case_prod_unfold Let_def
  show "gl_txs (snd (record_contribution env now rec g)) = gl_txs g" by (simp add: record_contribution_def)
  show "gl_txs (attach_proof env pick rec g) = gl_txs g" by (simp add: attach_proof_def split: option.split prod.split)
  show "gl_txs (snd (RecordTrust now r g)) = gl_txs g" by (simp add: RecordTrust_def split: option.split)
  show "gl_txs (snd (RecordClaim now c g)) = gl_txs g" by (simp add: RecordClaim_def split: option.split)
  show "gl_txs (snd (RecordPenalty env now p g)) = gl_txs g" by (simp add: RecordPenalty_def split: option.split)
  show "gl_txs (snd (GossipSync cs ts cls ps g)) = gl_txs g" by (simp add: GossipSync_def)
qed

lemma ledger_step_txs: "\<exists>new. gl_txs (ledger_step env op g) = gl_txs g @ new"
proof (cases op)
  case (OpTx now ty n a mo rq)
  then show ?thesis using AppendTransaction_fields(2) [OF prod.collapse [symmetric]] by simp
qed (simp_all add: case_prod_unfold split: option.split)

lemma ledger_run_txs: "\<exists>new. gl_txs (fold (ledger_step env) ops g) = gl_txs g @ new"
proof (induction ops arbitrary: g)
  case (Cons op ops)
  from ledger_step_txs [of env op g] Cons.IH [of "ledger_step env op g"] show ?case by auto
qed simp

lemma tx_ids_distinct: "tx_ids_ok peer n txs \<Longrightarrow> distinct (map stx_ID txs)"
  unfolding tx_ids_ok_def by (metis distinct_map inj_onI seq_id_inj strict_sorted_iff)

section \<open>What the ledger guarantees\<close>

text \<open>
  (C14) The ledger of a node. From any well-formed ledger (an empty one is) and through any operations, as long as the
  64-bit counter does not wrap: the transactions form a verifying hash chain with pairwise different identifiers, to
  which new ones are only appended; the daily counter that share limits are checked against is, for every node and
  day, what a scan of all transactions gives; every key waiting to be written has its record in memory; and the
  content store stays within its 1024 entries.
\<close>

theorem contribution_ledger_invariant:
  assumes "ledger_ok env (ln_ledger n)" and "gl_seq (ln_ledger n) + length ops < 18446744073709551616"
  shows "let g = ln_ledger (fold (node_step env) ops n) in
    chainValid env g \<and> distinct (map stx_ID (gl_txs g)) \<and> (\<exists>new. gl_txs g = gl_txs (ln_ledger n) @ new) \<and>
    (\<forall>nodeID day. GetDailyContributions nodeID day g = i64 (contributed_on nodeID (day_number day) (gl_txs g))) \<and>
    (\<forall>k \<in> set (gl_dirty g). key_live g k) \<and> length (gl_localCache g) \<le> 1024"
proof -
  have "ledger_ok env (ln_ledger (fold (node_step env) ops n))"
    unfolding node_run_ledger by (rule ledger_run_ok [OF assms])
  moreover have "\<exists>new. gl_txs (ln_ledger (fold (node_step env) ops n)) = gl_txs (ln_ledger n) @ new"
    unfolding node_run_ledger by (rule ledger_run_txs)
  ultimately show ?thesis
    using chain_valid tx_ids_distinct
    unfolding Let_def ledger_ok_def txs_ok_def daily_ok_def dirty_ok_def cache_ok_def GetDailyContributions_def dailyKey_def contentHashCacheMax_def
    by blast
qed

lemma ledger_ok_new: "NewGossipLedger keys p = Some g \<Longrightarrow> ledger_ok env g"
  by (auto simp: NewGossipLedger_def ledger_ok_def maps_ok_def rows_keyed_def txs_ok_def tx_ids_ok_def index_ok_def
      daily_ok_def contributed_on_def dirty_ok_def cache_ok_def gget0_def contentHashCacheMax_def)

definition plain_env :: ledger_env where
  "plain_env = \<lparr>le_H = (\<lambda>s. take 64 (rev s @ replicate 64 CHR ''0'')), le_sign = (\<lambda>k s. k @ s), le_json_contribution = (\<lambda>r. Some (cnr_ID r)),
     le_json_penalty = (\<lambda>r. Some (pen_ID r)), le_json_tx = (\<lambda>r. Some (stx_ID r))\<rparr>"

definition sample_node :: ledger_node where
  "sample_node = \<lparr>ln_ledger = the (NewGossipLedger (Some (''pub'', ''priv'')) ''me''), ln_jobs = Some [], ln_tracker = None\<rparr>"

definition sample_ops :: "ledger_op list" where
  "sample_ops = [OpTx 0 ''contribution'' ''a'' 5 ''m'' ''r1'', OpTx 1 ''contribution'' ''a'' 7 ''m'' ''r2'']"

theorem contribution_ledger_invariant_witness:
  "gl_seq (ln_ledger sample_node) + length sample_ops < 18446744073709551616 \<and>
   chainValid plain_env (ln_ledger (fold (node_step plain_env) sample_ops sample_node)) \<and>
   GetDailyContributions ''a'' 9 (ln_ledger (fold (node_step plain_env) sample_ops sample_node)) = 12"
proof -
  have ok: "ledger_ok plain_env (ln_ledger sample_node)" by (rule ledger_ok_new) (simp add: sample_node_def NewGossipLedger_def)
  have len: "gl_seq (ln_ledger sample_node) + length sample_ops < 18446744073709551616"
    by (simp add: sample_node_def sample_ops_def NewGossipLedger_def)
  have "contributed_on ''a'' 0 (gl_txs (ln_ledger (fold (node_step plain_env) sample_ops sample_node))) = 12"
    by (simp add: sample_node_def sample_ops_def NewGossipLedger_def node_step_def AppendTransaction_def Let_def contributed_on_def
        dailyKey_def day_number_def ns_day_def ns_hour_def)
  then show ?thesis using contribution_ledger_invariant [OF ok len] len
    by (simp add: Let_def day_number_def ns_day_def ns_hour_def i64_def)
qed

subsection \<open>Tampering\<close>

lemma payload_suffix:
  assumes "tx_payload x = tx_payload y" and "length (stx_PrevHash x) = length (stx_PrevHash y)"
  shows "stx_PrevHash x = stx_PrevHash y"
proof -
  define front where "front z = stx_ID z @ ''|'' @ stx_Type z @ ''|'' @ stx_NodeID z @ ''|'' @ itoa (stx_Amount z) @ ''|'' @
     stx_ModelID z @ ''|'' @ stx_RequestID z @ ''|''" for z :: SignedTransaction
  have "tx_payload z = front z @ stx_PrevHash z" for z by (simp add: tx_payload_def front_def)
  with assms append_eq_append_conv [of "front x" "front y" "stx_PrevHash x" "stx_PrevHash y"] show ?thesis by simp
qed

text \<open>Two ends with one hash have one text, or there is a collision.\<close>

definition collision :: "ledger_env \<Rightarrow> SignedTransaction list \<Rightarrow> SignedTransaction list \<Rightarrow> bool" where
  "collision env xs ys \<longleftrightarrow> (\<exists>x \<in> set xs. \<exists>y \<in> set ys. tx_payload x \<noteq> tx_payload y \<and> le_H env (tx_payload x) = le_H env (tx_payload y))"

lemma chain_loop_snoc:
  "chain_loop env None (xs @ [x]) \<longleftrightarrow>
     chain_loop env None xs \<and> (xs \<noteq> [] \<longrightarrow> stx_PrevHash x = stx_Hash (last xs)) \<and> stx_Hash x = tx_hash env x"
proof (cases xs)
  case (Cons a as)
  then show ?thesis by (auto simp: chain_loop_iff chain_from_append chain_head_last)
qed auto

lemma chains_agree:
  assumes "chain_loop env None xs" "chain_loop env None ys" "length xs = length ys" "xs \<noteq> []"
    and "stx_Hash (last xs) = stx_Hash (last ys)" and "\<And>s. length (le_H env s) = 64"
  shows "map tx_payload xs = map tx_payload ys \<or> collision env xs ys"
  using assms(1-5)
proof (induction xs arbitrary: ys rule: rev_induct)
  case (snoc x xs)
  from snoc.prems(3) obtain ys' y where ys: "ys = ys' @ [y]" "length ys' = length xs" by (cases ys rule: rev_cases) auto
  note cx = snoc.prems(1) [unfolded chain_loop_snoc] and cy = snoc.prems(2) [unfolded ys(1) chain_loop_snoc]
  have same: "le_H env (tx_payload x) = le_H env (tx_payload y)" using cx cy snoc.prems(5) by (simp add: ys tx_hash_def)
  show ?case
  proof (cases "tx_payload x = tx_payload y")
    case False
    with same show ?thesis by (auto simp: collision_def ys)
  next
    case eq: True
    show ?thesis
    proof (cases "xs = []")
      case False
      have hash: "stx_Hash (last zs) = tx_hash env (last zs)" if "chain_loop env None zs" "zs \<noteq> []" for zs
        using that chain_loop_snoc [of env "butlast zs" "last zs"] by simp
      have "ys' \<noteq> []" using False ys(2) by auto
      then have "length (stx_PrevHash x) = 64" "length (stx_PrevHash y) = 64"
        using cx cy False ys(2) hash assms(6) by (auto simp: tx_hash_def)
      with payload_suffix [OF eq] have "stx_Hash (last xs) = stx_Hash (last ys')" using cx cy False ys(2) by auto
      from snoc.IH [of ys'] this cx cy False ys(2) show ?thesis by (auto simp: eq ys(1) collision_def)
    qed (use eq ys in simp)
  qed
qed simp

text \<open>
  (C22) Tamper evidence. If two verifying transaction logs of the same length end in the same hash, then the hashed text
  of every transaction is the same in both, or the two logs contain a collision of the hash function.
\<close>

theorem ledger_tamper_evident:
  assumes "chainValid env g" and "chainValid env g'" and "length (gl_txs g) = length (gl_txs g')" and "gl_txs g \<noteq> []"
    and "stx_Hash (last (gl_txs g)) = stx_Hash (last (gl_txs g'))" and "\<And>s. length (le_H env s) = 64"
  shows "map tx_payload (gl_txs g) = map tx_payload (gl_txs g') \<or> collision env (gl_txs g) (gl_txs g')"
  using chains_agree assms unfolding chainValid_def by blast

theorem ledger_tamper_evident_witness:
  "let g = ln_ledger (fold (node_step plain_env) sample_ops sample_node) in
    map tx_payload (gl_txs g) = map tx_payload (gl_txs g) \<or> collision plain_env (gl_txs g) (gl_txs g)"
proof -
  let ?g = "ln_ledger (fold (node_step plain_env) sample_ops sample_node)"
  have "ledger_ok plain_env (ln_ledger sample_node)" by (rule ledger_ok_new) (simp add: sample_node_def NewGossipLedger_def)
  then have "ledger_ok plain_env ?g" unfolding node_run_ledger
    by (rule ledger_run_ok) (simp add: sample_node_def sample_ops_def NewGossipLedger_def)
  then have v: "chainValid plain_env ?g" by (simp add: ledger_ok_def txs_ok_def chain_valid)
  have ne: "gl_txs ?g \<noteq> []"
    by (simp add: sample_node_def sample_ops_def NewGossipLedger_def node_step_def AppendTransaction_def Let_def)
  show ?thesis unfolding Let_def using ledger_tamper_evident [OF v v refl ne refl] by (simp add: plain_env_def)
qed

text \<open>
  The hashed text joins the fields with a bar that the fields may contain themselves: transactions that differ in the
  model and the request have one hash.
\<close>

lemma payload_ambiguous:
  "tx_payload (tx\<lparr>stx_ModelID := ''x|y'', stx_RequestID := ''z''\<rparr>) = tx_payload (tx\<lparr>stx_ModelID := ''x'', stx_RequestID := ''y|z''\<rparr>)"
  by (simp add: tx_payload_def)

subsection \<open>Contributions and entitlements\<close>

text \<open>The tokens that an operation credits to a peer: those of a contribution that names it, or names nobody on this node.\<close>

fun donated :: "string \<Rightarrow> string \<Rightarrow> ledger_op \<Rightarrow> int" where
  "donated self p (OpContribution io pick now (Some rec)) =
     (if (if cnr_PeerID rec = [] then self else cnr_PeerID rec) = p \<and> cnr_Tokens rec > 0 then cnr_Tokens rec else 0)"
| "donated self p op = 0"

lemma donated_nonneg: "0 \<le> donated self p op"
  by (cases "(self, p, op)" rule: donated.cases) auto

lemma donations_nonneg: "0 \<le> sum_list (map (donated self p) ops)"
  by (induction ops) (simp_all add: donated_nonneg)

lemma nextID_peerID [simp]: "gl_peerID (snd (nextID kind g)) = gl_peerID g"
  by (simp add: nextID_def Let_def)

lemma ledger_step_peerID [simp]: "gl_peerID (ledger_step env op g) = gl_peerID g"
proof (cases op)
  case (OpContribution io pick now reco)
  note [simp] = case_prod_unfold Let_def
  have "gl_peerID (attach_proof env pick rec g') = gl_peerID g'" for rec g' by (simp add: attach_proof_def split: option.split prod.split)
  moreover have "gl_peerID (snd (record_contribution env now rec g)) = gl_peerID g" for rec by (simp add: record_contribution_def)
  ultimately show ?thesis using OpContribution by (simp split: option.split)
qed (simp_all add: RecordTrust_def RecordClaim_def RecordPenalty_def GossipSync_def AppendTransaction_def Let_def case_prod_unfold split: option.split)

lemma record_contribution_payload [simp]:
  "cnr_Tokens (fst (record_contribution env now rec g)) = cnr_Tokens rec"
  "cnr_PeerID (fst (record_contribution env now rec g)) = (if cnr_PeerID rec = [] then gl_peerID g else cnr_PeerID rec)"
  by (simp_all add: record_contribution_def Let_def case_prod_unfold split: option.split)

lemma RecordContribution_tracker:
  "ln_tracker (snd (RecordContribution env io pick now (Some rec) n)) =
     (if cnr_Tokens rec > 0
      then map_option (Accrue io now (if cnr_PeerID rec = [] then gl_peerID (ln_ledger n) else cnr_PeerID rec) (cnr_Tokens rec)) (ln_tracker n)
      else ln_tracker n)"
  by (simp add: RecordContribution_def Let_def case_prod_unfold)

lemma node_step_tracker:
  assumes "ln_tracker n = Some t" and "tracker_ok t" and "gl_peerID (ln_ledger n) \<noteq> []"
    and "\<And>p. contributed_of t p + donated (gl_peerID (ln_ledger n)) p op < 2 ^ 63"
  shows "\<exists>t'. ln_tracker (node_step env op n) = Some t' \<and> tracker_ok t' \<and>
    (\<forall>p. contributed_of t' p = contributed_of t p + donated (gl_peerID (ln_ledger n)) p op \<and> consumed_of t' p = consumed_of t p)"
proof (cases "\<exists>io pick now rec. op = OpContribution io pick now (Some rec) \<and> cnr_Tokens rec > 0")
  case True
  then obtain io pick now rec where op: "op = OpContribution io pick now (Some rec)" and pos: "cnr_Tokens rec > 0" by blast
  define p where "p = (if cnr_PeerID rec = [] then gl_peerID (ln_ledger n) else cnr_PeerID rec)"
  let ?t = "Accrue io now p (cnr_Tokens rec) t"
  have don: "donated (gl_peerID (ln_ledger n)) q op = (if q = p then cnr_Tokens rec else 0)" for q
    using pos by (auto simp: op p_def)
  have bound: "contributed_of t p + cnr_Tokens rec < 2 ^ 63" using assms(4) [of p] by (simp add: don)
  have "p \<noteq> []" using assms(3) by (simp add: p_def)
  then have "abs_ledger ?t = (abs_ledger t)(p := (contributed_of t p + cnr_Tokens rec, consumed_of t p))"
    using Accrue_refines [OF assms(2) bound, of io now] pos by (simp add: spec_donate_def abs_ledger_def)
  then have "abs_ledger ?t q = (contributed_of t q + donated (gl_peerID (ln_ledger n)) q op, consumed_of t q)" for q
    by (simp add: don abs_ledger_def)
  then have "contributed_of ?t q = contributed_of t q + donated (gl_peerID (ln_ledger n)) q op \<and> consumed_of ?t q = consumed_of t q" for q
    by (simp add: abs_ledger_def)
  moreover have "ln_tracker (node_step env op n) = Some ?t"
    using pos assms(1) by (simp add: op p_def node_step_def RecordContribution_tracker)
  ultimately show ?thesis using Accrue_ok [OF assms(2) bound, of io now] by auto
next
  case False
  have "ln_tracker (node_step env op n) = Some t"
  proof (cases op)
    case (OpContribution io pick now reco)
    then show ?thesis using assms(1) False
      by (cases reco) (simp_all add: node_step_def RecordContribution_tracker, simp add: RecordContribution_def)
  qed (use assms(1) in \<open>simp_all add: node_step_def\<close>)
  moreover have "donated self p op = 0" for self p using False by (cases "(self, p, op)" rule: donated.cases) auto
  ultimately show ?thesis using assms(2) by simp
qed

text \<open>
  (C20) Contributions earn entitlements one to one. On a node with an entitlement tracker, any run of ledger operations
  raises the contributed total of every peer by exactly the positive token counts of the contributions recorded here
  in its name (those that name nobody count for the node itself), provided the totals stay below \<open>2 ^ 63\<close>;
  what was consumed, transactions, trust records, penalties and records merged from other nodes do not change it.
\<close>

theorem contributions_earn_entitlement:
  assumes "ln_tracker n = Some t" and "tracker_ok t" and "gl_peerID (ln_ledger n) \<noteq> []"
    and "\<And>p. contributed_of t p + sum_list (map (donated (gl_peerID (ln_ledger n)) p) ops) < 2 ^ 63"
  shows "\<exists>t'. ln_tracker (fold (node_step env) ops n) = Some t' \<and> tracker_ok t' \<and>
    (\<forall>p. contributed_of t' p = contributed_of t p + sum_list (map (donated (gl_peerID (ln_ledger n)) p) ops) \<and>
      consumed_of t' p = consumed_of t p)"
  using assms
proof (induction ops arbitrary: n t)
  case (Cons op ops)
  have first: "contributed_of t p + donated (gl_peerID (ln_ledger n)) p op < 2 ^ 63" for p
    using Cons.prems(4) [of p] donations_nonneg [of "gl_peerID (ln_ledger n)" p ops] by simp
  obtain t1 where t1: "ln_tracker (node_step env op n) = Some t1" "tracker_ok t1"
    "\<And>p. contributed_of t1 p = contributed_of t p + donated (gl_peerID (ln_ledger n)) p op \<and> consumed_of t1 p = consumed_of t p"
    using node_step_tracker [OF Cons.prems(1-3) first] by blast
  have "contributed_of t1 p + sum_list (map (donated (gl_peerID (ln_ledger (node_step env op n))) p) ops) < 2 ^ 63" for p
    using Cons.prems(4) [of p] t1(3) by (simp add: algebra_simps)
  from Cons.IH [OF t1(1,2) _ this] Cons.prems(3) t1(3) show ?case by (auto simp: algebra_simps)
qed simp

definition sample_contribution :: ContributionRecord where
  "sample_contribution = \<lparr>cnr_ID = [], cnr_PeerID = ''donor'', cnr_PeerPublicKey = [], cnr_ModelID = ''m'', cnr_Provider = [], cnr_Tokens = 40,
     cnr_ValueUSD = 0, cnr_Timestamp = zero_time, cnr_Signature = [], cnr_Proof = \<lparr>sp_ContentHash = [], sp_StorageLocation = [], sp_Verified = False\<rparr>\<rparr>"

definition empty_tracker :: ContributionQuotaTracker where
  "empty_tracker = \<lparr>cqt_dataDir = [], cqt_entries = [], cqt_bbolt = False, cqt_disk = \<lparr>ds_json = Absent, ds_bak = False, ds_migrated = False\<rparr>, cqt_bucket = []\<rparr>"

theorem contributions_earn_entitlement_witness:
  "\<exists>t'. ln_tracker (fold (node_step plain_env) [OpContribution (io_fine False) 0 5 (Some sample_contribution),
       OpContribution (io_fine False) 0 6 (Some sample_contribution)] (sample_node\<lparr>ln_tracker := Some empty_tracker\<rparr>)) = Some t' \<and>
     contributed_of t' ''donor'' = 80"
proof -
  let ?n = "sample_node\<lparr>ln_tracker := Some empty_tracker\<rparr>"
  let ?ops = "[OpContribution (io_fine False) 0 5 (Some sample_contribution), OpContribution (io_fine False) 0 6 (Some sample_contribution)]"
  have t: "ln_tracker ?n = Some empty_tracker" "tracker_ok empty_tracker" "gl_peerID (ln_ledger ?n) \<noteq> []"
    by (simp_all add: empty_tracker_def tracker_ok_def sample_node_def NewGossipLedger_def)
  have sum: "contributed_of empty_tracker p + sum_list (map (donated (gl_peerID (ln_ledger ?n)) p) ?ops) = (if p = ''donor'' then 80 else 0)" for p
    by (simp add: empty_tracker_def contributed_of_def sample_contribution_def)
  have "contributed_of empty_tracker p + sum_list (map (donated (gl_peerID (ln_ledger ?n)) p) ?ops) < 2 ^ 63" for p
    unfolding sum by simp
  from contributions_earn_entitlement [OF t this, where env = plain_env] show ?thesis unfolding sum by (metis (full_types))
qed

subsection \<open>Merging is safe to repeat\<close>

lemma sync_rows_again:
  assumes "\<And>r. Some r \<in> set rs \<Longrightarrow> id_of r \<noteq> [] \<Longrightarrow> gget m (id_of r) \<noteq> None"
  shows "sync_rows id_of kind rs m dirty = (0, m, dirty)"
  using assms
proof (induction rs)
  case (Cons ro rs)
  have "\<not> syncable id_of ro m" using Cons.prems by (cases ro) (simp_all add: syncable_def, blast)
  with Cons show ?case by (simp add: sync_rows_Cons)
qed simp

text \<open>
  Merging. Whatever records another node sends, a merge never changes or removes a record that the ledger has,
  takes over every record with a new identifier and nothing else, and reports how many it took; the same
  records sent again change nothing. Transactions, their chain and the entitlements are not touched.
\<close>

theorem gossip_merge:
  assumes "maps_ok g" and "GossipSync cs ts cls ps g = (k, g')"
  shows "(\<forall>i r. gget (gl_recs g) i = Some r \<longrightarrow> gget (gl_recs g') i = Some r) \<and>
    (\<forall>i r. gget (gl_recs g') i = Some r \<longrightarrow> gget (gl_recs g) i = Some r \<or> Some r \<in> set cs \<and> i = cnr_ID r \<and> i \<noteq> []) \<and>
    (\<forall>r. Some r \<in> set cs \<and> cnr_ID r \<noteq> [] \<longrightarrow> gget (gl_recs g') (cnr_ID r) \<noteq> None) \<and>
    ledger_Count g' = ledger_Count g + k \<and> maps_ok g' \<and> gl_txs g' = gl_txs g \<and>
    GossipSync cs ts cls ps g' = (0, g')"
proof -
  from assms(2) obtain k1 k2 k3 k4 d1 d2 d3 where
    m: "merge_spec cnr_ID bboltLedgerContribPrefix cs (gl_recs g) (gl_dirty g) k1 (gl_recs g') d1"
      "merge_spec tru_ID bboltLedgerTrustPrefix ts (gl_trusts g) d1 k2 (gl_trusts g') d2"
      "merge_spec cla_ID bboltLedgerClaimPrefix cls (gl_claims g) d2 k3 (gl_claims g') d3"
      "merge_spec pen_ID bboltLedgerPenaltyPrefix ps (gl_penalties g) d3 k4 (gl_penalties g') (gl_dirty g')"
    and k: "k = k1 + k2 + k3 + k4"
    by (rule GossipSync_parts)
  have "gmap_ok (gl_recs g)" "gmap_ok (gl_trusts g)" "gmap_ok (gl_claims g)" "gmap_ok (gl_penalties g)"
    using assms(1) by (simp_all add: maps_ok_def rows_keyed_def)
  then have count: "ledger_Count g' = ledger_Count g + k"
    using m [THEN merge_specD(7)] by (simp add: ledger_Count_def k)
  have again: "GossipSync cs ts cls ps g' = (0, g')"
    using sync_rows_again [OF merge_specD(3) [OF m(1)]] sync_rows_again [OF merge_specD(3) [OF m(2)]]
      sync_rows_again [OF merge_specD(3) [OF m(3)]] sync_rows_again [OF merge_specD(3) [OF m(4)]]
    by (simp add: GossipSync_def)
  have "maps_ok g'" using assms(1) m [THEN merge_rows_keyed] by (simp add: maps_ok_def)
  moreover have "gl_txs g' = gl_txs g" using record_txs(6) [of cs ts cls ps g] assms(2) by simp
  ultimately show ?thesis using count again merge_specD(1,2,3) [OF m(1)] by blast
qed

theorem gossip_merge_witness:
  "let r = sample_contribution\<lparr>cnr_ID := ''c1''\<rparr>; g = ln_ledger sample_node; g' = snd (GossipSync [Some r, None, Some r] [] [] [] g)
   in gget (gl_recs g') ''c1'' \<noteq> None \<and> ledger_Count g' = 1"
proof -
  let ?r = "sample_contribution\<lparr>cnr_ID := ''c1''\<rparr>"
  have ok: "maps_ok (ln_ledger sample_node)" by (simp add: sample_node_def NewGossipLedger_def maps_ok_def rows_keyed_def)
  obtain k g' where run: "GossipSync [Some ?r, None, Some ?r] [] [] [] (ln_ledger sample_node) = (k, g')" by force
  then have "k = 1" by (auto simp: GossipSync_def sample_contribution_def sample_node_def NewGossipLedger_def)
  moreover have "ledger_Count (ln_ledger sample_node) = 0" by (simp add: sample_node_def NewGossipLedger_def ledger_Count_def)
  ultimately show ?thesis using gossip_merge [OF ok run] by (simp add: run Let_def)
qed

end
