(* ===== verification/Ledger_Storage.thy ===== *)
theory Ledger_Storage
  imports Contribution_Ledger Storage_Model "HOL-Library.Multiset"
begin

text \<open>
  How the contribution ledger is kept on disk: the JSON file, the keys of the embedded store, the migration between
  them (\<open>src/contribution_ledger.go\<close>, second half) and the start-up and save of the process
  (\<open>src/contribution_ledger_init.go\<close>).

  The bucket is a map from key to encoded value; its cursor visits the keys in byte order. A value is what was
  encoded, or \<open>VCorrupt\<close> for bytes that do not decode. The debounce timer of the saves is not modelled: a save is one
  step that happens at any time. The JSON file has the maps and lists that \<open>Save\<close> writes, never null.
\<close>

section \<open>The JSON file\<close>

record gossipLedgerData =
  gd_PeerID :: string
  gd_Recs :: "(string, ContributionRecord) gomap"
  gd_Trusts :: "(string, TrustRecord) gomap"
  gd_Claims :: "(string, CapabilityClaim) gomap"
  gd_Penalties :: "(string, PenaltyRecord) gomap"
  gd_Txs :: "SignedTransaction list"
  gd_Seq :: nat
  gd_PubKey :: string
  gd_PrivKey :: string

definition ledger_data :: "GossipLedger \<Rightarrow> gossipLedgerData" where
  "ledger_data g = \<lparr>gd_PeerID = gl_peerID g, gd_Recs = gl_recs g, gd_Trusts = gl_trusts g, gd_Claims = gl_claims g,
     gd_Penalties = gl_penalties g, gd_Txs = gl_txs g, gd_Seq = gl_seq g, gd_PubKey = gl_pub g, gd_PrivKey = gl_priv g\<rparr>"

definition ledger_Save :: "io_env \<Rightarrow> GossipLedger \<Rightarrow> gossipLedgerData stored_file \<Rightarrow> gossipLedgerData stored_file" where
  "ledger_Save io g f = atomicWriteFile io (ledger_data g) f"

definition count_tx :: "SignedTransaction \<Rightarrow> (daily_key, int) gomap \<Rightarrow> (daily_key, int) gomap" where
  "count_tx tx daily =
     (if stx_Type tx = ''contribution'' then add_daily (dailyKey (stx_NodeID tx) (stx_Timestamp tx)) (stx_Amount tx) daily else daily)"

definition LoadGossipLedger :: "gossipLedgerData stored_file \<Rightarrow> GossipLedger option" where
  "LoadGossipLedger f =
     (case f of
        Content d \<Rightarrow> Some \<lparr>gl_peerID = gd_PeerID d, gl_localCache = [], gl_recs = gd_Recs d, gl_trusts = gd_Trusts d,
          gl_claims = gd_Claims d, gl_penalties = gd_Penalties d, gl_txs = gd_Txs d,
          gl_txIndex = fold (\<lambda>tx. gput (stx_ID tx) tx) (gd_Txs d) [], gl_dailyContrib = fold count_tx (gd_Txs d) [],
          gl_seq = gd_Seq d, gl_pub = gd_PubKey d, gl_priv = gd_PrivKey d, gl_dirty = []\<rparr>
      | _ \<Rightarrow> None)"

section \<open>The bucket\<close>

record ledgerIdentity =
  li_PeerID :: string
  li_Seq :: nat
  li_PubKey :: string
  li_PrivKey :: string

datatype ledger_value =
    VIdentity ledgerIdentity
  | VContrib ContributionRecord
  | VTrust TrustRecord
  | VClaim CapabilityClaim
  | VPenalty PenaltyRecord
  | VTx SignedTransaction
  | VCorrupt

type_synonym ledger_bucket = "(string, ledger_value) gomap"

definition HasPrefix :: "string \<Rightarrow> string \<Rightarrow> bool" where
  "HasPrefix s p \<longleftrightarrow> take (length p) s = p"

definition TrimPrefix :: "string \<Rightarrow> string \<Rightarrow> string" where
  "TrimPrefix s p = (if HasPrefix s p then drop (length p) s else s)"

text \<open>\<open>None\<close> is the error that the key has nothing in memory.\<close>

definition marshalLedgerKeyLocked :: "GossipLedger \<Rightarrow> string \<Rightarrow> ledger_value option" where
  "marshalLedgerKeyLocked g key =
     (if key = bboltLedgerIdentityKey
      then Some (VIdentity \<lparr>li_PeerID = gl_peerID g, li_Seq = gl_seq g, li_PubKey = gl_pub g, li_PrivKey = gl_priv g\<rparr>)
      else if HasPrefix key bboltLedgerContribPrefix then map_option VContrib (gget (gl_recs g) (TrimPrefix key bboltLedgerContribPrefix))
      else if HasPrefix key bboltLedgerTrustPrefix then map_option VTrust (gget (gl_trusts g) (TrimPrefix key bboltLedgerTrustPrefix))
      else if HasPrefix key bboltLedgerClaimPrefix then map_option VClaim (gget (gl_claims g) (TrimPrefix key bboltLedgerClaimPrefix))
      else if HasPrefix key bboltLedgerPenaltyPrefix then map_option VPenalty (gget (gl_penalties g) (TrimPrefix key bboltLedgerPenaltyPrefix))
      else if HasPrefix key bboltLedgerTxPrefix then map_option VTx (gget (gl_txIndex g) (TrimPrefix key bboltLedgerTxPrefix))
      else None)"

fun serializeKeysLocked :: "GossipLedger \<Rightarrow> string list \<Rightarrow> (string \<times> ledger_value) list option" where
  "serializeKeysLocked g [] = Some []"
| "serializeKeysLocked g (k # ks) =
     (case marshalLedgerKeyLocked g k of
        None \<Rightarrow> None
      | Some v \<Rightarrow> (case serializeKeysLocked g ks of None \<Rightarrow> None | Some puts \<Rightarrow> Some ((k, v) # puts)))"

definition putKVsBbolt :: "io_env \<Rightarrow> (string \<times> ledger_value) list \<Rightarrow> ledger_bucket \<Rightarrow> bool \<times> ledger_bucket" where
  "putKVsBbolt io puts b = (if io_update io then (True, fold (\<lambda>(k, v). gput k v) puts b) else (False, b))"

text \<open>A save of the dirty keys. When it fails, the keys it swapped out are put back.\<close>

definition ledger_saveBbolt :: "io_env \<Rightarrow> GossipLedger \<Rightarrow> ledger_bucket \<Rightarrow> bool \<times> GossipLedger \<times> ledger_bucket" where
  "ledger_saveBbolt io g b =
     (if gl_dirty g = [] then (True, g, b)
      else
        let pending = gl_dirty g; g1 = g\<lparr>gl_dirty := []\<rparr> in
        case serializeKeysLocked g1 pending of
          None \<Rightarrow> (False, g1\<lparr>gl_dirty := fold List.insert pending []\<rparr>, b)
        | Some puts \<Rightarrow>
            (case putKVsBbolt io puts b of
               (True, b') \<Rightarrow> (True, g1, b')
             | (False, b') \<Rightarrow> (False, g1\<lparr>gl_dirty := fold List.insert pending []\<rparr>, b')))"

definition all_keys :: "GossipLedger \<Rightarrow> string list" where
  "all_keys g = bboltLedgerIdentityKey # map (\<lambda>e. bboltLedgerContribPrefix @ fst e) (gl_recs g) @
     map (\<lambda>e. bboltLedgerTrustPrefix @ fst e) (gl_trusts g) @ map (\<lambda>e. bboltLedgerClaimPrefix @ fst e) (gl_claims g) @
     map (\<lambda>e. bboltLedgerPenaltyPrefix @ fst e) (gl_penalties g) @ map (\<lambda>tx. bboltLedgerTxPrefix @ stx_ID tx) (gl_txs g)"

definition writeAllBbolt :: "io_env \<Rightarrow> GossipLedger \<Rightarrow> ledger_bucket \<Rightarrow> bool \<times> ledger_bucket" where
  "writeAllBbolt io g b =
     (case serializeKeysLocked g (all_keys g) of None \<Rightarrow> (False, b) | Some puts \<Rightarrow> putKVsBbolt io puts b)"

text \<open>One round of the cursor loop; \<open>None\<close> is the error of an identity that does not decode.\<close>

definition load_entry :: "string \<times> ledger_value \<Rightarrow> (GossipLedger \<times> ledgerIdentity option) \<Rightarrow> (GossipLedger \<times> ledgerIdentity option) option" where
  "load_entry kv s =
     (case kv of (key, v) \<Rightarrow> case s of (g, ident) \<Rightarrow>
        if key = bboltLedgerIdentityKey then (case v of VIdentity i \<Rightarrow> Some (g, Some i) | _ \<Rightarrow> None)
        else if HasPrefix key bboltLedgerContribPrefix
          then (case v of VContrib r \<Rightarrow> Some (g\<lparr>gl_recs := gput (cnr_ID r) r (gl_recs g)\<rparr>, ident) | _ \<Rightarrow> Some s)
        else if HasPrefix key bboltLedgerTrustPrefix
          then (case v of VTrust r \<Rightarrow> Some (g\<lparr>gl_trusts := gput (tru_ID r) r (gl_trusts g)\<rparr>, ident) | _ \<Rightarrow> Some s)
        else if HasPrefix key bboltLedgerClaimPrefix
          then (case v of VClaim r \<Rightarrow> Some (g\<lparr>gl_claims := gput (cla_ID r) r (gl_claims g)\<rparr>, ident) | _ \<Rightarrow> Some s)
        else if HasPrefix key bboltLedgerPenaltyPrefix
          then (case v of VPenalty r \<Rightarrow> Some (g\<lparr>gl_penalties := gput (pen_ID r) r (gl_penalties g)\<rparr>, ident) | _ \<Rightarrow> Some s)
        else if HasPrefix key bboltLedgerTxPrefix
          then (case v of VTx tx \<Rightarrow> Some (g\<lparr>gl_txs := gl_txs g @ [tx], gl_txIndex := gput (stx_ID tx) tx (gl_txIndex g),
                                            gl_dailyContrib := count_tx tx (gl_dailyContrib g)\<rparr>, ident) | _ \<Rightarrow> Some s)
        else Some s)"

fun load_loop :: "(string \<times> ledger_value) list \<Rightarrow> (GossipLedger \<times> ledgerIdentity option) \<Rightarrow> (GossipLedger \<times> ledgerIdentity option) option" where
  "load_loop [] s = Some s"
| "load_loop (e # es) s = (case load_entry e s of None \<Rightarrow> None | Some s' \<Rightarrow> load_loop es s')"

definition empty_ledger :: GossipLedger where
  "empty_ledger = \<lparr>gl_peerID = [], gl_localCache = [], gl_recs = [], gl_trusts = [], gl_claims = [], gl_penalties = [], gl_txs = [],
     gl_txIndex = [], gl_dailyContrib = [], gl_seq = 0, gl_pub = [], gl_priv = [], gl_dirty = []\<rparr>"

definition loadLedgerBbolt :: "ledger_bucket \<Rightarrow> GossipLedger option" where
  "loadLedgerBbolt b =
     (case load_loop (sort_key fst b) (empty_ledger, None) of
        Some (g, Some i) \<Rightarrow> Some (g\<lparr>gl_peerID := li_PeerID i, gl_seq := li_Seq i, gl_pub := li_PubKey i, gl_priv := li_PrivKey i\<rparr>)
      | _ \<Rightarrow> None)"

section \<open>Start-up and saves of the process\<close>

record ledger_disk =
  lk_store :: "gossipLedgerData domain_store"
  lk_bucket :: ledger_bucket

text \<open>The migration; the key pair is for a new ledger. The result is the ledger, or \<open>None\<close> for an error.\<close>

definition importLedgerToBbolt :: "io_env \<Rightarrow> (string \<times> string) option \<Rightarrow> string \<Rightarrow> ledger_disk \<Rightarrow> GossipLedger option \<times> ledger_disk" where
  "importLedgerToBbolt io keys selfID d =
     (if isMigrated (lk_store d)
      then (case bakJSON io (lk_store d) of
              (False, st) \<Rightarrow> (None, d\<lparr>lk_store := st\<rparr>)
            | (True, st) \<Rightarrow> (loadLedgerBbolt (lk_bucket d), d\<lparr>lk_store := st\<rparr>))
      else
        let go = (case LoadGossipLedger (ds_json (lk_store d)) of Some gl \<Rightarrow> Some gl | None \<Rightarrow> NewGossipLedger keys selfID) in
        case go of
          None \<Rightarrow> (None, d)
        | Some g \<Rightarrow>
            (case writeAllBbolt io g (lk_bucket d) of
               (False, b) \<Rightarrow> (None, d\<lparr>lk_bucket := b\<rparr>)
             | (True, b) \<Rightarrow>
                 (case markMigrated io (lk_store d) of
                    (False, st) \<Rightarrow> (None, d\<lparr>lk_bucket := b, lk_store := st\<rparr>)
                  | (True, st) \<Rightarrow>
                      (case bakJSON io st of
                         (False, st') \<Rightarrow> (None, d\<lparr>lk_bucket := b, lk_store := st'\<rparr>)
                       | (True, st') \<Rightarrow> (Some g, d\<lparr>lk_bucket := b, lk_store := st'\<rparr>)))))"

text \<open>A process: its ledger, whether it uses the bucket, and its disk.\<close>

record ledger_process =
  lp_ledger :: "GossipLedger option"
  lp_bbolt :: bool
  lp_disk :: ledger_disk

definition initContributionLedgerJSON :: "io_env \<Rightarrow> (string \<times> string) option \<Rightarrow> string \<Rightarrow> ledger_disk \<Rightarrow> ledger_process" where
  "initContributionLedgerJSON io keys selfID d =
     (case LoadGossipLedger (ds_json (lk_store d)) of
        Some gl \<Rightarrow> \<lparr>lp_ledger = Some gl, lp_bbolt = False, lp_disk = d\<rparr>
      | None \<Rightarrow>
          let d1 = (if ds_json (lk_store d) = Absent then d else d\<lparr>lk_store := snd (bakJSON io (lk_store d))\<rparr>) in
          (case NewGossipLedger keys selfID of
             None \<Rightarrow> \<lparr>lp_ledger = None, lp_bbolt = False, lp_disk = d1\<rparr>
           | Some gl \<Rightarrow> \<lparr>lp_ledger = Some gl, lp_bbolt = False,
                         lp_disk = d1\<lparr>lk_store := (lk_store d1)\<lparr>ds_json := ledger_Save io gl (ds_json (lk_store d1))\<rparr>\<rparr>\<rparr>))"

definition initContributionLedger :: "io_env \<Rightarrow> (string \<times> string) option \<Rightarrow> string \<Rightarrow> ledger_disk \<Rightarrow> ledger_process" where
  "initContributionLedger io keys selfID d =
     (if io_use_bbolt io \<and> io_open io
      then (case importLedgerToBbolt io keys selfID d of
              (Some gl, d') \<Rightarrow> \<lparr>lp_ledger = Some gl, lp_bbolt = True, lp_disk = d'\<rparr>
            | (None, d') \<Rightarrow> initContributionLedgerJSON io keys selfID d')
      else initContributionLedgerJSON io keys selfID d)"

definition persistContributionLedger :: "io_env \<Rightarrow> ledger_process \<Rightarrow> ledger_process" where
  "persistContributionLedger io p =
     (case lp_ledger p of
        None \<Rightarrow> p
      | Some g \<Rightarrow>
          if lp_bbolt p
          then (case ledger_saveBbolt io g (lk_bucket (lp_disk p)) of
                  (_, g', b) \<Rightarrow> p\<lparr>lp_ledger := Some g', lp_disk := (lp_disk p)\<lparr>lk_bucket := b\<rparr>\<rparr>)
          else p\<lparr>lp_disk := (lp_disk p)\<lparr>lk_store := (lk_store (lp_disk p))\<lparr>ds_json := ledger_Save io g (ds_json (lk_store (lp_disk p)))\<rparr>\<rparr>\<rparr>)"

section \<open>Keys\<close>

lemma HasPrefix_iff: "HasPrefix s p \<longleftrightarrow> (\<exists>i. s = p @ i)"
  by (metis HasPrefix_def append_eq_conv_conj append_take_drop_id)

lemma TrimPrefix_append [simp]: "TrimPrefix (p @ i) p = i"
  by (simp add: TrimPrefix_def HasPrefix_def)

text \<open>Keys of different kinds differ.\<close>

lemma kind_neq [simp]:
  "bboltLedgerContribPrefix @ i \<noteq> bboltLedgerTrustPrefix @ j" "bboltLedgerContribPrefix @ i \<noteq> bboltLedgerClaimPrefix @ j"
  "bboltLedgerContribPrefix @ i \<noteq> bboltLedgerPenaltyPrefix @ j" "bboltLedgerContribPrefix @ i \<noteq> bboltLedgerTxPrefix @ j"
  "bboltLedgerTrustPrefix @ i \<noteq> bboltLedgerContribPrefix @ j" "bboltLedgerTrustPrefix @ i \<noteq> bboltLedgerClaimPrefix @ j"
  "bboltLedgerTrustPrefix @ i \<noteq> bboltLedgerPenaltyPrefix @ j" "bboltLedgerTrustPrefix @ i \<noteq> bboltLedgerTxPrefix @ j"
  "bboltLedgerClaimPrefix @ i \<noteq> bboltLedgerContribPrefix @ j" "bboltLedgerClaimPrefix @ i \<noteq> bboltLedgerTrustPrefix @ j"
  "bboltLedgerClaimPrefix @ i \<noteq> bboltLedgerPenaltyPrefix @ j" "bboltLedgerClaimPrefix @ i \<noteq> bboltLedgerTxPrefix @ j"
  "bboltLedgerPenaltyPrefix @ i \<noteq> bboltLedgerContribPrefix @ j" "bboltLedgerPenaltyPrefix @ i \<noteq> bboltLedgerTrustPrefix @ j"
  "bboltLedgerPenaltyPrefix @ i \<noteq> bboltLedgerClaimPrefix @ j" "bboltLedgerPenaltyPrefix @ i \<noteq> bboltLedgerTxPrefix @ j"
  "bboltLedgerTxPrefix @ i \<noteq> bboltLedgerContribPrefix @ j" "bboltLedgerTxPrefix @ i \<noteq> bboltLedgerTrustPrefix @ j"
  "bboltLedgerTxPrefix @ i \<noteq> bboltLedgerClaimPrefix @ j" "bboltLedgerTxPrefix @ i \<noteq> bboltLedgerPenaltyPrefix @ j"
  "bboltLedgerContribPrefix @ i \<noteq> bboltLedgerIdentityKey" "bboltLedgerTrustPrefix @ i \<noteq> bboltLedgerIdentityKey"
  "bboltLedgerClaimPrefix @ i \<noteq> bboltLedgerIdentityKey" "bboltLedgerPenaltyPrefix @ i \<noteq> bboltLedgerIdentityKey"
  "bboltLedgerTxPrefix @ i \<noteq> bboltLedgerIdentityKey"
  by (simp_all add: ledger_key_defs)

lemmas identity_neq [simp] = kind_neq(21-25) [symmetric]

lemma HasPrefix_self [simp]: "HasPrefix (p @ i) p"
  by (simp add: HasPrefix_def)

lemma HasPrefix_other:
  "(\<And>j. p @ i \<noteq> q @ j) \<Longrightarrow> \<not> HasPrefix (p @ i) q"
  by (auto simp: HasPrefix_iff)

lemmas kind_prefix [simp] = kind_neq(1-20) [THEN HasPrefix_other]

text \<open>The kind of a key.\<close>

datatype key_kind = KIdentity | KContrib string | KTrust string | KClaim string | KPenalty string | KTx string | KOther

definition kind_of :: "string \<Rightarrow> key_kind" where
  "kind_of key =
     (if key = bboltLedgerIdentityKey then KIdentity
      else if HasPrefix key bboltLedgerContribPrefix then KContrib (TrimPrefix key bboltLedgerContribPrefix)
      else if HasPrefix key bboltLedgerTrustPrefix then KTrust (TrimPrefix key bboltLedgerTrustPrefix)
      else if HasPrefix key bboltLedgerClaimPrefix then KClaim (TrimPrefix key bboltLedgerClaimPrefix)
      else if HasPrefix key bboltLedgerPenaltyPrefix then KPenalty (TrimPrefix key bboltLedgerPenaltyPrefix)
      else if HasPrefix key bboltLedgerTxPrefix then KTx (TrimPrefix key bboltLedgerTxPrefix) else KOther)"

lemma kind_of_keys [simp]:
  "kind_of bboltLedgerIdentityKey = KIdentity" "kind_of (bboltLedgerContribPrefix @ i) = KContrib i"
  "kind_of (bboltLedgerTrustPrefix @ i) = KTrust i" "kind_of (bboltLedgerClaimPrefix @ i) = KClaim i"
  "kind_of (bboltLedgerPenaltyPrefix @ i) = KPenalty i" "kind_of (bboltLedgerTxPrefix @ i) = KTx i"
  by (simp_all add: kind_of_def)

lemma kind_of_inv:
  "kind_of k = KIdentity \<Longrightarrow> k = bboltLedgerIdentityKey" "kind_of k = KContrib i \<Longrightarrow> k = bboltLedgerContribPrefix @ i"
  "kind_of k = KTrust i \<Longrightarrow> k = bboltLedgerTrustPrefix @ i" "kind_of k = KClaim i \<Longrightarrow> k = bboltLedgerClaimPrefix @ i"
  "kind_of k = KPenalty i \<Longrightarrow> k = bboltLedgerPenaltyPrefix @ i" "kind_of k = KTx i \<Longrightarrow> k = bboltLedgerTxPrefix @ i"
  by (auto simp: kind_of_def HasPrefix_iff split: if_splits)

definition ident_of :: "GossipLedger \<Rightarrow> ledgerIdentity" where
  "ident_of g = \<lparr>li_PeerID = gl_peerID g, li_Seq = gl_seq g, li_PubKey = gl_pub g, li_PrivKey = gl_priv g\<rparr>"

lemma marshal_kind:
  "marshalLedgerKeyLocked g k =
     (case kind_of k of KIdentity \<Rightarrow> Some (VIdentity (ident_of g)) | KContrib i \<Rightarrow> map_option VContrib (gget (gl_recs g) i)
      | KTrust i \<Rightarrow> map_option VTrust (gget (gl_trusts g) i) | KClaim i \<Rightarrow> map_option VClaim (gget (gl_claims g) i)
      | KPenalty i \<Rightarrow> map_option VPenalty (gget (gl_penalties g) i) | KTx i \<Rightarrow> map_option VTx (gget (gl_txIndex g) i) | KOther \<Rightarrow> None)"
  by (simp add: marshalLedgerKeyLocked_def kind_of_def ident_of_def)

lemma marshal_live: "marshalLedgerKeyLocked g k \<noteq> None \<longleftrightarrow> key_live g k"
proof
  show "marshalLedgerKeyLocked g k \<noteq> None \<Longrightarrow> key_live g k"
    by (cases "kind_of k") (auto simp: marshal_kind key_live_def live_in_iff dest: kind_of_inv)
  show "key_live g k \<Longrightarrow> marshalLedgerKeyLocked g k \<noteq> None"
    by (auto simp: key_live_def live_in_iff marshal_kind)
qed

section \<open>Nothing is forgotten\<close>

text \<open>An operation marks every key whose stored value it makes stale.\<close>

definition tracked :: "GossipLedger \<Rightarrow> GossipLedger \<Rightarrow> bool" where
  "tracked g g' \<longleftrightarrow> set (gl_dirty g) \<subseteq> set (gl_dirty g') \<and>
     (\<forall>k. k \<notin> set (gl_dirty g') \<longrightarrow> marshalLedgerKeyLocked g' k = marshalLedgerKeyLocked g k)"

lemma tracked_refl [simp]: "tracked g g"
  by (simp add: tracked_def)

lemma tracked_trans: "tracked g g1 \<Longrightarrow> tracked g1 g2 \<Longrightarrow> tracked g g2"
  unfolding tracked_def by (metis subsetD subset_trans)

lemma trackedI:
  assumes "set (gl_dirty g) \<subseteq> set (gl_dirty g')" and "ident_of g' = ident_of g \<or> bboltLedgerIdentityKey \<in> set (gl_dirty g')"
    and "\<And>i. gget (gl_recs g') i = gget (gl_recs g) i \<or> bboltLedgerContribPrefix @ i \<in> set (gl_dirty g')"
    and "\<And>i. gget (gl_trusts g') i = gget (gl_trusts g) i \<or> bboltLedgerTrustPrefix @ i \<in> set (gl_dirty g')"
    and "\<And>i. gget (gl_claims g') i = gget (gl_claims g) i \<or> bboltLedgerClaimPrefix @ i \<in> set (gl_dirty g')"
    and "\<And>i. gget (gl_penalties g') i = gget (gl_penalties g) i \<or> bboltLedgerPenaltyPrefix @ i \<in> set (gl_dirty g')"
    and "\<And>i. gget (gl_txIndex g') i = gget (gl_txIndex g) i \<or> bboltLedgerTxPrefix @ i \<in> set (gl_dirty g')"
  shows "tracked g g'"
proof -
  have "marshalLedgerKeyLocked g' k = marshalLedgerKeyLocked g k" if k: "k \<notin> set (gl_dirty g')" for k
  proof (cases "kind_of k")
    case KIdentity
    then show ?thesis using assms(2) k kind_of_inv(1) by (auto simp: marshal_kind)
  next
    case (KContrib i)
    then show ?thesis using assms(3) [of i] k kind_of_inv(2) by (auto simp: marshal_kind)
  next
    case (KTrust i)
    then show ?thesis using assms(4) [of i] k kind_of_inv(3) by (auto simp: marshal_kind)
  next
    case (KClaim i)
    then show ?thesis using assms(5) [of i] k kind_of_inv(4) by (auto simp: marshal_kind)
  next
    case (KPenalty i)
    then show ?thesis using assms(6) [of i] k kind_of_inv(5) by (auto simp: marshal_kind)
  next
    case (KTx i)
    then show ?thesis using assms(7) [of i] k kind_of_inv(6) by (auto simp: marshal_kind)
  qed (simp add: marshal_kind)
  with assms(1) show ?thesis by (simp add: tracked_def)
qed

lemma tracked_fresh: "tracked g (snd (fresh_id kind i g))"
  by (rule trackedI) (auto simp: fresh_id_def nextID_def Let_def markDirtyLocked_def)

lemma tracked_put:
  "tracked g (markDirtyLocked [bboltLedgerContribPrefix @ i] (g\<lparr>gl_recs := gput i r (gl_recs g)\<rparr>))"
  "tracked g (markDirtyLocked [bboltLedgerTrustPrefix @ i] (g\<lparr>gl_trusts := gput i t (gl_trusts g)\<rparr>))"
  "tracked g (markDirtyLocked [bboltLedgerClaimPrefix @ i] (g\<lparr>gl_claims := gput i c (gl_claims g)\<rparr>))"
  "tracked g (markDirtyLocked [bboltLedgerPenaltyPrefix @ i] (g\<lparr>gl_penalties := gput i p (gl_penalties g)\<rparr>))"
  by (rule trackedI; simp add: ident_of_def subset_insertI)+

lemma tracked_cache: "tracked g (g\<lparr>gl_localCache := c\<rparr>)"
  by (rule trackedI) (simp_all add: ident_of_def)

lemma tracked_contribution: "tracked g (snd (record_contribution env now rec g))"
  unfolding record_contribution_def Let_def fresh_id_def [symmetric] case_prod_unfold
  by (auto intro!: tracked_trans [OF tracked_fresh tracked_put(1)])

lemma tracked_proof: "tracked g (attach_proof env pick rec g)"
proof -
  obtain cid cache where s: "StoreJSON env pick (le_json_contribution env rec) (gl_localCache g) = (cid, cache)" by force
  have "tracked g (markDirtyLocked [bboltLedgerContribPrefix @ i] (g\<lparr>gl_localCache := cache, gl_recs := gput i r (gl_recs g)\<rparr>))" for i r
    using tracked_trans [OF tracked_cache [of g cache] tracked_put(1) [of "g\<lparr>gl_localCache := cache\<rparr>" i r]] by simp
  then show ?thesis by (simp add: attach_proof_def s Let_def tracked_cache split: option.split)
qed

lemma tracked_trust: "tracked g (snd (RecordTrust now r g))"
  unfolding RecordTrust_def Let_def fresh_id_def [symmetric] case_prod_unfold
  by (auto split: option.split intro!: tracked_trans [OF tracked_fresh tracked_put(2)])

lemma tracked_claim: "tracked g (snd (RecordClaim now r g))"
  unfolding RecordClaim_def Let_def fresh_id_def [symmetric] case_prod_unfold
  by (auto split: option.split intro!: tracked_trans [OF tracked_fresh tracked_put(3)])

lemma tracked_penalty: "tracked g (snd (RecordPenalty env now r g))"
  unfolding RecordPenalty_def Let_def fresh_id_def [symmetric] case_prod_unfold
  by (auto split: option.split intro!: tracked_trans [OF tracked_fresh tracked_put(4)])

lemma merge_new: "merge_spec id_of kind rs m d k m' d' \<Longrightarrow> gget m' i = gget m i \<or> kind @ i \<in> set d'"
  using merge_specD(1) [of id_of kind rs m d k m' d' i] merge_specD(4) [of id_of kind rs m d k m' d']
  by (cases "gget m i"; cases "gget m' i") auto

lemma tracked_sync: "tracked g (snd (GossipSync cs ts cls ps g))"
proof -
  obtain k g' where run: "GossipSync cs ts cls ps g = (k, g')" by force
  from run obtain k1 k2 k3 k4 d1 d2 d3 where
    m: "merge_spec cnr_ID bboltLedgerContribPrefix cs (gl_recs g) (gl_dirty g) k1 (gl_recs g') d1"
      "merge_spec tru_ID bboltLedgerTrustPrefix ts (gl_trusts g) d1 k2 (gl_trusts g') d2"
      "merge_spec cla_ID bboltLedgerClaimPrefix cls (gl_claims g) d2 k3 (gl_claims g') d3"
      "merge_spec pen_ID bboltLedgerPenaltyPrefix ps (gl_penalties g) d3 k4 (gl_penalties g') (gl_dirty g')"
    and g': "g' = g\<lparr>gl_recs := gl_recs g', gl_trusts := gl_trusts g', gl_claims := gl_claims g', gl_penalties := gl_penalties g', gl_dirty := gl_dirty g'\<rparr>"
    by (rule GossipSync_parts)
  have sub: "set (gl_dirty g) \<subseteq> set d1" "set d1 \<subseteq> set d2" "set d2 \<subseteq> set d3" "set d3 \<subseteq> set (gl_dirty g')"
    unfolding merge_specD(4) [OF m(1)] merge_specD(4) [OF m(2)] merge_specD(4) [OF m(3)] merge_specD(4) [OF m(4)] by (rule Un_upper1)+
  have same: "ident_of g' = ident_of g" "gl_txIndex g' = gl_txIndex g" by (subst g', simp add: ident_of_def)+
  have "tracked g g'"
  proof (rule trackedI)
    show "set (gl_dirty g) \<subseteq> set (gl_dirty g')" using sub by blast
    show "gget (gl_recs g') i = gget (gl_recs g) i \<or> bboltLedgerContribPrefix @ i \<in> set (gl_dirty g')" for i
      using merge_new [OF m(1), of i] sub by blast
    show "gget (gl_trusts g') i = gget (gl_trusts g) i \<or> bboltLedgerTrustPrefix @ i \<in> set (gl_dirty g')" for i
      using merge_new [OF m(2), of i] sub by blast
    show "gget (gl_claims g') i = gget (gl_claims g) i \<or> bboltLedgerClaimPrefix @ i \<in> set (gl_dirty g')" for i
      using merge_new [OF m(3), of i] sub by blast
    show "gget (gl_penalties g') i = gget (gl_penalties g) i \<or> bboltLedgerPenaltyPrefix @ i \<in> set (gl_dirty g')" for i
      using merge_new [OF m(4), of i] by blast
  qed (simp_all add: same)
  then show ?thesis by (simp add: run)
qed

lemma tracked_tx: "tracked g (snd (AppendTransaction env now ty n a mo rq g))"
proof -
  obtain tx g' where run: "AppendTransaction env now ty n a mo rq g = (tx, g')" by force
  note f = AppendTransaction_fields [OF run]
  have "tracked g g'" by (rule trackedI) (simp_all add: f subset_insertI2)
  then show ?thesis by (simp add: run)
qed

lemma tracked_step: "tracked g (ledger_step env op g)"
proof (cases op)
  case (OpContribution io pick now reco)
  have "tracked g (case record_contribution env now rec g of (rec', g1) \<Rightarrow> attach_proof env pick rec' g1)" for rec
    using tracked_trans [OF tracked_contribution tracked_proof] by (simp add: case_prod_unfold)
  then show ?thesis by (simp add: OpContribution split: option.split)
qed (simp_all add: tracked_trust tracked_claim tracked_penalty tracked_sync tracked_tx tracked_cache)

text \<open>The bucket holds the current value of every key that does not wait to be written, and nothing else.\<close>

definition stored_ok :: "GossipLedger \<Rightarrow> ledger_bucket \<Rightarrow> bool" where
  "stored_ok g b \<longleftrightarrow> gmap_ok b \<and> (\<forall>k. k \<notin> set (gl_dirty g) \<longrightarrow> gget b k = marshalLedgerKeyLocked g k)"

lemma stored_ok_step: "stored_ok g b \<Longrightarrow> stored_ok (ledger_step env op g) b"
  using tracked_step [of g env op] unfolding stored_ok_def tracked_def by (metis subsetD)

lemma serialize_live:
  "\<forall>k \<in> set ks. key_live g k \<Longrightarrow> serializeKeysLocked g ks = Some (map (\<lambda>k. (k, the (marshalLedgerKeyLocked g k))) ks)"
proof (induction ks)
  case (Cons k ks)
  then have "marshalLedgerKeyLocked g k \<noteq> None" using marshal_live [of g k] by simp
  with Cons show ?case by auto
qed simp

lemma gget_put_all:
  "gget (fold (\<lambda>(k, v). gput k v) (map (\<lambda>k. (k, f k)) ks) b) j = (if j \<in> set ks then Some (f j) else gget b j)"
  by (induction ks arbitrary: b) auto

lemma gmap_ok_put_all: "gmap_ok b \<Longrightarrow> gmap_ok (fold (\<lambda>(k, v). gput k v) puts b)"
  by (induction puts arbitrary: b) (auto simp: case_prod_unfold)

lemma marshal_clean [simp]: "marshalLedgerKeyLocked (g\<lparr>gl_dirty := d\<rparr>) k = marshalLedgerKeyLocked g k"
  by (simp add: marshalLedgerKeyLocked_def)

lemma key_live_clean [simp]: "key_live (g\<lparr>gl_dirty := d\<rparr>) k = key_live g k"
  by (simp add: key_live_def)

text \<open>A save either writes everything that waits or leaves everything waiting.\<close>

lemma saveBbolt_spec:
  assumes "stored_ok g b" and "dirty_ok g" and "ledger_saveBbolt io g b = (ok, g', b')"
  shows "ok \<longleftrightarrow> io_update io \<or> gl_dirty g = []" and "stored_ok g' b'" and "dirty_ok g'" and "g' = g\<lparr>gl_dirty := gl_dirty g'\<rparr>"
    and "ok \<Longrightarrow> gl_dirty g' = []" and "\<not> ok \<Longrightarrow> b' = b"
proof -
  let ?g = "g\<lparr>gl_dirty := []\<rparr>"
  have ser: "serializeKeysLocked ?g (gl_dirty g) = Some (map (\<lambda>k. (k, the (marshalLedgerKeyLocked g k))) (gl_dirty g))"
    using assms(2) serialize_live [of "gl_dirty g" ?g] by (simp add: dirty_ok_def)
  show "ok \<longleftrightarrow> io_update io \<or> gl_dirty g = []" "g' = g\<lparr>gl_dirty := gl_dirty g'\<rparr>" "ok \<Longrightarrow> gl_dirty g' = []" "\<not> ok \<Longrightarrow> b' = b" "dirty_ok g'"
    using assms(2,3) by (auto simp: ledger_saveBbolt_def ser putKVsBbolt_def Let_def dirty_ok_def split: if_splits)
  have wrote: "stored_ok ?g (fold (\<lambda>(k, v). gput k v) (map (\<lambda>k. (k, the (marshalLedgerKeyLocked g k))) (gl_dirty g)) b)"
    using assms(1,2) marshal_live [of g] by (auto simp: stored_ok_def gmap_ok_put_all gget_put_all dirty_ok_def)
  show "stored_ok g' b'"
    using assms(1,3) wrote by (auto simp: ledger_saveBbolt_def ser putKVsBbolt_def Let_def stored_ok_def split: if_splits)
qed

section \<open>Reading back\<close>

text \<open>The transactions of a list of keys, in the order of the keys.\<close>

definition txs_of :: "GossipLedger \<Rightarrow> string list \<Rightarrow> SignedTransaction list" where
  "txs_of g ks = map (\<lambda>k. the (gget (gl_txIndex g) (TrimPrefix k bboltLedgerTxPrefix))) (filter (\<lambda>k. HasPrefix k bboltLedgerTxPrefix) ks)"

text \<open>What loading the keys \<open>ks\<close> of the ledger \<open>g\<close> makes of a ledger under construction.\<close>

definition loaded :: "GossipLedger \<Rightarrow> string list \<Rightarrow> GossipLedger \<times> ledgerIdentity option \<Rightarrow> GossipLedger \<times> ledgerIdentity option \<Rightarrow> bool" where
  "loaded g ks s s' \<longleftrightarrow>
     (\<forall>i. gget (gl_recs (fst s')) i = (if bboltLedgerContribPrefix @ i \<in> set ks then gget (gl_recs g) i else gget (gl_recs (fst s)) i)) \<and>
     (\<forall>i. gget (gl_trusts (fst s')) i = (if bboltLedgerTrustPrefix @ i \<in> set ks then gget (gl_trusts g) i else gget (gl_trusts (fst s)) i)) \<and>
     (\<forall>i. gget (gl_claims (fst s')) i = (if bboltLedgerClaimPrefix @ i \<in> set ks then gget (gl_claims g) i else gget (gl_claims (fst s)) i)) \<and>
     (\<forall>i. gget (gl_penalties (fst s')) i = (if bboltLedgerPenaltyPrefix @ i \<in> set ks then gget (gl_penalties g) i else gget (gl_penalties (fst s)) i)) \<and>
     (\<forall>i. gget (gl_txIndex (fst s')) i = (if bboltLedgerTxPrefix @ i \<in> set ks then gget (gl_txIndex g) i else gget (gl_txIndex (fst s)) i)) \<and>
     gl_txs (fst s') = gl_txs (fst s) @ txs_of g ks \<and>
     gl_dailyContrib (fst s') = fold count_tx (txs_of g ks) (gl_dailyContrib (fst s)) \<and>
     snd s' = (if bboltLedgerIdentityKey \<in> set ks then Some (ident_of g) else snd s) \<and> gl_dirty (fst s') = gl_dirty (fst s)"

definition index_keyed :: "GossipLedger \<Rightarrow> bool" where
  "index_keyed g \<longleftrightarrow> (\<forall>i tx. gget (gl_txIndex g) i = Some tx \<longrightarrow> stx_ID tx = i)"

lemma load_entry_spec:
  assumes "maps_ok g" and "index_keyed g" and "marshalLedgerKeyLocked g k = Some v"
  shows "\<exists>s'. load_entry (k, v) s = Some s' \<and> loaded g [k] s s'"
proof -
  obtain h ident where s: "s = (h, ident)" by force
  note row = assms(1) [unfolded maps_ok_def]
  show ?thesis
  proof (cases "kind_of k")
    case KIdentity
    with assms(3) have "v = VIdentity (ident_of g)" by (simp add: marshal_kind)
    moreover have "\<not> HasPrefix bboltLedgerIdentityKey bboltLedgerTxPrefix" by (simp add: HasPrefix_def ledger_key_defs)
    ultimately show ?thesis unfolding kind_of_inv(1) [OF KIdentity] by (simp add: s load_entry_def loaded_def txs_of_def)
  next
    case (KContrib i)
    with assms(3) obtain r where r: "gget (gl_recs g) i = Some r" "v = VContrib r" by (auto simp: marshal_kind)
    moreover have "cnr_ID r = i" using rows_keyed_get [OF _ r(1), of cnr_ID] row by simp
    ultimately show ?thesis unfolding kind_of_inv(2) [OF KContrib] by (simp add: s load_entry_def loaded_def txs_of_def)
  next
    case (KTrust i)
    with assms(3) obtain r where r: "gget (gl_trusts g) i = Some r" "v = VTrust r" by (auto simp: marshal_kind)
    moreover have "tru_ID r = i" using rows_keyed_get [OF _ r(1), of tru_ID] row by simp
    ultimately show ?thesis unfolding kind_of_inv(3) [OF KTrust] by (simp add: s load_entry_def loaded_def txs_of_def)
  next
    case (KClaim i)
    with assms(3) obtain r where r: "gget (gl_claims g) i = Some r" "v = VClaim r" by (auto simp: marshal_kind)
    moreover have "cla_ID r = i" using rows_keyed_get [OF _ r(1), of cla_ID] row by simp
    ultimately show ?thesis unfolding kind_of_inv(4) [OF KClaim] by (simp add: s load_entry_def loaded_def txs_of_def)
  next
    case (KPenalty i)
    with assms(3) obtain r where r: "gget (gl_penalties g) i = Some r" "v = VPenalty r" by (auto simp: marshal_kind)
    moreover have "pen_ID r = i" using rows_keyed_get [OF _ r(1), of pen_ID] row by simp
    ultimately show ?thesis unfolding kind_of_inv(5) [OF KPenalty] by (simp add: s load_entry_def loaded_def txs_of_def)
  next
    case (KTx i)
    with assms(3) obtain tx where tx: "gget (gl_txIndex g) i = Some tx" "v = VTx tx" by (auto simp: marshal_kind)
    moreover have "stx_ID tx = i" using assms(2) tx(1) by (simp add: index_keyed_def)
    ultimately show ?thesis unfolding kind_of_inv(6) [OF KTx] by (simp add: s load_entry_def loaded_def txs_of_def)
  next
    case KOther
    with assms(3) show ?thesis by (simp add: marshal_kind)
  qed
qed

lemma loaded_trans: "loaded g [k] s s1 \<Longrightarrow> loaded g ks s1 s2 \<Longrightarrow> loaded g (k # ks) s s2"
  by (simp add: loaded_def txs_of_def)

lemma load_loop_spec:
  assumes "maps_ok g" and "index_keyed g" and "\<forall>(k, v) \<in> set es. marshalLedgerKeyLocked g k = Some v"
  shows "\<exists>s'. load_loop es s = Some s' \<and> loaded g (map fst es) s s'"
  using assms(3)
proof (induction es arbitrary: s)
  case Nil
  then show ?case by (auto simp: loaded_def txs_of_def)
next
  case (Cons e es)
  obtain k v where e: "e = (k, v)" by force
  with Cons.prems have "marshalLedgerKeyLocked g k = Some v" by simp
  from load_entry_spec [OF assms(1,2) this, of s] e obtain s1 where s1: "load_entry e s = Some s1" "loaded g [k] s s1" by blast
  with Cons.IH [of s1] Cons.prems obtain s2 where "load_loop es s1 = Some s2" "loaded g (map fst es) s1 s2" by auto
  with s1 e show ?case by (auto intro: loaded_trans)
qed

lemma count_txs:
  "in_i64 (gget0 0 m (k, d)) \<Longrightarrow> gget0 0 (fold count_tx txs m) (k, d) = i64 (gget0 0 m (k, d) + contributed_on k d txs)"
proof (induction txs arbitrary: m)
  case (Cons tx txs)
  let ?m = "count_tx tx m"
  have c: "gget0 0 ?m (k, d) = i64 (gget0 0 m (k, d) + contributed_on k d [tx])"
    using Cons.prems by (auto simp: count_tx_def add_daily_def contributed_on_def)
  have "contributed_on k d (tx # txs) = contributed_on k d [tx] + contributed_on k d txs" by (simp add: contributed_on_def)
  with Cons.IH [of ?m] show ?case by (simp add: c i64_range i64_add_i64 add.assoc)
qed (simp add: contributed_on_def)

lemma contributed_on_mset: "mset xs = mset ys \<Longrightarrow> contributed_on k d xs = contributed_on k d ys"
  unfolding contributed_on_def sum_mset_sum_list [symmetric] mset_map mset_filter by simp

text \<open>Two ledgers with the same contents, up to the order of maps and of transactions.\<close>

definition same_contents :: "GossipLedger \<Rightarrow> GossipLedger \<Rightarrow> bool" where
  "same_contents g h \<longleftrightarrow> ident_of h = ident_of g \<and>
     (\<forall>i. gget (gl_recs h) i = gget (gl_recs g) i) \<and> (\<forall>i. gget (gl_trusts h) i = gget (gl_trusts g) i) \<and>
     (\<forall>i. gget (gl_claims h) i = gget (gl_claims g) i) \<and> (\<forall>i. gget (gl_penalties h) i = gget (gl_penalties g) i) \<and>
     (\<forall>i. gget (gl_txIndex h) i = gget (gl_txIndex g) i) \<and> mset (gl_txs h) = mset (gl_txs g) \<and>
     (\<forall>n day. GetDailyContributions n day h = GetDailyContributions n day g)"

lemma index_ok_keyed: "index_ok g \<Longrightarrow> index_keyed g"
  by (auto simp: index_ok_def index_keyed_def dest: map_of_SomeD)

lemma txs_of_mset:
  assumes "index_ok g" and "distinct (map stx_ID (gl_txs g))" and "distinct ks"
    and "\<And>i. bboltLedgerTxPrefix @ i \<in> set ks \<longleftrightarrow> gget (gl_txIndex g) i \<noteq> None"
  shows "mset (txs_of g ks) = mset (gl_txs g)"
proof -
  have get: "gget (gl_txIndex g) (stx_ID tx) = Some tx" if "tx \<in> set (gl_txs g)" for tx
    using assms(1,2) that unfolding index_ok_def
    by (metis (mono_tags, lifting) comp_apply distinct_map image_eqI list.set_map map_map map_of_is_SomeI fst_conv map_ext)
  have mem: "tx \<in> set (gl_txs g)" if "gget (gl_txIndex g) i = Some tx" for i tx
    using assms(1) that by (auto simp: index_ok_def dest: map_of_SomeD)
  have keyed: "index_keyed g" by (rule index_ok_keyed [OF assms(1)])
  let ?ks = "filter (\<lambda>k. HasPrefix k bboltLedgerTxPrefix) ks"
  have sub: "\<exists>i tx. k = bboltLedgerTxPrefix @ i \<and> gget (gl_txIndex g) i = Some tx" if "k \<in> set ?ks" for k
    using that assms(4) by (force simp: HasPrefix_iff)
  have "inj_on (\<lambda>k. the (gget (gl_txIndex g) (TrimPrefix k bboltLedgerTxPrefix))) (set ?ks)"
  proof (rule inj_onI)
    fix k l assume kl: "k \<in> set ?ks" "l \<in> set ?ks"
      and eq: "the (gget (gl_txIndex g) (TrimPrefix k bboltLedgerTxPrefix)) = the (gget (gl_txIndex g) (TrimPrefix l bboltLedgerTxPrefix))"
    from sub [OF kl(1)] obtain i x where i: "k = bboltLedgerTxPrefix @ i" "gget (gl_txIndex g) i = Some x" by blast
    from sub [OF kl(2)] obtain j y where j: "l = bboltLedgerTxPrefix @ j" "gget (gl_txIndex g) j = Some y" by blast
    from eq i j have "x = y" by simp
    with i j keyed show "k = l" unfolding index_keyed_def by metis
  qed
  then have "distinct (txs_of g ks)" using assms(3) by (simp add: txs_of_def distinct_map)
  moreover have "set (txs_of g ks) = set (gl_txs g)"
  proof
    show "set (txs_of g ks) \<subseteq> set (gl_txs g)" using sub mem by (fastforce simp: txs_of_def)
    show "set (gl_txs g) \<subseteq> set (txs_of g ks)"
    proof
      fix tx assume "tx \<in> set (gl_txs g)"
      with get have "bboltLedgerTxPrefix @ stx_ID tx \<in> set ?ks" using assms(4) by simp
      with get [OF \<open>tx \<in> set (gl_txs g)\<close>] show "tx \<in> set (txs_of g ks)" unfolding txs_of_def by (force intro: rev_image_eqI)
    qed
  qed
  moreover have "distinct (gl_txs g)" using assms(2) by (simp add: distinct_map)
  ultimately show ?thesis by (simp add: set_eq_iff_mset_eq_distinct)
qed

lemma load_spec:
  assumes "ledger_ok env g" and "stored_ok g b" and "gl_dirty g = []"
  shows "\<exists>h. loadLedgerBbolt b = Some h \<and> same_contents g h \<and> gl_txs h = txs_of g (sort (map fst b)) \<and> gl_dirty h = []"
proof -
  note ok = assms(1) [unfolded ledger_ok_def txs_ok_def]
  have keyed: "index_keyed g" using ok by (simp add: index_ok_keyed)
  have maps: "maps_ok g" using ok by simp
  have bk: "gmap_ok b" and get: "\<And>k. gget b k = marshalLedgerKeyLocked g k" using assms(2,3) by (simp_all add: stored_ok_def)
  have keys: "k \<in> fst ` set b \<longleftrightarrow> key_live g k" for k
    using gget_None_iff [of b k] marshal_live [of g k] by (simp add: get)
  let ?es = "sort_key fst b" and ?ks = "sort (map fst b)"
  have ks: "map fst ?es = ?ks"
  proof (rule properties_for_sort [symmetric])
    show "mset (map fst ?es) = mset (map fst b)" by (metis mset_map mset_sort)
  qed simp
  have "\<forall>(k, v) \<in> set ?es. marshalLedgerKeyLocked g k = Some v"
    using in_set_gget [OF bk] get by auto
  from load_loop_spec [OF maps keyed this, of "(empty_ledger, None)"] obtain h ident where
    run: "load_loop ?es (empty_ledger, None) = Some (h, ident)" and l: "loaded g ?ks (empty_ledger, None) (h, ident)"
    unfolding ks by auto
  have live: "x \<in> set ?ks \<longleftrightarrow> key_live g x" for x using keys by simp
  have id: "ident = Some (ident_of g)" using l live by (simp add: loaded_def key_live_def)
  define h' where "h' = h\<lparr>gl_peerID := gl_peerID g, gl_seq := gl_seq g, gl_pub := gl_pub g, gl_priv := gl_priv g\<rparr>"
  have load: "loadLedgerBbolt b = Some h'" by (simp add: loadLedgerBbolt_def run id h'_def ident_of_def)
  have txs: "gl_txs h' = txs_of g ?ks" "gl_dailyContrib h' = fold count_tx (txs_of g ?ks) []" "gl_dirty h' = []"
    using l by (simp_all add: loaded_def h'_def empty_ledger_def)
  have dist: "distinct ?ks" using bk by (simp add: gmap_ok_def)
  have idx: "index_ok g" "distinct (map stx_ID (gl_txs g))" using ok tx_ids_distinct by blast+
  have "bboltLedgerTxPrefix @ i \<in> set ?ks \<longleftrightarrow> gget (gl_txIndex g) i \<noteq> None" for i
    unfolding live by (auto simp: key_live_def live_in_iff)
  from txs_of_mset [OF idx dist this] have mset: "mset (gl_txs h') = mset (gl_txs g)" unfolding txs(1) .
  have daily: "GetDailyContributions n day h' = GetDailyContributions n day g" for n day
    using ok contributed_on_mset [OF mset, of n "day_number day"] count_txs [of "[]" n "day_number day" "txs_of g ?ks"]
    by (simp add: GetDailyContributions_def dailyKey_def daily_ok_def txs gget0_def [of _ "[]"])
  have "gget (gl_recs h') i = gget (gl_recs g) i" "gget (gl_trusts h') i = gget (gl_trusts g) i"
    "gget (gl_claims h') i = gget (gl_claims g) i" "gget (gl_penalties h') i = gget (gl_penalties g) i"
    "gget (gl_txIndex h') i = gget (gl_txIndex g) i" for i
    using l live unfolding loaded_def by (auto simp: h'_def empty_ledger_def key_live_def live_in_iff)
  moreover have "ident_of h' = ident_of g" by (simp add: ident_of_def h'_def)
  ultimately have "same_contents g h'" using mset daily by (simp add: same_contents_def)
  with load txs show ?thesis by auto
qed

section \<open>Restarts\<close>

datatype storage_event = SOp ledger_op | SSave io_env

fun storage_step :: "ledger_env \<Rightarrow> storage_event \<Rightarrow> GossipLedger \<times> ledger_bucket \<Rightarrow> GossipLedger \<times> ledger_bucket" where
  "storage_step env (SOp op) (g, b) = (ledger_step env op g, b)"
| "storage_step env (SSave io) (g, b) = (case ledger_saveBbolt io g b of (_, g', b') \<Rightarrow> (g', b'))"

lemma ledger_ok_saved:
  assumes "ledger_ok env g" and "dirty_ok g'" and "g' = g\<lparr>gl_dirty := gl_dirty g'\<rparr>"
  shows "ledger_ok env g'"
proof -
  have "maps_ok g' = maps_ok g" "txs_ok env g' = txs_ok env g" "cache_ok g' = cache_ok g"
    by (subst assms(3), simp add: maps_ok_def txs_ok_def index_ok_def daily_ok_def cache_ok_def)+
  with assms(1,2) show ?thesis by (simp add: ledger_ok_def)
qed

lemma storage_step_ok:
  assumes "ledger_ok env g" and "stored_ok g b" and "gl_seq g < 18446744073709551615" and "storage_step env e (g, b) = (g', b')"
  shows "ledger_ok env g' \<and> stored_ok g' b' \<and> gl_seq g' \<le> Suc (gl_seq g)"
proof (cases e)
  case (SOp op)
  with assms show ?thesis using ledger_step_ok [OF assms(1,3), of op] stored_ok_step [of g b env op] by auto
next
  case (SSave io)
  obtain ok where s: "ledger_saveBbolt io g b = (ok, g', b')" using assms(4) SSave by (auto split: prod.splits)
  have dirty: "dirty_ok g" using assms(1) by (simp add: ledger_ok_def)
  note spec = saveBbolt_spec [OF assms(2) dirty s]
  have "gl_seq g' = gl_seq g" by (subst spec(4)) simp
  with spec ledger_ok_saved [OF assms(1) spec(3,4)] show ?thesis by simp
qed

lemma storage_run_ok:
  "ledger_ok env g \<Longrightarrow> stored_ok g b \<Longrightarrow> gl_seq g + length es < 18446744073709551616 \<Longrightarrow>
    fold (storage_step env) es (g, b) = (g', b') \<Longrightarrow> ledger_ok env g' \<and> stored_ok g' b'"
proof (induction es arbitrary: g b)
  case (Cons e es)
  obtain g1 b1 where s: "storage_step env e (g, b) = (g1, b1)" by force
  from storage_step_ok [OF Cons.prems(1,2) _ s] Cons.prems(3) have "ledger_ok env g1 \<and> stored_ok g1 b1 \<and> gl_seq g1 \<le> Suc (gl_seq g)" by simp
  with Cons.IH [of g1 b1] Cons.prems(3,4) s show ?case by simp
qed simp


text \<open>A full write into an empty bucket starts such a run.\<close>

lemma live_in_image: "live_in kind m k \<longleftrightarrow> k \<in> (\<lambda>e. kind @ fst e) ` set m"
  by (force simp: live_in_def list_ex_iff)

lemma all_keys_live: "index_ok g \<Longrightarrow> k \<in> set (all_keys g) \<longleftrightarrow> key_live g k"
proof -
  assume "index_ok g"
  then have "gget (gl_txIndex g) i \<noteq> None \<longleftrightarrow> i \<in> stx_ID ` set (gl_txs g)" for i
    by (simp add: index_ok_def map_of_eq_None_iff image_image)
  then have "live_in bboltLedgerTxPrefix (gl_txIndex g) k \<longleftrightarrow> k \<in> (\<lambda>tx. bboltLedgerTxPrefix @ stx_ID tx) ` set (gl_txs g)"
    unfolding live_in_iff by (metis (no_types, lifting) image_iff)
  then show ?thesis unfolding all_keys_def key_live_def by (simp add: live_in_image)
qed

lemma writeAll_stored:
  assumes "ledger_ok env g" and "io_update io" and "gl_dirty g = []"
  shows "\<exists>b. writeAllBbolt io g [] = (True, b) \<and> stored_ok g b"
proof -
  have live: "k \<in> set (all_keys g) \<longleftrightarrow> key_live g k" for k using assms(1) by (simp add: all_keys_live ledger_ok_def txs_ok_def)
  then have ser: "serializeKeysLocked g (all_keys g) = Some (map (\<lambda>k. (k, the (marshalLedgerKeyLocked g k))) (all_keys g))"
    using serialize_live by blast
  have "stored_ok g (fold (\<lambda>(k, v). gput k v) (map (\<lambda>k. (k, the (marshalLedgerKeyLocked g k))) (all_keys g)) [])"
  proof -
    have "gget (fold (\<lambda>(k, v). gput k v) (map (\<lambda>k. (k, the (marshalLedgerKeyLocked g k))) (all_keys g)) []) k = marshalLedgerKeyLocked g k" for k
      using live [of k] marshal_live [of g k] by (cases "marshalLedgerKeyLocked g k") (simp_all add: gget_put_all)
    then show ?thesis by (simp add: stored_ok_def gmap_ok_put_all assms(3))
  qed
  then show ?thesis by (simp add: writeAllBbolt_def ser putKVsBbolt_def assms(2))
qed

text \<open>The JSON file keeps also the order of the transactions, so the loaded ledger is well-formed again.\<close>

lemma index_fold:
  "distinct (map stx_ID txs) \<Longrightarrow>
     gget (fold (\<lambda>tx. gput (stx_ID tx) tx) txs m) i = (case map_of (map (\<lambda>tx. (stx_ID tx, tx)) txs) i of Some tx \<Rightarrow> Some tx | None \<Rightarrow> gget m i)"
proof (induction txs arbitrary: m)
  case (Cons tx txs)
  have "map_of (map (\<lambda>tx. (stx_ID tx, tx)) txs) (stx_ID tx) = None"
    using Cons.prems by (simp add: map_of_eq_None_iff image_image)
  with Cons show ?case by (auto split: option.split)
qed simp

lemma json_restart:
  assumes "ledger_ok env g"
  shows "\<exists>h. LoadGossipLedger (ledger_Save (io\<lparr>io_write := True\<rparr>) g f) = Some h \<and> ledger_ok env h \<and> same_contents g h \<and> gl_txs h = gl_txs g"
proof -
  note ok = assms [unfolded ledger_ok_def txs_ok_def]
  obtain h where h: "LoadGossipLedger (ledger_Save (io\<lparr>io_write := True\<rparr>) g f) = Some h"
    and f: "gl_peerID h = gl_peerID g" "gl_localCache h = []" "gl_recs h = gl_recs g" "gl_trusts h = gl_trusts g" "gl_claims h = gl_claims g"
      "gl_penalties h = gl_penalties g" "gl_txs h = gl_txs g" "gl_txIndex h = fold (\<lambda>tx. gput (stx_ID tx) tx) (gl_txs g) []"
      "gl_dailyContrib h = fold count_tx (gl_txs g) []" "gl_seq h = gl_seq g" "gl_pub h = gl_pub g" "gl_priv h = gl_priv g" "gl_dirty h = []"
    by (rule that [of "the (LoadGossipLedger (Content (ledger_data g)))"])
      (simp_all add: LoadGossipLedger_def ledger_Save_def atomicWriteFile_def ledger_data_def)
  have idx: "gget (gl_txIndex h) i = gget (gl_txIndex g) i" for i
    using ok index_fold [of "gl_txs g" "[]" i] tx_ids_distinct by (auto simp: f index_ok_def split: option.split)
  have daily: "gget0 0 (gl_dailyContrib h) (k, d) = i64 (contributed_on k d (gl_txs g))" for k d
    using count_txs [of "[]" k d "gl_txs g"] by (simp add: f gget0_def [of _ "[]"])
  have "ledger_ok env h"
    using ok idx daily by (simp add: ledger_ok_def txs_ok_def maps_ok_def f index_ok_def daily_ok_def dirty_ok_def cache_ok_def)
  moreover have "same_contents g h"
    using ok idx daily by (simp add: same_contents_def ident_of_def f GetDailyContributions_def daily_ok_def dailyKey_def)
  ultimately show ?thesis using h f by auto
qed

definition sample_ledger :: GossipLedger where
  "sample_ledger = the (NewGossipLedger (Some (''pub'', ''priv'')) ''me'')"

lemma sample_ledger_ok: "ledger_ok plain_env sample_ledger" "gl_dirty sample_ledger = []" "gl_seq sample_ledger = 0"
  by (rule ledger_ok_new [of "Some (''pub'', ''priv'')" "''me''"]) (simp_all add: sample_ledger_def NewGossipLedger_def)

definition bad_io :: io_env where
  "bad_io = (io_fine True)\<lparr>io_update := False\<rparr>"

lemma saveBbolt_txs: "gl_txs (fst (snd (ledger_saveBbolt io g b))) = gl_txs g"
  by (simp add: ledger_saveBbolt_def putKVsBbolt_def Let_def split: option.split)


text \<open>
  The cursor yields the transactions in the order of their keys, in which number 10 comes before number 9. A process
  that reads the embedded store then has them in another order than they were made: its chain does not verify any
  more, although nobody touched it.
\<close>

definition short_env :: ledger_env where
  "short_env = \<lparr>le_H = (\<lambda>s. take 9 s), le_sign = (\<lambda>k s. []), le_json_contribution = (\<lambda>r. None),
     le_json_penalty = (\<lambda>r. None), le_json_tx = (\<lambda>r. None)\<rparr>"

definition ninth_and_tenth :: GossipLedger where
  "ninth_and_tenth = fold (\<lambda>n. snd \<circ> AppendTransaction short_env 0 ''consumption'' ''a'' n [] []) [1, 2] (sample_ledger\<lparr>gl_seq := 8\<rparr>)"

lemma ninth_and_tenth_txs:
  defines "tx9 \<equiv> mk_tx short_env [] \<lparr>tq_ID = ''tx-me-9'', tq_Type = ''consumption'', tq_NodeID = ''a'', tq_Amount = 1,
      tq_ModelID = [], tq_RequestID = [], tq_now = 0, tq_priv = ''priv''\<rparr>"
  defines "tx10 \<equiv> mk_tx short_env (stx_Hash tx9) \<lparr>tq_ID = ''tx-me-10'', tq_Type = ''consumption'', tq_NodeID = ''a'', tq_Amount = 2,
      tq_ModelID = [], tq_RequestID = [], tq_now = 0, tq_priv = ''priv''\<rparr>"
  shows "gl_txs ninth_and_tenth = [tx9, tx10]" and "gl_txIndex ninth_and_tenth = [(''tx-me-9'', tx9), (''tx-me-10'', tx10)]"
    and "gl_recs ninth_and_tenth = []" "gl_trusts ninth_and_tenth = []" "gl_claims ninth_and_tenth = []" "gl_penalties ninth_and_tenth = []"
proof -
  have d: "nat_digits 9 = ''9''" "nat_digits 10 = ''10''" by code_simp+
  show "gl_txs ninth_and_tenth = [tx9, tx10]" and "gl_txIndex ninth_and_tenth = [(''tx-me-9'', tx9), (''tx-me-10'', tx10)]"
    and "gl_recs ninth_and_tenth = []" "gl_trusts ninth_and_tenth = []" "gl_claims ninth_and_tenth = []" "gl_penalties ninth_and_tenth = []"
    by (simp_all add: d ninth_and_tenth_def AppendTransaction_def Let_def sample_ledger_def NewGossipLedger_def next_seq_def seq_id_def
      tx9_def tx10_def gput_def)
qed

lemma restart_breaks_tx_chain:
  "chainValid short_env ninth_and_tenth"
  "\<exists>h. loadLedgerBbolt (snd (writeAllBbolt (io_fine True) ninth_and_tenth [])) = Some h \<and>
     map stx_ID (gl_txs h) = [''tx-me-10'', ''tx-me-9''] \<and> \<not> chainValid short_env h"
proof -
  note txs = ninth_and_tenth_txs
  show "chainValid short_env ninth_and_tenth"
    by (simp add: chainValid_def txs mk_tx_def Let_def tx_hash_def tx_payload_def)
  have keys: "all_keys ninth_and_tenth = [''meta/identity'', ''tx/tx-me-9'', ''tx/tx-me-10'']"
    by (simp add: all_keys_def txs ledger_key_defs mk_tx_def Let_def)
  have marshal: "marshalLedgerKeyLocked ninth_and_tenth ''meta/identity'' = Some (VIdentity (ident_of ninth_and_tenth))"
    "marshalLedgerKeyLocked ninth_and_tenth ''tx/tx-me-9'' = Some (VTx (gl_txs ninth_and_tenth ! 0))"
    "marshalLedgerKeyLocked ninth_and_tenth ''tx/tx-me-10'' = Some (VTx (gl_txs ninth_and_tenth ! 1))"
    by (simp_all add: marshalLedgerKeyLocked_def HasPrefix_def TrimPrefix_def ledger_key_defs ident_of_def txs)
  have hash: "stx_PrevHash (gl_txs ninth_and_tenth ! 0) \<noteq> stx_Hash (gl_txs ninth_and_tenth ! 1)"
    "stx_Hash (gl_txs ninth_and_tenth ! 1) \<noteq> []" "stx_PrevHash (gl_txs ninth_and_tenth ! 0) = []"
    "stx_ID (gl_txs ninth_and_tenth ! 0) = ''tx-me-9''" "stx_ID (gl_txs ninth_and_tenth ! 1) = ''tx-me-10''"
    "tx_hash short_env (gl_txs ninth_and_tenth ! 1) \<noteq> []"
    by (simp_all add: txs mk_tx_def Let_def tx_hash_def tx_payload_def short_env_def)
  have "CHR ''m'' < CHR ''t''" "CHR ''1'' < CHR ''9''" "\<not> CHR ''t'' \<le> CHR ''m''" "\<not> CHR ''9'' \<le> CHR ''1''" by code_simp+
  then have order: "sort_key fst [(''meta/identity'', a), (''tx/tx-me-9'', b), (''tx/tx-me-10'', c)] =
      [(''meta/identity'', a), (''tx/tx-me-10'', c), (''tx/tx-me-9'', b)]" for a b c :: ledger_value
    by (simp add: sort_key_def)
  show "\<exists>h. loadLedgerBbolt (snd (writeAllBbolt (io_fine True) ninth_and_tenth [])) = Some h \<and>
     map stx_ID (gl_txs h) = [''tx-me-10'', ''tx-me-9''] \<and> \<not> chainValid short_env h"
    by (simp add: writeAllBbolt_def keys marshal putKVsBbolt_def io_fine_def gput_def loadLedgerBbolt_def order load_entry_def
        HasPrefix_def ledger_key_defs empty_ledger_def chainValid_def hash [unfolded One_nat_def])
qed

end
