(* ===== verification/Ledger_Replication.thy ===== *)
theory Ledger_Replication
  imports Ledger_Storage
begin

text \<open>
  Redundant copies of the contribution ledger: digests of the records and their comparison
  (\<open>src/ledger_redundancy.go\<close>), and the exchange with other nodes (\<open>src/ledger_replication.go\<close>).

  The answers of a peer are arguments: its manifest, if the request works, and the record it returns for an identifier.
  The encoders of records that \<open>ledger_env\<close> lacks are fields of \<open>replica_env\<close>. The source reconciles with several peers
  in parallel; every merge takes the lock of the ledger, so the model lets the peers take turns.
\<close>

section \<open>Digests\<close>

record replica_env =
  re_ledger :: ledger_env
  re_json_trust :: "TrustRecord \<Rightarrow> string option"
  re_json_claim :: "CapabilityClaim \<Rightarrow> string option"

record LedgerManifestEntry =
  me_ID :: string
  me_RecordType :: string
  me_ContentHash :: string

record LedgerManifest =
  lm_PeerID :: string
  lm_Entries :: "(string, LedgerManifestEntry) gomap"

definition stripHash :: "replica_env \<Rightarrow> string option \<Rightarrow> string" where
  "stripHash env json = (case json of None \<Rightarrow> [] | Some data \<Rightarrow> ''sha256:'' @ le_H (re_ledger env) data)"

definition contentHashContribution :: "replica_env \<Rightarrow> ContributionRecord \<Rightarrow> string" where
  "contentHashContribution env r =
     stripHash env (le_json_contribution (re_ledger env)
       (r\<lparr>cnr_Signature := [], cnr_Proof := \<lparr>sp_ContentHash = [], sp_StorageLocation = [], sp_Verified = False\<rparr>\<rparr>))"

definition contentHashContributionOf :: "replica_env \<Rightarrow> TrustRecord \<Rightarrow> string" where
  "contentHashContributionOf env t = stripHash env (re_json_trust env t)"

definition contentHashClaimOf :: "replica_env \<Rightarrow> CapabilityClaim \<Rightarrow> string" where
  "contentHashClaimOf env c = stripHash env (re_json_claim env c)"

definition contentHashPenaltyOf :: "replica_env \<Rightarrow> PenaltyRecord \<Rightarrow> string" where
  "contentHashPenaltyOf env p = stripHash env (le_json_penalty (re_ledger env) p)"

definition contentHashTxOf :: "replica_env \<Rightarrow> SignedTransaction \<Rightarrow> string" where
  "contentHashTxOf env tx = stripHash env (le_json_tx (re_ledger env) tx)"

text \<open>The digests of a kind, entered into the manifest by identifier.\<close>

definition add_digests :: "string \<Rightarrow> ('a \<Rightarrow> string) \<Rightarrow> ('a \<Rightarrow> string) \<Rightarrow> 'a list \<Rightarrow> (string, LedgerManifestEntry) gomap \<Rightarrow> (string, LedgerManifestEntry) gomap" where
  "add_digests kind id_of hash rs m =
     fold (\<lambda>r. gput (id_of r) \<lparr>me_ID = id_of r, me_RecordType = kind, me_ContentHash = hash r\<rparr>) rs m"

definition BuildManifest :: "replica_env \<Rightarrow> GossipLedger \<Rightarrow> LedgerManifest" where
  "BuildManifest env g =
     (let m1 = add_digests ''contrib'' cnr_ID (contentHashContribution env) (GetAllContributions g) [];
          m2 = add_digests ''trust'' tru_ID (contentHashContributionOf env) (GetAllTrusts g) m1;
          m3 = add_digests ''claim'' cla_ID (contentHashClaimOf env) (GetAllClaims g) m2;
          m4 = add_digests ''penalty'' pen_ID (contentHashPenaltyOf env) (GetAllPenalties g) m3;
          m5 = add_digests ''tx'' stx_ID (contentHashTxOf env) (GetAllTransactions g) m4
      in \<lparr>lm_PeerID = gl_peerID g, lm_Entries = m5\<rparr>)"

record ManifestDiff =
  md_Missing :: "LedgerManifestEntry list"
  md_Divergent :: "string list"
  md_Extra :: "LedgerManifestEntry list"

definition DiffManifests :: "LedgerManifest \<Rightarrow> LedgerManifest \<Rightarrow> ManifestDiff" where
  "DiffManifests local remote =
     \<lparr>md_Missing = map snd (filter (\<lambda>(i, re). gget (lm_Entries local) i = None) (lm_Entries remote)),
      md_Divergent = map fst (filter (\<lambda>(i, re). case gget (lm_Entries local) i of
                        None \<Rightarrow> False | Some le \<Rightarrow> me_ContentHash le \<noteq> me_ContentHash re) (lm_Entries remote)),
      md_Extra = map snd (filter (\<lambda>(i, le). gget (lm_Entries remote) i = None) (lm_Entries local))\<rparr>"

definition manifestsEqual :: "LedgerManifest \<Rightarrow> LedgerManifest \<Rightarrow> bool" where
  "manifestsEqual a b \<longleftrightarrow> length (lm_Entries a) = length (lm_Entries b) \<and>
     list_all (\<lambda>(i, ae). case gget (lm_Entries b) i of None \<Rightarrow> False | Some be \<Rightarrow> me_ContentHash ae = me_ContentHash be) (lm_Entries a)"

section \<open>Replicas within a process\<close>

text \<open>
  \<open>ReplicateContribution\<close> of the replica manager: one record, written to one ledger after the other; each writing fills
  in what is empty and signs again, and feeds the replication queue and the tracker of the process.
\<close>

fun replicate_to :: "ledger_env \<Rightarrow> io_env \<Rightarrow> nat \<Rightarrow> int \<Rightarrow> ContributionRecord \<Rightarrow> GossipLedger list \<Rightarrow> ContributionRecord list option
    \<Rightarrow> ContributionQuotaTracker option \<Rightarrow> GossipLedger list \<times> ContributionRecord list option \<times> ContributionQuotaTracker option" where
  "replicate_to env io pick now rec [] jobs tracker = ([], jobs, tracker)"
| "replicate_to env io pick now rec (r # rs) jobs tracker =
     (case RecordContribution env io pick now (Some rec) \<lparr>ln_ledger = r, ln_jobs = jobs, ln_tracker = tracker\<rparr> of
        (res, n) \<Rightarrow>
          (case replicate_to env io pick now (case res of Inr rec' \<Rightarrow> rec' | Inl _ \<Rightarrow> rec) rs (ln_jobs n) (ln_tracker n) of
             (rs', jobs', tracker') \<Rightarrow> (ln_ledger n # rs', jobs', tracker')))"

definition replica_ReplicateContribution :: "ledger_env \<Rightarrow> io_env \<Rightarrow> nat \<Rightarrow> int \<Rightarrow> ContributionRecord option \<Rightarrow> GossipLedger list
    \<Rightarrow> ContributionRecord list option \<Rightarrow> ContributionQuotaTracker option
    \<Rightarrow> (string + nat) \<times> GossipLedger list \<times> ContributionRecord list option \<times> ContributionQuotaTracker option" where
  "replica_ReplicateContribution env io pick now reco replicas jobs tracker =
     (case reco of
        None \<Rightarrow> (Inl ''nil contribution record'', replicas, jobs, tracker)
      | Some rec \<Rightarrow> (Inr (length replicas), replicate_to env io pick now rec replicas jobs tracker))"

text \<open>The loop of \<open>VerifyConsistency\<close>; the report has the number of records per peer.\<close>

fun verify_loop :: "replica_env \<Rightarrow> LedgerManifest option \<Rightarrow> GossipLedger list \<Rightarrow> (string, nat) gomap \<Rightarrow> bool \<times> (string, nat) gomap" where
  "verify_loop env ref [] report = (True, report)"
| "verify_loop env ref (r # rs) report =
     (let m = BuildManifest env r; report' = gput (gl_peerID r) (length (lm_Entries m)) report in
      case ref of
        None \<Rightarrow> verify_loop env (Some m) rs report'
      | Some ref' \<Rightarrow> if \<not> manifestsEqual ref' m then (False, report') else verify_loop env ref rs report')"

definition VerifyConsistency :: "replica_env \<Rightarrow> GossipLedger list \<Rightarrow> bool \<times> (string, nat) gomap" where
  "VerifyConsistency env replicas = verify_loop env None replicas []"

section \<open>Exchange with other nodes\<close>

text \<open>The record of an identifier, with its kind; the kinds are tried in this order.\<close>

definition find_record :: "GossipLedger \<Rightarrow> string \<Rightarrow> (string \<times> ledger_value) option" where
  "find_record g i =
     (case gget (gl_recs g) i of Some r \<Rightarrow> Some (''contrib'', VContrib r) | None \<Rightarrow>
     (case gget (gl_trusts g) i of Some r \<Rightarrow> Some (''trust'', VTrust r) | None \<Rightarrow>
     (case gget (gl_claims g) i of Some r \<Rightarrow> Some (''claim'', VClaim r) | None \<Rightarrow>
     (case gget (gl_penalties g) i of Some r \<Rightarrow> Some (''penalty'', VPenalty r) | None \<Rightarrow>
     (case gget (gl_txIndex g) i of Some tx \<Rightarrow> Some (''tx'', VTx tx) | None \<Rightarrow> None)))))"

definition handleLedgerRecordFor :: "GossipLedger \<Rightarrow> string \<Rightarrow> (string \<times> ledger_value) http_result" where
  "handleLedgerRecordFor g i =
     (if i = [] then HttpError 400 ''missing id''
      else case find_record g i of None \<Rightarrow> HttpError 404 ''not found'' | Some x \<Rightarrow> HttpOK x)"

text \<open>The value stands for the JSON text of the record; text that does not decode is \<open>VCorrupt\<close>.\<close>

definition storeFetchedRecord :: "string \<Rightarrow> ledger_value \<Rightarrow> GossipLedger \<Rightarrow> bool \<times> GossipLedger" where
  "storeFetchedRecord recordType raw g =
     (if recordType = ''contrib'' then (case raw of VContrib r \<Rightarrow> (True, snd (GossipSync [Some r] [] [] [] g)) | _ \<Rightarrow> (False, g))
      else if recordType = ''trust'' then (case raw of VTrust r \<Rightarrow> (True, snd (GossipSync [] [Some r] [] [] g)) | _ \<Rightarrow> (False, g))
      else if recordType = ''claim'' then (case raw of VClaim r \<Rightarrow> (True, snd (GossipSync [] [] [Some r] [] g)) | _ \<Rightarrow> (False, g))
      else if recordType = ''penalty'' then (case raw of VPenalty r \<Rightarrow> (True, snd (GossipSync [] [] [] [Some r] g)) | _ \<Rightarrow> (False, g))
      else (False, g))"

definition handleLedgerSyncFor :: "(string \<times> ledger_value) option \<Rightarrow> GossipLedger \<Rightarrow> unit http_result \<times> GossipLedger" where
  "handleLedgerSyncFor body g =
     (case body of
        None \<Rightarrow> (HttpError 400 ''invalid body'', g)
      | Some (rt, raw) \<Rightarrow>
          (case storeFetchedRecord rt raw g of
             (True, g') \<Rightarrow> (HttpOK (), g')
           | (False, g') \<Rightarrow> (HttpError 400 ''unsupported or rejected record type'', g')))"

record ledger_peer =
  lpr_manifest :: "LedgerManifest option"
  lpr_record :: "string \<Rightarrow> (string \<times> ledger_value) option"

fun heal_loop :: "(string \<Rightarrow> (string \<times> ledger_value) option) \<Rightarrow> LedgerManifestEntry list \<Rightarrow> GossipLedger \<Rightarrow> nat \<times> GossipLedger" where
  "heal_loop fetch [] g = (0, g)"
| "heal_loop fetch (me # mes) g =
     (case fetch (me_ID me) of
        None \<Rightarrow> heal_loop fetch mes g
      | Some (rt, raw) \<Rightarrow>
          (case storeFetchedRecord rt raw g of
             (stored, g1) \<Rightarrow>
               (case heal_loop fetch mes g1 of (k, g2) \<Rightarrow> (if stored then Suc k else k, g2))))"

text \<open>\<open>None\<close> is the error that the manifest could not be fetched.\<close>

definition reconcileWithManifest :: "ledger_peer \<Rightarrow> LedgerManifest \<Rightarrow> GossipLedger \<Rightarrow> (ManifestDiff \<times> nat) option \<times> GossipLedger" where
  "reconcileWithManifest peer local g =
     (case lpr_manifest peer of
        None \<Rightarrow> (None, g)
      | Some remote \<Rightarrow>
          let diff = DiffManifests local remote in
          (case heal_loop (lpr_record peer) (md_Missing diff) g of (healed, g') \<Rightarrow> (Some (diff, healed), g')))"

definition ReconcileWith :: "replica_env \<Rightarrow> ledger_peer \<Rightarrow> GossipLedger \<Rightarrow> (ManifestDiff \<times> nat) option \<times> GossipLedger" where
  "ReconcileWith env peer g = reconcileWithManifest peer (BuildManifest env g) g"

record ReconcileResult =
  rr_Missing :: nat
  rr_Healed :: nat
  rr_Divergent :: nat
  rr_failed :: bool

fun reconcile_peers :: "LedgerManifest \<Rightarrow> ledger_peer list \<Rightarrow> GossipLedger \<Rightarrow> ReconcileResult list \<times> GossipLedger" where
  "reconcile_peers local [] g = ([], g)"
| "reconcile_peers local (p # ps) g =
     (case reconcileWithManifest p local g of
        (res, g1) \<Rightarrow>
          (case reconcile_peers local ps g1 of
             (rest, g2) \<Rightarrow>
               ((case res of
                   None \<Rightarrow> \<lparr>rr_Missing = 0, rr_Healed = 0, rr_Divergent = 0, rr_failed = True\<rparr>
                 | Some (d, k) \<Rightarrow> \<lparr>rr_Missing = length (md_Missing d), rr_Healed = k, rr_Divergent = length (md_Divergent d), rr_failed = False\<rparr>) # rest,
                g2)))"

definition ReconcileAll :: "replica_env \<Rightarrow> ledger_peer list \<Rightarrow> GossipLedger \<Rightarrow> ReconcileResult list \<times> GossipLedger" where
  "ReconcileAll env peers g = (if peers = [] then ([], g) else reconcile_peers (BuildManifest env g) peers g)"

section \<open>Manifests\<close>

lemma gget_add_digests:
  assumes "distinct (map id_of rs)"
  shows "gget (add_digests kind id_of hash rs m) i =
    (case find (\<lambda>r. id_of r = i) rs of Some r \<Rightarrow> Some \<lparr>me_ID = i, me_RecordType = kind, me_ContentHash = hash r\<rparr> | None \<Rightarrow> gget m i)"
  using assms
proof (induction rs arbitrary: m)
  case (Cons r rs)
  have "find (\<lambda>r'. id_of r' = id_of r) rs = None" 
  proof -
    have "id_of r \<notin> id_of ` set rs" using Cons.prems by simp
    then show ?thesis unfolding find_None_iff by (metis imageI)
  qed
  with Cons show ?case by (auto simp: add_digests_def split: option.split)
qed (simp add: add_digests_def)

lemma find_row:
  assumes "rows_keyed id_of m"
  shows "find (\<lambda>r. id_of r = i) (map snd m) = gget m i" and "distinct (map id_of (map snd m))"
proof -
  have eq: "map id_of (map snd m) = map fst m"
    using assms by (auto simp: rows_keyed_def list_all_iff intro: map_cong)
  show "distinct (map id_of (map snd m))" unfolding eq using assms by (simp add: rows_keyed_def gmap_ok_def)
  have "list_all (\<lambda>(k, r). id_of r = k) m \<Longrightarrow> find (\<lambda>r. id_of r = i) (map snd m) = gget m i"
    by (induction m) auto
  then show "find (\<lambda>r. id_of r = i) (map snd m) = gget m i"
    using assms by (auto simp: rows_keyed_def list_all_iff)
qed

text \<open>The entry of an identifier; the last kind that has it counts.\<close>

definition digest_of :: "replica_env \<Rightarrow> GossipLedger \<Rightarrow> string \<Rightarrow> LedgerManifestEntry option" where
  "digest_of env g i =
     (case gget (gl_txIndex g) i of Some x \<Rightarrow> Some \<lparr>me_ID = i, me_RecordType = ''tx'', me_ContentHash = contentHashTxOf env x\<rparr> | None \<Rightarrow>
     (case gget (gl_penalties g) i of Some x \<Rightarrow> Some \<lparr>me_ID = i, me_RecordType = ''penalty'', me_ContentHash = contentHashPenaltyOf env x\<rparr> | None \<Rightarrow>
     (case gget (gl_claims g) i of Some x \<Rightarrow> Some \<lparr>me_ID = i, me_RecordType = ''claim'', me_ContentHash = contentHashClaimOf env x\<rparr> | None \<Rightarrow>
     (case gget (gl_trusts g) i of Some x \<Rightarrow> Some \<lparr>me_ID = i, me_RecordType = ''trust'', me_ContentHash = contentHashContributionOf env x\<rparr> | None \<Rightarrow>
     (case gget (gl_recs g) i of Some x \<Rightarrow> Some \<lparr>me_ID = i, me_RecordType = ''contrib'', me_ContentHash = contentHashContribution env x\<rparr> | None \<Rightarrow> None)))))"

definition books_ok :: "GossipLedger \<Rightarrow> bool" where
  "books_ok g \<longleftrightarrow> maps_ok g \<and> index_ok g \<and> distinct (map stx_ID (gl_txs g))"

lemma books_ok_ledger: "ledger_ok env g \<Longrightarrow> books_ok g"
  unfolding ledger_ok_def txs_ok_def books_ok_def by (blast dest: tx_ids_distinct)

lemma find_tx:
  assumes "index_ok g"
  shows "find (\<lambda>tx. stx_ID tx = i) (gl_txs g) = gget (gl_txIndex g) i"
proof -
  have "find (\<lambda>tx. stx_ID tx = i) txs = map_of (map (\<lambda>tx. (stx_ID tx, tx)) txs) i" for txs
    by (induction txs) auto
  then show ?thesis using assms by (simp add: index_ok_def)
qed

lemma gget_BuildManifest:
  assumes "books_ok g"
  shows "gget (lm_Entries (BuildManifest env g)) i = digest_of env g i"
proof -
  note ok = assms [unfolded books_ok_def maps_ok_def]
  note rows = find_row [of cnr_ID "gl_recs g"] find_row [of tru_ID "gl_trusts g"] find_row [of cla_ID "gl_claims g"] find_row [of pen_ID "gl_penalties g"]
  show ?thesis
    using ok rows find_tx [of g i]
    by (simp add: BuildManifest_def Let_def gget_add_digests GetAllContributions_def GetAllTrusts_def GetAllClaims_def
        GetAllPenalties_def GetAllTransactions_def digest_of_def del: map_map split: option.split)
qed

lemma gmap_ok_add_digests: "gmap_ok m \<Longrightarrow> gmap_ok (add_digests kind id_of hash rs m)"
  unfolding add_digests_def by (induction rs arbitrary: m) auto

lemma gmap_ok_BuildManifest [simp]: "gmap_ok (lm_Entries (BuildManifest env g))"
  by (simp add: BuildManifest_def Let_def gmap_ok_add_digests)

lemma digest_known: "digest_of env g i = None \<longleftrightarrow> find_record g i = None"
  by (auto simp: digest_of_def find_record_def split: option.splits)

lemma manifest_entry_id:
  assumes "books_ok g" and "(i, e) \<in> set (lm_Entries (BuildManifest env g))"
  shows "me_ID e = i"
proof -
  have "digest_of env g i = Some e"
    using in_set_gget [OF gmap_ok_BuildManifest assms(2)] gget_BuildManifest [OF assms(1)] by simp
  then show ?thesis by (auto simp: digest_of_def split: option.splits)
qed

lemma manifest_ids:
  assumes "books_ok g"
  shows "i \<in> fst ` set (lm_Entries (BuildManifest env g)) \<longleftrightarrow> find_record g i \<noteq> None"
  using gget_None_iff [of "lm_Entries (BuildManifest env g)" i] gget_BuildManifest [OF assms] digest_known [of env g i] by metis

text \<open>The identifiers a peer has and this ledger has not, in the order of the peer's manifest.\<close>

definition missing_ids :: "GossipLedger \<Rightarrow> LedgerManifest \<Rightarrow> string list" where
  "missing_ids g remote = filter (\<lambda>i. find_record g i = None) (map fst (lm_Entries remote))"

lemma diff_missing_ids:
  assumes "books_ok g" and "books_ok p"
  shows "map me_ID (md_Missing (DiffManifests (BuildManifest env g) (BuildManifest env p))) = missing_ids g (BuildManifest env p)"
proof -
  have "map me_ID (map snd (filter (\<lambda>(i, e). digest_of env g i = None) es)) = filter (\<lambda>i. find_record g i = None) (map fst es)"
    if "\<And>i e. (i, e) \<in> set es \<Longrightarrow> me_ID e = i" for es
    using that by (induction es) (auto simp: digest_known)
  from this [of "lm_Entries (BuildManifest env p)"] manifest_entry_id [OF assms(2)] show ?thesis
    by (simp add: DiffManifests_def missing_ids_def gget_BuildManifest [OF assms(1)])
qed

section \<open>Merging\<close>

lemma sync_one:
  "sync_rows id_of kind [Some r] m dirty =
     (if id_of r = [] \<or> gget m (id_of r) \<noteq> None then (0, m, dirty) else (1, gput (id_of r) r m, List.insert (kind @ id_of r) dirty))"
  by simp

text \<open>What a peer may send: a record under the identifier it carries, unless it is a transaction.\<close>

definition takeable :: "string \<times> ledger_value \<Rightarrow> bool" where
  "takeable tv \<longleftrightarrow> fst tv \<noteq> ''tx''"

lemma find_record_row:
  assumes "maps_ok p" and "find_record p i = Some (rt, v)"
  obtains (contrib) r where "rt = ''contrib''" "v = VContrib r" "cnr_ID r = i" "i \<noteq> []"
    | (trust) r where "rt = ''trust''" "v = VTrust r" "tru_ID r = i" "i \<noteq> []"
    | (claim) r where "rt = ''claim''" "v = VClaim r" "cla_ID r = i" "i \<noteq> []"
    | (penalty) r where "rt = ''penalty''" "v = VPenalty r" "pen_ID r = i" "i \<noteq> []"
    | (tx) tx where "rt = ''tx''" "v = VTx tx"
  using assms rows_keyed_get [of cnr_ID "gl_recs p" i] rows_keyed_get [of tru_ID "gl_trusts p" i]
    rows_keyed_get [of cla_ID "gl_claims p" i] rows_keyed_get [of pen_ID "gl_penalties p" i]
  by (simp add: find_record_def maps_ok_def split: option.splits) metis+

lemma store_fetched:
  assumes "maps_ok p" and "find_record p i = Some tv" and "find_record g i = None"
  shows "fst (storeFetchedRecord (fst tv) (snd tv) g) = takeable tv"
    and "find_record (snd (storeFetchedRecord (fst tv) (snd tv) g)) j = (if j = i \<and> takeable tv then Some tv else find_record g j)"
proof -
  have none: "gget (gl_recs g) i = None" "gget (gl_trusts g) i = None" "gget (gl_claims g) i = None" "gget (gl_penalties g) i = None"
    using assms(3) by (auto simp: find_record_def split: option.splits)
  obtain rt v where tv: "tv = (rt, v)" by force
  have "fst (storeFetchedRecord rt v g) = takeable tv \<and>
    find_record (snd (storeFetchedRecord rt v g)) j = (if j = i \<and> takeable tv then Some tv else find_record g j)"
    using assms(1) assms(2) [unfolded tv]
  proof (cases rule: find_record_row)
    case tx
    then show ?thesis by (simp add: storeFetchedRecord_def takeable_def tv)
  qed (simp_all add: storeFetchedRecord_def takeable_def tv GossipSync_def sync_one none find_record_def split: option.split)
  then show "fst (storeFetchedRecord (fst tv) (snd tv) g) = takeable tv"
    and "find_record (snd (storeFetchedRecord (fst tv) (snd tv) g)) j = (if j = i \<and> takeable tv then Some tv else find_record g j)"
    by (simp_all add: tv)
qed

text \<open>What the peer has of an identifier, if it can be taken over.\<close>

definition offered :: "GossipLedger \<Rightarrow> string \<Rightarrow> (string \<times> ledger_value) option" where
  "offered p i = (case find_record p i of Some tv \<Rightarrow> if takeable tv then Some tv else None | None \<Rightarrow> None)"

lemma heal_loop_honest:
  assumes "maps_ok p" and "distinct (map me_ID mes)" and "\<forall>i\<in>set (map me_ID mes). find_record g i = None"
    and "heal_loop (find_record p) mes g = (k, g')"
  shows "k = length (filter (\<lambda>i. offered p i \<noteq> None) (map me_ID mes)) \<and>
    find_record g' i = (if i \<in> set (map me_ID mes) then offered p i else find_record g i)"
  using assms(2-)
proof (induction mes arbitrary: g k)
  case (Cons me mes)
  show ?case
  proof (cases "find_record p (me_ID me)")
    case None
    with Cons.prems(3) have run: "heal_loop (find_record p) mes g = (k, g')" by simp
    have "k = length (filter (\<lambda>i. offered p i \<noteq> None) (map me_ID mes)) \<and>
        find_record g' i = (if i \<in> set (map me_ID mes) then offered p i else find_record g i)"
      using Cons.IH [OF _ _ run] Cons.prems by simp
    then show ?thesis using None Cons.prems(2) by (auto simp: offered_def)
  next
    case (Some tv)
    obtain b g1 where st: "storeFetchedRecord (fst tv) (snd tv) g = (b, g1)" by force
    have none: "find_record g (me_ID me) = None" using Cons.prems(2) by simp
    have b: "b = takeable tv" and g1: "\<And>j. find_record g1 j = (if j = me_ID me \<and> takeable tv then Some tv else find_record g j)"
      using store_fetched [OF assms(1) Some none] by (simp_all add: st)
    obtain k1 where run: "heal_loop (find_record p) mes g1 = (k1, g')" and k: "k = (if b then Suc k1 else k1)"
      using Cons.prems(3) Some st by (auto split: prod.splits)
    have "k1 = length (filter (\<lambda>i. offered p i \<noteq> None) (map me_ID mes)) \<and>
        find_record g' i = (if i \<in> set (map me_ID mes) then offered p i else find_record g1 i)"
    proof (rule Cons.IH [OF _ _ run])
      show "distinct (map me_ID mes)" using Cons.prems(1) by simp
      have "me_ID me \<notin> set (map me_ID mes)" using Cons.prems(1) by simp
      then show "\<forall>i\<in>set (map me_ID mes). find_record g1 i = None"
        unfolding g1 using Cons.prems(2) by (metis list.set_intros(2) list.simps(9))
    qed
    then show ?thesis using Some none Cons.prems(1) by (auto simp: offered_def g1 k b)
  qed
qed simp

text \<open>A ledger that has grown: records are only added, and transactions, counters and identity are the same.\<close>

definition grown :: "GossipLedger \<Rightarrow> GossipLedger \<Rightarrow> bool" where
  "grown g g' \<longleftrightarrow>
     (\<forall>i r. gget (gl_recs g) i = Some r \<longrightarrow> gget (gl_recs g') i = Some r) \<and>
     (\<forall>i r. gget (gl_trusts g) i = Some r \<longrightarrow> gget (gl_trusts g') i = Some r) \<and>
     (\<forall>i r. gget (gl_claims g) i = Some r \<longrightarrow> gget (gl_claims g') i = Some r) \<and>
     (\<forall>i r. gget (gl_penalties g) i = Some r \<longrightarrow> gget (gl_penalties g') i = Some r) \<and>
     gl_txs g' = gl_txs g \<and> gl_dailyContrib g' = gl_dailyContrib g \<and> gl_seq g' = gl_seq g \<and> gl_peerID g' = gl_peerID g"

lemma grown_refl [simp]: "grown g g"
  by (simp add: grown_def)

lemma grown_trans [trans]: "grown a b \<Longrightarrow> grown b c \<Longrightarrow> grown a c"
  by (simp add: grown_def)

lemma GossipSync_grown: "grown g (snd (GossipSync cs ts cls ps g))"
proof -
  obtain k g' where run: "GossipSync cs ts cls ps g = (k, g')" by force
  then obtain k1 k2 k3 k4 d1 d2 d3 where
    m: "merge_spec cnr_ID bboltLedgerContribPrefix cs (gl_recs g) (gl_dirty g) k1 (gl_recs g') d1"
      "merge_spec tru_ID bboltLedgerTrustPrefix ts (gl_trusts g) d1 k2 (gl_trusts g') d2"
      "merge_spec cla_ID bboltLedgerClaimPrefix cls (gl_claims g) d2 k3 (gl_claims g') d3"
      "merge_spec pen_ID bboltLedgerPenaltyPrefix ps (gl_penalties g) d3 k4 (gl_penalties g') (gl_dirty g')"
    and g': "g' = g\<lparr>gl_recs := gl_recs g', gl_trusts := gl_trusts g', gl_claims := gl_claims g', gl_penalties := gl_penalties g', gl_dirty := gl_dirty g'\<rparr>"
    by (rule GossipSync_parts)
  have "gl_txs g' = gl_txs g" "gl_dailyContrib g' = gl_dailyContrib g" "gl_peerID g' = gl_peerID g" "gl_seq g' = gl_seq g"
    by (subst g', simp)+
  then show ?thesis using m [THEN merge_specD(1)] unfolding grown_def run by simp
qed

lemma storeFetchedRecord_safe:
  assumes "ledger_ok env g"
  shows "ledger_ok env (snd (storeFetchedRecord rt raw g)) \<and> grown g (snd (storeFetchedRecord rt raw g))"
  by (simp add: storeFetchedRecord_def assms GossipSync_ok GossipSync_grown split: ledger_value.split)

lemma heal_loop_safe:
  "ledger_ok env g \<Longrightarrow> ledger_ok env (snd (heal_loop fetch mes g)) \<and> grown g (snd (heal_loop fetch mes g))"
proof (induction mes arbitrary: g)
  case (Cons me mes)
  show ?case
  proof (cases "fetch (me_ID me)")
    case (Some tv)
    obtain rt raw where tv: "tv = (rt, raw)" by force
    obtain b g1 where st: "storeFetchedRecord rt raw g = (b, g1)" by force
    note step = storeFetchedRecord_safe [OF Cons.prems, of rt raw, unfolded st snd_conv]
    from Cons.IH [of g1] step show ?thesis
      by (auto simp: Some tv st split: prod.split intro: grown_trans)
  qed (use Cons in simp)
qed simp

lemma reconcileWithManifest_safe:
  assumes "ledger_ok env g"
  shows "ledger_ok env (snd (reconcileWithManifest peer local g)) \<and> grown g (snd (reconcileWithManifest peer local g))"
  using heal_loop_safe [OF assms] assms
  by (auto simp: reconcileWithManifest_def Let_def split: option.split prod.split) (metis snd_conv)+

lemma reconcile_peers_safe:
  "ledger_ok env g \<Longrightarrow> ledger_ok env (snd (reconcile_peers local peers g)) \<and> grown g (snd (reconcile_peers local peers g))"
proof (induction peers arbitrary: g)
  case (Cons p peers)
  obtain res g1 where st: "reconcileWithManifest p local g = (res, g1)" by force
  note step = reconcileWithManifest_safe [OF Cons.prems, of p local, unfolded st snd_conv]
  from Cons.IH [of g1] step show ?case by (auto simp: st split: prod.split intro: grown_trans)
qed simp

section \<open>What replication guarantees\<close>

definition sample_peer :: GossipLedger where
  "sample_peer = snd (GossipSync [Some (sample_contribution\<lparr>cnr_ID := ''c1''\<rparr>)] [] [] [] sample_ledger)"

text \<open>
  Reconciling with another node. If the peer answers from a well-formed ledger, then afterwards every record it has
  under an identifier unknown here is here too, of the same kind and unchanged, transactions excepted; every identifier
  known before still names the same record; and the reported number of healed records is the number of records taken.
\<close>

theorem reconcile_honest_peer:
  assumes "ledger_ok (re_ledger env) g" and "ledger_ok (re_ledger env) p"
    and "ReconcileWith env \<lparr>lpr_manifest = Some (BuildManifest env p), lpr_record = find_record p\<rparr> g = (res, g')"
  shows "find_record g' i = (if find_record g i = None then offered p i else find_record g i) \<and>
    (\<exists>d. res = Some (d, card {j. find_record g j = None \<and> offered p j \<noteq> None}))"
proof -
  note ok = assms(1,2) [THEN books_ok_ledger]
  have maps: "maps_ok p" using ok(2) by (simp add: books_ok_def)
  define mes where "mes = md_Missing (DiffManifests (BuildManifest env g) (BuildManifest env p))"
  obtain k where run: "heal_loop (find_record p) mes g = (k, g')" and res: "\<exists>d. res = Some (d, k)"
    using assms(3) by (auto simp: ReconcileWith_def reconcileWithManifest_def Let_def mes_def split: prod.splits)
  have ids: "map me_ID mes = missing_ids g (BuildManifest env p)" unfolding mes_def by (rule diff_missing_ids [OF ok])
  have set_ids: "set (map me_ID mes) = {i. find_record g i = None \<and> find_record p i \<noteq> None}"
    unfolding ids missing_ids_def set_filter set_map using manifest_ids [OF ok(2)] by blast
  have dist_ids: "distinct (map me_ID mes)"
    unfolding ids missing_ids_def using gmap_ok_BuildManifest [of env p] by (simp add: gmap_ok_def)
  have healed: "k = length (filter (\<lambda>i. offered p i \<noteq> None) (map me_ID mes)) \<and>
      find_record g' i = (if i \<in> set (map me_ID mes) then offered p i else find_record g i)"
    by (rule heal_loop_honest [OF maps dist_ids _ run]) (simp add: set_ids del: set_map)
  have "k = card (set (filter (\<lambda>i. offered p i \<noteq> None) (map me_ID mes)))"
    using healed distinct_card [OF distinct_filter [OF dist_ids]] by simp
  moreover have "set (filter (\<lambda>i. offered p i \<noteq> None) (map me_ID mes)) = {j. find_record g j = None \<and> offered p j \<noteq> None}"
    unfolding set_filter set_ids by (auto simp: offered_def split: option.splits)
  moreover have "find_record g' i = (if find_record g i = None then offered p i else find_record g i)"
    using healed by (simp add: set_ids offered_def del: set_map split: option.split)
  ultimately show ?thesis using res by auto
qed

theorem reconcile_honest_peer_witness:
  "\<exists>g' d. ReconcileWith \<lparr>re_ledger = plain_env, re_json_trust = \<lambda>_. None, re_json_claim = \<lambda>_. None\<rparr>
       \<lparr>lpr_manifest = Some (BuildManifest \<lparr>re_ledger = plain_env, re_json_trust = \<lambda>_. None, re_json_claim = \<lambda>_. None\<rparr> sample_peer),
        lpr_record = find_record sample_peer\<rparr> sample_ledger = (Some (d, 1), g') \<and>
     find_record g' ''c1'' = Some (''contrib'', VContrib (sample_contribution\<lparr>cnr_ID := ''c1''\<rparr>))"
proof -
  let ?env = "\<lparr>re_ledger = plain_env, re_json_trust = \<lambda>_. None, re_json_claim = \<lambda>_. None\<rparr>"
  let ?peer = "\<lparr>lpr_manifest = Some (BuildManifest ?env sample_peer), lpr_record = find_record sample_peer\<rparr>"
  have ok: "ledger_ok (re_ledger ?env) sample_ledger" "ledger_ok (re_ledger ?env) sample_peer"
    by (simp_all add: sample_peer_def sample_ledger_ok GossipSync_ok)
  have own: "find_record sample_ledger i = None" for i by (simp add: sample_ledger_def NewGossipLedger_def find_record_def)
  have peer: "offered sample_peer i = (if i = ''c1'' then Some (''contrib'', VContrib (sample_contribution\<lparr>cnr_ID := ''c1''\<rparr>)) else None)" for i
    by (simp add: sample_peer_def offered_def find_record_def takeable_def GossipSync_def sync_one sample_ledger_def NewGossipLedger_def)
  obtain res g' where run: "ReconcileWith ?env ?peer sample_ledger = (res, g')" by force
  have "{j. find_record sample_ledger j = None \<and> offered sample_peer j \<noteq> None} = {''c1''}" by (auto simp: own peer)
  with reconcile_honest_peer [OF ok run] show ?thesis unfolding run own peer by auto
qed

text \<open>
  Whatever manifests and records the peers answer with, reconciling with all of them keeps the ledger well-formed:
  no record is changed or lost, no transaction is added, and the counters of the share limits stay.
\<close>

theorem reconcile_any_peers:
  assumes "ledger_ok (re_ledger env) g"
  shows "ledger_ok (re_ledger env) (snd (ReconcileAll env peers g)) \<and> grown g (snd (ReconcileAll env peers g))"
  using reconcile_peers_safe [OF assms, of "BuildManifest env g" peers] assms by (simp add: ReconcileAll_def)


theorem reconcile_any_peers_witness:
  "grown sample_ledger (snd (ReconcileAll \<lparr>re_ledger = plain_env, re_json_trust = \<lambda>_. None, re_json_claim = \<lambda>_. None\<rparr>
     [\<lparr>lpr_manifest = None, lpr_record = \<lambda>_. None\<rparr>,
      \<lparr>lpr_manifest = Some \<lparr>lm_PeerID = ''x'', lm_Entries = [(''a'', \<lparr>me_ID = ''b'', me_RecordType = [], me_ContentHash = []\<rparr>)]\<rparr>,
       lpr_record = \<lambda>_. Some (''tx'', VCorrupt)\<rparr>] sample_ledger))"
  by (rule reconcile_any_peers [THEN conjunct2]) (simp add: sample_ledger_ok)

section \<open>Replicas that stay in step\<close>

text \<open>The part of a record that its digest covers.\<close>

definition record_core :: "ContributionRecord \<Rightarrow> ContributionRecord" where
  "record_core r = r\<lparr>cnr_Signature := [], cnr_Proof := \<lparr>sp_ContentHash = [], sp_StorageLocation = [], sp_Verified = False\<rparr>\<rparr>"

lemma content_hash_core: "record_core a = record_core b \<Longrightarrow> contentHashContribution env a = contentHashContribution env b"
  by (simp add: contentHashContribution_def record_core_def)

definition filled_in :: "int \<Rightarrow> ContributionRecord \<Rightarrow> bool" where
  "filled_in now r \<longleftrightarrow> cnr_ID r \<noteq> [] \<and> cnr_PeerID r \<noteq> [] \<and> (cnr_Timestamp r = zero_time \<longrightarrow> now = zero_time)"

lemma record_shape:
  assumes "record_contribution env now rec g = (rec', g')"
  obtains i sig where "rec' = rec\<lparr>cnr_ID := i, cnr_PeerID := (if cnr_PeerID rec = [] then gl_peerID g else cnr_PeerID rec),
      cnr_Timestamp := (if cnr_Timestamp rec = zero_time then now else cnr_Timestamp rec), cnr_Signature := sig\<rparr>"
    and "cnr_ID rec \<noteq> [] \<longrightarrow> i = cnr_ID rec"
proof -
  obtain i g1 where f: "(if cnr_ID rec = [] then nextID ''contrib'' g else (cnr_ID rec, g)) = (i, g1)" by force
  let ?rec1 = "rec\<lparr>cnr_ID := i, cnr_PeerID := (if cnr_PeerID rec = [] then gl_peerID g else cnr_PeerID rec),
      cnr_Timestamp := (if cnr_Timestamp rec = zero_time then now else cnr_Timestamp rec)\<rparr>"
  have r: "rec' = (case le_json_contribution env ?rec1 of Some data \<Rightarrow> ?rec1\<lparr>cnr_Signature := le_sign env (gl_priv g) data\<rparr> | None \<Rightarrow> ?rec1)"
    using assms unfolding record_contribution_def f Let_def prod.case prod.inject by (rule conjunct1 [THEN sym])
  have i: "cnr_ID rec \<noteq> [] \<longrightarrow> i = cnr_ID rec" using f by auto
  show thesis
  proof (cases "le_json_contribution env ?rec1")
    case None
    show thesis by (rule that [OF _ i, of "cnr_Signature rec"]) (simp add: r None)
  next
    case (Some d)
    show thesis by (rule that [OF _ i]) (simp only: r Some option.case)
  qed
qed

lemma record_filled_in:
  assumes "record_contribution env now rec g = (rec', g')"
  shows "filled_in now rec \<Longrightarrow> record_core rec' = record_core rec \<and> filled_in now rec'"
    and "cnr_ID rec' \<noteq> [] \<Longrightarrow> gl_peerID g \<noteq> [] \<Longrightarrow> filled_in now rec'"
  using assms by (auto elim!: record_shape simp: filled_in_def record_core_def split: if_splits)

lemma record_keeps:
  assumes "record_contribution env now rec g = (rec', g1)"
  shows "gl_txIndex g1 = gl_txIndex g" "gl_penalties g1 = gl_penalties g" "gl_claims g1 = gl_claims g" "gl_trusts g1 = gl_trusts g"
    "gl_peerID g1 = gl_peerID g" "gl_recs g1 = gput (cnr_ID rec') rec' (gl_recs g)"
  using assms
  by (auto simp: record_contribution_def Let_def nextID_def markDirtyLocked_def split: option.splits prod.splits if_splits)

lemma attach_keeps:
  "gl_txIndex (attach_proof env pick rec g) = gl_txIndex g" "gl_penalties (attach_proof env pick rec g) = gl_penalties g"
  "gl_claims (attach_proof env pick rec g) = gl_claims g" "gl_trusts (attach_proof env pick rec g) = gl_trusts g"
  "gl_peerID (attach_proof env pick rec g) = gl_peerID g"
  by (auto simp: attach_proof_def Let_def markDirtyLocked_def split: option.split prod.split)

lemma attach_record:
  obtains r where "record_core r = record_core rec" 
    and "gl_recs g = gput (cnr_ID rec) rec m \<Longrightarrow> gl_recs (attach_proof env pick rec g) = gput (cnr_ID rec) r m"
proof -
  obtain cid cache where st: "StoreJSON env pick (le_json_contribution env rec) (gl_localCache g) = (cid, cache)" by force
  show thesis
  proof (cases cid)
    case None
    show thesis by (rule that [of rec]) (simp_all add: attach_proof_def st None)
  next
    case (Some c)
    show thesis
      by (rule that [of "rec\<lparr>cnr_Proof := (cnr_Proof rec)\<lparr>sp_ContentHash := c, sp_StorageLocation := ''local-hash''\<rparr>\<rparr>"])
        (simp_all add: attach_proof_def st Some Let_def markDirtyLocked_def record_core_def)
  qed
qed

text \<open>The digests after writing one record depend on those before and on the core of the record only.\<close>

definition digest_after :: "replica_env \<Rightarrow> ContributionRecord \<Rightarrow> (string \<Rightarrow> LedgerManifestEntry option) \<Rightarrow> string \<Rightarrow> LedgerManifestEntry option" where
  "digest_after env rec D j =
     (if j = cnr_ID rec \<and> (case D j of None \<Rightarrow> True | Some e \<Rightarrow> me_RecordType e = ''contrib'')
      then Some \<lparr>me_ID = j, me_RecordType = ''contrib'', me_ContentHash = contentHashContribution env rec\<rparr>
      else D j)"

lemma digest_after_write:
  assumes "record_contribution lenv now rec g = (rec', g1)"
  shows "digest_of env (attach_proof lenv pick rec' g1) = digest_after env rec' (digest_of env g)"
proof -
  note keeps = record_keeps [OF assms]
  obtain r where core: "record_core r = record_core rec'" and "gl_recs (attach_proof lenv pick rec' g1) = gput (cnr_ID rec') r (gl_recs g)"
    using attach_record [where rec = rec' and m = "gl_recs g" and g = g1 and env = lenv and pick = pick] keeps(6) by (metis gput_gput)
  then show ?thesis
    by (intro ext) (simp add: digest_of_def digest_after_def attach_keeps keeps content_hash_core [OF core] split: option.split)
qed


lemma digest_after_core:
  assumes "record_core a = record_core b"
  shows "digest_after env a D = digest_after env b D"
proof -
  have "cnr_ID (record_core a) = cnr_ID (record_core b)" using assms by simp
  then have "cnr_ID a = cnr_ID b" by (simp add: record_core_def)
  then show ?thesis unfolding digest_after_def content_hash_core [OF assms] by simp
qed

definition in_step :: "replica_env \<Rightarrow> (string \<Rightarrow> LedgerManifestEntry option) \<Rightarrow> GossipLedger list \<Rightarrow> bool" where
  "in_step env D rs \<longleftrightarrow> (\<forall>r\<in>set rs. ledger_ok (re_ledger env) r \<and> gl_peerID r \<noteq> [] \<and> digest_of env r = D)"

lemma write_in_step:
  assumes "in_step env D [r]" and "gl_seq r < 18446744073709551615"
    and "record_contribution (re_ledger env) now rec r = (rec', g1)"
  shows "in_step env (digest_after env rec' D) [attach_proof (re_ledger env) pick rec' g1]" and "filled_in now rec'"
proof -
  have ok: "ledger_ok (re_ledger env) r" "gl_peerID r \<noteq> []" "digest_of env r = D" using assms(1) by (simp_all add: in_step_def)
  note rc = record_contribution_ok [OF ok(1) assms(2,3)]
  show "in_step env (digest_after env rec' D) [attach_proof (re_ledger env) pick rec' g1]"
    using attach_proof_ok(1) [OF rc(1,3)] digest_after_write [OF assms(3), of env pick] ok
    by (simp add: in_step_def attach_keeps record_keeps [OF assms(3)])
  show "filled_in now rec'" by (rule record_filled_in(2) [OF assms(3) rc(3) ok(2)])
qed

lemma in_step_Cons: "in_step env D (r # rs) \<longleftrightarrow> in_step env D [r] \<and> in_step env D rs"
  by (auto simp: in_step_def)

lemma replicate_to_Cons:
  assumes "record_contribution env now rec r = (rec', g1)"
    and "replicate_to env io pick now rec (r # rs) jobs tracker = (rs', jobs', tracker')"
  obtains rs0 j t where "rs' = attach_proof env pick rec' g1 # rs0" and "replicate_to env io pick now rec' rs j t = (rs0, jobs', tracker')"
  using assms(2) by (auto simp: RecordContribution_def assms(1) Let_def split: prod.splits)

lemma replicate_filled_in:
  assumes "filled_in now rec" and "in_step env D rs" and "\<forall>r\<in>set rs. gl_seq r < 18446744073709551615"
    and "replicate_to (re_ledger env) io pick now rec rs jobs tracker = (rs', jobs', tracker')"
  shows "in_step env (digest_after env rec D) rs'"
  using assms
proof (induction rs arbitrary: rec rs' jobs tracker)
  case Nil
  then show ?case by (simp add: in_step_def)
next
  case (Cons r rs)
  obtain rec' g1 where w: "record_contribution (re_ledger env) now rec r = (rec', g1)" by force
  from w Cons.prems(4) obtain rs0 j t where rs': "rs' = attach_proof (re_ledger env) pick rec' g1 # rs0"
    and run: "replicate_to (re_ledger env) io pick now rec' rs j t = (rs0, jobs', tracker')" by (rule replicate_to_Cons)
  have core: "record_core rec' = record_core rec" and f: "filled_in now rec'"
    using record_filled_in(1) [OF w Cons.prems(1)] by simp_all
  have r: "in_step env D [r]" "in_step env D rs" using Cons.prems(2) in_step_Cons by blast+
  have "in_step env (digest_after env rec' D) rs0" using Cons.IH [OF f r(2) _ run] Cons.prems(3) by simp
  moreover have "in_step env (digest_after env rec' D) [attach_proof (re_ledger env) pick rec' g1]"
    using write_in_step(1) [OF r(1) _ w] Cons.prems(3) by simp
  ultimately show ?case unfolding rs' digest_after_core [OF core] by (subst in_step_Cons) blast
qed

lemma manifest_length_eq:
  assumes "books_ok a" and "books_ok b" and "digest_of env a = digest_of env b"
  shows "manifestsEqual (BuildManifest env a) (BuildManifest env b)"
proof -
  let ?ea = "lm_Entries (BuildManifest env a)" and ?eb = "lm_Entries (BuildManifest env b)"
  have g: "gget ?ea i = gget ?eb i" for i by (simp add: gget_BuildManifest assms)
  have "fst ` set ?ea = fst ` set ?eb" 
  proof (rule set_eqI)
    show "i \<in> fst ` set ?ea \<longleftrightarrow> i \<in> fst ` set ?eb" for i
      using g [of i] gget_None_iff [of ?ea i] gget_None_iff [of ?eb i] by simp
  qed
  moreover have "length es = card (fst ` set es)" if "gmap_ok es" for es :: "(string, LedgerManifestEntry) gomap"
    using distinct_card [of "map fst es"] that by (simp add: gmap_ok_def)
  ultimately have "length ?ea = length ?eb" using gmap_ok_BuildManifest by metis
  moreover have "gget ?eb i = Some e" if "(i, e) \<in> set ?ea" for i e using in_set_gget [OF gmap_ok_BuildManifest that] g by simp
  ultimately show ?thesis by (auto simp: manifestsEqual_def list_all_iff)
qed

lemma verify_in_step:
  assumes "in_step env D rs" and "\<And>m. ref = Some m \<Longrightarrow> \<exists>a. books_ok a \<and> digest_of env a = D \<and> m = BuildManifest env a"
  shows "fst (verify_loop env ref rs report)"
  using assms
proof (induction rs arbitrary: ref report)
  case (Cons r rs)
  have r: "books_ok r" "digest_of env r = D" "in_step env D rs"
    using Cons.prems(1) books_ok_ledger by (auto simp: in_step_def)
  have rest: "fst (verify_loop env (Some m) rs rep)" if "\<exists>a. books_ok a \<and> digest_of env a = D \<and> m = BuildManifest env a" for m rep
    using Cons.IH [OF r(3)] that by blast
  show ?case
  proof (cases ref)
    case None
    have "fst (verify_loop env (Some (BuildManifest env r)) rs rep)" for rep by (rule rest) (use r in blast)
    then show ?thesis by (simp add: None Let_def)
  next
    case (Some m)
    from Cons.prems(2) [OF Some] obtain a where a: "books_ok a" "digest_of env a = D" "m = BuildManifest env a" by blast
    have "manifestsEqual m (BuildManifest env r)" unfolding a(3) using a r by (intro manifest_length_eq) simp_all
    moreover have "fst (verify_loop env (Some m) rs rep)" for rep by (rule rest) (use a in blast)
    ultimately show ?thesis by (simp add: Some Let_def)
  qed
qed simp

text \<open>
  Replicas of the ledger that agree keep agreeing: whichever defaults the first replica fills in, every replica
  stores the same record up to signature and proof, so that the check of their consistency succeeds afterwards.
\<close>

theorem replicas_stay_consistent:
  assumes "in_step env D rs" and "\<forall>r\<in>set rs. gl_seq r < 18446744073709551615"
    and "replica_ReplicateContribution (re_ledger env) io pick now (Some rec) rs jobs tracker = (res, rs', jobs', tracker')"
  shows "\<exists>D'. in_step env D' rs' \<and> fst (VerifyConsistency env rs') \<and> res = Inr (length rs)"
proof -
  have run: "replicate_to (re_ledger env) io pick now rec rs jobs tracker = (rs', jobs', tracker')" and res: "res = Inr (length rs)"
    using assms(3) by (auto simp: replica_ReplicateContribution_def)
  have "\<exists>D'. in_step env D' rs'"
  proof (cases rs)
    case Nil
    then show ?thesis using run by (auto simp: in_step_def)
  next
    case (Cons r rs1)
    obtain rec' g1 where w: "record_contribution (re_ledger env) now rec r = (rec', g1)" by force
    from w run [unfolded Cons] obtain rs0 j t where rs': "rs' = attach_proof (re_ledger env) pick rec' g1 # rs0"
      and run1: "replicate_to (re_ledger env) io pick now rec' rs1 j t = (rs0, jobs', tracker')" by (rule replicate_to_Cons)
    have r: "in_step env D [r]" "in_step env D rs1" "gl_seq r < 18446744073709551615" "\<forall>r\<in>set rs1. gl_seq r < 18446744073709551615"
      using assms(1,2) by (simp_all add: in_step_def Cons)
    note first = write_in_step [OF r(1,3) w]
    from first(1) replicate_filled_in [OF first(2) r(2,4) run1] show ?thesis unfolding rs' by (subst in_step_Cons) blast
  qed
  then show ?thesis using verify_in_step [of env _ rs' None "[]"] res by (auto simp: VerifyConsistency_def)
qed

theorem replicas_stay_consistent_witness:
  "\<exists>rs' jobs' tracker'. replica_ReplicateContribution plain_env (io_fine False) 0 5 (Some sample_contribution) [sample_ledger, sample_ledger] None None
       = (Inr 2, rs', jobs', tracker') \<and>
     fst (VerifyConsistency \<lparr>re_ledger = plain_env, re_json_trust = \<lambda>_. None, re_json_claim = \<lambda>_. None\<rparr> rs')"
proof -
  let ?env = "\<lparr>re_ledger = plain_env, re_json_trust = \<lambda>_. None, re_json_claim = \<lambda>_. None\<rparr>"
  have peer: "gl_peerID sample_ledger \<noteq> []" by (simp add: sample_ledger_def NewGossipLedger_def)
  have st: "in_step ?env (digest_of ?env sample_ledger) [sample_ledger, sample_ledger]"
    using sample_ledger_ok(1) peer by (simp add: in_step_def)
  obtain res rs' jobs' tracker' where
    run: "replica_ReplicateContribution (re_ledger ?env) (io_fine False) 0 5 (Some sample_contribution) [sample_ledger, sample_ledger] None None
       = (res, rs', jobs', tracker')" by (metis prod_cases4)
  from replicas_stay_consistent [OF st _ run] sample_ledger_ok(3) show ?thesis using run by auto
qed

end
