(* ===== verification/Ticket_Store.thy ===== *)
theory Ticket_Store
  imports Calendar
begin

text \<open>
  Usage tickets (\<open>src/ticket.go\<close>): the proof that a request was served, its fingerprint, the store that refuses a
  fingerprint it has seen, notarization, and the statistics that flag providers.

  Time stamps of tickets are texts; \<open>te_format\<close> and \<open>te_parse\<close> print and read them. The hash, the identity of the node
  and its signature are parameters too. Ratios are computed in the reals.
\<close>

section \<open>Tickets and their store\<close>

record UsageTicket =
  ut_ID :: string
  ut_RequestID :: string
  ut_RequestorID :: string
  ut_ProviderID :: string
  ut_ModelID :: string
  ut_Amount :: int
  ut_Timestamp :: string
  ut_ReqSig :: string
  ut_ProvSig :: string
  ut_Fingerprint :: string

record ticket_env =
  te_H :: "string \<Rightarrow> string"
  te_node :: "string option"
  te_SignJSON :: "UsageTicket \<Rightarrow> string"
  te_format :: "int \<Rightarrow> string"
  te_parse :: "string \<Rightarrow> int option"

definition fingerprint_text :: "UsageTicket \<Rightarrow> string" where
  "fingerprint_text t = ut_RequestID t @ '':'' @ ut_RequestorID t @ '':'' @ ut_ProviderID t @ '':'' @ ut_ModelID t @ '':'' @
     itoa (ut_Amount t) @ '':'' @ ut_Timestamp t"

definition TicketFingerprint :: "ticket_env \<Rightarrow> UsageTicket \<Rightarrow> string" where
  "TicketFingerprint env t = te_H env (fingerprint_text t)"

record TicketStore =
  ts_seen :: "(string, int) gomap"
  ts_tickets :: "(string, UsageTicket) gomap"
  ts_notarized :: "(string, bool) gomap"

definition initTicketStore :: TicketStore where
  "initTicketStore = \<lparr>ts_seen = [], ts_tickets = [], ts_notarized = []\<rparr>"

definition ticket_Cleanup :: "ticket_env \<Rightarrow> int \<Rightarrow> int \<Rightarrow> TicketStore \<Rightarrow> TicketStore" where
  "ticket_Cleanup env now maxAge ts =
     (let cutoff = now - maxAge; old = map fst (filter (\<lambda>(fp, seenAt). seenAt < cutoff) (ts_seen ts)) in
      ts\<lparr>ts_seen := gfilter (\<lambda>fp seenAt. \<not> seenAt < cutoff) (ts_seen ts),
         ts_notarized := gfilter (\<lambda>fp _. fp \<notin> set old) (ts_notarized ts),
         ts_tickets := gfilter (\<lambda>_ t. \<not> (case te_parse env (ut_Timestamp t) of Some seenAt \<Rightarrow> seenAt < cutoff | None \<Rightarrow> False)) (ts_tickets ts)\<rparr>)"

text \<open>The period that the cleanup loop uses.\<close>

definition ticket_max_age :: int where
  "ticket_max_age = 24 * ns_hour"

text \<open>\<open>rand\<close> is the random part of the identifier.\<close>

definition IssueTicket :: "ticket_env \<Rightarrow> int \<Rightarrow> string \<Rightarrow> string \<Rightarrow> string \<Rightarrow> string \<Rightarrow> string \<Rightarrow> int \<Rightarrow> UsageTicket" where
  "IssueTicket env now rand requestID requestorID providerID modelID amount =
     (let t = \<lparr>ut_ID = ''tkt-'' @ rand, ut_RequestID = requestID, ut_RequestorID = requestorID, ut_ProviderID = providerID,
               ut_ModelID = modelID, ut_Amount = amount, ut_Timestamp = te_format env now, ut_ReqSig = [], ut_ProvSig = [],
               ut_Fingerprint = []\<rparr>;
          t1 = t\<lparr>ut_Fingerprint := TicketFingerprint env t\<rparr>
      in if te_node env = Some requestorID then t1\<lparr>ut_ReqSig := te_SignJSON env t1\<rparr> else t1)"

text \<open>
  The error message of a double spend cuts the fingerprint after 16 characters; a shorter one makes the slice panic.
\<close>

datatype ticket_error = NilTicket | DoubleSpend string | SlicePanic

definition Countersign :: "ticket_env \<Rightarrow> int \<Rightarrow> UsageTicket option \<Rightarrow> TicketStore \<Rightarrow> (ticket_error + UsageTicket) \<times> TicketStore" where
  "Countersign env now to ts =
     (case to of
        None \<Rightarrow> (Inl NilTicket, ts)
      | Some t \<Rightarrow>
          if gget (ts_seen ts) (ut_Fingerprint t) \<noteq> None
          then (Inl (if length (ut_Fingerprint t) < 16 then SlicePanic else DoubleSpend (take 16 (ut_Fingerprint t))), ts)
          else let t' = (if te_node env = Some (ut_ProviderID t) then t\<lparr>ut_ProvSig := te_SignJSON env t\<rparr> else t)
               in (Inr t', ts\<lparr>ts_seen := gput (ut_Fingerprint t) now (ts_seen ts), ts_tickets := gput (ut_ID t) t' (ts_tickets ts)\<rparr>))"

definition IsDoubleSpend :: "string \<Rightarrow> TicketStore \<Rightarrow> bool" where
  "IsDoubleSpend fp ts \<longleftrightarrow> gget (ts_seen ts) fp \<noteq> None"

definition MarkNotarized :: "string \<Rightarrow> TicketStore \<Rightarrow> TicketStore" where
  "MarkNotarized fp ts = ts\<lparr>ts_notarized := gput fp True (ts_notarized ts)\<rparr>"

definition IsNotarized :: "string \<Rightarrow> TicketStore \<Rightarrow> bool" where
  "IsNotarized fp ts = gget0 False (ts_notarized ts) fp"

definition GetTicket :: "string \<Rightarrow> TicketStore \<Rightarrow> UsageTicket option" where
  "GetTicket i ts = gget (ts_tickets ts) i"

definition GetPendingNotarization :: "TicketStore \<Rightarrow> UsageTicket list" where
  "GetPendingNotarization ts = filter (\<lambda>t. \<not> gget0 False (ts_notarized ts) (ut_Fingerprint t)) (map snd (ts_tickets ts))"

text \<open>
  \<open>answer\<close> is what the seed answers to the pending tickets, the status or \<open>None\<close> when the request fails. Without an
  identity of the node the request panics.
\<close>

datatype notarize_error = NoNode | RequestFailed | BadStatus nat

definition NotarizeBatch :: "ticket_env \<Rightarrow> (UsageTicket list \<Rightarrow> nat option) \<Rightarrow> TicketStore \<Rightarrow> (notarize_error + nat) \<times> TicketStore" where
  "NotarizeBatch env answer ts =
     (let pending = GetPendingNotarization ts in
      if pending = [] then (Inr 0, ts)
      else if te_node env = None then (Inl NoNode, ts)
      else case answer pending of
             None \<Rightarrow> (Inl RequestFailed, ts)
           | Some status \<Rightarrow>
               if status \<noteq> 200 then (Inl (BadStatus status), ts)
               else (Inr (length pending), fold (\<lambda>t. MarkNotarized (ut_Fingerprint t)) pending ts))"

section \<open>Handlers\<close>

text \<open>\<open>None\<close> is a body that cannot be read. A panic of the countersigning ends the request with an error of the server.\<close>

definition handleTicketSubmit :: "ticket_env \<Rightarrow> int \<Rightarrow> UsageTicket option \<Rightarrow> TicketStore \<Rightarrow> (string \<times> string) http_result \<times> TicketStore" where
  "handleTicketSubmit env now body ts =
     (case body of
        None \<Rightarrow> (HttpError 400 ''invalid ticket'', ts)
      | Some t0 \<Rightarrow>
          let t = (if ut_Fingerprint t0 = [] then t0\<lparr>ut_Fingerprint := TicketFingerprint env t0\<rparr> else t0) in
          if IsDoubleSpend (ut_Fingerprint t) ts then (HttpError 409 ''double-spend detected'', ts)
          else case Countersign env now (Some t) ts of
                 (Inl (DoubleSpend fp), ts') \<Rightarrow> (HttpError 409 (''double-spend detected: ticket fingerprint '' @ fp @ '' already seen''), ts')
               | (Inl _, ts') \<Rightarrow> (HttpError 500 ''panic'', ts')
               | (Inr t', ts') \<Rightarrow> (HttpOK (ut_ID t', ut_Fingerprint t'), ts'))"

fun notarize_loop :: "ticket_env \<Rightarrow> int \<Rightarrow> UsageTicket option list \<Rightarrow> TicketStore \<Rightarrow> nat \<times> TicketStore" where
  "notarize_loop env now [] ts = (0, ts)"
| "notarize_loop env now (None # r) ts = notarize_loop env now r ts"
| "notarize_loop env now (Some t # r) ts =
     (if ut_Fingerprint t = [] then notarize_loop env now r ts
      else if IsDoubleSpend (ut_Fingerprint t) ts then notarize_loop env now r ts
      else case Countersign env now (Some t) ts of
             (Inl _, ts1) \<Rightarrow> notarize_loop env now r ts1
           | (Inr t', ts1) \<Rightarrow>
               (case notarize_loop env now r (MarkNotarized (ut_Fingerprint t') ts1) of (k, ts2) \<Rightarrow> (Suc k, ts2)))"

definition handleNotarize :: "ticket_env \<Rightarrow> int \<Rightarrow> UsageTicket option list option \<Rightarrow> TicketStore \<Rightarrow> nat http_result \<times> TicketStore" where
  "handleNotarize env now body ts =
     (case body of
        None \<Rightarrow> (HttpError 400 ''invalid notarization request'', ts)
      | Some ticks \<Rightarrow> (case notarize_loop env now ticks ts of (k, ts') \<Rightarrow> (HttpOK k, ts')))"

section \<open>Statistics of providers\<close>

record provider_stat =
  ps_total :: int
  ps_success :: int
  ps_amount :: int

definition count_ticket :: "UsageTicket \<Rightarrow> (string, provider_stat) gomap \<Rightarrow> (string, provider_stat) gomap" where
  "count_ticket t m =
     (let s = gget0 \<lparr>ps_total = 0, ps_success = 0, ps_amount = 0\<rparr> m (ut_ProviderID t);
          s1 = s\<lparr>ps_total := i64 (ps_total s + 1)\<rparr>;
          s2 = (if ut_ReqSig t \<noteq> [] \<and> ut_ProvSig t \<noteq> []
                then s1\<lparr>ps_success := i64 (ps_success s1 + 1), ps_amount := i64 (ps_amount s1 + ut_Amount t)\<rparr> else s1)
      in gput (ut_ProviderID t) s2 m)"

definition off_average :: "int \<Rightarrow> int \<Rightarrow> bool" where
  "off_average x avg \<longleftrightarrow> (let d = real_of_int x / real_of_int avg in d < 1 / 2 \<or> d > 3 / 2)"

definition AntiCollusionCheck :: "UsageTicket list \<Rightarrow> nat \<times> string list" where
  "AntiCollusionCheck tickets =
     (if tickets = [] then (0, [])
      else let stats = fold count_ticket tickets [];
               totalSuccess = fold (\<lambda>(_, s) n. i64 (n + ps_success s)) stats 0;
               totalAmount = fold (\<lambda>(_, s) n. i64 (n + ps_amount s)) stats 0;
               providerCount = int (length stats);
               avgSuccess = (if providerCount > 0 then go_div totalSuccess providerCount else 0);
               avgAmount = (if providerCount > 0 then go_div totalAmount providerCount else 0);
               flagged = filter (\<lambda>(_, s). avgSuccess > 0 \<and> off_average (ps_success s) avgSuccess \<or>
                                          avgAmount > 0 \<and> ps_amount s > 0 \<and> off_average (ps_amount s) avgAmount) stats
           in (length flagged, map fst flagged))"

definition handleAntiCollusionCheck :: "TicketStore option \<Rightarrow> nat \<times> nat \<times> string list" where
  "handleAntiCollusionCheck tso =
     (case tso of
        None \<Rightarrow> (0, 0, [])
      | Some ts \<Rightarrow> let tickets = map snd (ts_tickets ts) in (length tickets, AntiCollusionCheck tickets))"

section \<open>Runs\<close>

text \<open>
  The operations on a store, each at its time. \<open>SignOp\<close> is the second half of a request whose check of the fingerprint came
  earlier, so that requests may interleave.
\<close>

datatype ticket_op =
    SubmitOp "UsageTicket option"
  | SignOp "UsageTicket option"
  | NotarizeOp "UsageTicket option list option"
  | MarkOp string
  | BatchOp "UsageTicket list \<Rightarrow> nat option"
  | CleanupOp

fun ticket_step :: "ticket_env \<Rightarrow> int \<times> ticket_op \<Rightarrow> TicketStore \<Rightarrow> TicketStore" where
  "ticket_step env (now, SubmitOp body) ts = snd (handleTicketSubmit env now body ts)"
| "ticket_step env (now, SignOp t) ts = snd (Countersign env now t ts)"
| "ticket_step env (now, NotarizeOp body) ts = snd (handleNotarize env now body ts)"
| "ticket_step env (now, MarkOp fp) ts = MarkNotarized fp ts"
| "ticket_step env (now, BatchOp answer) ts = snd (NotarizeBatch env answer ts)"
| "ticket_step env (now, CleanupOp) ts = ticket_Cleanup env now ticket_max_age ts"

section \<open>The fingerprints a store has seen\<close>

lemma seen_MarkNotarized [simp]: "ts_seen (MarkNotarized fp ts) = ts_seen ts"
  by (simp add: MarkNotarized_def)

lemma seen_mark_all [simp]: "ts_seen (fold (\<lambda>t. MarkNotarized (ut_Fingerprint t)) l ts) = ts_seen ts"
  by (induction l arbitrary: ts) simp_all

lemma seen_NotarizeBatch [simp]: "ts_seen (snd (NotarizeBatch env answer ts)) = ts_seen ts"
  by (simp add: NotarizeBatch_def Let_def split: option.split)

text \<open>The ticket and the store after an accepted countersigning.\<close>

definition countersigned :: "ticket_env \<Rightarrow> UsageTicket \<Rightarrow> UsageTicket" where
  "countersigned env t = (if te_node env = Some (ut_ProviderID t) then t\<lparr>ut_ProvSig := te_SignJSON env t\<rparr> else t)"

definition accept_ticket :: "ticket_env \<Rightarrow> int \<Rightarrow> UsageTicket \<Rightarrow> TicketStore \<Rightarrow> TicketStore" where
  "accept_ticket env now t ts =
     ts\<lparr>ts_seen := gput (ut_Fingerprint t) now (ts_seen ts), ts_tickets := gput (ut_ID t) (countersigned env t) (ts_tickets ts)\<rparr>"

lemma countersigned_id [simp]: "ut_Fingerprint (countersigned env t) = ut_Fingerprint t" "ut_ID (countersigned env t) = ut_ID t"
  by (simp_all add: countersigned_def)

lemma accept_ticket_fields [simp]:
  "ts_seen (accept_ticket env now t ts) = gput (ut_Fingerprint t) now (ts_seen ts)"
  "ts_tickets (accept_ticket env now t ts) = gput (ut_ID t) (countersigned env t) (ts_tickets ts)"
  "ts_notarized (accept_ticket env now t ts) = ts_notarized ts"
  by (simp_all add: accept_ticket_def)

lemma Countersign_seen:
  "IsDoubleSpend (ut_Fingerprint t) ts \<Longrightarrow>
     Countersign env now (Some t) ts =
       (Inl (if length (ut_Fingerprint t) < 16 then SlicePanic else DoubleSpend (take 16 (ut_Fingerprint t))), ts)"
  by (simp add: Countersign_def IsDoubleSpend_def)

lemma Countersign_new:
  "\<not> IsDoubleSpend (ut_Fingerprint t) ts \<Longrightarrow> Countersign env now (Some t) ts = (Inr (countersigned env t), accept_ticket env now t ts)"
  by (simp add: Countersign_def IsDoubleSpend_def countersigned_def accept_ticket_def Let_def)

lemma Countersign_nil [simp]: "Countersign env now None ts = (Inl NilTicket, ts)"
  by (simp add: Countersign_def)

text \<open>A submitted ticket, with its fingerprint filled in.\<close>

definition submitted :: "ticket_env \<Rightarrow> UsageTicket \<Rightarrow> UsageTicket" where
  "submitted env t = (if ut_Fingerprint t = [] then t\<lparr>ut_Fingerprint := TicketFingerprint env t\<rparr> else t)"

lemma handleTicketSubmit_Some:
  "handleTicketSubmit env now (Some t) ts =
     (if IsDoubleSpend (ut_Fingerprint (submitted env t)) ts then (HttpError 409 ''double-spend detected'', ts)
      else (HttpOK (ut_ID t, ut_Fingerprint (submitted env t)), accept_ticket env now (submitted env t) ts))"
  unfolding handleTicketSubmit_def submitted_def [symmetric] Let_def
  by (simp add: Countersign_new) (simp add: submitted_def)

lemma notarize_loop_Some:
  "notarize_loop env now (Some t # r) ts =
     (if ut_Fingerprint t = [] \<or> IsDoubleSpend (ut_Fingerprint t) ts then notarize_loop env now r ts
      else case notarize_loop env now r (MarkNotarized (ut_Fingerprint t) (accept_ticket env now t ts)) of (k, ts') \<Rightarrow> (Suc k, ts'))"
  by (simp add: Countersign_new)

declare notarize_loop.simps(3) [simp del]

text \<open>What is seen stays seen, with the time of the first sight.\<close>

lemma seen_Countersign:
  "gget (ts_seen ts) fp = Some t0 \<Longrightarrow> gget (ts_seen (snd (Countersign env now to ts))) fp = Some t0"
  by (cases to; cases "IsDoubleSpend (ut_Fingerprint (the to)) ts")
    (auto simp: Countersign_seen Countersign_new, auto simp: IsDoubleSpend_def)

lemma seen_notarize_loop:
  "gget (ts_seen ts) fp = Some t0 \<Longrightarrow> gget (ts_seen (snd (notarize_loop env now l ts))) fp = Some t0"
proof (induction l arbitrary: ts)
  case (Cons to l)
  show ?case
  proof (cases to)
    case (Some t)
    have "gget (ts_seen (accept_ticket env now t ts)) fp = Some t0" if "\<not> IsDoubleSpend (ut_Fingerprint t) ts"
      using that Cons.prems by (auto simp: IsDoubleSpend_def)
    then show ?thesis
      using Cons.IH [of ts] Cons.IH [of "MarkNotarized (ut_Fingerprint t) (accept_ticket env now t ts)"] Cons.prems
      by (auto simp: Some notarize_loop_Some split: prod.split)
  qed (use Cons in simp)
qed simp

lemma seen_step:
  assumes "gget (ts_seen ts) fp = Some t0" and "snd op = CleanupOp \<Longrightarrow> fst op \<le> t0 + ticket_max_age" and "gmap_ok (ts_seen ts)"
  shows "gget (ts_seen (ticket_step env op ts)) fp = Some t0"
proof (cases op)
  case (Pair now op')
  show ?thesis
  proof (cases op')
    case (SubmitOp body)
    have "gget (ts_seen (accept_ticket env now t ts)) fp = Some t0" if "\<not> IsDoubleSpend (ut_Fingerprint t) ts" for t
      using that assms(1) by (auto simp: IsDoubleSpend_def)
    then show ?thesis using assms(1)
      by (cases body) (simp_all add: Pair SubmitOp handleTicketSubmit_Some, simp add: handleTicketSubmit_def)
  next
    case (NotarizeOp body)
    then show ?thesis using assms(1) seen_notarize_loop [OF assms(1)]
      by (cases body) (auto simp: Pair handleNotarize_def split: prod.split, metis snd_conv)
  qed (use assms Pair in \<open>auto simp: seen_Countersign ticket_Cleanup_def Let_def gget_gfilter\<close>)
qed

lemma gmap_ok_notarize_loop:
  "gmap_ok (ts_seen ts) \<Longrightarrow> gmap_ok (ts_seen (snd (notarize_loop env now l ts)))"
proof (induction l arbitrary: ts)
  case (Cons to l)
  show ?case
  proof (cases to)
    case (Some t)
    show ?thesis
      using Cons.IH [of ts] Cons.IH [of "MarkNotarized (ut_Fingerprint t) (accept_ticket env now t ts)"] Cons.prems
      by (auto simp: Some notarize_loop_Some split: prod.split)
  qed (use Cons in simp)
qed simp

lemma gmap_ok_step: "gmap_ok (ts_seen ts) \<Longrightarrow> gmap_ok (ts_seen (ticket_step env op ts))"
proof (cases op)
  case (Pair now op')
  assume ok: "gmap_ok (ts_seen ts)"
  show ?thesis
  proof (cases op')
    case (SubmitOp body)
    then show ?thesis using ok by (cases body) (simp_all add: Pair handleTicketSubmit_Some, simp add: handleTicketSubmit_def)
  next
    case (SignOp to)
    then show ?thesis using ok
      by (cases to; cases "IsDoubleSpend (ut_Fingerprint (the to)) ts") (simp_all add: Pair Countersign_seen Countersign_new)
  next
    case (NotarizeOp body)
    then show ?thesis using ok gmap_ok_notarize_loop [OF ok]
      by (cases body) (auto simp: Pair handleNotarize_def split: prod.split, metis snd_conv)
  qed (use ok in \<open>simp_all add: Pair ticket_Cleanup_def Let_def\<close>)
qed

lemma seen_run:
  assumes "gmap_ok (ts_seen ts)" and "gget (ts_seen ts) fp = Some t0"
    and "\<And>now. (now, CleanupOp) \<in> set ops \<Longrightarrow> now \<le> t0 + ticket_max_age"
  shows "gget (ts_seen (fold (ticket_step env) ops ts)) fp = Some t0"
  using assms
proof (induction ops arbitrary: ts)
  case (Cons op ops)
  have "gget (ts_seen (ticket_step env op ts)) fp = Some t0"
    using Cons.prems by (intro seen_step) (auto, metis list.set_intros(1) prod.collapse)
  then show ?case using Cons.IH [OF gmap_ok_step [OF Cons.prems(1)]] Cons.prems(3) by simp
qed simp

lemma notarize_known: "IsDoubleSpend (ut_Fingerprint t) ts \<Longrightarrow> notarize_loop env now [Some t] ts = (0, ts)"
  by (simp add: notarize_loop_Some)

section \<open>What the store guarantees\<close>

text \<open>
  How often an operation accepts a ticket with the fingerprint \<open>fp\<close>: by the answers of the two handlers and of the second half of a
  concurrent request. A ticket of a batch is accepted when it raises the number that the notarization counts.
\<close>

definition notarized_at :: "ticket_env \<Rightarrow> int \<Rightarrow> UsageTicket option list \<Rightarrow> TicketStore \<Rightarrow> nat \<Rightarrow> bool" where
  "notarized_at env now l ts j \<longleftrightarrow> fst (notarize_loop env now (take (Suc j) l) ts) \<noteq> fst (notarize_loop env now (take j l) ts)"

definition batch_acceptances :: "ticket_env \<Rightarrow> int \<Rightarrow> string \<Rightarrow> UsageTicket option list \<Rightarrow> TicketStore \<Rightarrow> nat" where
  "batch_acceptances env now fp l ts =
     length (filter (\<lambda>j. map_option ut_Fingerprint (l ! j) = Some fp \<and> notarized_at env now l ts j) [0..<length l])"

fun acceptances :: "ticket_env \<Rightarrow> string \<Rightarrow> int \<times> ticket_op \<Rightarrow> TicketStore \<Rightarrow> nat" where
  "acceptances env fp (now, SubmitOp body) ts =
     (case fst (handleTicketSubmit env now body ts) of HttpOK (i, f) \<Rightarrow> if f = fp then 1 else 0 | HttpError _ _ \<Rightarrow> 0)"
| "acceptances env fp (now, SignOp to) ts =
     (case fst (Countersign env now to ts) of Inr t \<Rightarrow> if ut_Fingerprint t = fp then 1 else 0 | Inl _ \<Rightarrow> 0)"
| "acceptances env fp (now, NotarizeOp (Some l)) ts = batch_acceptances env now fp l ts"
| "acceptances env fp _ ts = 0"

fun total_acceptances :: "ticket_env \<Rightarrow> string \<Rightarrow> (int \<times> ticket_op) list \<Rightarrow> TicketStore \<Rightarrow> nat" where
  "total_acceptances env fp [] ts = 0"
| "total_acceptances env fp (x # xs) ts = acceptances env fp x ts + total_acceptances env fp xs (ticket_step env x ts)"

lemma notarize_loop_append:
  "notarize_loop env now (xs @ ys) ts =
     (case notarize_loop env now xs ts of (k, ts1) \<Rightarrow> (case notarize_loop env now ys ts1 of (m, ts2) \<Rightarrow> (k + m, ts2)))"
proof (induction xs arbitrary: ts)
  case (Cons x xs)
  then show ?case by (cases x) (auto simp: notarize_loop_Some split: prod.splits)
qed simp

lemma batch_acceptances_snoc:
  "batch_acceptances env now fp (l @ [x]) ts = batch_acceptances env now fp l ts +
     (if map_option ut_Fingerprint x = Some fp \<and> fst (notarize_loop env now [x] (snd (notarize_loop env now l ts))) \<noteq> 0 then 1 else 0)"
proof -
  let ?P = "\<lambda>l j. map_option ut_Fingerprint (l ! j) = Some fp \<and> notarized_at env now l ts j"
  have "filter (?P (l @ [x])) [0..<length l] = filter (?P l) [0..<length l]"
    by (rule filter_cong) (auto simp: notarized_at_def nth_append)
  moreover have "?P (l @ [x]) (length l) \<longleftrightarrow>
      map_option ut_Fingerprint x = Some fp \<and> fst (notarize_loop env now [x] (snd (notarize_loop env now l ts))) \<noteq> 0"
    by (simp add: notarized_at_def notarize_loop_append split: prod.split)
  ultimately show ?thesis by (simp add: batch_acceptances_def)
qed

lemma batch_known:
  "IsDoubleSpend fp ts \<Longrightarrow> batch_acceptances env now fp l ts = 0"
proof (induction l rule: rev_induct)
  case (snoc x l)
  then obtain t0 where "gget (ts_seen ts) fp = Some t0" by (auto simp: IsDoubleSpend_def)
  then have "IsDoubleSpend fp (snd (notarize_loop env now l ts))" using seen_notarize_loop by (simp add: IsDoubleSpend_def)
  then have "fst (notarize_loop env now [x] (snd (notarize_loop env now l ts))) = 0" if "map_option ut_Fingerprint x = Some fp"
    using that notarize_known by (cases x) auto
  with snoc show ?case by (auto simp: batch_acceptances_snoc)
qed (simp add: batch_acceptances_def)

lemma batch_once:
  "batch_acceptances env now fp l ts \<le> 1 \<and>
    (batch_acceptances env now fp l ts = 1 \<longrightarrow> gget (ts_seen (snd (notarize_loop env now l ts))) fp = Some now)"
proof (induction l rule: rev_induct)
  case (snoc x l)
  let ?ts = "snd (notarize_loop env now l ts)"
  have step: "snd (notarize_loop env now (l @ [x]) ts) = snd (notarize_loop env now [x] ?ts)"
    by (simp add: notarize_loop_append split: prod.split)
  have known: "fst (notarize_loop env now [x] ?ts) = 0" if "map_option ut_Fingerprint x = Some fp" "IsDoubleSpend fp ?ts"
    using that notarize_known by (cases x) auto
  have fresh: "gget (ts_seen (snd (notarize_loop env now [x] ?ts))) fp = Some now"
    if "map_option ut_Fingerprint x = Some fp" "fst (notarize_loop env now [x] ?ts) \<noteq> 0"
    using that by (cases x) (auto simp: notarize_loop_Some split: if_splits)
  show ?case
  proof (cases "batch_acceptances env now fp l ts = 1")
    case True
    with snoc.IH have g: "gget (ts_seen ?ts) fp = Some now" by simp
    then have "IsDoubleSpend fp ?ts" by (simp add: IsDoubleSpend_def)
    with known True seen_notarize_loop [OF g] show ?thesis by (auto simp: batch_acceptances_snoc step)
  next
    case False
    with snoc.IH have "batch_acceptances env now fp l ts = 0" by simp
    with fresh show ?thesis by (auto simp: batch_acceptances_snoc step)
  qed
qed (simp add: batch_acceptances_def)

lemma known_not_accepted: "IsDoubleSpend fp ts \<Longrightarrow> acceptances env fp x ts = 0"
proof (cases "(env, fp, x, ts)" rule: acceptances.cases)
  case (1 env' fp' now body ts')
  assume "IsDoubleSpend fp ts"
  with 1 show ?thesis
    by (cases body) (auto simp: handleTicketSubmit_Some, simp add: handleTicketSubmit_def)
next
  case (2 env' fp' now to ts')
  assume "IsDoubleSpend fp ts"
  with 2 show ?thesis
    by (cases to; cases "IsDoubleSpend (ut_Fingerprint (the to)) ts") (auto simp: Countersign_seen Countersign_new)
qed (auto simp: batch_known)

lemma accepted_is_seen:
  "acceptances env fp x ts \<le> 1 \<and> (acceptances env fp x ts = 1 \<longrightarrow> gget (ts_seen (ticket_step env x ts)) fp = Some (fst x))"
proof (cases "(env, fp, x, ts)" rule: acceptances.cases)
  case (1 env' fp' now body ts')
  then show ?thesis
    by (cases body) (auto simp: handleTicketSubmit_Some, auto simp: handleTicketSubmit_def)
next
  case (2 env' fp' now to ts')
  then show ?thesis
    by (cases to; cases "IsDoubleSpend (ut_Fingerprint (the to)) ts") (auto simp: Countersign_seen Countersign_new)
next
  case (3 env' fp' now l ts')
  then show ?thesis using batch_once [of env now fp l ts]
    by (auto simp: handleNotarize_def split: prod.split)
qed auto

text \<open>Seen since the beginning of the period that no cleanup of the run goes back beyond.\<close>

definition in_period :: "int \<Rightarrow> (int \<times> ticket_op) list \<Rightarrow> bool" where
  "in_period start ops \<longleftrightarrow> (\<forall>(now, op)\<in>set ops. start \<le> now \<and> (op = CleanupOp \<longrightarrow> now \<le> start + ticket_max_age))"

lemma seen_in_period:
  assumes "gmap_ok (ts_seen ts)" and "gget (ts_seen ts) fp = Some t0" and "start \<le> t0" and "in_period start ops"
  shows "total_acceptances env fp ops ts = 0 \<and> IsDoubleSpend fp (fold (ticket_step env) ops ts)"
  using assms
proof (induction ops arbitrary: ts)
  case (Cons x ops)
  have "gget (ts_seen (ticket_step env x ts)) fp = Some t0"
    using Cons.prems by (intro seen_step) (auto simp: in_period_def)
  moreover have "acceptances env fp x ts = 0" using Cons.prems(2) known_not_accepted by (simp add: IsDoubleSpend_def)
  ultimately show ?case using Cons.IH [OF gmap_ok_step [OF Cons.prems(1)]] Cons.prems by (simp add: in_period_def)
qed (simp add: IsDoubleSpend_def)

lemma accepted_once:
  assumes "gmap_ok (ts_seen ts)" and "in_period start ops"
  shows "total_acceptances env fp ops ts \<le> 1 \<and>
    (total_acceptances env fp ops ts = 1 \<longrightarrow> IsDoubleSpend fp (fold (ticket_step env) ops ts))"
  using assms
proof (induction ops arbitrary: ts)
  case (Cons x ops)
  have ok: "gmap_ok (ts_seen (ticket_step env x ts))" by (rule gmap_ok_step [OF Cons.prems(1)])
  have rest: "in_period start ops" "start \<le> fst x" using Cons.prems(2) by (auto simp: in_period_def)
  show ?case
  proof (cases "acceptances env fp x ts = 1")
    case True
    then have "gget (ts_seen (ticket_step env x ts)) fp = Some (fst x)" using accepted_is_seen by blast
    with seen_in_period [OF ok this rest(2,1), of env] True show ?thesis by simp
  next
    case False
    then have "acceptances env fp x ts = 0" using accepted_is_seen [of env fp x ts] by simp
    then show ?thesis using Cons.IH [OF ok rest(1)] by simp
  qed
qed simp

lemma gmap_ok_run: "gmap_ok (ts_seen (fold (ticket_step env) ops initTicketStore))"
proof -
  have "gmap_ok (ts_seen ts) \<Longrightarrow> gmap_ok (ts_seen (fold (ticket_step env) ops ts))" for ts
    by (induction ops arbitrary: ts) (simp_all add: gmap_ok_step)
  then show ?thesis by (simp add: initTicketStore_def)
qed

text \<open>
  (C19) No double spending within a day. After any history of one process, and in any further run of operations that lasts no longer than
  24 hours up to its last cleanup, a fingerprint is accepted at most once over all paths together: submissions,
  notarizations, also of one batch, and second halves of concurrent requests. Once it was accepted, all three paths
  refuse it, and a refusal leaves the store as it is.
\<close>

theorem no_double_spend:
  assumes "ts = fold (ticket_step env) history initTicketStore"
    and "\<forall>(now, op)\<in>set ops. start \<le> now \<and> (op = CleanupOp \<longrightarrow> now \<le> start + ticket_max_age)"
    and "ts2 = fold (ticket_step env) ops ts"
  shows "total_acceptances env fp ops ts \<le> 1 \<and>
    (total_acceptances env fp ops ts = 1 \<longrightarrow>
      (ut_Fingerprint (submitted env u) = fp \<longrightarrow> handleTicketSubmit env t2 (Some u) ts2 = (HttpError 409 ''double-spend detected'', ts2)) \<and>
      (ut_Fingerprint u = fp \<longrightarrow> handleNotarize env t2 (Some [Some u]) ts2 = (HttpOK 0, ts2) \<and>
         (\<exists>e. Countersign env t2 (Some u) ts2 = (Inl e, ts2))))"
proof -
  have "gmap_ok (ts_seen ts)" unfolding assms(1) by (rule gmap_ok_run)
  with accepted_once [of ts start ops env fp] assms(2)
  have "total_acceptances env fp ops ts \<le> 1 \<and> (total_acceptances env fp ops ts = 1 \<longrightarrow> IsDoubleSpend fp ts2)"
    by (simp add: in_period_def assms(3))
  then show ?thesis
    by (auto simp: handleTicketSubmit_Some handleNotarize_def notarize_known Countersign_seen)
qed

definition plain_ticket_env :: ticket_env where
  "plain_ticket_env = \<lparr>te_H = (\<lambda>s. ''h'' @ s), te_node = Some ''p'', te_SignJSON = (\<lambda>t. ''sig-'' @ ut_ID t), te_format = (\<lambda>_. ''now''),
     te_parse = (\<lambda>_. None)\<rparr>"

definition sample_ticket :: UsageTicket where
  "sample_ticket = \<lparr>ut_ID = ''tkt-1'', ut_RequestID = ''r1'', ut_RequestorID = ''q'', ut_ProviderID = ''p'', ut_ModelID = ''m'',
     ut_Amount = 5, ut_Timestamp = ''now'', ut_ReqSig = ''s'', ut_ProvSig = [], ut_Fingerprint = []\<rparr>"

theorem no_double_spend_witness:
  "\<exists>fp. total_acceptances plain_ticket_env fp [(7, SubmitOp (Some sample_ticket)), (8, CleanupOp)] initTicketStore = 1 \<and>
     fst (handleTicketSubmit plain_ticket_env 9 (Some (sample_ticket\<lparr>ut_ID := ''tkt-2''\<rparr>))
       (fold (ticket_step plain_ticket_env) [(7, SubmitOp (Some sample_ticket)), (8, CleanupOp)] initTicketStore))
       = HttpError 409 ''double-spend detected''"
proof -
  let ?ops = "[(7, SubmitOp (Some sample_ticket)), (8, CleanupOp)]"
  let ?fp = "ut_Fingerprint (submitted plain_ticket_env sample_ticket)"
  have new: "\<not> IsDoubleSpend ?fp initTicketStore" by (simp add: IsDoubleSpend_def initTicketStore_def)
  then have one: "total_acceptances plain_ticket_env ?fp ?ops initTicketStore = 1" by (simp add: handleTicketSubmit_Some)
  have times: "\<forall>(now, op)\<in>set ?ops. 7 \<le> now \<and> (op = CleanupOp \<longrightarrow> now \<le> 7 + ticket_max_age)" by (simp add: ticket_max_age_def ns_hour_def)
  have same: "ut_Fingerprint (submitted plain_ticket_env (sample_ticket\<lparr>ut_ID := ''tkt-2''\<rparr>)) = ?fp"
    by (simp add: submitted_def sample_ticket_def TicketFingerprint_def fingerprint_text_def)
  have start: "initTicketStore = fold (ticket_step plain_ticket_env) [] initTicketStore" by simp
  from no_double_spend [OF start times refl, of ?fp "sample_ticket\<lparr>ut_ID := ''tkt-2''\<rparr>" 9] same one
  have "fst (handleTicketSubmit plain_ticket_env 9 (Some (sample_ticket\<lparr>ut_ID := ''tkt-2''\<rparr>)) (fold (ticket_step plain_ticket_env) ?ops initTicketStore))
      = HttpError 409 ''double-spend detected''"
    by (simp del: fold.simps total_acceptances.simps)
  with one show ?thesis by blast
qed

text \<open>
  The answers to a submitted ticket. An unreadable body is a 400, a fingerprint seen before a 409, and both leave the
  store as it is; the handler fails in no other way. Otherwise the ticket is stored under its identifier with the
  provider's signature if this node is the provider, its fingerprint counts as seen from now, and other fingerprints,
  other tickets and notarizations do not change.
\<close>

theorem submit_answers:
  "handleTicketSubmit env now None ts = (HttpError 400 ''invalid ticket'', ts) \<and>
   (case handleTicketSubmit env now (Some t) ts of
      (HttpError code msg, ts') \<Rightarrow> code = 409 \<and> ts' = ts \<and> IsDoubleSpend (ut_Fingerprint (submitted env t)) ts
    | (HttpOK (i, fp), ts') \<Rightarrow>
        \<not> IsDoubleSpend fp ts \<and> i = ut_ID t \<and> fp = (if ut_Fingerprint t = [] then TicketFingerprint env t else ut_Fingerprint t) \<and>
        (\<forall>fp'. gget (ts_seen ts') fp' = (if fp' = fp then Some now else gget (ts_seen ts) fp')) \<and>
        (\<forall>j. GetTicket j ts' = (if j = i then Some (countersigned env (submitted env t)) else GetTicket j ts)) \<and>
        (\<forall>fp'. IsNotarized fp' ts' = IsNotarized fp' ts))"
  by (simp add: handleTicketSubmit_Some GetTicket_def IsNotarized_def, simp add: handleTicketSubmit_def submitted_def)

text \<open>A notarized batch leaves nothing pending; a batch that fails changes nothing.\<close>

lemma fold_mark: "gget0 False (ts_notarized (fold (\<lambda>t. MarkNotarized (ut_Fingerprint t)) l ts)) fp \<longleftrightarrow>
    fp \<in> ut_Fingerprint ` set l \<or> gget0 False (ts_notarized ts) fp"
  by (induction l arbitrary: ts) (auto simp: MarkNotarized_def)

lemma tickets_mark: "ts_tickets (fold (\<lambda>t. MarkNotarized (ut_Fingerprint t)) l ts) = ts_tickets ts"
  by (induction l arbitrary: ts) (simp_all add: MarkNotarized_def)

text \<open>
  Notarizing. When the seed accepts the batch, every stored ticket is notarized afterwards, the reported number is
  that of the tickets that were pending, and nothing else changes; when the request fails in any way, nothing changes.
\<close>

theorem notarize_batch:
  assumes "NotarizeBatch env answer ts = (res, ts')"
  shows "case res of
      Inl e \<Rightarrow> ts' = ts
    | Inr k \<Rightarrow> GetPendingNotarization ts' = [] \<and> k = length (GetPendingNotarization ts) \<and> ts_tickets ts' = ts_tickets ts \<and>
        (\<forall>fp. IsNotarized fp ts' = (IsNotarized fp ts \<or> fp \<in> ut_Fingerprint ` set (GetPendingNotarization ts)))"
proof (cases "GetPendingNotarization ts = []")
  case True
  with assms show ?thesis by (auto simp: NotarizeBatch_def)
next
  case False
  have none: "GetPendingNotarization (fold (\<lambda>t. MarkNotarized (ut_Fingerprint t)) (GetPendingNotarization ts) ts) = []"
    by (auto simp: GetPendingNotarization_def [of "fold _ _ _"] fold_mark tickets_mark filter_empty_conv)
      (force simp: GetPendingNotarization_def)
  have "IsNotarized fp (fold (\<lambda>t. MarkNotarized (ut_Fingerprint t)) (GetPendingNotarization ts) ts) =
      (IsNotarized fp ts \<or> fp \<in> ut_Fingerprint ` set (GetPendingNotarization ts))" for fp
    by (auto simp: IsNotarized_def fold_mark)
  with assms False none show ?thesis
    by (auto simp: NotarizeBatch_def Let_def tickets_mark split: if_splits option.splits)
qed

theorem notarize_batch_witness:
  "\<exists>ts'. NotarizeBatch plain_ticket_env (\<lambda>_. Some 200) (accept_ticket plain_ticket_env 7 sample_ticket initTicketStore) = (Inr 1, ts') \<and>
     GetPendingNotarization ts' = []"
proof -
  let ?ts = "accept_ticket plain_ticket_env 7 sample_ticket initTicketStore"
  have pend: "GetPendingNotarization ?ts = [countersigned plain_ticket_env sample_ticket]"
    by (simp add: GetPendingNotarization_def initTicketStore_def gput_def gget0_def)
  obtain res ts' where run: "NotarizeBatch plain_ticket_env (\<lambda>_. Some 200) ?ts = (res, ts')" by force
  have "te_node plain_ticket_env \<noteq> None" by (simp add: plain_ticket_env_def)
  then have "res = Inr 1" using run by (auto simp: NotarizeBatch_def pend Let_def)
  with notarize_batch [OF run] run show ?thesis by simp
qed

subsection \<open>What it does not guarantee\<close>

text \<open>
  The fingerprint of a submitted ticket is taken from the ticket. The same usage is accepted once more under any text that
  was not seen.
\<close>

lemma usage_accepted_twice:
  assumes "fp \<noteq> []" and "\<not> IsDoubleSpend fp ts"
  shows "fst (handleTicketSubmit env now (Some (t\<lparr>ut_Fingerprint := fp\<rparr>)) ts) = HttpOK (ut_ID t, fp)"
  using assms by (simp add: handleTicketSubmit_Some submitted_def)

text \<open>Fields are joined without escaping: different usages may have the same fingerprint.\<close>

lemma fingerprint_ambiguous:
  "TicketFingerprint env (t\<lparr>ut_RequestID := ''r:x'', ut_RequestorID := ''y''\<rparr>) =
   TicketFingerprint env (t\<lparr>ut_RequestID := ''r'', ut_RequestorID := ''x:y''\<rparr>)"
  by (simp add: TicketFingerprint_def fingerprint_text_def)

text \<open>A fingerprint is accepted again after the first cleanup that is more than 24 hours later.\<close>

lemma replay_after_cleanup:
  assumes "gmap_ok (ts_seen ts)" and "gget (ts_seen ts) (ut_Fingerprint t) = Some t0" and "t0 + ticket_max_age < now"
    and "ut_Fingerprint t \<noteq> []"
  shows "\<exists>ts'. handleTicketSubmit env now (Some t) (ticket_Cleanup env now ticket_max_age ts) = (HttpOK (ut_ID t, ut_Fingerprint t), ts')"
  using assms by (simp add: handleTicketSubmit_Some submitted_def IsDoubleSpend_def ticket_Cleanup_def Let_def gget_gfilter)

text \<open>Two requests with one short fingerprint that both pass the check: the second panics.\<close>

lemma short_fingerprint_panics:
  assumes "length (ut_Fingerprint t) < 16" and "\<not> IsDoubleSpend (ut_Fingerprint t) ts"
  shows "Countersign env t2 (Some t) (snd (Countersign env t1 (Some t) ts)) = (Inl SlicePanic, accept_ticket env t1 t ts)"
  using assms by (simp add: Countersign_new Countersign_seen IsDoubleSpend_def)

section \<open>The statistics of providers\<close>

definition signed_by :: "string \<Rightarrow> UsageTicket list \<Rightarrow> UsageTicket list" where
  "signed_by p l = filter (\<lambda>t. ut_ProviderID t = p \<and> ut_ReqSig t \<noteq> [] \<and> ut_ProvSig t \<noteq> []) l"

definition stat_of :: "UsageTicket list \<Rightarrow> string \<Rightarrow> provider_stat" where
  "stat_of l p = \<lparr>ps_total = i64 (int (length (filter (\<lambda>t. ut_ProviderID t = p) l))), ps_success = i64 (int (length (signed_by p l))),
     ps_amount = i64 (sum_list (map ut_Amount (signed_by p l)))\<rparr>"

lemma i64_add_i64_right: "i64 (a + i64 b) = i64 (a + b)"
  using i64_add_i64 [of b a] by (simp add: add.commute)

lemma i64_i64: "i64 (i64 a) = i64 a"
  using i64_add_i64 [of a 0] by simp

definition bump_stat :: "UsageTicket \<Rightarrow> provider_stat \<Rightarrow> provider_stat" where
  "bump_stat t s =
     (let s1 = s\<lparr>ps_total := i64 (ps_total s + 1)\<rparr> in
      if ut_ReqSig t \<noteq> [] \<and> ut_ProvSig t \<noteq> []
      then s1\<lparr>ps_success := i64 (ps_success s1 + 1), ps_amount := i64 (ps_amount s1 + ut_Amount t)\<rparr> else s1)"

lemma count_ticket_bump:
  "count_ticket t m = gput (ut_ProviderID t) (bump_stat t (gget0 \<lparr>ps_total = 0, ps_success = 0, ps_amount = 0\<rparr> m (ut_ProviderID t))) m"
  by (simp add: count_ticket_def bump_stat_def Let_def)

lemma stat_snoc: "stat_of (l @ [t]) p = (if ut_ProviderID t = p then bump_stat t (stat_of l p) else stat_of l p)"
  by (simp add: stat_of_def signed_by_def bump_stat_def Let_def i64_add_i64_right add.commute)

lemma stat_absent: "p \<notin> ut_ProviderID ` set l \<Longrightarrow> stat_of l p = \<lparr>ps_total = 0, ps_success = 0, ps_amount = 0\<rparr>"
proof -
  assume "p \<notin> ut_ProviderID ` set l"
  then have "filter (\<lambda>t. ut_ProviderID t = p) l = []" "signed_by p l = []" by (auto simp: signed_by_def filter_empty_conv)
  then show ?thesis by (simp add: stat_of_def)
qed

lemma count_tickets:
  "gmap_ok (fold count_ticket l []) \<and>
   (\<forall>p. gget (fold count_ticket l []) p = (if p \<in> ut_ProviderID ` set l then Some (stat_of l p) else None))"
proof (induction l rule: rev_induct)
  case (snoc t l)
  have "gget0 \<lparr>ps_total = 0, ps_success = 0, ps_amount = 0\<rparr> (fold count_ticket l []) p = stat_of l p" for p
    using snoc.IH stat_absent [of p l] by (auto simp: gget0_def)
  then have step: "fold count_ticket (l @ [t]) [] = gput (ut_ProviderID t) (bump_stat t (stat_of l (ut_ProviderID t))) (fold count_ticket l [])"
    by (simp add: count_ticket_bump [of t])
  show ?case unfolding step using snoc.IH by (auto simp: stat_snoc simp del: fold_append)
qed simp

lemma fold_i64_sum: "in_i64 a \<Longrightarrow> fold (\<lambda>(_, s) n. i64 (n + f s)) m a = i64 (a + gsum f m)"
proof (induction m arbitrary: a)
  case (Cons e m)
  then show ?case by (cases e) (simp add: gsum_def i64_range i64_add_i64 add.assoc)
qed (simp add: gsum_def)

definition fully_signed :: "UsageTicket \<Rightarrow> bool" where
  "fully_signed t \<longleftrightarrow> ut_ReqSig t \<noteq> [] \<and> ut_ProvSig t \<noteq> []"

lemma count_ticket_totals:
  assumes "gmap_ok m"
  shows "i64 (gsum ps_success (count_ticket t m)) = i64 (i64 (gsum ps_success m) + (if fully_signed t then 1 else 0))"
    and "i64 (gsum ps_amount (count_ticket t m)) = i64 (i64 (gsum ps_amount m) + (if fully_signed t then ut_Amount t else 0))"
proof -
  let ?z = "\<lparr>ps_total = 0, ps_success = 0, ps_amount = 0\<rparr> :: provider_stat"
  have old: "(case gget m p of None \<Rightarrow> 0 | Some w \<Rightarrow> f w) = f (gget0 ?z m p)" if "f ?z = 0" for p and f :: "provider_stat \<Rightarrow> int"
    using that by (simp add: gget0_def split: option.split)
  have add: "i64 (a - b + i64 (b + c)) = i64 (i64 a + c)" for a b c
    using i64_add_i64 [of "b + c" "a - b"] i64_add_i64 [of a c] by (simp add: add.commute)
  show "i64 (gsum ps_success (count_ticket t m)) = i64 (i64 (gsum ps_success m) + (if fully_signed t then 1 else 0))"
    and "i64 (gsum ps_amount (count_ticket t m)) = i64 (i64 (gsum ps_amount m) + (if fully_signed t then ut_Amount t else 0))"
    by (simp_all add: count_ticket_def Let_def gsum_gput [OF assms] old add fully_signed_def i64_add_i64 i64_i64)
qed

lemma totals:
  "i64 (gsum ps_success (fold count_ticket l [])) = i64 (int (length (filter fully_signed l))) \<and>
   i64 (gsum ps_amount (fold count_ticket l [])) = i64 (sum_list (map ut_Amount (filter fully_signed l)))"
proof (induction l rule: rev_induct)
  case (snoc t l)
  have ok: "gmap_ok (fold count_ticket l [])" using count_tickets by blast
  show ?case using snoc.IH by (simp add: count_ticket_totals [OF ok] i64_add_i64_right i64_i64 add.commute)
qed (simp add: gsum_def)

lemma off_average_int: "0 < avg \<Longrightarrow> off_average x avg \<longleftrightarrow> 2 * x < avg \<or> 3 * avg < 2 * x"
proof -
  assume "0 < avg"
  then have "real_of_int x / real_of_int avg < 1 / 2 \<longleftrightarrow> 2 * real_of_int x < real_of_int avg"
    "real_of_int x / real_of_int avg > 3 / 2 \<longleftrightarrow> 3 * real_of_int avg < 2 * real_of_int x"
    by (simp_all add: field_simps)
  then show ?thesis unfolding off_average_def Let_def by linarith
qed

lemma providers_count: "length (fold count_ticket l []) = card (ut_ProviderID ` set l)"
proof -
  let ?m = "fold count_ticket l []"
  have "fst ` set ?m = ut_ProviderID ` set l"
  proof (rule set_eqI)
    show "p \<in> fst ` set ?m \<longleftrightarrow> p \<in> ut_ProviderID ` set l" for p
      using gget_None_iff [of ?m p] count_tickets [of l] by (simp split: if_splits)
  qed
  moreover have "distinct (map fst ?m)" using count_tickets [of l] by (simp add: gmap_ok_def)
  ultimately show ?thesis using distinct_card [of "map fst ?m"] by simp
qed

text \<open>The average of a total over the providers that occur.\<close>

definition ticket_average :: "int \<Rightarrow> UsageTicket list \<Rightarrow> int" where
  "ticket_average tot l = go_div (i64 tot) (int (card (ut_ProviderID ` set l)))"

text \<open>
  Which providers are flagged. The averages are those over all tickets with both signatures, per provider that occurs,
  rounded towards zero; a provider is flagged exactly if its number of such tickets, or its positive sum of tokens, is
  below half or above one and a half times a positive average. Each is listed once, and the reported number is that of
  the flagged providers.
\<close>

theorem flagged_providers:
  "case AntiCollusionCheck l of (k, flagged) \<Rightarrow>
    k = length flagged \<and> distinct flagged \<and>
    (\<forall>p. p \<in> set flagged \<longleftrightarrow> p \<in> ut_ProviderID ` set l \<and>
       (let s = i64 (int (length (signed_by p l))); a = i64 (sum_list (map ut_Amount (signed_by p l)));
            avgS = ticket_average (int (length (filter fully_signed l))) l; avgA = ticket_average (sum_list (map ut_Amount (filter fully_signed l))) l
        in 0 < avgS \<and> (2 * s < avgS \<or> 3 * avgS < 2 * s) \<or> 0 < avgA \<and> 0 < a \<and> (2 * a < avgA \<or> 3 * avgA < 2 * a)))"
proof (cases "l = []")
  case True
  then show ?thesis by (simp add: AntiCollusionCheck_def)
next
  case False
  let ?m = "fold count_ticket l []"
  note m = count_tickets [of l]
  have pos: "0 < int (card (ut_ProviderID ` set l))" using False by (simp add: card_gt_0_iff)
  let ?F = "\<lambda>s. 0 < ticket_average (int (length (filter fully_signed l))) l \<and> off_average (ps_success s) (ticket_average (int (length (filter fully_signed l))) l) \<or>
     0 < ticket_average (sum_list (map ut_Amount (filter fully_signed l))) l \<and> ps_amount s > 0 \<and>
     off_average (ps_amount s) (ticket_average (sum_list (map ut_Amount (filter fully_signed l))) l)"
  have run: "AntiCollusionCheck l = (length (filter (\<lambda>(_, s). ?F s) ?m), map fst (filter (\<lambda>(_, s). ?F s) ?m))"
    using False pos by (simp add: AntiCollusionCheck_def Let_def fold_i64_sum totals providers_count ticket_average_def)
  have "distinct (map fst (filter (\<lambda>(_, s). ?F s) ?m))" using m by (simp add: gmap_ok_def distinct_map_filter)
  moreover have "p \<in> set (map fst (filter (\<lambda>(_, s). ?F s) ?m)) \<longleftrightarrow> p \<in> ut_ProviderID ` set l \<and> ?F (stat_of l p)" for p
  proof -
    have ok: "gmap_ok ?m" using m by blast
    have "p \<in> set (map fst (filter (\<lambda>(_, s). F s) ?m)) \<longleftrightarrow> (\<exists>s. gget ?m p = Some s \<and> F s)" for F
    proof -
      have "p \<in> set (map fst (filter (\<lambda>(_, s). F s) ?m)) \<longleftrightarrow> (\<exists>s. (p, s) \<in> set ?m \<and> F s)" by (auto simp: image_iff)
      then show ?thesis using in_set_gget [OF ok] gget_in_set by metis
    qed
    note this [of ?F]
    then show ?thesis using m [THEN conjunct2, rule_format, of p] by auto
  qed
  moreover have "?F (stat_of l p) \<longleftrightarrow>
      (let s = i64 (int (length (signed_by p l))); a = i64 (sum_list (map ut_Amount (signed_by p l)));
            avgS = ticket_average (int (length (filter fully_signed l))) l; avgA = ticket_average (sum_list (map ut_Amount (filter fully_signed l))) l
        in 0 < avgS \<and> (2 * s < avgS \<or> 3 * avgS < 2 * s) \<or> 0 < avgA \<and> 0 < a \<and> (2 * a < avgA \<or> 3 * avgA < 2 * a))" for p
    unfolding Let_def stat_of_def provider_stat.simps using off_average_int by metis
  ultimately show ?thesis unfolding run prod.case by simp
qed

end
