(* ===== verification/Reputation.thy ===== *)
theory Reputation
  imports Calendar Storage_Model Complex_Main
begin

text \<open>
  The reputation of other nodes (\<open>src/reputation.go\<close>): moving averages of availability, latency and accuracy, scores posted
  by peers, grades, how long a node has had the worst grade, and the file the manager is kept in.

  Numbers of type \<open>float64\<close> are reals. The identity of the node, its signature, the check of signatures and the base64
  decoder are parameters; keys and signatures are 32 and 64 bytes. A save takes a snapshot under the lock and writes it
  after releasing it, so snapshots wait in a list until the environment lets them reach the file.
\<close>

section \<open>Scores\<close>

record PeerScore =
  psc_FromNode :: string
  psc_TargetNode :: string
  psc_Availability :: real
  psc_Latency :: real
  psc_Accuracy :: real
  psc_Comment :: string
  psc_Timestamp :: string
  psc_Signature :: string

record NodeReputation =
  nr_NodeID :: string
  nr_Availability :: real
  nr_Latency :: real
  nr_Accuracy :: real
  nr_PeerScores :: "PeerScore list"
  nr_OverallScore :: real
  nr_Grade :: string
  nr_LastUpdated :: stamp
  nr_TotalRequests :: int
  nr_FailedRequests :: int
  nr_DGradeSince :: stamp

record ReputationManager =
  rm_scores :: "(string, NodeReputation) gomap"
  rm_myScores :: "(string, PeerScore) gomap"

definition repEwmaAlpha :: real where "repEwmaAlpha = 3 / 10"

definition ewma :: "real \<Rightarrow> real \<Rightarrow> real" where
  "ewma sample old = repEwmaAlpha * sample + (1 - repEwmaAlpha) * old"

definition calculateGradeLocked :: "NodeReputation \<Rightarrow> string" where
  "calculateGradeLocked rep =
     (let score = nr_OverallScore rep in
      if score \<ge> 95 then ''S'' else if score \<ge> 80 then ''A'' else if score \<ge> 60 then ''B'' else if score \<ge> 40 then ''C'' else ''D'')"

definition peer_consensus :: "PeerScore list \<Rightarrow> real" where
  "peer_consensus pss = (if pss = [] then 0 else fold (\<lambda>ps s. s + psc_Availability ps) pss 0 / real (length pss))"

definition calculateOverallScoreLocked :: "NodeReputation \<Rightarrow> real" where
  "calculateOverallScoreLocked rep =
     4 / 10 * nr_Availability rep + 3 / 10 * nr_Latency rep + 2 / 10 * nr_Accuracy rep + 1 / 10 * peer_consensus (nr_PeerScores rep)"

definition getOrCreate :: "int \<Rightarrow> string \<Rightarrow> ReputationManager \<Rightarrow> NodeReputation" where
  "getOrCreate now nodeID r =
     (case gget (rm_scores r) nodeID of
        Some rep \<Rightarrow> rep
      | None \<Rightarrow> \<lparr>nr_NodeID = nodeID, nr_Availability = 50, nr_Latency = 50, nr_Accuracy = 50, nr_PeerScores = [],
                 nr_OverallScore = 0, nr_Grade = ''C'', nr_LastUpdated = format_stamp now, nr_TotalRequests = 0,
                 nr_FailedRequests = 0, nr_DGradeSince = NoStamp\<rparr>)"

text \<open>What every recording ends with: the time, the score and the grade of the entry.\<close>

definition regrade :: "int \<Rightarrow> NodeReputation \<Rightarrow> NodeReputation" where
  "regrade now rep =
     (let rep1 = rep\<lparr>nr_LastUpdated := format_stamp now, nr_OverallScore := calculateOverallScoreLocked rep\<rparr>
      in rep1\<lparr>nr_Grade := calculateGradeLocked rep1\<rparr>)"

definition put_rep :: "NodeReputation \<Rightarrow> string \<Rightarrow> ReputationManager \<Rightarrow> ReputationManager" where
  "put_rep rep nodeID r = r\<lparr>rm_scores := gput nodeID rep (rm_scores r)\<rparr>"

definition latency_sample :: "real \<Rightarrow> real" where
  "latency_sample latencyMS =
     (let s = 100 - latencyMS / 50; s1 = (if s < 0 then 0 else s) in if s1 > 100 then 100 else s1)"

definition RecordCall :: "int \<Rightarrow> string \<Rightarrow> bool \<Rightarrow> real \<Rightarrow> ReputationManager \<Rightarrow> ReputationManager" where
  "RecordCall now nodeID success latencyMS r =
     (let rep = getOrCreate now nodeID r;
          rep1 = rep\<lparr>nr_TotalRequests := i64 (nr_TotalRequests rep + 1),
                     nr_FailedRequests := (if success then nr_FailedRequests rep else i64 (nr_FailedRequests rep + 1)),
                     nr_Availability := ewma (if success then 100 else 0) (nr_Availability rep),
                     nr_Latency := ewma (latency_sample latencyMS) (nr_Latency rep)\<rparr>
      in put_rep (regrade now rep1) nodeID r)"

definition RecordAccuracy :: "int \<Rightarrow> string \<Rightarrow> bool \<Rightarrow> ReputationManager \<Rightarrow> ReputationManager" where
  "RecordAccuracy now nodeID accurate r =
     (let rep = getOrCreate now nodeID r;
          rep1 = rep\<lparr>nr_Accuracy := ewma (if accurate then 100 else 0) (nr_Accuracy rep)\<rparr>
      in put_rep (regrade now rep1) nodeID r)"

definition GetReputation :: "string \<Rightarrow> ReputationManager \<Rightarrow> NodeReputation option" where
  "GetReputation nodeID r = gget (rm_scores r) nodeID"

text \<open>The first score of the same sender is replaced, otherwise the score is appended.\<close>

fun replace_score :: "PeerScore \<Rightarrow> PeerScore list \<Rightarrow> PeerScore list" where
  "replace_score score [] = [score]"
| "replace_score score (ps # pss) =
     (if psc_FromNode ps = psc_FromNode score then score # pss else ps # replace_score score pss)"

definition AddPeerScore :: "int \<Rightarrow> PeerScore \<Rightarrow> ReputationManager \<Rightarrow> ReputationManager" where
  "AddPeerScore now score r =
     (let rep = getOrCreate now (psc_TargetNode score) r;
          rep1 = rep\<lparr>nr_PeerScores := replace_score score (nr_PeerScores rep)\<rparr>
      in put_rep (regrade now rep1) (psc_TargetNode score) r)"

section \<open>Signed scores\<close>

record reputation_env =
  rp_node :: string
  rp_Sign :: "string \<Rightarrow> string"
  rp_format :: "int \<Rightarrow> string"
  rp_b64 :: "string \<Rightarrow> string option"
  rp_verify :: "string \<Rightarrow> string \<Rightarrow> string \<Rightarrow> bool"

text \<open>The format \<open>\%.0f\<close>: the nearest integer, the even one of two.\<close>

definition round_even :: "real \<Rightarrow> int" where
  "round_even x =
     (let f = \<lfloor>x\<rfloor>; d = x - of_int f in if d < 1 / 2 then f else if d > 1 / 2 then f + 1 else if even f then f else f + 1)"

definition fmt0 :: "real \<Rightarrow> string" where
  "fmt0 x = (if x < 0 then ''-'' @ itoa (round_even (- x)) else itoa (round_even x))"

definition score_payload :: "PeerScore \<Rightarrow> string" where
  "score_payload s =
     psc_FromNode s @ '':'' @ psc_TargetNode s @ '':'' @ fmt0 (psc_Availability s) @ '':'' @ fmt0 (psc_Latency s) @ '':'' @
     fmt0 (psc_Accuracy s) @ '':'' @ psc_Timestamp s"

definition SetOurScore :: "reputation_env \<Rightarrow> int \<Rightarrow> string \<Rightarrow> real \<Rightarrow> real \<Rightarrow> real \<Rightarrow> string \<Rightarrow> ReputationManager \<Rightarrow> ReputationManager" where
  "SetOurScore env now targetNodeID availability latency accuracy comment r =
     (let score = \<lparr>psc_FromNode = rp_node env, psc_TargetNode = targetNodeID, psc_Availability = availability, psc_Latency = latency,
                   psc_Accuracy = accuracy, psc_Comment = comment, psc_Timestamp = rp_format env now, psc_Signature = []\<rparr>;
          signed = score\<lparr>psc_Signature := rp_Sign env (score_payload score)\<rparr>
      in r\<lparr>rm_myScores := gput targetNodeID signed (rm_myScores r)\<rparr>)"

definition GetOurScore :: "string \<Rightarrow> ReputationManager \<Rightarrow> PeerScore option" where
  "GetOurScore targetNodeID r = gget (rm_myScores r) targetNodeID"

text \<open>The trust pool is a list of node identifiers with their public keys; the first entry of the sender counts.\<close>

definition handlePostScore :: "reputation_env \<Rightarrow> string \<Rightarrow> (string \<times> string) list \<Rightarrow> int \<Rightarrow> PeerScore option \<Rightarrow> ReputationManager
    \<Rightarrow> unit http_result \<times> ReputationManager" where
  "handlePostScore env meth pool now body r =
     (if meth \<noteq> ''POST'' then (HttpError 405 ''method not allowed'', r)
      else case body of
        None \<Rightarrow> (HttpError 400 ''invalid score body'', r)
      | Some score \<Rightarrow>
          if psc_FromNode score = [] \<or> psc_TargetNode score = [] then (HttpError 400 ''from_node and target_node are required'', r)
          else case find (\<lambda>n. fst n = psc_FromNode score) pool of
            None \<Rightarrow> (HttpError 403 ''scoring node not in trust pool'', r)
          | Some sender \<Rightarrow>
              if snd sender = [] then (HttpError 403 ''scoring node has no registered pubkey'', r)
              else case rp_b64 env (snd sender) of
                None \<Rightarrow> (HttpError 403 ''scoring node pubkey invalid'', r)
              | Some pubKeyBytes \<Rightarrow>
                  if length pubKeyBytes \<noteq> 32 then (HttpError 403 ''scoring node pubkey invalid'', r)
                  else case rp_b64 env (psc_Signature score) of
                    None \<Rightarrow> (HttpError 403 ''score signature missing or malformed'', r)
                  | Some sigBytes \<Rightarrow>
                      if length sigBytes \<noteq> 64 then (HttpError 403 ''score signature missing or malformed'', r)
                      else if \<not> rp_verify env pubKeyBytes (score_payload score) sigBytes
                      then (HttpError 403 ''score signature verification failed'', r)
                      else (HttpOK (), AddPeerScore now score r))"

section \<open>The worst grade and its duration\<close>

definition ns_second :: int where "ns_second = 1000000000"

definition ShouldRemoveNode :: "int \<Rightarrow> string \<Rightarrow> ReputationManager \<Rightarrow> bool" where
  "ShouldRemoveNode now nodeID r =
     (case gget (rm_scores r) nodeID of
        None \<Rightarrow> False
      | Some rep \<Rightarrow>
          if nr_Grade rep \<noteq> ''D'' then False
          else case nr_DGradeSince rep of Stamp since \<Rightarrow> now - since > 7 * 24 * ns_hour | _ \<Rightarrow> False)"

definition cleanup_row :: "int \<Rightarrow> NodeReputation \<Rightarrow> NodeReputation" where
  "cleanup_row now rep =
     (let rep1 = rep\<lparr>nr_OverallScore := calculateOverallScoreLocked rep\<rparr>;
          newGrade = calculateGradeLocked rep1
      in rep1\<lparr>nr_DGradeSince := (if newGrade = ''D''
                                 then if nr_Grade rep \<noteq> ''D'' \<or> nr_DGradeSince rep = NoStamp then format_stamp now else nr_DGradeSince rep
                                 else NoStamp),
              nr_Grade := newGrade, nr_LastUpdated := format_stamp now\<rparr>)"

definition reputation_cleanup :: "int \<Rightarrow> ReputationManager \<Rightarrow> ReputationManager" where
  "reputation_cleanup now r = r\<lparr>rm_scores := gmapv (cleanup_row now) (rm_scores r)\<rparr>"

section \<open>The file\<close>

text \<open>A nil map in the file, \<open>None\<close>, leaves the map of the manager.\<close>

record reputation_data =
  rd_Scores :: "(string, NodeReputation) gomap option"
  rd_MyScores :: "(string, PeerScore) gomap option"

definition reputation_snapshot :: "ReputationManager \<Rightarrow> reputation_data" where
  "reputation_snapshot r = \<lparr>rd_Scores = Some (rm_scores r), rd_MyScores = Some (rm_myScores r)\<rparr>"

definition reputation_load :: "reputation_data stored_file \<Rightarrow> ReputationManager \<Rightarrow> ReputationManager" where
  "reputation_load f r =
     (case f of
        Content d \<Rightarrow> \<lparr>rm_scores = (case rd_Scores d of Some m \<Rightarrow> m | None \<Rightarrow> rm_scores r),
                      rm_myScores = (case rd_MyScores d of Some m \<Rightarrow> m | None \<Rightarrow> rm_myScores r)\<rparr>
      | _ \<Rightarrow> r)"

definition GetAllReputations :: "ReputationManager \<Rightarrow> (string, NodeReputation) gomap" where
  "GetAllReputations r = rm_scores r"

definition handleGetReputations :: "string \<Rightarrow> ReputationManager option \<Rightarrow> ((string, NodeReputation) gomap \<times> nat) http_result" where
  "handleGetReputations meth ro =
     (if meth \<noteq> ''GET'' then HttpError 405 ''method not allowed''
      else case ro of None \<Rightarrow> HttpOK ([], 0) | Some r \<Rightarrow> HttpOK (GetAllReputations r, length (GetAllReputations r)))"

definition initReputation :: "reputation_data stored_file \<Rightarrow> ReputationManager" where
  "initReputation f = reputation_load f \<lparr>rm_scores = [], rm_myScores = []\<rparr>"

section \<open>Verdicts of the capability probe\<close>

text \<open>
  \<open>recordNodeVerdict\<close> of \<open>src/peer_capability_probe.go\<close>: the outcomes of one cycle, per model, become one entry; the counters
  of consecutive failures are kept per node and model.
\<close>

datatype probe_outcome = ProbeSuccess | ProbeFailure | ProbeInconclusive

definition count_failure :: "string \<Rightarrow> string \<times> probe_outcome \<times> real \<Rightarrow> (string, int) gomap \<Rightarrow> (string, int) gomap" where
  "count_failure nodeID oc m =
     (let key = nodeID @ ''|'' @ fst oc in
      if fst (snd oc) = ProbeFailure then gput key (i64 (gget0 0 m key + 1)) m else gdel key m)"

definition recordNodeVerdict :: "int \<Rightarrow> string \<Rightarrow> (string \<times> probe_outcome \<times> real) list \<Rightarrow> (string, int) gomap \<Rightarrow> ReputationManager option
    \<Rightarrow> (string, int) gomap \<times> ReputationManager option" where
  "recordNodeVerdict now nodeID outcomes consecFail ro =
     (case ro of
        None \<Rightarrow> (consecFail, None)
      | Some r \<Rightarrow>
          if outcomes = [] then (consecFail, Some r)
          else let avgLatency = fold (\<lambda>oc l. l + snd (snd oc)) outcomes 0 / real (length outcomes);
                   consecFail' = fold (count_failure nodeID) outcomes consecFail;
                   failed = filter (\<lambda>oc. fst (snd oc) = ProbeFailure) outcomes;
                   succeeded = filter (\<lambda>oc. fst (snd oc) = ProbeSuccess) outcomes
               in (consecFail',
                   Some (if failed \<noteq> [] then RecordAccuracy now nodeID False (RecordCall now nodeID False avgLatency r)
                         else if succeeded \<noteq> [] then RecordAccuracy now nodeID True (RecordCall now nodeID True avgLatency r)
                         else r)))"

section \<open>Runs\<close>

datatype rep_op =
    CallOp string bool real
  | AccuracyOp string bool
  | PostOp string "(string \<times> string) list" "PeerScore option"
  | OurOp string real real real string
  | CleanOp

fun rep_apply :: "reputation_env \<Rightarrow> int \<times> rep_op \<Rightarrow> ReputationManager \<Rightarrow> ReputationManager" where
  "rep_apply env (now, CallOp n ok l) r = RecordCall now n ok l r"
| "rep_apply env (now, AccuracyOp n ok) r = RecordAccuracy now n ok r"
| "rep_apply env (now, PostOp meth pool body) r = snd (handlePostScore env meth pool now body r)"
| "rep_apply env (now, OurOp n a l c t) r = SetOurScore env now n a l c t r"
| "rep_apply env (now, CleanOp) r = reputation_cleanup now r"

text \<open>All operations but a refused post save.\<close>

fun rep_saves :: "reputation_env \<Rightarrow> int \<times> rep_op \<Rightarrow> ReputationManager \<Rightarrow> bool" where
  "rep_saves env (now, PostOp meth pool body) r = (fst (handlePostScore env meth pool now body r) = HttpOK ())"
| "rep_saves env (now, op) r = True"

text \<open>The node: its manager, the snapshots taken and not yet written, and the file.\<close>

record rep_node =
  rn_manager :: ReputationManager
  rn_pending :: "reputation_data list"
  rn_file :: "reputation_data stored_file"

datatype rep_event = RepOp "int \<times> rep_op" | RepWrite io_env nat

fun rep_step :: "reputation_env \<Rightarrow> rep_event \<Rightarrow> rep_node \<Rightarrow> rep_node" where
  "rep_step env (RepOp op) n =
     (let r' = rep_apply env op (rn_manager n) in
      n\<lparr>rn_manager := r',
        rn_pending := rn_pending n @ (if rep_saves env op (rn_manager n) then [reputation_snapshot r'] else [])\<rparr>)"
| "rep_step env (RepWrite io k) n =
     (if k < length (rn_pending n)
      then n\<lparr>rn_file := atomicWriteFile io (rn_pending n ! k) (rn_file n), rn_pending := take k (rn_pending n) @ drop (Suc k) (rn_pending n)\<rparr>
      else n)"

section \<open>Well-formed managers\<close>

definition scores_ok :: "NodeReputation \<Rightarrow> bool" where
  "scores_ok rep \<longleftrightarrow> nr_Availability rep \<in> {0..100} \<and> nr_Latency rep \<in> {0..100} \<and> nr_Accuracy rep \<in> {0..100} \<and>
     distinct (map psc_FromNode (nr_PeerScores rep))"

definition rep_ok :: "NodeReputation \<Rightarrow> bool" where
  "rep_ok rep \<longleftrightarrow> scores_ok rep \<and> nr_OverallScore rep = calculateOverallScoreLocked rep \<and> nr_Grade rep = calculateGradeLocked rep"

definition manager_ok :: "ReputationManager \<Rightarrow> bool" where
  "manager_ok r \<longleftrightarrow> gmap_ok (rm_scores r) \<and> gmap_ok (rm_myScores r) \<and> (\<forall>i rep. gget (rm_scores r) i = Some rep \<longrightarrow> rep_ok rep)"

lemma ewma_range: "s \<in> {0..100} \<Longrightarrow> x \<in> {0..100} \<Longrightarrow> ewma s x \<in> {0..100}"
  by (auto simp: ewma_def repEwmaAlpha_def)

lemma ewma_verdict: "x \<in> {0..100} \<Longrightarrow> ewma (if b then 100 else 0) x \<in> {0..100}"
  by (rule ewma_range) auto

lemma latency_range: "latency_sample l \<in> {0..100}"
  by (auto simp: latency_sample_def Let_def)

lemma regrade_fields [simp]:
  "nr_Availability (regrade now rep) = nr_Availability rep" "nr_Latency (regrade now rep) = nr_Latency rep"
  "nr_Accuracy (regrade now rep) = nr_Accuracy rep" "nr_PeerScores (regrade now rep) = nr_PeerScores rep"
  "nr_DGradeSince (regrade now rep) = nr_DGradeSince rep"
  "calculateOverallScoreLocked (regrade now rep) = calculateOverallScoreLocked rep"
  "nr_OverallScore (regrade now rep) = calculateOverallScoreLocked rep"
  by (simp_all add: regrade_def Let_def calculateOverallScoreLocked_def)

lemma regrade_grade [simp]: "calculateGradeLocked (regrade now rep) = nr_Grade (regrade now rep)"
  by (simp add: regrade_def Let_def calculateGradeLocked_def)

lemma regrade_ok: "scores_ok rep \<Longrightarrow> rep_ok (regrade now rep)"
  by (simp add: rep_ok_def scores_ok_def)

lemma senders_replace: "psc_FromNode ` set (replace_score s pss) = insert (psc_FromNode s) (psc_FromNode ` set pss)"
  by (induction pss) auto

lemma distinct_replace: "distinct (map psc_FromNode pss) \<Longrightarrow> distinct (map psc_FromNode (replace_score s pss))"
  by (induction pss) (auto simp: senders_replace [unfolded image_def] image_def senders_replace)

lemma getOrCreate_ok: "manager_ok r \<Longrightarrow> scores_ok (getOrCreate now i r)"
  by (auto simp: getOrCreate_def manager_ok_def rep_ok_def scores_ok_def split: option.split)

lemma put_rep_ok: "manager_ok r \<Longrightarrow> rep_ok rep \<Longrightarrow> manager_ok (put_rep rep i r)"
  by (auto simp: manager_ok_def put_rep_def)

lemma RecordCall_ok: "manager_ok r \<Longrightarrow> manager_ok (RecordCall now i ok l r)"
  using getOrCreate_ok [of r now i] unfolding RecordCall_def Let_def
  by (intro put_rep_ok regrade_ok) (simp_all add: scores_ok_def ewma_range ewma_verdict latency_range del: atLeastAtMost_iff)

lemma RecordAccuracy_ok: "manager_ok r \<Longrightarrow> manager_ok (RecordAccuracy now i ok r)"
  using getOrCreate_ok [of r now i] unfolding RecordAccuracy_def Let_def
  by (intro put_rep_ok regrade_ok) (simp_all add: scores_ok_def ewma_verdict del: atLeastAtMost_iff)

lemma AddPeerScore_ok: "manager_ok r \<Longrightarrow> manager_ok (AddPeerScore now s r)"
  using getOrCreate_ok [of r now "psc_TargetNode s"] unfolding AddPeerScore_def Let_def
  by (intro put_rep_ok regrade_ok) (auto simp: scores_ok_def distinct_replace)

lemma cleanup_row_fields [simp]:
  "scores_ok (cleanup_row now rep) = scores_ok rep" "calculateOverallScoreLocked (cleanup_row now rep) = calculateOverallScoreLocked rep"
  "nr_OverallScore (cleanup_row now rep) = calculateOverallScoreLocked rep"
  by (simp_all add: cleanup_row_def Let_def scores_ok_def calculateOverallScoreLocked_def)

lemma cleanup_row_ok: "scores_ok rep \<Longrightarrow> rep_ok (cleanup_row now rep)"
  by (simp add: rep_ok_def) (simp add: cleanup_row_def Let_def calculateGradeLocked_def)

lemma cleanup_ok: "manager_ok r \<Longrightarrow> manager_ok (reputation_cleanup now r)"
  by (auto simp: manager_ok_def reputation_cleanup_def rep_ok_def intro: cleanup_row_ok [unfolded rep_ok_def, THEN conjunct2, THEN conjunct2])

lemma rep_apply_ok: "manager_ok r \<Longrightarrow> manager_ok (rep_apply env op r)"
proof (cases op)
  case (Pair now o')
  assume ok: "manager_ok r"
  show ?thesis
  proof (cases o')
    case (PostOp meth pool body)
    then show ?thesis using ok AddPeerScore_ok [OF ok] by (simp add: Pair handlePostScore_def split: option.split)
  next
    case (OurOp n a l c t)
    then show ?thesis using ok by (auto simp: Pair SetOurScore_def Let_def manager_ok_def)
  qed (simp_all add: Pair RecordCall_ok RecordAccuracy_ok cleanup_ok ok)
qed

lemma fold_rep_apply_ok: "manager_ok r \<Longrightarrow> manager_ok (fold (rep_apply env) ops r)"
  by (induction ops arbitrary: r) (simp_all add: rep_apply_ok)

lemma consensus_bounds:
  assumes "\<forall>ps\<in>set pss. psc_Availability ps \<in> {a..b}" and "a \<le> 0" and "0 \<le> b"
  shows "peer_consensus pss \<in> {a..b}"
proof (cases "pss = []")
  case False
  have f: "fold (\<lambda>ps s. s + psc_Availability ps) pss c = c + (\<Sum>ps\<leftarrow>pss. psc_Availability ps)" for c
    by (induction pss arbitrary: c) auto
  have "(\<Sum>ps\<leftarrow>pss. a) \<le> (\<Sum>ps\<leftarrow>pss. psc_Availability ps) \<and> (\<Sum>ps\<leftarrow>pss. psc_Availability ps) \<le> (\<Sum>ps\<leftarrow>pss. b)"
    using assms(1) by (intro conjI sum_list_mono) auto
  then have "real (length pss) * a \<le> (\<Sum>ps\<leftarrow>pss. psc_Availability ps)" "(\<Sum>ps\<leftarrow>pss. psc_Availability ps) \<le> real (length pss) * b"
    by (simp_all add: sum_list_triv)
  with False show ?thesis by (simp add: peer_consensus_def f field_simps)
qed (use assms in \<open>simp add: peer_consensus_def\<close>)

section \<open>What the manager guarantees\<close>

text \<open>
  Scores and grades of every node, after any operations: the averages stay between 0 and 100, no sender counts twice,
  and score and grade are those of the formula. If peers post values between 0 and 100, the score is between 0 and 100;
  without scores of peers it is at most 90, so the best grade is out of reach.
\<close>

theorem reputation_bounds:
  assumes "manager_ok r" and "gget (rm_scores (fold (rep_apply env) ops r)) i = Some rep"
  shows "nr_Availability rep \<in> {0..100} \<and> nr_Latency rep \<in> {0..100} \<and> nr_Accuracy rep \<in> {0..100} \<and>
    distinct (map psc_FromNode (nr_PeerScores rep)) \<and>
    nr_OverallScore rep = calculateOverallScoreLocked rep \<and> nr_Grade rep = calculateGradeLocked rep \<and>
    ((\<forall>ps\<in>set (nr_PeerScores rep). psc_Availability ps \<in> {0..100}) \<longrightarrow> nr_OverallScore rep \<in> {0..100}) \<and>
    (nr_PeerScores rep = [] \<longrightarrow> nr_OverallScore rep \<le> 90 \<and> nr_Grade rep \<noteq> ''S'')"
proof -
  have ok: "rep_ok rep" using fold_rep_apply_ok [OF assms(1)] assms(2) by (auto simp: manager_ok_def)
  note parts = ok [unfolded rep_ok_def scores_ok_def]
  have "nr_OverallScore rep \<in> {0..100}" if "\<forall>ps\<in>set (nr_PeerScores rep). psc_Availability ps \<in> {0..100}"
    using consensus_bounds [OF that] parts by (auto simp: calculateOverallScoreLocked_def)
  moreover have "nr_OverallScore rep \<le> 90" if "nr_PeerScores rep = []"
    using parts that by (auto simp: calculateOverallScoreLocked_def peer_consensus_def)
  ultimately show ?thesis using parts by (auto simp: calculateGradeLocked_def Let_def)
qed

definition plain_rep_env :: reputation_env where
  "plain_rep_env = \<lparr>rp_node = ''me'', rp_Sign = (\<lambda>s. s), rp_format = (\<lambda>_. ''now''), rp_b64 = (\<lambda>s. Some (replicate (if s = ''key'' then 32 else 64) CHR ''x'')),
     rp_verify = (\<lambda>_ _ _. True)\<rparr>"

theorem reputation_bounds_witness:
  "\<exists>rep. gget (rm_scores (fold (rep_apply plain_rep_env) [(1, CallOp ''n'' True 10), (2, AccuracyOp ''n'' False), (3, CleanOp)]
       (initReputation Absent))) ''n'' = Some rep \<and> nr_OverallScore rep \<le> 90 \<and> nr_Availability rep \<in> {0..100}"
proof -
  let ?r = "fold (rep_apply plain_rep_env) [(1, CallOp ''n'' True 10), (2, AccuracyOp ''n'' False), (3, CleanOp)] (initReputation Absent)"
  define rep where "rep = the (gget (rm_scores ?r) ''n'')"
  have ok: "manager_ok (initReputation Absent)" by (simp add: initReputation_def reputation_load_def manager_ok_def)
  have g: "gget (rm_scores ?r) ''n'' = Some rep"
    by (simp add: rep_def reputation_cleanup_def RecordAccuracy_def put_rep_def Let_def)
  have "nr_PeerScores rep = []"
    by (simp add: rep_def reputation_cleanup_def cleanup_row_def RecordAccuracy_def RecordCall_def put_rep_def Let_def getOrCreate_def
        initReputation_def reputation_load_def)
  with reputation_bounds [OF ok g] show ?thesis using g by blast
qed

text \<open>
  (C32) Posted scores. A score is taken exactly when the request is a POST whose body names a sender and a target, and the
  first entry of the sender in the trust pool has a key of 32 bytes under which the signature of 64 bytes over the
  canonical text verifies. A refused score changes nothing and is answered with 405, 400 or 403.
\<close>

theorem posted_score_authentic:
  "case handlePostScore env meth pool now body r of
     (HttpOK _, r') \<Rightarrow>
       (\<exists>s pub key sig. meth = ''POST'' \<and> body = Some s \<and> psc_FromNode s \<noteq> [] \<and> psc_TargetNode s \<noteq> [] \<and>
          find (\<lambda>n. fst n = psc_FromNode s) pool = Some (psc_FromNode s, pub) \<and> pub \<noteq> [] \<and>
          rp_b64 env pub = Some key \<and> length key = 32 \<and> rp_b64 env (psc_Signature s) = Some sig \<and> length sig = 64 \<and>
          rp_verify env key (score_payload s) sig \<and> r' = AddPeerScore now s r)
   | (HttpError code msg, r') \<Rightarrow>
       r' = r \<and> code \<in> {400, 403, 405} \<and>
       \<not> (\<exists>s pub key sig. meth = ''POST'' \<and> body = Some s \<and> psc_FromNode s \<noteq> [] \<and> psc_TargetNode s \<noteq> [] \<and>
          find (\<lambda>n. fst n = psc_FromNode s) pool = Some (psc_FromNode s, pub) \<and> pub \<noteq> [] \<and>
          rp_b64 env pub = Some key \<and> length key = 32 \<and> rp_b64 env (psc_Signature s) = Some sig \<and> length sig = 64 \<and>
          rp_verify env key (score_payload s) sig)"
proof (cases body)
  case None
  then show ?thesis by (simp add: handlePostScore_def)
next
  case (Some s)
  show ?thesis
  proof (cases "find (\<lambda>n. fst n = psc_FromNode s) pool")
    case None
    then show ?thesis by (simp add: handlePostScore_def Some)
  next
    case (Some n)
    have "fst n = psc_FromNode s" using Some by (auto simp: find_Some_iff)
    then obtain pub where n: "n = (psc_FromNode s, pub)" by (cases n) simp
    show ?thesis using Some n \<open>body = Some s\<close>
      by (cases "rp_b64 env pub"; cases "rp_b64 env (psc_Signature s)") (simp_all add: handlePostScore_def)
  qed
qed

section \<open>Removal\<close>

definition grade_of :: "string \<Rightarrow> ReputationManager \<Rightarrow> string option" where
  "grade_of i r = map_option nr_Grade (gget (rm_scores r) i)"

definition since_of :: "string \<Rightarrow> ReputationManager \<Rightarrow> stamp" where
  "since_of i r = (case gget (rm_scores r) i of None \<Rightarrow> NoStamp | Some rep \<Rightarrow> nr_DGradeSince rep)"

lemma since_put:
  "since_of i (put_rep rep j r) = (if i = j then nr_DGradeSince rep else since_of i r)"
  by (simp add: since_of_def put_rep_def)

lemma since_create: "nr_DGradeSince (getOrCreate now i r) = since_of i r"
  by (simp add: since_of_def getOrCreate_def split: option.split)

lemma since_AddPeerScore: "since_of i (AddPeerScore now s r) = since_of i r"
  by (simp add: AddPeerScore_def Let_def since_put since_create)

lemma posted_score_changes: "snd (handlePostScore env meth pool now body r) = r \<or> (\<exists>s. snd (handlePostScore env meth pool now body r) = AddPeerScore now s r)"
  by (auto simp: handlePostScore_def split: option.split)

text \<open>Only a cleanup changes since when a node is at the worst grade.\<close>

lemma since_step: "o' \<noteq> CleanOp \<Longrightarrow> since_of i (rep_apply env (now, o') r) = since_of i r"
proof (cases o')
  case (PostOp meth pool body)
  have "snd (handlePostScore env meth pool now body r) \<in> {r} \<union> (\<lambda>s. AddPeerScore now s r) ` UNIV"
    using posted_score_changes [of env meth pool now body r] by blast
  then show ?thesis by (auto simp: PostOp since_AddPeerScore)
next
  case (OurOp n a l c t)
  then show ?thesis by (simp add: SetOurScore_def Let_def since_of_def)
qed (simp_all add: RecordCall_def RecordAccuracy_def Let_def since_put since_create)

lemma clean_step:
  assumes "since_of i (reputation_cleanup now r) = Stamp s"
  shows "grade_of i (reputation_cleanup now r) = Some ''D'' \<and> (since_of i r = Stamp s \<or> Stamp s = format_stamp now)"
  using assms by (cases "gget (rm_scores r) i")
    (auto simp: since_of_def grade_of_def reputation_cleanup_def cleanup_row_def Let_def split: if_splits)

text \<open>
  The cleanup at which the worst grade was first seen is in the history, and it was seen at every cleanup since.
\<close>

definition d_since :: "reputation_env \<Rightarrow> ReputationManager \<Rightarrow> (int \<times> rep_op) list \<Rightarrow> string \<Rightarrow> int \<Rightarrow> bool" where
  "d_since env r0 ops i s \<longleftrightarrow>
     (\<exists>pre t post. ops = pre @ (t, CleanOp) # post \<and> Stamp s = format_stamp t \<and>
        (\<forall>p t' q. (t, CleanOp) # post = p @ (t', CleanOp) # q \<longrightarrow>
           grade_of i (fold (rep_apply env) (pre @ p @ [(t', CleanOp)]) r0) = Some ''D''))"

lemma d_since_other:
  assumes "d_since env r0 ops i s" and "snd op = CleanOp \<Longrightarrow> grade_of i (fold (rep_apply env) (ops @ [op]) r0) = Some ''D''"
  shows "d_since env r0 (ops @ [op]) i s"
proof -
  obtain pre t post where ops: "ops = pre @ (t, CleanOp) # post" "Stamp s = format_stamp t"
    and D: "\<And>p t' q. (t, CleanOp) # post = p @ (t', CleanOp) # q \<Longrightarrow> grade_of i (fold (rep_apply env) (pre @ p @ [(t', CleanOp)]) r0) = Some ''D''"
    using assms(1) unfolding d_since_def by blast
  have "grade_of i (fold (rep_apply env) (pre @ p @ [(t', CleanOp)]) r0) = Some ''D''"
    if eq: "(t, CleanOp) # post @ [op] = p @ (t', CleanOp) # q" for p t' q
  proof (cases q rule: rev_exhaust)
    case Nil
    then have "op = (t', CleanOp)" "p = (t, CleanOp) # post" using eq by (metis append_Cons append_butlast_last_id butlast_snoc last_snoc list.distinct(1))+
    then show ?thesis using assms(2) by (simp add: ops)
  next
    case (snoc q' x)
    then have "(t, CleanOp) # post = p @ (t', CleanOp) # q'"
      using eq by (metis append_Cons append_assoc butlast_snoc)
    then show ?thesis by (rule D)
  qed
  then show ?thesis unfolding d_since_def
    by (intro exI [of _ pre] exI [of _ t] exI [of _ "post @ [op]"]) (simp add: ops)
qed

lemma since_history:
  assumes "since_of i r0 = NoStamp"
  shows "since_of i (fold (rep_apply env) ops r0) = Stamp s \<Longrightarrow> d_since env r0 ops i s"
proof (induction ops rule: rev_induct)
  case Nil
  then show ?case using assms by simp
next
  case (snoc op ops)
  let ?r = "fold (rep_apply env) ops r0"
  obtain t o' where op: "op = (t, o')" by force
  show ?case
  proof (cases "o' = CleanOp")
    case False
    have "since_of i (fold (rep_apply env) (ops @ [op]) r0) = since_of i ?r" using since_step [OF False] by (simp add: op)
    then show ?thesis using snoc False by (intro d_since_other) (simp_all add: op)
  next
    case True
    have D: "grade_of i (fold (rep_apply env) (ops @ [op]) r0) = Some ''D''"
      and or: "since_of i ?r = Stamp s \<or> Stamp s = format_stamp t"
      using clean_step [of i t ?r s] snoc.prems by (simp_all add: op True)
    show ?thesis
    proof (cases "Stamp s = format_stamp t")
      case fresh: True
      have "[op] = p @ (t', CleanOp) # q \<Longrightarrow> p = [] \<and> op = (t', CleanOp)" for p t' q by (cases p) auto
      then show ?thesis unfolding d_since_def using fresh D
        by (intro exI [of _ ops] exI [of _ t] exI [of _ "[]"]) (auto simp: op True Cons_eq_append_conv)
    next
      case False
      with or snoc.IH have "d_since env r0 ops i s" by blast
      then show ?thesis by (rule d_since_other) (rule D)
    qed
  qed
qed

text \<open>
  No hasty removal. A node is due for removal only if its grade is the worst now, some cleanup more than a week ago
  (up to the second that the time stamp is rounded to) found it at the worst grade, and so did every cleanup since.
\<close>

theorem removal_takes_a_week:
  assumes "ShouldRemoveNode now i (fold (rep_apply env) ops (initReputation Absent))"
  shows "\<exists>pre t post. ops = pre @ (t, CleanOp) # post \<and> now - t + ns_second > 7 * 24 * ns_hour \<and>
    grade_of i (fold (rep_apply env) ops (initReputation Absent)) = Some ''D'' \<and>
    (\<forall>p t' q. (t, CleanOp) # post = p @ (t', CleanOp) # q \<longrightarrow>
       grade_of i (fold (rep_apply env) (pre @ p @ [(t', CleanOp)]) (initReputation Absent)) = Some ''D'')"
proof -
  let ?r = "fold (rep_apply env) ops (initReputation Absent)"
  from assms obtain rep s where rep: "gget (rm_scores ?r) i = Some rep" "nr_Grade rep = ''D''" "nr_DGradeSince rep = Stamp s"
    and week: "now - s > 7 * 24 * ns_hour"
    by (auto simp: ShouldRemoveNode_def split: option.splits if_splits stamp.splits)
  have "since_of i (initReputation Absent) = NoStamp" by (simp add: since_of_def initReputation_def reputation_load_def)
  then have "d_since env (initReputation Absent) ops i s" by (rule since_history) (simp add: since_of_def rep)
  then obtain pre t post where h: "ops = pre @ (t, CleanOp) # post" "Stamp s = format_stamp t"
    "\<forall>p t' q. (t, CleanOp) # post = p @ (t', CleanOp) # q \<longrightarrow>
       grade_of i (fold (rep_apply env) (pre @ p @ [(t', CleanOp)]) (initReputation Absent)) = Some ''D''"
    unfolding d_since_def by blast
  have "s = t - t mod 1000000000" using h(2) by (simp add: format_stamp_def minus_mod_eq_div_mult [symmetric])
  moreover have "t mod 1000000000 < 1000000000" by simp
  ultimately have "t < s + ns_second" unfolding ns_second_def by linarith
  then have "now - t + ns_second > 7 * 24 * ns_hour" using week by linarith
  then show ?thesis using h rep by (auto simp: grade_of_def)
qed

theorem removal_takes_a_week_witness:
  "ShouldRemoveNode (8 * ns_day) ''n'' (fold (rep_apply plain_rep_env) [(0, CallOp ''n'' False 5000), (0, CleanOp)] (initReputation Absent)) \<and>
   grade_of ''n'' (fold (rep_apply plain_rep_env) [(0, CallOp ''n'' False 5000), (0, CleanOp)] (initReputation Absent)) = Some ''D''"
proof -
  have "ShouldRemoveNode (8 * ns_day) ''n'' (fold (rep_apply plain_rep_env) [(0, CallOp ''n'' False 5000), (0, CleanOp)] (initReputation Absent))"
    by (simp add: ShouldRemoveNode_def reputation_cleanup_def cleanup_row_def RecordCall_def put_rep_def Let_def getOrCreate_def
        initReputation_def reputation_load_def regrade_def calculateGradeLocked_def calculateOverallScoreLocked_def peer_consensus_def
        ewma_def repEwmaAlpha_def latency_sample_def format_stamp_def ns_day_def ns_hour_def)
  with removal_takes_a_week [OF this] show ?thesis by blast
qed

section \<open>Failing probes\<close>

definition failing :: "(string \<times> probe_outcome \<times> real) list \<Rightarrow> bool" where
  "failing outcomes \<longleftrightarrow> (\<exists>oc\<in>set outcomes. fst (snd oc) = ProbeFailure)"

text \<open>A failing verdict multiplies availability and accuracy by 0.7; only the latency may still count.\<close>

lemma failing_verdict:
  assumes "manager_ok r" and "failing outcomes"
  shows "\<exists>r' rep. snd (recordNodeVerdict now i outcomes cf (Some r)) = Some r' \<and> manager_ok r' \<and> gget (rm_scores r') i = Some rep \<and>
    nr_Availability rep = 7 / 10 * nr_Availability (getOrCreate now i r) \<and> nr_Accuracy rep = 7 / 10 * nr_Accuracy (getOrCreate now i r) \<and>
    nr_PeerScores rep = nr_PeerScores (getOrCreate now i r)"
proof -
  let ?l = "fold (\<lambda>oc l. l + snd (snd oc)) outcomes 0 / real (length outcomes)"
  let ?r = "RecordAccuracy now i False (RecordCall now i False ?l r)"
  have "outcomes \<noteq> []" "filter (\<lambda>oc. fst (snd oc) = ProbeFailure) outcomes \<noteq> []"
    using assms(2) by (auto simp: failing_def filter_empty_conv)
  then have "snd (recordNodeVerdict now i outcomes cf (Some r)) = Some ?r" by (simp add: recordNodeVerdict_def Let_def)
  moreover have "manager_ok ?r" by (intro RecordAccuracy_ok RecordCall_ok assms)
  moreover have "getOrCreate now i (put_rep rep i r) = rep" for rep by (simp add: getOrCreate_def put_rep_def)
  ultimately show ?thesis
    by (auto simp: RecordAccuracy_def RecordCall_def Let_def put_rep_def ewma_def repEwmaAlpha_def)
qed

fun verdicts :: "string \<Rightarrow> (int \<times> (string \<times> probe_outcome \<times> real) list) list \<Rightarrow> (string, int) gomap \<times> ReputationManager option
    \<Rightarrow> (string, int) gomap \<times> ReputationManager option" where
  "verdicts i [] st = st"
| "verdicts i ((now, outcomes) # vs) (cf, ro) = verdicts i vs (recordNodeVerdict now i outcomes cf ro)"

lemma failing_verdicts:
  assumes "manager_ok r" and "\<forall>v\<in>set vs. failing (snd v)" and "gget (rm_scores r) i = Some rep"
  shows "\<exists>r' rep'. snd (verdicts i vs (cf, Some r)) = Some r' \<and> manager_ok r' \<and> gget (rm_scores r') i = Some rep' \<and>
    nr_Availability rep' = (7 / 10) ^ length vs * nr_Availability rep \<and> nr_Accuracy rep' = (7 / 10) ^ length vs * nr_Accuracy rep \<and>
    nr_PeerScores rep' = nr_PeerScores rep"
  using assms
proof (induction vs arbitrary: r rep cf)
  case (Cons v vs)
  obtain now outcomes where v: "v = (now, outcomes)" by force
  obtain cf1 ro where st: "recordNodeVerdict now i outcomes cf (Some r) = (cf1, ro)" by force
  have "failing outcomes" using Cons.prems(2) by (simp add: v)
  from failing_verdict [OF Cons.prems(1) this, of now i cf] obtain r1 rep1 where
    1: "ro = Some r1" "manager_ok r1" "gget (rm_scores r1) i = Some rep1" "nr_Availability rep1 = 7 / 10 * nr_Availability rep"
      "nr_Accuracy rep1 = 7 / 10 * nr_Accuracy rep" "nr_PeerScores rep1 = nr_PeerScores rep"
    using Cons.prems(3) by (auto simp: st getOrCreate_def)
  from Cons.IH [OF 1(2) _ 1(3), of cf1] Cons.prems(2) 1 show ?case by (auto simp: v st mult.assoc [symmetric] mult.commute)
qed auto

text \<open>
  False claims are found out. After six cycles in a row in which a model of the node failed the probe, whatever the
  latencies, a node that no peer has scored is at the worst grade, however good it was before.
\<close>

theorem failing_node_graded_down:
  assumes "manager_ok r" and "gget (rm_scores r) i = Some rep" and "nr_PeerScores rep = []"
    and "length vs = 6" and "\<forall>v\<in>set vs. failing (snd v)"
  shows "\<exists>r'. snd (verdicts i vs (cf, Some r)) = Some r' \<and> grade_of i r' = Some ''D''"
proof -
  obtain r' rep' where r': "snd (verdicts i vs (cf, Some r)) = Some r'" "manager_ok r'" "gget (rm_scores r') i = Some rep'"
    and q: "nr_Availability rep' = (7 / 10) ^ 6 * nr_Availability rep" "nr_Accuracy rep' = (7 / 10) ^ 6 * nr_Accuracy rep"
      "nr_PeerScores rep' = []"
    using failing_verdicts [OF assms(1,5,2), of cf] assms(3,4) by auto
  have ok: "rep_ok rep" "rep_ok rep'" using assms(1,2) r'(2,3) by (auto simp: manager_ok_def)
  have "nr_Availability rep \<le> 100" "nr_Accuracy rep \<le> 100" "nr_Latency rep' \<le> 100"
    using ok by (simp_all add: rep_ok_def scores_ok_def)
  then have "nr_OverallScore rep' < 40"
    using ok(2) q by (simp add: rep_ok_def calculateOverallScoreLocked_def peer_consensus_def power_divide)
  then have "nr_Grade rep' = ''D''" using ok(2) by (simp add: rep_ok_def calculateGradeLocked_def Let_def)
  then show ?thesis using r' by (simp add: grade_of_def)
qed

definition good_rep :: NodeReputation where
  "good_rep = \<lparr>nr_NodeID = ''n'', nr_Availability = 100, nr_Latency = 100, nr_Accuracy = 100, nr_PeerScores = [],
     nr_OverallScore = 90, nr_Grade = ''A'', nr_LastUpdated = NoStamp, nr_TotalRequests = 0, nr_FailedRequests = 0, nr_DGradeSince = NoStamp\<rparr>"

theorem failing_node_graded_down_witness:
  "\<exists>r'. snd (verdicts ''n'' (replicate 6 (0, [(''m'', ProbeFailure, 20), (''k'', ProbeSuccess, 10)]))
       ([], Some \<lparr>rm_scores = [(''n'', good_rep)], rm_myScores = []\<rparr>)) = Some r' \<and> grade_of ''n'' r' = Some ''D''"
proof (rule failing_node_graded_down)
  show "manager_ok \<lparr>rm_scores = [(''n'', good_rep)], rm_myScores = []\<rparr>"
    by (simp add: manager_ok_def rep_ok_def scores_ok_def good_rep_def calculateOverallScoreLocked_def peer_consensus_def calculateGradeLocked_def)
  show "gget (rm_scores \<lparr>rm_scores = [(''n'', good_rep)], rm_myScores = []\<rparr>) ''n'' = Some good_rep" by simp
qed (simp_all add: good_rep_def failing_def)

text \<open>
  Fewer cycles need not be enough, and with one peer that vouches for it a node that fails at once never gets the worst grade:
  a latency of zero counts in favour of a failing node.
\<close>

lemma fast_failure:
  assumes "gget (rm_scores r) i = Some rep" and "nr_Latency rep = 100"
  shows "\<exists>r' rep'. snd (recordNodeVerdict now i [(m, ProbeFailure, 0)] cf (Some r)) = Some r' \<and> gget (rm_scores r') i = Some rep' \<and>
    nr_Latency rep' = 100 \<and> nr_Availability rep' = 7 / 10 * nr_Availability rep \<and> nr_Accuracy rep' = 7 / 10 * nr_Accuracy rep \<and>
    nr_PeerScores rep' = nr_PeerScores rep \<and> nr_OverallScore rep' = calculateOverallScoreLocked rep' \<and>
    nr_Grade rep' = calculateGradeLocked rep'"
  using assms
  by (simp add: recordNodeVerdict_def Let_def RecordAccuracy_def RecordCall_def getOrCreate_def put_rep_def latency_sample_def
      ewma_def repEwmaAlpha_def)

lemma endorsed_node_never_D:
  assumes "gget (rm_scores r) i = Some rep" and "nr_Latency rep = 100" and "nr_Availability rep \<ge> 0" and "nr_Accuracy rep \<ge> 0"
    and "peer_consensus (nr_PeerScores rep) = 100"
  shows "\<exists>r'. snd (recordNodeVerdict now i [(m, ProbeFailure, 0)] cf (Some r)) = Some r' \<and> grade_of i r' \<noteq> Some ''D''"
proof -
  obtain r' rep' where r': "snd (recordNodeVerdict now i [(m, ProbeFailure, 0)] cf (Some r)) = Some r'" "gget (rm_scores r') i = Some rep'"
    and q: "nr_Latency rep' = 100" "nr_Availability rep' = 7 / 10 * nr_Availability rep" "nr_Accuracy rep' = 7 / 10 * nr_Accuracy rep"
      "nr_PeerScores rep' = nr_PeerScores rep" "nr_OverallScore rep' = calculateOverallScoreLocked rep'" "nr_Grade rep' = calculateGradeLocked rep'"
    using fast_failure [OF assms(1,2), of now m cf] by blast
  have "nr_OverallScore rep' \<ge> 40" using q assms(3-5) by (simp add: calculateOverallScoreLocked_def)
  then show ?thesis using r' q by (simp add: grade_of_def calculateGradeLocked_def Let_def)
qed

lemma two_failures_keep_C:
  "\<exists>r1 r2. snd (recordNodeVerdict 0 ''n'' [(m, ProbeFailure, 0)] cf (Some \<lparr>rm_scores = [(''n'', good_rep)], rm_myScores = []\<rparr>)) = Some r1 \<and>
     snd (recordNodeVerdict 1 ''n'' [(m, ProbeFailure, 0)] cf' (Some r1)) = Some r2 \<and> grade_of ''n'' r2 = Some ''C''"
proof -
  have g: "gget (rm_scores \<lparr>rm_scores = [(''n'', good_rep)], rm_myScores = []\<rparr>) ''n'' = Some good_rep" "nr_Latency good_rep = 100"
    by (simp_all add: good_rep_def)
  obtain r1 rep1 where 1: "snd (recordNodeVerdict 0 ''n'' [(m, ProbeFailure, 0)] cf (Some \<lparr>rm_scores = [(''n'', good_rep)], rm_myScores = []\<rparr>)) = Some r1"
    "gget (rm_scores r1) ''n'' = Some rep1" "nr_Latency rep1 = 100" "nr_Availability rep1 = 70" "nr_Accuracy rep1 = 70" "nr_PeerScores rep1 = []"
    using fast_failure [OF g, of 0 m cf] by (auto simp: good_rep_def)
  obtain r2 rep2 where 2: "snd (recordNodeVerdict 1 ''n'' [(m, ProbeFailure, 0)] cf' (Some r1)) = Some r2" "gget (rm_scores r2) ''n'' = Some rep2"
    "nr_Latency rep2 = 100" "nr_Availability rep2 = 49" "nr_Accuracy rep2 = 49" "nr_PeerScores rep2 = []"
    "nr_OverallScore rep2 = calculateOverallScoreLocked rep2" "nr_Grade rep2 = calculateGradeLocked rep2"
    using fast_failure [OF 1(2,3), of 1 m cf'] 1 by auto
  have "nr_Grade rep2 = ''C''" using 2 by (simp add: calculateOverallScoreLocked_def peer_consensus_def calculateGradeLocked_def Let_def)
  then show ?thesis using 1(1) 2(1,2) by (auto simp: grade_of_def)
qed

text \<open>
  Posted values are not checked: one score of 1000 gives the best grade to any node. The signature covers values rounded to
  integers.
\<close>

lemma inflated_score:
  assumes "psc_Availability s = 1000" and "manager_ok r" and "gget (rm_scores r) (psc_TargetNode s) = None"
  shows "grade_of (psc_TargetNode s) (AddPeerScore now s r) = Some ''S''"
  using assms
  by (simp add: AddPeerScore_def Let_def put_rep_def grade_of_def getOrCreate_def regrade_def calculateOverallScoreLocked_def
      calculateGradeLocked_def peer_consensus_def)

lemma payload_rounds: "score_payload (s\<lparr>psc_Availability := 996 / 10\<rparr>) = score_payload (s\<lparr>psc_Availability := 100\<rparr>)"
  by (simp add: score_payload_def fmt0_def round_even_def Let_def)

section \<open>Restart\<close>

lemma reload_snapshot: "reputation_load (Content (reputation_snapshot r)) r0 = r"
  by (simp add: reputation_load_def reputation_snapshot_def)

text \<open>Writing the oldest snapshot first, and with success.\<close>

fun in_order :: "rep_event \<Rightarrow> bool" where
  "in_order (RepOp op) = True"
| "in_order (RepWrite io k) = (io_write io \<and> k = 0)"

definition disk_ok :: "rep_node \<Rightarrow> bool" where
  "disk_ok n \<longleftrightarrow> (if rn_pending n = [] then initReputation (rn_file n) = rn_manager n else last (rn_pending n) = reputation_snapshot (rn_manager n))"

lemma refused_post: "\<not> rep_saves env op r \<Longrightarrow> rep_apply env op r = r"
proof (cases op)
  case (Pair now o')
  assume a: "\<not> rep_saves env op r"
  then obtain meth pool body where p: "o' = PostOp meth pool body" by (cases o') (simp_all add: Pair)
  show ?thesis using a posted_score_authentic [where env = env and meth = meth and pool = pool and now = now and body = body and r = r]
    by (cases "handlePostScore env meth pool now body r"; cases "fst (handlePostScore env meth pool now body r)") (simp_all add: Pair p)
qed

lemma disk_step: "disk_ok n \<Longrightarrow> in_order ev \<Longrightarrow> disk_ok (rep_step env ev n)"
proof (cases ev)
  case (RepOp op)
  assume "disk_ok n"
  then show ?thesis
    by (cases "rep_saves env op (rn_manager n)") (simp_all add: RepOp disk_ok_def Let_def refused_post)
next
  case (RepWrite io k)
  assume ok: "disk_ok n" and ord: "in_order ev"
  show ?thesis
  proof (cases "rn_pending n")
    case Nil
    then show ?thesis using ok by (simp add: RepWrite)
  next
    case (Cons s ss)
    then show ?thesis using ok ord
      by (cases ss) (simp_all add: RepWrite disk_ok_def atomicWriteFile_def initReputation_def reload_snapshot)
  qed
qed

text \<open>
  Nothing is lost in a restart. When every save reaches the file, in the order of the operations, then once none is
  outstanding the next process starts with exactly the reputations and the scores of this one.
\<close>

theorem reputation_restart:
  assumes "\<forall>ev\<in>set evs. in_order ev"
    and "n = fold (rep_step env) evs \<lparr>rn_manager = initReputation f, rn_pending = [], rn_file = f\<rparr>" and "rn_pending n = []"
  shows "initReputation (rn_file n) = rn_manager n"
proof -
  have "disk_ok (fold (rep_step env) evs m)" if "disk_ok m" for m
    using that assms(1) by (induction evs arbitrary: m) (simp_all add: disk_step)
  then have "disk_ok n" unfolding assms(2) by (simp add: disk_ok_def)
  with assms(3) show ?thesis by (simp add: disk_ok_def)
qed

theorem reputation_restart_witness:
  "let n = fold (rep_step plain_rep_env) [RepOp (1, CallOp ''n'' True 10), RepOp (2, CleanOp), RepWrite (io_fine False) 0, RepWrite (io_fine False) 0]
     \<lparr>rn_manager = initReputation Absent, rn_pending = [], rn_file = Absent\<rparr> in
   initReputation (rn_file n) = rn_manager n \<and> gget (rm_scores (rn_manager n)) ''n'' \<noteq> None"
proof -
  let ?evs = "[RepOp (1, CallOp ''n'' True 10), RepOp (2, CleanOp), RepWrite (io_fine False) 0, RepWrite (io_fine False) 0]"
  let ?n = "fold (rep_step plain_rep_env) ?evs \<lparr>rn_manager = initReputation Absent, rn_pending = [], rn_file = Absent\<rparr>"
  have "\<forall>ev\<in>set ?evs. in_order ev" "rn_pending ?n = []" by (simp_all add: io_fine_def Let_def)
  moreover have "gget (rm_scores (rn_manager ?n)) ''n'' \<noteq> None"
    by (simp add: Let_def io_fine_def RecordCall_def put_rep_def reputation_cleanup_def)
  ultimately show ?thesis using reputation_restart [of ?evs ?n plain_rep_env Absent] by (simp only: Let_def) blast
qed

text \<open>
  The lock is released before the snapshot is written, so two saves may reach the file in the other order; then the older
  one stays, and a restart loses the later recording.
\<close>

lemma saves_overtake:
  "let n = fold (rep_step plain_rep_env) [RepOp (1, OurOp ''a'' 1 1 1 []), RepOp (2, OurOp ''b'' 1 1 1 []), RepWrite (io_fine False) 1, RepWrite (io_fine False) 0]
     \<lparr>rn_manager = initReputation Absent, rn_pending = [], rn_file = Absent\<rparr> in
   rn_pending n = [] \<and> GetOurScore ''b'' (rn_manager n) \<noteq> None \<and> GetOurScore ''b'' (initReputation (rn_file n)) = None"
  by (simp add: Let_def io_fine_def SetOurScore_def GetOurScore_def atomicWriteFile_def initReputation_def reputation_load_def reputation_snapshot_def)

end
