(* ===== verification/Algorithm_Governance.thy ===== *)
theory Algorithm_Governance
  imports Storage_Model Complex_Main
begin

text \<open>
  Proposals and votes on the parameters of the algorithm, kept by one node (\<open>src/algorithm_governance.go\<close>), the parameter
  set itself (\<open>src/algorithm_chain.go\<close>) and the request handlers (\<open>src/handlers_missing.go\<close>).

  Time stamps are written by \<open>nowRFC3339\<close> only and are represented by their second. The random part of an identifier is
  an argument, and so are the identities that \<open>resolveActor\<close> falls back to. A file that does not decode or whose
  integrity check fails is \<open>Corrupt\<close>.
\<close>

section \<open>Parameters\<close>

record AlgorithmParams =
  ap_OpenKeyRatio :: real
  ap_GlobalPoolAvailabilityRatio :: real
  ap_TrustWeight :: real
  ap_ReputationWeight :: real
  ap_LatencyWeight :: real
  ap_AvailabilityWeight :: real
  ap_ContributionWeight :: real

definition DefaultAlgorithmParams :: AlgorithmParams where
  "DefaultAlgorithmParams = \<lparr>ap_OpenKeyRatio = 30 / 100, ap_GlobalPoolAvailabilityRatio = 80 / 100, ap_TrustWeight = 25 / 100,
     ap_ReputationWeight = 25 / 100, ap_LatencyWeight = 20 / 100, ap_AvailabilityWeight = 15 / 100, ap_ContributionWeight = 15 / 100\<rparr>"

record AlgorithmChain =
  ac_params :: AlgorithmParams

definition NewAlgorithmChain :: AlgorithmChain where
  "NewAlgorithmChain = \<lparr>ac_params = DefaultAlgorithmParams\<rparr>"

definition GetCurrentParams :: "AlgorithmChain \<Rightarrow> AlgorithmParams" where
  "GetCurrentParams c = ac_params c"

definition UpdateParams :: "AlgorithmParams \<Rightarrow> AlgorithmChain \<Rightarrow> AlgorithmChain" where
  "UpdateParams p c = c\<lparr>ac_params := p\<rparr>"

definition handleAlgorithmCurrent :: "AlgorithmChain option \<Rightarrow> AlgorithmParams" where
  "handleAlgorithmCurrent co = (case co of None \<Rightarrow> DefaultAlgorithmParams | Some c \<Rightarrow> GetCurrentParams c)"

section \<open>Proposals\<close>

definition ProposalStatusOpen :: string where "ProposalStatusOpen = ''open''"
definition ProposalStatusPassed :: string where "ProposalStatusPassed = ''passed''"
definition ProposalStatusRejected :: string where "ProposalStatusRejected = ''rejected''"
definition ProposalStatusClosed :: string where "ProposalStatusClosed = ''closed''"

definition isTerminal :: "string \<Rightarrow> bool" where
  "isTerminal s \<longleftrightarrow> s = ProposalStatusPassed \<or> s = ProposalStatusRejected \<or> s = ProposalStatusClosed"

definition choice_isValid :: "string \<Rightarrow> bool" where
  "choice_isValid c \<longleftrightarrow> c = ''yes'' \<or> c = ''no'' \<or> c = ''abstain''"

record AlgorithmVote =
  av_Voter :: string
  av_VoterName :: string
  av_Choice :: string
  av_Comment :: string
  av_VotedAt :: int

record ProposalTally =
  pt_Yes :: nat
  pt_No :: nat
  pt_Abstain :: nat
  pt_Total :: nat

record AlgorithmProposal =
  apr_ID :: string
  apr_Title :: string
  apr_Description :: string
  apr_Proposer :: string
  apr_ProposerName :: string
  apr_Status :: string
  apr_CreatedAt :: int
  apr_ClosedAt :: "int option"
  apr_ResolvedBy :: string
  apr_ResolveReason :: string
  apr_Target :: "AlgorithmParams option"
  apr_Votes :: "AlgorithmVote list"

record GovernanceEvent =
  ge_Type :: string
  ge_ProposalID :: string
  ge_Actor :: string
  ge_ActorName :: string
  ge_Detail :: string
  ge_At :: int

record governanceSnapshot =
  gs_Proposals :: "AlgorithmProposal list"
  gs_History :: "GovernanceEvent list"

text \<open>The governor with the two places it may be stored in: the JSON file and the snapshot in the embedded store.\<close>

record AlgorithmGovernor =
  ag_proposals :: "(string, AlgorithmProposal) gomap"
  ag_history :: "GovernanceEvent list"
  ag_bbolt :: bool
  ag_disk :: "governanceSnapshot domain_store"
  ag_bucket :: "governanceSnapshot stored_file"

definition blank :: "char \<Rightarrow> bool" where
  "blank c \<longleftrightarrow> c = CHR '' '' \<or> c = CHR 0x09 \<or> c = CHR 0x0A \<or> c = CHR 0x0D"

definition trimSpace :: "string \<Rightarrow> string" where
  "trimSpace s = rev (dropWhile blank (rev (dropWhile blank s)))"

definition count_vote :: "AlgorithmVote \<Rightarrow> ProposalTally \<Rightarrow> ProposalTally" where
  "count_vote v t =
     (let t1 = (if av_Choice v = ''yes'' then t\<lparr>pt_Yes := Suc (pt_Yes t)\<rparr>
                else if av_Choice v = ''no'' then t\<lparr>pt_No := Suc (pt_No t)\<rparr>
                else if av_Choice v = ''abstain'' then t\<lparr>pt_Abstain := Suc (pt_Abstain t)\<rparr> else t)
      in t1\<lparr>pt_Total := Suc (pt_Total t1)\<rparr>)"

definition proposal_Tally :: "AlgorithmProposal \<Rightarrow> ProposalTally" where
  "proposal_Tally p = fold count_vote (apr_Votes p) \<lparr>pt_Yes = 0, pt_No = 0, pt_Abstain = 0, pt_Total = 0\<rparr>"

section \<open>Persistence\<close>

definition governor_snapshot :: "AlgorithmGovernor \<Rightarrow> governanceSnapshot" where
  "governor_snapshot g = \<lparr>gs_Proposals = map snd (ag_proposals g), gs_History = ag_history g\<rparr>"

definition restore_snapshot :: "governanceSnapshot \<Rightarrow> AlgorithmGovernor \<Rightarrow> AlgorithmGovernor" where
  "restore_snapshot s g = g\<lparr>ag_proposals := fold (\<lambda>p. gput (apr_ID p) p) (gs_Proposals s) [], ag_history := gs_History s\<rparr>"

definition governor_Load :: "AlgorithmGovernor \<Rightarrow> AlgorithmGovernor" where
  "governor_Load g = (case ds_json (ag_disk g) of Content s \<Rightarrow> restore_snapshot s g | _ \<Rightarrow> g)"

definition governor_loadBbolt :: "AlgorithmGovernor \<Rightarrow> AlgorithmGovernor" where
  "governor_loadBbolt g = (case ag_bucket g of Content s \<Rightarrow> restore_snapshot s g | _ \<Rightarrow> g)"

definition persistLocked :: "io_env \<Rightarrow> AlgorithmGovernor \<Rightarrow> AlgorithmGovernor" where
  "persistLocked io g =
     (if ag_bbolt g then (if io_update io then g\<lparr>ag_bucket := Content (governor_snapshot g)\<rparr> else g)
      else g\<lparr>ag_disk := (ag_disk g)\<lparr>ds_json := atomicWriteFile io (governor_snapshot g) (ds_json (ag_disk g))\<rparr>\<rparr>)"

text \<open>The migration of the file into the store; \<open>False\<close> is the error return.\<close>

definition governor_importToBbolt :: "io_env \<Rightarrow> AlgorithmGovernor \<Rightarrow> bool \<times> AlgorithmGovernor" where
  "governor_importToBbolt io g =
     (if isMigrated (ag_disk g)
      then (case bakJSON io (ag_disk g) of
              (False, d) \<Rightarrow> (False, g\<lparr>ag_disk := d\<rparr>)
            | (True, d) \<Rightarrow> (True, g\<lparr>ag_disk := d, ag_bbolt := True\<rparr>))
      else
        let g1 = governor_Load g in
        if \<not> io_update io then (False, g1)
        else
          let g2 = g1\<lparr>ag_bucket := Content (governor_snapshot g1)\<rparr> in
          case markMigrated io (ag_disk g2) of
            (False, d) \<Rightarrow> (False, g2\<lparr>ag_disk := d\<rparr>)
          | (True, d) \<Rightarrow> (case bakJSON io d of (b, d') \<Rightarrow> (b, g2\<lparr>ag_disk := d', ag_bbolt := True\<rparr>)))"

definition initAlgorithmGovernance :: "io_env \<Rightarrow> governanceSnapshot domain_store \<Rightarrow> governanceSnapshot stored_file \<Rightarrow> AlgorithmGovernor" where
  "initAlgorithmGovernance io disk bucket =
     (let g = \<lparr>ag_proposals = [], ag_history = [], ag_bbolt = False, ag_disk = disk, ag_bucket = bucket\<rparr> in
      if io_use_bbolt io then
        if io_open io then
          (case governor_importToBbolt io g of
             (False, g') \<Rightarrow> governor_Load g'
           | (True, g') \<Rightarrow> governor_loadBbolt g')
        else governor_Load g
      else governor_Load g)"

section \<open>Operations\<close>

text \<open>The identity of the node if it is initialized, the user name it is linked to, and the name of the local environment.\<close>

record actor_env =
  ae_node :: "string option"
  ae_GitHubUser :: string
  ae_localEnvName :: string

definition resolveActor :: "actor_env \<Rightarrow> string \<Rightarrow> string \<Rightarrow> string \<times> string" where
  "resolveActor env i name =
     (let i' = (if i = [] then (case ae_node env of Some n \<Rightarrow> n | None \<Rightarrow> ''admin'') else i);
          name1 = (if name = [] \<and> ae_node env \<noteq> None \<and> ae_GitHubUser env \<noteq> [] then ae_GitHubUser env else name);
          name2 = (if name1 = [] then ae_localEnvName env else name1)
      in (i', name2))"

definition appendHistoryLocked :: "GovernanceEvent \<Rightarrow> AlgorithmGovernor \<Rightarrow> AlgorithmGovernor" where
  "appendHistoryLocked e g = g\<lparr>ag_history := ag_history g @ [e]\<rparr>"

definition algo_CreateProposal :: "actor_env \<Rightarrow> io_env \<Rightarrow> int \<Rightarrow> string \<Rightarrow> string \<Rightarrow> string \<Rightarrow> string \<Rightarrow> string \<Rightarrow> AlgorithmParams option
    \<Rightarrow> AlgorithmGovernor \<Rightarrow> (string + AlgorithmProposal) \<times> AlgorithmGovernor" where
  "algo_CreateProposal env io now pid title description proposer proposerName target g =
     (let title' = trimSpace title in
      if title' = [] then (Inl ''title is required'', g)
      else
        let (actor, actorName) = resolveActor env proposer proposerName;
            p = \<lparr>apr_ID = pid, apr_Title = title', apr_Description = trimSpace description, apr_Proposer = actor,
                 apr_ProposerName = actorName, apr_Status = ProposalStatusOpen, apr_CreatedAt = now, apr_ClosedAt = None,
                 apr_ResolvedBy = [], apr_ResolveReason = [], apr_Target = target, apr_Votes = []\<rparr>;
            g1 = g\<lparr>ag_proposals := gput pid p (ag_proposals g)\<rparr>;
            g2 = appendHistoryLocked \<lparr>ge_Type = ''proposal_created'', ge_ProposalID = pid, ge_Actor = actor, ge_ActorName = actorName,
                   ge_Detail = title', ge_At = now\<rparr> g1
        in (Inr p, persistLocked io g2))"

text \<open>The first vote of the same voter is replaced, otherwise the vote is appended.\<close>

fun replace_vote :: "AlgorithmVote \<Rightarrow> AlgorithmVote list \<Rightarrow> AlgorithmVote list" where
  "replace_vote v [] = [v]"
| "replace_vote v (w # ws) = (if av_Voter w = av_Voter v then v # ws else w # replace_vote v ws)"

definition algo_CastVote :: "actor_env \<Rightarrow> io_env \<Rightarrow> int \<Rightarrow> string \<Rightarrow> string \<Rightarrow> string \<Rightarrow> string \<Rightarrow> string
    \<Rightarrow> AlgorithmGovernor \<Rightarrow> (string + AlgorithmProposal) \<times> AlgorithmGovernor" where
  "algo_CastVote env io now proposalID voter voterName choice comment g =
     (let choice' = trimSpace choice in
      if \<not> choice_isValid choice' then (Inl ''choice must be one of yes/no/abstain'', g)
      else
        let (actor, actorName) = resolveActor env voter voterName in
        case gget (ag_proposals g) proposalID of
          None \<Rightarrow> (Inl (''proposal not found: '' @ proposalID), g)
        | Some p \<Rightarrow>
            if isTerminal (apr_Status p)
            then (Inl (''proposal '' @ proposalID @ '' is '' @ apr_Status p @ '' and no longer accepts votes''), g)
            else
              let v = \<lparr>av_Voter = actor, av_VoterName = actorName, av_Choice = choice', av_Comment = trimSpace comment, av_VotedAt = now\<rparr>;
                  p' = p\<lparr>apr_Votes := replace_vote v (apr_Votes p)\<rparr>;
                  g1 = g\<lparr>ag_proposals := gput proposalID p' (ag_proposals g)\<rparr>;
                  g2 = appendHistoryLocked \<lparr>ge_Type = ''vote_cast'', ge_ProposalID = apr_ID p, ge_Actor = actor,
                         ge_ActorName = actorName, ge_Detail = choice', ge_At = now\<rparr> g1
              in (Inr p', persistLocked io g2))"

definition algo_ResolveProposal :: "actor_env \<Rightarrow> io_env \<Rightarrow> int \<Rightarrow> string \<Rightarrow> string \<Rightarrow> string \<Rightarrow> string
    \<Rightarrow> AlgorithmGovernor \<Rightarrow> (string + AlgorithmProposal) \<times> AlgorithmGovernor" where
  "algo_ResolveProposal env io now proposalID resolver reason status g =
     (if \<not> isTerminal status then (Inl ''decision must be one of passed/rejected/closed'', g)
      else
        let actor = fst (resolveActor env resolver []) in
        case gget (ag_proposals g) proposalID of
          None \<Rightarrow> (Inl (''proposal not found: '' @ proposalID), g)
        | Some p \<Rightarrow>
            if isTerminal (apr_Status p) then (Inr p, g)
            else
              let p' = p\<lparr>apr_Status := status, apr_ClosedAt := Some now, apr_ResolvedBy := actor, apr_ResolveReason := trimSpace reason\<rparr>;
                  g1 = g\<lparr>ag_proposals := gput proposalID p' (ag_proposals g)\<rparr>;
                  g2 = appendHistoryLocked \<lparr>ge_Type = ''proposal_resolved'', ge_ProposalID = apr_ID p, ge_Actor = actor,
                         ge_ActorName = [], ge_Detail = status, ge_At = now\<rparr> g1
              in (Inr p', persistLocked io g2))"

definition GetProposal :: "string \<Rightarrow> AlgorithmGovernor \<Rightarrow> AlgorithmProposal option" where
  "GetProposal i g = gget (ag_proposals g) i"

text \<open>Newest first; the order of the map decides between proposals of the same second.\<close>

definition ListProposals :: "string \<Rightarrow> AlgorithmGovernor \<Rightarrow> AlgorithmProposal list" where
  "ListProposals statusFilter g =
     stable_sort_by (\<lambda>a b. apr_CreatedAt a > apr_CreatedAt b)
       (filter (\<lambda>p. statusFilter = [] \<or> apr_Status p = statusFilter) (map snd (ag_proposals g)))"

definition GetHistory :: "AlgorithmGovernor \<Rightarrow> GovernanceEvent list" where
  "GetHistory g = rev (ag_history g)"

section \<open>Handlers\<close>

text \<open>The body is \<open>None\<close> when it cannot be read; the governor is \<open>None\<close> before it is initialized.\<close>

definition handleAlgorithmHistory :: "AlgorithmGovernor option \<Rightarrow> (GovernanceEvent list \<times> nat) http_result" where
  "handleAlgorithmHistory go =
     (case go of None \<Rightarrow> HttpError 500 ''algorithm governance not initialized''
      | Some g \<Rightarrow> HttpOK (GetHistory g, length (GetHistory g)))"

definition toProposalView :: "AlgorithmProposal \<Rightarrow> AlgorithmProposal \<times> ProposalTally" where
  "toProposalView p = (p, proposal_Tally p)"

definition handleAlgorithmProposals :: "string \<Rightarrow> AlgorithmGovernor option \<Rightarrow> ((AlgorithmProposal \<times> ProposalTally) list \<times> nat) http_result" where
  "handleAlgorithmProposals statusFilter go =
     (case go of None \<Rightarrow> HttpError 500 ''algorithm governance not initialized''
      | Some g \<Rightarrow> let views = map toProposalView (ListProposals statusFilter g) in HttpOK (views, length views))"

record algorithmProposeRequest =
  apq_Title :: string
  apq_Description :: string
  apq_Proposer :: string
  apq_ProposerName :: string
  apq_Target :: "AlgorithmParams option"

record algorithmVoteRequest =
  avq_ProposalID :: string
  avq_Voter :: string
  avq_VoterName :: string
  avq_Choice :: string
  avq_Comment :: string

record algorithmResolveRequest =
  arq_Decision :: string
  arq_Reason :: string
  arq_Resolver :: string

definition view_result :: "(string + AlgorithmProposal) \<times> AlgorithmGovernor \<Rightarrow> (AlgorithmProposal \<times> ProposalTally) http_result \<times> AlgorithmGovernor option" where
  "view_result r = (case r of (Inl e, g) \<Rightarrow> (HttpError 400 e, Some g) | (Inr p, g) \<Rightarrow> (HttpOK (toProposalView p), Some g))"

definition handleAlgorithmPropose :: "actor_env \<Rightarrow> io_env \<Rightarrow> int \<Rightarrow> string \<Rightarrow> algorithmProposeRequest option \<Rightarrow> AlgorithmGovernor option
    \<Rightarrow> (AlgorithmProposal \<times> ProposalTally) http_result \<times> AlgorithmGovernor option" where
  "handleAlgorithmPropose env io now pid body go =
     (case go of None \<Rightarrow> (HttpError 500 ''algorithm governance not initialized'', None)
      | Some g \<Rightarrow>
          (case body of None \<Rightarrow> (HttpError 400 ''invalid request body'', Some g)
           | Some q \<Rightarrow> view_result (algo_CreateProposal env io now pid (apq_Title q) (apq_Description q) (apq_Proposer q)
                          (apq_ProposerName q) (apq_Target q) g)))"

definition handleAlgorithmVote :: "actor_env \<Rightarrow> io_env \<Rightarrow> int \<Rightarrow> algorithmVoteRequest option \<Rightarrow> AlgorithmGovernor option
    \<Rightarrow> (AlgorithmProposal \<times> ProposalTally) http_result \<times> AlgorithmGovernor option" where
  "handleAlgorithmVote env io now body go =
     (case go of None \<Rightarrow> (HttpError 500 ''algorithm governance not initialized'', None)
      | Some g \<Rightarrow>
          (case body of None \<Rightarrow> (HttpError 400 ''invalid request body'', Some g)
           | Some q \<Rightarrow>
               if avq_ProposalID q = [] then (HttpError 400 ''proposal_id is required'', Some g)
               else view_result (algo_CastVote env io now (avq_ProposalID q) (avq_Voter q) (avq_VoterName q) (avq_Choice q) (avq_Comment q) g)))"

definition handleAlgorithmProposalResolve :: "actor_env \<Rightarrow> io_env \<Rightarrow> int \<Rightarrow> string \<Rightarrow> algorithmResolveRequest option \<Rightarrow> AlgorithmGovernor option
    \<Rightarrow> (AlgorithmProposal \<times> ProposalTally) http_result \<times> AlgorithmGovernor option" where
  "handleAlgorithmProposalResolve env io now i body go =
     (case go of None \<Rightarrow> (HttpError 500 ''algorithm governance not initialized'', None)
      | Some g \<Rightarrow>
          if i = [] then (HttpError 400 ''proposal id is required'', Some g)
          else (case body of None \<Rightarrow> (HttpError 400 ''invalid request body'', Some g)
           | Some q \<Rightarrow>
               if arq_Decision q \<in> {''passed'', ''rejected'', ''closed''}
               then view_result (algo_ResolveProposal env io now i (arq_Resolver q) (arq_Reason q) (arq_Decision q) g)
               else (HttpError 400 ''decision must be one of passed/rejected/closed'', Some g)))"

section \<open>Runs\<close>

datatype algo_op =
    ProposeOp string string string string string "AlgorithmParams option"
  | VoteOp string string string string string
  | ResolveOp string string string string

fun algo_apply :: "actor_env \<Rightarrow> io_env \<Rightarrow> int \<Rightarrow> algo_op \<Rightarrow> AlgorithmGovernor \<Rightarrow> (string + AlgorithmProposal) \<times> AlgorithmGovernor" where
  "algo_apply env io now (ProposeOp pid t d p pn tg) g = algo_CreateProposal env io now pid t d p pn tg g"
| "algo_apply env io now (VoteOp i v vn c cm) g = algo_CastVote env io now i v vn c cm g"
| "algo_apply env io now (ResolveOp i r rs st) g = algo_ResolveProposal env io now i r rs st g"

text \<open>The random identifier of a new proposal is not in use.\<close>

fun fresh_pid :: "algo_op \<Rightarrow> AlgorithmGovernor \<Rightarrow> bool" where
  "fresh_pid (ProposeOp pid t d p pn tg) g = (gget (ag_proposals g) pid = None)"
| "fresh_pid _ g = True"

inductive algo_reach :: "actor_env \<Rightarrow> (io_env \<Rightarrow> bool) \<Rightarrow> AlgorithmGovernor \<Rightarrow> AlgorithmGovernor \<Rightarrow> bool" for env ok g where
  reach_refl: "algo_reach env ok g g"
| reach_step: "algo_reach env ok g g1 \<Longrightarrow> ok io \<Longrightarrow> fresh_pid op g1 \<Longrightarrow> algo_apply env io now op g1 = (res, g2) \<Longrightarrow> algo_reach env ok g g2"

section \<open>The history as an audit trail\<close>

text \<open>What the events say: the status of every proposal and the last choice of every voter.\<close>

type_synonym audit = "string \<Rightarrow> (string \<times> (string \<Rightarrow> string option)) option"

definition replay_event :: "GovernanceEvent \<Rightarrow> audit \<Rightarrow> audit" where
  "replay_event e m =
     (let i = ge_ProposalID e in
      if ge_Type e = ''proposal_created'' then m(i \<mapsto> (''open'', \<lambda>_. None))
      else case m i of
        None \<Rightarrow> m
      | Some (st, vs) \<Rightarrow>
          if ge_Type e = ''vote_cast'' then m(i \<mapsto> (st, vs(ge_Actor e \<mapsto> ge_Detail e)))
          else if ge_Type e = ''proposal_resolved'' then m(i \<mapsto> (ge_Detail e, vs))
          else m)"

definition replay :: "GovernanceEvent list \<Rightarrow> audit" where
  "replay h = fold replay_event h (\<lambda>_. None)"

definition audit_view :: "AlgorithmProposal \<Rightarrow> string \<times> (string \<Rightarrow> string option)" where
  "audit_view p = (apr_Status p, map_of (map (\<lambda>v. (av_Voter v, av_Choice v)) (apr_Votes p)))"

definition proposal_ok :: "string \<Rightarrow> AlgorithmProposal \<Rightarrow> bool" where
  "proposal_ok i p \<longleftrightarrow> apr_ID p = i \<and> apr_Title p \<noteq> [] \<and> (apr_Status p = ''open'' \<or> isTerminal (apr_Status p)) \<and>
     distinct (map av_Voter (apr_Votes p)) \<and> list_all (\<lambda>v. choice_isValid (av_Choice v)) (apr_Votes p)"

definition governor_ok :: "AlgorithmGovernor \<Rightarrow> bool" where
  "governor_ok g \<longleftrightarrow> gmap_ok (ag_proposals g) \<and> (\<forall>i p. gget (ag_proposals g) i = Some p \<longrightarrow> proposal_ok i p) \<and>
     (\<forall>i. replay (ag_history g) i = map_option audit_view (gget (ag_proposals g) i))"

lemma persist_keeps [simp]:
  "ag_proposals (persistLocked io g) = ag_proposals g" "ag_history (persistLocked io g) = ag_history g"
  "ag_bbolt (persistLocked io g) = ag_bbolt g"
  by (simp_all add: persistLocked_def)

lemma append_keeps [simp]:
  "ag_proposals (appendHistoryLocked e g) = ag_proposals g" "ag_history (appendHistoryLocked e g) = ag_history g @ [e]"
  "ag_bbolt (appendHistoryLocked e g) = ag_bbolt g" "ag_disk (appendHistoryLocked e g) = ag_disk g"
  "ag_bucket (appendHistoryLocked e g) = ag_bucket g"
  by (simp_all add: appendHistoryLocked_def)

text \<open>One step: nothing, or one proposal is put and one event appended.\<close>

definition changes_one :: "AlgorithmProposal \<Rightarrow> GovernanceEvent \<Rightarrow> io_env \<Rightarrow> AlgorithmGovernor \<Rightarrow> AlgorithmGovernor \<Rightarrow> bool" where
  "changes_one p e io g g' \<longleftrightarrow>
     g' = persistLocked io (appendHistoryLocked e (g\<lparr>ag_proposals := gput (apr_ID p) p (ag_proposals g)\<rparr>))"

lemma senders_replace_vote: "av_Voter ` set (replace_vote v ws) = insert (av_Voter v) (av_Voter ` set ws)"
  by (induction ws) auto

lemma distinct_replace_vote: "distinct (map av_Voter ws) \<Longrightarrow> distinct (map av_Voter (replace_vote v ws))"
  by (induction ws) (auto simp: senders_replace_vote)

lemma valid_replace_vote: "list_all P ws \<Longrightarrow> P v \<Longrightarrow> list_all P (replace_vote v ws)"
  by (induction ws) auto

lemma map_of_replace_vote:
  "map_of (map (\<lambda>v. (av_Voter v, av_Choice v)) (replace_vote v ws)) = (map_of (map (\<lambda>v. (av_Voter v, av_Choice v)) ws))(av_Voter v \<mapsto> av_Choice v)"
  by (induction ws) (auto simp: fun_eq_iff)

lemma algo_step_cases:
  assumes "algo_apply env io now op g = (res, g')" and "fresh_pid op g" and "\<forall>i p. gget (ag_proposals g) i = Some p \<longrightarrow> proposal_ok i p"
  obtains (same) "g' = g"
  | (create) p e where "changes_one p e io g g'" and "gget (ag_proposals g) (apr_ID p) = None" and "proposal_ok (apr_ID p) p"
      and "apr_Status p = ''open''" and "apr_Votes p = []" and "ge_Type e = ''proposal_created''" and "ge_ProposalID e = apr_ID p" and "res = Inr p"
  | (vote) q p e v where "changes_one p e io g g'" and "gget (ag_proposals g) (apr_ID p) = Some q" and "proposal_ok (apr_ID p) p"
      and "\<not> isTerminal (apr_Status q)" and "p = q\<lparr>apr_Votes := replace_vote v (apr_Votes q)\<rparr>" and "ge_Type e = ''vote_cast''"
      and "ge_ProposalID e = apr_ID p" and "ge_Actor e = av_Voter v" and "ge_Detail e = av_Choice v" and "res = Inr p"
  | (resolve) q p e where "changes_one p e io g g'" and "gget (ag_proposals g) (apr_ID p) = Some q" and "proposal_ok (apr_ID p) p"
      and "\<not> isTerminal (apr_Status q)" and "apr_Votes p = apr_Votes q" and "ge_Type e = ''proposal_resolved''"
      and "ge_ProposalID e = apr_ID p" and "ge_Detail e = apr_Status p" and "res = Inr p"
proof (cases op)
  case (ProposeOp pid t d pr pn tg)
  show thesis
  proof (cases "trimSpace t = []")
    case True
    with assms(1) show thesis using same by (simp add: ProposeOp algo_CreateProposal_def)
  next
    case False
    obtain a an where ra: "resolveActor env pr pn = (a, an)" by force
    define p where "p = \<lparr>apr_ID = pid, apr_Title = trimSpace t, apr_Description = trimSpace d, apr_Proposer = a,
                 apr_ProposerName = an, apr_Status = ProposalStatusOpen, apr_CreatedAt = now, apr_ClosedAt = None,
                 apr_ResolvedBy = [], apr_ResolveReason = [], apr_Target = tg, apr_Votes = []\<rparr>"
    show thesis
      by (rule create [of p "\<lparr>ge_Type = ''proposal_created'', ge_ProposalID = pid, ge_Actor = a, ge_ActorName = an,
                   ge_Detail = trimSpace t, ge_At = now\<rparr>"])
        (use assms(1,2) False in \<open>auto simp: ProposeOp algo_CreateProposal_def Let_def ra p_def changes_one_def proposal_ok_def ProposalStatusOpen_def\<close>)
  qed
next
  case (VoteOp i v vn c cm)
  obtain a an where ra: "resolveActor env v vn = (a, an)" by force
  show thesis
  proof (cases "\<exists>q. choice_isValid (trimSpace c) \<and> gget (ag_proposals g) i = Some q \<and> \<not> isTerminal (apr_Status q)")
    case False
    with assms(1) show thesis using same
      by (auto simp: VoteOp algo_CastVote_def Let_def ra split: if_splits option.splits)
  next
    case True
    then obtain q where q: "choice_isValid (trimSpace c)" "gget (ag_proposals g) i = Some q" "\<not> isTerminal (apr_Status q)" by blast
    have okq: "proposal_ok i q" using assms(3) q(2) by blast
    define w where "w = \<lparr>av_Voter = a, av_VoterName = an, av_Choice = trimSpace c, av_Comment = trimSpace cm, av_VotedAt = now\<rparr>"
    show thesis
      by (rule vote [of "q\<lparr>apr_Votes := replace_vote w (apr_Votes q)\<rparr>" "\<lparr>ge_Type = ''vote_cast'', ge_ProposalID = apr_ID q, ge_Actor = a,
                         ge_ActorName = an, ge_Detail = trimSpace c, ge_At = now\<rparr>" q w])
        (use assms(1) q okq distinct_replace_vote in \<open>auto simp: VoteOp algo_CastVote_def Let_def ra w_def changes_one_def proposal_ok_def valid_replace_vote\<close>)
  qed
next
  case (ResolveOp i r rs st)
  show thesis
  proof (cases "\<exists>q. isTerminal st \<and> gget (ag_proposals g) i = Some q \<and> \<not> isTerminal (apr_Status q)")
    case False
    with assms(1) show thesis using same
      by (auto simp: ResolveOp algo_ResolveProposal_def Let_def split: if_splits option.splits)
  next
    case True
    then obtain q where q: "isTerminal st" "gget (ag_proposals g) i = Some q" "\<not> isTerminal (apr_Status q)" by blast
    have okq: "proposal_ok i q" using assms(3) q(2) by blast
    let ?a = "fst (resolveActor env r [])"
    show thesis
      by (rule resolve [of "q\<lparr>apr_Status := st, apr_ClosedAt := Some now, apr_ResolvedBy := ?a, apr_ResolveReason := trimSpace rs\<rparr>"
            "\<lparr>ge_Type = ''proposal_resolved'', ge_ProposalID = apr_ID q, ge_Actor = ?a, ge_ActorName = [], ge_Detail = st, ge_At = now\<rparr>" q])
        (use assms(1) q okq in \<open>auto simp: ResolveOp algo_ResolveProposal_def Let_def changes_one_def proposal_ok_def\<close>)
  qed
qed

lemma changes_one_fields:
  assumes "changes_one p e io g g'"
  shows "ag_proposals g' = gput (apr_ID p) p (ag_proposals g)" and "ag_history g' = ag_history g @ [e]"
  using assms by (simp_all add: changes_one_def)

lemma replay_snoc: "replay (h @ [e]) = replay_event e (replay h)"
  by (simp add: replay_def)

lemma changes_one_ok:
  assumes "governor_ok g" and "changes_one p e io g g'" and "proposal_ok (apr_ID p) p"
    and "replay_event e (replay (ag_history g)) = (replay (ag_history g))(apr_ID p \<mapsto> audit_view p)"
  shows "governor_ok g'"
  using assms(1,3,4) unfolding governor_ok_def changes_one_fields [OF assms(2)] replay_snoc by simp

lemma algo_step_ok:
  assumes "governor_ok g" and "algo_apply env io now op g = (res, g')" and "fresh_pid op g"
  shows "governor_ok g'"
proof -
  have ok: "\<forall>i p. gget (ag_proposals g) i = Some p \<longrightarrow> proposal_ok i p"
    and r: "\<And>i. replay (ag_history g) i = map_option audit_view (gget (ag_proposals g) i)"
    using assms(1) by (simp_all add: governor_ok_def)
  from assms(2,3) ok show ?thesis
  proof (cases rule: algo_step_cases)
    case (create p e)
    show ?thesis
      by (rule changes_one_ok [OF assms(1) create(1,3)])
        (simp add: replay_event_def create audit_view_def Let_def)
  next
    case (vote q p e v)
    have q: "gget (ag_proposals g) (apr_ID q) = Some q" using vote(2,5) by simp
    show ?thesis
      by (rule changes_one_ok [OF assms(1) vote(1,3)])
        (simp add: replay_event_def vote(5-9) q audit_view_def Let_def r map_of_replace_vote)
  next
    case (resolve q p e)
    show ?thesis
      by (rule changes_one_ok [OF assms(1) resolve(1,3)])
        (simp add: replay_event_def resolve(2,5-8) audit_view_def Let_def r)
  qed (use assms(1) in simp)
qed

text \<open>What one step, and any run, keeps: the history as a prefix, every proposal, and a resolved proposal unchanged.\<close>

definition governor_extends :: "AlgorithmGovernor \<Rightarrow> AlgorithmGovernor \<Rightarrow> bool" where
  "governor_extends g g' \<longleftrightarrow> (\<exists>es. ag_history g' = ag_history g @ es) \<and>
     (\<forall>i p. gget (ag_proposals g) i = Some p \<longrightarrow>
        (\<exists>p'. gget (ag_proposals g') i = Some p' \<and> (isTerminal (apr_Status p) \<longrightarrow> p' = p) \<and>
           av_Voter ` set (apr_Votes p) \<subseteq> av_Voter ` set (apr_Votes p')))"

lemma changes_one_extends:
  assumes "changes_one p e io g g'"
    and "\<And>q. gget (ag_proposals g) (apr_ID p) = Some q \<Longrightarrow> \<not> isTerminal (apr_Status q) \<and> av_Voter ` set (apr_Votes q) \<subseteq> av_Voter ` set (apr_Votes p)"
  shows "governor_extends g g'"
  using assms(2) unfolding governor_extends_def changes_one_fields [OF assms(1)] by auto

lemma algo_step_extends:
  assumes "governor_ok g" and "algo_apply env io now op g = (res, g')" and "fresh_pid op g"
  shows "governor_extends g g'"
proof -
  have ok: "\<forall>i p. gget (ag_proposals g) i = Some p \<longrightarrow> proposal_ok i p" using assms(1) by (simp add: governor_ok_def)
  from assms(2,3) ok show ?thesis
  proof (cases rule: algo_step_cases)
    case (create p e)
    then show ?thesis by (intro changes_one_extends) auto
  next
    case (vote q p e v)
    have "av_Voter ` set (apr_Votes q) \<subseteq> av_Voter ` set (apr_Votes p)" unfolding vote(5) by (auto simp: senders_replace_vote)
    then show ?thesis using vote(2,4) by (intro changes_one_extends [OF vote(1)]) simp
  next
    case (resolve q p e)
    then show ?thesis by (intro changes_one_extends) auto
  qed (simp add: governor_extends_def)
qed

lemma governor_extends_trans:
  assumes "governor_extends a b" and "governor_extends b c"
  shows "governor_extends a c"
  unfolding governor_extends_def
proof (intro conjI allI impI)
  show "\<exists>es. ag_history c = ag_history a @ es" using assms unfolding governor_extends_def by (metis append_assoc)
next
  fix i p
  assume "gget (ag_proposals a) i = Some p"
  then obtain q where q: "gget (ag_proposals b) i = Some q" "isTerminal (apr_Status p) \<longrightarrow> q = p"
    "av_Voter ` set (apr_Votes p) \<subseteq> av_Voter ` set (apr_Votes q)"
    using assms(1) unfolding governor_extends_def by blast
  then obtain r where "gget (ag_proposals c) i = Some r" "isTerminal (apr_Status q) \<longrightarrow> r = q"
    "av_Voter ` set (apr_Votes q) \<subseteq> av_Voter ` set (apr_Votes r)"
    using assms(2) unfolding governor_extends_def by blast
  with q show "\<exists>p'. gget (ag_proposals c) i = Some p' \<and> (isTerminal (apr_Status p) \<longrightarrow> p' = p) \<and>
      av_Voter ` set (apr_Votes p) \<subseteq> av_Voter ` set (apr_Votes p')"
    by (intro exI [of _ r]) auto
qed

lemma reach_ok: "algo_reach env ok g g' \<Longrightarrow> governor_ok g \<Longrightarrow> governor_ok g' \<and> governor_extends g g'"
proof (induction rule: algo_reach.induct)
  case (reach_step g1 io op now res g2)
  then show ?case using algo_step_ok algo_step_extends governor_extends_trans by blast
qed (simp add: governor_extends_def)

section \<open>What the governor guarantees\<close>

lemma tally_counts:
  assumes "list_all (\<lambda>v. choice_isValid (av_Choice v)) vs"
  shows "fold count_vote vs t = \<lparr>pt_Yes = pt_Yes t + length (filter (\<lambda>v. av_Choice v = ''yes'') vs),
     pt_No = pt_No t + length (filter (\<lambda>v. av_Choice v = ''no'') vs), pt_Abstain = pt_Abstain t + length (filter (\<lambda>v. av_Choice v = ''abstain'') vs),
     pt_Total = pt_Total t + length vs\<rparr>"
  using assms by (induction vs arbitrary: t) (auto simp: count_vote_def Let_def choice_isValid_def)

lemma filter_three:
  "list_all (\<lambda>v. choice_isValid (av_Choice v)) vs \<Longrightarrow>
     length (filter (\<lambda>v. av_Choice v = ''yes'') vs) + length (filter (\<lambda>v. av_Choice v = ''no'') vs) + length (filter (\<lambda>v. av_Choice v = ''abstain'') vs) = length vs"
  by (induction vs) (auto simp: choice_isValid_def)

text \<open>
  (C31) The record of votes. From a well-formed governor, an empty one for instance, and through any operations: the history
  is an audit trail whose replay gives the status of every proposal and the choice of every voter; no voter counts
  twice; the tally adds up to the number of voters; proposals and votes never disappear, a resolved proposal never
  changes, and the history is only appended to.
\<close>

theorem governance_audit:
  assumes "governor_ok g" and "algo_reach env ok g g'" and "gget (ag_proposals g') i = Some p"
  shows "replay (ag_history g') i = Some (apr_Status p, map_of (map (\<lambda>v. (av_Voter v, av_Choice v)) (apr_Votes p))) \<and>
    distinct (map av_Voter (apr_Votes p)) \<and>
    pt_Yes (proposal_Tally p) + pt_No (proposal_Tally p) + pt_Abstain (proposal_Tally p) = pt_Total (proposal_Tally p) \<and> pt_Total (proposal_Tally p) = card (av_Voter ` set (apr_Votes p)) \<and>
    governor_extends g g'"
proof -
  have ok: "governor_ok g'" and ext: "governor_extends g g'" using reach_ok [OF assms(2,1)] by simp_all
  have p: "proposal_ok i p" using ok assms(3) by (simp add: governor_ok_def)
  have d: "distinct (map av_Voter (apr_Votes p))" and v: "list_all (\<lambda>v. choice_isValid (av_Choice v)) (apr_Votes p)"
    using p by (simp_all add: proposal_ok_def)
  have "length (apr_Votes p) = card (av_Voter ` set (apr_Votes p))" using distinct_card [OF d] by simp
  moreover have "replay (ag_history g') i = Some (audit_view p)" using ok assms(3) by (simp add: governor_ok_def)
  ultimately show ?thesis using d ext filter_three [OF v] by (simp add: proposal_Tally_def tally_counts [OF v] audit_view_def)
qed

text \<open>
  Who may vote. A vote is refused exactly for a choice other than yes, no and abstain, an unknown proposal or a resolved
  one, and a refused vote changes nothing. An accepted one sets the choice of this voter on this proposal, and leaves
  the choices of the others, the status and all other proposals.
\<close>

theorem vote_refused_or_counted:
  "case algo_CastVote env io now i voter name choice comment g of
     (Inl e, g') \<Rightarrow> g' = g \<and>
       (\<not> choice_isValid (trimSpace choice) \<or> gget (ag_proposals g) i = None \<or>
        (\<exists>p. gget (ag_proposals g) i = Some p \<and> isTerminal (apr_Status p)))
   | (Inr p', g') \<Rightarrow>
       (\<exists>p. gget (ag_proposals g) i = Some p \<and> \<not> isTerminal (apr_Status p) \<and> choice_isValid (trimSpace choice) \<and>
          gget (ag_proposals g') i = Some p' \<and> apr_Status p' = apr_Status p \<and>
          (\<forall>w. map_of (map (\<lambda>v. (av_Voter v, av_Choice v)) (apr_Votes p')) w =
             (if w = fst (resolveActor env voter name) then Some (trimSpace choice)
              else map_of (map (\<lambda>v. (av_Voter v, av_Choice v)) (apr_Votes p)) w)) \<and>
          (\<forall>j. j \<noteq> i \<longrightarrow> gget (ag_proposals g') j = gget (ag_proposals g) j))"
proof -
  obtain a an where ra: "resolveActor env voter name = (a, an)" by force
  show ?thesis
  proof (cases "choice_isValid (trimSpace choice)")
    case True
    then show ?thesis by (cases "gget (ag_proposals g) i") (simp_all add: algo_CastVote_def Let_def ra map_of_replace_vote)
  qed (simp add: algo_CastVote_def Let_def)
qed

text \<open>
  The trimming of inputs is idempotent, leaves no blank at either end and removes only blanks.
\<close>

theorem trimSpace_trims:
  "trimSpace (trimSpace s) = trimSpace s \<and> (trimSpace s = [] \<or> \<not> blank (hd (trimSpace s)) \<and> \<not> blank (last (trimSpace s))) \<and>
   (\<exists>a b. s = a @ trimSpace s @ b \<and> list_all blank a \<and> list_all blank b)"
proof -
  define t where "t = dropWhile blank s"
  have s: "s = takeWhile blank s @ t" by (simp add: t_def)
  have t: "t = trimSpace s @ rev (takeWhile blank (rev t))"
    unfolding trimSpace_def t_def [symmetric] rev_append [symmetric] takeWhile_dropWhile_id by simp
  have hd_t: "t = [] \<or> \<not> blank (hd t)" unfolding t_def by (metis hd_dropWhile)
  have ends: "trimSpace s = [] \<or> \<not> blank (hd (trimSpace s)) \<and> \<not> blank (last (trimSpace s))"
  proof (cases "trimSpace s = []")
    case False
    have "hd (trimSpace s) = hd t" using t False by (metis hd_append2)
    moreover have "t \<noteq> []" using t False by (metis append_is_Nil_conv)
    moreover have "last (trimSpace s) = hd (dropWhile blank (rev t))" "dropWhile blank (rev t) \<noteq> []"
      using False by (simp_all add: trimSpace_def t_def last_rev)
    ultimately show ?thesis using hd_t hd_dropWhile [of blank "rev t"] by auto
  qed simp
  have id: "trimSpace u = u" if "u = [] \<or> \<not> blank (hd u) \<and> \<not> blank (last u)" for u
  proof (cases "u = []")
    case False
    then have "dropWhile blank u = u" "dropWhile blank (rev u) = rev u" using that by (simp_all add: dropWhile_eq_self_iff hd_rev)
    then show ?thesis by (simp add: trimSpace_def)
  qed (simp add: trimSpace_def)
  have "list_all blank (takeWhile blank s)" "list_all blank (rev (takeWhile blank (rev t)))"
    by (auto simp: list_all_iff dest: set_takeWhileD)
  moreover have "s = takeWhile blank s @ trimSpace s @ rev (takeWhile blank (rev t))" using s t by metis
  ultimately show ?thesis using ends id [OF ends] by blast
qed

text \<open>A sample run: a proposal and two votes of one voter.\<close>

definition sample_actor :: actor_env where
  "sample_actor = \<lparr>ae_node = Some ''me'', ae_GitHubUser = [], ae_localEnvName = ''env''\<rparr>"

definition new_governor :: "bool \<Rightarrow> AlgorithmGovernor" where
  "new_governor use = initAlgorithmGovernance (io_fine use) \<lparr>ds_json = Absent, ds_bak = False, ds_migrated = False\<rparr> Absent"

lemma new_governor_empty [simp]: "ag_proposals (new_governor use) = []" "ag_history (new_governor use) = []" "ag_bbolt (new_governor use) = use"
  by (simp_all add: new_governor_def initAlgorithmGovernance_def governor_importToBbolt_def isMigrated_def governor_Load_def Let_def
      markMigrated_def bakJSON_def io_fine_def governor_loadBbolt_def restore_snapshot_def governor_snapshot_def)

lemma new_governor_ok: "governor_ok (new_governor use)"
  by (simp add: governor_ok_def replay_def)

definition step_of :: "algo_op \<Rightarrow> AlgorithmGovernor \<Rightarrow> AlgorithmGovernor" where
  "step_of op g = snd (algo_apply sample_actor (io_fine False) 5 op g)"

definition sample_governor :: AlgorithmGovernor where
  "sample_governor = step_of (VoteOp ''p1'' ''v'' ''V'' ''no'' []) (step_of (VoteOp ''p1'' ''v'' ''V'' '' yes '' []) (step_of (ProposeOp ''p1'' ''title'' [] [] [] None) (new_governor False)))"

lemma reach_step_of:
  assumes "algo_reach sample_actor ok g g1" and "ok (io_fine False)" and "fresh_pid op g1"
  shows "algo_reach sample_actor ok g (step_of op g1)"
  by (rule reach_step [OF assms, where now = 5]) (simp add: step_of_def prod_eq_iff)

lemma sample_governor_reach: "ok (io_fine False) \<Longrightarrow> algo_reach sample_actor ok (new_governor False) sample_governor"
  unfolding sample_governor_def
  by (intro reach_step_of reach_refl) simp_all

lemma sample_governor_votes:
  "gget (ag_proposals sample_governor) ''p1'' = Some \<lparr>apr_ID = ''p1'', apr_Title = ''title'', apr_Description = [], apr_Proposer = ''me'',
     apr_ProposerName = ''env'', apr_Status = ''open'', apr_CreatedAt = 5, apr_ClosedAt = None, apr_ResolvedBy = [], apr_ResolveReason = [],
     apr_Target = None, apr_Votes = [\<lparr>av_Voter = ''v'', av_VoterName = ''V'', av_Choice = ''no'', av_Comment = [], av_VotedAt = 5\<rparr>]\<rparr>"
  by (simp add: sample_governor_def step_of_def algo_CreateProposal_def algo_CastVote_def Let_def resolveActor_def sample_actor_def trimSpace_def
      blank_def ProposalStatusOpen_def choice_isValid_def isTerminal_def ProposalStatusPassed_def ProposalStatusRejected_def ProposalStatusClosed_def)

theorem vote_refused_or_counted_witness:
  "snd (algo_CastVote sample_actor (io_fine False) 5 ''p1'' ''w'' ''W'' ''maybe'' [] sample_governor) = sample_governor"
proof -
  have "\<not> choice_isValid (trimSpace ''maybe'')" by (simp add: choice_isValid_def trimSpace_def blank_def)
  with vote_refused_or_counted [where env = sample_actor and io = "io_fine False" and now = 5 and i = "''p1''" and voter = "''w''" and name = "''W''"
      and choice = "''maybe''" and comment = "[]" and g = sample_governor]
  show ?thesis
    by (cases "algo_CastVote sample_actor (io_fine False) 5 ''p1'' ''w'' ''W'' ''maybe'' [] sample_governor")
      (auto split: sum.splits)
qed

theorem governance_audit_witness:
  "replay (ag_history sample_governor) ''p1'' = Some (''open'', [''v'' \<mapsto> ''no''])"
proof -
  from governance_audit [OF new_governor_ok sample_governor_reach [of "\<lambda>_. True"] sample_governor_votes] show ?thesis by simp
qed

section \<open>Restart\<close>

lemma restore_rows:
  "gmap_ok (m0 @ m) \<Longrightarrow> list_all (\<lambda>(i, p). apr_ID p = i) m \<Longrightarrow> fold (\<lambda>p. gput (apr_ID p) p) (map snd m) m0 = m0 @ m"
proof (induction m arbitrary: m0)
  case (Cons e m)
  obtain k p where e: "e = (k, p)" by force
  have k: "apr_ID p = k" and rest: "list_all (\<lambda>(i, p). apr_ID p = i) m" using Cons.prems(2) by (simp_all add: e)
  have none: "gget m0 k = None" and ok: "gmap_ok ((m0 @ [(k, p)]) @ m)"
    using Cons.prems(1) by (auto simp: e gmap_ok_def gget_None_iff)
  from Cons.IH [OF ok rest] show ?case by (simp add: e k gput_new [OF none])
qed simp

lemma restore_snapshot_same:
  assumes "governor_ok g"
  shows "restore_snapshot (governor_snapshot g) x = x\<lparr>ag_proposals := ag_proposals g, ag_history := ag_history g\<rparr>"
proof -
  have gm: "gmap_ok (ag_proposals g)" using assms by (simp add: governor_ok_def)
  have "list_all (\<lambda>(i, p). apr_ID p = i) (ag_proposals g)"
    using in_set_gget [OF gm] assms by (fastforce simp: governor_ok_def proposal_ok_def list_all_iff)
  with gm have f: "fold (\<lambda>p. gput (apr_ID p) p) (map snd (ag_proposals g)) [] = [] @ ag_proposals g" by (intro restore_rows) simp_all
  show ?thesis unfolding restore_snapshot_def governor_snapshot_def governanceSnapshot.simps f by simp
qed

text \<open>The place that the next process reads has the current proposals and history.\<close>

definition stored :: "AlgorithmGovernor \<Rightarrow> bool" where
  "stored g \<longleftrightarrow>
     (if ag_bbolt g then isMigrated (ag_disk g) \<and> ag_bucket g = Content (governor_snapshot g)
      else \<not> isMigrated (ag_disk g) \<and>
        (ds_json (ag_disk g) = Content (governor_snapshot g) \<or> ds_json (ag_disk g) = Absent \<and> ag_proposals g = [] \<and> ag_history g = []))"

definition writes_ok :: "io_env \<Rightarrow> bool" where
  "writes_ok io \<longleftrightarrow> io_update io \<and> io_write io"

lemma persist_stored: "writes_ok io \<Longrightarrow> (ag_bbolt g \<longrightarrow> isMigrated (ag_disk g)) \<Longrightarrow> (\<not> ag_bbolt g \<longrightarrow> \<not> isMigrated (ag_disk g)) \<Longrightarrow> stored (persistLocked io g)"
  by (simp add: stored_def persistLocked_def writes_ok_def governor_snapshot_def atomicWriteFile_def isMigrated_def)

lemma algo_step_stored:
  assumes "algo_apply env io now op g = (res, g')" and "writes_ok io" and "stored g"
  shows "stored g'"
proof -
  have m: "ag_bbolt g \<longrightarrow> isMigrated (ag_disk g)" "\<not> ag_bbolt g \<longrightarrow> \<not> isMigrated (ag_disk g)" using assms(3) by (auto simp: stored_def split: if_splits)
  have p: "stored (persistLocked io (appendHistoryLocked e (g\<lparr>ag_proposals := x\<rparr>)))" for e x
    by (rule persist_stored) (use m assms(2) in simp_all)
  show ?thesis using assms(1,3) p
    by (cases op) (auto simp: algo_CreateProposal_def algo_CastVote_def algo_ResolveProposal_def Let_def split: if_splits option.splits prod.splits)
qed

lemma new_governor_stored: "stored (new_governor use)"
  by (simp add: stored_def) (simp add: new_governor_def initAlgorithmGovernance_def governor_importToBbolt_def isMigrated_def governor_Load_def Let_def
      markMigrated_def bakJSON_def io_fine_def governor_loadBbolt_def restore_snapshot_def governor_snapshot_def)

lemma reach_stored: "algo_reach env writes_ok g g' \<Longrightarrow> stored g \<Longrightarrow> stored g' \<and> ag_bbolt g' = ag_bbolt g"
proof (induction rule: algo_reach.induct)
  case (reach_step g1 io op now res g2)
  have "ag_bbolt g2 = ag_bbolt g1" using reach_step.hyps(4)
    by (cases op) (auto simp: algo_CreateProposal_def algo_CastVote_def algo_ResolveProposal_def Let_def split: if_splits option.splits prod.splits)
  then show ?case using reach_step algo_step_stored by metis
qed simp

text \<open>
  Nothing is lost in a restart. When the writes succeed, the next process has the same proposals and the same history,
  on the same backend or after the migration from the file to the embedded store.
\<close>

theorem algorithm_governance_restart:
  assumes "algo_reach env writes_ok (new_governor use) g" and "use \<longrightarrow> use'"
    and "h = initAlgorithmGovernance (io_fine use') (ag_disk g) (ag_bucket g)"
  shows "(\<forall>i. GetProposal i h = GetProposal i g) \<and> GetHistory h = GetHistory g"
proof -
  have st: "stored g" "ag_bbolt g = use" using reach_stored [OF assms(1) new_governor_stored] by simp_all
  have ok: "governor_ok g" using reach_ok [OF assms(1) new_governor_ok] by simp
  note same = restore_snapshot_same [OF ok]
  have "ag_proposals h = ag_proposals g \<and> ag_history h = ag_history g"
  proof (cases use)
    case True
    obtain d where d: "bakJSON (io_fine use') (ag_disk g) = (True, d)" using bakJSON_fine by blast
    have m: "isMigrated (ag_disk g)" "ag_bucket g = Content (governor_snapshot g)" using True st by (simp_all add: stored_def)
    have "io_use_bbolt (io_fine use')" "io_open (io_fine use')" using True assms(2) by (simp_all add: io_fine_def)
    then show ?thesis unfolding assms(3)
      by (simp add: initAlgorithmGovernance_def governor_importToBbolt_def m d governor_loadBbolt_def same)
  next
    case False
    let ?h0 = "\<lparr>ag_proposals = [], ag_history = [], ag_bbolt = False, ag_disk = ag_disk g, ag_bucket = ag_bucket g\<rparr>"
    let ?g1 = "?h0\<lparr>ag_proposals := ag_proposals g, ag_history := ag_history g\<rparr>"
    have js: "\<not> isMigrated (ag_disk g)" "ds_json (ag_disk g) = Content (governor_snapshot g) \<or> ds_json (ag_disk g) = Absent \<and> ag_proposals g = [] \<and> ag_history g = []"
      using False st by (simp_all add: stored_def)
    have loaded: "governor_Load ?h0 = ?g1" using js(2) by (auto simp: governor_Load_def same)
    have snap: "governor_snapshot \<lparr>ag_proposals = ag_proposals g, ag_history = ag_history g, ag_bbolt = b, ag_disk = d, ag_bucket = x\<rparr> =
        governor_snapshot g" for b d x
      by (simp add: governor_snapshot_def)
    show ?thesis
    proof (cases use')
      case True
      obtain d where d: "bakJSON (io_fine use') ((ag_disk g)\<lparr>ds_migrated := True\<rparr>) = (True, d)" using bakJSON_fine by blast
      have "io_use_bbolt (io_fine use')" "io_open (io_fine use')" "io_update (io_fine use')" using True by (simp_all add: io_fine_def)
      then show ?thesis unfolding assms(3) using js(1)
        by (simp add: initAlgorithmGovernance_def governor_importToBbolt_def loaded markMigrated_fine d governor_loadBbolt_def snap same)
    next
      case False
      then show ?thesis using assms(3) by (simp add: initAlgorithmGovernance_def io_fine_def loaded)
    qed
  qed
  then show ?thesis by (simp add: GetProposal_def GetHistory_def)
qed

theorem algorithm_governance_restart_witness:
  "GetProposal ''p1'' (initAlgorithmGovernance (io_fine True) (ag_disk sample_governor) (ag_bucket sample_governor)) \<noteq> None"
proof -
  have "algo_reach sample_actor writes_ok (new_governor False) sample_governor"
    by (rule sample_governor_reach) (simp add: writes_ok_def io_fine_def)
  from algorithm_governance_restart [OF this _ refl, of True] show ?thesis by (simp add: GetProposal_def sample_governor_votes)
qed

text \<open>
  The migration has two steps. When the file could not be renamed after the data were copied, the next start falls back to the
  stale file, although the store has newer data: votes of the session in between are lost.
\<close>

definition no_rename :: io_env where
  "no_rename = (io_fine True)\<lparr>io_rename := False\<rparr>"

lemma stale_file_after_failed_rename:
  "let file = Content (governor_snapshot sample_governor);
       g1 = initAlgorithmGovernance no_rename \<lparr>ds_json = file, ds_bak = False, ds_migrated = False\<rparr> Absent;
       g2 = snd (algo_ResolveProposal sample_actor (io_fine True) 9 ''p1'' ''boss'' [] ''passed'' g1);
       g3 = initAlgorithmGovernance no_rename (ag_disk g2) (ag_bucket g2)
   in map_option apr_Status (GetProposal ''p1'' g2) = Some ''passed'' \<and> map_option apr_Status (GetProposal ''p1'' g3) = Some ''open''"
proof -
  have ok: "governor_ok sample_governor" using reach_ok [OF sample_governor_reach [of "\<lambda>_. True"] new_governor_ok] by simp
  show ?thesis
    by (simp add: Let_def initAlgorithmGovernance_def governor_importToBbolt_def isMigrated_def governor_Load_def restore_snapshot_same [OF ok]
        no_rename_def io_fine_def markMigrated_def bakJSON_def algo_ResolveProposal_def sample_governor_votes isTerminal_def ProposalStatusPassed_def
        ProposalStatusRejected_def ProposalStatusClosed_def persistLocked_def GetProposal_def)
qed

end
