(* ===== verification/Data_Integrity.thy ===== *)
theory Data_Integrity
  imports Omp_Prelude
begin

text \<open>
  Data files with a keyed hash in front (\<open>src/data_integrity.go\<close>). Bytes are characters. The hash with the current key is a
  parameter, and so are the JSON encoder, the decoder into the type at hand and the check that a text is JSON at all.
\<close>

record integrity_env =
  ie_ready :: bool
  ie_hmac :: "string \<Rightarrow> string"

record 'v json_codec =
  jc_marshal :: "'v \<Rightarrow> string option"
  jc_unmarshal :: "string \<Rightarrow> 'v option"
  jc_valid :: "string \<Rightarrow> bool"

definition hmacSize :: nat where "hmacSize = 32"

definition computeHMAC :: "integrity_env \<Rightarrow> string \<Rightarrow> string option" where
  "computeHMAC env data = (if ie_ready env then Some (ie_hmac env data) else None)"

definition verifyHMAC :: "integrity_env \<Rightarrow> string \<Rightarrow> string \<Rightarrow> bool" where
  "verifyHMAC env data storedMAC \<longleftrightarrow> ie_ready env \<and> storedMAC = ie_hmac env data"

text \<open>The bytes of the file: \<open>copy\<close> takes at most 32 bytes of the hash, and a shorter one leaves zeros.\<close>

definition writeWithIntegrity :: "integrity_env \<Rightarrow> string \<Rightarrow> string" where
  "writeWithIntegrity env data =
     (case computeHMAC env data of
        None \<Rightarrow> data
      | Some mac \<Rightarrow> take hmacSize (mac @ replicate hmacSize (CHR 0x00)) @ data)"

definition saveWithIntegrity :: "integrity_env \<Rightarrow> 'v json_codec \<Rightarrow> 'v \<Rightarrow> string option" where
  "saveWithIntegrity env jc v = map_option (writeWithIntegrity env) (jc_marshal jc v)"

datatype 'v load_result = Loaded 'v | NoFile | ParseFailed | IntegrityFailed

definition unmarshal_into :: "'v json_codec \<Rightarrow> string \<Rightarrow> 'v load_result" where
  "unmarshal_into jc raw = (case jc_unmarshal jc raw of Some v \<Rightarrow> Loaded v | None \<Rightarrow> ParseFailed)"

definition loadWithIntegrity :: "integrity_env \<Rightarrow> 'v json_codec \<Rightarrow> string option \<Rightarrow> 'v load_result" where
  "loadWithIntegrity env jc file =
     (case file of
        None \<Rightarrow> NoFile
      | Some raw \<Rightarrow>
          if length raw < hmacSize then unmarshal_into jc raw
          else
            let storedMAC = take hmacSize raw; payload = drop hmacSize raw in
            if verifyHMAC env payload storedMAC then unmarshal_into jc payload
            else if jc_valid jc raw then unmarshal_into jc raw
            else IntegrityFailed)"

section \<open>What the format guarantees\<close>

text \<open>What the encoder and the decoder are documented to do, and the size of the hash.\<close>

definition format_ok :: "integrity_env \<Rightarrow> 'v json_codec \<Rightarrow> bool" where
  "format_ok env jc \<longleftrightarrow> (\<forall>d. length (ie_hmac env d) = hmacSize) \<and>
     (\<forall>v d. jc_marshal jc v = Some d \<longrightarrow> jc_unmarshal jc d = Some v \<and> jc_valid jc d)"

lemma protected_bytes: "format_ok env jc \<Longrightarrow> ie_ready env \<Longrightarrow> writeWithIntegrity env d = ie_hmac env d @ d"
  by (simp add: writeWithIntegrity_def computeHMAC_def format_ok_def)

text \<open>
  A file written with the key loads as the value that was saved; one written before the key was ready, plain JSON,
  does too, unless its first 32 bytes happen to be the hash of the rest.
\<close>

theorem integrity_roundtrip:
  assumes "format_ok env jc" and "saveWithIntegrity env0 jc v = Some raw" and "ie_ready env0 \<longrightarrow> env0 = env"
  shows "loadWithIntegrity env jc (Some raw) = Loaded v \<or>
    \<not> ie_ready env0 \<and> length raw \<ge> hmacSize \<and> verifyHMAC env (drop hmacSize raw) (take hmacSize raw)"
proof -
  obtain d where d: "jc_marshal jc v = Some d" and raw: "raw = writeWithIntegrity env0 d"
    using assms(2) by (auto simp: saveWithIntegrity_def)
  have dec: "jc_unmarshal jc d = Some v" "jc_valid jc d" using assms(1) d by (simp_all add: format_ok_def)
  show ?thesis
  proof (cases "ie_ready env0")
    case True
    then have "raw = ie_hmac env d @ d" "length (ie_hmac env d) = hmacSize" "ie_ready env"
      using assms protected_bytes [OF assms(1)] by (auto simp: raw format_ok_def)
    then show ?thesis using dec by (simp add: loadWithIntegrity_def verifyHMAC_def unmarshal_into_def)
  next
    case False
    then have "raw = d" by (simp add: raw writeWithIntegrity_def computeHMAC_def)
    then show ?thesis using False dec by (auto simp: loadWithIntegrity_def unmarshal_into_def Let_def)
  qed
qed

definition plain_integrity :: integrity_env where
  "plain_integrity = \<lparr>ie_ready = True, ie_hmac = \<lambda>d. replicate 32 (CHR ''h'')\<rparr>"

definition plain_codec :: "string json_codec" where
  "plain_codec = \<lparr>jc_marshal = (\<lambda>v. Some (CHR ''{'' # v)), jc_unmarshal = (\<lambda>d. if d \<noteq> [] \<and> hd d = CHR ''{'' then Some (tl d) else None),
     jc_valid = (\<lambda>d. d \<noteq> [] \<and> hd d = CHR ''{'')\<rparr>"

theorem integrity_roundtrip_witness:
  "\<exists>raw. saveWithIntegrity plain_integrity plain_codec ''abc}'' = Some raw \<and> loadWithIntegrity plain_integrity plain_codec (Some raw) = Loaded ''abc}''"
proof -
  have ok: "format_ok plain_integrity plain_codec" by (simp add: format_ok_def plain_integrity_def plain_codec_def hmacSize_def)
  obtain raw where raw: "saveWithIntegrity plain_integrity plain_codec ''abc}'' = Some raw"
    by (simp add: saveWithIntegrity_def plain_codec_def)
  have "ie_ready plain_integrity" by (simp add: plain_integrity_def)
  with integrity_roundtrip [OF ok raw] raw show ?thesis by simp
qed

text \<open>
  What is loaded. A value comes from a payload behind its hash under the current key, or from a file that is plain JSON
  as a whole; and a file that is neither is refused as tampered with.
\<close>

theorem integrity_load_sound:
  "case loadWithIntegrity env jc (Some raw) of
     Loaded v \<Rightarrow>
       (verifyHMAC env (drop hmacSize raw) (take hmacSize raw) \<and> length raw \<ge> hmacSize \<and> jc_unmarshal jc (drop hmacSize raw) = Some v) \<or>
       ((length raw < hmacSize \<or> jc_valid jc raw) \<and> jc_unmarshal jc raw = Some v)
   | IntegrityFailed \<Rightarrow> length raw \<ge> hmacSize \<and> \<not> jc_valid jc raw \<and> \<not> verifyHMAC env (drop hmacSize raw) (take hmacSize raw)
   | ParseFailed \<Rightarrow> jc_unmarshal jc raw = None \<or> jc_unmarshal jc (drop hmacSize raw) = None
   | NoFile \<Rightarrow> False"
  by (auto simp: loadWithIntegrity_def Let_def unmarshal_into_def split: option.splits)

text \<open>
  The second source needs no key: whoever can write the file can replace it by plain JSON, hash and all, and it is loaded.
\<close>

lemma plain_file_accepted:
  assumes "jc_valid jc forged" and "jc_unmarshal jc forged = Some v" and "\<not> verifyHMAC env (drop hmacSize forged) (take hmacSize forged)"
  shows "loadWithIntegrity env jc (Some forged) = Loaded v"
  using assms by (simp add: loadWithIntegrity_def Let_def unmarshal_into_def)

end
