(* ===== verification/Open_Key_Quota.thy ===== *)
theory Open_Key_Quota
  imports Global_Pool Contribution_Quota Algorithm_Governance
begin

text \<open>
  The quota of open keys and the shares in the global pool (\<open>src/network_quota.go\<close>): what the network offers in total, the
  equal share of each node, the bounded cache of shares, and the share of a node in the pool by its contribution.

  The state of other components is an argument: the configuration of the network manager, the tracker of contributions,
  the trust pool of the federation, the parameters of the algorithm chain and the pool. Time stamps of the cache are
  seconds. \<open>float64\<close> is \<open>real\<close>; a conversion to \<open>int64\<close> truncates, and out of range it gives the smallest integer.
\<close>

definition go_int64 :: "real \<Rightarrow> int" where
  "go_int64 x = (let t = (if x < 0 then \<lceil>x\<rceil> else \<lfloor>x\<rfloor>) in if in_i64 t then t else - (2 ^ 63))"

record quota_peer =
  qp_NodeID :: string
  qp_Status :: string
  qp_TrustScore :: real

record quota_net =
  qn_NodeID :: string
  qn_Peers :: "quota_peer list"

record pool_member =
  pm_TokenBudget :: int
  pm_Status :: string

record quota_world =
  qw_netMgr :: "quota_net option"
  qw_tracker :: "ContributionQuotaTracker option"
  qw_fed :: "pool_member list option"

record QuotaInfo =
  qi_NodeID :: string
  qi_GlobalQuota :: int
  qi_UserQuota :: int
  qi_ReputationShare :: real
  qi_ContributionShare :: real
  qi_LastUpdated :: int

record OpenKeyQuotaManager =
  qm_chain :: AlgorithmChain
  qm_quotaCache :: "(string, QuotaInfo) gomap"
  qm_lastRefresh :: int

section \<open>The quota of the network and of a node\<close>

definition member_resources :: "pool_member \<Rightarrow> int" where
  "member_resources n = (if pm_TokenBudget n > 0 then pm_TokenBudget n else if pm_Status n = ''active'' then 50000 else 0)"

definition total_resources :: "quota_world \<Rightarrow> quota_net \<Rightarrow> int" where
  "total_resources w net =
     (let self = (case qw_tracker w of None \<Rightarrow> 0 | Some t \<Rightarrow> (case GetQuota t (qn_NodeID net) of None \<Rightarrow> 0 | Some q \<Rightarrow> cq_ContributedTokens q));
          peers = fold (\<lambda>p s. if qp_Status p = ''online'' then i64 (s + go_int64 (qp_TrustScore p * 10000)) else s) (qn_Peers net) (i64 self);
          all = (case qw_fed w of None \<Rightarrow> peers | Some ns \<Rightarrow> fold (\<lambda>n s. i64 (s + member_resources n)) ns peers)
      in if all < 10000 then 10000 else all)"

definition CalculateGlobalQuota :: "quota_world \<Rightarrow> OpenKeyQuotaManager \<Rightarrow> int" where
  "CalculateGlobalQuota w m =
     (case qw_netMgr w of
        None \<Rightarrow> 0
      | Some net \<Rightarrow> go_int64 (real_of_int (total_resources w net) * ap_OpenKeyRatio (GetCurrentParams (qm_chain m))))"

definition quota_node_count :: "quota_world \<Rightarrow> nat" where
  "quota_node_count w =
     (let a = (case qw_netMgr w of None \<Rightarrow> 0
               | Some net \<Rightarrow> (if qn_NodeID net \<noteq> [] then 1 else 0) + length (filter (\<lambda>p. qp_Status p = ''online'') (qn_Peers net)));
          b = (case qw_fed w of None \<Rightarrow> 0 | Some ns \<Rightarrow> length (filter (\<lambda>n. pm_Status n = ''active'') ns))
      in if a + b < 1 then 1 else a + b)"

definition maxQuotaCacheEntries :: nat where "maxQuotaCacheEntries = 1024"

text \<open>The oldest entry as the loop over the map finds it; the empty identifier stands for none so far.\<close>

definition oldest_entry :: "(string, QuotaInfo) gomap \<Rightarrow> string \<times> int" where
  "oldest_entry c = fold (\<lambda>(i, q) (oldestID, oldestTS). if oldestID = [] \<or> qi_LastUpdated q < oldestTS then (i, qi_LastUpdated q) else (oldestID, oldestTS))
     c ([], 0)"

function evictQuotaCacheLocked :: "(string, QuotaInfo) gomap \<Rightarrow> (string, QuotaInfo) gomap" where
  "evictQuotaCacheLocked c =
     (if length c > maxQuotaCacheEntries
      then let i = fst (oldest_entry c) in
           if i = [] \<or> gget c i = None then c else evictQuotaCacheLocked (gdel i c)
      else c)"
  by pat_completeness auto

termination evictQuotaCacheLocked
  by (relation "measure length") (auto intro: length_gdel_less)

declare evictQuotaCacheLocked.simps [simp del]

definition CalculateUserQuota :: "quota_world \<Rightarrow> int \<Rightarrow> string \<Rightarrow> OpenKeyQuotaManager \<Rightarrow> QuotaInfo \<times> OpenKeyQuotaManager" where
  "CalculateUserQuota w now nodeID m =
     (let globalQuota = CalculateGlobalQuota w m;
          n = quota_node_count w;
          u0 = go_div globalQuota (int n);
          u1 = (if u0 < 100 then 100 else u0);
          u2 = (if u1 > globalQuota then globalQuota else u1);
          info = \<lparr>qi_NodeID = nodeID, qi_GlobalQuota = globalQuota, qi_UserQuota = u2, qi_ReputationShare = 1 / real n,
                  qi_ContributionShare = 1 / real n, qi_LastUpdated = now\<rparr>
      in (info, m\<lparr>qm_quotaCache := evictQuotaCacheLocked (gput nodeID info (qm_quotaCache m))\<rparr>))"

definition GetCachedQuota :: "quota_world \<Rightarrow> int \<Rightarrow> string \<Rightarrow> OpenKeyQuotaManager \<Rightarrow> QuotaInfo \<times> OpenKeyQuotaManager" where
  "GetCachedQuota w now nodeID m =
     (case gget (qm_quotaCache m) nodeID of Some info \<Rightarrow> (info, m) | None \<Rightarrow> CalculateUserQuota w now nodeID m)"

definition RefreshAllQuotas :: "quota_world \<Rightarrow> int \<Rightarrow> OpenKeyQuotaManager \<Rightarrow> OpenKeyQuotaManager" where
  "RefreshAllQuotas w now m =
     (case qw_netMgr w of
        None \<Rightarrow> m
      | Some net \<Rightarrow>
          let nodes = (if qn_NodeID net \<noteq> [] then [qn_NodeID net] else []) @ map qp_NodeID (qn_Peers net)
          in (fold (\<lambda>i m. snd (CalculateUserQuota w now i m)) nodes m)\<lparr>qm_lastRefresh := now\<rparr>)"

text \<open>The answer of the handler: node, global and user quota.\<close>

definition handleOpenKeyQuota :: "quota_world \<Rightarrow> int \<Rightarrow> AlgorithmChain option \<Rightarrow> string \<Rightarrow> OpenKeyQuotaManager option
    \<Rightarrow> (QuotaInfo \<times> int) http_result \<times> OpenKeyQuotaManager option" where
  "handleOpenKeyQuota w now chain query mo =
     (case mo of
        None \<Rightarrow> (HttpError 500 ''quota manager not initialized'', None)
      | Some m \<Rightarrow>
          if chain = None then (HttpError 500 ''quota manager not initialized'', Some m)
          else
            let nodeID = (if query = [] then (case qw_netMgr w of None \<Rightarrow> [] | Some net \<Rightarrow> qn_NodeID net) else query) in
            if nodeID = [] then (HttpError 400 ''node_id is required'', Some m)
            else (case CalculateUserQuota w now nodeID m of (info, m') \<Rightarrow> (HttpOK (info, CalculateGlobalQuota w m'), Some m')))"

section \<open>Shares in the global pool\<close>

definition calculateGlobalPoolQuotaLocked :: "AlgorithmChain option \<Rightarrow> GlobalPool \<Rightarrow> int" where
  "calculateGlobalPoolQuotaLocked chain gp =
     (if gp_AvailableQuota gp \<le> 0 then 0
      else let ratio = (case chain of
                          Some c \<Rightarrow> if ap_GlobalPoolAvailabilityRatio (GetCurrentParams c) > 0
                                    then ap_GlobalPoolAvailabilityRatio (GetCurrentParams c) else 8 / 10
                        | None \<Rightarrow> 8 / 10)
           in go_int64 (real_of_int (gp_AvailableQuota gp) * ratio))"

definition CalculateGlobalPoolQuota :: "AlgorithmChain option \<Rightarrow> GlobalPool option \<Rightarrow> int" where
  "CalculateGlobalPoolQuota chain gpo = (case gpo of None \<Rightarrow> 0 | Some gp \<Rightarrow> calculateGlobalPoolQuotaLocked chain gp)"

definition CalculateNodeGlobalPoolShare :: "AlgorithmChain option \<Rightarrow> string \<Rightarrow> GlobalPool option \<Rightarrow> int" where
  "CalculateNodeGlobalPoolShare chain nodeID gpo =
     (case gpo of
        None \<Rightarrow> 0
      | Some gp \<Rightarrow>
          if gp_TotalContributed gp \<le> 0 then 0
          else let nodeContrib = gget0 0 (gp_NodeContributions gp) nodeID in
               if nodeContrib \<le> 0 then 0
               else go_int64 (real_of_int nodeContrib / real_of_int (gp_TotalContributed gp) *
                              real_of_int (calculateGlobalPoolQuotaLocked chain gp)))"

section \<open>Bounds\<close>

lemma go_int64_bounds:
  assumes "0 \<le> x" and "x \<le> real_of_int n" and "in_i64 n"
  shows "0 \<le> go_int64 x" and "go_int64 x \<le> n" and "real_of_int (go_int64 x) \<le> x"
proof -
  have f: "0 \<le> \<lfloor>x\<rfloor>" "\<lfloor>x\<rfloor> \<le> n" using assms(1,2) by (simp_all add: floor_le_iff)
  then have "in_i64 \<lfloor>x\<rfloor>" using in_i64_between [OF in_i64_0 assms(3)] by blast
  then have "go_int64 x = \<lfloor>x\<rfloor>" using assms(1) by (simp add: go_int64_def Let_def)
  with f show "0 \<le> go_int64 x" "go_int64 x \<le> n" "real_of_int (go_int64 x) \<le> x" by simp_all
qed

lemma fold_i64_range: "in_i64 s \<Longrightarrow> (\<And>x s. in_i64 s \<Longrightarrow> in_i64 (f x s)) \<Longrightarrow> in_i64 (fold f xs s)"
  by (induction xs arbitrary: s) simp_all

lemma total_resources_bounds: "10000 \<le> total_resources w net \<and> in_i64 (total_resources w net)"
proof -
  have 1: "in_i64 (fold (\<lambda>p s. if qp_Status p = ''online'' then i64 (s + go_int64 (qp_TrustScore p * 10000)) else s) ps a)" if "in_i64 a" for ps a
    by (rule fold_i64_range) (simp_all add: i64_range that)
  have 2: "in_i64 (fold (\<lambda>n s. i64 (s + member_resources n)) ns a)" if "in_i64 a" for ns a
    by (rule fold_i64_range) (simp_all add: i64_range that)
  have big: "10000 \<le> (if a < 10000 then 10000 else a) \<and> in_i64 (if a < 10000 then 10000 else a)" if "in_i64 a" for a :: int
    using that by (simp add: in_i64_def)
  show ?thesis unfolding total_resources_def Let_def
    by (rule big) (simp add: 1 2 i64_range split: option.split)
qed

text \<open>
  The quota of a node. If the ratio of the algorithm is between 0 and 1, the quota of the network is between 0 and the
  resources of the network, and a node gets between 100, or all of it if that is less, and all of it. If the quota
  of the network gives every node at least 100, what all nodes get together is at most the quota of the network.
\<close>

theorem user_quota_bounds:
  assumes "ap_OpenKeyRatio (GetCurrentParams (qm_chain m)) \<in> {0..1}" and "qw_netMgr w = Some net"
    and "CalculateUserQuota w now i m = (info, m')"
  shows "0 \<le> qi_GlobalQuota info \<and> qi_GlobalQuota info \<le> total_resources w net \<and>
    min 100 (qi_GlobalQuota info) \<le> qi_UserQuota info \<and> qi_UserQuota info \<le> qi_GlobalQuota info \<and>
    (100 * int (quota_node_count w) \<le> qi_GlobalQuota info \<longrightarrow>
       int (quota_node_count w) * qi_UserQuota info \<le> qi_GlobalQuota info)"
proof -
  let ?r = "ap_OpenKeyRatio (GetCurrentParams (qm_chain m))" and ?t = "total_resources w net" and ?n = "int (quota_node_count w)"
  have t: "10000 \<le> ?t" "in_i64 ?t" using total_resources_bounds by simp_all
  have n: "1 \<le> ?n" by (simp add: quota_node_count_def Let_def)
  have g: "CalculateGlobalQuota w m = go_int64 (real_of_int ?t * ?r)" by (simp add: CalculateGlobalQuota_def assms(2))
  have "0 \<le> real_of_int ?t * ?r" using assms(1) t(1) by simp
  moreover have "real_of_int ?t * ?r \<le> real_of_int ?t" using assms(1) t(1) by (simp add: mult_left_le)
  ultimately have G: "0 \<le> CalculateGlobalQuota w m" "CalculateGlobalQuota w m \<le> ?t"
    unfolding g using go_int64_bounds [of "real_of_int ?t * ?r" ?t] t(2) by simp_all
  then have iG: "in_i64 (CalculateGlobalQuota w m)" using in_i64_between [OF in_i64_0 t(2)] by blast
  have d: "go_div (CalculateGlobalQuota w m) ?n = CalculateGlobalQuota w m div ?n" using go_div_pos G(1) n iG by simp
  have le: "?n * (CalculateGlobalQuota w m div ?n) \<le> CalculateGlobalQuota w m" 
  proof -
    have "CalculateGlobalQuota w m = ?n * (CalculateGlobalQuota w m div ?n) + CalculateGlobalQuota w m mod ?n" by simp
    moreover have "0 \<le> CalculateGlobalQuota w m mod ?n" using n by simp
    ultimately show ?thesis by linarith
  qed
  have info: "qi_GlobalQuota info = CalculateGlobalQuota w m"
    "qi_UserQuota info = min (CalculateGlobalQuota w m) (max 100 (CalculateGlobalQuota w m div ?n))"
    using assms(3) unfolding CalculateUserQuota_def Let_def d by (auto simp: min_def max_def)
  have "?n * qi_UserQuota info \<le> CalculateGlobalQuota w m" if h: "100 * ?n \<le> CalculateGlobalQuota w m"
  proof -
    have "100 \<le> CalculateGlobalQuota w m div ?n" using zdiv_mono1 [OF h, of ?n] n by simp
    then have "qi_UserQuota info \<le> CalculateGlobalQuota w m div ?n" by (simp add: info)
    then have "?n * qi_UserQuota info \<le> ?n * (CalculateGlobalQuota w m div ?n)" using n by (simp add: mult_left_mono)
    with le show ?thesis by simp
  qed
  then show ?thesis using G info by auto
qed

definition sample_net :: quota_net where
  "sample_net = \<lparr>qn_NodeID = ''me'', qn_Peers = [\<lparr>qp_NodeID = ''a'', qp_Status = ''online'', qp_TrustScore = 1\<rparr>]\<rparr>"

definition sample_world :: quota_world where
  "sample_world = \<lparr>qw_netMgr = Some sample_net, qw_tracker = None, qw_fed = Some [\<lparr>pm_TokenBudget = 0, pm_Status = ''active''\<rparr>]\<rparr>"

definition sample_manager :: OpenKeyQuotaManager where
  "sample_manager = \<lparr>qm_chain = NewAlgorithmChain, qm_quotaCache = [], qm_lastRefresh = 0\<rparr>"

lemma sample_ratio: "ap_OpenKeyRatio (GetCurrentParams (qm_chain sample_manager)) \<in> {0..1}"
  by (simp add: sample_manager_def NewAlgorithmChain_def GetCurrentParams_def DefaultAlgorithmParams_def)

theorem user_quota_bounds_witness:
  "let (info, m') = CalculateUserQuota sample_world 5 ''a'' sample_manager in
     0 \<le> qi_UserQuota info \<and> qi_UserQuota info \<le> qi_GlobalQuota info \<and> qi_GlobalQuota info \<le> total_resources sample_world sample_net"
proof -
  obtain info m' where run: "CalculateUserQuota sample_world 5 ''a'' sample_manager = (info, m')" by force
  have "qw_netMgr sample_world = Some sample_net" by (simp add: sample_world_def)
  from user_quota_bounds [OF sample_ratio this run] show ?thesis by (auto simp: run min_def split: if_splits)
qed

text \<open>The minimum of 100 can promise more than there is: 31 nodes in a network with the least resources.\<close>

lemma minimum_overcommits:
  "let w = \<lparr>qw_netMgr = Some \<lparr>qn_NodeID = ''me'', qn_Peers = replicate 30 \<lparr>qp_NodeID = ''a'', qp_Status = ''online'', qp_TrustScore = 0\<rparr>\<rparr>,
            qw_tracker = None, qw_fed = None\<rparr>;
       info = fst (CalculateUserQuota w 5 ''a'' sample_manager)
   in quota_node_count w = 31 \<and> qi_GlobalQuota info = 3000 \<and> 31 * qi_UserQuota info = 3100"
  by (simp add: Let_def CalculateUserQuota_def CalculateGlobalQuota_def total_resources_def quota_node_count_def sample_manager_def NewAlgorithmChain_def
      GetCurrentParams_def DefaultAlgorithmParams_def go_int64_def in_i64_def go_div_def i64_def eval_nat_numeral)

section \<open>The cache\<close>

lemma oldest_loop:
  assumes "\<forall>(i, q)\<in>set c. i \<noteq> []" and "a \<noteq> []"
  shows "case fold (\<lambda>(i, q) (oldestID, oldestTS). if oldestID = [] \<or> qi_LastUpdated q < oldestTS then (i, qi_LastUpdated q) else (oldestID, oldestTS)) c (a, t) of
    (i, ts) \<Rightarrow> i \<noteq> [] \<and> ts \<le> t \<and> (\<forall>(j, q)\<in>set c. ts \<le> qi_LastUpdated q) \<and> (i = a \<and> ts = t \<or> (\<exists>q. (i, q) \<in> set c \<and> qi_LastUpdated q = ts))"
  using assms
proof (induction c arbitrary: a t)
  case (Cons e c)
  obtain k q where e: "e = (k, q)" by force
  have k: "k \<noteq> []" and keys: "\<forall>(i, q)\<in>set c. i \<noteq> []" using Cons.prems(1) by (auto simp: e)
  show ?case
  proof (cases "qi_LastUpdated q < t")
    case True
    then show ?thesis using Cons.IH [OF keys k, where t = "qi_LastUpdated q"] Cons.prems(2) by (auto simp: e)
  next
    case False
    then show ?thesis using Cons.IH [OF keys Cons.prems(2), where t = t] Cons.prems(2) by (auto simp: e)
  qed
qed simp

lemma oldest_entry_spec:
  assumes "\<forall>(i, q)\<in>set c. i \<noteq> []" and "c \<noteq> []" and "gmap_ok c"
  obtains q where "fst (oldest_entry c) \<noteq> []" and "gget c (fst (oldest_entry c)) = Some q"
    and "\<And>j r. gget c j = Some r \<Longrightarrow> qi_LastUpdated q \<le> qi_LastUpdated r"
proof -
  obtain k r c' where c: "c = (k, r) # c'" using assms(2) by (cases c) auto
  have k: "k \<noteq> []" and keys: "\<forall>(i, q)\<in>set c'. i \<noteq> []" using assms(1) by (auto simp: c)
  obtain i ts where o: "oldest_entry c = (i, ts)" by force
  have "i \<noteq> [] \<and> ts \<le> qi_LastUpdated r \<and> (\<forall>(j, q)\<in>set c'. ts \<le> qi_LastUpdated q) \<and>
      (i = k \<and> ts = qi_LastUpdated r \<or> (\<exists>q. (i, q) \<in> set c' \<and> qi_LastUpdated q = ts))"
    using oldest_loop [OF keys k, where t = "qi_LastUpdated r"] o by (simp add: oldest_entry_def c)
  then obtain q where q: "i \<noteq> []" "(i, q) \<in> set c" "qi_LastUpdated q = ts" "\<forall>(j, q)\<in>set c. ts \<le> qi_LastUpdated q"
    by (auto simp: c)
  show thesis
  proof (rule that [of q])
    show "fst (oldest_entry c) \<noteq> []" using q(1) o by simp
    show "gget c (fst (oldest_entry c)) = Some q" using in_set_gget [OF assms(3) q(2)] o by simp
    show "qi_LastUpdated q \<le> qi_LastUpdated r" if "gget c j = Some r" for j r using gget_in_set [OF that] q(3,4) by auto
  qed
qed

text \<open>
  The cache of shares. Whatever identifiers are asked for, the cache never has more than 1024 entries afterwards, and
  an entry that was dropped is not younger than any that is left.
\<close>

theorem quota_cache_bounded:
  assumes "gmap_ok c" and "\<forall>i q. gget c i = Some q \<longrightarrow> i \<noteq> []"
  shows "length (evictQuotaCacheLocked c) \<le> maxQuotaCacheEntries \<and> gmap_ok (evictQuotaCacheLocked c) \<and>
    (\<forall>i q. gget (evictQuotaCacheLocked c) i = Some q \<longrightarrow> gget c i = Some q) \<and>
    (\<forall>i q j r. gget c i = Some q \<and> gget (evictQuotaCacheLocked c) i = None \<and> gget (evictQuotaCacheLocked c) j = Some r \<longrightarrow>
       qi_LastUpdated q \<le> qi_LastUpdated r)"
  using assms
proof (induction c rule: evictQuotaCacheLocked.induct)
  case (1 c)
  show ?case
  proof (cases "length c > maxQuotaCacheEntries")
    case True
    have keys: "\<forall>(i, q)\<in>set c. i \<noteq> []" using in_set_gget [OF "1.prems"(1)] "1.prems"(2) by blast
    have ne: "c \<noteq> []" using True by auto
    obtain q where o: "fst (oldest_entry c) \<noteq> []" "gget c (fst (oldest_entry c)) = Some q"
      "\<And>j r. gget c j = Some r \<Longrightarrow> qi_LastUpdated q \<le> qi_LastUpdated r"
      using oldest_entry_spec [OF keys ne "1.prems"(1)] by blast
    let ?i = "fst (oldest_entry c)"
    have step: "evictQuotaCacheLocked c = evictQuotaCacheLocked (gdel ?i c)"
      using True o by (subst evictQuotaCacheLocked.simps) (simp add: Let_def)
    have keys': "\<forall>i q. gget (gdel ?i c) i = Some q \<longrightarrow> i \<noteq> []" using "1.prems"(2) by (simp split: if_splits)
    have IH: "length (evictQuotaCacheLocked (gdel ?i c)) \<le> maxQuotaCacheEntries \<and> gmap_ok (evictQuotaCacheLocked (gdel ?i c)) \<and>
        (\<forall>i q. gget (evictQuotaCacheLocked (gdel ?i c)) i = Some q \<longrightarrow> gget (gdel ?i c) i = Some q) \<and>
        (\<forall>i q j r. gget (gdel ?i c) i = Some q \<and> gget (evictQuotaCacheLocked (gdel ?i c)) i = None \<and>
           gget (evictQuotaCacheLocked (gdel ?i c)) j = Some r \<longrightarrow> qi_LastUpdated q \<le> qi_LastUpdated r)"
      by (rule "1.IH" [OF True refl _ gmap_ok_gdel [OF "1.prems"(1)] keys']) (simp add: o)
    have sub: "gget c i = Some q'" if "gget (evictQuotaCacheLocked (gdel ?i c)) i = Some q'" for i q'
      using IH that by (metis gget_gdel option.distinct(1))
    have old: "qi_LastUpdated p \<le> qi_LastUpdated r"
      if "gget c i = Some p" "gget (evictQuotaCacheLocked (gdel ?i c)) i = None" "gget (evictQuotaCacheLocked (gdel ?i c)) j = Some r" for i p j r
    proof (cases "i = ?i")
      case True
      then show ?thesis using o(2,3) sub [OF that(3)] that(1) by simp
    next
      case False
      then have "gget (gdel ?i c) i = Some p" using that(1) by simp
      then show ?thesis using IH that(2,3) by blast
    qed
    show ?thesis unfolding step using IH sub old by blast
  next
    case False
    then have "evictQuotaCacheLocked c = c" by (subst evictQuotaCacheLocked.simps) simp
    then show ?thesis using False "1.prems" by auto
  qed
qed

theorem quota_cache_bounded_witness:
  "length (evictQuotaCacheLocked [(''a'', fst (CalculateUserQuota sample_world 5 ''a'' sample_manager))]) \<le> maxQuotaCacheEntries"
  by (rule quota_cache_bounded [THEN conjunct1]) simp_all

section \<open>Shares in the pool\<close>

lemma pool_quota_bounds:
  assumes "in_i64 (gp_AvailableQuota gp)" and "\<And>c. chain = Some c \<Longrightarrow> ap_GlobalPoolAvailabilityRatio (GetCurrentParams c) \<le> 1"
  shows "0 \<le> calculateGlobalPoolQuotaLocked chain gp \<and> calculateGlobalPoolQuotaLocked chain gp \<le> max 0 (gp_AvailableQuota gp)"
proof (cases "gp_AvailableQuota gp \<le> 0")
  case False
  define r where "r = (case chain of Some c \<Rightarrow> if ap_GlobalPoolAvailabilityRatio (GetCurrentParams c) > 0
                                    then ap_GlobalPoolAvailabilityRatio (GetCurrentParams c) else 8 / 10 | None \<Rightarrow> 8 / 10)"
  have r: "0 \<le> r" "r \<le> 1" using assms(2) by (auto simp: r_def split: option.split)
  have "0 \<le> real_of_int (gp_AvailableQuota gp) * r" "real_of_int (gp_AvailableQuota gp) * r \<le> real_of_int (gp_AvailableQuota gp)"
    using False r by (simp_all add: mult_left_le)
  from go_int64_bounds [OF this assms(1)] False show ?thesis
    by (simp add: calculateGlobalPoolQuotaLocked_def r_def)
qed (simp add: calculateGlobalPoolQuotaLocked_def)

lemma node_share_bound:
  assumes "in_i64 (gp_AvailableQuota gp)" and "\<And>c. chain = Some c \<Longrightarrow> ap_GlobalPoolAvailabilityRatio (GetCurrentParams c) \<le> 1"
    and "0 \<le> gget0 0 (gp_NodeContributions gp) i" and "gget0 0 (gp_NodeContributions gp) i \<le> gp_TotalContributed gp" and "0 < gp_TotalContributed gp"
  shows "real_of_int (CalculateNodeGlobalPoolShare chain i (Some gp)) * real_of_int (gp_TotalContributed gp) \<le>
      real_of_int (gget0 0 (gp_NodeContributions gp) i) * real_of_int (calculateGlobalPoolQuotaLocked chain gp)"
    and "0 \<le> CalculateNodeGlobalPoolShare chain i (Some gp)"
proof -
  let ?c = "gget0 0 (gp_NodeContributions gp) i" and ?T = "gp_TotalContributed gp" and ?Q = "calculateGlobalPoolQuotaLocked chain gp"
  have Q: "0 \<le> ?Q" "?Q \<le> max 0 (gp_AvailableQuota gp)" using pool_quota_bounds [OF assms(1,2)] by blast+
  have iQ: "in_i64 ?Q" using Q assms(1) by (auto simp: in_i64_def)
  have x: "0 \<le> real_of_int ?c / real_of_int ?T * real_of_int ?Q" using assms(3,5) Q(1) by simp
  have "real_of_int ?c / real_of_int ?T \<le> 1" using assms(4,5) by simp
  then have y: "real_of_int ?c / real_of_int ?T * real_of_int ?Q \<le> real_of_int ?Q" using mult_right_mono [of "real_of_int ?c / real_of_int ?T" 1 "real_of_int ?Q"] Q(1) by simp
  note b = go_int64_bounds [OF x y iQ]
  show "0 \<le> CalculateNodeGlobalPoolShare chain i (Some gp)" using b(1) by (simp add: CalculateNodeGlobalPoolShare_def Let_def)
  show "real_of_int (CalculateNodeGlobalPoolShare chain i (Some gp)) * real_of_int ?T \<le> real_of_int ?c * real_of_int ?Q"
  proof (cases "?c \<le> 0")
    case True
    then show ?thesis using assms(3,5) by (simp add: CalculateNodeGlobalPoolShare_def)
  next
    case False
    then have "real_of_int (CalculateNodeGlobalPoolShare chain i (Some gp)) \<le> real_of_int ?c / real_of_int ?T * real_of_int ?Q"
      using b(3) assms(5) by (simp add: CalculateNodeGlobalPoolShare_def)
    then show ?thesis using assms(5) by (simp add: field_simps)
  qed
qed

lemma real_sum_times: "(\<Sum>x\<leftarrow>xs. real_of_int (f x) * c) = real_of_int (\<Sum>x\<leftarrow>xs. f x) * c"
  by (induction xs) (auto simp: distrib_right)

lemma sum64_exact:
  assumes "\<forall>x\<in>set xs. 0 \<le> x" and "sum_list xs < 2 ^ 63"
  shows "sum64 xs = sum_list xs"
proof -
  have "foldl (\<lambda>s x. i64 (s + x)) a ys = a + sum_list ys"
    if "0 \<le> a" "\<forall>y\<in>set ys. 0 \<le> y" "a + sum_list ys < 2 ^ 63" for a ys
    using that
  proof (induction ys arbitrary: a)
    case (Cons y ys)
    have "0 \<le> sum_list ys" using Cons.prems(2) by (simp add: sum_list_nonneg)
    then have "in_i64 (a + y)" using Cons.prems by (simp add: in_i64_def)
    then show ?case using Cons.IH [of "a + y"] Cons.prems by (simp add: add.assoc)
  qed simp
  from this [of 0 xs] assms show ?thesis by (simp add: sum64_def)
qed

text \<open>
  The shares fit into the pool. In every pool a node can have whose contributions sum to less than 2^63, the shares
  that the participants are told add up to at most the quota of the pool, and this is at most what is available.
\<close>

theorem pool_shares_fit:
  assumes "pool_reachable gp" and "(\<Sum>n\<leftarrow>GetNodes gp. pn_Contributed n) < 2 ^ 63"
    and "\<forall>c. chain = Some c \<longrightarrow> ap_GlobalPoolAvailabilityRatio (GetCurrentParams c) \<le> 1"
  shows "(\<Sum>n\<leftarrow>GetNodes gp. CalculateNodeGlobalPoolShare chain (pn_NodeID n) (Some gp)) \<le> CalculateGlobalPoolQuota chain (Some gp) \<and>
    CalculateGlobalPoolQuota chain (Some gp) \<le> gp_AvailableQuota gp"
proof -
  let ?ns = "GetNodes gp" and ?T = "gp_TotalContributed gp" and ?Q = "calculateGlobalPoolQuotaLocked chain gp"
  let ?share = "\<lambda>n. CalculateNodeGlobalPoolShare chain (pn_NodeID n) (Some gp)"
  have ok: "pool_ok gp" using pool_reachable_ok [OF assms(1)] by simp
  have row: "pn_Contributed n = gget0 0 (gp_NodeContributions gp) (pn_NodeID n)" "0 < pn_Contributed n" if "n \<in> set ?ns" for n
    using ok that by (auto simp: pool_ok_def books_ok_def members_ok_def pool_ids_def GetNodes_def globalPoolMinJoinContribution_def)
  have nonneg: "\<forall>x\<in>set (map pn_Contributed ?ns). 0 \<le> x" using row(2) by (auto intro: less_imp_le)
  have T: "?T = (\<Sum>n\<leftarrow>?ns. pn_Contributed n)"
    using ok sum64_exact [OF nonneg assms(2)] by (simp add: pool_ok_def books_ok_def GetNodes_def)
  have avail: "gp_AvailableQuota gp = max 0 (i64 (?T - gp_TotalConsumed gp))" using ok by (simp add: pool_ok_def books_ok_def)
  have ia: "in_i64 (gp_AvailableQuota gp)" using i64_range [of "?T - gp_TotalConsumed gp"] by (auto simp: avail in_i64_def)
  have ratio: "\<And>c. chain = Some c \<Longrightarrow> ap_GlobalPoolAvailabilityRatio (GetCurrentParams c) \<le> 1" using assms(3) by simp
  have Q: "0 \<le> ?Q" "?Q \<le> gp_AvailableQuota gp" using pool_quota_bounds [OF ia ratio] by (auto simp: avail max_def)
  have "(\<Sum>n\<leftarrow>?ns. ?share n) \<le> ?Q"
  proof (cases "?ns = []")
    case False
    then obtain n0 where n0: "n0 \<in> set ?ns" by (cases ?ns) auto
    have le: "pn_Contributed n \<le> ?T" if "n \<in> set ?ns" for n
      unfolding T using member_le_sum_list [of "pn_Contributed n" "map pn_Contributed ?ns"] nonneg that by auto
    have pos: "0 < ?T" using le [OF n0] row(2) [OF n0] by linarith
    have each: "real_of_int (?share n) * real_of_int ?T \<le> real_of_int (pn_Contributed n) * real_of_int ?Q" if "n \<in> set ?ns" for n
      using node_share_bound(1) [OF ia ratio _ _ pos, where i = "pn_NodeID n"] row [OF that] le [OF that] by simp
    have "(\<Sum>n\<leftarrow>?ns. real_of_int (?share n) * real_of_int ?T) \<le> (\<Sum>n\<leftarrow>?ns. real_of_int (pn_Contributed n) * real_of_int ?Q)"
      by (rule sum_list_mono) (rule each)
    also have "\<dots> = real_of_int ?T * real_of_int ?Q" unfolding T by (simp add: real_sum_times)
    finally have "real_of_int (\<Sum>n\<leftarrow>?ns. ?share n) * real_of_int ?T \<le> real_of_int ?Q * real_of_int ?T"
      by (simp add: real_sum_times mult.commute [of "real_of_int ?T"])
    then have "real_of_int (\<Sum>n\<leftarrow>?ns. ?share n) \<le> real_of_int ?Q" using pos by simp
    then show ?thesis by linarith
  qed (use Q in simp)
  then show ?thesis using Q by (simp add: CalculateGlobalPoolQuota_def)
qed

definition joined_pool :: GlobalPool where
  "joined_pool = pool_step (PoolJoin (io_fine True) 3 ''a'' ''eu'' 10000)
     (initGlobalPool (io_fine True) \<lparr>ds_json = Absent, ds_bak = False, ds_migrated = False\<rparr> Absent)"

lemma joined_pool_reachable: "pool_reachable joined_pool" and joined_pool_nodes: "map pn_Contributed (GetNodes joined_pool) = [10000]"
proof -
  let ?g = "initGlobalPool (io_fine True) \<lparr>ds_json = Absent, ds_bak = False, ds_migrated = False\<rparr> (Absent :: globalPoolStore stored_file)"
  have g: "gp_NodeContributions ?g = []" "gp_ParticipantNodes ?g = []"
    by (simp_all add: initGlobalPool_def io_fine_def gp_importToBbolt_def isMigrated_def markMigrated_def bakJSON_def
        gp_load_def gp_loadBbolt_def applyStore_def snapshotStore_def empty_pool_def Let_def)
  show "pool_reachable joined_pool"
    unfolding joined_pool_def by (intro pool_op pool_start) (simp add: g gget0_def)
  have "map pn_Contributed (GetNodes (pool_step (PoolJoin (io_fine True) 3 ''a'' ''eu'' 10000) h)) = [10000]"
    if "gp_NodeContributions h = []" "gp_ParticipantNodes h = []" for h
    using that by (simp add: GetNodes_def JoinPool_def doSave_def io_fine_def recalculateLocked_def recalc_node_def is_participant_def
        globalPoolMinJoinContribution_def Let_def gput_def gget0_def)
  then show "map pn_Contributed (GetNodes joined_pool) = [10000]" unfolding joined_pool_def using g by blast
qed

theorem pool_shares_fit_witness:
  "CalculateGlobalPoolQuota (Some NewAlgorithmChain) (Some joined_pool) \<le> gp_AvailableQuota joined_pool"
  using pool_shares_fit [OF joined_pool_reachable, of "Some NewAlgorithmChain"]
  by (simp add: joined_pool_nodes NewAlgorithmChain_def GetCurrentParams_def DefaultAlgorithmParams_def)

end
