(* ===== verification/Admin_Auth.thy ===== *)
theory Admin_Auth
  imports Field_Encryption Storage_Model Calendar
begin

text \<open>
  The account of the administrator (\<open>src/auth.go\<close>): set-up, passwords, collaborators, mail settings, reset tokens,
  reset codes, and the file that keeps them.

  \<open>bcrypt\<close> is a parameter: \<open>ae_bcrypt\<close> hashes a password (or fails) and \<open>ae_match\<close> compares a hash with a password. The
  random strings an operation draws, the time, the encryptor of fields and the outcome of the write are the other
  fields of its environment. Texts are byte strings, times are nanoseconds, and time stamps in text fields are \<open>stamp\<close>s.
\<close>

section \<open>Data\<close>

record AdminData =
  ad_Username :: string
  ad_PasswordHash :: string
  ad_Email :: string
  ad_CreatedAt :: stamp

record Collaborator =
  co_Username :: string
  co_PasswordHash :: string
  co_GuestKey :: string
  co_CreatedAt :: stamp
  co_LastLogin :: stamp

record SMTPConfig =
  sm_Host :: string
  sm_Port :: int
  sm_Username :: string
  sm_Password :: string
  sm_FromEmail :: string
  sm_UseTLS :: bool

record ResetToken =
  rt_Token :: string
  rt_Email :: string
  rt_Expire :: stamp
  rt_Used :: bool

record AdminStore =
  as_Admin :: AdminData
  as_JWTSecret :: string
  as_JWTRefreshSecret :: string
  as_SMTP :: SMTPConfig
  as_Reset :: "ResetToken option"
  as_Initialized :: bool
  as_ResetCodeHash :: string
  as_ResetCodeExpires :: stamp
  as_Collaborators :: "Collaborator list"

record Auth =
  au_data :: AdminStore
  au_file :: "AdminStore stored_file"

record auth_env =
  ae_now :: int
  ae_bcrypt :: "string \<Rightarrow> string option"
  ae_match :: "string \<Rightarrow> string \<Rightarrow> bool"
  ae_gcm :: aead
  ae_nonce :: "string option"
  ae_enc :: "Encryptor option"
  ae_io :: io_env
  ae_secret :: string          \<comment> \<open>\<open>randomString(64)\<close> for the access secret\<close>
  ae_refresh :: string         \<comment> \<open>\<open>randomString(64)\<close> for the refresh secret\<close>
  ae_token :: string           \<comment> \<open>\<open>randomString(32)\<close> for a reset token\<close>
  ae_code :: "string option"   \<comment> \<open>16 random bytes for a reset code, in base64\<close>

abbreviation au_hash :: "Auth \<Rightarrow> string" where
  "au_hash a \<equiv> ad_PasswordHash (as_Admin (au_data a))"

section \<open>The file\<close>

definition default_store :: "auth_env \<Rightarrow> AdminStore" where
  "default_store env = \<lparr>as_Admin = \<lparr>ad_Username = [], ad_PasswordHash = [], ad_Email = [], ad_CreatedAt = NoStamp\<rparr>,
     as_JWTSecret = ae_secret env, as_JWTRefreshSecret = ae_refresh env,
     as_SMTP = \<lparr>sm_Host = [], sm_Port = 587, sm_Username = [], sm_Password = [], sm_FromEmail = [], sm_UseTLS = True\<rparr>,
     as_Reset = None, as_Initialized = False, as_ResetCodeHash = [], as_ResetCodeExpires = NoStamp, as_Collaborators = []\<rparr>"

definition map_password :: "(string \<Rightarrow> string) \<Rightarrow> AdminStore \<Rightarrow> AdminStore" where
  "map_password f d = d\<lparr>as_SMTP := (as_SMTP d)\<lparr>sm_Password := f (sm_Password (as_SMTP d))\<rparr>\<rparr>"

definition safe_copy :: "auth_env \<Rightarrow> AdminStore \<Rightarrow> AdminStore" where
  "safe_copy env d =
     map_password (\<lambda>p. if p \<noteq> [] \<and> \<not> IsEncrypted p then encryptField (ae_gcm env) (ae_nonce env) (ae_enc env) p else p) d"

definition auth_saveLocked :: "auth_env \<Rightarrow> Auth \<Rightarrow> Auth" where
  "auth_saveLocked env a = a\<lparr>au_file := atomicWriteFile (ae_io env) (safe_copy env (au_data a)) (au_file a)\<rparr>"

text \<open>A change of the data together with the write of the file.\<close>

definition commit :: "auth_env \<Rightarrow> AdminStore \<Rightarrow> Auth \<Rightarrow> Auth" where
  "commit env d a = auth_saveLocked env (a\<lparr>au_data := d\<rparr>)"

lemma commit_data [simp]: "au_data (commit env d a) = d"
  by (simp add: commit_def auth_saveLocked_def)

definition ensure_secrets :: "auth_env \<Rightarrow> Auth \<Rightarrow> Auth" where
  "ensure_secrets env a =
     (let a1 = (if as_JWTSecret (au_data a) = [] then commit env ((au_data a)\<lparr>as_JWTSecret := ae_secret env\<rparr>) a else a)
      in if as_JWTRefreshSecret (au_data a1) = []
         then commit env ((au_data a1)\<lparr>as_JWTRefreshSecret := ae_refresh env\<rparr>) a1 else a1)"

definition auth_load :: "auth_env \<Rightarrow> AdminStore stored_file \<Rightarrow> Auth" where
  "auth_load env file =
     (case file of
        Absent \<Rightarrow> \<lparr>au_data = default_store env, au_file = file\<rparr>
      | Corrupt \<Rightarrow> auth_saveLocked env \<lparr>au_data = default_store env, au_file = file\<rparr>
      | Content d \<Rightarrow>
          let a = ensure_secrets env \<lparr>au_data = d, au_file = file\<rparr>
          in a\<lparr>au_data := map_password (\<lambda>p. if p \<noteq> [] \<and> IsEncrypted p then decryptFieldWith (ae_gcm env) (ae_enc env) p else p) (au_data a)\<rparr>)"

section \<open>Passwords\<close>

definition upper_char :: "char \<Rightarrow> bool" where "upper_char c \<longleftrightarrow> CHR ''A'' \<le> c \<and> c \<le> CHR ''Z''"
definition lower_char :: "char \<Rightarrow> bool" where "lower_char c \<longleftrightarrow> CHR ''a'' \<le> c \<and> c \<le> CHR ''z''"
definition digit_char :: "char \<Rightarrow> bool" where "digit_char c \<longleftrightarrow> CHR ''0'' \<le> c \<and> c \<le> CHR ''9''"

text \<open>
  The loop over the runes: a rune outside ASCII counts as special, and so does each of its bytes, so the loop over the
  bytes sets the same four flags.
\<close>

definition char_classes :: "string \<Rightarrow> bool \<times> bool \<times> bool \<times> bool" where
  "char_classes password =
     fold (\<lambda>ch (up, lo, di, sp).
             if upper_char ch then (True, lo, di, sp)
             else if lower_char ch then (up, True, di, sp)
             else if digit_char ch then (up, lo, True, sp)
             else (up, lo, di, True))
       password (False, False, False, False)"

definition validatePasswordStrength :: "string \<Rightarrow> string option" where
  "validatePasswordStrength password =
     (if length password < 12 then Some ''password must be at least 12 characters''
      else if length password > 128 then Some ''password must be at most 128 characters''
      else case char_classes password of
        (hasUpper, hasLower, hasDigit, hasSpecial) \<Rightarrow>
          if \<not> hasUpper \<or> \<not> hasLower \<or> \<not> hasDigit \<or> \<not> hasSpecial
          then Some ''password must contain uppercase, lowercase, digit, and special character''
          else None)"

text \<open>Checking the strength and hashing, as all operations that set a password do.\<close>

definition hash_password :: "auth_env \<Rightarrow> string \<Rightarrow> string + string" where
  "hash_password env password =
     (case validatePasswordStrength password of
        Some e \<Rightarrow> Inl e
      | None \<Rightarrow> (case ae_bcrypt env password of None \<Rightarrow> Inl ''failed to hash password'' | Some h \<Rightarrow> Inr h))"

definition set_hash :: "string \<Rightarrow> AdminStore \<Rightarrow> AdminStore" where
  "set_hash h d = d\<lparr>as_Admin := (as_Admin d)\<lparr>ad_PasswordHash := h\<rparr>\<rparr>"

definition Initialized :: "Auth \<Rightarrow> bool" where
  "Initialized a = as_Initialized (au_data a)"

definition SetupAdmin :: "auth_env \<Rightarrow> string \<Rightarrow> string \<Rightarrow> string \<Rightarrow> Auth \<Rightarrow> (string + unit) \<times> Auth" where
  "SetupAdmin env username password email a =
     (if as_Initialized (au_data a) then (Inl ''admin already initialized'', a)
      else if username = [] \<or> password = [] then (Inl ''username and password are required'', a)
      else case hash_password env password of
        Inl e \<Rightarrow> (Inl e, a)
      | Inr h \<Rightarrow>
          (Inr (), commit env ((au_data a)\<lparr>
             as_Admin := \<lparr>ad_Username = username, ad_PasswordHash = h, ad_Email = email, ad_CreatedAt = format_stamp (ae_now env)\<rparr>,
             as_Initialized := True\<rparr>) a))"

definition VerifyCredentials :: "auth_env \<Rightarrow> string \<Rightarrow> string \<Rightarrow> Auth \<Rightarrow> bool" where
  "VerifyCredentials env username password a =
     (if \<not> as_Initialized (au_data a) \<or> ad_Username (as_Admin (au_data a)) \<noteq> username then False
      else ae_match env (au_hash a) password)"

definition ChangePassword :: "auth_env \<Rightarrow> string \<Rightarrow> string \<Rightarrow> Auth \<Rightarrow> (string + unit) \<times> Auth" where
  "ChangePassword env oldPass newPass a =
     (if \<not> as_Initialized (au_data a) \<or> ad_Username (as_Admin (au_data a)) = [] then (Inl ''admin not initialized'', a)
      else if \<not> ae_match env (au_hash a) oldPass then (Inl ''incorrect old password'', a)
      else case hash_password env newPass of
        Inl e \<Rightarrow> (Inl e, a)
      | Inr h \<Rightarrow> (Inr (), commit env (set_hash h (au_data a)) a))"

section \<open>Collaborators\<close>

fun taken :: "string \<Rightarrow> string \<Rightarrow> Collaborator list \<Rightarrow> string option" where
  "taken username guestKey [] = None"
| "taken username guestKey (c # cs) =
     (if co_Username c = username then Some ''username already taken''
      else if co_GuestKey c = guestKey then Some ''this guest key is already registered''
      else taken username guestKey cs)"

definition RegisterCollaborator :: "auth_env \<Rightarrow> string \<Rightarrow> string \<Rightarrow> string \<Rightarrow> Auth \<Rightarrow> (string + unit) \<times> Auth" where
  "RegisterCollaborator env username password guestKey a =
     (if username = [] \<or> password = [] \<or> guestKey = [] then (Inl ''username, password and guest_key are required'', a)
      else if length (as_Collaborators (au_data a)) \<ge> 20 then (Inl ''maximum collaborator count (20) reached'', a)
      else if ad_Username (as_Admin (au_data a)) = username then (Inl ''username already taken'', a)
      else case taken username guestKey (as_Collaborators (au_data a)) of
        Some e \<Rightarrow> (Inl e, a)
      | None \<Rightarrow>
          (case hash_password env password of
             Inl e \<Rightarrow> (Inl e, a)
           | Inr h \<Rightarrow>
               (Inr (), commit env ((au_data a)\<lparr>as_Collaborators := as_Collaborators (au_data a) @
                  [\<lparr>co_Username = username, co_PasswordHash = h, co_GuestKey = guestKey,
                    co_CreatedAt = format_stamp (ae_now env), co_LastLogin = NoStamp\<rparr>]\<rparr>) a)))"

definition VerifyCollaboratorCredentials :: "auth_env \<Rightarrow> string \<Rightarrow> string \<Rightarrow> Auth \<Rightarrow> Collaborator option" where
  "VerifyCollaboratorCredentials env username password a =
     (case find (\<lambda>c. co_Username c = username) (as_Collaborators (au_data a)) of
        None \<Rightarrow> None
      | Some c \<Rightarrow> if ae_match env (co_PasswordHash c) password then Some c else None)"

section \<open>Mail\<close>

definition GetEmail :: "Auth \<Rightarrow> string" where
  "GetEmail a = ad_Email (as_Admin (au_data a))"

definition AdminInfo :: "Auth \<Rightarrow> string \<times> string \<times> stamp" where
  "AdminInfo a = (ad_Username (as_Admin (au_data a)), ad_Email (as_Admin (au_data a)), ad_CreatedAt (as_Admin (au_data a)))"

definition UpdateEmail :: "auth_env \<Rightarrow> string \<Rightarrow> Auth \<Rightarrow> Auth" where
  "UpdateEmail env email a =
     commit env ((au_data a)\<lparr>as_Admin := (as_Admin (au_data a))\<lparr>ad_Email := email\<rparr>\<rparr>) a"

definition GetSMTP :: "Auth \<Rightarrow> SMTPConfig" where
  "GetSMTP a = as_SMTP (au_data a)"

definition IsSMTPConfigured :: "Auth \<Rightarrow> bool" where
  "IsSMTPConfigured a \<longleftrightarrow> sm_Host (GetSMTP a) \<noteq> [] \<and> sm_Username (GetSMTP a) \<noteq> [] \<and> sm_FromEmail (GetSMTP a) \<noteq> []"

definition UpdateSMTP :: "auth_env \<Rightarrow> SMTPConfig \<Rightarrow> Auth \<Rightarrow> Auth" where
  "UpdateSMTP env c a = commit env ((au_data a)\<lparr>as_SMTP := c\<rparr>) a"

section \<open>Reset tokens\<close>

definition minutes30 :: int where "minutes30 = 30 * 60 * 1000000000"
definition hours24 :: int where "hours24 = 24 * 3600 * 1000000000"

definition reset_open :: "int \<Rightarrow> ResetToken option \<Rightarrow> bool" where
  "reset_open now r = (case r of None \<Rightarrow> False | Some t \<Rightarrow> \<not> rt_Used t \<and> (case rt_Expire t of Stamp e \<Rightarrow> now < e | _ \<Rightarrow> False))"

definition CreateResetToken :: "auth_env \<Rightarrow> Auth \<Rightarrow> string \<times> Auth" where
  "CreateResetToken env a =
     (case as_Reset (au_data a) of
        Some t \<Rightarrow>
          if reset_open (ae_now env) (Some t) then (rt_Token t, a)
          else (ae_token env, commit env ((au_data a)\<lparr>as_Reset := Some \<lparr>rt_Token = ae_token env,
                  rt_Email = ad_Email (as_Admin (au_data a)), rt_Expire = format_stamp (ae_now env + minutes30), rt_Used = False\<rparr>\<rparr>) a)
      | None \<Rightarrow> (ae_token env, commit env ((au_data a)\<lparr>as_Reset := Some \<lparr>rt_Token = ae_token env,
                  rt_Email = ad_Email (as_Admin (au_data a)), rt_Expire = format_stamp (ae_now env + minutes30), rt_Used = False\<rparr>\<rparr>) a))"

definition verifyResetTokenLocked :: "int \<Rightarrow> string \<Rightarrow> Auth \<Rightarrow> bool" where
  "verifyResetTokenLocked now tok a =
     (case as_Reset (au_data a) of
        None \<Rightarrow> False
      | Some r \<Rightarrow>
          if rt_Used r then False
          else if rt_Token r \<noteq> tok then False
          else (case rt_Expire r of Stamp e \<Rightarrow> \<not> now > e | _ \<Rightarrow> False))"

definition ResetPassword :: "auth_env \<Rightarrow> string \<Rightarrow> string \<Rightarrow> Auth \<Rightarrow> (string + unit) \<times> Auth" where
  "ResetPassword env tok newPass a =
     (if \<not> verifyResetTokenLocked (ae_now env) tok a then (Inl ''invalid or expired reset token'', a)
      else case hash_password env newPass of
        Inl e \<Rightarrow> (Inl e, a)
      | Inr h \<Rightarrow>
          (Inr (), commit env ((set_hash h (au_data a))\<lparr>
             as_Reset := map_option (\<lambda>r. r\<lparr>rt_Used := True\<rparr>) (as_Reset (au_data a))\<rparr>) a))"

section \<open>Reset codes\<close>

definition GenerateResetCode :: "auth_env \<Rightarrow> Auth \<Rightarrow> (string + string \<times> int) \<times> Auth" where
  "GenerateResetCode env a =
     (case ae_code env of
        None \<Rightarrow> (Inl ''failed to generate reset code'', a)
      | Some code \<Rightarrow>
          (case ae_bcrypt env code of
             None \<Rightarrow> (Inl ''failed to hash reset code'', a)
           | Some h \<Rightarrow>
               let expires = ae_now env + hours24
               in (Inr (code, expires), commit env ((au_data a)\<lparr>as_ResetCodeHash := h,
                     as_ResetCodeExpires := format_stamp expires\<rparr>) a)))"

definition checkResetCodeLocked :: "auth_env \<Rightarrow> string \<Rightarrow> Auth \<Rightarrow> string option" where
  "checkResetCodeLocked env code a =
     (if as_ResetCodeHash (au_data a) = [] then Some ''no reset code configured''
      else if (case as_ResetCodeExpires (au_data a) of NoStamp \<Rightarrow> False | BadStamp \<Rightarrow> True | Stamp e \<Rightarrow> ae_now env > e)
      then Some ''reset code has expired''
      else if \<not> ae_match env (as_ResetCodeHash (au_data a)) code then Some ''invalid reset code''
      else None)"

text \<open>Validating repeats the checks of \<open>checkResetCodeLocked\<close> and removes the code.\<close>

definition ValidateAndConsumeResetCode :: "auth_env \<Rightarrow> string \<Rightarrow> Auth \<Rightarrow> (string + bool) \<times> Auth" where
  "ValidateAndConsumeResetCode env code a =
     (if as_ResetCodeHash (au_data a) = [] then (Inl ''no reset code configured'', a)
      else if (case as_ResetCodeExpires (au_data a) of NoStamp \<Rightarrow> False | BadStamp \<Rightarrow> True | Stamp e \<Rightarrow> ae_now env > e)
      then (Inl ''reset code has expired'', a)
      else if \<not> ae_match env (as_ResetCodeHash (au_data a)) code then (Inl ''invalid reset code'', a)
      else (Inr True, commit env ((au_data a)\<lparr>as_ResetCodeHash := [], as_ResetCodeExpires := NoStamp\<rparr>) a))"

definition ResetPasswordWithCode :: "auth_env \<Rightarrow> string \<Rightarrow> string \<Rightarrow> Auth \<Rightarrow> (string + unit) \<times> Auth" where
  "ResetPasswordWithCode env code newPass a =
     (case checkResetCodeLocked env code a of
        Some e \<Rightarrow> (Inl e, a)
      | None \<Rightarrow>
          (case hash_password env newPass of
             Inl e \<Rightarrow> (Inl e, a)
           | Inr h \<Rightarrow>
               (Inr (), commit env ((set_hash h (au_data a))\<lparr>as_Reset := None, as_ResetCodeHash := [],
                  as_ResetCodeExpires := NoStamp\<rparr>) a)))"

definition HasResetCode :: "Auth \<Rightarrow> bool" where
  "HasResetCode a \<longleftrightarrow> as_ResetCodeHash (au_data a) \<noteq> []"

section \<open>Operations\<close>

datatype auth_op =
    SetupOp string string string
  | RegisterOp string string string
  | ChangeOp string string
  | EmailOp string
  | SmtpOp SMTPConfig
  | NewTokenOp
  | ResetOp string string
  | NewCodeOp
  | ConsumeOp string
  | CodeResetOp string string
  | RestartOp

fun auth_exec :: "auth_op \<Rightarrow> auth_env \<Rightarrow> Auth \<Rightarrow> Auth" where
  "auth_exec (SetupOp u p e) env a = snd (SetupAdmin env u p e a)"
| "auth_exec (RegisterOp u p g) env a = snd (RegisterCollaborator env u p g a)"
| "auth_exec (ChangeOp p q) env a = snd (ChangePassword env p q a)"
| "auth_exec (EmailOp e) env a = UpdateEmail env e a"
| "auth_exec (SmtpOp c) env a = UpdateSMTP env c a"
| "auth_exec NewTokenOp env a = snd (CreateResetToken env a)"
| "auth_exec (ResetOp t p) env a = snd (ResetPassword env t p a)"
| "auth_exec NewCodeOp env a = snd (GenerateResetCode env a)"
| "auth_exec (ConsumeOp c) env a = snd (ValidateAndConsumeResetCode env c a)"
| "auth_exec (CodeResetOp c p) env a = snd (ResetPasswordWithCode env c p a)"
| "auth_exec RestartOp env a = auth_load env (au_file a)"

lemma auth_saveLocked_data [simp]: "au_data (auth_saveLocked env a) = au_data a"
  by (simp add: auth_saveLocked_def)

text \<open>Every operation but a restart leaves everything alone or commits new data.\<close>

definition commits :: "auth_env \<Rightarrow> Auth \<Rightarrow> Auth \<Rightarrow> bool" where
  "commits env a a' \<longleftrightarrow> a' = a \<or> (\<exists>d. a' = commit env d a)"

lemma commits_refl [simp]: "commits env a a" and commits_commit [simp]: "commits env a (commit env d a)"
  by (auto simp: commits_def)

lemma exec_commits: "op \<noteq> RestartOp \<Longrightarrow> commits env a (auth_exec op env a)"
  by (cases op)
    (simp_all add: SetupAdmin_def RegisterCollaborator_def ChangePassword_def UpdateEmail_def UpdateSMTP_def CreateResetToken_def ResetPassword_def
      GenerateResetCode_def ValidateAndConsumeResetCode_def ResetPasswordWithCode_def Let_def split: sum.splits option.splits)

lemma commit_synced_file [simp]: "au_file (commit env d a) = atomicWriteFile (ae_io env) (safe_copy env d) (au_file a)"
  by (simp add: commit_def auth_saveLocked_def)

section \<open>The password policy\<close>

lemma char_classes_loop:
  "fold (\<lambda>ch (up, lo, di, sp).
             if upper_char ch then (True, lo, di, sp)
             else if lower_char ch then (up, True, di, sp)
             else if digit_char ch then (up, lo, True, sp)
             else (up, lo, di, True)) p (u, l, d, s) =
     (u \<or> (\<exists>c\<in>set p. upper_char c), l \<or> (\<exists>c\<in>set p. lower_char c), d \<or> (\<exists>c\<in>set p. digit_char c),
      s \<or> (\<exists>c\<in>set p. \<not> upper_char c \<and> \<not> lower_char c \<and> \<not> digit_char c))"
proof (induction p arbitrary: u l d s)
  case (Cons c p)
  have "upper_char c \<Longrightarrow> \<not> lower_char c \<and> \<not> digit_char c" "lower_char c \<Longrightarrow> \<not> digit_char c"
    by (auto simp: upper_char_def lower_char_def digit_char_def less_eq_char_def)
  then show ?case using Cons by (cases "upper_char c"; cases "lower_char c"; cases "digit_char c") simp_all
qed simp

text \<open>
  The password policy. A password is accepted exactly if it has 12 to 128 bytes and among them an upper case letter, a lower case
  letter, a digit and something else.
\<close>

theorem password_policy:
  "validatePasswordStrength p = None \<longleftrightarrow>
     12 \<le> length p \<and> length p \<le> 128 \<and> (\<exists>c\<in>set p. upper_char c) \<and> (\<exists>c\<in>set p. lower_char c) \<and> (\<exists>c\<in>set p. digit_char c) \<and>
     (\<exists>c\<in>set p. \<not> upper_char c \<and> \<not> lower_char c \<and> \<not> digit_char c)"
  by (auto simp: validatePasswordStrength_def char_classes_def char_classes_loop)

text \<open>
  The library refuses to hash more than 72 bytes, so the accepted lengths of 73 to 128 end in an error after the check.
\<close>

lemma long_password_refused:
  assumes "\<forall>p. 72 < length p \<longrightarrow> ae_bcrypt env p = None" and "72 < length p"
  shows "hash_password env p \<noteq> Inr h"
  using assms by (auto simp: hash_password_def split: option.splits)

lemma hash_password_Inr: "hash_password env p = Inr h \<longleftrightarrow> validatePasswordStrength p = None \<and> ae_bcrypt env p = Some h"
  by (auto simp: hash_password_def split: option.splits)

section \<open>Who can change the password\<close>

lemma set_hash_simps [simp]:
  "ad_PasswordHash (as_Admin (set_hash h d)) = h" "ad_Username (as_Admin (set_hash h d)) = ad_Username (as_Admin d)"
  "as_Initialized (set_hash h d) = as_Initialized d" "as_Reset (set_hash h d) = as_Reset d" "as_SMTP (set_hash h d) = as_SMTP d"
  "as_JWTSecret (set_hash h d) = as_JWTSecret d" "as_JWTRefreshSecret (set_hash h d) = as_JWTRefreshSecret d"
  "as_Collaborators (set_hash h d) = as_Collaborators d" "as_ResetCodeHash (set_hash h d) = as_ResetCodeHash d"
  "as_ResetCodeExpires (set_hash h d) = as_ResetCodeExpires d"
  by (simp_all add: set_hash_def)

lemma safe_copy_admin [simp]: "as_Admin (safe_copy env d) = as_Admin d"
  by (simp add: safe_copy_def map_password_def)

text \<open>What a restart makes of the hash: that of the file, or none when there is no file or it cannot be decoded.\<close>

lemma load_hash:
  "au_hash (auth_load env f) = (case f of Content d \<Rightarrow> ad_PasswordHash (as_Admin d) | _ \<Rightarrow> [])"
  by (auto simp: auth_load_def default_store_def ensure_secrets_def map_password_def Let_def split: stored_file.split)

text \<open>The hash that gets into the file is the one in memory.\<close>

lemma file_hash:
  assumes "au_file (auth_exec op env a) = Content d" and "au_file a \<noteq> Content d"
  shows "ad_PasswordHash (as_Admin d) = au_hash (auth_exec op env a)"
proof (cases "op = RestartOp")
  case True
  then show ?thesis using assms
    by (cases "au_file a") (auto simp: load_hash auth_load_def auth_saveLocked_def atomicWriteFile_def ensure_secrets_def
        default_store_def map_password_def Let_def split: if_splits)
next
  case False
  from exec_commits [OF this, of env a] assms show ?thesis
    by (auto simp: commits_def atomicWriteFile_def split: if_splits)
qed

lemma hash_change_authorised:
  assumes "op \<noteq> RestartOp" and "au_hash (auth_exec op env a) \<noteq> au_hash a"
  shows "\<exists>new. validatePasswordStrength new = None \<and> ae_bcrypt env new = Some (au_hash (auth_exec op env a)) \<and>
    ((\<exists>u e. op = SetupOp u new e \<and> \<not> Initialized a) \<or>
     (\<exists>old. op = ChangeOp old new \<and> Initialized a \<and> ae_match env (au_hash a) old) \<or>
     (\<exists>tok r. op = ResetOp tok new \<and> as_Reset (au_data a) = Some r \<and> rt_Token r = tok \<and> \<not> rt_Used r \<and>
        (\<exists>e. rt_Expire r = Stamp e \<and> ae_now env \<le> e)) \<or>
     (\<exists>code. op = CodeResetOp code new \<and> HasResetCode a \<and> ae_match env (as_ResetCodeHash (au_data a)) code \<and>
        (\<forall>e. as_ResetCodeExpires (au_data a) = Stamp e \<longrightarrow> ae_now env \<le> e)))"
proof (cases op)
  case (SetupOp u p e)
  then show ?thesis using assms(2)
    by (auto simp: SetupAdmin_def Initialized_def hash_password_def split: if_splits option.splits)
next
  case (ChangeOp p q)
  then show ?thesis using assms(2)
    by (auto simp: ChangePassword_def Initialized_def hash_password_def split: if_splits option.splits)
next
  case (ResetOp t p)
  then show ?thesis using assms(2)
    by (auto simp: ResetPassword_def verifyResetTokenLocked_def hash_password_def split: if_splits option.splits stamp.splits)
next
  case (CodeResetOp c p)
  then show ?thesis using assms(2)
    by (auto simp: ResetPasswordWithCode_def checkResetCodeLocked_def HasResetCode_def hash_password_def
        split: if_splits option.splits stamp.splits)
qed (use assms in \<open>simp_all add: RegisterCollaborator_def UpdateEmail_def UpdateSMTP_def CreateResetToken_def GenerateResetCode_def
      ValidateAndConsumeResetCode_def Let_def split: sum.splits option.splits if_splits\<close>)

text \<open>
  (C10) Who can change the password. When an operation changes the stored hash, the new one is that of a password that
  satisfies the policy, and the operation is the first set-up, a change by someone who knows the old password, a
  reset with the stored, unused and unexpired token, or a reset with the stored and unexpired code; or it is a restart, and the hash is the
  one in the file, or none when the file is missing or cannot be decoded. What an operation or a restart writes to the file
  carries the hash in memory.
\<close>

theorem password_changes_authorised:
  "(au_hash (auth_exec op env a) \<noteq> au_hash a \<longrightarrow>
    (op = RestartOp \<and> au_hash (auth_exec op env a) = (case au_file a of Content d \<Rightarrow> ad_PasswordHash (as_Admin d) | _ \<Rightarrow> [])) \<or>
    (\<exists>new. validatePasswordStrength new = None \<and> ae_bcrypt env new = Some (au_hash (auth_exec op env a)) \<and>
      ((\<exists>u e. op = SetupOp u new e \<and> \<not> Initialized a) \<or>
       (\<exists>old. op = ChangeOp old new \<and> Initialized a \<and> ae_match env (au_hash a) old) \<or>
       (\<exists>tok r. op = ResetOp tok new \<and> as_Reset (au_data a) = Some r \<and> rt_Token r = tok \<and> \<not> rt_Used r \<and>
          (\<exists>e. rt_Expire r = Stamp e \<and> ae_now env \<le> e)) \<or>
       (\<exists>code. op = CodeResetOp code new \<and> HasResetCode a \<and> ae_match env (as_ResetCodeHash (au_data a)) code \<and>
          (\<forall>e. as_ResetCodeExpires (au_data a) = Stamp e \<longrightarrow> ae_now env \<le> e))))) \<and>
    (\<forall>d. au_file (auth_exec op env a) = Content d \<and> au_file a \<noteq> Content d \<longrightarrow>
      ad_PasswordHash (as_Admin d) = au_hash (auth_exec op env a))"
proof (cases "op = RestartOp")
  case True
  then show ?thesis using file_hash [of op env a] by (simp add: load_hash)
next
  case False
  then show ?thesis using file_hash [of op env a] hash_change_authorised [OF False, of env a] by blast
qed

section \<open>Runs with restarts\<close>

text \<open>
  The environments of a run share the encryptor and let every write succeed; no mail password that is entered has the
  form of an encrypted one.
\<close>

definition env_ok :: "aead \<Rightarrow> Encryptor option \<Rightarrow> auth_env \<Rightarrow> bool" where
  "env_ok gcm enc env \<longleftrightarrow> ae_gcm env = gcm \<and> ae_enc env = enc \<and> nonce_ok (ae_nonce env) \<and> io_write (ae_io env) \<and>
     ae_secret env \<noteq> [] \<and> ae_refresh env \<noteq> []"

fun op_plain :: "auth_op \<Rightarrow> bool" where
  "op_plain (SmtpOp c) \<longleftrightarrow> \<not> IsEncrypted (sm_Password c)"
| "op_plain _ \<longleftrightarrow> True"

definition auth_run :: "(auth_op \<times> auth_env) list \<Rightarrow> Auth \<Rightarrow> Auth" where
  "auth_run ops a = fold (\<lambda>(op, env). auth_exec op env) ops a"

definition run_ok :: "aead \<Rightarrow> Encryptor option \<Rightarrow> (auth_op \<times> auth_env) list \<Rightarrow> bool" where
  "run_ok gcm enc ops \<longleftrightarrow> (\<forall>(op, env)\<in>set ops. env_ok gcm enc env \<and> op_plain op)"

definition decrypt_password :: "aead \<Rightarrow> Encryptor option \<Rightarrow> AdminStore \<Rightarrow> AdminStore" where
  "decrypt_password gcm enc = map_password (\<lambda>p. if p \<noteq> [] \<and> IsEncrypted p then decryptFieldWith gcm enc p else p)"

text \<open>Nothing was saved yet, and nothing is lost when the defaults are drawn again.\<close>

definition blank_store :: "AdminStore \<Rightarrow> bool" where
  "blank_store d \<longleftrightarrow> (\<exists>env. d = default_store env)"

definition synced :: "aead \<Rightarrow> Encryptor option \<Rightarrow> Auth \<Rightarrow> bool" where
  "synced gcm enc a \<longleftrightarrow>
     \<not> IsEncrypted (sm_Password (as_SMTP (au_data a))) \<and> as_JWTSecret (au_data a) \<noteq> [] \<and> as_JWTRefreshSecret (au_data a) \<noteq> [] \<and>
     (case au_file a of Absent \<Rightarrow> blank_store (au_data a) | Corrupt \<Rightarrow> False | Content d \<Rightarrow> decrypt_password gcm enc d = au_data a)"

lemma map_password_simps [simp]:
  "as_Admin (map_password f d) = as_Admin d" "as_JWTSecret (map_password f d) = as_JWTSecret d"
  "as_JWTRefreshSecret (map_password f d) = as_JWTRefreshSecret d" "as_Reset (map_password f d) = as_Reset d"
  "as_Initialized (map_password f d) = as_Initialized d" "as_ResetCodeHash (map_password f d) = as_ResetCodeHash d"
  "as_ResetCodeExpires (map_password f d) = as_ResetCodeExpires d" "as_Collaborators (map_password f d) = as_Collaborators d"
  "sm_Password (as_SMTP (map_password f d)) = f (sm_Password (as_SMTP d))"
  by (simp_all add: map_password_def)

lemma map_password_twice: "map_password f (map_password g d) = map_password (\<lambda>p. f (g p)) d"
  by (simp add: map_password_def)

lemma map_password_id: "f (sm_Password (as_SMTP d)) = sm_Password (as_SMTP d) \<Longrightarrow> map_password f d = d"
  by (simp add: map_password_def)

lemma not_encrypted_Nil [simp]: "\<not> IsEncrypted []"
  by (simp add: IsEncrypted_def encPrefix_def)

lemma decrypt_safe_copy:
  assumes "opens_sealed gcm" and "env_ok gcm enc env" and "\<not> IsEncrypted (sm_Password (as_SMTP d))"
  shows "decrypt_password gcm enc (safe_copy env d) = d"
proof -
  let ?p = "sm_Password (as_SMTP d)"
  have "decryptFieldWith gcm enc (encryptField gcm (ae_nonce env) enc ?p) = ?p"
    using decrypt_encryptField [OF assms(1) _ assms(3)] assms(2) by (simp add: env_ok_def)
  moreover have "decryptFieldWith gcm enc q = q" if "\<not> IsEncrypted q" for q
    using that by (simp add: decryptFieldWith_def split: option.split)
  ultimately show ?thesis
    using assms(2,3) unfolding decrypt_password_def safe_copy_def map_password_twice
    by (intro map_password_id) (auto simp: env_ok_def)
qed

lemma synced_commit:
  assumes "opens_sealed gcm" and "env_ok gcm enc env" and "\<not> IsEncrypted (sm_Password (as_SMTP d))"
    and "as_JWTSecret d \<noteq> []" and "as_JWTRefreshSecret d \<noteq> []"
  shows "synced gcm enc (commit env d a)"
  using assms decrypt_safe_copy [OF assms(1-3)] by (simp add: synced_def atomicWriteFile_def env_ok_def)

lemma exec_keeps_secrets:
  assumes "op \<noteq> RestartOp"
  shows "as_JWTSecret (au_data (auth_exec op env a)) = as_JWTSecret (au_data a)"
    and "as_JWTRefreshSecret (au_data (auth_exec op env a)) = as_JWTRefreshSecret (au_data a)"
    and "op_plain op \<Longrightarrow> \<not> IsEncrypted (sm_Password (as_SMTP (au_data a))) \<Longrightarrow> \<not> IsEncrypted (sm_Password (as_SMTP (au_data (auth_exec op env a))))"
  using assms
  by (cases op; simp add: SetupAdmin_def RegisterCollaborator_def ChangePassword_def UpdateEmail_def UpdateSMTP_def CreateResetToken_def ResetPassword_def
      GenerateResetCode_def ValidateAndConsumeResetCode_def ResetPasswordWithCode_def Let_def split: sum.splits option.splits)+

lemma load_synced:
  assumes "synced gcm enc a" and "env_ok gcm enc env"
  shows "synced gcm enc (auth_load env (au_file a))"
    and "au_data (auth_load env (au_file a)) = (if au_file a = Absent then default_store env else au_data a)"
proof -
  have "synced gcm enc (auth_load env (au_file a)) \<and>
      au_data (auth_load env (au_file a)) = (if au_file a = Absent then default_store env else au_data a)"
  proof (cases "au_file a")
    case Absent
    then show ?thesis using assms(2) by (auto simp: auth_load_def synced_def default_store_def env_ok_def blank_store_def)
  next
    case Corrupt
    then show ?thesis using assms(1) by (simp add: synced_def)
  next
    case (Content d)
    then have d: "decrypt_password gcm enc d = au_data a" using assms(1) by (simp add: synced_def)
    have "as_JWTSecret d \<noteq> []" "as_JWTRefreshSecret d \<noteq> []"
      using assms(1) d [symmetric] by (simp_all add: synced_def decrypt_password_def)
    moreover have e: "gcm = ae_gcm env" "enc = ae_enc env" using assms(2) by (simp_all add: env_ok_def)
    ultimately have "auth_load env (au_file a) = \<lparr>au_data = au_data a, au_file = au_file a\<rparr>"
      using d unfolding decrypt_password_def e by (simp add: auth_load_def Content ensure_secrets_def Let_def)
    then show ?thesis using assms(1) Content by (simp add: synced_def)
  qed
  then show "synced gcm enc (auth_load env (au_file a))"
    and "au_data (auth_load env (au_file a)) = (if au_file a = Absent then default_store env else au_data a)" by blast+
qed

lemma exec_synced:
  assumes "opens_sealed gcm" and "synced gcm enc a" and "env_ok gcm enc env" and "op_plain op"
  shows "synced gcm enc (auth_exec op env a)"
proof (cases "op = RestartOp")
  case True
  then show ?thesis using load_synced(1) [OF assms(2,3)] by simp
next
  case False
  have s: "as_JWTSecret (au_data a) \<noteq> []" "as_JWTRefreshSecret (au_data a) \<noteq> []" "\<not> IsEncrypted (sm_Password (as_SMTP (au_data a)))"
    using assms(2) by (simp_all add: synced_def)
  from exec_commits [OF False, of env a] consider "auth_exec op env a = a" | d where "auth_exec op env a = commit env d a"
    by (auto simp: commits_def)
  then show ?thesis
  proof cases
    case 2
    note k = exec_keeps_secrets [OF False, where env = env and a = a]
    show ?thesis unfolding 2
      by (rule synced_commit [OF assms(1,3)]) (use k [unfolded 2] s assms(4) in simp_all)
  qed (simp add: assms(2))
qed

lemma run_induct:
  assumes "opens_sealed gcm" and "run_ok gcm enc ops" and "synced gcm enc a" and "P a"
    and "\<And>op env a. (op, env) \<in> set ops \<Longrightarrow> op \<noteq> RestartOp \<Longrightarrow> P a \<Longrightarrow> P (auth_exec op env a)"
    and "\<And>env a. (RestartOp, env) \<in> set ops \<Longrightarrow> P a \<Longrightarrow> synced gcm enc a \<Longrightarrow>
       au_data (auth_exec RestartOp env a) = (if au_file a = Absent then default_store env else au_data a) \<Longrightarrow> P (auth_exec RestartOp env a)"
  shows "P (auth_run ops a) \<and> synced gcm enc (auth_run ops a)"
  using assms(2-)
proof (induction ops arbitrary: a)
  case (Cons x ops)
  obtain op env where x: "x = (op, env)" by force
  have ok: "env_ok gcm enc env" "op_plain op" "run_ok gcm enc ops" using Cons.prems(1) by (auto simp: run_ok_def x)
  have "synced gcm enc (auth_exec op env a)" by (rule exec_synced [OF assms(1) Cons.prems(2) ok(1,2)])
  moreover have "P (auth_exec op env a)"
  proof (cases "op = RestartOp")
    case True
    then show ?thesis using Cons.prems(5) [of env a] Cons.prems(2,3) load_synced(2) [OF Cons.prems(2) ok(1)] by (simp add: x)
  next
    case False
    then show ?thesis using Cons.prems(3,4) by (simp add: x)
  qed
  ultimately have "P (auth_run ops (auth_exec op env a)) \<and> synced gcm enc (auth_run ops (auth_exec op env a))"
  proof (rule Cons.IH [OF ok(3)], goal_cases)
    case (1 op env a)
    show ?case by (rule Cons.prems(4)) (use 1 in simp_all)
  next
    case (2 env a)
    show ?case by (rule Cons.prems(5)) (use 2 in simp_all)
  qed
  then show ?case by (simp add: auth_run_def x)
qed (simp add: auth_run_def)

lemmas auth_defs = SetupAdmin_def RegisterCollaborator_def ChangePassword_def UpdateEmail_def UpdateSMTP_def CreateResetToken_def
  ResetPassword_def GenerateResetCode_def ValidateAndConsumeResetCode_def ResetPasswordWithCode_def Let_def

lemma default_store_simps [simp]:
  "as_Initialized (default_store env) = False" "as_Reset (default_store env) = None" "as_ResetCodeHash (default_store env) = []"
  "as_Collaborators (default_store env) = []" "ad_Username (as_Admin (default_store env)) = []"
  by (simp_all add: default_store_def)

lemma blank_data: "synced gcm enc a \<Longrightarrow> au_file a = Absent \<Longrightarrow> \<exists>env. au_data a = default_store env"
  by (simp add: synced_def blank_store_def)

text \<open>
  (C39) The set-up happens once. Once the administrator exists, no sequence of operations and restarts, with successful
  writes, undoes that, changes the user name, or lets another set-up succeed.
\<close>

theorem admin_set_up_once:
  assumes "opens_sealed gcm" and "run_ok gcm enc ops" and "synced gcm enc a" and "Initialized a"
  shows "Initialized (auth_run ops a) \<and> ad_Username (as_Admin (au_data (auth_run ops a))) = ad_Username (as_Admin (au_data a)) \<and>
    SetupAdmin env u p e (auth_run ops a) = (Inl ''admin already initialized'', auth_run ops a)"
proof -
  let ?P = "\<lambda>b :: Auth. Initialized b \<and> ad_Username (as_Admin (au_data b)) = ad_Username (as_Admin (au_data a))"
  have "?P (auth_run ops a) \<and> synced gcm enc (auth_run ops a)"
  proof (rule run_induct [OF assms(1-3)])
    fix op env b assume "op \<noteq> RestartOp" "?P b"
    then show "?P (auth_exec op env b)"
      by (cases op) (simp_all add: auth_defs Initialized_def split: sum.splits option.splits)
  next
    fix env b assume "?P b" "synced gcm enc b"
      "au_data (auth_exec RestartOp env b) = (if au_file b = Absent then default_store env else au_data b)"
    moreover from this have "au_file b \<noteq> Absent" using blank_data [of gcm enc b] by (auto simp: Initialized_def)
    ultimately show "?P (auth_exec RestartOp env b)" by (simp add: Initialized_def)
  qed (use assms(4) in simp_all)
  then show ?thesis by (simp add: SetupAdmin_def Initialized_def)
qed

section \<open>Tokens and codes are used once\<close>

definition token_dead :: "string \<Rightarrow> Auth \<Rightarrow> bool" where
  "token_dead tok a \<longleftrightarrow> (case as_Reset (au_data a) of None \<Rightarrow> True | Some r \<Rightarrow> rt_Used r \<or> rt_Token r \<noteq> tok)"

lemma token_dead_verify: "token_dead tok a \<Longrightarrow> \<not> verifyResetTokenLocked now tok a"
  by (auto simp: token_dead_def verifyResetTokenLocked_def split: option.splits)

lemma ResetPassword_token_dead:
  "ResetPassword env tok p a = (Inr (), b) \<Longrightarrow> token_dead tok b"
  by (auto simp: ResetPassword_def token_dead_def verifyResetTokenLocked_def split: if_splits option.splits sum.splits)

lemma token_stays_dead:
  assumes "opens_sealed gcm" and "run_ok gcm enc ops" and "synced gcm enc a" and "env_ok gcm enc env"
    and r: "ResetPassword env tok p a = (Inr (), b)" and fresh: "\<forall>e. (NewTokenOp, e) \<in> set ops \<longrightarrow> ae_token e \<noteq> tok"
  shows "fst (ResetPassword env' tok q (auth_run ops b)) = Inl ''invalid or expired reset token''"
proof -
  have "synced gcm enc b" using exec_synced [OF assms(1,3,4), of "ResetOp tok p"] r by simp
  then have "token_dead tok (auth_run ops b) \<and> synced gcm enc (auth_run ops b)"
  proof (rule run_induct [OF assms(1,2)])
    fix op e c assume "(op, e) \<in> set ops" "op \<noteq> RestartOp" "token_dead tok c"
    then show "token_dead tok (auth_exec op e c)"
      using fresh by (cases op) (auto simp: auth_defs token_dead_def split: sum.splits option.splits)
  next
    fix e c assume "token_dead tok c" "au_data (auth_exec RestartOp e c) = (if au_file c = Absent then default_store e else au_data c)"
    then show "token_dead tok (auth_exec RestartOp e c)" by (simp add: token_dead_def)
  qed (rule ResetPassword_token_dead [OF r])
  then have dead: "token_dead tok (auth_run ops b)" ..
  show "fst (ResetPassword env' tok q (auth_run ops b)) = Inl ''invalid or expired reset token''"
    unfolding ResetPassword_def using token_dead_verify [OF dead] by simp
qed

text \<open>The hash of a code that was generated in a run.\<close>

definition generated_hash :: "(auth_op \<times> auth_env) list \<Rightarrow> string \<Rightarrow> bool" where
  "generated_hash ops h \<longleftrightarrow> (\<exists>e d. (NewCodeOp, e) \<in> set ops \<and> ae_code e = Some d \<and> ae_bcrypt e d = Some h)"

lemma code_stays_used:
  assumes "opens_sealed gcm" and "run_ok gcm enc ops" and "synced gcm enc a" and "env_ok gcm enc env"
    and r: "ResetPasswordWithCode env code p a = (Inr (), b) \<or> ValidateAndConsumeResetCode env code a = (Inr True, b)"
    and fresh: "\<forall>h. generated_hash ops h \<longrightarrow> \<not> ae_match env' h c"
  shows "\<exists>err. ResetPasswordWithCode env' c q (auth_run ops b) = (Inl err, auth_run ops b) \<and>
    ValidateAndConsumeResetCode env' c (auth_run ops b) = (Inl err, auth_run ops b)"
proof -
  let ?P = "\<lambda>b :: Auth. as_ResetCodeHash (au_data b) = [] \<or> generated_hash ops (as_ResetCodeHash (au_data b))"
  have b: "b = auth_exec (CodeResetOp code p) env a \<or> b = auth_exec (ConsumeOp code) env a" using r by auto
  have s: "synced gcm enc b"
    using b exec_synced [OF assms(1,3,4), of "CodeResetOp code p"] exec_synced [OF assms(1,3,4), of "ConsumeOp code"] by auto
  have "?P b"
    using r by (auto simp: ResetPasswordWithCode_def ValidateAndConsumeResetCode_def split: if_splits sum.splits option.splits)
  with s have P: "?P (auth_run ops b) \<and> synced gcm enc (auth_run ops b)"
  proof (rule run_induct [OF assms(1,2)])
    fix op e c assume *: "(op, e) \<in> set ops" "op \<noteq> RestartOp" "?P c"
    show "?P (auth_exec op e c)"
    proof (cases op)
      case NewCodeOp
      with * show ?thesis by (auto simp: GenerateResetCode_def Let_def generated_hash_def split: option.splits)
    qed (use * in \<open>auto simp: auth_defs split: sum.splits option.splits\<close>)
  next
    fix e c assume "?P c" "au_data (auth_exec RestartOp e c) = (if au_file c = Absent then default_store e else au_data c)"
    then show "?P (auth_exec RestartOp e c)" by simp
  qed
  then have "as_ResetCodeHash (au_data (auth_run ops b)) = [] \<or> \<not> ae_match env' (as_ResetCodeHash (au_data (auth_run ops b))) c"
    using fresh by blast
  then show ?thesis
    by (auto simp: ResetPasswordWithCode_def checkResetCodeLocked_def ValidateAndConsumeResetCode_def)
qed

text \<open>
  (C29) A reset token resets once, and so does a code. In every run of operations and restarts in which all writes succeed and the
  encryptor stays the same: after a reset with a token, that token is not valid again unless the same text is drawn again; and
  after a code was used, in a reset or in a validation, a code is refused unless it matches the hash of one that was generated
  later, and the refusal changes nothing.
\<close>

theorem reset_single_use:
  assumes "opens_sealed gcm" and "run_ok gcm enc ops" and "synced gcm enc a" and "env_ok gcm enc env"
  shows "(ResetPassword env tok p a = (Inr (), b) \<and> (\<forall>e. (NewTokenOp, e) \<in> set ops \<longrightarrow> ae_token e \<noteq> tok) \<longrightarrow>
      fst (ResetPassword env' tok q (auth_run ops b)) = Inl ''invalid or expired reset token'') \<and>
    ((ResetPasswordWithCode env code p a = (Inr (), b) \<or> ValidateAndConsumeResetCode env code a = (Inr True, b)) \<and>
       (\<forall>h. generated_hash ops h \<longrightarrow> \<not> ae_match env' h c) \<longrightarrow>
      (\<exists>err. ResetPasswordWithCode env' c q (auth_run ops b) = (Inl err, auth_run ops b) \<and>
        ValidateAndConsumeResetCode env' c (auth_run ops b) = (Inl err, auth_run ops b)))"
  using token_stays_dead [OF assms, where tok = tok and p = p and b = b and env' = env' and q = q]
    code_stays_used [OF assms, where code = code and p = p and b = b and env' = env' and c = c and q = q] by blast

section \<open>Restart\<close>

text \<open>
  A restart keeps the account. After any run from a first start, with successful writes, the next process has the same
  data, the plain mail password included; as long as nothing was saved it draws new secrets.
\<close>

theorem auth_restart:
  assumes "opens_sealed gcm" and "env_ok gcm enc env0" and "run_ok gcm enc ops" and "env_ok gcm enc env"
    and "a = auth_run ops (auth_load env0 Absent)"
  shows "au_data (auth_load env (au_file a)) = (if au_file a = Absent then default_store env else au_data a) \<and>
    (Initialized a \<or> as_Collaborators (au_data a) \<noteq> [] \<longrightarrow> au_data (auth_load env (au_file a)) = au_data a)"
proof -
  have "synced gcm enc (auth_load env0 Absent)"
    using assms(2) by (auto simp: auth_load_def synced_def default_store_def env_ok_def blank_store_def)
  from run_induct [OF assms(1,3) this, where P = "\<lambda>_. True"] have s: "synced gcm enc a" by (simp add: assms(5))
  have "au_file a \<noteq> Absent" if "Initialized a \<or> as_Collaborators (au_data a) \<noteq> []"
    using that blank_data [OF s] by (auto simp: Initialized_def)
  then show ?thesis using load_synced(2) [OF s assms(4)] by auto
qed

section \<open>Collaborators\<close>

definition collaborators_ok :: "Collaborator list \<Rightarrow> bool" where
  "collaborators_ok cs \<longleftrightarrow> length cs \<le> 20 \<and> distinct (map co_Username cs) \<and> distinct (map co_GuestKey cs) \<and>
     (\<forall>c\<in>set cs. co_Username c \<noteq> [] \<and> co_GuestKey c \<noteq> [])"

lemma taken_None: "taken u g cs = None \<longleftrightarrow> u \<notin> co_Username ` set cs \<and> g \<notin> co_GuestKey ` set cs"
  by (induction cs) auto

text \<open>
  The collaborators. After any run from a first start, with successful writes, there are at most 20 collaborators, no
  two of them with the same user name or guest key, and whoever logs in with a name gets the only account of that name.
\<close>

theorem collaborators_invariant:
  assumes "opens_sealed gcm" and "env_ok gcm enc env0" and "run_ok gcm enc ops"
    and "a = auth_run ops (auth_load env0 Absent)"
  shows "collaborators_ok (as_Collaborators (au_data a)) \<and>
    (VerifyCollaboratorCredentials env u p a = Some c \<longleftrightarrow>
       c \<in> set (as_Collaborators (au_data a)) \<and> co_Username c = u \<and> ae_match env (co_PasswordHash c) p)"
proof -
  let ?P = "\<lambda>b :: Auth. collaborators_ok (as_Collaborators (au_data b))"
  have start: "synced gcm enc (auth_load env0 Absent)" "?P (auth_load env0 Absent)"
    using assms(2) by (auto simp: auth_load_def synced_def default_store_def env_ok_def blank_store_def collaborators_ok_def)
  have "?P a \<and> synced gcm enc a"
    unfolding assms(4)
  proof (rule run_induct [where P = ?P, OF assms(1,3) start])
    fix op e b assume "op \<noteq> RestartOp" "?P b"
    then show "?P (auth_exec op e b)"
      by (cases op) (auto simp: auth_defs collaborators_ok_def taken_None split: sum.splits option.splits)
  next
    fix e b assume "?P b" "au_data (auth_exec RestartOp e b) = (if au_file b = Absent then default_store e else au_data b)"
    then show "?P (auth_exec RestartOp e b)" by (simp add: collaborators_ok_def)
  qed
  then have ok: "?P a" ..
  then have dist: "distinct (map co_Username (as_Collaborators (au_data a)))" by (simp add: collaborators_ok_def)
  have "find (\<lambda>c. co_Username c = u) cs = Some c \<longleftrightarrow> c \<in> set cs \<and> co_Username c = u" if "distinct (map co_Username cs)" for cs
    using that by (induction cs) (auto simp: rev_image_eqI)
  from this [OF dist] ok show ?thesis
    by (auto simp: VerifyCollaboratorCredentials_def split: option.splits)
qed

section \<open>Sample runs\<close>

definition sample_aead :: aead where
  "sample_aead = (\<lambda>k n. (\<lambda>p. p, Some))"

definition sample_auth_env :: auth_env where
  "sample_auth_env = \<lparr>ae_now = 0, ae_bcrypt = (\<lambda>p. Some (''h'' @ p)), ae_match = (\<lambda>h p. h = ''h'' @ p), ae_gcm = sample_aead,
     ae_nonce = None, ae_enc = None, ae_io = io_fine False, ae_secret = ''s'', ae_refresh = ''r'', ae_token = ''tok'', ae_code = Some ''code''\<rparr>"

definition sample_password :: string where "sample_password = ''Secret-Word-1''"

lemma sample_password_ok: "hash_password sample_auth_env sample_password = Inr (''h'' @ sample_password)"
proof -
  have "validatePasswordStrength sample_password = None"
    unfolding password_policy by (simp add: sample_password_def upper_char_def lower_char_def digit_char_def less_eq_char_def)
  then show ?thesis by (simp add: hash_password_Inr sample_auth_env_def)
qed

lemma sample_auth_env_ok: "env_ok sample_aead None sample_auth_env" and sample_opens: "opens_sealed sample_aead"
  by (simp_all add: env_ok_def sample_auth_env_def io_fine_def nonce_ok_def opens_sealed_def sample_aead_def)

definition first_start :: Auth where
  "first_start = auth_load sample_auth_env Absent"

definition after_setup :: Auth where
  "after_setup = auth_exec (SetupOp ''root'' sample_password ''me@x'') sample_auth_env first_start"

definition after_token :: Auth where
  "after_token = auth_exec NewTokenOp sample_auth_env after_setup"

definition after_reset :: Auth where
  "after_reset = auth_exec (ResetOp ''tok'' sample_password) sample_auth_env after_token"

lemma first_start_data: "au_data first_start = default_store sample_auth_env"
  by (simp add: first_start_def auth_load_def)

lemma first_start_synced: "synced sample_aead None first_start"
proof -
  have "blank_store (au_data first_start)" using first_start_data by (auto simp: blank_store_def)
  then show ?thesis by (simp add: first_start_def auth_load_def synced_def) (simp add: default_store_def sample_auth_env_def)
qed

lemma after_setup_simps: "Initialized after_setup" "au_hash after_setup = ''h'' @ sample_password" "as_Reset (au_data after_setup) = None"
    "SetupAdmin sample_auth_env ''root'' sample_password ''me@x'' first_start = (Inr (), after_setup)"
  using sample_password_ok
  by (simp_all add: after_setup_def SetupAdmin_def Initialized_def first_start_data prod_eq_iff) (simp_all add: sample_password_def)

lemma after_setup_synced: "synced sample_aead None after_setup"
  unfolding after_setup_def by (rule exec_synced [OF sample_opens first_start_synced sample_auth_env_ok]) simp

lemma after_token_synced: "synced sample_aead None after_token"
  unfolding after_token_def by (rule exec_synced [OF sample_opens after_setup_synced sample_auth_env_ok]) simp

lemma after_token_reset: "ResetPassword sample_auth_env ''tok'' sample_password after_token = (Inr (), after_reset)"
proof -
  have "as_Reset (au_data after_token) = Some \<lparr>rt_Token = ''tok'', rt_Email = ad_Email (as_Admin (au_data after_setup)),
      rt_Expire = format_stamp minutes30, rt_Used = False\<rparr>"
    by (simp add: after_token_def CreateResetToken_def after_setup_simps) (simp add: sample_auth_env_def)
  moreover have "ae_now sample_auth_env = 0" by (simp add: sample_auth_env_def)
  ultimately have "verifyResetTokenLocked (ae_now sample_auth_env) ''tok'' after_token"
    by (simp add: verifyResetTokenLocked_def format_stamp_def minutes30_def)
  then show ?thesis using sample_password_ok by (simp add: after_reset_def ResetPassword_def prod_eq_iff)
qed

theorem password_changes_authorised_witness:
  "\<exists>new. validatePasswordStrength new = None \<and> ae_bcrypt sample_auth_env new = Some (au_hash after_setup)"
proof -
  have "au_hash (auth_exec (SetupOp ''root'' sample_password ''me@x'') sample_auth_env first_start) \<noteq> au_hash first_start"
    using after_setup_simps(2) unfolding after_setup_def by (simp add: first_start_data default_store_def)
  with password_changes_authorised [of "SetupOp ''root'' sample_password ''me@x''" sample_auth_env first_start]
  show ?thesis unfolding after_setup_def by blast
qed

theorem admin_set_up_once_witness:
  "fst (SetupAdmin sample_auth_env ''mallory'' sample_password [] (auth_run [(RestartOp, sample_auth_env)] after_setup)) = Inl ''admin already initialized''"
proof -
  have "run_ok sample_aead None [(RestartOp, sample_auth_env)]" by (simp add: run_ok_def sample_auth_env_ok)
  from admin_set_up_once [OF sample_opens this after_setup_synced after_setup_simps(1)] show ?thesis by simp
qed

theorem reset_single_use_witness:
  "fst (ResetPassword sample_auth_env ''tok'' sample_password (auth_run [(RestartOp, sample_auth_env), (EmailOp ''you@x'', sample_auth_env)] after_reset))
     = Inl ''invalid or expired reset token''"
proof -
  have "run_ok sample_aead None [(RestartOp, sample_auth_env), (EmailOp ''you@x'', sample_auth_env)]" by (simp add: run_ok_def sample_auth_env_ok)
  from reset_single_use [OF sample_opens this after_token_synced sample_auth_env_ok] after_token_reset show ?thesis by simp
qed

theorem auth_restart_witness:
  "au_data (auth_load sample_auth_env (au_file after_setup)) = au_data after_setup"
proof -
  have ok: "run_ok sample_aead None [(SetupOp ''root'' sample_password ''me@x'', sample_auth_env)]" by (simp add: run_ok_def sample_auth_env_ok)
  have "after_setup = auth_run [(SetupOp ''root'' sample_password ''me@x'', sample_auth_env)] (auth_load sample_auth_env Absent)"
    by (simp add: auth_run_def after_setup_def first_start_def)
  from auth_restart [OF sample_opens sample_auth_env_ok ok sample_auth_env_ok this] show ?thesis using after_setup_simps(1) by blast
qed

theorem collaborators_invariant_witness:
  "collaborators_ok (as_Collaborators (au_data (auth_run [(RegisterOp ''c'' sample_password ''sk-guest-x'', sample_auth_env)] (auth_load sample_auth_env Absent))))"
proof -
  have ok: "run_ok sample_aead None [(RegisterOp ''c'' sample_password ''sk-guest-x'', sample_auth_env)]" by (simp add: run_ok_def sample_auth_env_ok)
  from collaborators_invariant [OF sample_opens sample_auth_env_ok ok refl] show ?thesis by simp
qed

section \<open>What the operations leave open\<close>

text \<open>
  A reset with a token leaves an outstanding reset code usable, and changing the password leaves both: the code still resets
  the password afterwards.
\<close>

lemma reset_leaves_code:
  assumes "ResetPassword env tok p a = (Inr (), b) \<or> ChangePassword env q p a = (Inr (), b)"
  shows "checkResetCodeLocked env' code b = checkResetCodeLocked env' code a"
  using assms by (auto simp: ResetPassword_def ChangePassword_def checkResetCodeLocked_def split: if_splits sum.splits)

text \<open>The name of the administrator may be that of a collaborator who registered before the set-up.\<close>

lemma setup_takes_collaborator_name:
  "let a = auth_exec (RegisterOp ''root'' sample_password ''sk-guest-x'') sample_auth_env first_start;
       b = auth_exec (SetupOp ''root'' sample_password []) sample_auth_env a
   in Initialized b \<and> ad_Username (as_Admin (au_data b)) \<in> co_Username ` set (as_Collaborators (au_data b))"
  using sample_password_ok
  by (simp add: Let_def RegisterCollaborator_def SetupAdmin_def Initialized_def first_start_data) (simp add: sample_password_def)

text \<open>When the file cannot be decoded, the next process starts without an administrator, and the set-up is open again.\<close>

lemma unreadable_file_reopens_setup:
  "\<not> Initialized (auth_load env Corrupt) \<and> (io_write (ae_io env) \<longrightarrow> au_file (auth_load env Corrupt) \<noteq> Corrupt)"
  by (simp add: auth_load_def Initialized_def auth_saveLocked_def atomicWriteFile_def)

text \<open>
  An error of the write is ignored: the set-up answers with success, and after a restart there is no administrator.
\<close>

lemma unsaved_setup_lost:
  assumes "SetupAdmin env u p e a = (Inr (), b)" and "\<not> io_write (ae_io env)" and "au_file a = Absent"
  shows "Initialized b \<and> \<not> Initialized (auth_load env' (au_file b))"
  using assms
  by (auto simp: SetupAdmin_def Initialized_def auth_load_def atomicWriteFile_def split: if_splits sum.splits)

end
