(* ===== verification/Admin_Sessions.thy ===== *)
theory Admin_Sessions
  imports Admin_Auth Guest_Keys
begin

text \<open>
  Sessions of the administrator and the handlers of the account (\<open>src/auth.go\<close>, \<open>src/admin_auth.go\<close>, \<open>src/admin_collab.go\<close>,
  \<open>src/admin_smtp.go\<close>, parts of \<open>src/admin.go\<close>, \<open>src/admin_config_io.go\<close>, \<open>src/admin_restart.go\<close> and \<open>src/middleware.go\<close>).

  The JWT library is a parameter: \<open>jw_sign\<close> signs claims with a secret, \<open>jw_hmac\<close> says whether the header of a token names an HMAC
  method, and \<open>jw_check\<close> verifies and decodes a token at a time. A claim that is missing or not a text reads as the empty text.
\<close>

section \<open>Tokens\<close>

record jwt_claims =
  jc_sub :: string
  jc_exp :: int
  jc_iat :: int
  jc_iss :: string
  jc_type :: string

record jwt_lib =
  jw_sign :: "string \<Rightarrow> jwt_claims \<Rightarrow> string option"
  jw_hmac :: "string \<Rightarrow> bool"
  jw_check :: "int \<Rightarrow> string \<Rightarrow> string \<Rightarrow> jwt_claims option"

definition issuer :: string where "issuer = ''openmodelpool''"

definition unix :: "int \<Rightarrow> int" where "unix t = t div 1000000000"

definition hour_ns :: int where "hour_ns = 3600 * 1000000000"

definition access_claims :: "int \<Rightarrow> int \<Rightarrow> string \<Rightarrow> jwt_claims" where
  "access_claims now hours u = \<lparr>jc_sub = u, jc_exp = unix (now + hours * hour_ns), jc_iat = unix now, jc_iss = issuer, jc_type = ''access''\<rparr>"

definition refresh_claims :: "int \<Rightarrow> string \<Rightarrow> jwt_claims" where
  "refresh_claims now u = \<lparr>jc_sub = u, jc_exp = unix (now + 7 * 24 * hour_ns), jc_iat = unix now, jc_iss = issuer, jc_type = ''refresh''\<rparr>"

definition CreateToken :: "jwt_lib \<Rightarrow> int \<Rightarrow> string \<Rightarrow> bool \<Rightarrow> Auth \<Rightarrow> string \<times> string" where
  "CreateToken J now username remember a =
     (let accessExpHours = (if remember then 7 * 24 else 24) in
      case jw_sign J (as_JWTSecret (au_data a)) (access_claims now accessExpHours username) of
        None \<Rightarrow> ([], [])
      | Some accessToken \<Rightarrow>
          (case jw_sign J (as_JWTRefreshSecret (au_data a)) (refresh_claims now username) of
             None \<Rightarrow> ([], [])
           | Some refreshToken \<Rightarrow> (accessToken, refreshToken)))"

definition CreateAccessToken :: "jwt_lib \<Rightarrow> int \<Rightarrow> string \<Rightarrow> bool \<Rightarrow> Auth \<Rightarrow> string" where
  "CreateAccessToken J now username remember a = fst (CreateToken J now username remember a)"

definition jwt_parse :: "jwt_lib \<Rightarrow> int \<Rightarrow> string \<Rightarrow> string \<Rightarrow> jwt_claims option" where
  "jwt_parse J now secret tok = (if jw_hmac J tok then jw_check J now secret tok else None)"

definition RefreshAccessToken :: "jwt_lib \<Rightarrow> int \<Rightarrow> string \<Rightarrow> Auth \<Rightarrow> string + string" where
  "RefreshAccessToken J now refreshTokenStr a =
     (case jwt_parse J now (as_JWTRefreshSecret (au_data a)) refreshTokenStr of
        None \<Rightarrow> Inl ''invalid refresh token''
      | Some claims \<Rightarrow>
          if jc_type claims \<noteq> ''refresh'' then Inl ''not a refresh token''
          else if jc_iss claims \<noteq> issuer then Inl ''invalid token issuer''
          else if jc_sub claims = [] then Inl ''missing subject''
          else (case jw_sign J (as_JWTSecret (au_data a)) (access_claims now 24 (jc_sub claims)) of
                  None \<Rightarrow> Inl ''failed to sign token'' | Some s \<Rightarrow> Inr s))"

definition VerifyToken :: "jwt_lib \<Rightarrow> int \<Rightarrow> string \<Rightarrow> Auth \<Rightarrow> string + string" where
  "VerifyToken J now tokenStr a =
     (case jwt_parse J now (as_JWTSecret (au_data a)) tokenStr of
        None \<Rightarrow> Inl ''invalid token''
      | Some claims \<Rightarrow>
          if jc_iss claims \<noteq> issuer then Inl ''invalid token issuer''
          else if jc_type claims = ''refresh'' then Inl ''refresh token cannot be used for authentication''
          else Inr (jc_sub claims))"

text \<open>The token of a request: the header \<open>Authorization\<close> goes before the cookie.\<close>

definition extractToken :: "string \<Rightarrow> string option \<Rightarrow> string" where
  "extractToken authHeader cookie =
     (if prefix ''Bearer '' authHeader then drop 7 authHeader else (case cookie of Some v \<Rightarrow> v | None \<Rightarrow> []))"

text \<open>The guard of the pages of the administrator: the answer of the guard, or the name it hands on together with the role.\<close>

definition withAuth :: "jwt_lib \<Rightarrow> int \<Rightarrow> string \<Rightarrow> string option \<Rightarrow> Auth \<Rightarrow> (string \<times> string) http_result" where
  "withAuth J now authHeader cookie a =
     (let token = extractToken authHeader cookie in
      if token = [] then HttpError 401 ''not authenticated''
      else case VerifyToken J now token a of
        Inl _ \<Rightarrow> HttpError 401 ''token expired''
      | Inr username \<Rightarrow> HttpOK (username, ''admin''))"

section \<open>Handlers\<close>

definition handleSetupStatus :: "Auth \<Rightarrow> bool http_result" where
  "handleSetupStatus a = HttpOK (Initialized a)"

definition reply_result :: "nat \<Rightarrow> (string + unit) \<times> Auth \<Rightarrow> unit http_result \<times> Auth" where
  "reply_result code r = (case r of (Inl e, a) \<Rightarrow> (HttpError code e, a) | (Inr _, a) \<Rightarrow> (HttpOK (), a))"

definition handleSetup :: "auth_env \<Rightarrow> (string \<times> string \<times> string) option \<Rightarrow> Auth \<Rightarrow> (string \<times> string \<times> stamp) http_result \<times> Auth" where
  "handleSetup env body a =
     (if Initialized a then (HttpError 400 ''admin already initialized'', a)
      else case body of
        None \<Rightarrow> (HttpError 400 ''invalid request body'', a)
      | Some (username, password, email) \<Rightarrow>
          (case SetupAdmin env username password email a of
             (Inl e, a') \<Rightarrow> (HttpError 400 e, a')
           | (Inr _, a') \<Rightarrow> (HttpOK (AdminInfo a'), a')))"

record login_reply =
  lr_access :: string
  lr_refresh :: string
  lr_maxAge :: int
  lr_secure :: bool

definition handleLogin ::
    "jwt_lib \<Rightarrow> auth_env \<Rightarrow> bool \<Rightarrow> bool \<Rightarrow> string \<Rightarrow> (string \<times> string \<times> bool) option \<Rightarrow> Auth \<Rightarrow> login_reply http_result" where
  "handleLogin J env tls trustedReverseProxy forwardedProto body a =
     (case body of
        None \<Rightarrow> HttpError 400 ''invalid request body''
      | Some (username, password, remember) \<Rightarrow>
          if username = [] \<or> password = [] then HttpError 400 ''username and password required''
          else if length username > 128 \<or> length password > 256 then HttpError 400 ''input too long''
          else if \<not> VerifyCredentials env username password a then HttpError 401 ''invalid credentials''
          else (case CreateToken J (ae_now env) username remember a of
                  (accessToken, refreshToken) \<Rightarrow>
                    HttpOK \<lparr>lr_access = accessToken, lr_refresh = refreshToken,
                      lr_maxAge = (if remember then 7 * 86400 else 86400),
                      lr_secure = (tls \<or> (trustedReverseProxy \<and> forwardedProto = ''https''))\<rparr>))"

definition handleVerifyAuth :: "jwt_lib \<Rightarrow> int \<Rightarrow> string \<Rightarrow> string option \<Rightarrow> Auth \<Rightarrow> string http_result" where
  "handleVerifyAuth J now authHeader cookie a =
     (let token = extractToken authHeader cookie in
      if token = [] then HttpError 401 ''no token provided''
      else case VerifyToken J now token a of
        Inl _ \<Rightarrow> HttpError 401 ''invalid or expired token''
      | Inr username \<Rightarrow> HttpOK username)"

definition handleRefreshToken :: "jwt_lib \<Rightarrow> int \<Rightarrow> string option \<Rightarrow> Auth \<Rightarrow> string http_result" where
  "handleRefreshToken J now body a =
     (case body of
        None \<Rightarrow> HttpError 400 ''invalid request body''
      | Some tok \<Rightarrow>
          if tok = [] then HttpError 400 ''refresh_token is required''
          else (case RefreshAccessToken J now tok a of
                  Inl _ \<Rightarrow> HttpError 401 ''invalid or expired refresh token'' | Inr s \<Rightarrow> HttpOK s))"

definition handleChangePassword :: "auth_env \<Rightarrow> (string \<times> string) option \<Rightarrow> Auth \<Rightarrow> unit http_result \<times> Auth" where
  "handleChangePassword env body a =
     (case body of None \<Rightarrow> (HttpError 400 ''invalid request body'', a)
      | Some (old, new) \<Rightarrow> reply_result 400 (ChangePassword env old new a))"

definition handleUpdateEmail :: "auth_env \<Rightarrow> string option \<Rightarrow> Auth \<Rightarrow> unit http_result \<times> Auth" where
  "handleUpdateEmail env body a =
     (case body of
        None \<Rightarrow> (HttpError 400 ''invalid request body'', a)
      | Some email \<Rightarrow>
          if email \<noteq> [] \<and> CHR ''@'' \<notin> set email then (HttpError 400 ''invalid email format'', a)
          else (HttpOK (), UpdateEmail env email a))"

definition handleSMTPStatus :: "Auth \<Rightarrow> bool http_result" where
  "handleSMTPStatus a = HttpOK (IsSMTPConfigured a)"

definition handleGetSMTPConfig :: "Auth \<Rightarrow> SMTPConfig http_result" where
  "handleGetSMTPConfig a = HttpOK (if sm_Password (GetSMTP a) \<noteq> [] then (GetSMTP a)\<lparr>sm_Password := ''****''\<rparr> else GetSMTP a)"

definition handleSaveSMTPConfig :: "auth_env \<Rightarrow> SMTPConfig option \<Rightarrow> Auth \<Rightarrow> unit http_result \<times> Auth" where
  "handleSaveSMTPConfig env body a =
     (case body of
        None \<Rightarrow> (HttpError 400 ''invalid request body'', a)
      | Some s \<Rightarrow> (HttpOK (), UpdateSMTP env (if sm_Port s = 0 then s\<lparr>sm_Port := 587\<rparr> else s) a))"

text \<open>
  A forgotten password. The answers are the generic one and the one that the mail was sent. The mail goes to \<open>rm_to\<close>; sending it is
  the parameter \<open>send\<close>, and \<open>public_url\<close> and \<open>port\<close> are settings.
\<close>

datatype forgot_reply = GenericReply | SentToYourMailbox

record reset_mail =
  rm_to :: string
  rm_from :: string
  rm_url :: string
  rm_token :: string

definition handleForgotPassword ::
    "auth_env \<Rightarrow> (SMTPConfig \<Rightarrow> reset_mail \<Rightarrow> bool) \<Rightarrow> string \<Rightarrow> string \<Rightarrow> string option \<Rightarrow> Auth
     \<Rightarrow> forgot_reply http_result \<times> reset_mail option \<times> Auth" where
  "handleForgotPassword env send public_url port body a =
     (if \<not> Initialized a then (HttpError 400 ''system not initialized'', None, a)
      else case body of
        None \<Rightarrow> (HttpError 400 ''invalid request body'', None, a)
      | Some email \<Rightarrow>
          if email = [] \<or> email \<noteq> GetEmail a then (HttpOK GenericReply, None, a)
          else if \<not> IsSMTPConfigured a then (HttpOK GenericReply, None, a)
          else (case CreateResetToken env a of
                  (token, a') \<Rightarrow>
                    let s = GetSMTP a';
                        resetURL = (if public_url \<noteq> [] then public_url @ ''/forgot-password''
                                    else ''http://127.0.0.1:'' @ port @ ''/forgot-password'');
                        mail = \<lparr>rm_to = GetEmail a', rm_from = sm_FromEmail s, rm_url = resetURL, rm_token = token\<rparr>
                    in if send s mail then (HttpOK SentToYourMailbox, Some mail, a')
                       else (HttpError 500 ''failed to send reset email'', Some mail, a')))"

definition handleResetPassword :: "auth_env \<Rightarrow> (string \<times> string) option \<Rightarrow> Auth \<Rightarrow> unit http_result \<times> Auth" where
  "handleResetPassword env body a =
     (case body of None \<Rightarrow> (HttpError 400 ''invalid request body'', a)
      | Some (tok, new) \<Rightarrow> reply_result 400 (ResetPassword env tok new a))"

definition handleVerifyResetToken :: "int \<Rightarrow> string option \<Rightarrow> Auth \<Rightarrow> bool http_result" where
  "handleVerifyResetToken now body a =
     (case body of
        None \<Rightarrow> HttpError 400 ''invalid request body''
      | Some tok \<Rightarrow> if \<not> verifyResetTokenLocked now tok a then HttpError 400 ''invalid or expired reset token'' else HttpOK True)"

definition handleResetWithCode :: "auth_env \<Rightarrow> (string \<times> string) option \<Rightarrow> Auth \<Rightarrow> unit http_result \<times> Auth" where
  "handleResetWithCode env body a =
     (case body of
        None \<Rightarrow> (HttpError 400 ''invalid request body'', a)
      | Some (code, new) \<Rightarrow>
          if code = [] \<or> new = [] then (HttpError 400 ''code and new_password required'', a)
          else if length new < 8 then (HttpError 400 ''password must be at least 8 characters'', a)
          else if length new > 256 then (HttpError 400 ''password too long'', a)
          else (case ResetPasswordWithCode env code new a of
                  (Inl _, a') \<Rightarrow> (HttpError 401 ''invalid or expired reset code, or password does not meet policy'', a')
                | (Inr _, a') \<Rightarrow> (HttpOK (), a')))"

section \<open>Collaborators and guest keys\<close>

definition ValidateGuestKeyForRegistration :: "string \<Rightarrow> GuestKeyStore option \<Rightarrow> Auth \<Rightarrow> bool" where
  "ValidateGuestKeyForRegistration key gks a =
     (case gks of
        None \<Rightarrow> False
      | Some s \<Rightarrow>
          (case GetGuestKeyRecord key s of
             None \<Rightarrow> False
           | Some rec \<Rightarrow> if gr_Revoked rec then False else \<not> list_ex (\<lambda>c. co_GuestKey c = key) (as_Collaborators (au_data a))))"

definition handleCollaboratorCheckKey :: "string \<Rightarrow> GuestKeyStore option \<Rightarrow> Auth \<Rightarrow> bool http_result" where
  "handleCollaboratorCheckKey key gks a =
     (if key = [] then HttpError 400 ''key parameter required'' else HttpOK (ValidateGuestKeyForRegistration key gks a))"

text \<open>An error of the two updates of the key store is ignored.\<close>

definition update_or_keep :: "(GuestKeyStore \<Rightarrow> guest_error + GuestKeyStore) \<Rightarrow> GuestKeyStore \<Rightarrow> GuestKeyStore" where
  "update_or_keep f s = (case f s of Inl _ \<Rightarrow> s | Inr s' \<Rightarrow> s')"

definition handleCollaboratorRegister ::
    "jwt_lib \<Rightarrow> auth_env \<Rightarrow> (string \<times> string \<times> string) option \<Rightarrow> GuestKeyStore option \<Rightarrow> Auth
     \<Rightarrow> (string \<times> string) http_result \<times> GuestKeyStore option \<times> Auth" where
  "handleCollaboratorRegister J env body gks a =
     (case body of
        None \<Rightarrow> (HttpError 400 ''invalid request body'', gks, a)
      | Some (username, password, guestKey) \<Rightarrow>
          if username = [] \<or> password = [] \<or> guestKey = []
          then (HttpError 400 ''username, password and guest_key are required'', gks, a)
          else if length username > 128 \<or> length password > 256 \<or> length guestKey > 128 then (HttpError 400 ''input too long'', gks, a)
          else if \<not> ValidateGuestKeyForRegistration guestKey gks a then (HttpError 400 ''invalid or already used guest key'', gks, a)
          else (case RegisterCollaborator env username password guestKey a of
                  (Inl e, a') \<Rightarrow> (HttpError 400 e, gks, a')
                | (Inr _, a') \<Rightarrow>
                    (HttpOK (fst (CreateToken J (ae_now env) username True a'), username),
                     map_option (update_or_keep (MarkAsCollaborator (ae_io env) guestKey) \<circ>
                                 update_or_keep (SetShareType (ae_io env) guestKey ''collaborator'')) gks, a')))"

section \<open>Access tokens and refresh tokens\<close>

text \<open>
  What the JWT library promises for a token that was signed: it names an HMAC method, and checking it with the secret it was signed with
  gives the claims before the time of expiry, and nothing afterwards.
\<close>

definition jwt_ok :: "jwt_lib \<Rightarrow> bool" where
  "jwt_ok J \<longleftrightarrow> (\<forall>s c tok. jw_sign J s c = Some tok \<longrightarrow>
     jw_hmac J tok \<and> (\<forall>now. jw_check J now s tok = (if now < jc_exp c * 1000000000 then Some c else None)))"

lemma jwt_parse_signed:
  "jwt_ok J \<Longrightarrow> jw_sign J s c = Some tok \<Longrightarrow> jwt_parse J now s tok = (if now < jc_exp c * 1000000000 then Some c else None)"
  by (simp add: jwt_ok_def jwt_parse_def)

text \<open>
  Access and refresh tokens. Of the two tokens of a login, the access token authenticates the user until it expires, at most 24
  hours or 7 days later, and the refresh token buys a new access token for the same user until it expires. Even if
  both secrets were the same, a refresh token never authenticates and an access token never refreshes.
\<close>

theorem token_kinds:
  assumes "jwt_ok J" and "CreateToken J now u remember a = (acc, ref)" and "acc \<noteq> []" and "ref \<noteq> []" and "u \<noteq> []"
    and "as_JWTSecret (au_data b) = as_JWTSecret (au_data a)" and "as_JWTRefreshSecret (au_data b) = as_JWTRefreshSecret (au_data a)"
  shows "VerifyToken J t acc b = (if t < unix (now + (if remember then 7 * 24 else 24) * hour_ns) * 1000000000 then Inr u else Inl ''invalid token'')
    \<and> (t < unix (now + 7 * 24 * hour_ns) * 1000000000 \<longrightarrow>
        (\<forall>tok. RefreshAccessToken J t ref b = Inr tok \<longrightarrow> VerifyToken J t tok b = (if t < unix (t + 24 * hour_ns) * 1000000000 then Inr u else Inl ''invalid token'')))
    \<and> (as_JWTSecret (au_data a) = as_JWTRefreshSecret (au_data a) \<longrightarrow>
        (\<exists>e. VerifyToken J t ref b = Inl e) \<and> (\<exists>e. RefreshAccessToken J t acc b = Inl e))"
proof -
  let ?ac = "access_claims now (if remember then 7 * 24 else 24) u" and ?rc = "refresh_claims now u"
  have s: "jw_sign J (as_JWTSecret (au_data a)) ?ac = Some acc" "jw_sign J (as_JWTRefreshSecret (au_data a)) ?rc = Some ref"
    using assms(2,3,4) by (auto simp: CreateToken_def Let_def split: option.splits)
  note p = jwt_parse_signed [OF assms(1) s(1)] jwt_parse_signed [OF assms(1) s(2)]
  have 1: "VerifyToken J t acc b = (if t < jc_exp ?ac * 1000000000 then Inr u else Inl ''invalid token'')"
    using p(1) [of t] assms(6) by (simp add: VerifyToken_def access_claims_def)
  have 2: "VerifyToken J t tok b = (if t < unix (t + 24 * hour_ns) * 1000000000 then Inr u else Inl ''invalid token'')"
    if "RefreshAccessToken J t ref b = Inr tok" "t < jc_exp ?rc * 1000000000" for tok
  proof -
    have "jw_sign J (as_JWTSecret (au_data a)) (access_claims t 24 u) = Some tok"
      using that p(2) [of t] assms(5,6,7) by (auto simp: RefreshAccessToken_def refresh_claims_def split: option.splits if_splits)
    from jwt_parse_signed [OF assms(1) this, of t] assms(6) show ?thesis by (simp add: VerifyToken_def access_claims_def)
  qed
  have 3: "(\<exists>e. VerifyToken J t ref b = Inl e) \<and> (\<exists>e. RefreshAccessToken J t acc b = Inl e)"
    if "as_JWTSecret (au_data a) = as_JWTRefreshSecret (au_data a)"
    using p(1) [of t] p(2) [of t] that assms(6,7)
    by (simp add: VerifyToken_def RefreshAccessToken_def access_claims_def refresh_claims_def)
  show ?thesis using 1 2 3 by (simp add: access_claims_def refresh_claims_def)
qed

section \<open>Where tokens come from\<close>

text \<open>
  A run of the program seen from outside: operations on the account, logins, refreshes and registrations of collaborators. \<open>I\<close> are
  the tokens that the handlers have answered with so far, and \<open>P\<close> the logins that presented a password. A refresh is possible with
  any token, but signatures are not forged: a token with an HMAC header that passes the check under a secret of the program is one of
  those it answered with.
\<close>

definition unforged :: "jwt_lib \<Rightarrow> int \<Rightarrow> string \<Rightarrow> string \<Rightarrow> string set \<Rightarrow> bool" where
  "unforged J now secret tok I \<longleftrightarrow> (jw_hmac J tok \<and> jw_check J now secret tok \<noteq> None \<longrightarrow> tok \<in> I)"

text \<open>A token carries its claims: whatever secret a signed token is checked with, it gives the claims that were signed or none.\<close>

definition jwt_carries_claims :: "jwt_lib \<Rightarrow> bool" where
  "jwt_carries_claims J \<longleftrightarrow>
     (\<forall>s c tok now s' c'. jw_sign J s c = Some tok \<longrightarrow> jw_check J now s' tok = Some c' \<longrightarrow> c' = c)"

datatype password_login = AdminLogin auth_env string string Auth | CollaboratorLogin auth_env string string string Auth

fun login_user :: "password_login \<Rightarrow> string" where
  "login_user (AdminLogin env u p a) = u"
| "login_user (CollaboratorLogin env u p g a) = u"

fun login_genuine :: "password_login \<Rightarrow> bool" where
  "login_genuine (AdminLogin env u p a) \<longleftrightarrow> u \<noteq> [] \<and> VerifyCredentials env u p a"
| "login_genuine (CollaboratorLogin env u p g a) \<longleftrightarrow> u \<noteq> [] \<and> fst (RegisterCollaborator env u p g a) = Inr ()"

inductive session_run :: "jwt_lib \<Rightarrow> Auth \<Rightarrow> string set \<Rightarrow> password_login set \<Rightarrow> bool" for J where
  run_start: "session_run J a {} {}"
| run_op: "session_run J a I P \<Longrightarrow> session_run J (auth_exec op env a) I P"
| run_login: "session_run J a I P \<Longrightarrow> handleLogin J env tls trp fp (Some (u, p, remember)) a = HttpOK reply \<Longrightarrow>
    session_run J a (insert (lr_access reply) (insert (lr_refresh reply) I)) (insert (AdminLogin env u p a) P)"
| run_register: "session_run J a I P \<Longrightarrow> handleCollaboratorRegister J env (Some (u, p, g)) gks a = (HttpOK (tok, u'), gks', a') \<Longrightarrow>
    session_run J a' (insert tok I) (insert (CollaboratorLogin env u p g a) P)"
| run_refresh: "session_run J a I P \<Longrightarrow> unforged J now (as_JWTRefreshSecret (au_data a)) tok I \<Longrightarrow>
    handleRefreshToken J now (Some tok) a = HttpOK s \<Longrightarrow> session_run J a (insert s I) P"

lemma login_ok:
  "handleLogin J env tls trp fp (Some (u, p, remember)) a = HttpOK reply \<Longrightarrow>
    u \<noteq> [] \<and> VerifyCredentials env u p a \<and> CreateToken J (ae_now env) u remember a = (lr_access reply, lr_refresh reply)"
  by (auto simp: handleLogin_def split: if_splits prod.splits)

lemma register_ok: "handleCollaboratorRegister J env (Some (u, p, g)) gks a = (HttpOK (tok, u'), gks', a') \<Longrightarrow>
    u \<noteq> [] \<and> RegisterCollaborator env u p g a = (Inr (), a') \<and> tok = fst (CreateToken J (ae_now env) u True a')"
  by (auto simp: handleCollaboratorRegister_def split: if_splits prod.splits sum.splits)

text \<open>Who a token of the log speaks for.\<close>

definition speaks_for :: "jwt_lib \<Rightarrow> string \<Rightarrow> string \<Rightarrow> bool" where
  "speaks_for J u tok \<longleftrightarrow> tok = [] \<or> (\<exists>s c. jw_sign J s c = Some tok \<and> jc_sub c = u)"

lemma created_speak_for:
  "CreateToken J now u remember a = (acc, ref) \<Longrightarrow> speaks_for J u acc \<and> speaks_for J u ref"
  by (fastforce simp: CreateToken_def Let_def speaks_for_def access_claims_def refresh_claims_def split: option.splits)

lemma refreshed_speaks_for:
  assumes "handleRefreshToken J now (Some tok) a = HttpOK s" and "jwt_carries_claims J" and "speaks_for J u tok"
  shows "speaks_for J u s"
proof -
  from assms(1) obtain c where c: "jwt_parse J now (as_JWTRefreshSecret (au_data a)) tok = Some c" "tok \<noteq> []"
    "jw_sign J (as_JWTSecret (au_data a)) (access_claims now 24 (jc_sub c)) = Some s"
    by (auto simp: handleRefreshToken_def RefreshAccessToken_def split: if_splits sum.splits option.splits)
  then have "jc_sub c = u" using assms(2,3)
    by (fastforce simp: speaks_for_def jwt_carries_claims_def jwt_parse_def split: if_splits)
  with c(3) show ?thesis by (fastforce simp: speaks_for_def access_claims_def)
qed

lemma refresh_uses_known_token:
  "handleRefreshToken J now (Some tok) a = HttpOK s \<Longrightarrow> unforged J now (as_JWTRefreshSecret (au_data a)) tok I \<Longrightarrow> tok \<in> I"
  by (auto simp: handleRefreshToken_def RefreshAccessToken_def jwt_parse_def unforged_def split: if_splits sum.splits option.splits)

lemma session_invariant:
  assumes "session_run J a I P" and "jwt_carries_claims J"
  shows "(\<forall>tok\<in>I. \<exists>l\<in>P. speaks_for J (login_user l) tok) \<and> (\<forall>l\<in>P. login_genuine l)"
  using assms(1)
proof (induction rule: session_run.induct)
  case (run_login a I P env tls trp fp u p remember reply)
  note ok = login_ok [OF run_login.hyps(2)]
  with created_speak_for [of J "ae_now env" u remember a "lr_access reply" "lr_refresh reply"] run_login.IH
  show ?case by auto
next
  case (run_register a I P env u p g gks tok u' gks' a')
  note ok = register_ok [OF run_register.hyps(2)]
  have "speaks_for J u tok" using created_speak_for [of J "ae_now env" u True a' "fst (CreateToken J (ae_now env) u True a')"
      "snd (CreateToken J (ae_now env) u True a')"] ok by simp
  with ok run_register.IH show ?case by auto
next
  case (run_refresh a I P now tok s)
  have "tok \<in> I" using refresh_uses_known_token [OF run_refresh.hyps(3,2)] .
  with run_refresh.IH obtain l where "l \<in> P" "speaks_for J (login_user l) tok" by blast
  with refreshed_speaks_for [OF run_refresh.hyps(3) assms(2)] run_refresh.IH show ?case by auto
qed auto

text \<open>
  (C9) Every session goes back to a password. If signatures are not forged and a token carries the claims that were signed, then in
  every run of operations, restarts, logins, refreshes and registrations, whoever passes the guard of the administrator's pages
  carries the name of a login with the password of the administrator at that time or of a collaborator who was registered
  with a password.
\<close>

theorem session_provenance:
  assumes "session_run J a I P" and "withAuth J now hdr cookie a = HttpOK (u, role)"
    and "unforged J now (as_JWTSecret (au_data a)) (extractToken hdr cookie) I" and "jwt_carries_claims J"
  shows "role = ''admin'' \<and> (\<exists>l\<in>P. login_user l = u \<and> u \<noteq> [] \<and> login_genuine l)"
proof -
  have v: "VerifyToken J now (extractToken hdr cookie) a = Inr u" "role = ''admin''" "extractToken hdr cookie \<noteq> []"
    using assms(2) by (auto simp: withAuth_def Let_def split: if_splits sum.splits)
  then obtain c where c: "jwt_parse J now (as_JWTSecret (au_data a)) (extractToken hdr cookie) = Some c" "jc_sub c = u"
    by (auto simp: VerifyToken_def split: option.splits if_splits)
  then have "extractToken hdr cookie \<in> I" using assms(3) by (auto simp: unforged_def jwt_parse_def split: if_splits)
  with session_invariant [OF assms(1,4)] obtain l where
    l: "l \<in> P" "speaks_for J (login_user l) (extractToken hdr cookie)" "login_genuine l" by blast
  then have u: "login_user l = u" using c v(3) assms(4)
    by (fastforce simp: speaks_for_def jwt_carries_claims_def jwt_parse_def split: if_splits)
  then have "u \<noteq> []" using l(3) by (cases l) auto
  with l u v(2) show ?thesis by blast
qed

text \<open>
  The guard hands on the role of the administrator for every user name: the token that the registration of a collaborator answers
  with opens the pages of the administrator.
\<close>

lemma collaborator_token_is_admin:
  assumes "jwt_ok J" and "handleCollaboratorRegister J env (Some (u, p, g)) gks a = (HttpOK (tok, u'), gks', a')" and "tok \<noteq> []"
    and "now < jc_exp (access_claims (ae_now env) (7 * 24) u) * 1000000000"
  shows "withAuth J now (''Bearer '' @ tok) None a' = HttpOK (u, ''admin'')"
proof -
  have "tok = fst (CreateToken J (ae_now env) u True a')"
    using assms(2) by (auto simp: handleCollaboratorRegister_def split: if_splits prod.splits sum.splits)
  then have "jw_sign J (as_JWTSecret (au_data a')) (access_claims (ae_now env) (7 * 24) u) = Some tok"
    using assms(3) by (auto simp: CreateToken_def Let_def split: option.splits)
  from jwt_parse_signed [OF assms(1) this, of now] assms(3,4)
  show ?thesis by (simp add: withAuth_def extractToken_def VerifyToken_def) (simp add: access_claims_def)
qed

text \<open>A session survives a change of the password: the secret that signs tokens stays.\<close>

lemma password_change_keeps_sessions:
  "op \<noteq> RestartOp \<Longrightarrow> VerifyToken J now tok (auth_exec op env a) = VerifyToken J now tok a"
  by (simp add: VerifyToken_def exec_keeps_secrets)

section \<open>A forgotten password\<close>

text \<open>
  A forgotten password. A mail is only ever sent to the address of the administrator, when it is the address in the request and mail
  is set up; it carries a token that the reset accepts at that time. In all other cases nothing changes. Without mail settings
  every address gets the same answer.
\<close>

theorem forgot_password:
  assumes "handleForgotPassword env send public_url port body a = (reply, mail, b)"
  shows "(case mail of
      Some m \<Rightarrow> Initialized a \<and> body = Some (GetEmail a) \<and> GetEmail a \<noteq> [] \<and> IsSMTPConfigured a \<and> rm_to m = GetEmail a \<and>
        verifyResetTokenLocked (ae_now env) (rm_token m) b \<and> au_hash b = au_hash a \<and>
        reply = (if send (GetSMTP a) m then HttpOK SentToYourMailbox else HttpError 500 ''failed to send reset email'')
    | None \<Rightarrow> b = a \<and> \<not> (Initialized a \<and> body = Some (GetEmail a) \<and> GetEmail a \<noteq> [] \<and> IsSMTPConfigured a) \<and>
        (Initialized a \<and> body \<noteq> None \<longrightarrow> reply = HttpOK GenericReply))"
proof -
  have tok: "verifyResetTokenLocked (ae_now env) (fst (CreateResetToken env a)) (snd (CreateResetToken env a))"
    and same: "GetEmail (snd (CreateResetToken env a)) = GetEmail a" "GetSMTP (snd (CreateResetToken env a)) = GetSMTP a"
      "au_hash (snd (CreateResetToken env a)) = au_hash a"
  proof -
    have "ae_now env \<le> (ae_now env + minutes30) div 1000000000 * 1000000000" by (simp add: minutes30_def)
    then show "verifyResetTokenLocked (ae_now env) (fst (CreateResetToken env a)) (snd (CreateResetToken env a))"
      by (auto simp: CreateResetToken_def verifyResetTokenLocked_def reset_open_def format_stamp_def split: option.splits stamp.splits)
  qed (simp_all add: CreateResetToken_def GetEmail_def GetSMTP_def split: option.splits)
  obtain t c where ct: "CreateResetToken env a = (t, c)" by force
  show ?thesis using assms tok same
    by (cases body) (auto simp: handleForgotPassword_def ct Let_def split: if_splits)
qed

text \<open>
  With mail settings the answers differ: the address of the administrator is told apart from any other, against the intention
  of the generic answer.
\<close>

lemma forgot_password_tells_address:
  assumes "Initialized a" and "IsSMTPConfigured a" and "GetEmail a \<noteq> []" and "e \<noteq> GetEmail a"
  shows "fst (handleForgotPassword env send public_url port (Some e) a) = HttpOK GenericReply"
    and "fst (handleForgotPassword env send public_url port (Some (GetEmail a)) a) \<noteq> HttpOK GenericReply"
  using assms by (auto simp: handleForgotPassword_def Let_def split: prod.splits)

section \<open>A sample session\<close>

definition sample_jwt :: jwt_lib where
  "sample_jwt = \<lparr>jw_sign = (\<lambda>s c. if s = ''s'' \<and> c = access_claims 0 24 ''root'' then Some ''A''
                              else if s = ''r'' \<and> c = refresh_claims 0 ''root'' then Some ''R'' else None),
     jw_hmac = (\<lambda>_. True),
     jw_check = (\<lambda>now s tok. if s = ''s'' \<and> tok = ''A'' \<and> now < jc_exp (access_claims 0 24 ''root'') * 1000000000 then Some (access_claims 0 24 ''root'')
                              else if s = ''r'' \<and> tok = ''R'' \<and> now < jc_exp (refresh_claims 0 ''root'') * 1000000000 then Some (refresh_claims 0 ''root'')
                              else None)\<rparr>"

lemma sample_jwt_ok: "jwt_ok sample_jwt"
  by (simp add: jwt_ok_def sample_jwt_def)

lemma sample_jwt_carries: "jwt_carries_claims sample_jwt"
  by (auto simp: jwt_carries_claims_def sample_jwt_def split: if_splits)

lemma after_setup_secrets: "as_JWTSecret (au_data after_setup) = ''s''" "as_JWTRefreshSecret (au_data after_setup) = ''r''"
  unfolding after_setup_def by (simp_all add: exec_keeps_secrets first_start_data default_store_def sample_auth_env_def del: auth_exec.simps)

lemma sample_tokens: "CreateToken sample_jwt 0 ''root'' False after_setup = (''A'', ''R'')"
  by (simp add: CreateToken_def Let_def after_setup_secrets sample_jwt_def)

theorem token_kinds_witness:
  "VerifyToken sample_jwt 5 ''A'' after_setup = Inr ''root''"
proof -
  have "(5 :: int) < unix (0 + 24 * hour_ns) * 1000000000" by (simp add: unix_def hour_ns_def)
  with token_kinds [OF sample_jwt_ok sample_tokens _ _ _ refl refl, of 5] show ?thesis by simp
qed

lemma sample_login: "handleLogin sample_jwt sample_auth_env False False [] (Some (''root'', sample_password, False)) after_setup
    = HttpOK \<lparr>lr_access = ''A'', lr_refresh = ''R'', lr_maxAge = 86400, lr_secure = False\<rparr>"
proof -
  have user: "ad_Username (as_Admin (au_data after_setup)) = ''root''"
    using sample_password_ok by (simp add: after_setup_def SetupAdmin_def first_start_data) (simp add: sample_password_def)
  have "VerifyCredentials sample_auth_env ''root'' sample_password after_setup"
    using after_setup_simps(1,2) by (simp add: VerifyCredentials_def user Initialized_def sample_auth_env_def)
  moreover have "ae_now sample_auth_env = 0" by (simp add: sample_auth_env_def)
  moreover have "sample_password \<noteq> [] \<and> length sample_password \<le> 256" by (simp add: sample_password_def)
  ultimately show ?thesis by (simp add: handleLogin_def sample_tokens)
qed

theorem session_provenance_witness:
  "\<exists>l\<in>{AdminLogin sample_auth_env ''root'' sample_password after_setup}. login_user l = ''root'' \<and> login_genuine l"
proof -
  have run: "session_run sample_jwt after_setup {''A'', ''R''} {AdminLogin sample_auth_env ''root'' sample_password after_setup}"
    using run_login [OF run_start sample_login] by simp
  have "VerifyToken sample_jwt 5 ''A'' after_setup = Inr ''root''"
    by (simp add: VerifyToken_def jwt_parse_def after_setup_secrets)
      (simp add: sample_jwt_def access_claims_def unix_def hour_ns_def)
  then have auth: "withAuth sample_jwt 5 ''Bearer A'' None after_setup = HttpOK (''root'', ''admin'')"
    by (simp add: withAuth_def extractToken_def)
  have "unforged sample_jwt 5 (as_JWTSecret (au_data after_setup)) (extractToken ''Bearer A'' None) {''A'', ''R''}"
    by (simp add: unforged_def extractToken_def)
  from session_provenance [OF run auth this sample_jwt_carries] show ?thesis by simp
qed

theorem forgot_password_witness:
  "\<exists>reply. handleForgotPassword sample_auth_env (\<lambda>_ _. True) [] ''8000'' (Some ''x'') after_setup = (reply, None, after_setup) \<and> reply = HttpOK GenericReply"
proof -
  obtain reply mail b where r: "handleForgotPassword sample_auth_env (\<lambda>_ _. True) [] ''8000'' (Some ''x'') after_setup = (reply, mail, b)"
    by (metis prod_cases3)
  have "GetEmail after_setup = ''me@x''"
    using sample_password_ok by (simp add: GetEmail_def after_setup_def SetupAdmin_def first_start_data) (simp add: sample_password_def)
  then show ?thesis using forgot_password [OF r] r after_setup_simps(1) by (cases mail) auto
qed

end
