(* ===== verification/Invites.thy ===== *)
theory Invites
  imports Field_Encryption Storage_Model Calendar Hex_Text
begin

text \<open>
  Signed invitations (\<open>src/invite.go\<close> and the handlers of invitations in \<open>src/handlers.go\<close>): issuing, checking, marking as used, the
  portable code and the file.

  Parameters are the identity of the node and its signature function, SHA-256, the check of a signature, the JSON codec of an
  invitation and of its payload, and the public endpoint. Times are nanoseconds.
\<close>

section \<open>Data\<close>

record FederationInvite =
  fi_NetworkID :: string
  fi_Inviter :: string
  fi_InviterKey :: string
  fi_InviteePub :: string
  fi_InviteeName :: string
  fi_Endpoint :: string
  fi_ExpiresAt :: stamp
  fi_Type :: string
  fi_CreatedAt :: stamp
  fi_Signature :: string

record FederationInvitePayload =
  fp_NetworkID :: string
  fp_Inviter :: string
  fp_InviteePub :: string
  fp_InviteeName :: string
  fp_Endpoint :: string
  fp_ExpiresAt :: stamp
  fp_Type :: string
  fp_CreatedAt :: stamp

record invite_node =
  in_NodeID :: string
  in_PubKeyB64 :: string
  in_Sign :: "byte list \<Rightarrow> string"   \<comment> \<open>the signature in base64, empty when signing fails\<close>

record invite_env =
  ie_now :: int
  ie_network :: string
  ie_node :: "invite_node option"     \<comment> \<open>\<open>None\<close> when there is no node or it is not initialized\<close>
  ie_endpoint :: "string \<Rightarrow> string"
  ie_sha256 :: "string \<Rightarrow> byte list"
  ie_verify :: "string \<Rightarrow> byte list \<Rightarrow> string \<Rightarrow> bool"
  ie_payload_json :: "FederationInvitePayload \<Rightarrow> string"
  ie_invite_json :: "FederationInvite \<Rightarrow> string"
  ie_invite_parse :: "string \<Rightarrow> FederationInvite option"
  ie_io :: io_env

record inviteData =
  id_Issued :: "(string, FederationInvite) gomap"
  id_Used :: "(string, bool) gomap"

record inviteManager =
  im_issued :: "(string, FederationInvite) gomap"
  im_used :: "(string, bool) gomap"
  im_file :: "inviteData stored_file"

definition FederationInviteDirected :: string where "FederationInviteDirected = ''directed''"
definition FederationInvitePublic :: string where "FederationInvitePublic = ''public''"
definition FederationInviteChain :: string where "FederationInviteChain = ''chain''"

section \<open>The file\<close>

definition inv_saveLocked :: "io_env \<Rightarrow> inviteManager \<Rightarrow> inviteManager" where
  "inv_saveLocked io m = m\<lparr>im_file := atomicWriteFile io \<lparr>id_Issued = im_issued m, id_Used = im_used m\<rparr> (im_file m)\<rparr>"

definition initInviteManager :: "inviteData stored_file \<Rightarrow> inviteManager" where
  "initInviteManager f =
     (case f of
        Content d \<Rightarrow> \<lparr>im_issued = id_Issued d, im_used = id_Used d, im_file = f\<rparr>
      | _ \<Rightarrow> \<lparr>im_issued = [], im_used = [], im_file = f\<rparr>)"

section \<open>Signatures and identifiers\<close>

definition signPayload :: "invite_env \<Rightarrow> invite_node \<Rightarrow> FederationInvitePayload \<Rightarrow> string option" where
  "signPayload env n payload =
     (let sigB64 = in_Sign n (ie_sha256 env (ie_payload_json env payload))
      in if sigB64 = [] then None else b64_decode sigB64)"

definition verifyPayloadSignature :: "invite_env \<Rightarrow> FederationInvitePayload \<Rightarrow> string \<Rightarrow> string \<Rightarrow> bool" where
  "verifyPayloadSignature env payload sig pubKeyBytes \<longleftrightarrow>
     length pubKeyBytes = 32 \<and> ie_verify env pubKeyBytes (ie_sha256 env (ie_payload_json env payload)) sig"

definition inviteID :: "invite_env \<Rightarrow> FederationInvitePayload \<Rightarrow> string" where
  "inviteID env payload = ''inv-'' @ hexEncode (take 8 (ie_sha256 env (ie_payload_json env payload)))"

text \<open>The payload the signature is checked on, and the one the identifier of a presented invitation is made from: it has no name.\<close>

definition signed_payload :: "FederationInvite \<Rightarrow> FederationInvitePayload" where
  "signed_payload i = \<lparr>fp_NetworkID = fi_NetworkID i, fp_Inviter = fi_Inviter i, fp_InviteePub = fi_InviteePub i, fp_InviteeName = fi_InviteeName i,
     fp_Endpoint = fi_Endpoint i, fp_ExpiresAt = fi_ExpiresAt i, fp_Type = fi_Type i, fp_CreatedAt = fi_CreatedAt i\<rparr>"

definition inviteIDFromCode :: "invite_env \<Rightarrow> FederationInvite \<Rightarrow> string" where
  "inviteIDFromCode env i = inviteID env ((signed_payload i)\<lparr>fp_InviteeName := []\<rparr>)"

section \<open>Operations\<close>

definition inv_hour :: int where "inv_hour = 3600 * 1000000000"

text \<open>The duration is a product of 64-bit integers.\<close>

definition CreateInvite ::
    "invite_env \<Rightarrow> string \<Rightarrow> string \<Rightarrow> string \<Rightarrow> int \<Rightarrow> string \<Rightarrow> inviteManager \<Rightarrow> (string + FederationInvite) \<times> inviteManager" where
  "CreateInvite env inviteePub inviteeName inviteType expiresInHours host m =
     (case ie_node env of
        None \<Rightarrow> (Inl ''node not initialized'', m)
      | Some n \<Rightarrow>
          let payload = \<lparr>fp_NetworkID = ie_network env, fp_Inviter = in_NodeID n, fp_InviteePub = inviteePub, fp_InviteeName = inviteeName,
                fp_Endpoint = ie_endpoint env host, fp_ExpiresAt = format_stamp (ie_now env + i64 (expiresInHours * inv_hour)),
                fp_Type = inviteType, fp_CreatedAt = format_stamp (ie_now env)\<rparr>
          in case signPayload env n payload of
               None \<Rightarrow> (Inl ''failed to sign invite'', m)
             | Some sig \<Rightarrow>
                 let invite = \<lparr>fi_NetworkID = fp_NetworkID payload, fi_Inviter = fp_Inviter payload, fi_InviterKey = in_PubKeyB64 n,
                       fi_InviteePub = fp_InviteePub payload, fi_InviteeName = fp_InviteeName payload, fi_Endpoint = fp_Endpoint payload,
                       fi_ExpiresAt = fp_ExpiresAt payload, fi_Type = fp_Type payload, fi_CreatedAt = fp_CreatedAt payload,
                       fi_Signature = b64_encode sig\<rparr>
                 in (Inr invite, inv_saveLocked (ie_io env) (m\<lparr>im_issued := gput (inviteID env payload) invite (im_issued m)\<rparr>)))"

text \<open>\<open>None\<close> is success; the message of an error is kept without the details that are appended to it.\<close>

definition VerifyInvite :: "invite_env \<Rightarrow> FederationInvite \<Rightarrow> inviteManager \<Rightarrow> string option" where
  "VerifyInvite env invite m =
     (if fi_NetworkID invite \<noteq> ie_network env then Some ''network_id mismatch''
      else case fi_ExpiresAt invite of
        Stamp expiresAt \<Rightarrow>
          if ie_now env > expiresAt then Some ''invite expired''
          else if gget0 False (im_used m) (inviteIDFromCode env invite) \<and> fi_Type invite = FederationInviteDirected then Some ''invite already used''
          else (case b64_decode (fi_Signature invite) of
                  None \<Rightarrow> Some ''invalid signature encoding''
                | Some sigBytes \<Rightarrow>
                    (case b64_decode (fi_InviterKey invite) of
                       None \<Rightarrow> Some ''invalid inviter key encoding''
                     | Some pubKeyBytes \<Rightarrow>
                         if \<not> verifyPayloadSignature env (signed_payload invite) sigBytes pubKeyBytes
                         then Some ''signature verification failed'' else None))
      | _ \<Rightarrow> Some ''invalid expires_at'')"

definition MarkUsed :: "invite_env \<Rightarrow> FederationInvite \<Rightarrow> inviteManager \<Rightarrow> inviteManager" where
  "MarkUsed env invite m = inv_saveLocked (ie_io env) (m\<lparr>im_used := gput (inviteIDFromCode env invite) True (im_used m)\<rparr>)"

definition GetInvites :: "inviteManager \<Rightarrow> FederationInvite list" where
  "GetInvites m = map snd (im_issued m)"

section \<open>The portable code\<close>

text \<open>The URL alphabet of base64 has a minus and an underscore in the places of plus and slash.\<close>

definition to_url :: "char \<Rightarrow> char" where
  "to_url c = (if c = CHR ''+'' then CHR ''-'' else if c = CHR ''/'' then CHR ''_'' else c)"

definition from_url :: "char \<Rightarrow> char" where
  "from_url c = (if c = CHR ''-'' then CHR ''+'' else if c = CHR ''_'' then CHR ''/'' else c)"

definition b64url_encode :: "string \<Rightarrow> string" where
  "b64url_encode s = map to_url (b64_encode s)"

definition b64url_decode :: "string \<Rightarrow> string option" where
  "b64url_decode s = (if CHR ''+'' \<in> set s \<or> CHR ''/'' \<in> set s then None else b64_decode (map from_url s))"

definition EncodeInvite :: "invite_env \<Rightarrow> FederationInvite \<Rightarrow> string" where
  "EncodeInvite env invite = b64url_encode (ie_invite_json env invite)"

definition DecodeInvite :: "invite_env \<Rightarrow> string \<Rightarrow> string + FederationInvite" where
  "DecodeInvite env encoded =
     (case (case b64url_decode encoded of None \<Rightarrow> b64_decode encoded | Some b \<Rightarrow> Some b) of
        None \<Rightarrow> Inl ''invalid invite encoding''
      | Some b \<Rightarrow> (case ie_invite_parse env b of None \<Rightarrow> Inl ''invalid invite format'' | Some i \<Rightarrow> Inr i))"

section \<open>Handlers\<close>

record create_invite_request =
  cr_InviteePub :: string
  cr_InviteeName :: string
  cr_Type :: string
  cr_ExpiresIn :: int

definition handleCreateInvite ::
    "invite_env \<Rightarrow> string \<Rightarrow> create_invite_request option \<Rightarrow> inviteManager option \<Rightarrow> (FederationInvite \<times> string) http_result \<times> inviteManager option" where
  "handleCreateInvite env host body mo =
     (case mo of
        None \<Rightarrow> (HttpError 500 ''invite manager not initialized'', None)
      | Some m \<Rightarrow>
          (case body of
             None \<Rightarrow> (HttpError 400 ''invalid request body'', Some m)
           | Some b \<Rightarrow>
               let pub = (if cr_InviteePub b = [] then ''*'' else cr_InviteePub b);
                   hours = (if cr_ExpiresIn b \<le> 0 then 168 else cr_ExpiresIn b);
                   typ = (if cr_Type b = FederationInviteDirected \<or> cr_Type b = FederationInvitePublic \<or> cr_Type b = FederationInviteChain
                          then cr_Type b else FederationInvitePublic)
               in (case CreateInvite env pub (cr_InviteeName b) typ hours host m of
                     (Inl e, m') \<Rightarrow> (HttpError 400 e, Some m')
                   | (Inr invite, m') \<Rightarrow> (HttpOK (invite, EncodeInvite env invite), Some m'))))"

definition handleListInvites :: "inviteManager option \<Rightarrow> FederationInvite list http_result" where
  "handleListInvites mo = HttpOK (case mo of None \<Rightarrow> [] | Some m \<Rightarrow> GetInvites m)"

definition handleVerifyInvite :: "invite_env \<Rightarrow> string option \<Rightarrow> inviteManager option \<Rightarrow> (string + FederationInvite) http_result" where
  "handleVerifyInvite env body mo =
     (case mo of
        None \<Rightarrow> HttpError 500 ''invite manager not initialized''
      | Some m \<Rightarrow>
          (case body of
             None \<Rightarrow> HttpError 400 ''invalid request body''
           | Some encoded \<Rightarrow>
               (case DecodeInvite env encoded of
                  Inl e \<Rightarrow> HttpError 400 (''invalid invite: '' @ e)
                | Inr invite \<Rightarrow>
                    (case VerifyInvite env invite m of Some reason \<Rightarrow> HttpOK (Inl reason) | None \<Rightarrow> HttpOK (Inr invite)))))"

section \<open>An invitation from issuing to use\<close>

text \<open>
  What the environment promises: the public key of the node has 32 bytes and accepts what the node signs.
\<close>

definition invite_env_ok :: "invite_env \<Rightarrow> invite_node \<Rightarrow> bool" where
  "invite_env_ok env n \<longleftrightarrow> ie_node env = Some n \<and>
     (\<exists>key. b64_decode (in_PubKeyB64 n) = Some key \<and> length key = 32 \<and>
        (\<forall>h sig. b64_decode (in_Sign n h) = Some sig \<longrightarrow> ie_verify env key h sig))"

lemma url_table: "list_all (\<lambda>c. from_url (to_url c) = c \<and> to_url c \<noteq> CHR ''+'' \<and> to_url c \<noteq> CHR ''/'') (CHR ''='' # b64_alphabet)"
  by code_simp

lemma b64url_decode_encode: "b64url_decode (b64url_encode s) = Some s"
proof -
  have "c \<in> set (CHR ''='' # b64_alphabet)" if "c \<in> set (b64_encode s)" for c
  proof -
    have "length b64_alphabet = 64" by (simp add: b64_alphabet_def)
    then have "b64_char n \<in> set b64_alphabet" if "n < 64" for n using that by (simp add: b64_char_def)
    then show ?thesis using b64_encode_chars [OF that] by auto
  qed
  then have *: "from_url (to_url c) = c \<and> to_url c \<noteq> CHR ''+'' \<and> to_url c \<noteq> CHR ''/''" if "c \<in> set (b64_encode s)" for c
    using url_table that unfolding list_all_iff by blast
  have "map from_url (map to_url (b64_encode s)) = b64_encode s" using * by (simp add: map_idI)
  moreover have "CHR ''+'' \<notin> to_url ` set (b64_encode s)" "CHR ''/'' \<notin> to_url ` set (b64_encode s)" using * by force+
  ultimately show ?thesis by (simp add: b64url_decode_def b64url_encode_def b64_decode_encode)
qed

lemma VerifyInvite_iff:
  "VerifyInvite env i m = None \<longleftrightarrow>
     fi_NetworkID i = ie_network env \<and> (\<exists>e. fi_ExpiresAt i = Stamp e \<and> ie_now env \<le> e) \<and>
     \<not> (gget0 False (im_used m) (inviteIDFromCode env i) \<and> fi_Type i = FederationInviteDirected) \<and>
     (\<exists>sig key. b64_decode (fi_Signature i) = Some sig \<and> b64_decode (fi_InviterKey i) = Some key \<and>
        verifyPayloadSignature env (signed_payload i) sig key)"
  by (cases "fi_ExpiresAt i") (auto simp: VerifyInvite_def split: option.splits if_splits)

text \<open>
  Issued invitations are accepted. An invitation that the node issued decodes from its portable code, and it is accepted by every
  node of the network up to the time it expires and never after, unless it is directed and marked as used there.
\<close>

theorem issued_invite_accepted:
  assumes "invite_env_ok env n" and "CreateInvite env pub name typ hours host m = (Inr i, m')"
    and codec: "ie_invite_parse env (ie_invite_json env i) = Some i"
    and "ie_network env' = ie_network env" and "ie_sha256 env' = ie_sha256 env" and "ie_verify env' = ie_verify env"
    and "ie_payload_json env' = ie_payload_json env" and "ie_invite_parse env' = ie_invite_parse env"
  shows "DecodeInvite env' (EncodeInvite env i) = Inr i \<and>
    (\<exists>e. fi_ExpiresAt i = Stamp e \<and> e \<le> ie_now env + i64 (hours * inv_hour) \<and> ie_now env + i64 (hours * inv_hour) < e + 1000000000 \<and>
       (VerifyInvite env' i r = None \<longleftrightarrow>
          ie_now env' \<le> e \<and> \<not> (typ = FederationInviteDirected \<and> gget0 False (im_used r) (inviteIDFromCode env' i)))) \<and>
    fi_Inviter i = in_NodeID n \<and> fi_Type i = typ \<and> i \<in> set (GetInvites m')"
proof -
  obtain key where n: "ie_node env = Some n" and key: "b64_decode (in_PubKeyB64 n) = Some key" "length key = 32"
    and sound: "\<And>h sig. b64_decode (in_Sign n h) = Some sig \<Longrightarrow> ie_verify env key h sig"
    using assms(1) by (auto simp: invite_env_ok_def)
  let ?t = "ie_now env + i64 (hours * inv_hour)"
  obtain sig where sig: "signPayload env n (signed_payload i) = Some sig" and parts: "fi_Signature i = b64_encode sig" "fi_InviterKey i = in_PubKeyB64 n"
      "fi_NetworkID i = ie_network env" "fi_ExpiresAt i = format_stamp ?t" "fi_Inviter i = in_NodeID n" "fi_Type i = typ"
      "m' = inv_saveLocked (ie_io env) (m\<lparr>im_issued := gput (inviteID env (signed_payload i)) i (im_issued m)\<rparr>)"
    using assms(2) n by (auto simp: CreateInvite_def Let_def signed_payload_def split: option.splits)
  have valid: "verifyPayloadSignature env' (signed_payload i) sig key"
    using sig sound key(2) assms(5-7) by (auto simp: signPayload_def verifyPayloadSignature_def Let_def split: if_splits)
  have "gget (im_issued m') (inviteID env (signed_payload i)) = Some i" using parts(7) by (simp add: inv_saveLocked_def)
  then have "i \<in> set (GetInvites m')" unfolding GetInvites_def by (metis gget_in_set image_eqI list.set_map snd_conv)
  moreover have "DecodeInvite env' (EncodeInvite env i) = Inr i"
    using codec assms(8) by (simp add: DecodeInvite_def EncodeInvite_def b64url_decode_encode)
  moreover have "?t div 1000000000 * 1000000000 \<le> ?t \<and> ?t < ?t div 1000000000 * 1000000000 + 1000000000"
    by (simp add: minus_mod_eq_div_mult [symmetric])
  moreover have "VerifyInvite env' i r = None \<longleftrightarrow> ie_now env' \<le> ?t div 1000000000 * 1000000000 \<and>
      \<not> (typ = FederationInviteDirected \<and> gget0 False (im_used r) (inviteIDFromCode env' i))"
    using valid key assms(4) unfolding VerifyInvite_iff parts by (auto simp: format_stamp_def b64_decode_encode)
  ultimately show ?thesis using parts by (auto simp: format_stamp_def)
qed

text \<open>
  Accepted invitations are signed. An invitation is accepted exactly if it names this network, has not expired, is not a directed one that
  was marked as used, and its signature over all fields but the key is valid under the key it carries.
\<close>

theorem accepted_invite_signed:
  "VerifyInvite env i m = None \<longleftrightarrow>
     fi_NetworkID i = ie_network env \<and> (\<exists>e. fi_ExpiresAt i = Stamp e \<and> ie_now env \<le> e) \<and>
     \<not> (gget0 False (im_used m) (inviteIDFromCode env i) \<and> fi_Type i = FederationInviteDirected) \<and>
     (\<exists>sig key. b64_decode (fi_Signature i) = Some sig \<and> b64_decode (fi_InviterKey i) = Some key \<and> length key = 32 \<and>
        ie_verify env key (ie_sha256 env (ie_payload_json env (signed_payload i))) sig)"
  unfolding VerifyInvite_iff by (auto simp: verifyPayloadSignature_def)

text \<open>
  The key is not tied to the inviter: whoever has any key pair can make an invitation that names any inviter, any endpoint
  and any invitee, and every node accepts it.
\<close>

lemma any_inviter_can_be_named:
  assumes "length key = 32" and "\<forall>h. ie_verify env key h (sign h)" and "fi_NetworkID i = ie_network env"
    and "fi_ExpiresAt i = Stamp e" and "ie_now env \<le> e" and "im_used m = []"
  shows "\<exists>s. VerifyInvite env (i\<lparr>fi_Inviter := victim, fi_InviterKey := b64_encode key, fi_Signature := s\<rparr>) m = None"
proof -
  let ?p = "(signed_payload i)\<lparr>fp_Inviter := victim\<rparr>"
  let ?s = "b64_encode (sign (ie_sha256 env (ie_payload_json env ?p)))"
  have "signed_payload (i\<lparr>fi_Inviter := victim, fi_InviterKey := b64_encode key, fi_Signature := ?s\<rparr>) = ?p" by (simp add: signed_payload_def)
  then have "VerifyInvite env (i\<lparr>fi_Inviter := victim, fi_InviterKey := b64_encode key, fi_Signature := ?s\<rparr>) m = None"
    using assms by (simp add: VerifyInvite_iff verifyPayloadSignature_def b64_decode_encode gget0_def)
  then show ?thesis by blast
qed

text \<open>
  The mark of one invitation covers every invitation that only differs in the name of the invitee, and the identifier under which a
  named invitation was issued is not the one it is marked under.
\<close>

lemma mark_ignores_name:
  "VerifyInvite env ((i\<lparr>fi_InviteeName := name\<rparr>)\<lparr>fi_Type := FederationInviteDirected\<rparr>) (MarkUsed env (i\<lparr>fi_Type := FederationInviteDirected\<rparr>) m) \<noteq> None"
  by (simp add: VerifyInvite_iff MarkUsed_def inv_saveLocked_def inviteIDFromCode_def signed_payload_def)

section \<open>Used invitations and restarts\<close>

datatype invite_op = CreateOp string string string int string | UseOp FederationInvite | RestartInvites

fun invite_exec :: "invite_op \<Rightarrow> invite_env \<Rightarrow> inviteManager \<Rightarrow> inviteManager" where
  "invite_exec (CreateOp pub name typ hours host) env m = snd (CreateInvite env pub name typ hours host m)"
| "invite_exec (UseOp i) env m = MarkUsed env i m"
| "invite_exec RestartInvites env m = initInviteManager (im_file m)"

definition invite_run :: "(invite_op \<times> invite_env) list \<Rightarrow> inviteManager \<Rightarrow> inviteManager" where
  "invite_run ops m = fold (\<lambda>(op, env). invite_exec op env) ops m"

definition invites_saved :: "inviteManager \<Rightarrow> bool" where
  "invites_saved m \<longleftrightarrow> im_file m = Content \<lparr>id_Issued = im_issued m, id_Used = im_used m\<rparr> \<or>
     (im_file m = Absent \<and> im_issued m = [] \<and> im_used m = [])"

lemma invite_exec_saved:
  assumes "invites_saved m" and "io_write (ie_io env)"
  shows "invites_saved (invite_exec op env m)"
    and "\<exists>new used. im_issued (invite_exec op env m) = fold (\<lambda>(k, v). gput k v) new (im_issued m) \<and>
      im_used (invite_exec op env m) = fold (\<lambda>k. gput k True) used (im_used m)"
proof -
  have restart: "im_issued (initInviteManager (im_file m)) = im_issued m \<and> im_used (initInviteManager (im_file m)) = im_used m \<and>
      im_file (initInviteManager (im_file m)) = im_file m"
    using assms(1) by (auto simp: invites_saved_def initInviteManager_def)
  show "invites_saved (invite_exec op env m)"
    using assms restart
    by (cases op) (auto simp: invites_saved_def CreateInvite_def MarkUsed_def inv_saveLocked_def atomicWriteFile_def Let_def split: option.splits)
  have same: "\<exists>new used. im_issued m = fold (\<lambda>(k, v). gput k v) new (im_issued m) \<and> im_used m = fold (\<lambda>k. gput k True) used (im_used m)"
    by (rule exI [where x = "[]"], rule exI [where x = "[]"]) simp
  show "\<exists>new used. im_issued (invite_exec op env m) = fold (\<lambda>(k, v). gput k v) new (im_issued m) \<and>
      im_used (invite_exec op env m) = fold (\<lambda>k. gput k True) used (im_used m)"
  proof (cases op)
    case (CreateOp pub name knd hours host)
    show ?thesis
    proof (cases "CreateInvite env pub name knd hours host m")
      case (Pair r m')
      have "m' = m \<or> (\<exists>k i. m' = inv_saveLocked (ie_io env) (m\<lparr>im_issued := gput k i (im_issued m)\<rparr>))"
        using Pair by (auto simp: CreateInvite_def Let_def split: option.splits)
      then show ?thesis
      proof
        assume "\<exists>k i. m' = inv_saveLocked (ie_io env) (m\<lparr>im_issued := gput k i (im_issued m)\<rparr>)"
        then obtain k i where "m' = inv_saveLocked (ie_io env) (m\<lparr>im_issued := gput k i (im_issued m)\<rparr>)" by blast
        then show ?thesis
          by (intro exI [where x = "[(k, i)]"] exI [where x = "Nil"]) (simp add: CreateOp Pair inv_saveLocked_def)
      next
        assume "m' = m"
        then have "invite_exec op env m = m" by (simp add: CreateOp Pair)
        then show ?thesis using same by simp
      qed
    qed
  next
    case (UseOp i)
    have "im_issued (MarkUsed env i m) = fold (\<lambda>(k, v). gput k v) [] (im_issued m) \<and>
        im_used (MarkUsed env i m) = fold (\<lambda>k. gput k True) [inviteIDFromCode env i] (im_used m)"
      by (simp add: MarkUsed_def inv_saveLocked_def)
    then show ?thesis unfolding UseOp invite_exec.simps by blast
  qed (use same restart in simp)
qed

lemma used_grows: "gget0 False m k \<Longrightarrow> gget0 False (fold (\<lambda>k. gput k True) ks m) k"
  by (induction ks arbitrary: m) auto

text \<open>
  A used invitation stays used. Once a directed invitation is marked, it is refused for good, through any further operations and
  restarts with successful writes; and in every run the next process has the same invitations and marks.
\<close>

theorem used_invite_refused:
  assumes "invites_saved m" and "\<forall>(op, env)\<in>set ops. io_write (ie_io env)" and "io_write (ie_io env)"
  shows "(fi_Type i = FederationInviteDirected \<longrightarrow> (\<forall>now. VerifyInvite (env\<lparr>ie_now := now\<rparr>) i (invite_run ops (MarkUsed env i m)) \<noteq> None)) \<and>
    im_issued (initInviteManager (im_file (invite_run ops m))) = im_issued (invite_run ops m) \<and>
    im_used (initInviteManager (im_file (invite_run ops m))) = im_used (invite_run ops m)"
proof -
  have run: "invites_saved (invite_run ops m) \<and> (gget0 False (im_used m) k \<longrightarrow> gget0 False (im_used (invite_run ops m)) k)"
    if "invites_saved m" for k m
    using that assms(2)
  proof (induction ops arbitrary: m)
    case (Cons x ops)
    obtain op e where x: "x = (op, e)" by force
    have w: "io_write (ie_io e)" using Cons.prems(2) by (simp add: x)
    obtain used where "im_used (invite_exec op e m) = fold (\<lambda>k. gput k True) used (im_used m)"
      using invite_exec_saved(2) [OF Cons.prems(1) w] by blast
    then show ?case
      using Cons.IH [of "invite_exec op e m"] invite_exec_saved(1) [OF Cons.prems(1) w] Cons.prems(2) used_grows [of "im_used m" k used]
      by (simp add: invite_run_def x)
  qed (simp add: invite_run_def)
  have "invites_saved (MarkUsed env i m)" using invite_exec_saved(1) [OF assms(1,3), of "UseOp i"] by simp
  moreover have "gget0 False (im_used (MarkUsed env i m)) (inviteIDFromCode env i)" by (simp add: MarkUsed_def inv_saveLocked_def)
  ultimately have "gget0 False (im_used (invite_run ops (MarkUsed env i m))) (inviteIDFromCode env i)" using run by blast
  moreover have "inviteIDFromCode (env\<lparr>ie_now := now\<rparr>) i = inviteIDFromCode env i" for now
    by (simp add: inviteIDFromCode_def inviteID_def)
  moreover have "invites_saved (invite_run ops m)" using run [OF assms(1)] by blast
  ultimately show ?thesis
    by (auto simp: VerifyInvite_iff invites_saved_def initInviteManager_def)
qed

section \<open>A sample invitation\<close>

definition sample_sig64 :: string where "sample_sig64 = b64_encode ''sig''"
definition sample_key64 :: string where "sample_key64 = b64_encode (replicate 32 CHR ''k'')"

lemma sample_codes: "b64_decode sample_sig64 = Some ''sig''" "b64_decode sample_key64 = Some (replicate 32 CHR ''k'')"
    "sample_sig64 \<noteq> []" "b64_encode ''sig'' = sample_sig64"
  unfolding sample_sig64_def sample_key64_def b64_decode_encode by simp_all

definition sample_node :: invite_node where
  "sample_node = \<lparr>in_NodeID = ''n1'', in_PubKeyB64 = sample_key64, in_Sign = (\<lambda>h. sample_sig64)\<rparr>"

definition sample_invite :: FederationInvite where
  "sample_invite = \<lparr>fi_NetworkID = ''net'', fi_Inviter = ''n1'', fi_InviterKey = sample_key64, fi_InviteePub = ''bob'',
     fi_InviteeName = [], fi_Endpoint = ''h'', fi_ExpiresAt = Stamp inv_hour, fi_Type = ''directed'', fi_CreatedAt = Stamp 0,
     fi_Signature = sample_sig64\<rparr>"

definition sample_invite_env :: "invite_env" where
  "sample_invite_env = \<lparr>ie_now = 0, ie_network = ''net'', ie_node = Some sample_node, ie_endpoint = (\<lambda>h. h), ie_sha256 = (\<lambda>_. []),
     ie_verify = (\<lambda>k h s. s = ''sig''), ie_payload_json = fp_Inviter, ie_invite_json = fi_Inviter, ie_invite_parse = (\<lambda>_. Some sample_invite), ie_io = io_fine False\<rparr>"

lemma sample_create: "CreateInvite sample_invite_env ''bob'' [] ''directed'' 1 ''h'' (initInviteManager Absent) =
    (Inr sample_invite, snd (CreateInvite sample_invite_env ''bob'' [] ''directed'' 1 ''h'' (initInviteManager Absent)))"
  by (simp add: prod_eq_iff CreateInvite_def sample_invite_env_def sample_node_def signPayload_def Let_def sample_codes sample_invite_def
      format_stamp_def inv_hour_def i64_def del: b64_encode.simps)

lemma sample_invite_env_ok: "invite_env_ok sample_invite_env sample_node"
  by (auto simp: invite_env_ok_def sample_invite_env_def sample_node_def sample_codes)

theorem issued_invite_accepted_witness:
  "VerifyInvite sample_invite_env sample_invite (initInviteManager Absent) = None"
proof -
  have "ie_invite_parse sample_invite_env (ie_invite_json sample_invite_env sample_invite) = Some sample_invite"
    by (simp add: sample_invite_env_def)
  from issued_invite_accepted [OF sample_invite_env_ok sample_create this refl refl refl refl refl, of "initInviteManager Absent"]
  show ?thesis
    by (auto simp: initInviteManager_def gget0_def) (simp add: sample_invite_env_def sample_invite_def inv_hour_def)
qed

theorem used_invite_refused_witness:
  "VerifyInvite (sample_invite_env\<lparr>ie_now := 5\<rparr>) sample_invite
     (invite_run [(RestartInvites, sample_invite_env)] (MarkUsed sample_invite_env sample_invite (initInviteManager Absent))) \<noteq> None"
proof -
  have 1: "invites_saved (initInviteManager Absent)" by (simp add: invites_saved_def initInviteManager_def)
  have 2: "\<forall>(op, env)\<in>set [(RestartInvites, sample_invite_env)]. io_write (ie_io env)" "io_write (ie_io sample_invite_env)"
    by (simp_all add: sample_invite_env_def io_fine_def)
  have "fi_Type sample_invite = FederationInviteDirected" by (simp add: sample_invite_def FederationInviteDirected_def)
  with used_invite_refused [OF 1 2] show ?thesis by blast
qed

end
