(* ===== verification/Node_Weights.thy ===== *)
theory Node_Weights
  imports Storage_Model Calendar
begin

text \<open>
  Weights of nodes with their approval (\<open>src/node_weight.go\<close>), the split of the quota of a node between guest keys and the public
  key (\<open>src/credits.go\<close>), and the handlers of both (\<open>src/handlers.go\<close>, \<open>src/network_keys.go\<close>).

  A weight is a \<open>float64\<close> and modelled as a real number. The setting \<open>node_approval_mode\<close> and the declared budget live in the
  configuration; their stored values are fields of the manager here.
\<close>

section \<open>Weights\<close>

record NodeWeightOverride =
  nw_NodeID :: string
  nw_Weight :: real
  nw_Approved :: bool
  nw_UpdatedAt :: stamp

record ApprovalRequest =
  ar_ID :: string
  ar_FromNodeID :: string
  ar_ToNodeID :: string
  ar_Weight :: real
  ar_Status :: string
  ar_CreatedAt :: stamp
  ar_ResolvedAt :: stamp

record nodeWeightData =
  wd_Overrides :: "(string, NodeWeightOverride) gomap"
  wd_Pending :: "(string, ApprovalRequest) gomap"

record nodeWeightManager =
  wm_overrides :: "(string, NodeWeightOverride) gomap"
  wm_pending :: "(string, ApprovalRequest) gomap"
  wm_approvalMode :: string
  wm_ownTokenBudget :: int
  wm_file :: "nodeWeightData stored_file"
  wm_cfgMode :: "string option"
  wm_cfgBudget :: int

record weight_env =
  we_now :: int
  we_self :: "string option"    \<comment> \<open>the identifier of this node, if there is one\<close>
  we_reqID :: string            \<comment> \<open>\<open>generateReqID()\<close>\<close>
  we_io :: io_env

definition nwm_save :: "io_env \<Rightarrow> nodeWeightManager \<Rightarrow> nodeWeightManager" where
  "nwm_save io m = m\<lparr>wm_file := atomicWriteFile io \<lparr>wd_Overrides = wm_overrides m, wd_Pending = wm_pending m\<rparr> (wm_file m)\<rparr>"

definition nwm_load :: "nodeWeightManager \<Rightarrow> nodeWeightManager" where
  "nwm_load m = (case wm_file m of Content d \<Rightarrow> m\<lparr>wm_overrides := wd_Overrides d, wm_pending := wd_Pending d\<rparr> | _ \<Rightarrow> m)"

definition initNodeWeightManager :: "nodeWeightData stored_file \<Rightarrow> string option \<Rightarrow> int \<Rightarrow> nodeWeightManager" where
  "initNodeWeightManager f mode budget =
     nwm_load \<lparr>wm_overrides = [], wm_pending = [], wm_approvalMode = (case mode of Some s \<Rightarrow> s | None \<Rightarrow> ''auto''),
       wm_ownTokenBudget = budget, wm_file = f, wm_cfgMode = mode, wm_cfgBudget = budget\<rparr>"

definition GetWeightMultiplier :: "string option \<Rightarrow> string \<Rightarrow> nodeWeightManager \<Rightarrow> real" where
  "GetWeightMultiplier self nodeID m =
     (if self = Some nodeID then 3 / 2
      else case gget (wm_overrides m) nodeID of
        Some ov \<Rightarrow> if wm_approvalMode m = ''auto'' \<or> nw_Approved ov then nw_Weight ov else 1
      | None \<Rightarrow> 1)"

text \<open>
  Setting a weight. The file is written before the request is added. In manual mode the node asks itself for its identifier; without
  one this is a nil dereference, the result \<open>None\<close>.
\<close>

definition SetOverride :: "weight_env \<Rightarrow> string \<Rightarrow> real \<Rightarrow> nodeWeightManager \<Rightarrow> ApprovalRequest option option \<times> nodeWeightManager" where
  "SetOverride env nodeID weight m =
     (let isOwn = (we_self env = Some nodeID);
          ov = \<lparr>nw_NodeID = nodeID, nw_Weight = weight, nw_Approved = (isOwn \<or> wm_approvalMode m = ''auto''),
                nw_UpdatedAt = format_stamp (we_now env)\<rparr>;
          m1 = nwm_save (we_io env) (m\<lparr>wm_overrides := gput nodeID ov (wm_overrides m)\<rparr>)
      in if \<not> isOwn \<and> wm_approvalMode m = ''manual''
         then (case we_self env of
                 None \<Rightarrow> (None, m1)
               | Some self \<Rightarrow>
                   let req = \<lparr>ar_ID = we_reqID env, ar_FromNodeID = self, ar_ToNodeID = nodeID, ar_Weight = weight,
                         ar_Status = ''pending'', ar_CreatedAt = format_stamp (we_now env), ar_ResolvedAt = NoStamp\<rparr>
                   in (Some (Some req), m1\<lparr>wm_pending := gput (we_reqID env) req (wm_pending m1)\<rparr>))
         else (Some None, m1))"

definition ResolveApproval :: "weight_env \<Rightarrow> string \<Rightarrow> bool \<Rightarrow> nodeWeightManager \<Rightarrow> (string + unit) \<times> nodeWeightManager" where
  "ResolveApproval env requestID approve m =
     (case gget (wm_pending m) requestID of
        None \<Rightarrow> (Inl ''request not found'', m)
      | Some req \<Rightarrow>
          if ar_Status req \<noteq> ''pending'' then (Inl ''request already resolved'', m)
          else
            let overrides =
                  (if approve
                   then (case gget (wm_overrides m) (ar_ToNodeID req) of
                           Some ov \<Rightarrow> gput (ar_ToNodeID req) (ov\<lparr>nw_Approved := True, nw_UpdatedAt := format_stamp (we_now env)\<rparr>) (wm_overrides m)
                         | None \<Rightarrow> wm_overrides m)
                   else gdel (ar_ToNodeID req) (wm_overrides m));
                req' = req\<lparr>ar_Status := (if approve then ''approved'' else ''rejected''), ar_ResolvedAt := format_stamp (we_now env)\<rparr>
            in (Inr (), nwm_save (we_io env) (m\<lparr>wm_overrides := overrides, wm_pending := gput requestID req' (wm_pending m)\<rparr>)))"

definition GetOverrides :: "nodeWeightManager \<Rightarrow> NodeWeightOverride list" where
  "GetOverrides m = map snd (wm_overrides m)"

definition GetAllRequests :: "nodeWeightManager \<Rightarrow> ApprovalRequest list" where
  "GetAllRequests m = map snd (wm_pending m)"

definition GetPendingRequests :: "nodeWeightManager \<Rightarrow> ApprovalRequest list" where
  "GetPendingRequests m = filter (\<lambda>r. ar_Status r = ''pending'') (map snd (wm_pending m))"

definition SetApprovalMode :: "string \<Rightarrow> nodeWeightManager \<Rightarrow> nodeWeightManager" where
  "SetApprovalMode mode m = m\<lparr>wm_approvalMode := mode, wm_cfgMode := Some mode\<rparr>"

definition SetTokenBudget :: "int \<Rightarrow> nodeWeightManager \<Rightarrow> nodeWeightManager" where
  "SetTokenBudget budget m = m\<lparr>wm_ownTokenBudget := budget, wm_cfgBudget := budget\<rparr>"

definition GetTokenBudget :: "nodeWeightManager \<Rightarrow> int" where
  "GetTokenBudget m = wm_ownTokenBudget m"

section \<open>Handlers of the weights\<close>

definition handleGetNodeWeights :: "nodeWeightManager option \<Rightarrow> (NodeWeightOverride list \<times> string \<times> int) http_result" where
  "handleGetNodeWeights mo =
     HttpOK (case mo of None \<Rightarrow> ([], ''auto'', 0) | Some m \<Rightarrow> (GetOverrides m, wm_approvalMode m, GetTokenBudget m))"

text \<open>A panic of the operation is answered by the server with an internal error.\<close>

definition handleSetNodeWeight ::
    "weight_env \<Rightarrow> (string \<times> real) option \<Rightarrow> nodeWeightManager option \<Rightarrow> (bool \<times> ApprovalRequest option) http_result \<times> nodeWeightManager option" where
  "handleSetNodeWeight env body mo =
     (case mo of
        None \<Rightarrow> (HttpError 500 ''node weight manager not initialized'', None)
      | Some m \<Rightarrow>
          (case body of
             None \<Rightarrow> (HttpError 400 ''invalid request body'', Some m)
           | Some (nodeID, weight) \<Rightarrow>
               if nodeID = [] then (HttpError 400 ''node_id is required'', Some m)
               else if weight < 0 then (HttpError 400 ''weight must be >= 0'', Some m)
               else (case SetOverride env nodeID weight m of
                       (None, m') \<Rightarrow> (HttpError 500 ''panic'', Some m')
                     | (Some (Some req), m') \<Rightarrow> (HttpOK (False, Some req), Some m')
                     | (Some None, m') \<Rightarrow> (HttpOK (wm_approvalMode m' = ''auto'' \<or> we_self env = Some nodeID, None), Some m'))))"

definition handleGetApprovals :: "bool \<Rightarrow> nodeWeightManager option \<Rightarrow> ApprovalRequest list http_result" where
  "handleGetApprovals pendingOnly mo =
     HttpOK (case mo of None \<Rightarrow> [] | Some m \<Rightarrow> if pendingOnly then GetPendingRequests m else GetAllRequests m)"

definition handleResolveApproval ::
    "weight_env \<Rightarrow> (string \<times> bool) option \<Rightarrow> nodeWeightManager option \<Rightarrow> (string \<times> bool) http_result \<times> nodeWeightManager option" where
  "handleResolveApproval env body mo =
     (case mo of
        None \<Rightarrow> (HttpError 500 ''node weight manager not initialized'', None)
      | Some m \<Rightarrow>
          (case body of
             None \<Rightarrow> (HttpError 400 ''invalid request body'', Some m)
           | Some (requestID, approve) \<Rightarrow>
               if requestID = [] then (HttpError 400 ''request_id is required'', Some m)
               else (case ResolveApproval env requestID approve m of
                       (Inl e, m') \<Rightarrow> (HttpError 400 e, Some m')
                     | (Inr _, m') \<Rightarrow> (HttpOK (requestID, approve), Some m'))))"

definition handleSetTokenBudget :: "int option \<Rightarrow> nodeWeightManager option \<Rightarrow> int http_result \<times> nodeWeightManager option" where
  "handleSetTokenBudget body mo =
     (case mo of
        None \<Rightarrow> (HttpError 500 ''node weight manager not initialized'', None)
      | Some m \<Rightarrow>
          (case body of
             None \<Rightarrow> (HttpError 400 ''invalid request body'', Some m)
           | Some b \<Rightarrow> if b < 0 then (HttpError 400 ''budget must be >= 0'', Some m) else (HttpOK b, Some (SetTokenBudget b m))))"

section \<open>Weights need approval\<close>

datatype weight_op = SetW string real | ResolveW string bool | ModeW string | BudgetW int | RestartW

fun weight_exec :: "weight_op \<Rightarrow> weight_env \<Rightarrow> nodeWeightManager \<Rightarrow> nodeWeightManager" where
  "weight_exec (SetW i w) env m = snd (SetOverride env i w m)"
| "weight_exec (ResolveW r b) env m = snd (ResolveApproval env r b m)"
| "weight_exec (ModeW s) env m = SetApprovalMode s m"
| "weight_exec (BudgetW b) env m = SetTokenBudget b m"
| "weight_exec RestartW env m = initNodeWeightManager (wm_file m) (wm_cfgMode m) (wm_cfgBudget m)"

text \<open>
  The nodes whose weight was approved since it was last set: setting a weight approves it for the own node and in automatic mode, and
  otherwise takes the approval back; resolving a pending request gives or takes it.
\<close>

fun approvals :: "weight_op \<Rightarrow> weight_env \<Rightarrow> nodeWeightManager \<Rightarrow> string set \<Rightarrow> string set" where
  "approvals (SetW i w) env m A = (if we_self env = Some i \<or> wm_approvalMode m = ''auto'' then insert i A else A - {i})"
| "approvals (ResolveW r b) env m A =
     (case gget (wm_pending m) r of
        Some req \<Rightarrow> if ar_Status req \<noteq> ''pending'' then A else if b then insert (ar_ToNodeID req) A else A - {ar_ToNodeID req}
      | None \<Rightarrow> A)"
| "approvals _ env m A = A"

inductive weight_run :: "nodeWeightManager \<Rightarrow> string set \<Rightarrow> bool" where
  weight_start: "weight_run (initNodeWeightManager Absent mode budget) {}"
| weight_step: "weight_run m A \<Longrightarrow> io_write (we_io env) \<Longrightarrow> (\<forall>i w. op = SetW i w \<longrightarrow> 0 \<le> w \<and> gget (wm_pending m) (we_reqID env) = None) \<Longrightarrow>
    weight_run (weight_exec op env m) (approvals op env m A)"

definition weights_saved :: "nodeWeightManager \<Rightarrow> bool" where
  "weights_saved m \<longleftrightarrow> (case wm_file m of Content d \<Rightarrow> wd_Overrides d = wm_overrides m | Corrupt \<Rightarrow> False | Absent \<Rightarrow> wm_overrides m = [])"

definition weights_ok :: "nodeWeightManager \<Rightarrow> string set \<Rightarrow> bool" where
  "weights_ok m A \<longleftrightarrow> weights_saved m \<and> gmap_ok (wm_overrides m) \<and>
     (\<forall>i ov. gget (wm_overrides m) i = Some ov \<longrightarrow> nw_NodeID ov = i \<and> 0 \<le> nw_Weight ov \<and> (nw_Approved ov \<longrightarrow> i \<in> A))"

lemma SetOverride_simps:
  "wm_overrides (snd (SetOverride env i w m)) = gput i \<lparr>nw_NodeID = i, nw_Weight = w,
     nw_Approved = (we_self env = Some i \<or> wm_approvalMode m = ''auto''), nw_UpdatedAt = format_stamp (we_now env)\<rparr> (wm_overrides m)"
  "io_write (we_io env) \<Longrightarrow> weights_saved (snd (SetOverride env i w m))"
  by (simp_all add: SetOverride_def Let_def nwm_save_def weights_saved_def atomicWriteFile_def split: option.splits)

lemma weight_run_ok: "weight_run m A \<Longrightarrow> weights_ok m A"
proof (induction rule: weight_run.induct)
  case (weight_start mode budget)
  then show ?case by (simp add: weights_ok_def weights_saved_def initNodeWeightManager_def nwm_load_def)
next
  case (weight_step m A env op)
  show ?case
  proof (cases op)
    case (SetW i w)
    then show ?thesis using weight_step by (auto simp: weights_ok_def SetOverride_simps)
  next
    case (ResolveW r b)
    show ?thesis
    proof (cases "gget (wm_pending m) r")
      case (Some req)
      show ?thesis
      proof (cases "ar_Status req = ''pending''")
        case True
        then show ?thesis using weight_step.IH weight_step.hyps(2)
          by (auto simp: ResolveW Some ResolveApproval_def Let_def nwm_save_def atomicWriteFile_def weights_ok_def weights_saved_def
              split: option.splits if_splits)
      qed (use weight_step.IH in \<open>simp add: ResolveW Some ResolveApproval_def\<close>)
    qed (use weight_step.IH ResolveW in \<open>simp add: ResolveApproval_def\<close>)
  next
    case RestartW
    then show ?thesis using weight_step.IH
      by (auto simp: weights_ok_def weights_saved_def initNodeWeightManager_def nwm_load_def split: stored_file.splits)
  next
    case (ModeW s)
    then show ?thesis using weight_step.IH
      by (cases "wm_file m") (simp_all add: weights_ok_def weights_saved_def SetApprovalMode_def)
  next
    case (BudgetW b)
    then show ?thesis using weight_step.IH
      by (cases "wm_file m") (simp_all add: weights_ok_def weights_saved_def SetTokenBudget_def)
  qed
qed

text \<open>
  Weights need approval. In every run with successful writes, restarts included, the weight of another node counts as 1 unless the mode is automatic
  or the weight was approved since it was last set; weights are never negative and the own node counts as 1.5.
\<close>

theorem weight_needs_approval:
  assumes "weight_run m A"
  shows "0 \<le> GetWeightMultiplier self i m \<and> (self = Some i \<longrightarrow> GetWeightMultiplier self i m = 3 / 2) \<and>
    (self \<noteq> Some i \<and> GetWeightMultiplier self i m \<noteq> 1 \<longrightarrow> wm_approvalMode m = ''auto'' \<or> i \<in> A)"
  using weight_run_ok [OF assms] by (auto simp: weights_ok_def GetWeightMultiplier_def split: option.splits)

section \<open>Requests are resolved once\<close>

definition request_settled :: "string \<Rightarrow> ApprovalRequest \<Rightarrow> nodeWeightManager \<Rightarrow> bool" where
  "request_settled r req m \<longleftrightarrow> gget (wm_pending m) r = Some req \<and> ar_Status req \<noteq> ''pending'' \<and>
     (case wm_file m of Content d \<Rightarrow> gget (wd_Pending d) r = Some req | _ \<Rightarrow> False)"

lemma settled_step:
  assumes "request_settled r req m" and "\<forall>i w. op = SetW i w \<longrightarrow> gget (wm_pending m) (we_reqID env) = None"
  shows "request_settled r req (weight_exec op env m)"
proof (cases op)
  case (SetW i w)
  then have "we_reqID env \<noteq> r" using assms by (auto simp: request_settled_def)
  with SetW assms(1) show ?thesis
    by (auto simp: SetOverride_def Let_def nwm_save_def atomicWriteFile_def request_settled_def split: option.splits stored_file.splits)
next
  case (ResolveW q b)
  show ?thesis
  proof (cases "gget (wm_pending m) q")
    case (Some req2)
    have "q = r \<Longrightarrow> req2 = req" using Some assms(1) by (simp add: request_settled_def)
    then show ?thesis using assms(1) Some ResolveW
      by (auto simp: ResolveApproval_def Let_def nwm_save_def atomicWriteFile_def request_settled_def split: stored_file.splits)
  qed (use assms(1) ResolveW in \<open>simp add: ResolveApproval_def\<close>)
next
  case RestartW
  then show ?thesis using assms(1)
    by (auto simp: request_settled_def initNodeWeightManager_def nwm_load_def split: stored_file.splits)
qed (use assms(1) in \<open>simp_all add: request_settled_def SetApprovalMode_def SetTokenBudget_def\<close>)

fun fresh_requests :: "(weight_op \<times> weight_env) list \<Rightarrow> nodeWeightManager \<Rightarrow> bool" where
  "fresh_requests [] m \<longleftrightarrow> True"
| "fresh_requests ((op, env) # ops) m \<longleftrightarrow> (\<forall>i w. op = SetW i w \<longrightarrow> gget (wm_pending m) (we_reqID env) = None) \<and>
     fresh_requests ops (weight_exec op env m)"

text \<open>
  Requests are resolved once. A request that was resolved with a successful write stays as it is in every further run, restarts included, and is refused from then on.
\<close>

theorem request_resolved_once:
  assumes "ResolveApproval env r approve m = (Inr (), m1)" and "io_write (we_io env)" and "fresh_requests ops m1"
    and "m2 = fold (\<lambda>(op, e). weight_exec op e) ops m1"
  shows "(\<exists>req. gget (wm_pending m2) r = Some req \<and> ar_Status req = (if approve then ''approved'' else ''rejected'') \<and>
      gget (wm_pending m1) r = Some req) \<and>
    ResolveApproval env' r b m2 = (Inl ''request already resolved'', m2)"
proof -
  have "\<exists>req. request_settled r req m1 \<and> ar_Status req = (if approve then ''approved'' else ''rejected'')"
    using assms(1,2) by (auto simp: ResolveApproval_def Let_def request_settled_def nwm_save_def atomicWriteFile_def split: option.splits if_splits)
  then obtain req where s: "request_settled r req m1" "ar_Status req = (if approve then ''approved'' else ''rejected'')" by blast
  have "request_settled r req (fold (\<lambda>(op, e). weight_exec op e) ops m)" if "request_settled r req m" "fresh_requests ops m" for m
    using that
  proof (induction ops arbitrary: m)
    case (Cons x ops)
    then show ?case using settled_step by (cases x) auto
  qed simp
  from this [OF s(1) assms(3)] have "request_settled r req m2" by (simp add: assms(4))
  with s show ?thesis by (auto simp: request_settled_def ResolveApproval_def)
qed

section \<open>The split between guest keys and the public key\<close>

record QuotaAllocation =
  qa_GuestKeyPercent :: int
  qa_PublicKeyPercent :: int

text \<open>The file as it is decoded: every field may be missing, and the last two belong to an old format.\<close>

record rawQuotaAllocation =
  ra_GuestKeyPercent :: "int option"
  ra_PublicKeyPercent :: "int option"
  ra_FreeConsumerPercent :: "int option"
  ra_NetworkNodePercent :: "int option"

record AllocationManager =
  am_config :: QuotaAllocation
  am_usedGuest :: int
  am_usedPublic :: int
  am_bbolt :: bool                              \<comment> \<open>the embedded store is attached\<close>
  am_disk :: "rawQuotaAllocation domain_store"
  am_bucket :: "QuotaAllocation stored_file"

definition DefaultQuotaAllocation :: QuotaAllocation where
  "DefaultQuotaAllocation = \<lparr>qa_GuestKeyPercent = 50, qa_PublicKeyPercent = 50\<rparr>"

definition raw_of :: "QuotaAllocation \<Rightarrow> rawQuotaAllocation" where
  "raw_of c = \<lparr>ra_GuestKeyPercent = Some (qa_GuestKeyPercent c), ra_PublicKeyPercent = Some (qa_PublicKeyPercent c),
     ra_FreeConsumerPercent = None, ra_NetworkNodePercent = None\<rparr>"

definition clamp_allocation :: "QuotaAllocation \<Rightarrow> QuotaAllocation" where
  "clamp_allocation c =
     (let c1 = (if qa_GuestKeyPercent c < 0 \<or> qa_GuestKeyPercent c > 100 then DefaultQuotaAllocation else c)
      in c1\<lparr>qa_PublicKeyPercent := 100 - qa_GuestKeyPercent c1\<rparr>)"

definition alloc_load :: "AllocationManager \<Rightarrow> AllocationManager" where
  "alloc_load am =
     (case ds_json (am_disk am) of
        Content raw \<Rightarrow>
          let config =
                (case (ra_GuestKeyPercent raw, ra_PublicKeyPercent raw) of
                   (Some g, Some p) \<Rightarrow> \<lparr>qa_GuestKeyPercent = g, qa_PublicKeyPercent = p\<rparr>
                 | _ \<Rightarrow> (case ra_FreeConsumerPercent raw of
                           Some f \<Rightarrow> \<lparr>qa_GuestKeyPercent = i64 (100 - f), qa_PublicKeyPercent = f\<rparr>
                         | None \<Rightarrow> DefaultQuotaAllocation))
          in am\<lparr>am_config := clamp_allocation config\<rparr>
      | _ \<Rightarrow> am)"

definition alloc_saveBbolt :: "io_env \<Rightarrow> AllocationManager \<Rightarrow> bool \<times> AllocationManager" where
  "alloc_saveBbolt io am = (if io_update io then (True, am\<lparr>am_bucket := Content (am_config am)\<rparr>) else (False, am))"

definition alloc_loadBbolt :: "AllocationManager \<Rightarrow> AllocationManager" where
  "alloc_loadBbolt am = (case am_bucket am of Content c \<Rightarrow> am\<lparr>am_config := clamp_allocation c\<rparr> | _ \<Rightarrow> am)"

definition alloc_save :: "io_env \<Rightarrow> AllocationManager \<Rightarrow> AllocationManager" where
  "alloc_save io am =
     (if am_bbolt am then snd (alloc_saveBbolt io am)
      else am\<lparr>am_disk := (am_disk am)\<lparr>ds_json := atomicWriteFile io (raw_of (am_config am)) (ds_json (am_disk am))\<rparr>\<rparr>)"

definition alloc_importToBbolt :: "io_env \<Rightarrow> AllocationManager \<Rightarrow> bool \<times> AllocationManager" where
  "alloc_importToBbolt io am =
     (if isMigrated (am_disk am) then
        (case bakJSON io (am_disk am) of
           (False, d) \<Rightarrow> (False, am\<lparr>am_disk := d\<rparr>)
         | (True, d) \<Rightarrow> (True, am\<lparr>am_disk := d, am_bbolt := True\<rparr>))
      else
        let am1 = (if ds_json (am_disk am) \<noteq> Absent then alloc_load am else am)
        in case alloc_saveBbolt io am1 of
             (False, am2) \<Rightarrow> (False, am2)
           | (True, am2) \<Rightarrow>
               (case markMigrated io (am_disk am2) of
                  (False, d) \<Rightarrow> (False, am2\<lparr>am_disk := d\<rparr>)
                | (True, d) \<Rightarrow> (case bakJSON io d of (b, d') \<Rightarrow> (b, am2\<lparr>am_disk := d', am_bbolt := True\<rparr>))))"

definition initAllocationManager :: "io_env \<Rightarrow> rawQuotaAllocation domain_store \<Rightarrow> QuotaAllocation stored_file \<Rightarrow> AllocationManager" where
  "initAllocationManager io disk bucket =
     (let am = \<lparr>am_config = DefaultQuotaAllocation, am_usedGuest = 0, am_usedPublic = 0, am_bbolt = False, am_disk = disk, am_bucket = bucket\<rparr>
      in if io_use_bbolt io then
           if io_open io then
             (case alloc_importToBbolt io am of
                (False, am') \<Rightarrow> alloc_load am'
              | (True, am') \<Rightarrow> alloc_loadBbolt am')
           else alloc_load am
         else alloc_load am)"

definition GetAllocation :: "AllocationManager \<Rightarrow> QuotaAllocation" where
  "GetAllocation am = am_config am"

definition SetAllocation :: "io_env \<Rightarrow> int \<Rightarrow> AllocationManager \<Rightarrow> (string + unit) \<times> AllocationManager" where
  "SetAllocation io guestKeyPercent am =
     (if guestKeyPercent < 0 \<or> guestKeyPercent > 100 then (Inl ''guest_key_percent must be between 0 and 100'', am)
      else (Inr (), alloc_save io (am\<lparr>am_config := \<lparr>qa_GuestKeyPercent = guestKeyPercent, qa_PublicKeyPercent = 100 - guestKeyPercent\<rparr>\<rparr>)))"

definition alloc_RecordUsage :: "bool \<Rightarrow> int \<Rightarrow> AllocationManager \<Rightarrow> AllocationManager" where
  "alloc_RecordUsage isGuestKey tokens am =
     (if isGuestKey then am\<lparr>am_usedGuest := i64 (am_usedGuest am + tokens)\<rparr> else am\<lparr>am_usedPublic := i64 (am_usedPublic am + tokens)\<rparr>)"

definition GetUsageStats :: "AllocationManager \<Rightarrow> int \<times> int \<times> int \<times> int" where
  "GetUsageStats am = (qa_GuestKeyPercent (am_config am), qa_PublicKeyPercent (am_config am), am_usedGuest am, am_usedPublic am)"

text \<open>The handlers read and write the allocation in the configuration of the network manager, not the one above.\<close>

definition handleGetQuotaAllocation :: "QuotaAllocation option \<Rightarrow> (int \<times> int) http_result" where
  "handleGetQuotaAllocation cfg =
     HttpOK (case cfg of None \<Rightarrow> (50, 50) | Some c \<Rightarrow> (qa_GuestKeyPercent c, qa_PublicKeyPercent c))"

definition handleUpdateQuotaAllocation :: "int option \<Rightarrow> QuotaAllocation option \<Rightarrow> (int \<times> int) http_result \<times> QuotaAllocation option" where
  "handleUpdateQuotaAllocation body cfg =
     (case cfg of
        None \<Rightarrow> (HttpError 500 ''network manager not initialized'', None)
      | Some c \<Rightarrow>
          (case body of
             None \<Rightarrow> (HttpError 400 ''invalid request body'', cfg)
           | Some g \<Rightarrow>
               if g < 0 \<or> g > 100 then (HttpError 400 ''guest_key_percent must be between 0 and 100'', cfg)
               else (HttpOK (g, 100 - g), Some (c\<lparr>qa_GuestKeyPercent := g, qa_PublicKeyPercent := 100 - g\<rparr>))))"

datatype alloc_op = AllocSet int | AllocUse bool int | AllocRestart

fun alloc_exec :: "alloc_op \<Rightarrow> io_env \<Rightarrow> AllocationManager \<Rightarrow> AllocationManager" where
  "alloc_exec (AllocSet g) io am = snd (SetAllocation io g am)"
| "alloc_exec (AllocUse b n) io am = alloc_RecordUsage b n am"
| "alloc_exec AllocRestart io am = initAllocationManager io (am_disk am) (am_bucket am)"

definition split_ok :: "QuotaAllocation \<Rightarrow> bool" where
  "split_ok c \<longleftrightarrow> 0 \<le> qa_GuestKeyPercent c \<and> qa_GuestKeyPercent c \<le> 100 \<and> qa_GuestKeyPercent c + qa_PublicKeyPercent c = 100"

lemma split_ok_default: "split_ok DefaultQuotaAllocation"
  by (simp add: split_ok_def DefaultQuotaAllocation_def)

lemma split_ok_clamp: "split_ok (clamp_allocation c)"
  using split_ok_default by (auto simp: split_ok_def clamp_allocation_def Let_def)

lemma clamp_id: "split_ok c \<Longrightarrow> clamp_allocation c = c"
  by (simp add: split_ok_def clamp_allocation_def Let_def)

lemma load_split: "split_ok (am_config am) \<Longrightarrow> split_ok (am_config (alloc_load am))" "split_ok (am_config am) \<Longrightarrow> split_ok (am_config (alloc_loadBbolt am))"
  by (auto simp: alloc_load_def alloc_loadBbolt_def Let_def split_ok_clamp split: stored_file.split)

lemma import_split: "split_ok (am_config am) \<Longrightarrow> alloc_importToBbolt io am = (b, am') \<Longrightarrow> split_ok (am_config am')"
  using load_split(1) [of am]
  by (auto simp: alloc_importToBbolt_def alloc_saveBbolt_def Let_def split: if_splits prod.splits bool.splits)

text \<open>
  The split adds up. Whatever files the process finds, of the old format or of the new one, with whatever numbers and I/O errors,
  and whatever is set afterwards, the two shares are between 0 and 100 and add up to 100.
\<close>

theorem allocation_adds_up:
  "split_ok (GetAllocation (fold (\<lambda>(op, io). alloc_exec op io) ops (initAllocationManager io disk bucket)))"
proof -
  have init: "split_ok (am_config (initAllocationManager io disk bucket))" for io disk bucket
  proof -
    let ?am = "\<lparr>am_config = DefaultQuotaAllocation, am_usedGuest = 0, am_usedPublic = 0, am_bbolt = False, am_disk = disk, am_bucket = bucket\<rparr>"
    obtain b am' where e: "alloc_importToBbolt io ?am = (b, am')" by force
    have "split_ok (am_config ?am)" using split_ok_default by simp
    from this import_split [OF this e] show ?thesis
      using load_split by (cases b) (simp_all add: initAllocationManager_def Let_def e)
  qed
  have step: "split_ok (am_config am) \<Longrightarrow> split_ok (am_config (alloc_exec op io am))" for op io am
  proof (cases op)
    case (AllocSet g)
    then show "split_ok (am_config am) \<Longrightarrow> split_ok (am_config (alloc_exec op io am))"
      by (auto simp: SetAllocation_def alloc_save_def alloc_saveBbolt_def split_ok_def)
  qed (simp_all add: init alloc_RecordUsage_def)
  have "split_ok (am_config am) \<Longrightarrow> split_ok (am_config (fold (\<lambda>(op, io). alloc_exec op io) ops am))" for am
    using step by (induction ops arbitrary: am) auto
  then show ?thesis using init by (simp add: GetAllocation_def)
qed

definition alloc_stored :: "AllocationManager \<Rightarrow> bool" where
  "alloc_stored am \<longleftrightarrow> split_ok (am_config am) \<and>
     (if am_bbolt am then am_bucket am = Content (am_config am) \<and> ds_migrated (am_disk am)
      else \<not> ds_migrated (am_disk am) \<and>
        (ds_json (am_disk am) = Content (raw_of (am_config am)) \<or> (ds_json (am_disk am) = Absent \<and> am_config am = DefaultQuotaAllocation)))"

lemma alloc_load_stored:
  "split_ok c \<Longrightarrow> ds_json (am_disk am) = Content (raw_of c) \<Longrightarrow> alloc_load am = am\<lparr>am_config := c\<rparr>"
  by (cases c) (simp add: alloc_load_def raw_of_def Let_def clamp_id)

lemma restart_stored:
  assumes "alloc_stored am" and "am_bbolt am \<Longrightarrow> u"
  shows "alloc_stored (initAllocationManager (io_fine u) (am_disk am) (am_bucket am)) \<and>
    am_config (initAllocationManager (io_fine u) (am_disk am) (am_bucket am)) = am_config am"
proof -
  let ?am = "\<lparr>am_config = DefaultQuotaAllocation, am_usedGuest = 0, am_usedPublic = 0, am_bbolt = False, am_disk = am_disk am, am_bucket = am_bucket am\<rparr>"
  have ok: "split_ok (am_config am)" using assms(1) by (simp add: alloc_stored_def)
  have io: "io_use_bbolt (io_fine u) = u" "io_open (io_fine u)" "io_update (io_fine u)" for u by (simp_all add: io_fine_def)
  obtain d where bak: "bakJSON (io_fine u) (am_disk am) = (True, d)" using bakJSON_fine by blast
  obtain d2 where bak2: "bakJSON (io_fine u) ((am_disk am)\<lparr>ds_migrated := True\<rparr>) = (True, d2)" using bakJSON_fine by blast
  have mig: "ds_migrated d = ds_migrated (am_disk am)" "ds_migrated d2"
    using bakJSON_migrated [of "io_fine u" "am_disk am"] bakJSON_migrated [of "io_fine u" "(am_disk am)\<lparr>ds_migrated := True\<rparr>"] bak bak2 by simp_all
  show ?thesis
  proof (cases "am_bbolt am")
    case True
    then have b: "am_bucket am = Content (am_config am)" "ds_migrated (am_disk am)" "u" using assms by (simp_all add: alloc_stored_def)
    show ?thesis
      by (simp add: initAllocationManager_def Let_def io b alloc_importToBbolt_def isMigrated_def bak [simplified b] alloc_loadBbolt_def clamp_id ok
          alloc_stored_def mig)
  next
    case False
    then have nm: "\<not> ds_migrated (am_disk am)"
      and j: "ds_json (am_disk am) = Content (raw_of (am_config am)) \<or> ds_json (am_disk am) = Absent \<and> am_config am = DefaultQuotaAllocation"
      using assms(1) by (auto simp: alloc_stored_def)
    have l: "alloc_load ?am = ?am\<lparr>am_config := am_config am\<rparr>"
      using j alloc_load_stored [OF ok, of ?am] by (auto simp: alloc_load_def)
    have l2: "(if ds_json (am_disk am) \<noteq> Absent then alloc_load ?am else ?am) = ?am\<lparr>am_config := am_config am\<rparr>"
      using l j by auto
    show ?thesis
    proof (cases u)
      case True
      have "alloc_importToBbolt (io_fine u) ?am = (True, ?am\<lparr>am_config := am_config am, am_bucket := Content (am_config am), am_disk := d2, am_bbolt := True\<rparr>)"
        using nm l2 by (simp add: alloc_importToBbolt_def isMigrated_def alloc_saveBbolt_def io markMigrated_fine bak2)
      then show ?thesis using True
        by (simp add: initAllocationManager_def Let_def io alloc_loadBbolt_def clamp_id ok alloc_stored_def mig)
    next
      case False
      then have "initAllocationManager (io_fine u) (am_disk am) (am_bucket am) = ?am\<lparr>am_config := am_config am\<rparr>"
        using l by (simp add: initAllocationManager_def io)
      then show ?thesis using nm j ok by (simp add: alloc_stored_def)
    qed
  qed
qed

text \<open>
  The split survives. From a first start, through settings, use and restarts with successful writes on the same storage, or after moving from the
  file to the embedded store, the next process has the same split.
\<close>

theorem allocation_restart:
  assumes "am = fold (\<lambda>op. alloc_exec op (io_fine u)) ops (initAllocationManager (io_fine u) \<lparr>ds_json = Absent, ds_bak = False, ds_migrated = False\<rparr> Absent)"
    and "u \<longrightarrow> v"
  shows "GetAllocation (initAllocationManager (io_fine v) (am_disk am) (am_bucket am)) = GetAllocation am"
proof -
  let ?z = "\<lparr>am_config = DefaultQuotaAllocation, am_usedGuest = 0, am_usedPublic = 0, am_bbolt = False,
      am_disk = \<lparr>ds_json = Absent, ds_bak = False, ds_migrated = False\<rparr>, am_bucket = Absent\<rparr>"
  have "alloc_stored ?z" by (simp add: alloc_stored_def split_ok_default)
  from restart_stored [OF this, of u] have s0: "alloc_stored (initAllocationManager (io_fine u) \<lparr>ds_json = Absent, ds_bak = False, ds_migrated = False\<rparr> Absent)"
    by simp
  have b0: "am_bbolt (initAllocationManager (io_fine u) d b) \<longrightarrow> u" for d b
    by (auto simp: initAllocationManager_def Let_def io_fine_def alloc_load_def split: stored_file.splits)
  have "alloc_stored (alloc_exec op (io_fine u) m) \<and> (am_bbolt (alloc_exec op (io_fine u) m) \<longrightarrow> u)"
    if "alloc_stored m" "am_bbolt m \<longrightarrow> u" for op m
  proof (cases op)
    case (AllocSet g)
    show ?thesis using that
      by (auto simp: AllocSet SetAllocation_def alloc_save_def alloc_saveBbolt_def io_fine_def atomicWriteFile_def alloc_stored_def split_ok_def)
  next
    case (AllocUse b n)
    then show ?thesis using that by (simp add: alloc_RecordUsage_def alloc_stored_def)
  next
    case AllocRestart
    then show ?thesis using that restart_stored [OF that(1), of u] b0 by simp
  qed
  then have "alloc_stored (fold (\<lambda>op. alloc_exec op (io_fine u)) ops m) \<and> (am_bbolt (fold (\<lambda>op. alloc_exec op (io_fine u)) ops m) \<longrightarrow> u)"
    if "alloc_stored m" "am_bbolt m \<longrightarrow> u" for m
    using that by (induction ops arbitrary: m) auto
  from this [OF s0 b0] have "alloc_stored am" "am_bbolt am \<longrightarrow> v" using assms by auto
  from restart_stored [OF this(1), of v] this(2) show ?thesis by (simp add: GetAllocation_def)
qed

section \<open>Sample runs\<close>

definition sample_weight_env :: weight_env where
  "sample_weight_env = \<lparr>we_now = 0, we_self = Some ''me'', we_reqID = ''r1'', we_io = io_fine False\<rparr>"

definition manual_start :: nodeWeightManager where
  "manual_start = initNodeWeightManager Absent (Some ''manual'') 0"

definition one_request :: nodeWeightManager where
  "one_request = weight_exec (SetW ''n2'' 3) sample_weight_env manual_start"

lemma one_request_simps:
  "wm_pending one_request = [(''r1'', \<lparr>ar_ID = ''r1'', ar_FromNodeID = ''me'', ar_ToNodeID = ''n2'', ar_Weight = 3, ar_Status = ''pending'',
     ar_CreatedAt = Stamp 0, ar_ResolvedAt = NoStamp\<rparr>)]"
  "wm_overrides one_request = [(''n2'', \<lparr>nw_NodeID = ''n2'', nw_Weight = 3, nw_Approved = False, nw_UpdatedAt = Stamp 0\<rparr>)]"
  "wm_approvalMode one_request = ''manual''"
  by (simp_all add: one_request_def manual_start_def SetOverride_def sample_weight_env_def initNodeWeightManager_def nwm_load_def nwm_save_def
      format_stamp_def gput_def Let_def)

theorem weight_needs_approval_witness:
  "GetWeightMultiplier (Some ''me'') ''n2'' one_request = 1"
proof -
  have "weight_run one_request (approvals (SetW ''n2'' 3) sample_weight_env manual_start {})"
    unfolding one_request_def manual_start_def
    by (intro weight_step weight_start) (simp_all add: sample_weight_env_def io_fine_def initNodeWeightManager_def nwm_load_def)
  from weight_needs_approval [OF this, of "Some ''me''" "''n2''"] show ?thesis
    by (auto simp: one_request_simps sample_weight_env_def manual_start_def initNodeWeightManager_def nwm_load_def)
qed

theorem request_resolved_once_witness:
  "\<exists>m1. ResolveApproval sample_weight_env ''r1'' True one_request = (Inr (), m1) \<and>
     ResolveApproval sample_weight_env ''r1'' False (weight_exec RestartW sample_weight_env m1) = (Inl ''request already resolved'', weight_exec RestartW sample_weight_env m1)"
proof -
  obtain m1 where m1: "ResolveApproval sample_weight_env ''r1'' True one_request = (Inr (), m1)"
    by (simp add: ResolveApproval_def one_request_simps Let_def)
  have "io_write (we_io sample_weight_env)" "fresh_requests [(RestartW, sample_weight_env)] m1"
    by (simp_all add: sample_weight_env_def io_fine_def)
  from request_resolved_once [OF m1 this refl] show ?thesis using m1 by auto
qed

theorem allocation_restart_witness:
  "\<exists>am. am = alloc_exec (AllocSet 30) (io_fine False) (initAllocationManager (io_fine False) \<lparr>ds_json = Absent, ds_bak = False, ds_migrated = False\<rparr> Absent) \<and>
     GetAllocation (initAllocationManager (io_fine True) (am_disk am) (am_bucket am)) = GetAllocation am"
  using allocation_restart [where ops = "[AllocSet 30]" and u = False and v = True, OF refl] by simp

section \<open>What the code gets wrong\<close>

text \<open>A request added to the table is not in the file yet: a restart forgets it, and the weight waits for an approval that cannot be given.\<close>

lemma pending_request_lost:
  "let m = weight_exec RestartW sample_weight_env one_request
   in wm_overrides m = wm_overrides one_request \<and> fst (ResolveApproval sample_weight_env ''r1'' True m) = Inl ''request not found''"
  by (simp add: Let_def one_request_def manual_start_def SetOverride_def sample_weight_env_def initNodeWeightManager_def nwm_load_def nwm_save_def
      format_stamp_def gput_def atomicWriteFile_def io_fine_def ResolveApproval_def)

text \<open>An old request approves whatever weight is set now: 3 was requested, 9 is in force.\<close>

lemma stale_request_approves_new_weight:
  "let m = weight_exec (ResolveW ''r1'' True) sample_weight_env (weight_exec (SetW ''n2'' 9) (sample_weight_env\<lparr>we_reqID := ''r2''\<rparr>) one_request)
   in GetWeightMultiplier (Some ''me'') ''n2'' m = 9 \<and> map ar_Weight (filter (\<lambda>r. ar_Status r = ''approved'') (GetAllRequests m)) = [3]"
  by (simp add: Let_def SetOverride_def one_request_simps sample_weight_env_def nwm_save_def format_stamp_def gput_def ResolveApproval_def
      GetWeightMultiplier_def GetAllRequests_def)

end
