(* ===== verification/Users.thy ===== *)
theory Users
  imports Field_Encryption Storage_Model Calendar Hex_Text Provider_Model
begin

text \<open>
  Consumers with API keys and the invite codes they register with (\<open>src/multiuser.go\<close>).

  SHA-256, the random strings, the encryptor of fields, the time and the outcome of writes are fields of the environment
  of an operation. The goroutine that writes pending usage every five seconds is the operation \<open>FlushSaves\<close>.
\<close>

section \<open>Data\<close>

record InviteCode =
  ic_Code :: string
  ic_CreatedAt :: stamp
  ic_UsedBy :: string
  ic_UsedAt :: stamp
  ic_MaxUses :: int
  ic_UseCount :: int
  ic_Role :: string

record Consumer =
  cu_ID :: string
  cu_Name :: string
  cu_APIKey :: string
  cu_InviteCode :: string
  cu_CreatedAt :: stamp
  cu_TotalTokens :: int
  cu_TotalRequests :: int
  cu_Enabled :: bool

record user_data =
  ud_Invites :: "(string, InviteCode) gomap"
  ud_Consumers :: "(string, Consumer) gomap"

record MultiUserManager =
  mu_invites :: "(string, InviteCode) gomap"
  mu_consumers :: "(string, Consumer) gomap"
  mu_apiKeyMap :: "(string, string) gomap"
  mu_dirtyCount :: int
  mu_file :: "user_data stored_file"

record user_env =
  ue_now :: int
  ue_sha256 :: "string \<Rightarrow> byte list"
  ue_gcm :: aead
  ue_nonce :: "string option"
  ue_enc :: "Encryptor option"
  ue_io :: io_env
  ue_code :: string    \<comment> \<open>\<open>randomString(12)\<close>\<close>
  ue_key :: string     \<comment> \<open>\<open>randomString(48)\<close>\<close>
  ue_id :: string      \<comment> \<open>\<open>randomString(8)\<close>\<close>

definition hashAPIKey :: "(string \<Rightarrow> byte list) \<Rightarrow> string \<Rightarrow> string" where
  "hashAPIKey sha apiKey = hexEncode (sha apiKey)"

section \<open>The file\<close>

definition plain_key :: "aead \<Rightarrow> Encryptor option \<Rightarrow> Consumer \<Rightarrow> string" where
  "plain_key gcm enc c = (if IsEncrypted (cu_APIKey c) then decryptFieldWith gcm enc (cu_APIKey c) else cu_APIKey c)"

definition index_consumer :: "(string \<Rightarrow> byte list) \<Rightarrow> aead \<Rightarrow> Encryptor option \<Rightarrow> string \<times> Consumer \<Rightarrow> (string, string) gomap \<Rightarrow> (string, string) gomap" where
  "index_consumer sha gcm enc e idx =
     (case e of (cid, c) \<Rightarrow>
        if cu_APIKey c \<noteq> [] then
          let plaintext = plain_key gcm enc c
          in if plaintext \<noteq> [] then gput (hashAPIKey sha plaintext) cid idx else idx
        else idx)"

definition initMultiUser :: "(string \<Rightarrow> byte list) \<Rightarrow> aead \<Rightarrow> Encryptor option \<Rightarrow> user_data stored_file \<Rightarrow> MultiUserManager" where
  "initMultiUser sha gcm enc f =
     (case f of
        Content d \<Rightarrow> \<lparr>mu_invites = ud_Invites d, mu_consumers = ud_Consumers d,
          mu_apiKeyMap = fold (index_consumer sha gcm enc) (ud_Consumers d) [], mu_dirtyCount = 0, mu_file = f\<rparr>
      | _ \<Rightarrow> \<lparr>mu_invites = [], mu_consumers = [], mu_apiKeyMap = [], mu_dirtyCount = 0, mu_file = f\<rparr>)"

definition mu_saveLocked :: "io_env \<Rightarrow> MultiUserManager \<Rightarrow> MultiUserManager" where
  "mu_saveLocked io m = m\<lparr>mu_file := atomicWriteFile io \<lparr>ud_Invites = mu_invites m, ud_Consumers = mu_consumers m\<rparr> (mu_file m)\<rparr>"

section \<open>Invite codes\<close>

definition fully_used :: "InviteCode \<Rightarrow> bool" where
  "fully_used ivc \<longleftrightarrow> ic_MaxUses ivc > 0 \<and> ic_UseCount ivc \<ge> ic_MaxUses ivc"

definition single_used :: "InviteCode \<Rightarrow> bool" where
  "single_used ivc \<longleftrightarrow> ic_MaxUses ivc = 0 \<and> ic_UsedBy ivc \<noteq> []"

definition cleanupExpiredInvitesLocked :: "MultiUserManager \<Rightarrow> MultiUserManager" where
  "cleanupExpiredInvitesLocked m = m\<lparr>mu_invites := gfilter (\<lambda>code ivc. \<not> fully_used ivc) (mu_invites m)\<rparr>"

definition CreateInviteCode :: "user_env \<Rightarrow> int \<Rightarrow> string \<Rightarrow> MultiUserManager \<Rightarrow> string \<times> MultiUserManager" where
  "CreateInviteCode env maxUses role m =
     (let role1 = (if role = [] then ''consumer'' else role);
          m1 = (if length (mu_invites m) \<ge> 100 then cleanupExpiredInvitesLocked m else m)
      in if length (mu_invites m) \<ge> 100 \<and> length (mu_invites m1) \<ge> 100 then ([], m1)
         else (ue_code env, mu_saveLocked (ue_io env) (m1\<lparr>mu_invites := gput (ue_code env)
                 \<lparr>ic_Code = ue_code env, ic_CreatedAt = format_stamp (ue_now env), ic_UsedBy = [], ic_UsedAt = NoStamp,
                  ic_MaxUses = maxUses, ic_UseCount = 0, ic_Role = role1\<rparr> (mu_invites m1)\<rparr>)))"

definition ValidateInviteCode :: "string \<Rightarrow> MultiUserManager \<Rightarrow> bool" where
  "ValidateInviteCode code m =
     (case gget (mu_invites m) code of
        None \<Rightarrow> False
      | Some ivc \<Rightarrow> if fully_used ivc then False else if single_used ivc then False else True)"

definition use_invite :: "int \<Rightarrow> string \<Rightarrow> InviteCode \<Rightarrow> InviteCode" where
  "use_invite now cid ivc = ivc\<lparr>ic_UseCount := i64 (ic_UseCount ivc + 1), ic_UsedBy := cid, ic_UsedAt := format_stamp now\<rparr>"

definition UseInviteCode :: "user_env \<Rightarrow> string \<Rightarrow> string \<Rightarrow> MultiUserManager \<Rightarrow> bool \<times> MultiUserManager" where
  "UseInviteCode env code consumerID m =
     (case gget (mu_invites m) code of
        None \<Rightarrow> (False, m)
      | Some ivc \<Rightarrow>
          if fully_used ivc then (False, m)
          else if single_used ivc then (False, m)
          else (True, mu_saveLocked (ue_io env) (m\<lparr>mu_invites := gput code (use_invite (ue_now env) consumerID ivc) (mu_invites m)\<rparr>)))"

definition DeleteInviteCode :: "user_env \<Rightarrow> string \<Rightarrow> MultiUserManager \<Rightarrow> bool \<times> MultiUserManager" where
  "DeleteInviteCode env code m =
     (case gget (mu_invites m) code of
        None \<Rightarrow> (False, m)
      | Some _ \<Rightarrow> (True, mu_saveLocked (ue_io env) (m\<lparr>mu_invites := gdel code (mu_invites m)\<rparr>)))"

definition ListInviteCodes :: "MultiUserManager \<Rightarrow> InviteCode list" where
  "ListInviteCodes m = map snd (mu_invites m)"

section \<open>Consumers\<close>

definition new_key :: "user_env \<Rightarrow> string" where "new_key env = ''sk-'' @ ue_key env"
definition new_id :: "user_env \<Rightarrow> string" where "new_id env = ''consumer-'' @ ue_id env"

definition new_consumer :: "user_env \<Rightarrow> string \<Rightarrow> string \<Rightarrow> Consumer" where
  "new_consumer env name inviteCode =
     \<lparr>cu_ID = new_id env, cu_Name = name, cu_APIKey = encryptField (ue_gcm env) (ue_nonce env) (ue_enc env) (new_key env),
      cu_InviteCode = inviteCode, cu_CreatedAt = format_stamp (ue_now env), cu_TotalTokens = 0, cu_TotalRequests = 0, cu_Enabled = True\<rparr>"

definition CreateConsumer :: "user_env \<Rightarrow> string \<Rightarrow> string \<Rightarrow> MultiUserManager \<Rightarrow> (string + Consumer) \<times> MultiUserManager" where
  "CreateConsumer env name inviteCode m =
     (if length (mu_consumers m) \<ge> 500 then (Inl ''maximum consumer count (500) reached'', m)
      else case gget (mu_invites m) inviteCode of
        None \<Rightarrow> (Inl ''invalid invite code'', m)
      | Some ivc \<Rightarrow>
          if fully_used ivc then (Inl ''invite code already fully used'', m)
          else if single_used ivc then (Inl ''invite code already used'', m)
          else
            let consumer = new_consumer env name inviteCode
            in (Inr (consumer\<lparr>cu_APIKey := new_key env\<rparr>),
                mu_saveLocked (ue_io env) (m\<lparr>mu_consumers := gput (new_id env) consumer (mu_consumers m),
                  mu_apiKeyMap := gput (hashAPIKey (ue_sha256 env) (new_key env)) (new_id env) (mu_apiKeyMap m),
                  mu_invites := gput inviteCode (use_invite (ue_now env) (new_id env) ivc) (mu_invites m)\<rparr>)))"

definition ValidateAPIKey :: "(string \<Rightarrow> byte list) \<Rightarrow> string \<Rightarrow> MultiUserManager \<Rightarrow> Consumer option" where
  "ValidateAPIKey sha apiKey m =
     (case gget (mu_apiKeyMap m) (hashAPIKey sha apiKey) of
        None \<Rightarrow> None
      | Some consumerID \<Rightarrow>
          (case gget (mu_consumers m) consumerID of
             None \<Rightarrow> None
           | Some c \<Rightarrow> if \<not> cu_Enabled c then None else Some c))"

definition RecordConsumerUsage :: "io_env \<Rightarrow> string \<Rightarrow> int \<Rightarrow> MultiUserManager \<Rightarrow> MultiUserManager" where
  "RecordConsumerUsage io consumerID tokens m =
     (case gget (mu_consumers m) consumerID of
        None \<Rightarrow> m
      | Some c \<Rightarrow>
          let c1 = c\<lparr>cu_TotalTokens := i64 (cu_TotalTokens c + tokens), cu_TotalRequests := i64 (cu_TotalRequests c + 1)\<rparr>;
              m1 = m\<lparr>mu_consumers := gput consumerID c1 (mu_consumers m), mu_dirtyCount := mu_dirtyCount m + 1\<rparr>
          in if mu_dirtyCount m1 \<ge> 10 then mu_saveLocked io (m1\<lparr>mu_dirtyCount := 0\<rparr>) else m1)"

definition masked_key :: "string \<Rightarrow> string" where
  "masked_key k = (if length k > 8 then take 6 k @ ''...'' @ drop (length k - 4) k else ''***'')"

definition ListConsumers :: "aead \<Rightarrow> Encryptor option \<Rightarrow> MultiUserManager \<Rightarrow> Consumer list" where
  "ListConsumers gcm enc m =
     map (\<lambda>e. let c = snd e; displayKey = (if IsEncrypted (cu_APIKey c) then decryptFieldDisplay gcm enc (cu_APIKey c) else cu_APIKey c)
              in c\<lparr>cu_APIKey := masked_key displayKey\<rparr>) (mu_consumers m)"

definition GetConsumerFull :: "aead \<Rightarrow> Encryptor option \<Rightarrow> string \<Rightarrow> MultiUserManager \<Rightarrow> Consumer option" where
  "GetConsumerFull gcm enc cid m =
     map_option (\<lambda>c. if IsEncrypted (cu_APIKey c) then c\<lparr>cu_APIKey := decryptFieldDisplay gcm enc (cu_APIKey c)\<rparr> else c)
       (gget (mu_consumers m) cid)"

definition DeleteConsumer ::
    "user_env \<Rightarrow> save_env \<Rightarrow> string \<Rightarrow> MultiUserManager \<Rightarrow> ProviderManager \<Rightarrow> bool \<times> MultiUserManager \<times> ProviderManager" where
  "DeleteConsumer env v cid m pm =
     (case gget (mu_consumers m) cid of
        None \<Rightarrow> (False, m, pm)
      | Some c \<Rightarrow>
          (True,
           mu_saveLocked (ue_io env) (m\<lparr>mu_apiKeyMap := gdel (hashAPIKey (ue_sha256 env) (plain_key (ue_gcm env) (ue_enc env) c)) (mu_apiKeyMap m),
             mu_consumers := gdel cid (mu_consumers m)\<rparr>),
           snd (DeleteByOwner v cid pm)))"

definition ToggleConsumer :: "io_env \<Rightarrow> string \<Rightarrow> bool \<Rightarrow> MultiUserManager \<Rightarrow> bool \<times> MultiUserManager" where
  "ToggleConsumer io cid enabled m =
     (case gget (mu_consumers m) cid of
        None \<Rightarrow> (False, m)
      | Some c \<Rightarrow> (True, mu_saveLocked io (m\<lparr>mu_consumers := gput cid (c\<lparr>cu_Enabled := enabled\<rparr>) (mu_consumers m)\<rparr>)))"

definition FlushSaves :: "io_env \<Rightarrow> MultiUserManager \<Rightarrow> MultiUserManager" where
  "FlushSaves io m = (if mu_dirtyCount m > 0 then mu_saveLocked io (m\<lparr>mu_dirtyCount := 0\<rparr>) else m)"

definition HasConsumers :: "MultiUserManager option \<Rightarrow> bool" where
  "HasConsumers mo = (case mo of None \<Rightarrow> False | Some m \<Rightarrow> length (mu_consumers m) > 0)"

section \<open>Handlers\<close>

text \<open>\<open>role\<close> is the role that the guard wrote into the request.\<close>

definition isAdmin :: "string \<Rightarrow> bool" where "isAdmin role \<longleftrightarrow> role = ''admin''"

definition handleListInviteCodes :: "string \<Rightarrow> MultiUserManager \<Rightarrow> InviteCode list http_result" where
  "handleListInviteCodes role m = (if \<not> isAdmin role then HttpError 403 ''admin only'' else HttpOK (ListInviteCodes m))"

definition handleCreateInviteCode ::
    "user_env \<Rightarrow> string \<Rightarrow> (int \<times> string) option \<Rightarrow> MultiUserManager \<Rightarrow> (string \<times> int \<times> string) http_result \<times> MultiUserManager" where
  "handleCreateInviteCode env role body m =
     (if \<not> isAdmin role then (HttpError 403 ''admin only'', m)
      else case body of
        None \<Rightarrow> (HttpError 400 ''invalid request body'', m)
      | Some (maxUses0, r) \<Rightarrow>
          let maxUses = (if maxUses0 < 0 then 0 else maxUses0) in
          if r \<noteq> [] \<and> r \<noteq> ''consumer'' \<and> r \<noteq> ''collaborator''
          then (HttpError 400 ''invalid role, must be consumer or collaborator'', m)
          else (case CreateInviteCode env maxUses r m of (code, m') \<Rightarrow> (HttpOK (code, maxUses, r), m')))"

definition handleDeleteInviteCode :: "user_env \<Rightarrow> string \<Rightarrow> string \<Rightarrow> MultiUserManager \<Rightarrow> unit http_result \<times> MultiUserManager" where
  "handleDeleteInviteCode env role code m =
     (if \<not> isAdmin role then (HttpError 403 ''admin only'', m)
      else case DeleteInviteCode env code m of
        (False, m') \<Rightarrow> (HttpError 404 ''invite code not found'', m') | (True, m') \<Rightarrow> (HttpOK (), m'))"

definition handleListConsumers :: "aead \<Rightarrow> Encryptor option \<Rightarrow> string \<Rightarrow> MultiUserManager \<Rightarrow> Consumer list http_result" where
  "handleListConsumers gcm enc role m = (if \<not> isAdmin role then HttpError 403 ''admin only'' else HttpOK (ListConsumers gcm enc m))"

definition handleCreateConsumer ::
    "user_env \<Rightarrow> string \<Rightarrow> (string \<times> string) option \<Rightarrow> MultiUserManager \<Rightarrow> Consumer http_result \<times> MultiUserManager" where
  "handleCreateConsumer env role body m =
     (if \<not> isAdmin role then (HttpError 403 ''admin only'', m)
      else case body of
        None \<Rightarrow> (HttpError 400 ''invalid request body'', m)
      | Some (name, code) \<Rightarrow>
          if name = [] \<or> code = [] then (HttpError 400 ''name and invite_code required'', m)
          else (case CreateConsumer env name code m of (Inl e, m') \<Rightarrow> (HttpError 400 e, m') | (Inr c, m') \<Rightarrow> (HttpOK c, m')))"

definition handleDeleteConsumer ::
    "user_env \<Rightarrow> save_env \<Rightarrow> string \<Rightarrow> string \<Rightarrow> MultiUserManager \<Rightarrow> ProviderManager \<Rightarrow> unit http_result \<times> MultiUserManager \<times> ProviderManager" where
  "handleDeleteConsumer env v role cid m pm =
     (if \<not> isAdmin role then (HttpError 403 ''admin only'', m, pm)
      else case DeleteConsumer env v cid m pm of
        (False, s) \<Rightarrow> (HttpError 404 ''consumer not found'', s) | (True, s) \<Rightarrow> (HttpOK (), s))"

definition toggle_reply :: "bool \<times> MultiUserManager \<Rightarrow> unit http_result \<times> MultiUserManager" where
  "toggle_reply r = (case r of (False, m) \<Rightarrow> (HttpError 404 ''consumer not found'', m) | (True, m) \<Rightarrow> (HttpOK (), m))"

definition handleToggleConsumer :: "user_env \<Rightarrow> string \<Rightarrow> string \<Rightarrow> bool option \<Rightarrow> MultiUserManager \<Rightarrow> unit http_result \<times> MultiUserManager" where
  "handleToggleConsumer env role cid body m =
     (if \<not> isAdmin role then (HttpError 403 ''admin only'', m)
      else case body of None \<Rightarrow> (HttpError 400 ''invalid request body'', m)
        | Some enabled \<Rightarrow> toggle_reply (ToggleConsumer (ue_io env) cid enabled m))"

definition handleUpdateConsumer :: "user_env \<Rightarrow> string \<Rightarrow> string \<Rightarrow> bool option \<Rightarrow> MultiUserManager \<Rightarrow> unit http_result \<times> MultiUserManager" where
  "handleUpdateConsumer env role cid body m =
     (if \<not> isAdmin role then (HttpError 403 ''admin only'', m)
      else case body of None \<Rightarrow> (HttpError 400 ''invalid request body'', m)
        | Some disabled \<Rightarrow> toggle_reply (ToggleConsumer (ue_io env) cid (\<not> disabled) m))"

definition handleConsumerRegister ::
    "user_env \<Rightarrow> (string \<times> string) option \<Rightarrow> MultiUserManager \<Rightarrow> (string \<times> string \<times> string) http_result \<times> MultiUserManager" where
  "handleConsumerRegister env body m =
     (case body of
        None \<Rightarrow> (HttpError 400 ''invalid request body'', m)
      | Some (name, code) \<Rightarrow>
          if name = [] \<or> code = [] then (HttpError 400 ''name and invite_code required'', m)
          else if \<not> ValidateInviteCode code m then (HttpError 400 ''invalid or expired invite code'', m)
          else (case CreateConsumer env name code m of
                  (Inl e, m') \<Rightarrow> (HttpError 400 e, m')
                | (Inr c, m') \<Rightarrow> (HttpOK (cu_ID c, cu_Name c, cu_APIKey c), m')))"

section \<open>Runs\<close>

datatype user_op =
    CodeOp int string
  | DropCode string
  | NewUser string string
  | UsageOp string int
  | DropUser save_env ProviderManager string
  | ToggleOp string bool
  | FlushOp
  | CrashOp

fun user_exec :: "user_op \<Rightarrow> user_env \<Rightarrow> MultiUserManager \<Rightarrow> MultiUserManager" where
  "user_exec (CodeOp n r) env m = snd (CreateInviteCode env n r m)"
| "user_exec (DropCode c) env m = snd (DeleteInviteCode env c m)"
| "user_exec (NewUser name c) env m = snd (CreateConsumer env name c m)"
| "user_exec (UsageOp i n) env m = RecordConsumerUsage (ue_io env) i n m"
| "user_exec (DropUser v pm i) env m = fst (snd (DeleteConsumer env v i m pm))"
| "user_exec (ToggleOp i b) env m = snd (ToggleConsumer (ue_io env) i b m)"
| "user_exec FlushOp env m = FlushSaves (ue_io env) m"
| "user_exec CrashOp env m = initMultiUser (ue_sha256 env) (ue_gcm env) (ue_enc env) (mu_file m)"

text \<open>
  The environments of a run share the hash and the encryptor, and writes succeed. What is drawn at random is new: the identifier of a
  consumer, the hash of its key, and a code. The numbers of uses are those the handler lets through.
\<close>

definition user_env_ok :: "(string \<Rightarrow> byte list) \<Rightarrow> aead \<Rightarrow> Encryptor option \<Rightarrow> user_env \<Rightarrow> bool" where
  "user_env_ok sha gcm enc env \<longleftrightarrow> ue_sha256 env = sha \<and> ue_gcm env = gcm \<and> ue_enc env = enc \<and> nonce_ok (ue_nonce env) \<and> io_write (ue_io env)"

fun draws_fresh :: "(string \<Rightarrow> byte list) \<Rightarrow> aead \<Rightarrow> Encryptor option \<Rightarrow> user_op \<Rightarrow> user_env \<Rightarrow> MultiUserManager \<Rightarrow> bool" where
  "draws_fresh sha gcm enc (NewUser name c) env m \<longleftrightarrow> gget (mu_consumers m) (new_id env) = None \<and>
     (\<forall>i d. gget (mu_consumers m) i = Some d \<longrightarrow> hashAPIKey sha (plain_key gcm enc d) \<noteq> hashAPIKey sha (new_key env))"
| "draws_fresh sha gcm enc (CodeOp n r) env m \<longleftrightarrow> 0 \<le> n \<and> in_i64 n \<and> gget (mu_invites m) (ue_code env) = None \<and>
     (\<forall>i d. gget (mu_consumers m) i = Some d \<longrightarrow> cu_InviteCode d \<noteq> ue_code env)"
| "draws_fresh sha gcm enc _ env m \<longleftrightarrow> True"

inductive users_run :: "(string \<Rightarrow> byte list) \<Rightarrow> aead \<Rightarrow> Encryptor option \<Rightarrow> MultiUserManager \<Rightarrow> bool" for sha gcm enc where
  users_start: "users_run sha gcm enc (initMultiUser sha gcm enc Absent)"
| users_step: "users_run sha gcm enc m \<Longrightarrow> user_env_ok sha gcm enc env \<Longrightarrow> draws_fresh sha gcm enc op env m \<Longrightarrow>
    users_run sha gcm enc (user_exec op env m)"

section \<open>The index of keys\<close>

definition entry_hash :: "(string \<Rightarrow> byte list) \<Rightarrow> aead \<Rightarrow> Encryptor option \<Rightarrow> string \<times> Consumer \<Rightarrow> string" where
  "entry_hash sha gcm enc e = hashAPIKey sha (plain_key gcm enc (snd e))"

definition usable_keys :: "aead \<Rightarrow> Encryptor option \<Rightarrow> (string, Consumer) gomap \<Rightarrow> bool" where
  "usable_keys gcm enc C \<longleftrightarrow> (\<forall>e\<in>set C. cu_APIKey (snd e) \<noteq> [] \<and> plain_key gcm enc (snd e) \<noteq> [])"

lemma fold_index:
  assumes "usable_keys gcm enc C" and "distinct (map (entry_hash sha gcm enc) C)"
  shows "gget (fold (index_consumer sha gcm enc) C idx) h =
    (case find (\<lambda>e. entry_hash sha gcm enc e = h) C of Some e \<Rightarrow> Some (fst e) | None \<Rightarrow> gget idx h)"
  using assms
proof (induction C arbitrary: idx)
  case (Cons e C)
  have one: "index_consumer sha gcm enc e idx = gput (entry_hash sha gcm enc e) (fst e) idx"
    using Cons.prems(1) by (auto simp: index_consumer_def usable_keys_def entry_hash_def Let_def split: prod.split)
  have IH: "gget (fold (index_consumer sha gcm enc) C (gput (entry_hash sha gcm enc e) (fst e) idx)) h =
      (case find (\<lambda>e. entry_hash sha gcm enc e = h) C of Some e \<Rightarrow> Some (fst e) | None \<Rightarrow> gget (gput (entry_hash sha gcm enc e) (fst e) idx) h)"
    by (rule Cons.IH) (use Cons.prems in \<open>auto simp: usable_keys_def\<close>)
  show ?case
  proof (cases "entry_hash sha gcm enc e = h")
    case True
    then have "find (\<lambda>e. entry_hash sha gcm enc e = h) C = None" using Cons.prems(2) by (auto simp: find_None_iff rev_image_eqI)
    with True one IH show ?thesis by simp
  next
    case False
    with one IH show ?thesis by (simp split: option.split)
  qed
qed simp

definition index_exact :: "(string \<Rightarrow> byte list) \<Rightarrow> aead \<Rightarrow> Encryptor option \<Rightarrow> (string, Consumer) gomap \<Rightarrow> (string, string) gomap \<Rightarrow> bool" where
  "index_exact sha gcm enc C idx \<longleftrightarrow>
     (\<forall>h i. gget idx h = Some i \<longleftrightarrow> (\<exists>c. gget C i = Some c \<and> hashAPIKey sha (plain_key gcm enc c) = h))"

definition keys_differ :: "(string \<Rightarrow> byte list) \<Rightarrow> aead \<Rightarrow> Encryptor option \<Rightarrow> (string, Consumer) gomap \<Rightarrow> bool" where
  "keys_differ sha gcm enc C \<longleftrightarrow> (\<forall>i c j d. gget C i = Some c \<and> gget C j = Some d \<and>
     hashAPIKey sha (plain_key gcm enc c) = hashAPIKey sha (plain_key gcm enc d) \<longrightarrow> i = j)"

lemma fold_index_exact:
  assumes "gmap_ok C" and "usable_keys gcm enc C" and "keys_differ sha gcm enc C"
  shows "index_exact sha gcm enc C (fold (index_consumer sha gcm enc) C [])"
proof -
  have "e = e'" if "e \<in> set C" "e' \<in> set C" "entry_hash sha gcm enc e = entry_hash sha gcm enc e'" for e e'
  proof -
    have "hashAPIKey sha (plain_key gcm enc (snd e)) = hashAPIKey sha (plain_key gcm enc (snd e'))" using that(3) by (simp add: entry_hash_def)
    moreover have g: "gget C (fst e) = Some (snd e)" "gget C (fst e') = Some (snd e')"
      using in_set_gget [OF assms(1)] that(1,2) by (metis prod.collapse)+
    ultimately have "fst e = fst e'" using assms(3) unfolding keys_differ_def by blast
    with g show ?thesis by (simp add: prod_eq_iff)
  qed
  moreover have "distinct C" using assms(1) by (simp add: gmap_ok_def distinct_map)
  ultimately have dist: "distinct (map (entry_hash sha gcm enc) C)" by (auto simp: distinct_map inj_on_def)
  show ?thesis
    unfolding index_exact_def fold_index [OF assms(2) dist]
  proof (intro allI)
    fix h i
    have rhs: "(\<exists>c. gget C i = Some c \<and> hashAPIKey sha (plain_key gcm enc c) = h) \<longleftrightarrow> (\<exists>e\<in>set C. fst e = i \<and> entry_hash sha gcm enc e = h)"
    proof -
      have iff: "gget C i = Some c \<longleftrightarrow> (i, c) \<in> set C" for c using in_set_gget [OF assms(1)] gget_in_set [of C i] by blast
      have "(\<exists>e\<in>set C. fst e = i \<and> entry_hash sha gcm enc e = h) \<longleftrightarrow> (\<exists>c. (i, c) \<in> set C \<and> entry_hash sha gcm enc (i, c) = h)"
        by (metis prod.collapse fst_conv)
      then show ?thesis by (simp add: iff entry_hash_def)
    qed
    have found: "find (\<lambda>e. entry_hash sha gcm enc e = h) C = Some e \<longleftrightarrow> e \<in> set C \<and> entry_hash sha gcm enc e = h" for e
      using dist by (induction C) (auto simp: rev_image_eqI)
    show "(case find (\<lambda>e. entry_hash sha gcm enc e = h) C of Some e \<Rightarrow> Some (fst e) | None \<Rightarrow> gget [] h) = Some i \<longleftrightarrow>
        (\<exists>c. gget C i = Some c \<and> hashAPIKey sha (plain_key gcm enc c) = h)"
    proof (cases "find (\<lambda>e. entry_hash sha gcm enc e = h) C")
      case None
      have "\<not> (\<exists>e\<in>set C. fst e = i \<and> entry_hash sha gcm enc e = h)" using None by (auto simp: find_None_iff)
      then show ?thesis unfolding rhs by (simp add: None)
    next
      case (Some e)
      have "fst e = i \<longleftrightarrow> (\<exists>e\<in>set C. fst e = i \<and> entry_hash sha gcm enc e = h)"
        using Some found [of e] found by (metis option.inject)
      then show ?thesis unfolding rhs by (simp add: Some)
    qed
  qed
qed

section \<open>The invariant\<close>

definition erase :: "Consumer \<Rightarrow> Consumer" where
  "erase c = c\<lparr>cu_TotalTokens := 0, cu_TotalRequests := 0\<rparr>"

definition accounts_ok :: "(string \<Rightarrow> byte list) \<Rightarrow> aead \<Rightarrow> Encryptor option \<Rightarrow> MultiUserManager \<Rightarrow> bool" where
  "accounts_ok sha gcm enc m \<longleftrightarrow> gmap_ok (mu_consumers m) \<and> keys_differ sha gcm enc (mu_consumers m) \<and>
     (\<forall>i c. gget (mu_consumers m) i = Some c \<longrightarrow> cu_ID c = i \<and> cu_APIKey c \<noteq> [] \<and> plain_key gcm enc c \<noteq> []) \<and>
     index_exact sha gcm enc (mu_consumers m) (mu_apiKeyMap m)"

definition users_saved :: "MultiUserManager \<Rightarrow> bool" where
  "users_saved m \<longleftrightarrow> 0 \<le> mu_dirtyCount m \<and> mu_dirtyCount m < 10 \<and>
     (case mu_file m of
        Absent \<Rightarrow> mu_invites m = [] \<and> mu_consumers m = []
      | Corrupt \<Rightarrow> False
      | Content d \<Rightarrow> ud_Invites d = mu_invites m \<and> gmapv erase (ud_Consumers d) = gmapv erase (mu_consumers m) \<and>
          (mu_dirtyCount m = 0 \<longrightarrow> ud_Consumers d = mu_consumers m))"

lemma erase_simps [simp]:
  "cu_ID (erase c) = cu_ID c" "cu_APIKey (erase c) = cu_APIKey c" "plain_key gcm enc (erase c) = plain_key gcm enc c"
  "cu_InviteCode (erase c) = cu_InviteCode c" "cu_Enabled (erase c) = cu_Enabled c"
  by (simp_all add: erase_def plain_key_def)

lemma gmapv_gput: "gmapv f (gput k v m) = gput k (f v) (gmapv f m)"
  unfolding gmapv_def gput_def by (induction m) auto

lemma gmapv_gdel: "gmapv f (gdel k m) = gdel k (gmapv f m)"
  unfolding gmapv_def gdel_def by (induction m) auto

lemma gput_same: "gget m k = Some v \<Longrightarrow> gput k v m = m"
  unfolding gget_def gput_def by (induction m) (auto split: if_splits)

text \<open>A consumer that changes in everything but its key and identifier leaves the index exact.\<close>

lemma accounts_update:
  assumes "accounts_ok sha gcm enc m" and "gget (mu_consumers m) i = Some c" and "cu_ID c' = cu_ID c" and "cu_APIKey c' = cu_APIKey c"
    and "mu_consumers m' = gput i c' (mu_consumers m)" and "mu_apiKeyMap m' = mu_apiKeyMap m"
  shows "accounts_ok sha gcm enc m'"
proof -
  have p: "plain_key gcm enc c' = plain_key gcm enc c" using assms(4) by (simp add: plain_key_def)
  have g: "gget (mu_consumers m') j = (if j = i then Some c' else gget (mu_consumers m) j)" for j using assms(5) by simp
  have "keys_differ sha gcm enc (mu_consumers m')"
    using assms(1,2) p unfolding accounts_ok_def keys_differ_def g by (auto split: if_splits)
  moreover have "index_exact sha gcm enc (mu_consumers m') (mu_apiKeyMap m')"
    using assms(1,2,6) p unfolding accounts_ok_def index_exact_def g by (auto split: if_splits)
  ultimately show ?thesis using assms p by (auto simp: accounts_ok_def)
qed

lemma accounts_insert:
  assumes ok: "accounts_ok sha gcm enc m" and new: "gget (mu_consumers m) i = None" "\<forall>j d. gget (mu_consumers m) j = Some d \<longrightarrow> hashAPIKey sha (plain_key gcm enc d) \<noteq> hashAPIKey sha k"
    and c: "cu_ID c = i" "cu_APIKey c \<noteq> []" "plain_key gcm enc c = k" "k \<noteq> []"
    and m': "mu_consumers m' = gput i c (mu_consumers m)" "mu_apiKeyMap m' = gput (hashAPIKey sha k) i (mu_apiKeyMap m)"
  shows "accounts_ok sha gcm enc m'"
proof -
  have g: "gget (mu_consumers m') j = (if j = i then Some c else gget (mu_consumers m) j)" for j using m' by simp
  have nk: "hashAPIKey sha (plain_key gcm enc d) \<noteq> hashAPIKey sha (plain_key gcm enc c)"
    "hashAPIKey sha (plain_key gcm enc c) \<noteq> hashAPIKey sha (plain_key gcm enc d)" if "gget (mu_consumers m) j = Some d" for j d
    using new(2) c(3) that by metis+
  have "keys_differ sha gcm enc (mu_consumers m')"
    using ok unfolding accounts_ok_def keys_differ_def g by (auto split: if_splits dest: nk)
  moreover have "index_exact sha gcm enc (mu_consumers m') (mu_apiKeyMap m')"
  proof -
    have old: "gget (mu_apiKeyMap m) h = Some j \<longleftrightarrow> (\<exists>c. gget (mu_consumers m) j = Some c \<and> hashAPIKey sha (plain_key gcm enc c) = h)" for h j
      using ok by (simp add: accounts_ok_def index_exact_def)
    have "hashAPIKey sha (plain_key gcm enc d) \<noteq> hashAPIKey sha k" if "gget (mu_consumers m) j = Some d" for j d
      using that new(2) by blast
    then show ?thesis unfolding index_exact_def g m'(2) using c(3) new(1) by (auto simp: old)
  qed
  ultimately show ?thesis using ok c by (auto simp: accounts_ok_def m')
qed

lemma accounts_delete:
  assumes ok: "accounts_ok sha gcm enc m" and c: "gget (mu_consumers m) i = Some c"
    and m': "mu_consumers m' = gdel i (mu_consumers m)" "mu_apiKeyMap m' = gdel (hashAPIKey sha (plain_key gcm enc c)) (mu_apiKeyMap m)"
  shows "accounts_ok sha gcm enc m'"
proof -
  have g: "gget (mu_consumers m') j = (if j = i then None else gget (mu_consumers m) j)" for j using m' by simp
  have "keys_differ sha gcm enc (mu_consumers m')"
    using ok unfolding accounts_ok_def keys_differ_def g by (auto split: if_splits)
  moreover have "index_exact sha gcm enc (mu_consumers m') (mu_apiKeyMap m')"
  proof -
    have old: "gget (mu_apiKeyMap m) h = Some j \<longleftrightarrow> (\<exists>c. gget (mu_consumers m) j = Some c \<and> hashAPIKey sha (plain_key gcm enc c) = h)" for h j
      using ok by (simp add: accounts_ok_def index_exact_def)
    have "hashAPIKey sha (plain_key gcm enc d) \<noteq> hashAPIKey sha (plain_key gcm enc c)" if "gget (mu_consumers m) j = Some d" "j \<noteq> i" for j d
      using that ok c unfolding accounts_ok_def keys_differ_def by metis
    then show ?thesis unfolding index_exact_def g m'(2) using c by (auto simp: old)
  qed
  ultimately show ?thesis using ok by (auto simp: accounts_ok_def m')
qed

lemma accounts_restart:
  assumes "accounts_ok sha gcm enc m" and "users_saved m"
  shows "accounts_ok sha gcm enc (initMultiUser sha gcm enc (mu_file m))" and "users_saved (initMultiUser sha gcm enc (mu_file m))"
    and "mu_invites (initMultiUser sha gcm enc (mu_file m)) = mu_invites m"
    and "gmapv erase (mu_consumers (initMultiUser sha gcm enc (mu_file m))) = gmapv erase (mu_consumers m)"
proof -
  let ?r = "initMultiUser sha gcm enc (mu_file m)"
  show "users_saved ?r" "mu_invites ?r = mu_invites m" "gmapv erase (mu_consumers ?r) = gmapv erase (mu_consumers m)"
    using assms(2) by (auto simp: users_saved_def initMultiUser_def split: stored_file.splits)
  show "accounts_ok sha gcm enc ?r"
  proof (cases "mu_file m")
    case Absent
    then show ?thesis by (simp add: initMultiUser_def accounts_ok_def keys_differ_def index_exact_def)
  next
    case Corrupt
    then show ?thesis using assms(2) by (simp add: users_saved_def)
  next
    case (Content d)
    let ?C = "ud_Consumers d"
    have eq: "gmapv erase ?C = gmapv erase (mu_consumers m)" using assms(2) Content by (simp add: users_saved_def)
    have g: "\<exists>c'. gget (mu_consumers m) i = Some c' \<and> erase c' = erase c" if "gget ?C i = Some c" for i c
      using that arg_cong [OF eq, of "\<lambda>x. gget x i"] by (cases "gget (mu_consumers m) i") auto
    have ok: "gmap_ok ?C" using assms(1) eq by (metis accounts_ok_def gmap_ok_gmapv)
    have each: "cu_ID c = i \<and> cu_APIKey c \<noteq> [] \<and> plain_key gcm enc c \<noteq> []" if "gget ?C i = Some c" for i c
      using g [OF that] assms(1) unfolding accounts_ok_def by (metis erase_simps(1-3))
    have differ: "keys_differ sha gcm enc ?C"
      unfolding keys_differ_def
    proof (intro allI impI, elim conjE)
      fix i c j e assume "gget ?C i = Some c" "gget ?C j = Some e" "hashAPIKey sha (plain_key gcm enc c) = hashAPIKey sha (plain_key gcm enc e)"
      with g obtain c' e' where "gget (mu_consumers m) i = Some c'" "gget (mu_consumers m) j = Some e'" "erase c' = erase c" "erase e' = erase e"
        by blast
      moreover from this \<open>hashAPIKey sha (plain_key gcm enc c) = hashAPIKey sha (plain_key gcm enc e)\<close>
      have "hashAPIKey sha (plain_key gcm enc c') = hashAPIKey sha (plain_key gcm enc e')" by (metis erase_simps(3))
      ultimately show "i = j" using assms(1) unfolding accounts_ok_def keys_differ_def by blast
    qed
    have "usable_keys gcm enc ?C" using each in_set_gget [OF ok] unfolding usable_keys_def by (metis prod.collapse)
    from fold_index_exact [OF ok this differ] ok each differ show ?thesis
      by (simp add: initMultiUser_def Content accounts_ok_def)
  qed
qed

lemma mu_saveLocked_fields [simp]:
  "mu_invites (mu_saveLocked io m) = mu_invites m" "mu_consumers (mu_saveLocked io m) = mu_consumers m"
  "mu_apiKeyMap (mu_saveLocked io m) = mu_apiKeyMap m" "mu_dirtyCount (mu_saveLocked io m) = mu_dirtyCount m"
  by (simp_all add: mu_saveLocked_def)

lemma users_saved_save: "io_write io \<Longrightarrow> 0 \<le> mu_dirtyCount m \<Longrightarrow> mu_dirtyCount m < 10 \<Longrightarrow> users_saved (mu_saveLocked io m)"
  by (simp add: users_saved_def mu_saveLocked_def atomicWriteFile_def)

lemma accounts_same: "accounts_ok sha gcm enc m \<Longrightarrow> mu_consumers m' = mu_consumers m \<Longrightarrow> mu_apiKeyMap m' = mu_apiKeyMap m \<Longrightarrow> accounts_ok sha gcm enc m'"
  by (simp add: accounts_ok_def)

lemma new_consumer_key:
  assumes "opens_sealed gcm" and "user_env_ok sha gcm enc env"
  shows "plain_key gcm enc (new_consumer env name c) = new_key env" and "cu_APIKey (new_consumer env name c) \<noteq> []"
proof -
  have k: "\<not> IsEncrypted (new_key env)" by (simp add: IsEncrypted_def encPrefix_def new_key_def)
  have d: "decryptFieldWith gcm enc (encryptField gcm (ue_nonce env) enc (new_key env)) = new_key env"
    using decrypt_encryptField [OF assms(1) _ k] assms(2) by (simp add: user_env_ok_def)
  have "encryptField gcm (ue_nonce env) enc (new_key env) = new_key env \<or> IsEncrypted (encryptField gcm (ue_nonce env) enc (new_key env))"
    by (auto simp: encryptField_def Encrypt_def IsEncrypted_def split: option.splits)
  with d k show "plain_key gcm enc (new_consumer env name c) = new_key env"
    using assms(2) by (auto simp: plain_key_def new_consumer_def user_env_ok_def)
  have "new_key env \<noteq> []" by (simp add: new_key_def)
  then show "cu_APIKey (new_consumer env name c) \<noteq> []"
    by (auto simp: new_consumer_def encryptField_def Encrypt_def encPrefix_def split: option.splits if_splits)
qed

definition limits_ok :: "MultiUserManager \<Rightarrow> bool" where
  "limits_ok m \<longleftrightarrow> gmap_ok (mu_invites m) \<and> gmap_ok (mu_consumers m) \<and> length (mu_invites m) \<le> 100 \<and> length (mu_consumers m) \<le> 500"

lemma cleanup_same:
  "length (mu_invites m) \<le> 100 \<Longrightarrow> 100 \<le> length (mu_invites (cleanupExpiredInvitesLocked m)) \<Longrightarrow> cleanupExpiredInvitesLocked m = m"
proof -
  let ?P = "\<lambda>e :: string \<times> InviteCode. \<not> fully_used (snd e)"
  assume "length (mu_invites m) \<le> 100" "100 \<le> length (mu_invites (cleanupExpiredInvitesLocked m))"
  moreover have "mu_invites (cleanupExpiredInvitesLocked m) = filter ?P (mu_invites m)" by (simp add: cleanupExpiredInvitesLocked_def gfilter_def)
  ultimately have "length (filter ?P (mu_invites m)) = length (mu_invites m)" by (metis length_filter_le le_antisym le_trans)
  then have "filter ?P (mu_invites m) = mu_invites m"
    by (metis (no_types, lifting) length_filter_less filter_True less_irrefl)
  then show ?thesis by (simp add: cleanupExpiredInvitesLocked_def gfilter_def)
qed

text \<open>What an operation does, up to the write: it leaves the manager alone, or changes one entry of one table.\<close>

lemma create_code_cases:
  assumes "length (mu_invites m) \<le> 100"
  shows "snd (CreateInviteCode env n r m) = m \<or>
    (\<exists>I r'. (I = mu_invites m \<or> I = mu_invites (cleanupExpiredInvitesLocked m)) \<and> length I < 100 \<and>
       snd (CreateInviteCode env n r m) = mu_saveLocked (ue_io env) (m\<lparr>mu_invites := gput (ue_code env)
         \<lparr>ic_Code = ue_code env, ic_CreatedAt = format_stamp (ue_now env), ic_UsedBy = [], ic_UsedAt = NoStamp,
          ic_MaxUses = n, ic_UseCount = 0, ic_Role = r'\<rparr> I\<rparr>))"
proof (cases "length (mu_invites m) \<ge> 100")
  case True
  show ?thesis
  proof (cases "length (mu_invites (cleanupExpiredInvitesLocked m)) \<ge> 100")
    case True
    then have "cleanupExpiredInvitesLocked m = m" using cleanup_same assms by blast
    then show ?thesis using \<open>length (mu_invites m) \<ge> 100\<close> by (simp add: CreateInviteCode_def)
  next
    case False
    then have "snd (CreateInviteCode env n r m) = mu_saveLocked (ue_io env) (m\<lparr>mu_invites := gput (ue_code env)
         \<lparr>ic_Code = ue_code env, ic_CreatedAt = format_stamp (ue_now env), ic_UsedBy = [], ic_UsedAt = NoStamp,
          ic_MaxUses = n, ic_UseCount = 0, ic_Role = (if r = [] then ''consumer'' else r)\<rparr> (mu_invites (cleanupExpiredInvitesLocked m))\<rparr>)"
      using True by (simp add: CreateInviteCode_def) (simp add: cleanupExpiredInvitesLocked_def)
    moreover have "length (mu_invites (cleanupExpiredInvitesLocked m)) < 100" using False by simp
    ultimately show ?thesis by blast
  qed
next
  case False
  then have "snd (CreateInviteCode env n r m) = mu_saveLocked (ue_io env) (m\<lparr>mu_invites := gput (ue_code env)
         \<lparr>ic_Code = ue_code env, ic_CreatedAt = format_stamp (ue_now env), ic_UsedBy = [], ic_UsedAt = NoStamp,
          ic_MaxUses = n, ic_UseCount = 0, ic_Role = (if r = [] then ''consumer'' else r)\<rparr> (mu_invites m)\<rparr>)"
    by (simp add: CreateInviteCode_def)
  moreover have "length (mu_invites m) < 100" using False by simp
  ultimately show ?thesis by blast
qed

lemma CreateConsumer_cases:
  "snd (CreateConsumer env name code m) = m \<or>
   (\<exists>ivc. length (mu_consumers m) < 500 \<and> gget (mu_invites m) code = Some ivc \<and> \<not> fully_used ivc \<and> \<not> single_used ivc \<and>
      snd (CreateConsumer env name code m) = mu_saveLocked (ue_io env) (m\<lparr>mu_consumers := gput (new_id env) (new_consumer env name code) (mu_consumers m),
        mu_apiKeyMap := gput (hashAPIKey (ue_sha256 env) (new_key env)) (new_id env) (mu_apiKeyMap m),
        mu_invites := gput code (use_invite (ue_now env) (new_id env) ivc) (mu_invites m)\<rparr>))"
  by (auto simp: CreateConsumer_def Let_def split: option.splits)

lemma user_exec_ok:
  assumes "opens_sealed gcm" and ok: "accounts_ok sha gcm enc m" and sv: "users_saved m" and lim: "limits_ok m"
    and env: "user_env_ok sha gcm enc env" and fresh: "draws_fresh sha gcm enc op env m"
  shows "accounts_ok sha gcm enc (user_exec op env m) \<and> users_saved (user_exec op env m) \<and> limits_ok (user_exec op env m)"
proof -
  have w: "io_write (ue_io env)" and e: "ue_sha256 env = sha" "ue_gcm env = gcm" "ue_enc env = enc" using env by (simp_all add: user_env_ok_def)
  have dirty: "0 \<le> mu_dirtyCount m" "mu_dirtyCount m < 10" using sv by (simp_all add: users_saved_def)
  have len: "length (mu_invites m) \<le> 100" "length (mu_consumers m) \<le> 500" and gm: "gmap_ok (mu_invites m)" "gmap_ok (mu_consumers m)"
    using lim by (simp_all add: limits_ok_def)
  have put: "length (gput k v I) \<le> Suc (length I)" if "gmap_ok I" for k and v :: 'z and I using that by (simp add: length_gput)
  have keep: "length (gput k v I) = length I" if "gmap_ok I" "gget I k = Some c" for k and v :: 'z and I c using that by (simp add: length_gput)
  show ?thesis
  proof (cases op)
    case (CodeOp n r)
    from create_code_cases [OF len(1), of env n r] consider "snd (CreateInviteCode env n r m) = m"
      | I r' where "I = mu_invites m \<or> I = mu_invites (cleanupExpiredInvitesLocked m)" "length I < 100"
        "snd (CreateInviteCode env n r m) = mu_saveLocked (ue_io env) (m\<lparr>mu_invites := gput (ue_code env)
         \<lparr>ic_Code = ue_code env, ic_CreatedAt = format_stamp (ue_now env), ic_UsedBy = [], ic_UsedAt = NoStamp,
          ic_MaxUses = n, ic_UseCount = 0, ic_Role = r'\<rparr> I\<rparr>)"
      by blast
    then show ?thesis
    proof cases
      case (2 I r')
      have "gmap_ok I" using 2(1) gm(1) by (auto simp: cleanupExpiredInvitesLocked_def)
      then have "length (gput (ue_code env) y I) \<le> 100" for y using put [of I "ue_code env" y] 2(2) by linarith
      with \<open>gmap_ok I\<close> show ?thesis unfolding CodeOp user_exec.simps 2(3)
        using accounts_same [OF ok] users_saved_save [OF w] dirty len gm by (simp add: limits_ok_def)
    qed (use ok sv lim CodeOp in simp_all)
  next
    case (DropCode c)
    show ?thesis
    proof (cases "gget (mu_invites m) c")
      case (Some ivc)
      then show ?thesis using accounts_same [OF ok] users_saved_save [OF w] dirty len gm length_gdel_le [of c "mu_invites m"]
        by (auto simp: DropCode DeleteInviteCode_def limits_ok_def)
    qed (use ok sv lim DropCode in \<open>simp add: DeleteInviteCode_def\<close>)
  next
    case (NewUser name c)
    from CreateConsumer_cases [of env name c m] show ?thesis
    proof (elim disjE exE conjE)
      fix ivc assume lt: "length (mu_consumers m) < 500" and ivc: "gget (mu_invites m) c = Some ivc"
        and x: "snd (CreateConsumer env name c m) = mu_saveLocked (ue_io env) (m\<lparr>mu_consumers := gput (new_id env) (new_consumer env name c) (mu_consumers m),
        mu_apiKeyMap := gput (hashAPIKey (ue_sha256 env) (new_key env)) (new_id env) (mu_apiKeyMap m),
        mu_invites := gput c (use_invite (ue_now env) (new_id env) ivc) (mu_invites m)\<rparr>)"
      have "accounts_ok sha gcm enc (snd (CreateConsumer env name c m))"
      proof (rule accounts_insert [OF ok])
        show "gget (mu_consumers m) (new_id env) = None" "\<forall>j d. gget (mu_consumers m) j = Some d \<longrightarrow> hashAPIKey sha (plain_key gcm enc d) \<noteq> hashAPIKey sha (new_key env)"
          using fresh by (simp_all add: NewUser)
        show "cu_ID (new_consumer env name c) = new_id env" by (simp add: new_consumer_def)
        show "new_key env \<noteq> []" by (simp add: new_key_def)
      qed (use new_consumer_key [OF assms(1) env] in \<open>simp_all add: x e\<close>)
      moreover have "limits_ok (snd (CreateConsumer env name c m))"
        using gm len lt put [OF gm(2), of "new_id env" "new_consumer env name c"] keep [OF gm(1) ivc] by (simp add: x limits_ok_def)
      moreover have "users_saved (snd (CreateConsumer env name c m))" unfolding x by (rule users_saved_save [OF w]) (use dirty in simp_all)
      ultimately show ?thesis by (simp add: NewUser)
    qed (use ok sv lim NewUser in simp_all)
  next
    case (UsageOp i n)
    show ?thesis
    proof (cases "gget (mu_consumers m) i")
      case None
      then show ?thesis using ok sv lim by (simp add: UsageOp RecordConsumerUsage_def)
    next
      case (Some c)
      let ?c = "c\<lparr>cu_TotalTokens := i64 (cu_TotalTokens c + n), cu_TotalRequests := i64 (cu_TotalRequests c + 1)\<rparr>"
      let ?m = "RecordConsumerUsage (ue_io env) i n m"
      have f: "mu_consumers ?m = gput i ?c (mu_consumers m)" "mu_apiKeyMap ?m = mu_apiKeyMap m" "mu_invites ?m = mu_invites m"
        by (simp_all add: RecordConsumerUsage_def Some Let_def)
      have "accounts_ok sha gcm enc ?m" by (rule accounts_update [OF ok Some _ _ f(1,2)]) simp_all
      moreover have "limits_ok ?m" using gm len keep [OF gm(2) Some] by (simp add: limits_ok_def f)
      moreover have "users_saved ?m"
      proof (cases "mu_dirtyCount m + 1 \<ge> 10")
        case True
        then show ?thesis using users_saved_save [OF w] by (simp add: RecordConsumerUsage_def Some Let_def)
      next
        case False
        have er: "gmapv erase (gput i ?c (mu_consumers m)) = gmapv erase (mu_consumers m)"
          using Some by (simp add: gmapv_gput gput_same erase_def)
        have "mu_consumers m \<noteq> []" using Some by auto
        then show ?thesis using False sv dirty er by (auto simp: RecordConsumerUsage_def Some Let_def users_saved_def split: stored_file.splits)
      qed
      ultimately show ?thesis by (simp add: UsageOp)
    qed
  next
    case (DropUser v pm i)
    show ?thesis
    proof (cases "gget (mu_consumers m) i")
      case None
      then show ?thesis using ok sv lim by (simp add: DropUser DeleteConsumer_def)
    next
      case (Some c)
      let ?m = "fst (snd (DeleteConsumer env v i m pm))"
      have x: "?m = mu_saveLocked (ue_io env) (m\<lparr>mu_apiKeyMap := gdel (hashAPIKey sha (plain_key gcm enc c)) (mu_apiKeyMap m), mu_consumers := gdel i (mu_consumers m)\<rparr>)"
        by (simp add: DeleteConsumer_def Some e)
      have "accounts_ok sha gcm enc ?m" by (rule accounts_delete [OF ok Some]) (simp_all add: x)
      moreover have "limits_ok ?m" using gm len length_gdel_le [of i "mu_consumers m"] by (simp add: x limits_ok_def)
      moreover have "users_saved ?m" unfolding x by (rule users_saved_save [OF w]) (use dirty in simp_all)
      ultimately show ?thesis by (simp add: DropUser)
    qed
  next
    case (ToggleOp i b)
    show ?thesis
    proof (cases "gget (mu_consumers m) i")
      case None
      then show ?thesis using ok sv lim by (simp add: ToggleOp ToggleConsumer_def)
    next
      case (Some c)
      let ?m = "snd (ToggleConsumer (ue_io env) i b m)"
      have x: "?m = mu_saveLocked (ue_io env) (m\<lparr>mu_consumers := gput i (c\<lparr>cu_Enabled := b\<rparr>) (mu_consumers m)\<rparr>)"
        by (simp add: ToggleConsumer_def Some)
      have "accounts_ok sha gcm enc ?m" by (rule accounts_update [OF ok Some, where c' = "c\<lparr>cu_Enabled := b\<rparr>"]) (simp_all add: x)
      moreover have "limits_ok ?m" using gm len keep [OF gm(2) Some] by (simp add: x limits_ok_def)
      moreover have "users_saved ?m" unfolding x by (rule users_saved_save [OF w]) (use dirty in simp_all)
      ultimately show ?thesis by (simp add: ToggleOp)
    qed
  next
    case FlushOp
    show ?thesis
    proof (cases "mu_dirtyCount m > 0")
      case True
      then show ?thesis using accounts_same [OF ok] users_saved_save [OF w] gm len by (simp add: FlushOp FlushSaves_def limits_ok_def)
    qed (use ok sv lim in \<open>simp add: FlushOp FlushSaves_def\<close>)
  next
    case CrashOp
    note r = accounts_restart [OF ok sv]
    have "length (mu_consumers (initMultiUser sha gcm enc (mu_file m))) = length (mu_consumers m)"
      using arg_cong [OF r(4), of length] by (simp add: gmapv_def)
    moreover have "gmap_ok (mu_consumers (initMultiUser sha gcm enc (mu_file m)))" using r(1) by (simp add: accounts_ok_def)
    ultimately show ?thesis using r(1-3) gm len by (simp add: CrashOp e limits_ok_def)
  qed
qed

lemma users_run_ok:
  assumes "opens_sealed gcm"
  shows "users_run sha gcm enc m \<Longrightarrow> accounts_ok sha gcm enc m \<and> users_saved m \<and> limits_ok m"
proof (induction rule: users_run.induct)
  case users_start
  show ?case by (simp add: initMultiUser_def accounts_ok_def keys_differ_def index_exact_def users_saved_def limits_ok_def)
next
  case (users_step m env op)
  then show ?case using user_exec_ok [OF assms] by blast
qed

section \<open>API keys\<close>

text \<open>
  (C13) An API key is that of an enabled consumer. In every run in which all writes succeed and the encryptor stays the same, deletions,
  crashes and restarts included, a key authenticates a consumer exactly if it is the key that consumer was given, and the
  consumer is in the table, neither deleted nor disabled; its identifier is the owner of the request. No assumption is
  made on the hash as a whole: the hash of a new key differs from those of the stored keys, and the key that is presented does not collide
  with another stored key.
\<close>

theorem api_key_authenticates:
  assumes "opens_sealed gcm" and "users_run sha gcm enc m"
    and "\<forall>i d. gget (mu_consumers m) i = Some d \<and> hashAPIKey sha (plain_key gcm enc d) = hashAPIKey sha k \<longrightarrow> plain_key gcm enc d = k"
  shows "ValidateAPIKey sha k m = Some c \<longleftrightarrow>
      (\<exists>i. gget (mu_consumers m) i = Some c \<and> cu_ID c = i \<and> plain_key gcm enc c = k \<and> cu_Enabled c)"
proof -
  have ok: "accounts_ok sha gcm enc m" using users_run_ok [OF assms(1,2)] by blast
  have idx: "gget (mu_apiKeyMap m) (hashAPIKey sha k) = Some i \<longleftrightarrow> (\<exists>d. gget (mu_consumers m) i = Some d \<and> plain_key gcm enc d = k)" for i
    using ok assms(3) by (auto simp: accounts_ok_def index_exact_def)
  have ids: "gget (mu_consumers m) i = Some d \<Longrightarrow> cu_ID d = i" for i d using ok by (simp add: accounts_ok_def)
  show ?thesis
  proof (cases "gget (mu_apiKeyMap m) (hashAPIKey sha k)")
    case None
    then have "\<not> (\<exists>i d. gget (mu_consumers m) i = Some d \<and> plain_key gcm enc d = k)" using idx by simp
    moreover have "ValidateAPIKey sha k m = None" by (simp add: ValidateAPIKey_def None)
    ultimately show ?thesis by (metis option.distinct(1))
  next
    case (Some i)
    then obtain d where d: "gget (mu_consumers m) i = Some d" "plain_key gcm enc d = k" using idx by blast
    have one: "j = i" if "gget (mu_consumers m) j = Some e" "plain_key gcm enc e = k" for j e using idx [of j] that Some by simp
    have v: "ValidateAPIKey sha k m = (if cu_Enabled d then Some d else None)" using Some d(1) by (simp add: ValidateAPIKey_def)
    show ?thesis
    proof
      assume "ValidateAPIKey sha k m = Some c"
      then have "c = d" "cu_Enabled d" using v by (simp_all split: if_splits)
      with d ids [OF d(1)] show "\<exists>i. gget (mu_consumers m) i = Some c \<and> cu_ID c = i \<and> plain_key gcm enc c = k \<and> cu_Enabled c" by blast
    next
      assume "\<exists>i. gget (mu_consumers m) i = Some c \<and> cu_ID c = i \<and> plain_key gcm enc c = k \<and> cu_Enabled c"
      then obtain j where j: "gget (mu_consumers m) j = Some c" "plain_key gcm enc c = k" "cu_Enabled c" by blast
      from one [OF j(1,2)] j d(1) v show "ValidateAPIKey sha k m = Some c" by simp
    qed
  qed
qed

section \<open>Invite codes\<close>

text \<open>How many consumers there are who registered with a code, and how many a code allows.\<close>

definition registered_with :: "string \<Rightarrow> MultiUserManager \<Rightarrow> nat" where
  "registered_with code m = length (filter (\<lambda>c. cu_InviteCode c = code) (map snd (mu_consumers m)))"

definition allowed_uses :: "InviteCode \<Rightarrow> int" where
  "allowed_uses ivc = (if ic_MaxUses ivc = 0 then 1 else ic_MaxUses ivc)"

definition invite_ok :: "nat \<Rightarrow> InviteCode \<Rightarrow> bool" where
  "invite_ok n ivc \<longleftrightarrow> 0 \<le> ic_MaxUses ivc \<and> in_i64 (ic_MaxUses ivc) \<and> 0 \<le> ic_UseCount ivc \<and> ic_UseCount ivc \<le> allowed_uses ivc \<and>
     (ic_UsedBy ivc = [] \<longleftrightarrow> ic_UseCount ivc = 0) \<and> int n \<le> ic_UseCount ivc"

definition invites_ok :: "MultiUserManager \<Rightarrow> bool" where
  "invites_ok m \<longleftrightarrow> (\<forall>code ivc. gget (mu_invites m) code = Some ivc \<longrightarrow> invite_ok (registered_with code m) ivc)"

lemma invite_ok_mono: "invite_ok n ivc \<Longrightarrow> k \<le> n \<Longrightarrow> invite_ok k ivc"
  by (auto simp: invite_ok_def)

lemma invite_ok_use:
  assumes "invite_ok n ivc" and "\<not> fully_used ivc" and "\<not> single_used ivc" and "i \<noteq> []"
  shows "invite_ok (Suc n) (use_invite now i ivc)"
proof -
  have b: "0 \<le> ic_MaxUses ivc" "in_i64 (ic_MaxUses ivc)" "0 \<le> ic_UseCount ivc" "ic_UsedBy ivc = [] \<longleftrightarrow> ic_UseCount ivc = 0" "int n \<le> ic_UseCount ivc"
    using assms(1) by (auto simp: invite_ok_def)
  have le: "ic_UseCount ivc + 1 \<le> allowed_uses ivc"
    using b(1,4) assms(2,3) by (cases "ic_MaxUses ivc = 0") (auto simp: fully_used_def single_used_def allowed_uses_def)
  moreover from this have "i64 (ic_UseCount ivc + 1) = ic_UseCount ivc + 1"
    using b(1-3) by (intro i64_id) (auto simp: in_i64_def allowed_uses_def split: if_splits)
  ultimately show ?thesis using b assms(4) by (auto simp: invite_ok_def use_invite_def allowed_uses_def)
qed

lemma validate_iff:
  "invite_ok n ivc \<Longrightarrow> \<not> fully_used ivc \<and> \<not> single_used ivc \<longleftrightarrow> ic_UseCount ivc < allowed_uses ivc"
  by (cases "ic_MaxUses ivc = 0") (auto simp: invite_ok_def allowed_uses_def fully_used_def single_used_def)

lemma registered_map: "registered_with code m = length (filter (\<lambda>i. i = code) (map (\<lambda>e. cu_InviteCode (snd e)) (mu_consumers m)))"
  by (simp add: registered_with_def filter_map comp_def)

lemma registered_cong: "map (\<lambda>e. cu_InviteCode (snd e)) (mu_consumers m') = map (\<lambda>e. cu_InviteCode (snd e)) (mu_consumers m) \<Longrightarrow>
    registered_with code m' = registered_with code m"
  by (simp only: registered_map)

lemma registered_del: "mu_consumers m' = gdel i (mu_consumers m) \<Longrightarrow> registered_with code m' \<le> registered_with code m"
proof -
  have "length (filter (\<lambda>x. cu_InviteCode (snd x) = code) (gdel i C)) \<le> length (filter (\<lambda>x. cu_InviteCode (snd x) = code) C)" for C
    unfolding gdel_def by (induction C) auto
  then show "mu_consumers m' = gdel i (mu_consumers m) \<Longrightarrow> ?thesis" by (simp add: registered_with_def filter_map comp_def)
qed

lemma registered_put:
  "gget (mu_consumers m) i = None \<Longrightarrow> mu_consumers m' = gput i c (mu_consumers m) \<Longrightarrow>
     registered_with code m' = registered_with code m + (if cu_InviteCode c = code then 1 else 0)"
  by (simp add: registered_with_def gput_new)

lemma codes_gput_same:
  "gget C i = Some c \<Longrightarrow> cu_InviteCode c' = cu_InviteCode c \<Longrightarrow> map (\<lambda>e. cu_InviteCode (snd e)) (gput i c' C) = map (\<lambda>e. cu_InviteCode (snd e)) C"
  unfolding gget_def gput_def by (induction C) (auto split: if_splits)

lemma codes_erase: "gmapv erase C = gmapv erase C' \<Longrightarrow> map (\<lambda>e. cu_InviteCode (snd e)) C = map (\<lambda>e. cu_InviteCode (snd e)) C'"
proof -
  have "map (\<lambda>e. cu_InviteCode (snd e)) D = map (\<lambda>e. cu_InviteCode (snd e)) (gmapv erase D)" for D by (simp add: gmapv_def)
  then show "gmapv erase C = gmapv erase C' \<Longrightarrow> ?thesis" by metis
qed

lemma invites_ok_mono:
  assumes "invites_ok m" and "\<And>code ivc. gget (mu_invites m') code = Some ivc \<Longrightarrow> gget (mu_invites m) code = Some ivc"
    and "\<And>code. registered_with code m' \<le> registered_with code m"
  shows "invites_ok m'"
  using assms invite_ok_mono unfolding invites_ok_def by blast

lemma invites_ok_step:
  assumes iv: "invites_ok m" and lim: "limits_ok m" and sv: "users_saved m" and env: "user_env_ok sha gcm enc env"
    and fresh: "draws_fresh sha gcm enc op env m" and acc: "accounts_ok sha gcm enc m"
  shows "invites_ok (user_exec op env m)"
proof -
  have len: "length (mu_invites m) \<le> 100" and gm: "gmap_ok (mu_invites m)" using lim by (simp_all add: limits_ok_def)
  have clean: "gget (mu_invites (cleanupExpiredInvitesLocked m)) code = Some ivc \<Longrightarrow> gget (mu_invites m) code = Some ivc" for code ivc
    using gm by (auto simp: cleanupExpiredInvitesLocked_def gget_gfilter split: option.splits if_splits)
  show ?thesis
  proof (cases op)
    case (CodeOp n r)
    from create_code_cases [OF len, of env n r] consider "snd (CreateInviteCode env n r m) = m"
      | I r' where "I = mu_invites m \<or> I = mu_invites (cleanupExpiredInvitesLocked m)" "length I < 100"
        "snd (CreateInviteCode env n r m) = mu_saveLocked (ue_io env) (m\<lparr>mu_invites := gput (ue_code env)
         \<lparr>ic_Code = ue_code env, ic_CreatedAt = format_stamp (ue_now env), ic_UsedBy = [], ic_UsedAt = NoStamp,
          ic_MaxUses = n, ic_UseCount = 0, ic_Role = r'\<rparr> I\<rparr>)"
      by blast
    then show ?thesis
    proof cases
      case (2 I r')
      let ?m = "snd (CreateInviteCode env n r m)"
      have nobody: "registered_with (ue_code env) m = 0"
      proof -
        have "cu_InviteCode (snd x) \<noteq> ue_code env" if "x \<in> set (mu_consumers m)" for x
          using that fresh in_set_gget [of "mu_consumers m" "fst x" "snd x"] lim by (simp add: CodeOp limits_ok_def)
        then show ?thesis by (auto simp: registered_with_def filter_empty_conv)
      qed
      have reg: "registered_with code ?m = registered_with code m" for code by (rule registered_cong) (simp add: 2(3))
      have I: "gget I code = Some ivc \<Longrightarrow> gget (mu_invites m) code = Some ivc" for code ivc using 2(1) clean by blast
      have "invite_ok (registered_with code ?m) ivc" if "gget (mu_invites ?m) code = Some ivc" for code ivc
      proof (cases "code = ue_code env")
        case True
        then show ?thesis using that fresh nobody unfolding reg by (auto simp: 2(3) CodeOp invite_ok_def allowed_uses_def)
      next
        case False
        then show ?thesis using that I iv unfolding reg by (simp add: 2(3) invites_ok_def)
      qed
      then show ?thesis by (simp add: CodeOp invites_ok_def)
    qed (use iv CodeOp in simp)
  next
    case (DropCode c)
    show ?thesis
      by (rule invites_ok_mono [OF iv])
        (auto simp: DropCode DeleteInviteCode_def registered_with_def split: option.splits if_splits)
  next
    case (NewUser name c)
    from CreateConsumer_cases [of env name c m] show ?thesis
    proof (elim disjE exE conjE)
      fix ivc assume ivc: "gget (mu_invites m) c = Some ivc" "\<not> fully_used ivc" "\<not> single_used ivc"
        and x: "snd (CreateConsumer env name c m) = mu_saveLocked (ue_io env) (m\<lparr>mu_consumers := gput (new_id env) (new_consumer env name c) (mu_consumers m),
        mu_apiKeyMap := gput (hashAPIKey (ue_sha256 env) (new_key env)) (new_id env) (mu_apiKeyMap m),
        mu_invites := gput c (use_invite (ue_now env) (new_id env) ivc) (mu_invites m)\<rparr>)"
      let ?m = "snd (CreateConsumer env name c m)"
      have code: "cu_InviteCode (new_consumer env name c) = c" by (simp add: new_consumer_def)
      have reg: "registered_with code ?m = registered_with code m + (if c = code then 1 else 0)" for code
        using registered_put [of m "new_id env" ?m "new_consumer env name c" code] fresh by (simp add: NewUser x code)
      have used: "invite_ok (registered_with c ?m) (use_invite (ue_now env) (new_id env) ivc)"
        unfolding reg using invite_ok_use [OF _ ivc(2,3), of "registered_with c m" "new_id env"] iv ivc(1) by (simp add: invites_ok_def new_id_def)
      have "invite_ok (registered_with code ?m) v" if "gget (mu_invites ?m) code = Some v" for code v
      proof (cases "code = c")
        case True
        then show ?thesis using that used by (simp add: x)
      next
        case False
        then show ?thesis using that iv unfolding reg by (simp add: x invites_ok_def)
      qed
      then show ?thesis by (simp add: NewUser invites_ok_def)
    qed (use iv NewUser in simp)
  next
    case (UsageOp i n)
    show ?thesis
    proof (rule invites_ok_mono [OF iv])
      show "registered_with code (user_exec op env m) \<le> registered_with code m" for code
        by (rule eq_refl, rule registered_cong)
          (auto simp: UsageOp RecordConsumerUsage_def Let_def codes_gput_same split: option.splits)
    qed (auto simp: UsageOp RecordConsumerUsage_def Let_def split: option.splits if_splits)
  next
    case (DropUser v pm i)
    show ?thesis
    proof (rule invites_ok_mono [OF iv])
      show "registered_with code (user_exec op env m) \<le> registered_with code m" for code
        using registered_del [of "user_exec op env m" i m code] by (auto simp: DropUser DeleteConsumer_def split: option.splits)
    qed (auto simp: DropUser DeleteConsumer_def split: option.splits if_splits)
  next
    case (ToggleOp i b)
    show ?thesis
    proof (rule invites_ok_mono [OF iv])
      show "registered_with code (user_exec op env m) \<le> registered_with code m" for code
        by (rule eq_refl, rule registered_cong) (auto simp: ToggleOp ToggleConsumer_def codes_gput_same split: option.splits)
    qed (auto simp: ToggleOp ToggleConsumer_def split: option.splits if_splits)
  next
    case FlushOp
    show ?thesis by (rule invites_ok_mono [OF iv]) (auto simp: FlushOp FlushSaves_def registered_with_def split: if_splits)
  next
    case CrashOp
    note r = accounts_restart [OF acc sv]
    have e: "ue_sha256 env = sha" "ue_gcm env = gcm" "ue_enc env = enc" using env by (simp_all add: user_env_ok_def)
    show ?thesis
    proof (rule invites_ok_mono [OF iv])
      show "registered_with code (user_exec op env m) \<le> registered_with code m" for code
        by (rule eq_refl, rule registered_cong) (use codes_erase [OF r(4)] in \<open>simp add: CrashOp e\<close>)
    qed (simp add: CrashOp e r(3))
  qed
qed

text \<open>
  (C40) Invite codes allow no more than they say. In every run the number of consumers who registered with a code that is still there
  is at most the number of its uses, and that is at most what the code allows, which is one for a single-use code. There are
  never more than 500 consumers and 100 codes.
\<close>

theorem invite_codes_limit:
  assumes "opens_sealed gcm" and "users_run sha gcm enc m"
  shows "length (mu_consumers m) \<le> 500 \<and> length (mu_invites m) \<le> 100 \<and>
    (\<forall>code ivc. gget (mu_invites m) code = Some ivc \<longrightarrow>
       int (registered_with code m) \<le> ic_UseCount ivc \<and> ic_UseCount ivc \<le> (if ic_MaxUses ivc = 0 then 1 else ic_MaxUses ivc) \<and>
       (ValidateInviteCode code m \<longleftrightarrow> ic_UseCount ivc < (if ic_MaxUses ivc = 0 then 1 else ic_MaxUses ivc)))"
proof -
  have "invites_ok m"
    using assms(2)
  proof (induction rule: users_run.induct)
    case users_start
    show ?case by (simp add: invites_ok_def initMultiUser_def)
  next
    case (users_step m env op)
    then show ?case using users_run_ok [OF assms(1) users_step.hyps(1)] invites_ok_step by blast
  qed
  have "int (registered_with code m) \<le> ic_UseCount ivc \<and> ic_UseCount ivc \<le> allowed_uses ivc \<and>
       (ValidateInviteCode code m \<longleftrightarrow> ic_UseCount ivc < allowed_uses ivc)" if "gget (mu_invites m) code = Some ivc" for code ivc
  proof -
    have i: "invite_ok (registered_with code m) ivc" using that \<open>invites_ok m\<close> by (simp add: invites_ok_def)
    show ?thesis using i validate_iff [OF i] that by (auto simp: invite_ok_def ValidateInviteCode_def)
  qed
  moreover have "limits_ok m" using users_run_ok [OF assms] by blast
  ultimately show ?thesis by (simp add: limits_ok_def allowed_uses_def)
qed

section \<open>Restart\<close>

text \<open>
  A crash loses at most usage. In every run the next process has the same codes and the same consumers, with the same keys, names and
  permissions; only the usage of fewer than ten requests can be missing, and none after a flush. Every API key
  authenticates the same consumer as before.
\<close>

theorem users_restart:
  assumes "opens_sealed gcm" and "users_run sha gcm enc m"
  shows "mu_invites (initMultiUser sha gcm enc (mu_file m)) = mu_invites m \<and>
    gmapv erase (mu_consumers (initMultiUser sha gcm enc (mu_file m))) = gmapv erase (mu_consumers m) \<and>
    mu_dirtyCount m < 10 \<and>
    (mu_dirtyCount m = 0 \<longrightarrow> mu_consumers (initMultiUser sha gcm enc (mu_file m)) = mu_consumers m) \<and>
    map_option erase (ValidateAPIKey sha k (initMultiUser sha gcm enc (mu_file m))) = map_option erase (ValidateAPIKey sha k m)"
proof -
  let ?r = "initMultiUser sha gcm enc (mu_file m)"
  have ok: "accounts_ok sha gcm enc m" and sv: "users_saved m" using users_run_ok [OF assms] by auto
  note r = accounts_restart [OF ok sv]
  have look: "map_option erase (gget (mu_consumers ?r) i) = map_option erase (gget (mu_consumers m) i)" for i
    using arg_cong [OF r(4), of "\<lambda>x. gget x i"] by simp
  have idx: "gget (mu_apiKeyMap ?r) h = Some i \<longleftrightarrow> gget (mu_apiKeyMap m) h = Some i" for h i
  proof -
    have "(\<exists>c. gget (mu_consumers ?r) i = Some c \<and> hashAPIKey sha (plain_key gcm enc c) = h) \<longleftrightarrow>
        (\<exists>c. gget (mu_consumers m) i = Some c \<and> hashAPIKey sha (plain_key gcm enc c) = h)"
      using look [of i] by (cases "gget (mu_consumers ?r) i"; cases "gget (mu_consumers m) i") (auto, (metis erase_simps(3))+)
    with ok r(1) show ?thesis by (simp add: accounts_ok_def index_exact_def)
  qed
  have "gget (mu_apiKeyMap ?r) h = gget (mu_apiKeyMap m) h" for h
    using idx [of h] by (cases "gget (mu_apiKeyMap m) h"; cases "gget (mu_apiKeyMap ?r) h") auto
  then have "map_option erase (ValidateAPIKey sha k ?r) = map_option erase (ValidateAPIKey sha k m)"
  proof (cases "gget (mu_apiKeyMap m) (hashAPIKey sha k)")
    case (Some i)
    with \<open>\<And>h. gget (mu_apiKeyMap ?r) h = gget (mu_apiKeyMap m) h\<close> look [of i] show ?thesis
      by (cases "gget (mu_consumers ?r) i"; cases "gget (mu_consumers m) i") (auto simp: ValidateAPIKey_def, (metis erase_simps(5))+)
  qed (simp add: ValidateAPIKey_def)
  moreover have "mu_dirtyCount m < 10" "mu_dirtyCount m = 0 \<longrightarrow> mu_consumers ?r = mu_consumers m"
    using sv by (auto simp: users_saved_def initMultiUser_def split: stored_file.splits)
  ultimately show ?thesis using r(3,4) by blast
qed

section \<open>A sample run\<close>

text \<open>A hash without collisions: the hexadecimal digits of the key itself.\<close>

definition sample_sha :: "string \<Rightarrow> byte list" where
  "sample_sha s = map (\<lambda>c. of_nat (of_char c)) s"

lemma sample_sha_inj: "inj (hashAPIKey sample_sha)"
proof (rule injI)
  fix x y assume "hashAPIKey sample_sha x = hashAPIKey sample_sha y"
  then have "sample_sha x = sample_sha y" unfolding hashAPIKey_def by (metis hexDecode_hexEncode option.inject)
  then have "map (\<lambda>c. unat (of_nat (of_char c) :: byte)) x = map (\<lambda>c. unat (of_nat (of_char c) :: byte)) y"
    unfolding sample_sha_def by (metis (no_types, lifting) list.map_comp comp_def map_eq_conv)
  moreover have "unat (of_nat (of_char c) :: byte) = of_char c" for c :: char
    using nat_of_char_less_256 [of c] by (simp add: unat_of_nat)
  ultimately have "map (of_char :: char \<Rightarrow> nat) x = map of_char y" by simp
  then show "x = y" by (simp add: inj_map_eq_map inj_on_def)
qed

definition sample_user_env :: user_env where
  "sample_user_env = \<lparr>ue_now = 0, ue_sha256 = sample_sha, ue_gcm = (\<lambda>k n. (\<lambda>p. p, Some)), ue_nonce = None, ue_enc = None, ue_io = io_fine False,
     ue_code = ''code'', ue_key = ''k'', ue_id = ''1''\<rparr>"

definition one_consumer :: MultiUserManager where
  "one_consumer = user_exec (NewUser ''ann'' ''code'') sample_user_env
     (user_exec (CodeOp 0 []) sample_user_env (initMultiUser sample_sha (\<lambda>k n. (\<lambda>p. p, Some)) None Absent))"

lemma one_consumer_tables:
  "mu_consumers one_consumer = [(''consumer-1'', \<lparr>cu_ID = ''consumer-1'', cu_Name = ''ann'', cu_APIKey = ''sk-k'', cu_InviteCode = ''code'',
     cu_CreatedAt = Stamp 0, cu_TotalTokens = 0, cu_TotalRequests = 0, cu_Enabled = True\<rparr>)]"
  "mu_invites one_consumer = [(''code'', \<lparr>ic_Code = ''code'', ic_CreatedAt = Stamp 0, ic_UsedBy = ''consumer-1'', ic_UsedAt = Stamp 0,
     ic_MaxUses = 0, ic_UseCount = 1, ic_Role = ''consumer''\<rparr>)]"
  by (simp_all add: one_consumer_def initMultiUser_def CreateInviteCode_def CreateConsumer_def Let_def fully_used_def single_used_def gput_def
      sample_user_env_def new_consumer_def new_id_def new_key_def encryptField_def use_invite_def format_stamp_def i64_def)

lemma one_consumer_run: "users_run sample_sha (\<lambda>k n. (\<lambda>p. p, Some)) None one_consumer"
  unfolding one_consumer_def
proof (intro users_step users_start)
  show "user_env_ok sample_sha (\<lambda>k n. (\<lambda>p. p, Some)) None sample_user_env" "user_env_ok sample_sha (\<lambda>k n. (\<lambda>p. p, Some)) None sample_user_env"
    by (simp_all add: user_env_ok_def sample_user_env_def nonce_ok_def io_fine_def)
qed (simp_all add: initMultiUser_def CreateInviteCode_def sample_user_env_def in_i64_def)

lemma sample_sealed: "opens_sealed (\<lambda>k n. (\<lambda>p. p, Some))"
  by (simp add: opens_sealed_def)

theorem api_key_authenticates_witness:
  "map_option cu_ID (ValidateAPIKey sample_sha ''sk-k'' one_consumer) = Some ''consumer-1'' \<and> ValidateAPIKey sample_sha ''sk-x'' one_consumer = None"
proof -
  have k: "plain_key (\<lambda>k n. (\<lambda>p. p, Some)) None (snd (hd (mu_consumers one_consumer))) = ''sk-k''"
    by (simp add: one_consumer_tables plain_key_def IsEncrypted_def encPrefix_def)
  have safe: "\<forall>i d. gget (mu_consumers one_consumer) i = Some d \<and>
      hashAPIKey sample_sha (plain_key (\<lambda>k n. (\<lambda>p. p, Some)) None d) = hashAPIKey sample_sha x \<longrightarrow>
      plain_key (\<lambda>k n. (\<lambda>p. p, Some)) None d = x" for x
    using sample_sha_inj by (auto dest: injD)
  note a = api_key_authenticates [OF sample_sealed one_consumer_run safe]
  have "ValidateAPIKey sample_sha ''sk-k'' one_consumer = Some (snd (hd (mu_consumers one_consumer)))"
    unfolding a by (rule exI [where x = "''consumer-1''"]) (use k in \<open>simp add: one_consumer_tables\<close>)
  moreover have "ValidateAPIKey sample_sha ''sk-x'' one_consumer \<noteq> Some c" for c
    unfolding a using k by (auto simp: one_consumer_tables)
  ultimately show ?thesis by (auto simp: one_consumer_tables)
qed

theorem invite_codes_limit_witness:
  "registered_with ''code'' one_consumer \<le> 1 \<and> \<not> ValidateInviteCode ''code'' one_consumer"
proof -
  let ?v = "snd (hd (mu_invites one_consumer))"
  have "gget (mu_invites one_consumer) ''code'' = Some ?v" by (simp add: one_consumer_tables)
  with invite_codes_limit [OF sample_sealed one_consumer_run]
  have "int (registered_with ''code'' one_consumer) \<le> ic_UseCount ?v \<and>
      (ValidateInviteCode ''code'' one_consumer \<longleftrightarrow> ic_UseCount ?v < (if ic_MaxUses ?v = 0 then 1 else ic_MaxUses ?v))" by blast
  then show ?thesis by (simp add: one_consumer_tables)
qed

theorem users_restart_witness:
  "mu_invites (initMultiUser sample_sha (\<lambda>k n. (\<lambda>p. p, Some)) None (mu_file one_consumer)) = mu_invites one_consumer"
  using users_restart [OF sample_sealed one_consumer_run] by blast

section \<open>What the code gets wrong\<close>

text \<open>
  The clean-up only removes codes with a positive number of uses. A hundred single-use codes that were used block new codes until
  someone deletes them, and the answer to the administrator is a success with an empty code.
\<close>

lemma used_single_codes_block:
  assumes "length (mu_invites m) = 100" and "\<forall>e\<in>set (mu_invites m). ic_MaxUses (snd e) = 0"
  shows "fst (handleCreateInviteCode env ''admin'' (Some (0, [])) m) = HttpOK ([], 0, [])"
proof -
  have "mu_invites (cleanupExpiredInvitesLocked m) = mu_invites m"
    using assms(2) by (auto simp: cleanupExpiredInvitesLocked_def gfilter_def fully_used_def filter_id_conv)
  then show ?thesis using assms(1) by (simp add: handleCreateInviteCode_def isAdmin_def CreateInviteCode_def)
qed

text \<open>When a stored key cannot be decrypted at the start, its ciphertext is indexed: the text in the file authenticates.\<close>

lemma ciphertext_authenticates:
  assumes "IsEncrypted (cu_APIKey c)" and "decryptFieldWith gcm enc (cu_APIKey c) = cu_APIKey c" and "cu_Enabled c"
  shows "ValidateAPIKey sha (cu_APIKey c) (initMultiUser sha gcm enc (Content \<lparr>ud_Invites = I, ud_Consumers = [(i, c)]\<rparr>)) = Some c"
proof -
  have "cu_APIKey c \<noteq> []" using assms(1) by (auto simp: IsEncrypted_def encPrefix_def)
  then show ?thesis using assms by (simp add: ValidateAPIKey_def initMultiUser_def index_consumer_def plain_key_def Let_def)
qed

end
