(* ===== verification/Relay_Auth.thy ===== *)
theory Relay_Auth
  imports Field_Encryption Calendar Hex_Text "HOL-Library.Multiset"
begin

text \<open>
  Requests that nodes forward to each other: their headers, the signature over a forward and the cache against
  replays (\<open>src/network_relay.go\<close>), the check of signatures (\<open>src/node.go\<close>), the lookup of the sender and the
  guard of the federation endpoints (\<open>src/federation.go\<close>).

  A header is a field with the empty text for an absent one; the timestamp of a forward is what \<open>time.Parse\<close> makes
  of its text. The fields from \<open>hr_relayDispatch\<close> on are the values in the context of the request, which a
  client cannot set. Signing, the check of a raw signature, SHA-256 and the JSON text of the signed data are fields of the environment.
\<close>

section \<open>Requests\<close>

record http_request =
  hr_method :: string
  hr_path :: string
  hr_body :: string
  hr_RemoteAddr :: string
  hr_Authorization :: string
  hr_cookie :: "string option"     \<comment> \<open>the cookie \<open>admin_token\<close>\<close>
  hr_role :: string                \<comment> \<open>\<open>X-Request-Role\<close>\<close>
  hr_owner :: string               \<comment> \<open>\<open>X-Request-Owner\<close>\<close>
  hr_consumerName :: string        \<comment> \<open>\<open>X-Consumer-Name\<close>\<close>
  hr_guestPool :: string           \<comment> \<open>\<open>X-MK-GuestPublicPool\<close>\<close>
  hr_guestNode :: string           \<comment> \<open>\<open>X-MK-Guest-Node\<close>\<close>
  hr_keyType :: string             \<comment> \<open>\<open>X-OMP-KeyType\<close>\<close>
  hr_cfIP :: string                \<comment> \<open>\<open>Cf-Connecting-Ip\<close>\<close>
  hr_forwardedFor :: string        \<comment> \<open>\<open>X-Forwarded-For\<close>\<close>
  hr_realIP :: string              \<comment> \<open>\<open>X-Real-Ip\<close>\<close>
  hr_nodeID :: string              \<comment> \<open>\<open>X-Node-ID\<close>\<close>
  hr_nodeAuth :: string            \<comment> \<open>\<open>X-Node-Auth\<close>\<close>
  hr_relaySig :: string
  hr_relayTs :: stamp
  hr_relayNonce :: string
  hr_relayHop :: string
  hr_relayFrom :: string
  hr_nodeSignature :: string       \<comment> \<open>\<open>X-Node-Signature\<close>\<close>
  hr_nodeTimestamp :: "int option" \<comment> \<open>\<open>X-Node-Timestamp\<close>, if it is a number\<close>
  hr_seedToken :: string           \<comment> \<open>\<open>X-Seed-Token\<close>\<close>
  hr_fedSecret :: string           \<comment> \<open>\<open>X-Federation-Secret\<close>\<close>
  hr_relayDispatch :: bool
  hr_internalKeyType :: string
  hr_guestKey :: string
  hr_relayVerified :: bool

definition node_id_char :: "char \<Rightarrow> bool" where
  "node_id_char c \<longleftrightarrow> (let n = of_char c :: nat in 48 \<le> n \<and> n \<le> 57 \<or> 65 \<le> n \<and> n \<le> 90 \<or> 97 \<le> n \<and> n \<le> 122 \<or> n = 95 \<or> n = 45)"

definition sanitizeNodeID :: "string \<Rightarrow> string" where
  "sanitizeNodeID nodeID =
     (let s = (if length nodeID > 128 then take 128 nodeID else nodeID)
      in if s \<noteq> [] \<and> list_all node_id_char s then s else [])"

text \<open>The identity a forward claims, from either header.\<close>

definition claimed_node :: "http_request \<Rightarrow> string" where
  "claimed_node r = (let nodeID = sanitizeNodeID (hr_nodeID r) in if nodeID = [] then sanitizeNodeID (hr_nodeAuth r) else nodeID)"

section \<open>Known nodes\<close>

record NodeInfo =
  ni_NodeID :: string
  ni_PubKey :: string

record FederationManager =
  fm_pool :: "NodeInfo list"
  fm_localPeers :: "(string, NodeInfo) gomap"

definition fed_GetNode :: "string \<Rightarrow> FederationManager \<Rightarrow> NodeInfo option" where
  "fed_GetNode nodeID f =
     (case find (\<lambda>n. ni_NodeID n = nodeID) (fm_pool f) of
        Some n \<Rightarrow> Some n
      | None \<Rightarrow> gget (fm_localPeers f) nodeID)"

section \<open>Signatures\<close>

record RelayAuthEnvelope =
  re_NodeID :: string
  re_Method :: string
  re_Path :: string
  re_BodyHash :: string
  re_Timestamp :: stamp
  re_Nonce :: string
  re_Signature :: string

record relay_env =
  rl_now :: int
  rl_walk :: "(string \<times> int) list \<Rightarrow> (string \<times> int) list"  \<comment> \<open>the order in which the cache is walked\<close>
  rl_fed :: "FederationManager option"
  rl_sha256 :: "string \<Rightarrow> byte list"
  rl_json :: "RelayAuthEnvelope \<Rightarrow> string"
  rl_Verify :: "string \<Rightarrow> string \<Rightarrow> string \<Rightarrow> bool"      \<comment> \<open>\<open>ed25519.Verify\<close>: key, message, signature\<close>

definition VerifySignature :: "(string \<Rightarrow> string \<Rightarrow> string \<Rightarrow> bool) \<Rightarrow> string \<Rightarrow> string \<Rightarrow> string \<Rightarrow> bool" where
  "VerifySignature verify pubKeyB64 message signatureB64 =
     (case b64_decode pubKeyB64 of None \<Rightarrow> False | Some pubBytes \<Rightarrow>
        if length pubBytes \<noteq> 32 then False
        else case b64_decode signatureB64 of None \<Rightarrow> False | Some sigBytes \<Rightarrow>
          if length sigBytes \<noteq> 64 then False else verify pubBytes message sigBytes)"

definition canonicalJSON :: "relay_env \<Rightarrow> RelayAuthEnvelope \<Rightarrow> string" where
  "canonicalJSON env e = rl_json env (e\<lparr>re_Signature := []\<rparr>)"

definition VerifyJSONSig :: "relay_env \<Rightarrow> string \<Rightarrow> RelayAuthEnvelope \<Rightarrow> string \<Rightarrow> bool" where
  "VerifyJSONSig env pubKeyB64 e signatureB64 = VerifySignature (rl_Verify env) pubKeyB64 (canonicalJSON env e) signatureB64"

definition sha256Hex :: "relay_env \<Rightarrow> string \<Rightarrow> string" where
  "sha256Hex env b = hexEncode (rl_sha256 env b)"

section \<open>The cache of accepted forwards\<close>

record relay_cache =
  rc_seen :: "(string, int) gomap"
  rc_boot :: int

definition relaySigMaxAge :: int where "relaySigMaxAge = 300000000000"
definition relayReplayCacheMaxEntries :: nat where "relayReplayCacheMaxEntries = 65536"
definition maxGatewayBodySize :: nat where "maxGatewayBodySize = 10485760"

definition sweep_seen :: "int \<Rightarrow> (string, int) gomap \<Rightarrow> (string, int) gomap" where
  "sweep_seen cutoff seen = (if length seen \<ge> 1024 then gfilter (\<lambda>s t. \<not> t \<le> cutoff) seen else seen)"

definition evict_seen :: "((string \<times> int) list \<Rightarrow> (string \<times> int) list) \<Rightarrow> (string, int) gomap \<Rightarrow> (string, int) gomap" where
  "evict_seen walk seen =
     (if length seen \<ge> relayReplayCacheMaxEntries
      then let all = stable_sort_by (\<lambda>a b. snd a < snd b) (walk seen)
           in fold (\<lambda>e m. gdel (fst e) m) (take (length all - relayReplayCacheMaxEntries div 2) all) seen
      else seen)"

definition noteRelayReplay :: "relay_env \<Rightarrow> string \<Rightarrow> relay_cache \<Rightarrow> bool \<times> relay_cache" where
  "noteRelayReplay env sig n =
     (let cutoff = rl_now env - relaySigMaxAge in
      if (case gget (rc_seen n) sig of Some first \<Rightarrow> first > cutoff | None \<Rightarrow> False) then (True, n)
      else (False, n\<lparr>rc_seen := gput sig (rl_now env) (evict_seen (rl_walk env) (sweep_seen cutoff (rc_seen n)))\<rparr>))"

section \<open>Checking and signing a forward\<close>

definition forward_envelope :: "relay_env \<Rightarrow> string \<Rightarrow> http_request \<Rightarrow> RelayAuthEnvelope" where
  "forward_envelope env nodeID r =
     \<lparr>re_NodeID = nodeID, re_Method = hr_method r, re_Path = hr_path r, re_BodyHash = sha256Hex env (hr_body r),
      re_Timestamp = hr_relayTs r, re_Nonce = hr_relayNonce r, re_Signature = hr_relaySig r\<rparr>"

text \<open>The status 0 lets the request through.\<close>

definition verifyRelayForwardAuth :: "relay_env \<Rightarrow> http_request \<Rightarrow> relay_cache \<Rightarrow> (nat \<times> string) \<times> http_request \<times> relay_cache" where
  "verifyRelayForwardAuth env r n =
     (if hr_relayVerified r then ((0, []), r, n)
      else let nodeID = claimed_node r in
      if nodeID = [] then ((0, []), r, n)
      else if hr_relaySig r = [] then ((401, ''relay forward missing signature''), r, n)
      else if hr_relayTs r = NoStamp then ((401, ''relay forward missing timestamp''), r, n)
      else case rl_fed env of
        None \<Rightarrow> ((403, ''relay sender trust pool unavailable''), r, n)
      | Some fed \<Rightarrow>
        (case fed_GetNode nodeID fed of
           None \<Rightarrow> ((403, ''relay sender not in trust pool''), r, n)
         | Some sender \<Rightarrow>
           (case hr_relayTs r of
              Stamp parsed \<Rightarrow>
                if rl_now env - parsed < 0 \<or> rl_now env - parsed > relaySigMaxAge
                then ((401, ''relay timestamp outside acceptable window''), r, n)
                else if parsed + 1000000000 < rc_boot n
                then ((401, ''relay timestamp predates this process (restart replay barrier)''), r, n)
                else if \<not> VerifyJSONSig env (ni_PubKey sender) (forward_envelope env nodeID r) (hr_relaySig r)
                then ((403, ''relay signature verification failed''), r, n)
                else (case noteRelayReplay env (hr_relaySig r) n of
                        (True, n') \<Rightarrow> ((403, ''relay forward replay detected''), r, n')
                      | (False, n') \<Rightarrow> ((0, []), r\<lparr>hr_relayVerified := True\<rparr>, n'))
            | _ \<Rightarrow> ((400, ''invalid relay timestamp''), r, n))))"

text \<open>
  Signing: \<open>sign\<close> is the identity of the node, if it has one, and makes the base64 text of a signature; \<open>rand\<close> is the outcome of
  drawing eight random bytes.
\<close>

definition signRelayForward ::
    "relay_env \<Rightarrow> (string \<Rightarrow> string) option \<Rightarrow> byte list option \<Rightarrow> string \<Rightarrow> string \<Rightarrow> string \<Rightarrow> string \<Rightarrow> string \<times> stamp \<times> string" where
  "signRelayForward env node rand nodeID method path body =
     (case (node, rand) of
        (Some sign, Some randBytes) \<Rightarrow>
          if nodeID = [] then ([], NoStamp, [])
          else let e = \<lparr>re_NodeID = nodeID, re_Method = method, re_Path = path, re_BodyHash = sha256Hex env body,
                        re_Timestamp = format_stamp (rl_now env), re_Nonce = itoa (rl_now env) @ ''-'' @ hexEncode randBytes, re_Signature = []\<rparr>
               in (sign (canonicalJSON env e), re_Timestamp e, re_Nonce e)
      | _ \<Rightarrow> ([], NoStamp, []))"

definition attachRelayAuth :: "string \<Rightarrow> string \<times> stamp \<times> string \<Rightarrow> http_request \<Rightarrow> http_request" where
  "attachRelayAuth nodeID s req =
     (case s of (sig, ts, nonce) \<Rightarrow>
        if nodeID = [] then req
        else let r1 = req\<lparr>hr_nodeID := nodeID, hr_nodeAuth := nodeID\<rparr>
             in if sig \<noteq> []
                then let r2 = r1\<lparr>hr_relaySig := sig, hr_relayTs := ts\<rparr> in if nonce \<noteq> [] then r2\<lparr>hr_relayNonce := nonce\<rparr> else r2
                else r1)"

text \<open>The headers of a copy of \<open>r\<close> that leaves the node.\<close>

definition sanitizeForwardedHeaders :: "http_request \<Rightarrow> http_request \<Rightarrow> http_request" where
  "sanitizeForwardedHeaders dst r =
     (let anonymous = hr_role r = ''admin'' \<and> hr_Authorization r = [];
          owner = (if anonymous then [] else hr_owner r);
          role = (if anonymous then ''public'' else hr_role r)
      in dst\<lparr>hr_Authorization := [], hr_keyType := [], hr_cookie := None, hr_forwardedFor := [], hr_realIP := [],
             hr_owner := owner, hr_role := role\<rparr>)"

section \<open>The cache forgets only old signatures\<close>

lemma gget_fold_gdel: "gget (fold (\<lambda>e m. gdel (fst e) m) es m) k = (if k \<in> fst ` set es then None else gget m k)"
  by (induction es arbitrary: m) auto

lemma gmap_ok_fold_gdel [simp]: "gmap_ok m \<Longrightarrow> gmap_ok (fold (\<lambda>e m. gdel (fst e) m) es m)"
  by (induction es arbitrary: m) auto

lemma gmap_ok_sweep [simp]: "gmap_ok m \<Longrightarrow> gmap_ok (sweep_seen c m)"
  by (simp add: sweep_seen_def)

lemma gmap_ok_evict [simp]: "gmap_ok m \<Longrightarrow> gmap_ok (evict_seen walk m)"
  by (simp add: evict_seen_def Let_def)

lemma sweep_subset: "gmap_ok m \<Longrightarrow> gget (sweep_seen c m) s = Some g \<Longrightarrow> gget m s = Some g"
  by (auto simp: sweep_seen_def gget_gfilter split: if_splits option.splits)

lemma sweep_keeps: "gmap_ok m \<Longrightarrow> gget m s = Some g \<Longrightarrow> c < g \<Longrightarrow> gget (sweep_seen c m) s = Some g"
  by (auto simp: sweep_seen_def gget_gfilter)

lemma evict_subset: "gget (evict_seen walk m) s = Some g \<Longrightarrow> gget m s = Some g"
  by (auto simp: evict_seen_def Let_def gget_fold_gdel split: if_splits)

definition newer :: "(string, int) gomap \<Rightarrow> int \<Rightarrow> string set" where
  "newer m g = {s. \<exists>h. gget m s = Some h \<and> g \<le> h}"

lemma finite_newer: "finite (newer m g)"
proof -
  have "newer m g \<subseteq> fst ` set m" by (auto simp: newer_def dest!: gget_in_set intro: rev_image_eqI)
  then show ?thesis by (rule finite_subset) simp
qed

text \<open>A signature leaves the full cache only when half a cache of newer ones stays.\<close>

lemma evict_keeps:
  assumes "gmap_ok m" and "mset (walk m) = mset m" and "gget m s = Some g"
  shows "gget (evict_seen walk m) s = Some g \<or> 32768 \<le> card (newer m g)"
proof (cases "length m \<ge> 65536")
  case True
  let ?all = "sort_key snd (walk m)"
  let ?n = "length ?all - 32768"
  have srt: "stable_sort_by (\<lambda>a b. snd a < snd b) (walk m) = ?all" by (rule stable_sort_by_key) simp
  have ms: "mset ?all = mset m" using assms(2) by simp
  have len: "length ?all = length m" using ms mset_eq_length by blast
  have st: "set ?all = set m" using ms mset_eq_setD by blast
  have "mset (map fst ?all) = mset (map fst m)" unfolding mset_map ms ..
  then have dist: "distinct (map fst ?all)" using assms(1) mset_eq_imp_distinct_iff unfolding gmap_ok_def by blast
  have ev: "evict_seen walk m = fold (\<lambda>e m. gdel (fst e) m) (take ?n ?all) m"
    using True unfolding evict_seen_def srt Let_def by (simp add: relayReplayCacheMaxEntries_def)
  show ?thesis
  proof (cases "s \<in> fst ` set (take ?n ?all)")
    case gone: True
    then obtain g' where i: "(s, g') \<in> set (take ?n ?all)" by force
    then have "gget m s = Some g'" using in_set_takeD [OF i] st in_set_gget [OF assms(1)] by blast
    with assms(3) i have i: "(s, g) \<in> set (take ?n ?all)" by simp
    have "sorted (map snd (take ?n ?all) @ map snd (drop ?n ?all))"
      by (metis append_take_drop_id map_append sorted_sort_key)
    then have ord: "\<forall>x\<in>snd ` set (take ?n ?all). \<forall>y\<in>snd ` set (drop ?n ?all). x \<le> y" unfolding sorted_append set_map by blast
    have le: "g \<le> h" if "(s', h) \<in> set (drop ?n ?all)" for s' h using ord [rule_format, OF imageI [OF i] imageI [OF that]] by simp
    have "gget m s' = Some h" if "(s', h) \<in> set (drop ?n ?all)" for s' h
      using in_set_dropD [OF that] unfolding st by (rule in_set_gget [OF assms(1)])
    with le have sub: "fst ` set (drop ?n ?all) \<subseteq> newer m g" by (auto simp: newer_def)
    have "distinct (map fst (drop ?n ?all))" using dist by (metis distinct_drop drop_map)
    then have "card (fst ` set (drop ?n ?all)) = length (drop ?n ?all)" by (metis distinct_card length_map list.set_map)
    also have "\<dots> = 32768" using True len by simp
    finally show ?thesis using card_mono [OF finite_newer sub] by simp
  qed (simp add: ev gget_fold_gdel assms(3))
qed (simp add: evict_seen_def relayReplayCacheMaxEntries_def assms(3))

section \<open>Runs of a node\<close>

text \<open>
  A run handles requests and restarts the process; time does not go backwards. The log has the signature, the timestamp and the
  time of every forward that was let through.
\<close>

definition walk_ok :: "relay_env \<Rightarrow> bool" where
  "walk_ok env \<longleftrightarrow> (\<forall>xs. mset (rl_walk env xs) = mset xs)"

definition is_forward :: "http_request \<Rightarrow> bool" where
  "is_forward r \<longleftrightarrow> claimed_node r \<noteq> [] \<and> \<not> hr_relayVerified r"

inductive relay_run :: "relay_cache \<Rightarrow> int \<Rightarrow> (string \<times> stamp \<times> int) list \<Rightarrow> bool" where
  relay_start: "relay_run \<lparr>rc_seen = [], rc_boot = t\<rparr> t []"
| relay_request: "relay_run n t lg \<Longrightarrow> t \<le> rl_now env \<Longrightarrow> walk_ok env \<Longrightarrow> verifyRelayForwardAuth env r n = (st, r', n') \<Longrightarrow>
    relay_run n' (rl_now env) (if fst st = 0 \<and> is_forward r then lg @ [(hr_relaySig r, hr_relayTs r, rl_now env)] else lg)"
| relay_restart: "relay_run n t lg \<Longrightarrow> t \<le> t' \<Longrightarrow> relay_run \<lparr>rc_seen = [], rc_boot = t'\<rparr> t' lg"

definition log_since :: "(string \<times> stamp \<times> int) list \<Rightarrow> int \<Rightarrow> string set" where
  "log_since lg f = {s. \<exists>ts f'. (s, ts, f') \<in> set lg \<and> f \<le> f'}"

lemma finite_log_since [simp]: "finite (log_since lg f)"
proof -
  have "log_since lg f \<subseteq> fst ` set lg" by (auto simp: log_since_def intro: rev_image_eqI)
  then show ?thesis by (rule finite_subset) simp
qed

lemma log_since_mono: "set lg \<subseteq> set lg2 \<Longrightarrow> card (log_since lg f) \<le> card (log_since lg2 f)"
  by (rule card_mono [OF finite_log_since]) (auto simp: log_since_def)

definition remembered :: "relay_cache \<Rightarrow> int \<Rightarrow> (string \<times> stamp \<times> int) list \<Rightarrow> string \<Rightarrow> int \<Rightarrow> bool" where
  "remembered n t lg s f \<longleftrightarrow>
     (\<exists>g. gget (rc_seen n) s = Some g \<and> f \<le> g) \<or> f \<le> t - relaySigMaxAge \<or> 32768 \<le> card (log_since lg f)"

definition relay_inv :: "relay_cache \<Rightarrow> int \<Rightarrow> (string \<times> stamp \<times> int) list \<Rightarrow> bool" where
  "relay_inv n t lg \<longleftrightarrow> gmap_ok (rc_seen n) \<and> rc_boot n \<le> t \<and>
     (\<forall>s g. gget (rc_seen n) s = Some g \<longrightarrow> (\<exists>ts. (s, ts, g) \<in> set lg)) \<and>
     (\<forall>s ts f. (s, ts, f) \<in> set lg \<longrightarrow> f \<le> t \<and> (\<exists>p. ts = Stamp p \<and> p \<le> f \<and> f \<le> p + relaySigMaxAge) \<and>
        (rc_boot n < f \<longrightarrow> remembered n t lg s f))"

text \<open>What a check that lets a forward through has established.\<close>

lemma verify_accepts:
  assumes "verifyRelayForwardAuth env r n = (st, r', n')" and "fst st = 0" and "is_forward r"
  shows "\<exists>fed sender p. rl_fed env = Some fed \<and> fed_GetNode (claimed_node r) fed = Some sender \<and> hr_relayTs r = Stamp p \<and>
     p \<le> rl_now env \<and> rl_now env \<le> p + relaySigMaxAge \<and> rc_boot n \<le> p + 1000000000 \<and>
     VerifyJSONSig env (ni_PubKey sender) (forward_envelope env (claimed_node r) r) (hr_relaySig r) \<and>
     noteRelayReplay env (hr_relaySig r) n = (False, n') \<and> r' = r\<lparr>hr_relayVerified := True\<rparr>"
proof (cases "noteRelayReplay env (hr_relaySig r) n")
  case (Pair b m)
  have fwd: "claimed_node r \<noteq> []" "\<not> hr_relayVerified r" using assms(3) by (auto simp: is_forward_def)
  obtain fed sender p where fs: "rl_fed env = Some fed" "fed_GetNode (claimed_node r) fed = Some sender" "hr_relayTs r = Stamp p"
    using assms(1,2) fwd unfolding verifyRelayForwardAuth_def Let_def by (auto split: if_splits option.splits stamp.splits)
  show ?thesis
    using assms(1,2) fwd fs Pair unfolding verifyRelayForwardAuth_def Let_def by (cases b; cases st) (simp_all split: if_splits)
qed

lemma note_replay: "noteRelayReplay env sig n = (True, n') \<Longrightarrow> n' = n"
  by (simp add: noteRelayReplay_def Let_def split: if_splits)

lemma verify_otherwise:
  assumes "verifyRelayForwardAuth env r n = (st, r', n')" and "\<not> (fst st = 0 \<and> is_forward r)"
  shows "n' = n"
proof (cases "noteRelayReplay env (hr_relaySig r) n")
  case (Pair b m)
  then have "b \<Longrightarrow> m = n" using note_replay by (cases b) auto
  with assms Pair show ?thesis unfolding verifyRelayForwardAuth_def Let_def is_forward_def
    by (cases b) (auto split: if_splits option.splits stamp.splits)
qed

lemma finite_newer_log:
  assumes "\<And>s g. gget m s = Some g \<Longrightarrow> \<exists>ts. (s, ts, g) \<in> set lg"
  shows "newer m f \<subseteq> log_since lg f"
  using assms by (fastforce simp: newer_def log_since_def)

lemma note_cases:
  assumes "noteRelayReplay env sig n = (False, n')"
  shows "rc_boot n' = rc_boot n \<and>
     rc_seen n' = gput sig (rl_now env) (evict_seen (rl_walk env) (sweep_seen (rl_now env - relaySigMaxAge) (rc_seen n))) \<and>
     (\<forall>g. gget (rc_seen n) sig = Some g \<longrightarrow> g \<le> rl_now env - relaySigMaxAge)"
  using assms unfolding noteRelayReplay_def Let_def by (auto split: if_splits option.splits)

lemma remembered_step:
  assumes inv: "relay_inv n t lg" and "t \<le> rl_now env" and walk: "walk_ok env" and nr: "noteRelayReplay env sig n = (False, n')"
    and rem: "remembered n t lg s f" and f: "f \<le> rl_now env"
  shows "remembered n' (rl_now env) (lg @ [(sig, ts, rl_now env)]) s f"
proof -
  let ?c = "rl_now env - relaySigMaxAge" and ?lg2 = "lg @ [(sig, ts, rl_now env)]"
  let ?sw = "sweep_seen ?c (rc_seen n)"
  note n' = note_cases [OF nr]
  have ok: "gmap_ok (rc_seen n)" using inv by (simp add: relay_inv_def)
  from rem consider g where "gget (rc_seen n) s = Some g" "f \<le> g" | "f \<le> t - relaySigMaxAge" | "32768 \<le> card (log_since lg f)"
    unfolding remembered_def by blast
  then show ?thesis
  proof cases
    case 1
    consider "s = sig" | "g \<le> ?c" | "s \<noteq> sig" "?c < g" by linarith
    then show ?thesis
    proof cases
      case 3
      have sw: "gget ?sw s = Some g" using sweep_keeps [OF ok 1(1) 3(2)] .
      have m: "mset (rl_walk env ?sw) = mset ?sw" using walk by (simp add: walk_ok_def)
      from evict_keeps [where walk = "rl_walk env" and m = ?sw and s = s and g = g, OF gmap_ok_sweep [OF ok] m sw] show ?thesis
      proof
        assume "gget (evict_seen (rl_walk env) ?sw) s = Some g"
        with n' 1(2) 3(1) show ?thesis by (simp add: remembered_def)
      next
        assume many: "32768 \<le> card (newer ?sw g)"
        have "newer ?sw g \<subseteq> log_since lg f"
        proof
          fix s' assume "s' \<in> newer ?sw g"
          then obtain h where h: "gget ?sw s' = Some h" "g \<le> h" by (auto simp: newer_def)
          from sweep_subset [OF ok h(1)] inv obtain u where "(s', u, h) \<in> set lg" unfolding relay_inv_def by blast
          with h(2) 1(2) show "s' \<in> log_since lg f" by (force simp: log_since_def)
        qed
        then have "card (newer ?sw g) \<le> card (log_since lg f)" by (rule card_mono [OF finite_log_since])
        also have "\<dots> \<le> card (log_since ?lg2 f)" by (rule log_since_mono) auto
        finally show ?thesis using many by (simp add: remembered_def)
      qed
    qed (use n' f 1(2) in \<open>auto simp: remembered_def\<close>)
  next
    case 2
    with assms(2) show ?thesis by (simp add: remembered_def)
  next
    case 3
    moreover have "card (log_since lg f) \<le> card (log_since ?lg2 f)" by (rule log_since_mono) auto
    ultimately show ?thesis by (simp add: remembered_def)
  qed
qed

lemma relay_inv_run: "relay_run n t lg \<Longrightarrow> relay_inv n t lg"
proof (induction rule: relay_run.induct)
  case (relay_start t)
  show ?case by (simp add: relay_inv_def)
next
  case (relay_restart n t lg t')
  then show ?case by (fastforce simp: relay_inv_def)
next
  case (relay_request n t lg env r st r' n')
  note inv = relay_request.IH and v = relay_request.hyps(4)
  show ?case
  proof (cases "fst st = 0 \<and> is_forward r")
    case False
    have n: "n' = n" using verify_otherwise [OF v False] .
    have "remembered n t lg s f \<Longrightarrow> remembered n (rl_now env) lg s f" for s f
      using relay_request.hyps(2) by (auto simp: remembered_def)
    with inv relay_request.hyps(2) False n show ?thesis unfolding relay_inv_def by (auto 0 4)
  next
    case True
    from verify_accepts [OF v conjunct1 [OF True] conjunct2 [OF True]] obtain p where p: "hr_relayTs r = Stamp p" "p \<le> rl_now env" "rl_now env \<le> p + relaySigMaxAge"
      and nr: "noteRelayReplay env (hr_relaySig r) n = (False, n')" by blast
    note n' = note_cases [OF nr]
    let ?lg2 = "lg @ [(hr_relaySig r, hr_relayTs r, rl_now env)]"
    have ok: "gmap_ok (rc_seen n)" using inv by (simp add: relay_inv_def)
    have "\<exists>ts. (s, ts, g) \<in> set ?lg2" if "gget (rc_seen n') s = Some g" for s g
    proof (cases "s = hr_relaySig r")
      case False
      with that n' have "gget (rc_seen n) s = Some g" by (auto dest: evict_subset sweep_subset [OF ok])
      with inv have "\<exists>ts. (s, ts, g) \<in> set lg" unfolding relay_inv_def by blast
      then show ?thesis by auto
    qed (use that n' in auto)
    moreover have "f \<le> rl_now env \<and> (\<exists>p. ts = Stamp p \<and> p \<le> f \<and> f \<le> p + relaySigMaxAge) \<and> (rc_boot n' < f \<longrightarrow> remembered n' (rl_now env) ?lg2 s f)"
      if i: "(s, ts, f) \<in> set ?lg2" for s ts f
    proof (cases "(s, ts, f) \<in> set lg")
      case True
      with inv have o: "f \<le> t" "\<exists>p. ts = Stamp p \<and> p \<le> f \<and> f \<le> p + relaySigMaxAge" "rc_boot n < f \<Longrightarrow> remembered n t lg s f"
        unfolding relay_inv_def by blast+
      have "f \<le> rl_now env" using o(1) relay_request.hyps(2) by simp
      with o n' remembered_step [OF inv relay_request.hyps(2,3) nr] show ?thesis by simp
    next
      case False
      with i have "s = hr_relaySig r" "ts = hr_relayTs r" "f = rl_now env" by auto
      with p n' show ?thesis by (auto simp: remembered_def)
    qed
    ultimately show ?thesis using True n' inv relay_request.hyps(2) ok unfolding relay_inv_def by auto
  qed
qed

section \<open>Replays\<close>

text \<open>
  (C12) A forward is let through once. In every run, a request that claims to come from a node, with the signature text and the timestamp of a
  forward that was let through before, is refused by a later check, as long as fewer than 32768 other signatures were let
  through since. This covers a restart of the process, except for forwards signed in the last second before it, which
  are let through again, and it leaves open the single instant at which the five minutes end.
\<close>

theorem relay_replay_refused:
  assumes "relay_run n t lg" and "(hr_relaySig r, hr_relayTs r, first) \<in> set lg" and "is_forward r"
    and "t \<le> rl_now env" and "card (log_since lg first) < 32768"
    and "rc_boot n < first \<or> (\<exists>p. hr_relayTs r = Stamp p \<and> p + 1000000000 < rc_boot n)"
    and "hr_relayTs r \<noteq> Stamp (rl_now env - relaySigMaxAge)"
  shows "fst (fst (verifyRelayForwardAuth env r n)) \<noteq> 0"
proof
  assume acc: "fst (fst (verifyRelayForwardAuth env r n)) = 0"
  obtain st r' n' where v: "verifyRelayForwardAuth env r n = (st, r', n')" by (metis prod_cases3)
  with acc verify_accepts [OF v] assms(3) obtain p where p: "hr_relayTs r = Stamp p" "p \<le> rl_now env" "rl_now env \<le> p + relaySigMaxAge"
      "rc_boot n \<le> p + 1000000000" and nr: "noteRelayReplay env (hr_relaySig r) n = (False, n')" by auto
  have inv: "relay_inv n t lg" using relay_inv_run [OF assms(1)] .
  have boot: "rc_boot n < first" using assms(6) p(1,4) by auto
  have f: "p \<le> first" and rem: "remembered n t lg (hr_relaySig r) first"
    using inv assms(2) boot p(1) unfolding relay_inv_def by fastforce+
  have "first \<le> rl_now env - relaySigMaxAge"
    using rem assms(4,5) note_cases [OF nr] by (force simp: remembered_def)
  with f p(3) have "p = rl_now env - relaySigMaxAge" by linarith
  with p(1) assms(7) show False by simp
qed

section \<open>Signed forwards arrive\<close>

text \<open>The key of a node and the signatures it makes: text that decodes to the right sizes and verifies.\<close>

definition signer_ok :: "relay_env \<Rightarrow> string \<Rightarrow> (string \<Rightarrow> string) \<Rightarrow> bool" where
  "signer_ok env pubKeyB64 sign \<longleftrightarrow>
     (\<exists>pub. b64_decode pubKeyB64 = Some pub \<and> length pub = 32 \<and>
        (\<forall>m. \<exists>raw. sign m \<noteq> [] \<and> b64_decode (sign m) = Some raw \<and> length raw = 64 \<and> rl_Verify env pub m raw))"

lemma signer_verifies: "signer_ok env pub sign \<Longrightarrow> VerifySignature (rl_Verify env) pub m (sign m)"
proof -
  assume "signer_ok env pub sign"
  then obtain k where k: "b64_decode pub = Some k" "length k = 32"
    and all: "\<forall>m. \<exists>raw. sign m \<noteq> [] \<and> b64_decode (sign m) = Some raw \<and> length raw = 64 \<and> rl_Verify env k m raw"
    unfolding signer_ok_def by blast
  from all obtain raw where "b64_decode (sign m) = Some raw" "length raw = 64" "rl_Verify env k m raw" by blast
  with k show ?thesis by (simp add: VerifySignature_def)
qed


text \<open>
  The comments promise a tolerance of five minutes in both directions; a forward of a node whose clock is ahead is refused, however
  little.
\<close>

lemma clock_behind_refused:
  assumes "is_forward r" and "hr_relayTs r = Stamp p" and "rl_now env < p"
  shows "fst (fst (verifyRelayForwardAuth env r n)) \<noteq> 0"
proof
  assume acc: "fst (fst (verifyRelayForwardAuth env r n)) = 0"
  obtain st r' n' where v: "verifyRelayForwardAuth env r n = (st, r', n')" by (metis prod_cases3)
  from verify_accepts [OF v _ assms(1)] acc v assms(2,3) show False by auto
qed

section \<open>A sample run\<close>

definition sample_forward :: http_request where
  "sample_forward = \<lparr>hr_method = ''POST'', hr_path = ''/v1/embeddings'', hr_body = [], hr_RemoteAddr = ''203.0.113.9:1'', hr_Authorization = [],
     hr_cookie = None, hr_role = [], hr_owner = [], hr_consumerName = [], hr_guestPool = [], hr_guestNode = [], hr_keyType = [], hr_cfIP = [],
     hr_forwardedFor = [], hr_realIP = [], hr_nodeID = ''n1'', hr_nodeAuth = ''n1'', hr_relaySig = b64_encode (replicate 64 CHR ''s''),
     hr_relayTs = Stamp 0, hr_relayNonce = [], hr_relayHop = [], hr_relayFrom = [], hr_nodeSignature = [], hr_nodeTimestamp = None,
     hr_seedToken = [], hr_fedSecret = [], hr_relayDispatch = False, hr_internalKeyType = [], hr_guestKey = [], hr_relayVerified = False\<rparr>"

definition sample_relay_env :: "int \<Rightarrow> relay_env" where
  "sample_relay_env t = \<lparr>rl_now = t, rl_walk = (\<lambda>xs. xs),
     rl_fed = Some \<lparr>fm_pool = [\<lparr>ni_NodeID = ''n1'', ni_PubKey = b64_encode (replicate 32 CHR ''k'')\<rparr>], fm_localPeers = []\<rparr>,
     rl_sha256 = (\<lambda>s. []), rl_json = re_Path, rl_Verify = (\<lambda>pub m sig. sig = replicate 64 CHR ''s'')\<rparr>"

definition sample_cache :: relay_cache where
  "sample_cache = \<lparr>rc_seen = [(b64_encode (replicate 64 CHR ''s''), 1)], rc_boot = 0\<rparr>"

lemma b64_encode_nonempty: "s \<noteq> [] \<Longrightarrow> b64_encode s \<noteq> []"
  by (cases s rule: b64_encode.cases) simp_all

lemma sample_node: "sanitizeNodeID ''n1'' = ''n1''"
  by (simp add: sanitizeNodeID_def node_id_char_def)

lemma sample_claim: "claimed_node sample_forward = ''n1''"
  unfolding claimed_node_def by (simp add: sample_forward_def sample_node)

lemma sample_is_forward: "is_forward sample_forward"
  unfolding is_forward_def sample_claim by (simp add: sample_forward_def)

lemma sample_passes:
  "verifyRelayForwardAuth (sample_relay_env 1) sample_forward \<lparr>rc_seen = [], rc_boot = 0\<rparr> =
     ((0, []), sample_forward\<lparr>hr_relayVerified := True\<rparr>, sample_cache)"
proof -
  define sg where "sg = b64_encode (replicate 64 CHR ''s'')"
  define pk where "pk = b64_encode (replicate 32 CHR ''k'')"
  have sg: "sg \<noteq> []" "b64_decode sg = Some (replicate 64 CHR ''s'')" and pk: "b64_decode pk = Some (replicate 32 CHR ''k'')"
    by (simp_all only: sg_def pk_def b64_decode_encode) (rule b64_encode_nonempty, simp)
  have f: "hr_relaySig sample_forward = sg" "hr_relayTs sample_forward = Stamp 0" "\<not> hr_relayVerified sample_forward"
    by (simp_all add: sample_forward_def sg_def)
  have e: "rl_now (sample_relay_env 1) = 1" "rl_walk (sample_relay_env 1) = (\<lambda>xs. xs)"
    "rl_fed (sample_relay_env 1) = Some \<lparr>fm_pool = [\<lparr>ni_NodeID = ''n1'', ni_PubKey = pk\<rparr>], fm_localPeers = []\<rparr>"
    "rl_Verify (sample_relay_env 1) = (\<lambda>pub m sig. sig = replicate 64 CHR ''s'')"
    by (simp_all add: sample_relay_env_def pk_def)
  have ver: "VerifyJSONSig (sample_relay_env 1) pk m sg" for m
    unfolding VerifyJSONSig_def VerifySignature_def e sg pk by simp
  show ?thesis
    unfolding verifyRelayForwardAuth_def sample_claim Let_def f e
    by (simp add: sg(1) f fed_GetNode_def ver e relaySigMaxAge_def noteRelayReplay_def sweep_seen_def evict_seen_def relayReplayCacheMaxEntries_def
        gput_def sample_cache_def sg_def [symmetric])
qed

lemma sample_relay_run: "relay_run sample_cache 1 [(hr_relaySig sample_forward, Stamp 0, 1)]"
proof -
  have "relay_run sample_cache (rl_now (sample_relay_env 1))
      (if fst (0 :: nat, [] :: string) = 0 \<and> is_forward sample_forward then [] @ [(hr_relaySig sample_forward, hr_relayTs sample_forward, rl_now (sample_relay_env 1))] else [])"
    by (rule relay_request [OF relay_start _ _ sample_passes]) (simp_all add: sample_relay_env_def walk_ok_def)
  then show ?thesis by (simp add: sample_is_forward) (simp add: sample_forward_def sample_relay_env_def)
qed

theorem relay_replay_refused_witness: "fst (fst (verifyRelayForwardAuth (sample_relay_env 2) sample_forward sample_cache)) \<noteq> 0"
proof (rule relay_replay_refused [OF sample_relay_run, where first = 1])
  show "is_forward sample_forward" by (rule sample_is_forward)
  show "rc_boot sample_cache < 1 \<or> (\<exists>p. hr_relayTs sample_forward = Stamp p \<and> p + 1000000000 < rc_boot sample_cache)"
    by (simp add: sample_cache_def)
  have "log_since [(hr_relaySig sample_forward, Stamp 0, 1)] 1 = {hr_relaySig sample_forward}" by (auto simp: log_since_def)
  then show "card (log_since [(hr_relaySig sample_forward, Stamp 0, 1)] 1) < 32768" by simp
qed (simp_all add: sample_forward_def sample_relay_env_def relaySigMaxAge_def)


section \<open>What the code gets wrong\<close>

text \<open>
  The cache is keyed by the text of the signature, and the text of 64 bytes in base64 has four bits that decoding ignores: the
  last character before the padding can be replaced. The same forward with its signature spelled differently is let through again.
\<close>

fun respelled :: "string \<Rightarrow> string" where
  "respelled [] = []"
| "respelled [a] = [b64_char (byte_of a div 4), b64_char (Suc (byte_of a mod 4 * 16)), CHR ''='', CHR ''='']"
| "respelled [a, b] = b64_encode [a, b]"
| "respelled (a # b # c # s) =
     b64_char (byte_of a div 4) # b64_char (byte_of a mod 4 * 16 + byte_of b div 16) #
     b64_char (byte_of b mod 16 * 4 + byte_of c div 64) # b64_char (byte_of c mod 64) # respelled s"

lemma respelled_last: "Suc (byte_of c mod 4 * 16) < 64" "Suc (byte_of c mod 4 * 16) div 16 = byte_of c mod 4"
proof -
  have "byte_of c mod 4 < 4" by simp
  then show "Suc (byte_of c mod 4 * 16) < 64" "Suc (byte_of c mod 4 * 16) div 16 = byte_of c mod 4" by linarith+
qed

lemma groups_respelled: "b64_groups (respelled s) = Some s"
proof (induction s rule: respelled.induct)
  case (2 a)
  show ?case by (simp add: b64_char_facts byte_parts byte_high respelled_last)
next
  case (4 a b c s)
  then show ?case by (simp add: b64_char_facts byte_parts byte_high)
qed (simp_all add: b64_char_facts byte_parts byte_high)

lemma respelled_chars: "c \<in> set (respelled s) \<Longrightarrow> c = CHR ''='' \<or> (\<exists>n < 64. c = b64_char n)"
proof (induction s rule: respelled.induct)
  case (2 a)
  then consider "c = b64_char (byte_of a div 4)" | "c = b64_char (Suc (byte_of a mod 4 * 16))" | "c = CHR ''=''" by auto
  then show ?case using respelled_last(1) [of a] byte_parts(1) [of a] by cases blast+
qed (auto intro: byte_parts)

lemma decode_respelled: "b64_decode (respelled s) = Some s"
proof -
  have "c \<noteq> char_of (10 :: nat) \<and> c \<noteq> char_of (13 :: nat)" if "c \<in> set (respelled s)" for c
    using respelled_chars [OF that]
  proof
    assume "c = CHR ''=''"
    then show ?thesis by (simp add: char_of_def)
  qed (use b64_char_facts(3,4) in auto)
  then have "filter (\<lambda>c. c \<noteq> char_of (10 :: nat) \<and> c \<noteq> char_of (13 :: nat)) (respelled s) = respelled s"
    by (simp add: filter_id_conv)
  then show ?thesis by (simp add: b64_decode_def groups_respelled)
qed

lemma respelled_differs: "length s mod 3 = 1 \<Longrightarrow> respelled s \<noteq> b64_encode s"
proof (induction s rule: respelled.induct)
  case (2 a)
  have "b64_char (Suc (byte_of a mod 4 * 16)) \<noteq> b64_char (byte_of a mod 4 * 16)"
    using b64_char_facts(1) [OF respelled_last(1)] b64_char_facts(1) [OF byte_parts(2)] by (metis n_not_Suc_n option.inject)
  then show ?case by simp
next
  case (4 a b c s)
  have "length (a # b # c # s) = length s + 3" by simp
  then have "length s mod 3 = 1" using "4.prems" by (metis mod_add_self2)
  then show ?case using "4.IH" by simp
qed simp_all

lemma relay_replay_respelled:
  assumes "verifyRelayForwardAuth env r n = (st, r', n')" and "fst st = 0" and "is_forward r"
    and "hr_relaySig r = b64_encode raw" and "length raw = 64" and "gget (rc_seen n) (respelled raw) = None" and "length (rc_seen n) < 1024"
  shows "respelled raw \<noteq> hr_relaySig r \<and> fst (fst (verifyRelayForwardAuth env (r\<lparr>hr_relaySig := respelled raw\<rparr>) n')) = 0"
proof -
  have d: "respelled raw \<noteq> hr_relaySig r" using respelled_differs [of raw] assms(4,5) by simp
  from verify_accepts [OF assms(1-3)] obtain fed sender p where a: "rl_fed env = Some fed" "fed_GetNode (claimed_node r) fed = Some sender"
      "hr_relayTs r = Stamp p" "p \<le> rl_now env" "rl_now env \<le> p + relaySigMaxAge" "rc_boot n \<le> p + 1000000000"
      "VerifyJSONSig env (ni_PubKey sender) (forward_envelope env (claimed_node r) r) (hr_relaySig r)"
      and nr: "noteRelayReplay env (hr_relaySig r) n = (False, n')" by blast
  let ?r = "r\<lparr>hr_relaySig := respelled raw\<rparr>"
  have "b64_decode (respelled raw) = b64_decode (hr_relaySig r)" by (simp add: decode_respelled assms(4) b64_decode_encode)
  moreover have "canonicalJSON env (forward_envelope env (claimed_node r) ?r) = canonicalJSON env (forward_envelope env (claimed_node r) r)"
    by (simp add: canonicalJSON_def forward_envelope_def)
  ultimately have ver: "VerifyJSONSig env (ni_PubKey sender) (forward_envelope env (claimed_node r) ?r) (respelled raw)"
    using a(7) unfolding VerifyJSONSig_def VerifySignature_def by presburger
  have id: "claimed_node ?r = claimed_node r" by (simp add: claimed_node_def Let_def)
  have ne: "respelled raw \<noteq> []" using assms(5) by (cases raw rule: respelled.cases) auto
  have "gget (rc_seen n') (respelled raw) = None"
    using note_cases [OF nr] d assms(6,7) by (simp add: sweep_seen_def evict_seen_def relayReplayCacheMaxEntries_def)
  then obtain m where nr2: "noteRelayReplay env (respelled raw) n' = (False, m)" by (simp add: noteRelayReplay_def Let_def)
  have "rc_boot n' = rc_boot n" using note_cases [OF nr] by simp
  with d a ver ne nr2 assms(3) show ?thesis
    unfolding verifyRelayForwardAuth_def Let_def id is_forward_def by simp
qed

section \<open>The signature of federation requests\<close>

definition fed_payload :: "(string \<Rightarrow> byte list) \<Rightarrow> http_request \<Rightarrow> string \<Rightarrow> string" where
  "fed_payload sha r nodeID = nodeID @ '':'' @ hr_method r @ '':'' @ hr_path r @ '':'' @ hexEncode (sha (take 1048576 (hr_body r)))"

definition fed_legacy :: "http_request \<Rightarrow> string \<Rightarrow> string" where
  "fed_legacy r nodeID = nodeID @ '':'' @ hr_method r @ '':'' @ hr_path r"

definition federationSigValid :: "(string \<Rightarrow> byte list) \<Rightarrow> (string \<Rightarrow> string \<Rightarrow> string \<Rightarrow> bool) \<Rightarrow> http_request \<Rightarrow> string \<Rightarrow> string \<Rightarrow> string \<Rightarrow> bool" where
  "federationSigValid sha verify r pubKey nodeID sig \<longleftrightarrow>
     VerifySignature verify pubKey (fed_payload sha r nodeID) sig \<or> VerifySignature verify pubKey (fed_legacy r nodeID) sig"

end
