(* ===== verification/Net_Addresses.thy ===== *)
theory Net_Addresses
  imports Rate_Limiter Provider_Routing "HOL-Library.Word"
begin

text \<open>
  Addresses that must not be reached, and those a local client has: the guards against requests to internal targets
  (\<open>src/client.go\<close>, \<open>src/network_relay.go\<close>, \<open>src/nat_traversal.go\<close>, \<open>src/admin_providers.go\<close>) and the test of the address of a
  client (\<open>src/middleware.go\<close>).

  An address is a word of 32 or 128 bits; an IPv4 address inside IPv6 counts as IPv4, as it does for \<open>net.IP.To4\<close>. Reading the
  text of an address or of a URL and resolving a name are fields of the environment. Letters are ASCII.
\<close>

section \<open>Classes of addresses\<close>

datatype ip = IPv4 "32 word" | IPv6 "128 word"

text \<open>The byte \<open>i\<close> of an address, counted from the front.\<close>

definition octet4 :: "nat \<Rightarrow> 32 word \<Rightarrow> nat" where
  "octet4 i a = unat (drop_bit (24 - 8 * i) a) mod 256"

definition octet6 :: "nat \<Rightarrow> 128 word \<Rightarrow> nat" where
  "octet6 i a = unat (drop_bit (120 - 8 * i) a) mod 256"

unbundle bit_operations_syntax

fun IsLoopback :: "ip \<Rightarrow> bool" where
  "IsLoopback (IPv4 a) \<longleftrightarrow> octet4 0 a = 127"
| "IsLoopback (IPv6 a) \<longleftrightarrow> a = 1"

fun IsPrivate :: "ip \<Rightarrow> bool" where
  "IsPrivate (IPv4 a) \<longleftrightarrow> octet4 0 a = 10 \<or> octet4 0 a = 172 \<and> octet4 1 a AND 0xf0 = 16 \<or> octet4 0 a = 192 \<and> octet4 1 a = 168"
| "IsPrivate (IPv6 a) \<longleftrightarrow> octet6 0 a AND 0xfe = 0xfc"

fun IsLinkLocalUnicast :: "ip \<Rightarrow> bool" where
  "IsLinkLocalUnicast (IPv4 a) \<longleftrightarrow> octet4 0 a = 169 \<and> octet4 1 a = 254"
| "IsLinkLocalUnicast (IPv6 a) \<longleftrightarrow> octet6 0 a = 0xfe \<and> octet6 1 a AND 0xc0 = 0x80"

fun IsLinkLocalMulticast :: "ip \<Rightarrow> bool" where
  "IsLinkLocalMulticast (IPv4 a) \<longleftrightarrow> octet4 0 a = 224 \<and> octet4 1 a = 0 \<and> octet4 2 a = 0"
| "IsLinkLocalMulticast (IPv6 a) \<longleftrightarrow> octet6 0 a = 0xff \<and> octet6 1 a AND 0x0f = 0x02"

fun IsMulticast :: "ip \<Rightarrow> bool" where
  "IsMulticast (IPv4 a) \<longleftrightarrow> octet4 0 a AND 0xf0 = 0xe0"
| "IsMulticast (IPv6 a) \<longleftrightarrow> octet6 0 a = 0xff"

fun IsUnspecified :: "ip \<Rightarrow> bool" where
  "IsUnspecified (IPv4 a) \<longleftrightarrow> a = 0"
| "IsUnspecified (IPv6 a) \<longleftrightarrow> a = 0"

fun isCGNAT :: "ip \<Rightarrow> bool" where
  "isCGNAT (IPv4 a) \<longleftrightarrow> octet4 0 a = 100 \<and> octet4 1 a AND 0xc0 = 0x40"
| "isCGNAT (IPv6 a) \<longleftrightarrow> False"

definition ssrfIPBlocked :: "ip option \<Rightarrow> bool" where
  "ssrfIPBlocked ipo =
     (case ipo of
        None \<Rightarrow> True
      | Some a \<Rightarrow> IsLoopback a \<or> IsPrivate a \<or> IsLinkLocalUnicast a \<or> IsLinkLocalMulticast a \<or> IsMulticast a \<or> IsUnspecified a \<or> isCGNAT a)"

section \<open>Hosts\<close>

record net_env =
  ne_ParseIP :: "string \<Rightarrow> ip option"
  ne_LookupHost :: "string \<Rightarrow> string list option"
  ne_LookupIP :: "string \<Rightarrow> ip list option"
  ne_urlParse :: "string \<Rightarrow> (string \<times> string) option"   \<comment> \<open>scheme and host\<close>

text \<open>\<open>strconv.Atoi\<close>: an optional sign and decimal digits, within 64 bits.\<close>

definition Atoi :: "string \<Rightarrow> int option" where
  "Atoi s =
     (let neg = (case s of [] \<Rightarrow> False | c # _ \<Rightarrow> c = CHR ''-'');
          ds = (case s of [] \<Rightarrow> [] | c # r \<Rightarrow> if c = CHR ''-'' \<or> c = CHR ''+'' then r else s)
      in if ds = [] \<or> list_ex (\<lambda>c. (of_char c :: nat) < 48 \<or> (of_char c :: nat) > 57) ds then None
         else let v = int (digits_value ds); w = (if neg then - v else v) in if in_i64 w then Some w else None)"

definition splitDialHost :: "net_env \<Rightarrow> string \<Rightarrow> string" where
  "splitDialHost env host =
     (let h = trim_space host in
      if h = [] then []
      else
        let h1 = (case ne_urlParse env h of
                    Some (scheme, uhost) \<Rightarrow>
                      if scheme \<noteq> [] \<and> uhost \<noteq> [] then uhost
                      else if scheme \<noteq> [] \<and> uhost = [] \<and> CHR '':'' \<in> set h then scheme else h
                  | None \<Rightarrow> h)
        in case last_index (CHR '':'') h1 of
             None \<Rightarrow> h1
           | Some i \<Rightarrow> (case Atoi (drop (i + 1) h1) of Some _ \<Rightarrow> take i h1 | None \<Rightarrow> h1))"

definition relayTargetBlocked :: "net_env \<Rightarrow> string \<Rightarrow> bool" where
  "relayTargetBlocked env host =
     (let h = to_lower (trim_space host) in
      if h = [] \<or> h = ''localhost'' then True
      else case ne_ParseIP env h of
        Some a \<Rightarrow> ssrfIPBlocked (Some a)
      | None \<Rightarrow>
          (case ne_LookupHost env h of
             None \<Rightarrow> True
           | Some ips \<Rightarrow>
               if ips = [] then True
               else list_ex (\<lambda>s. case ne_ParseIP env s of Some a \<Rightarrow> ssrfIPBlocked (Some a) | None \<Rightarrow> False) ips))"

definition isPrivateHostFresh :: "net_env \<Rightarrow> string \<Rightarrow> bool" where
  "isPrivateHostFresh env host =
     (let h = splitDialHost env host in
      if h = [] \<or> to_lower h = ''localhost'' then True
      else case ne_ParseIP env h of
        Some a \<Rightarrow> ssrfIPBlocked (Some a)
      | None \<Rightarrow>
          (case ne_LookupIP env h of
             None \<Rightarrow> True
           | Some ips \<Rightarrow> if ips = [] then True else list_ex (\<lambda>a. ssrfIPBlocked (Some a)) ips))"

definition isPrivateHost :: "net_env \<Rightarrow> string \<Rightarrow> bool" where
  "isPrivateHost env host =
     (let h = splitDialHost env host in
      if h = [] then True
      else if h = ''localhost'' then True
      else case ne_ParseIP env h of
        Some a \<Rightarrow> IsLoopback a \<or> IsPrivate a \<or> IsLinkLocalUnicast a \<or> IsLinkLocalMulticast a \<or> IsUnspecified a \<or> isCGNAT a
      | None \<Rightarrow>
          (case ne_LookupHost env h of
             None \<Rightarrow> True
           | Some ips \<Rightarrow>
               if ips = [] then True
               else list_ex (\<lambda>s. case ne_ParseIP env s of
                       Some a \<Rightarrow> IsLoopback a \<or> IsPrivate a \<or> IsLinkLocalUnicast a \<or> IsLinkLocalMulticast a \<or> isCGNAT a
                     | None \<Rightarrow> False) ips))"

text \<open>The cache of answers: the answer for a host and the time it expires.\<close>

definition dnsCacheTTL :: int where "dnsCacheTTL = 300000000000"
definition dnsCacheMaxSize :: nat where "dnsCacheMaxSize = 4096"

definition cachedIsPrivateHost :: "net_env \<Rightarrow> int \<Rightarrow> string \<Rightarrow> (string, bool \<times> int) gomap \<Rightarrow> bool \<times> (string, bool \<times> int) gomap" where
  "cachedIsPrivateHost env now host cache =
     (let key = trim_space host in
      if key = [] then (True, cache)
      else
        let fresh = (let result = isPrivateHost env host;
                         c1 = (if length cache \<ge> dnsCacheMaxSize then [] else cache)
                     in (result, gput key (result, now + dnsCacheTTL) c1))
        in case gget cache key of
             Some (v, expires) \<Rightarrow> if now < expires then (v, cache) else fresh
           | None \<Rightarrow> fresh)"

text \<open>The URL of a provider: \<open>None\<close> is no error.\<close>

definition validateProviderBaseURL :: "net_env \<Rightarrow> (string \<Rightarrow> string) \<Rightarrow> string \<Rightarrow> string option" where
  "validateProviderBaseURL env hostname baseURL =
     (if baseURL = [] then None
      else case ne_urlParse env baseURL of
        None \<Rightarrow> Some ''invalid BaseURL: must be a valid http/https URL''
      | Some (scheme, uhost) \<Rightarrow>
          if scheme \<noteq> ''http'' \<and> scheme \<noteq> ''https'' then Some ''invalid BaseURL: must be a valid http/https URL''
          else if isPrivateHost env (hostname uhost)
          then Some ''invalid BaseURL: must not point to a private, loopback or unresolvable address''
          else None)"

text \<open>\<open>cidr.Contains\<close> for a network with a prefix of \<open>n\<close> bits.\<close>

definition in_net4 :: "32 word \<Rightarrow> nat \<Rightarrow> 32 word \<Rightarrow> bool" where
  "in_net4 net n a \<longleftrightarrow> a AND push_bit (32 - n) (mask n) = net"

definition in_net6 :: "128 word \<Rightarrow> nat \<Rightarrow> 128 word \<Rightarrow> bool" where
  "in_net6 net n a \<longleftrightarrow> a AND push_bit (128 - n) (mask n) = net"

definition isLocalOrPrivateIP :: "net_env \<Rightarrow> string \<Rightarrow> bool" where
  "isLocalOrPrivateIP env s =
     (case ne_ParseIP env s of
        None \<Rightarrow> False
      | Some a \<Rightarrow>
          if IsLoopback a then True
          else case a of
            IPv4 w \<Rightarrow> in_net4 0x0a000000 8 w \<or> in_net4 0xac100000 12 w \<or> in_net4 0xc0a80000 16 w \<or> in_net4 0xa9fe0000 16 w \<or> in_net4 0x64400000 10 w
          | IPv6 w \<Rightarrow> in_net6 0xfc000000000000000000000000000000 7 w)"

text \<open>The guard of the endpoint that probes a direct connection to a node.\<close>

definition probe_guard :: "net_env \<Rightarrow> (string \<Rightarrow> string) \<Rightarrow> string \<Rightarrow> unit http_result" where
  "probe_guard env hostname targetURL =
     (case ne_urlParse env targetURL of
        None \<Rightarrow> HttpError 400 ''target_url must be a valid http/https URL''
      | Some (scheme, uhost) \<Rightarrow>
          if scheme \<noteq> ''http'' \<and> scheme \<noteq> ''https'' then HttpError 400 ''target_url must be a valid http/https URL''
          else if isLocalOrPrivateIP env (hostname uhost) then HttpError 400 ''target_url must not point to a private or loopback address''
          else HttpOK ())"

section \<open>The classes as ranges\<close>

definition v4 :: "nat \<Rightarrow> nat \<Rightarrow> nat \<Rightarrow> nat \<Rightarrow> nat" where
  "v4 a b c d = ((a * 256 + b) * 256 + c) * 256 + d"

text \<open>The internal ranges of IPv4, first and last address.\<close>

definition internal_ranges :: "(nat \<times> nat) list" where
  "internal_ranges =
     [(0, 0), (v4 10 0 0 0, v4 10 255 255 255), (v4 100 64 0 0, v4 100 127 255 255), (v4 127 0 0 0, v4 127 255 255 255),
      (v4 169 254 0 0, v4 169 254 255 255), (v4 172 16 0 0, v4 172 31 255 255), (v4 192 168 0 0, v4 192 168 255 255),
      (v4 224 0 0 0, v4 239 255 255 255)]"

definition internal_ip :: "ip \<Rightarrow> bool" where
  "internal_ip x =
     (case x of
        IPv4 a \<Rightarrow> list_ex (\<lambda>(lo, hi). lo \<le> unat a \<and> unat a \<le> hi) internal_ranges
      | IPv6 a \<Rightarrow> unat a \<le> 1 \<or> unat a div 2 ^ 121 = 0x7e \<or> unat a div 2 ^ 118 = 0x3fa \<or> unat a div 2 ^ 120 = 0xff)"

lemma and_high:
  assumes "(n :: nat) < 2 ^ (k + m)"
  shows "n AND push_bit k (mask m) = 2 ^ k * (n div 2 ^ k)"
proof -
  have "bit n i \<Longrightarrow> i < m + k" for i using assms by (metis add.commute bit_take_bit_iff take_bit_nat_eq_self)
  then have "n AND push_bit k (mask m) = push_bit k (drop_bit k n)"
    by (intro bit_eqI) (auto simp: bit_simps less_diff_conv2)
  then show ?thesis by (simp add: push_bit_eq_mult drop_bit_eq_div)
qed

lemma byte_mask:
  assumes "(n :: nat) < 256"
  shows "n AND 0xf0 = 16 \<longleftrightarrow> n div 16 = 1" and "n AND 0xf0 = 0xe0 \<longleftrightarrow> n div 16 = 14"
    and "n AND 0xc0 = 0x40 \<longleftrightarrow> n div 64 = 1" and "n AND 0xc0 = 0x80 \<longleftrightarrow> n div 64 = 2"
    and "n AND 0xfe = 0xfc \<longleftrightarrow> n div 2 = 126"
proof -
  have m: "push_bit 4 (mask 4) = (0xf0 :: nat)" "push_bit 6 (mask 2) = (0xc0 :: nat)" "push_bit 1 (mask 7) = (0xfe :: nat)"
    by (simp_all add: mask_eq_exp_minus_1 push_bit_eq_mult)
  have "n AND 0xf0 = 2 ^ 4 * (n div 2 ^ 4)" "n AND 0xc0 = 2 ^ 6 * (n div 2 ^ 6)" "n AND 0xfe = 2 ^ 1 * (n div 2 ^ 1)"
    using and_high [of n 4 4] and_high [of n 6 2] and_high [of n 1 7] assms unfolding m by simp_all
  then have "n AND 0xf0 = 16 * (n div 16)" "n AND 0xc0 = 64 * (n div 64)" "n AND 0xfe = 2 * (n div 2)" by simp_all
  then show "n AND 0xf0 = 16 \<longleftrightarrow> n div 16 = 1" "n AND 0xf0 = 0xe0 \<longleftrightarrow> n div 16 = 14"
    "n AND 0xc0 = 0x40 \<longleftrightarrow> n div 64 = 1" "n AND 0xc0 = 0x80 \<longleftrightarrow> n div 64 = 2" "n AND 0xfe = 0xfc \<longleftrightarrow> n div 2 = 126"
    by linarith+
qed

lemma octet4_shift: "octet4 i a = unat a div 2 ^ (24 - 8 * i) mod 256"
  by (subst octet4_def, subst unat_drop_bit_eq, subst drop_bit_eq_div, rule refl)

lemma octet6_shift: "octet6 i a = unat a div 2 ^ (120 - 8 * i) mod 256"
  by (subst octet6_def, subst unat_drop_bit_eq, subst drop_bit_eq_div, rule refl)

lemma unat_bound4: "unat (a :: 32 word) < 4294967296"
  using unsigned_less [of a, where ?'a = nat] by simp

lemma unat_bound6: "unat (a :: 128 word) < 2 ^ 128"
  using unsigned_less [of a, where ?'a = nat] by simp

lemma octet_bound: "octet4 i a < 256" "octet6 i b < 256"
  by (simp_all add: octet4_def octet6_def)

lemmas octet_masks = byte_mask [OF octet_bound(1)] byte_mask [OF octet_bound(2)]

lemma div_iff:
  assumes "0 < (c :: nat)"
  shows "n div c = k \<longleftrightarrow> k * c \<le> n \<and> n < k * c + c"
proof
  assume k: "n div c = k"
  from div_mult_mod_eq [of n c] mod_less_divisor [OF assms, of n] show "k * c \<le> n \<and> n < k * c + c" unfolding k by linarith
next
  assume "k * c \<le> n \<and> n < k * c + c"
  then show "n div c = k" by (intro div_nat_eqI) (simp_all add: mult.commute)
qed

lemma split_iff:
  assumes "b < (k :: nat)"
  shows "m div k = a \<and> m mod k = b \<longleftrightarrow> m = a * k + b"
proof
  assume "m div k = a \<and> m mod k = b"
  then show "m = a * k + b" using div_mult_mod_eq [of m k] by simp
qed (use assms in simp)

lemma mod_div_swap: "0 < b \<Longrightarrow> (m :: nat) mod (b * c) div b = m div b mod c"
  by (simp add: mod_mult2_eq)

text \<open>The bytes of an IPv4 address that matter for the classes, as quotients of the address.\<close>

lemma octet4_facts:
  "octet4 0 a = k \<longleftrightarrow> unat a div 16777216 = k"
  "s < 256 \<Longrightarrow> octet4 0 a = k \<and> octet4 1 a = s \<longleftrightarrow> unat a div 65536 = k * 256 + s"
  "s < 16 \<Longrightarrow> octet4 0 a = k \<and> octet4 1 a div 16 = s \<longleftrightarrow> unat a div 1048576 = k * 16 + s"
  "s < 4 \<Longrightarrow> octet4 0 a = k \<and> octet4 1 a div 64 = s \<longleftrightarrow> unat a div 4194304 = k * 4 + s"
  "octet4 0 a div 16 = k \<longleftrightarrow> unat a div 268435456 = k"
proof -
  let ?n = "unat a"
  have o: "octet4 0 a = ?n div 16777216" "octet4 1 a = ?n div 65536 mod 256"
    using unat_bound4 [of a] by (simp_all add: octet4_shift)
  have h: "?n div 65536 mod 256 div 16 = ?n div 1048576 mod 16" "?n div 65536 mod 256 div 64 = ?n div 4194304 mod 4"
    using mod_div_swap [of 16 "?n div 65536" 16] mod_div_swap [of 64 "?n div 65536" 4] by (simp_all add: div_mult2_eq [symmetric])
  have q: "?n div 16777216 = ?n div 65536 div 256" "?n div 16777216 = ?n div 1048576 div 16" "?n div 16777216 = ?n div 4194304 div 4"
    "?n div 16777216 div 16 = ?n div 268435456"
    by (simp_all add: div_mult2_eq [symmetric])
  show "octet4 0 a = k \<longleftrightarrow> ?n div 16777216 = k" by (simp add: o)
  show "s < 256 \<Longrightarrow> octet4 0 a = k \<and> octet4 1 a = s \<longleftrightarrow> ?n div 65536 = k * 256 + s"
    unfolding o q(1) by (rule split_iff)
  show "s < 16 \<Longrightarrow> octet4 0 a = k \<and> octet4 1 a div 16 = s \<longleftrightarrow> ?n div 1048576 = k * 16 + s"
    unfolding o q(2) h by (rule split_iff)
  show "s < 4 \<Longrightarrow> octet4 0 a = k \<and> octet4 1 a div 64 = s \<longleftrightarrow> ?n div 4194304 = k * 4 + s"
    unfolding o q(3) h by (rule split_iff)
  show "octet4 0 a div 16 = k \<longleftrightarrow> ?n div 268435456 = k" unfolding o q(4) ..
qed

lemma range4:
  "(x :: nat) div 16777216 = k \<longleftrightarrow> x \<ge> k * 16777216 \<and> x < k * 16777216 + 16777216"
  "(x :: nat) div 65536 = k \<longleftrightarrow> x \<ge> k * 65536 \<and> x < k * 65536 + 65536"
  "(x :: nat) div 1048576 = k \<longleftrightarrow> x \<ge> k * 1048576 \<and> x < k * 1048576 + 1048576"
  "(x :: nat) div 4194304 = k \<longleftrightarrow> x \<ge> k * 4194304 \<and> x < k * 4194304 + 4194304"
  "(x :: nat) div 268435456 = k \<longleftrightarrow> x \<ge> k * 268435456 \<and> x < k * 268435456 + 268435456"
  by (rule div_iff, simp)+

lemma ipv4_internal: "ssrfIPBlocked (Some (IPv4 a)) \<longleftrightarrow> internal_ip (IPv4 a)"
proof -
  let ?n = "unat a"
  note f = octet4_facts
  have q: "octet4 0 a = 172 \<and> octet4 1 a div 16 = 1 \<longleftrightarrow> ?n div 1048576 = 2753" "octet4 0 a = 192 \<and> octet4 1 a = 168 \<longleftrightarrow> ?n div 65536 = 49320"
    "octet4 0 a = 169 \<and> octet4 1 a = 254 \<longleftrightarrow> ?n div 65536 = 43518" "octet4 0 a = 100 \<and> octet4 1 a div 64 = 1 \<longleftrightarrow> ?n div 4194304 = 401"
    by (subst f, simp, simp)+
  have "IsLoopback (IPv4 a) \<longleftrightarrow> v4 127 0 0 0 \<le> ?n \<and> ?n \<le> v4 127 255 255 255"
    by (simp add: f range4 v4_def) linarith
  moreover have "octet4 0 a = 10 \<longleftrightarrow> v4 10 0 0 0 \<le> ?n \<and> ?n \<le> v4 10 255 255 255"
    unfolding f range4 by (simp add: v4_def) linarith
  moreover have "octet4 0 a = 172 \<and> octet4 1 a AND 0xf0 = 16 \<longleftrightarrow> v4 172 16 0 0 \<le> ?n \<and> ?n \<le> v4 172 31 255 255"
    unfolding byte_mask(1) [OF octet_bound(1)] q(1) range4 by (simp add: v4_def) linarith
  moreover have "octet4 0 a = 192 \<and> octet4 1 a = 168 \<longleftrightarrow> v4 192 168 0 0 \<le> ?n \<and> ?n \<le> v4 192 168 255 255"
    unfolding q(2) range4 by (simp add: v4_def) linarith
  moreover have "IsLinkLocalUnicast (IPv4 a) \<longleftrightarrow> v4 169 254 0 0 \<le> ?n \<and> ?n \<le> v4 169 254 255 255"
    unfolding IsLinkLocalUnicast.simps q(3) range4 by (simp add: v4_def) linarith
  moreover have "isCGNAT (IPv4 a) \<longleftrightarrow> v4 100 64 0 0 \<le> ?n \<and> ?n \<le> v4 100 127 255 255"
    unfolding isCGNAT.simps byte_mask(3) [OF octet_bound(1)] q(4) range4 by (simp add: v4_def) linarith
  moreover have "IsMulticast (IPv4 a) \<longleftrightarrow> v4 224 0 0 0 \<le> ?n \<and> ?n \<le> v4 239 255 255 255"
    unfolding IsMulticast.simps byte_mask(2) [OF octet_bound(1)] f(5) range4 by (simp add: v4_def) linarith
  moreover have "IsLinkLocalMulticast (IPv4 a) \<Longrightarrow> IsMulticast (IPv4 a)"
    unfolding IsMulticast.simps IsLinkLocalMulticast.simps byte_mask(2) [OF octet_bound(1)] by simp
  moreover have "IsUnspecified (IPv4 a) \<longleftrightarrow> ?n = 0" by (simp add: unat_eq_0)
  moreover have "internal_ip (IPv4 a) \<longleftrightarrow> ?n = 0 \<or> v4 10 0 0 0 \<le> ?n \<and> ?n \<le> v4 10 255 255 255 \<or> v4 100 64 0 0 \<le> ?n \<and> ?n \<le> v4 100 127 255 255 \<or>
      v4 127 0 0 0 \<le> ?n \<and> ?n \<le> v4 127 255 255 255 \<or> v4 169 254 0 0 \<le> ?n \<and> ?n \<le> v4 169 254 255 255 \<or>
      v4 172 16 0 0 \<le> ?n \<and> ?n \<le> v4 172 31 255 255 \<or> v4 192 168 0 0 \<le> ?n \<and> ?n \<le> v4 192 168 255 255 \<or>
      v4 224 0 0 0 \<le> ?n \<and> ?n \<le> v4 239 255 255 255"
    unfolding internal_ip_def ip.case internal_ranges_def by simp
  ultimately show ?thesis unfolding ssrfIPBlocked_def option.case IsPrivate.simps by argo
qed

lemma ipv6_internal: "ssrfIPBlocked (Some (IPv6 a)) \<longleftrightarrow> internal_ip (IPv6 a)"
proof -
  let ?n = "unat a"
  have o: "octet6 0 a = ?n div 2 ^ 120" using unat_bound6 [of a] by (simp add: octet6_shift)
  have p: "?n div 2 ^ 120 div 2 = ?n div 2 ^ 121" by (simp add: div_mult2_eq [symmetric])
  have l: "octet6 0 a = 0xfe \<and> octet6 1 a div 64 = 2 \<longleftrightarrow> ?n div 2 ^ 118 = 0x3fa"
  proof -
    have "octet6 1 a div 64 = ?n div 2 ^ 118 mod 4"
      using mod_div_swap [where b = 64 and m = "?n div 2 ^ 112" and c = 4] by (simp add: octet6_shift div_mult2_eq [symmetric])
    moreover have "?n div 2 ^ 120 = ?n div 2 ^ 118 div 4" by (simp add: div_mult2_eq [symmetric])
    ultimately show ?thesis unfolding o using split_iff [of 2 4, where m = "?n div 2 ^ 118" and a = 254] by simp
  qed
  have z: "a = 0 \<longleftrightarrow> ?n = 0" "a = 1 \<longleftrightarrow> ?n = 1" by (simp add: unat_eq_0) (metis unsigned_1 unsigned_word_eqI)
  have "IsLinkLocalMulticast (IPv6 a) \<Longrightarrow> IsMulticast (IPv6 a)" by simp
  moreover have "IsPrivate (IPv6 a) \<longleftrightarrow> ?n div 2 ^ 121 = 0x7e"
    using byte_mask(5) [OF octet_bound(2), of 0 a] p by (simp only: IsPrivate.simps o)
  moreover have "IsLinkLocalUnicast (IPv6 a) \<longleftrightarrow> ?n div 2 ^ 118 = 0x3fa"
    unfolding IsLinkLocalUnicast.simps byte_mask(4) [OF octet_bound(2)] l ..
  moreover have "IsMulticast (IPv6 a) \<longleftrightarrow> ?n div 2 ^ 120 = 0xff" unfolding IsMulticast.simps o ..
  moreover have "IsLoopback (IPv6 a) \<or> IsUnspecified (IPv6 a) \<longleftrightarrow> ?n \<le> 1" using z by auto
  moreover have "\<not> isCGNAT (IPv6 a)" by simp
  ultimately show ?thesis unfolding ssrfIPBlocked_def option.case internal_ip_def ip.case by blast
qed

lemma blocked_internal: "ssrfIPBlocked (Some x) \<longleftrightarrow> internal_ip x"
  using ipv4_internal ipv6_internal by (cases x) blast+

section \<open>Targets\<close>

text \<open>
  (C34) A relay or gateway only connects to public addresses. A target that is not refused is neither empty nor \<open>localhost\<close>;
  it is the text of an address outside the internal ranges, or a name that resolves, and every address it resolves to at that time lies outside
  these ranges.
\<close>

theorem relay_target_public:
  "relayTargetBlocked env host \<longleftrightarrow>
     (let h = to_lower (trim_space host); reached = (case ne_ParseIP env h of Some a \<Rightarrow> [a]
         | None \<Rightarrow> (case ne_LookupHost env h of None \<Rightarrow> [] | Some ips \<Rightarrow> List.map_filter (ne_ParseIP env) ips))
      in h = [] \<or> h = ''localhost'' \<or> list_ex internal_ip reached \<or>
         ne_ParseIP env h = None \<and> (ne_LookupHost env h = None \<or> ne_LookupHost env h = Some []))"
proof -
  let ?h = "to_lower (trim_space host)"
  have mf: "list_ex internal_ip (List.map_filter (ne_ParseIP env) ips) \<longleftrightarrow>
      list_ex (\<lambda>s. case ne_ParseIP env s of Some a \<Rightarrow> ssrfIPBlocked (Some a) | None \<Rightarrow> False) ips" for ips
    by (induction ips) (auto simp: blocked_internal map_filter_simps split: option.splits)
  show ?thesis
    unfolding relayTargetBlocked_def Let_def
    by (cases "ne_ParseIP env ?h"; cases "ne_LookupHost env ?h") (auto simp: blocked_internal mf)
qed

lemma in_net4_div:
  assumes "n \<le> 32" and "unat net = 2 ^ (32 - n) * q"
  shows "in_net4 net n a \<longleftrightarrow> unat a div 2 ^ (32 - n) = q"
proof -
  have b: "a AND push_bit (32 - n) (mask n) = push_bit (32 - n) (drop_bit (32 - n) a)"
    using assms(1) by (intro bit_word_eqI) (auto simp: bit_simps)
  have "unat (push_bit (32 - n) (drop_bit (32 - n) a)) = 2 ^ (32 - n) * (unat a div 2 ^ (32 - n))"
  proof -
    have le: "2 ^ (32 - n) * (unat a div 2 ^ (32 - n)) < 2 ^ 32" using unat_bound4 [of a] by (simp add: less_le_trans le_less_trans [OF times_div_less_eq_dividend])
    show ?thesis
      by (subst unsigned_push_bit_eq, subst unat_drop_bit_eq, subst push_bit_eq_mult, subst drop_bit_eq_div, subst take_bit_eq_mod)
        (use le in \<open>simp add: mult.commute\<close>)
  qed
  with assms(2) show ?thesis unfolding in_net4_def b by (metis mult_cancel1 power_not_zero unsigned_word_eqI zero_neq_numeral)
qed

text \<open>Whoever counts as a local client has an address that no request of the node is sent to.\<close>

lemma local_is_internal:
  assumes "isLocalOrPrivateIP env s"
  shows "\<exists>x. ne_ParseIP env s = Some x \<and> internal_ip x"
proof -
  obtain x where x: "ne_ParseIP env s = Some x" using assms by (auto simp: isLocalOrPrivateIP_def split: option.splits)
  have "internal_ip x"
  proof (cases "IsLoopback x")
    case True
    then show ?thesis unfolding blocked_internal [symmetric] ssrfIPBlocked_def by simp
  next
    case False
    show ?thesis
    proof (cases x)
      case (IPv4 a)
      have n: "in_net4 0x0a000000 8 a \<longleftrightarrow> unat a div 16777216 = 10" "in_net4 0xac100000 12 a \<longleftrightarrow> unat a div 1048576 = 2753"
        "in_net4 0xc0a80000 16 a \<longleftrightarrow> unat a div 65536 = 49320" "in_net4 0xa9fe0000 16 a \<longleftrightarrow> unat a div 65536 = 43518"
        "in_net4 0x64400000 10 a \<longleftrightarrow> unat a div 4194304 = 401"
        using in_net4_div [where n = 8 and q = 10 and a = a] in_net4_div [where n = 12 and q = 2753 and a = a]
          in_net4_div [where n = 16 and q = 49320 and a = a] in_net4_div [where n = 16 and q = 43518 and a = a]
          in_net4_div [where n = 10 and q = 401 and a = a] by simp_all
      from assms False have "in_net4 0x0a000000 8 a \<or> in_net4 0xac100000 12 a \<or> in_net4 0xc0a80000 16 a \<or> in_net4 0xa9fe0000 16 a \<or> in_net4 0x64400000 10 a"
        by (simp add: isLocalOrPrivateIP_def x IPv4)
      then have "list_ex (\<lambda>(lo, hi). lo \<le> unat a \<and> unat a \<le> hi) internal_ranges"
        unfolding n range4 internal_ranges_def by (elim disjE) (simp_all add: v4_def)
      then show ?thesis by (simp add: internal_ip_def IPv4)
    next
      case (IPv6 a)
      with assms False have i: "in_net6 0xfc000000000000000000000000000000 7 a" by (simp add: isLocalOrPrivateIP_def x)
      have "drop_bit 121 a = drop_bit 121 (a AND push_bit 121 (mask 7))"
        by (intro bit_word_eqI) (auto simp: bit_simps dest: bit_imp_le_length)
      also have "\<dots> = 0x7e" using i unfolding in_net6_def by simp
      finally have "unat (drop_bit 121 a) = unat (0x7e :: 128 word)" by (rule arg_cong)
      then have "unat a div 2 ^ 121 = 0x7e" by (subst (asm) unat_drop_bit_eq, subst (asm) drop_bit_eq_div) simp
      then show ?thesis by (simp add: internal_ip_def IPv6)
    qed
  qed
  with x show ?thesis by blast
qed

section \<open>What the code gets wrong\<close>

text \<open>The guard of the endpoint that probes a node only looks at texts of addresses: any name passes, \<open>localhost\<close> included.\<close>

lemma probe_localhost_passes:
  assumes "ne_urlParse env ''http://localhost:8000/'' = Some (''http'', ''localhost:8000'')" and "hostname ''localhost:8000'' = ''localhost''"
    and "ne_ParseIP env ''localhost'' = None"
  shows "probe_guard env hostname ''http://localhost:8000/'' = HttpOK () \<and> relayTargetBlocked env ''localhost''"
  using assms by (simp add: probe_guard_def isLocalOrPrivateIP_def relayTargetBlocked_def Let_def trim_space_def is_space_def to_lower_def)

text \<open>
  The guard of the URLs of providers does not ask whether the address a name resolves to is the unspecified one, which reaches the node
  itself; the common policy would have refused it.
\<close>

lemma unspecified_name_passes:
  assumes "splitDialHost env h = h" and "h \<noteq> []" and "h \<noteq> ''localhost''" and "ne_ParseIP env h = None"
    and "ne_LookupHost env h = Some [''0.0.0.0'']" and "ne_ParseIP env ''0.0.0.0'' = Some (IPv4 0)"
  shows "\<not> isPrivateHost env h \<and> ssrfIPBlocked (ne_ParseIP env ''0.0.0.0'')"
  using assms by (simp add: isPrivateHost_def Let_def ssrfIPBlocked_def octet4_def)

text \<open>The last group of an IPv6 address is taken for a port; what is left is no address, so that a public IPv6 target is refused.\<close>

lemma ipv6_literal_cut:
  assumes "ne_urlParse env ''2606:4700::1111'' = None"
  shows "splitDialHost env ''2606:4700::1111'' = ''2606:4700:''"
  using assms by (simp add: splitDialHost_def Let_def trim_space_def is_space_def last_index_def Atoi_def digits_value_def in_i64_def)

end
