(* ===== verification/Access_Control.thy ===== *)
theory Access_Control
  imports Relay_Auth Net_Addresses Users Admin_Sessions
begin

text \<open>
  Who may call what: the guards around the handlers (\<open>src/middleware.go\<close>, \<open>src/multiuser.go\<close>, \<open>src/federation.go\<close>) and the way a
  request takes through the relay to the node itself (\<open>src/network_relay.go\<close>).

  A guard answers itself or hands a request on to its handler, with the headers it wrote; what it hands on is the value
  \<open>Pass\<close>. A missing user table is a panic, which \<open>recoverMiddleware\<close> answers with the status 500. The one message that is
  not ASCII is given in English.
\<close>

section \<open>State and configuration\<close>

record guard_config =
  gc_proxyKey :: string
  gc_anonymousIPs :: string
  gc_fedSecret :: string
  gc_corsOrigins :: string
  gc_tunnelURL :: string

record guard_state =
  gs_users :: "MultiUserManager option"
  gs_auth :: Auth
  gs_guests :: "GuestKeyStore option"
  gs_shared :: bool
  gs_relay :: relay_cache

record guard_env =
  ge_relay :: relay_env
  ge_jwt :: jwt_lib
  ge_net :: net_env

datatype guard_result = Pass http_request | Reject nat string

definition ge_now :: "guard_env \<Rightarrow> int" where "ge_now env = rl_now (ge_relay env)"

section \<open>Lists of addresses and origins\<close>

text \<open>\<open>strings.Split\<close> at commas.\<close>

fun split_commas :: "string \<Rightarrow> string list" where
  "split_commas [] = [[]]"
| "split_commas (c # s) =
     (if c = CHR '','' then [] # split_commas s
      else case split_commas s of [] \<Rightarrow> [[c]] | w # ws \<Rightarrow> (c # w) # ws)"

definition isAllowedAnonymousIP :: "string \<Rightarrow> string \<Rightarrow> bool" where
  "isAllowedAnonymousIP addr allowlist =
     (let l = trim_space allowlist in
      if l = [] \<or> l = ''*'' then False else list_ex (\<lambda>candidate. trim_space candidate = addr) (split_commas l))"

definition anonymousAdminAllowed :: "guard_config \<Rightarrow> http_request \<Rightarrow> bool" where
  "anonymousAdminAllowed cfg r =
     (if hr_relayDispatch r then False
      else let allowedIPs = (if trim_space (gc_anonymousIPs cfg) = [] then ''127.0.0.1,::1'' else gc_anonymousIPs cfg)
           in isAllowedAnonymousIP (extractClientIP (hr_RemoteAddr r)) allowedIPs)"

definition isOriginAllowed :: "string \<Rightarrow> string \<Rightarrow> bool" where
  "isOriginAllowed origin whitelist =
     list_ex (\<lambda>a. let allowed = trim_space a in allowed \<noteq> [] \<and> allowed = origin) (split_commas whitelist)"

text \<open>The headers for other origins: the origin that is allowed, if any, and whether credentials are.\<close>

record cors_reply =
  co_allowOrigin :: "string option"
  co_credentials :: bool
  co_answered :: bool     \<comment> \<open>the request ends here\<close>

definition corsMiddleware :: "guard_config \<Rightarrow> string \<Rightarrow> http_request \<Rightarrow> cors_reply" where
  "corsMiddleware cfg origin r =
     (let allowedOrigins = (if gc_corsOrigins cfg = []
            then ''http://localhost:8000,http://127.0.0.1:8000,http://localhost:3000'' @ (if gc_tunnelURL cfg \<noteq> [] then '','' @ gc_tunnelURL cfg else [])
            else gc_corsOrigins cfg);
          originAllowed = (origin \<noteq> [] \<and> isOriginAllowed origin allowedOrigins);
          wantsBookmarkletScope = (prefix ''/api/providers/'' (hr_path r) \<and> (hr_method r = ''PUT'' \<or> hr_method r = ''OPTIONS''))
      in \<lparr>co_allowOrigin = (if originAllowed then Some origin
                            else if origin \<noteq> [] \<and> wantsBookmarkletScope then Some ''*'' else None),
          co_credentials = originAllowed,
          co_answered = (hr_method r = ''OPTIONS'')\<rparr>)"

section \<open>Guards\<close>

definition stripInternalHeadersMiddleware :: "http_request \<Rightarrow> http_request" where
  "stripInternalHeadersMiddleware r = r\<lparr>hr_keyType := []\<rparr>"

definition requestIDMiddleware :: "string \<Rightarrow> string \<Rightarrow> string" where
  "requestIDMiddleware generated rid = (if rid = [] \<or> length rid > 64 then generated else rid)"

definition withGuestKey :: "string \<Rightarrow> http_request \<Rightarrow> http_request" where
  "withGuestKey key r = (if key = [] then r else r\<lparr>hr_guestKey := key\<rparr>)"

definition bearer :: "http_request \<Rightarrow> string option" where
  "bearer r = (if prefix ''Bearer '' (hr_Authorization r) then Some (drop 7 (hr_Authorization r)) else None)"

definition as_role :: "string \<Rightarrow> string \<Rightarrow> http_request \<Rightarrow> http_request" where
  "as_role owner role r = r\<lparr>hr_owner := owner, hr_role := role\<rparr>"

text \<open>
  The attempt to accept a signed forward, before other credentials: the request it lets through, if any, and the request
  the guard goes on with otherwise. A body that is too long has been read past the limit by then.
\<close>

definition signed_forward :: "relay_env \<Rightarrow> http_request \<Rightarrow> relay_cache \<Rightarrow> http_request option \<times> http_request \<times> relay_cache" where
  "signed_forward env r n =
     (if claimed_node r \<noteq> [] \<and> hr_relaySig r \<noteq> [] then
        if length (hr_body r) \<le> maxGatewayBodySize then
          (case verifyRelayForwardAuth env r n of
             ((st, _), r', n') \<Rightarrow> (if st = 0 then (Some r', r', n') else (None, r', n')))
        else (None, r\<lparr>hr_body := drop (maxGatewayBodySize + 1) (hr_body r)\<rparr>, n)
      else (None, r, n))"

definition key_required :: guard_result where "key_required = Reject 401 ''API key required''"
definition request_failed :: guard_result where "request_failed = Reject 401 ''request failed, please try again later''"
definition panicked :: guard_result where "panicked = Reject 500 ''internal server error''"

definition proxy_credentials :: "guard_env \<Rightarrow> guard_config \<Rightarrow> http_request \<Rightarrow> guard_state \<Rightarrow> guard_result" where
  "proxy_credentials env cfg r s =
     (let anonymous = (gc_proxyKey cfg = [] \<and> \<not> HasConsumers (gs_users s) \<and> anonymousAdminAllowed cfg r) in
      case bearer r of
        None \<Rightarrow> if anonymous then Pass (as_role [] ''admin'' r) else key_required
      | Some key \<Rightarrow>
          if key = PublicKeyValue then Pass (as_role [] ''public'' r)
          else if gc_proxyKey cfg \<noteq> [] \<and> key = gc_proxyKey cfg then Pass (as_role [] ''admin'' r)
          else case gs_users s of
            None \<Rightarrow> panicked
          | Some users \<Rightarrow>
            (case ValidateAPIKey (rl_sha256 (ge_relay env)) key users of
               Some c \<Rightarrow> Pass ((as_role (cu_ID c) ''consumer'' r)\<lparr>hr_consumerName := cu_Name c\<rparr>)
             | None \<Rightarrow>
                 if ClassifyKey key = KeyTypeGuest then
                   (case GetGuestKeyAccessPublicPool (ge_now env) (gs_shared s) key (gs_guests s) of
                      None \<Rightarrow> request_failed
                    | Some (nodeID, accessPublicPool) \<Rightarrow>
                        let r1 = withGuestKey key r in
                        if accessPublicPool then Pass ((as_role [] ''public'' r1)\<lparr>hr_guestPool := ''true''\<rparr>)
                        else Pass ((as_role [] ''guest'' r1)\<lparr>hr_guestNode := nodeID\<rparr>))
                 else if anonymous then Pass (as_role [] ''admin'' r)
                 else request_failed))"

definition withProxyAuth :: "guard_env \<Rightarrow> guard_config \<Rightarrow> http_request \<Rightarrow> guard_state \<Rightarrow> guard_result \<times> guard_state" where
  "withProxyAuth env cfg r s =
     (if hr_internalKeyType r \<noteq> [] then (Pass r, s)
      else case signed_forward (ge_relay env) r (gs_relay s) of
        (Some r', _, n') \<Rightarrow> (Pass (if hr_role r' = ''admin'' then as_role [] ''public'' r' else r'), s\<lparr>gs_relay := n'\<rparr>)
      | (None, r', n') \<Rightarrow> (proxy_credentials env cfg r' s, s\<lparr>gs_relay := n'\<rparr>))"

definition token_valid :: "guard_env \<Rightarrow> string \<Rightarrow> guard_state \<Rightarrow> bool" where
  "token_valid env token s \<longleftrightarrow> (case VerifyToken (ge_jwt env) (ge_now env) token (gs_auth s) of Inr _ \<Rightarrow> True | Inl _ \<Rightarrow> False)"

definition withConsumerOrAdminAuth :: "guard_env \<Rightarrow> http_request \<Rightarrow> guard_state \<Rightarrow> guard_result" where
  "withConsumerOrAdminAuth env r s =
     (let token = extractToken (hr_Authorization r) (hr_cookie r) in
      if token \<noteq> [] \<and> token_valid env token s then Pass (as_role [] ''admin'' r)
      else case bearer r of
        None \<Rightarrow> Reject 401 ''not authenticated''
      | Some apiKey \<Rightarrow>
          (case gs_users s of
             None \<Rightarrow> panicked
           | Some users \<Rightarrow>
               (case ValidateAPIKey (rl_sha256 (ge_relay env)) apiKey users of
                  Some c \<Rightarrow> Pass (as_role (cu_ID c) ''consumer'' r)
                | None \<Rightarrow> Reject 401 ''not authenticated'')))"

definition localOnly :: "guard_env \<Rightarrow> http_request \<Rightarrow> guard_result" where
  "localOnly env r =
     (let addr = extractClientIP (hr_RemoteAddr r) in
      if (case ne_ParseIP (ge_net env) (hr_cfIP r) of Some a \<Rightarrow> \<not> IsLoopback a \<and> \<not> IsPrivate a | None \<Rightarrow> False)
      then Reject 403 ''this endpoint is only accessible from localhost or private network''
      else if hr_relayDispatch r \<or> \<not> isLocalOrPrivateIP (ge_net env) addr
      then Reject 403 ''this endpoint is only accessible from localhost or private network''
      else Pass r)"

definition isTrustedSeed :: "guard_config \<Rightarrow> http_request \<Rightarrow> bool" where
  "isTrustedSeed cfg r \<longleftrightarrow> hr_seedToken r \<noteq> [] \<and> gc_fedSecret cfg \<noteq> [] \<and> hr_seedToken r = gc_fedSecret cfg"

text \<open>The check of a federation signature leaves at most a megabyte of the body.\<close>

definition fed_signed :: "guard_env \<Rightarrow> http_request \<Rightarrow> bool" where
  "fed_signed env r =
     (let nodeID = sanitizeNodeID (hr_nodeID r) in
      case rl_fed (ge_relay env) of
        None \<Rightarrow> False
      | Some fed \<Rightarrow>
          if nodeID = [] then False
          else case fed_GetNode nodeID fed of
            None \<Rightarrow> False
          | Some n \<Rightarrow>
              if ni_PubKey n = [] \<or> hr_nodeSignature r = [] then False
              else case hr_nodeTimestamp r of
                None \<Rightarrow> False
              | Some ts \<Rightarrow>
                  let elapsed = ge_now env div 1000000000 - ts in
                  0 \<le> elapsed \<and> elapsed \<le> 300 \<and>
                  federationSigValid (rl_sha256 (ge_relay env)) (rl_Verify (ge_relay env)) r (ni_PubKey n) nodeID (hr_nodeSignature r))"

definition fed_body_read :: "guard_env \<Rightarrow> http_request \<Rightarrow> http_request" where
  "fed_body_read env r =
     (let nodeID = sanitizeNodeID (hr_nodeID r) in
      case rl_fed (ge_relay env) of
        None \<Rightarrow> r
      | Some fed \<Rightarrow>
          if nodeID = [] then r
          else case fed_GetNode nodeID fed of
            None \<Rightarrow> r
          | Some n \<Rightarrow>
              if ni_PubKey n = [] \<or> hr_nodeSignature r = [] then r
              else case hr_nodeTimestamp r of
                None \<Rightarrow> r
              | Some ts \<Rightarrow>
                  let elapsed = ge_now env div 1000000000 - ts in
                  if 0 \<le> elapsed \<and> elapsed \<le> 300 then r\<lparr>hr_body := take 1048576 (hr_body r)\<rparr> else r)"

definition withFederationAuth :: "guard_env \<Rightarrow> guard_config \<Rightarrow> http_request \<Rightarrow> guard_state \<Rightarrow> guard_result" where
  "withFederationAuth env cfg r s =
     (if hr_method r = ''GET'' \<and> suffix ''/federation/pool'' (hr_path r) \<and> isTrustedSeed cfg r then Pass r
      else let r1 = fed_body_read env r in
      if fed_signed env r then Pass r1
      else let token = extractToken (hr_Authorization r) (hr_cookie r) in
      if token \<noteq> [] \<and> token_valid env token s then Pass r1
      else if gc_fedSecret cfg \<noteq> [] \<and> hr_fedSecret r \<noteq> [] \<and> hr_fedSecret r = gc_fedSecret cfg then Pass r1
      else Reject 403 ''federation authentication required'')"

section \<open>The relay\<close>

definition relayAuthMiddleware :: "guard_env \<Rightarrow> guard_config \<Rightarrow> http_request \<Rightarrow> guard_state \<Rightarrow> guard_result \<times> guard_state" where
  "relayAuthMiddleware env cfg r s =
     (if prefix ''/network/__punch'' (hr_path r) then (Pass r, s)
      else if (case bearer r of
                 None \<Rightarrow> False
               | Some key \<Rightarrow>
                   ClassifyKey key = KeyTypePublic \<or> ClassifyKey key = KeyTypeGuest \<or>
                   ClassifyKey key = KeyTypeProxy \<and> gc_proxyKey cfg \<noteq> [] \<and> key = gc_proxyKey cfg \<or>
                   (case gs_users s of None \<Rightarrow> False | Some users \<Rightarrow> ValidateAPIKey (rl_sha256 (ge_relay env)) key users \<noteq> None))
      then (Pass r, s)
      else case signed_forward (ge_relay env) r (gs_relay s) of
        (Some r', _, n') \<Rightarrow> (Pass r', s\<lparr>gs_relay := n'\<rparr>)
      | (None, _, n') \<Rightarrow> (Reject 401 ''relay requires authentication'', s\<lparr>gs_relay := n'\<rparr>))"

definition isAllowedRelayPath :: "string \<Rightarrow> bool" where
  "isAllowedRelayPath restPath \<longleftrightarrow> restPath = ''/api/network/heartbeat/ping'' \<or> prefix ''/v1/'' restPath"

text \<open>
  The credential of a request to the node itself: the class of the key that the request is handled under, with the request as the
  check leaves it.
\<close>

definition relay_key :: "guard_env \<Rightarrow> guard_config \<Rightarrow> http_request \<Rightarrow> guard_state \<Rightarrow> (string \<times> http_request) option \<times> string" where
  "relay_key env cfg r s =
     (let bearerKey = trim_bearer (hr_Authorization r) in
      case ClassifyKey bearerKey of
        KeyTypePublic \<Rightarrow> (Some (''public'', r), [])
      | KeyTypeGuest \<Rightarrow>
          (case GetGuestKeyAccessPublicPool (ge_now env) (gs_shared s) bearerKey (gs_guests s) of
             None \<Rightarrow> (None, ''invalid guest key'')
           | Some (nodeID, accessPublicPool) \<Rightarrow>
               let r1 = (withGuestKey bearerKey r)\<lparr>hr_Authorization := []\<rparr> in
               if accessPublicPool then (Some (''public'', r1\<lparr>hr_guestPool := ''true''\<rparr>), [])
               else (Some (''guest'', r1\<lparr>hr_guestNode := nodeID\<rparr>), []))
      | KeyTypeProxy \<Rightarrow>
          if gc_proxyKey cfg \<noteq> [] \<and> bearerKey = gc_proxyKey cfg then (Some (''proxy'', r), [])
          else (case gs_users s of
                  None \<Rightarrow> (None, ''invalid API key'')
                | Some users \<Rightarrow>
                    (case ValidateAPIKey (rl_sha256 (ge_relay env)) bearerKey users of
                       Some c \<Rightarrow> (Some (''consumer'', r\<lparr>hr_owner := cu_ID c, hr_consumerName := cu_Name c\<rparr>), [])
                     | None \<Rightarrow> (None, ''invalid API key'')))
      | KeyTypeUnknown \<Rightarrow> (Some ([], r), []))"

text \<open>\<open>Pass\<close> is the request that is dispatched inside the process.\<close>

definition handleRelayToLocal :: "guard_env \<Rightarrow> guard_config \<Rightarrow> string list \<Rightarrow> http_request \<Rightarrow> guard_state \<Rightarrow> guard_result" where
  "handleRelayToLocal env cfg parts r s =
     (case relay_key env cfg (r\<lparr>hr_owner := [], hr_role := []\<rparr>) s of
        (None, msg) \<Rightarrow> Reject 401 msg
      | (Some (kt, r1), _) \<Rightarrow>
          let restPath = (if length parts > 1 then ''/'' @ parts ! 1 else ''/'') in
          if \<not> isAllowedRelayPath restPath then Reject 403 ''relay path not allowed''
          else Pass (r1\<lparr>hr_path := restPath, hr_relayHop := [], hr_relayFrom := [], hr_keyType := [], hr_relayDispatch := True,
                       hr_internalKeyType := (if kt \<noteq> [] then kt else hr_internalKeyType r1)\<rparr>))"

datatype relay_route = RelayAnswer nat string | RelayPunch | RelayLocal "string list" http_request | RelayAway string http_request

definition maxRelayHops :: int where "maxRelayHops = 3"

text \<open>The path behind \<open>/network/\<close>, cut at its first slash.\<close>

definition relay_parts :: "string \<Rightarrow> string list" where
  "relay_parts p =
     (let q = (if prefix ''/network/'' p then drop 9 p else p)
      in case first_index (CHR ''/'') q of None \<Rightarrow> [q] | Some i \<Rightarrow> [take i q, drop (i + 1) q])"

definition relay_hops :: "http_request \<Rightarrow> int option" where
  "relay_hops r = (if hr_relayHop r = [] then Some 0 else map_option (\<lambda>h. if h < 0 then 0 else h) (Atoi (hr_relayHop r)))"

text \<open>\<open>selfID\<close> is the identifier of the node; a route to another node is looked up outside this model.\<close>

definition handleNetworkRelay :: "guard_env \<Rightarrow> string \<Rightarrow> http_request \<Rightarrow> guard_state \<Rightarrow> relay_route" where
  "handleNetworkRelay env selfID r s =
     (if \<not> gs_shared s then RelayAnswer 404 ''shared network not active''
      else let parts = relay_parts (hr_path r); targetNodeID = hd parts in
      if targetNodeID = [] then RelayAnswer 400 ''missing node_id in path''
      else if targetNodeID = ''__punch'' then RelayPunch
      else if \<not> prefix ''mmx-'' targetNodeID then RelayAnswer 400 ''invalid node_id format''
      else case relay_hops r of
        None \<Rightarrow> RelayAnswer 400 ''invalid hop count header''
      | Some hopCount \<Rightarrow>
          if hopCount \<ge> maxRelayHops then RelayAnswer 508 ''max relay hops exceeded''
          else
            let bearerKey = trim_bearer (hr_Authorization r);
                go = (\<lambda>r. if targetNodeID = selfID then RelayLocal parts r else RelayAway targetNodeID r)
            in if ClassifyKey bearerKey = KeyTypeGuest then
                 (case GetGuestKeyAccessPublicPool (ge_now env) (gs_shared s) bearerKey (gs_guests s) of
                    None \<Rightarrow> RelayAnswer 401 ''invalid guest key''
                  | Some (guestNodeID, accessPublicPool) \<Rightarrow>
                      if guestNodeID \<noteq> [] \<and> targetNodeID \<noteq> guestNodeID then
                        if accessPublicPool then go (r\<lparr>hr_guestPool := ''true''\<rparr>)
                        else RelayAnswer 403 ''guest keys can only access the issuing node''
                      else go r)
               else go r)"

section \<open>From the outside to a handler\<close>

text \<open>A request from the network: nothing in its context yet.\<close>

definition outside :: "http_request \<Rightarrow> bool" where
  "outside r \<longleftrightarrow> hr_internalKeyType r = [] \<and> \<not> hr_relayDispatch r \<and> \<not> hr_relayVerified r \<and> hr_guestKey r = []"

text \<open>The two ways to the handlers of models: their own paths, and the path of the node in the relay.\<close>

definition serve_relay :: "guard_env \<Rightarrow> guard_config \<Rightarrow> string \<Rightarrow> http_request \<Rightarrow> guard_state \<Rightarrow> guard_result \<times> guard_state" where
  "serve_relay env cfg selfID r s =
     (case relayAuthMiddleware env cfg (stripInternalHeadersMiddleware r) s of
        (Reject st m, s1) \<Rightarrow> (Reject st m, s1)
      | (Pass r1, s1) \<Rightarrow>
          (case handleNetworkRelay env selfID r1 s1 of
             RelayLocal parts r2 \<Rightarrow>
               (case handleRelayToLocal env cfg parts r2 s1 of
                  Pass r3 \<Rightarrow> withProxyAuth env cfg (stripInternalHeadersMiddleware r3) s1
                | Reject st m \<Rightarrow> (Reject st m, s1))
           | RelayAnswer st m \<Rightarrow> (Reject st m, s1)
           | _ \<Rightarrow> (Reject 0 [], s1)))"

definition handed_on :: "guard_env \<Rightarrow> guard_config \<Rightarrow> string \<Rightarrow> http_request \<Rightarrow> guard_state \<Rightarrow> http_request \<Rightarrow> bool" where
  "handed_on env cfg selfID r s r' \<longleftrightarrow>
     fst (withProxyAuth env cfg (stripInternalHeadersMiddleware r) s) = Pass r' \<or> fst (serve_relay env cfg selfID r s) = Pass r'"

definition key_class :: "guard_env \<Rightarrow> guard_state \<Rightarrow> http_request \<Rightarrow> string" where
  "key_class env s r =
     RequestKeyType (ge_now env) (gs_shared s) (gs_guests s)
       \<lparr>kr_internal = hr_internalKeyType r, kr_role = hr_role r, kr_authorization = hr_Authorization r\<rparr>"

text \<open>The grounds for access without limits.\<close>

definition has_proxy_key :: "guard_config \<Rightarrow> http_request \<Rightarrow> bool" where
  "has_proxy_key cfg r \<longleftrightarrow> gc_proxyKey cfg \<noteq> [] \<and> trim_bearer (hr_Authorization r) = gc_proxyKey cfg"

definition anonymous_operator :: "guard_config \<Rightarrow> http_request \<Rightarrow> guard_state \<Rightarrow> bool" where
  "anonymous_operator cfg r s \<longleftrightarrow> gc_proxyKey cfg = [] \<and> \<not> HasConsumers (gs_users s) \<and> anonymousAdminAllowed cfg r"

definition valid_consumer :: "guard_env \<Rightarrow> http_request \<Rightarrow> guard_state \<Rightarrow> bool" where
  "valid_consumer env r s \<longleftrightarrow>
     (\<exists>users c. gs_users s = Some users \<and> ValidateAPIKey (rl_sha256 (ge_relay env)) (trim_bearer (hr_Authorization r)) users = Some c)"

definition signed_by_peer :: "guard_env \<Rightarrow> http_request \<Rightarrow> bool" where
  "signed_by_peer env r \<longleftrightarrow>
     (\<exists>fed sender. rl_fed (ge_relay env) = Some fed \<and> fed_GetNode (claimed_node r) fed = Some sender \<and>
        VerifyJSONSig (ge_relay env) (ni_PubKey sender) (forward_envelope (ge_relay env) (claimed_node r) r) (hr_relaySig r))"

lemma bearer_trim: "bearer r = Some key \<Longrightarrow> trim_bearer (hr_Authorization r) = key"
  by (auto simp: bearer_def trim_bearer_def split: if_splits)

lemma strip_fields [simp]:
  "hr_Authorization (stripInternalHeadersMiddleware r) = hr_Authorization r"
  "hr_role (stripInternalHeadersMiddleware r) = hr_role r" "hr_owner (stripInternalHeadersMiddleware r) = hr_owner r"
  "hr_internalKeyType (stripInternalHeadersMiddleware r) = hr_internalKeyType r"
  "hr_relayDispatch (stripInternalHeadersMiddleware r) = hr_relayDispatch r"
  "hr_relayVerified (stripInternalHeadersMiddleware r) = hr_relayVerified r"
  "hr_guestKey (stripInternalHeadersMiddleware r) = hr_guestKey r"
  "hr_RemoteAddr (stripInternalHeadersMiddleware r) = hr_RemoteAddr r" "hr_path (stripInternalHeadersMiddleware r) = hr_path r"
  "claimed_node (stripInternalHeadersMiddleware r) = claimed_node r" "hr_relaySig (stripInternalHeadersMiddleware r) = hr_relaySig r"
  "forward_envelope e i (stripInternalHeadersMiddleware r) = forward_envelope e i r"
  by (simp_all add: stripInternalHeadersMiddleware_def claimed_node_def forward_envelope_def Let_def)

lemma strip_grounds [simp]:
  "outside (stripInternalHeadersMiddleware r) = outside r" "has_proxy_key cfg (stripInternalHeadersMiddleware r) = has_proxy_key cfg r"
  "anonymous_operator cfg (stripInternalHeadersMiddleware r) s = anonymous_operator cfg r s"
  "valid_consumer env (stripInternalHeadersMiddleware r) s = valid_consumer env r s"
  "signed_by_peer env (stripInternalHeadersMiddleware r) = signed_by_peer env r"
  by (simp_all add: outside_def has_proxy_key_def anonymous_operator_def anonymousAdminAllowed_def valid_consumer_def signed_by_peer_def Let_def)

text \<open>What the signed stage does to a request.\<close>

lemma signed_forward_some:
  assumes "signed_forward env r n = (Some r', r2, n')"
  shows "r' = r\<lparr>hr_relayVerified := True\<rparr> \<and> (hr_relayVerified r \<or>
     (\<exists>fed sender. rl_fed env = Some fed \<and> fed_GetNode (claimed_node r) fed = Some sender \<and>
        VerifyJSONSig env (ni_PubKey sender) (forward_envelope env (claimed_node r) r) (hr_relaySig r)))"
proof -
  obtain st m r1 n1 where v: "verifyRelayForwardAuth env r n = ((st, m), r1, n1)" by (metis prod.exhaust)
  have c: "claimed_node r \<noteq> []" and st: "st = 0" and r': "r' = r1"
    using assms v by (auto simp: signed_forward_def split: if_splits)
  show ?thesis
  proof (cases "hr_relayVerified r")
    case True
    with v r' show ?thesis by (auto simp: verifyRelayForwardAuth_def)
  next
    case False
    with c have "is_forward r" by (simp add: is_forward_def)
    with verify_accepts [OF v] st r' show ?thesis by auto
  qed
qed

lemma verify_refused_same: "verifyRelayForwardAuth env r n = (st, r', n') \<Longrightarrow> fst st \<noteq> 0 \<Longrightarrow> r' = r"
  unfolding verifyRelayForwardAuth_def Let_def
  by (cases st) (auto split: if_splits option.splits stamp.splits prod.splits bool.splits)

lemma signed_forward_none:
  assumes "signed_forward env r n = (None, r', n')"
  shows "r' = r\<lparr>hr_body := hr_body r'\<rparr>"
proof -
  obtain st m r1 n1 where v: "verifyRelayForwardAuth env r n = ((st, m), r1, n1)" by (metis prod.exhaust)
  show ?thesis
  proof (cases "st = 0")
    case True
    with assms v show ?thesis by (auto simp: signed_forward_def split: if_splits)
  next
    case False
    with verify_refused_same [OF v] have "r1 = r" by simp
    with False assms v show ?thesis by (auto simp: signed_forward_def split: if_splits)
  qed
qed

text \<open>The class with access without limits, and what gives it when the request passes the guard itself.\<close>

definition unlimited :: "guard_env \<Rightarrow> guard_state \<Rightarrow> http_request \<Rightarrow> bool" where
  "unlimited env s r \<longleftrightarrow> key_class env s r = ''admin'' \<or> key_class env s r = ''proxy''"

lemma unlimited_plain:
  assumes "hr_internalKeyType r = []"
  shows "unlimited env s r \<longleftrightarrow> hr_role r = ''admin'' \<or> ClassifyKey (trim_bearer (hr_Authorization r)) = KeyTypeProxy"
  unfolding unlimited_def key_class_def RequestKeyType_def Let_def
  by (simp add: assms split: KeyType.split option.split prod.split bool.split)

lemma unlimited_internal: "hr_internalKeyType r \<noteq> [] \<Longrightarrow> unlimited env s r \<longleftrightarrow> hr_internalKeyType r = ''admin'' \<or> hr_internalKeyType r = ''proxy''"
  unfolding unlimited_def key_class_def RequestKeyType_def by simp

lemma as_role_simps [simp]:
  "hr_Authorization (as_role ow ro r) = hr_Authorization r" "hr_role (as_role ow ro r) = ro" "hr_owner (as_role ow ro r) = ow"
  "hr_internalKeyType (as_role ow ro r) = hr_internalKeyType r"
  by (simp_all add: as_role_def)

lemma guest_key_simps [simp]:
  "hr_Authorization (withGuestKey k r) = hr_Authorization r" "hr_internalKeyType (withGuestKey k r) = hr_internalKeyType r"
  "hr_role (withGuestKey k r) = hr_role r" "hr_relayDispatch (withGuestKey k r) = hr_relayDispatch r"
  by (simp_all add: withGuestKey_def)

text \<open>The public key and guest keys are not of the class of proxy keys.\<close>

lemma credentials_pass:
  assumes "proxy_credentials env cfg r s = Pass r'"
  shows "hr_Authorization r' = hr_Authorization r \<and> hr_internalKeyType r' = hr_internalKeyType r \<and>
     (has_proxy_key cfg r \<or> anonymous_operator cfg r s \<or>
      hr_role r' \<noteq> ''admin'' \<and> (ClassifyKey (trim_bearer (hr_Authorization r)) = KeyTypeProxy \<longrightarrow> valid_consumer env r s))"
proof (cases "bearer r")
  case None
  with assms show ?thesis
    by (auto simp: proxy_credentials_def Let_def anonymous_operator_def key_required_def split: if_splits)
next
  case (Some key)
  have k: "trim_bearer (hr_Authorization r) = key" using bearer_trim [OF Some] .
  have pub: "ClassifyKey PublicKeyValue = KeyTypePublic" by (simp add: ClassifyKey_def)
  show ?thesis
  proof (cases "key = PublicKeyValue")
    case True
    with assms Some k pub show ?thesis by (auto simp: proxy_credentials_def Let_def)
  next
    case np: False
    show ?thesis
    proof (cases "has_proxy_key cfg r")
      case True
      with assms Some np k show ?thesis by (auto simp: proxy_credentials_def Let_def has_proxy_key_def)
    next
      case False
      with np Some k assms obtain users where u: "gs_users s = Some users"
        by (auto simp: proxy_credentials_def Let_def has_proxy_key_def panicked_def split: option.splits)
      show ?thesis
      proof (cases "ValidateAPIKey (rl_sha256 (ge_relay env)) key users")
        case (Some c)
        then have "valid_consumer env r s" using u k by (simp add: valid_consumer_def)
        with assms \<open>bearer r = _\<close> np False u k Some show ?thesis by (auto simp: proxy_credentials_def Let_def has_proxy_key_def)
      next
        case None
        with assms \<open>bearer r = _\<close> np False u k show ?thesis
          by (auto simp: proxy_credentials_def Let_def has_proxy_key_def request_failed_def anonymous_operator_def split: if_splits option.splits)
      qed
    qed
  qed
qed

lemma body_grounds:
  assumes "r' = r\<lparr>hr_body := b\<rparr>"
  shows "has_proxy_key cfg r' = has_proxy_key cfg r" "anonymous_operator cfg r' s = anonymous_operator cfg r s"
    "valid_consumer env r' s = valid_consumer env r s" "hr_Authorization r' = hr_Authorization r" "hr_internalKeyType r' = hr_internalKeyType r"
    "hr_relayDispatch r' = hr_relayDispatch r"
  by (simp_all add: assms has_proxy_key_def anonymous_operator_def anonymousAdminAllowed_def valid_consumer_def)

text \<open>What passes the guard with access without limits, when the process has set no class.\<close>

lemma proxy_auth_unlimited:
  assumes "fst (withProxyAuth env cfg r s) = Pass r'" and "hr_internalKeyType r = []" and "unlimited env s' r'"
  shows "has_proxy_key cfg r \<or> anonymous_operator cfg r s \<or>
     ClassifyKey (trim_bearer (hr_Authorization r)) = KeyTypeProxy \<and> (valid_consumer env r s \<or> hr_relayVerified r \<or> signed_by_peer env r)"
proof -
  obtain ro r1 n1 where sf: "signed_forward (ge_relay env) r (gs_relay s) = (ro, r1, n1)" by (metis prod.exhaust)
  show ?thesis
  proof (cases ro)
    case (Some r2)
    note f = signed_forward_some [OF sf [unfolded Some]]
    have r': "r' = (if hr_role r2 = ''admin'' then as_role [] ''public'' r2 else r2)"
      using assms(1,2) sf Some by (simp add: withProxyAuth_def)
    then have "hr_role r' \<noteq> ''admin''" "hr_internalKeyType r' = []" "hr_Authorization r' = hr_Authorization r"
      using f assms(2) by auto
    with assms(3) unlimited_plain [of r'] f show ?thesis by (auto simp: signed_by_peer_def)
  next
    case None
    note b = body_grounds [OF signed_forward_none [OF sf [unfolded None]]]
    have p: "proxy_credentials env cfg r1 s = Pass r'" using assms(1,2) sf None by (simp add: withProxyAuth_def)
    from credentials_pass [OF p] b assms(2) have "hr_internalKeyType r' = []" "hr_Authorization r' = hr_Authorization r" by simp_all
    with assms(3) unlimited_plain [of r'] credentials_pass [OF p] b show ?thesis by auto
  qed
qed

lemma relay_key_pass:
  assumes "relay_key env cfg r s = (Some (kt, r1), m)"
  shows "hr_role r1 = hr_role r \<and> hr_internalKeyType r1 = hr_internalKeyType r \<and>
     (kt = ''proxy'' \<and> has_proxy_key cfg r \<or> kt = ''public'' \<or> kt = ''guest'' \<or> kt = ''consumer'' \<or>
      kt = [] \<and> ClassifyKey (trim_bearer (hr_Authorization r)) = KeyTypeUnknown \<and> r1 = r)"
  using assms unfolding relay_key_def Let_def has_proxy_key_def
  by (auto split: KeyType.splits option.splits if_splits prod.splits)

lemma relay_local_unlimited:
  assumes "handleRelayToLocal env cfg parts r s = Pass r3" and "hr_internalKeyType r = []"
    and "fst (withProxyAuth env cfg (stripInternalHeadersMiddleware r3) s) = Pass r'" and "unlimited env s' r'"
  shows "has_proxy_key cfg r"
proof -
  let ?r0 = "r\<lparr>hr_owner := [], hr_role := []\<rparr>"
  obtain kt r1 m where k: "relay_key env cfg ?r0 s = (Some (kt, r1), m)"
    using assms(1) by (auto simp: handleRelayToLocal_def split: prod.splits option.splits)
  from relay_key_pass [OF k] assms(2) have f: "hr_role r1 = []" "hr_internalKeyType r1 = []"
    "kt = ''proxy'' \<and> has_proxy_key cfg ?r0 \<or> kt = ''public'' \<or> kt = ''guest'' \<or> kt = ''consumer'' \<or>
      kt = [] \<and> ClassifyKey (trim_bearer (hr_Authorization ?r0)) = KeyTypeUnknown \<and> r1 = ?r0" by simp_all
  have hp: "has_proxy_key cfg ?r0 = has_proxy_key cfg r" by (simp add: has_proxy_key_def)
  obtain rest where r3: "r3 = r1\<lparr>hr_path := rest, hr_relayHop := [], hr_relayFrom := [], hr_keyType := [], hr_relayDispatch := True,
      hr_internalKeyType := (if kt \<noteq> [] then kt else hr_internalKeyType r1)\<rparr>"
    using assms(1) k by (auto simp: handleRelayToLocal_def Let_def split: if_splits)
  show ?thesis
  proof (cases "kt = []")
    case False
    then have i: "hr_internalKeyType r3 = kt" by (simp add: r3)
    then have "r' = stripInternalHeadersMiddleware r3" using assms(3) False by (simp add: withProxyAuth_def)
    then have "hr_internalKeyType r' = kt" using i by simp
    then show ?thesis using False assms(4) unlimited_internal [of r'] f(3) hp by auto
  next
    case True
    with f have u: "ClassifyKey (trim_bearer (hr_Authorization r)) = KeyTypeUnknown" and r1: "r1 = ?r0" by auto
    have i: "hr_internalKeyType (stripInternalHeadersMiddleware r3) = []" using True f by (simp add: r3)
    have a: "hr_Authorization r3 = hr_Authorization r" "hr_relayDispatch r3" by (simp_all add: r3 r1)
    have "\<not> anonymous_operator cfg r3 s" using a(2) by (simp add: anonymous_operator_def anonymousAdminAllowed_def)
    with proxy_auth_unlimited [OF assms(3) i assms(4)] u a(1) show ?thesis by (simp add: has_proxy_key_def)
  qed
qed

text \<open>
  (C11) Access without limits has grounds. A request from outside that reaches the handlers of models with the class of the administrator or of the
  proxy key, directly or through the relay, carries the proxy key; or there is neither a proxy key nor a consumer, and it came directly
  from an address on the list; or it came directly with a key that starts like a proxy key, and is that of an enabled consumer or
  comes with the signature of a known node over the request. The headers for role and class that a client sends give nothing.
\<close>

theorem unlimited_access_grounds:
  assumes "outside r" and "handed_on env cfg selfID r s r'" and "unlimited env s' r'"
  shows "has_proxy_key cfg r \<or> anonymous_operator cfg r s \<or>
     ClassifyKey (trim_bearer (hr_Authorization r)) = KeyTypeProxy \<and> (valid_consumer env r s \<or> signed_by_peer env r)"
proof -
  have i: "hr_internalKeyType r = []" "\<not> hr_relayVerified r" using assms(1) by (simp_all add: outside_def)
  from assms(2) consider (direct) "fst (withProxyAuth env cfg (stripInternalHeadersMiddleware r) s) = Pass r'"
    | (relay) "fst (serve_relay env cfg selfID r s) = Pass r'" unfolding handed_on_def by blast
  then show ?thesis
  proof cases
    case direct
    then show ?thesis using proxy_auth_unlimited [OF direct _ assms(3)] i by simp
  next
    case relay
    let ?r = "stripInternalHeadersMiddleware r"
    from relay obtain r1 s1 parts r2 r3 where a: "relayAuthMiddleware env cfg ?r s = (Pass r1, s1)" "handleNetworkRelay env selfID r1 s1 = RelayLocal parts r2"
      "handleRelayToLocal env cfg parts r2 s1 = Pass r3" "fst (withProxyAuth env cfg (stripInternalHeadersMiddleware r3) s1) = Pass r'"
      by (auto simp: serve_relay_def split: prod.splits guard_result.splits relay_route.splits)
    have r1: "hr_internalKeyType r1 = [] \<and> hr_Authorization r1 = hr_Authorization r"
      using a(1) i(1) by (auto simp: relayAuthMiddleware_def split: if_splits prod.splits option.splits dest!: signed_forward_some)
    have r2: "hr_internalKeyType r2 = hr_internalKeyType r1 \<and> hr_Authorization r2 = hr_Authorization r1"
      using a(2) unfolding handleNetworkRelay_def Let_def by (auto split: if_splits option.splits prod.splits)
    from relay_local_unlimited [OF a(3) _ a(4) assms(3)] r1 r2 have "has_proxy_key cfg r2" by simp
    with r1 r2 show ?thesis by (simp add: has_proxy_key_def)
  qed
qed

section \<open>What other requests reach\<close>

text \<open>A guest key that the node issued and that is live, and whether it opens the public pool.\<close>

definition valid_guest :: "guard_env \<Rightarrow> http_request \<Rightarrow> guard_state \<Rightarrow> bool \<Rightarrow> bool" where
  "valid_guest env r s pooled \<longleftrightarrow>
     (\<exists>n. GetGuestKeyAccessPublicPool (ge_now env) (gs_shared s) (trim_bearer (hr_Authorization r)) (gs_guests s) = Some (n, pooled))"

definition public_credential :: "guard_env \<Rightarrow> http_request \<Rightarrow> guard_state \<Rightarrow> bool" where
  "public_credential env r s \<longleftrightarrow> trim_bearer (hr_Authorization r) = PublicKeyValue \<or> valid_guest env r s True"

definition privileged :: "guard_env \<Rightarrow> guard_config \<Rightarrow> http_request \<Rightarrow> guard_state \<Rightarrow> bool" where
  "privileged env cfg r s \<longleftrightarrow> has_proxy_key cfg r \<or> anonymous_operator cfg r s \<or> valid_consumer env r s"

text \<open>The class of a request that passes the guard with none of the privileges and no class set by the process.\<close>

lemma credentials_class:
  assumes "proxy_credentials env cfg r s = Pass r'" and "\<not> privileged env cfg r s" and "hr_internalKeyType r = []"
  shows "public_credential env r s \<and> key_class env s r' = ''public'' \<or> valid_guest env r s False \<and> key_class env s r' = ''guest''"
proof (cases "bearer r")
  case None
  with assms(1,2) show ?thesis
    by (auto simp: proxy_credentials_def Let_def privileged_def anonymous_operator_def key_required_def split: if_splits)
next
  case (Some key)
  have k: "trim_bearer (hr_Authorization r) = key" using bearer_trim [OF Some] .
  have pub: "ClassifyKey PublicKeyValue = KeyTypePublic" by (simp add: ClassifyKey_def)
  show ?thesis
  proof (cases "key = PublicKeyValue")
    case True
    then have r': "r' = as_role [] ''public'' r" using assms(1) Some by (simp add: proxy_credentials_def Let_def)
    have "key_class env s r' = ''public''" using True k pub assms(3) by (simp add: r' key_class_def RequestKeyType_def Let_def)
    with True k show ?thesis by (simp add: public_credential_def)
  next
    case np: False
    have nh: "\<not> (gc_proxyKey cfg \<noteq> [] \<and> key = gc_proxyKey cfg)" using assms(2) k by (auto simp: privileged_def has_proxy_key_def)
    from np nh Some assms(1) obtain users where u: "gs_users s = Some users"
      by (auto simp: proxy_credentials_def Let_def panicked_def split: option.splits)
    have nv: "ValidateAPIKey (rl_sha256 (ge_relay env)) key users = None"
      using assms(2) u k by (auto simp: privileged_def valid_consumer_def)
    have na: "\<not> (gc_proxyKey cfg = [] \<and> \<not> HasConsumers (gs_users s) \<and> anonymousAdminAllowed cfg r)"
      using assms(2) by (auto simp: privileged_def anonymous_operator_def)
    from assms(1) Some np nh u nv na obtain n p where g: "ClassifyKey key = KeyTypeGuest"
        "GetGuestKeyAccessPublicPool (ge_now env) (gs_shared s) key (gs_guests s) = Some (n, p)"
      by (auto simp: proxy_credentials_def Let_def request_failed_def split: if_splits option.splits)
    have "hr_role r' \<noteq> ''admin''" "hr_internalKeyType r' = []" "hr_Authorization r' = hr_Authorization r"
      using assms(1,3) Some np nh u nv g by (cases p; auto simp: proxy_credentials_def Let_def)+
    then have c: "key_class env s r' = (if p then ''public'' else ''guest'')"
      using k g by (simp add: key_class_def RequestKeyType_def Let_def)
    show ?thesis using c g k by (cases p) (auto simp: public_credential_def valid_guest_def)
  qed
qed

lemma key_class_unknown:
  assumes "hr_internalKeyType r = []" and "hr_role r \<noteq> ''admin''" and "ClassifyKey (trim_bearer (hr_Authorization r)) = KeyTypeUnknown"
  shows "key_class env s r = ''unknown''"
  using assms by (simp add: key_class_def RequestKeyType_def Let_def)

lemma privileged_cong:
  assumes "hr_Authorization r' = hr_Authorization r" and "hr_relayDispatch r' = hr_relayDispatch r" and "hr_RemoteAddr r' = hr_RemoteAddr r"
    and "gs_users s' = gs_users s"
  shows "privileged env cfg r' s' = privileged env cfg r s"
  using assms by (simp add: privileged_def has_proxy_key_def anonymous_operator_def anonymousAdminAllowed_def valid_consumer_def)

lemma relay_key_class:
  assumes "relay_key env cfg r s = (Some (kt, r1), m)" and "\<not> has_proxy_key cfg r" and "\<not> valid_consumer env r s"
  shows "kt = ''public'' \<and> public_credential env r s \<or> kt = ''guest'' \<and> valid_guest env r s False \<or>
    kt = [] \<and> ClassifyKey (trim_bearer (hr_Authorization r)) = KeyTypeUnknown \<and> r1 = r"
proof -
  have "ClassifyKey k = KeyTypePublic \<Longrightarrow> k = PublicKeyValue" for k by (auto simp: ClassifyKey_def split: if_splits)
  with assms show ?thesis
    unfolding relay_key_def Let_def has_proxy_key_def valid_consumer_def public_credential_def valid_guest_def
    by (auto split: KeyType.splits option.splits if_splits prod.splits)
qed

text \<open>The classes of the two ways to the handlers.\<close>

lemma relay_local_class:
  assumes "handleRelayToLocal env cfg parts r s = Pass r3" and "hr_internalKeyType r = []" and "\<not> has_proxy_key cfg r" and "\<not> valid_consumer env r s"
    and "fst (withProxyAuth env cfg (stripInternalHeadersMiddleware r3) s) = Pass r'"
  shows "public_credential env r s \<and> key_class env s' r' = ''public'' \<or> valid_guest env r s False \<and> key_class env s' r' = ''guest'' \<or>
    key_class env s' r' = ''unknown''"
proof -
  let ?r0 = "r\<lparr>hr_owner := [], hr_role := []\<rparr>"
  obtain kt r1 m where k: "relay_key env cfg ?r0 s = (Some (kt, r1), m)"
    using assms(1) by (auto simp: handleRelayToLocal_def split: prod.splits option.splits)
  have g0: "has_proxy_key cfg ?r0 = has_proxy_key cfg r" "valid_consumer env ?r0 s = valid_consumer env r s"
    "public_credential env ?r0 s = public_credential env r s" "valid_guest env ?r0 s b = valid_guest env r s b" for b
    by (simp_all add: has_proxy_key_def valid_consumer_def public_credential_def valid_guest_def)
  from relay_key_class [OF k] assms(3,4) g0
  have f: "kt = ''public'' \<and> public_credential env r s \<or> kt = ''guest'' \<and> valid_guest env r s False \<or>
      kt = [] \<and> ClassifyKey (trim_bearer (hr_Authorization r)) = KeyTypeUnknown \<and> r1 = ?r0" by simp
  have i1: "hr_internalKeyType r1 = []" using relay_key_pass [OF k] assms(2) by simp
  obtain rest where r3: "r3 = r1\<lparr>hr_path := rest, hr_relayHop := [], hr_relayFrom := [], hr_keyType := [], hr_relayDispatch := True,
      hr_internalKeyType := (if kt \<noteq> [] then kt else hr_internalKeyType r1)\<rparr>"
    using assms(1) k by (auto simp: handleRelayToLocal_def Let_def split: if_splits)
  let ?q = "stripInternalHeadersMiddleware r3"
  show ?thesis
  proof (cases "kt = []")
    case False
    then have "hr_internalKeyType ?q = kt" by (simp add: r3)
    with assms(5) False have "r' = ?q" "hr_internalKeyType r' = kt" by (auto simp: withProxyAuth_def)
    then have "key_class env s' r' = kt" using False by (simp add: key_class_def RequestKeyType_def)
    with f False show ?thesis by auto
  next
    case True
    with f have u: "ClassifyKey (trim_bearer (hr_Authorization r)) = KeyTypeUnknown" and r1: "r1 = ?r0" by auto
    have q: "hr_internalKeyType ?q = []" "hr_Authorization ?q = hr_Authorization r" "hr_relayDispatch ?q" using True i1 by (simp_all add: r3 r1)
    obtain ro r2 n2 where sf: "signed_forward (ge_relay env) ?q (gs_relay s) = (ro, r2, n2)" by (metis prod.exhaust)
    have "hr_internalKeyType r' = [] \<and> hr_Authorization r' = hr_Authorization r \<and> hr_role r' \<noteq> ''admin''"
    proof (cases ro)
      case (Some r4)
      have "r' = (if hr_role r4 = ''admin'' then as_role [] ''public'' r4 else r4)" using assms(5) sf Some q(1) by (simp add: withProxyAuth_def)
      with signed_forward_some [OF sf [unfolded Some]] q show ?thesis by auto
    next
      case None
      note b = body_grounds [OF signed_forward_none [OF sf [unfolded None]]]
      have p: "proxy_credentials env cfg r2 s = Pass r'" using assms(5) q(1) sf None by (simp add: withProxyAuth_def)
      have "\<not> has_proxy_key cfg r2" "\<not> anonymous_operator cfg r2 s"
        using b q assms(3) by (simp_all add: has_proxy_key_def anonymous_operator_def anonymousAdminAllowed_def)
      with credentials_pass [OF p] b q show ?thesis by auto
    qed
    then show ?thesis using key_class_unknown u by simp
  qed
qed


text \<open>Without a signature, the role and owner headers of the client have no influence at all.\<close>

lemma client_role_ignored:
  assumes "hr_internalKeyType r = []" and "hr_relaySig r = []"
  shows "withProxyAuth env cfg (as_role ow ro r) s = withProxyAuth env cfg r s"
proof -
  have f: "signed_forward (ge_relay env) r n = (None, r, n)" "signed_forward (ge_relay env) (as_role ow ro r) n = (None, as_role ow ro r, n)" for n
    using assms(2) by (simp_all add: signed_forward_def as_role_def)
  have a: "anonymousAdminAllowed cfg (as_role ow ro r) = anonymousAdminAllowed cfg r" "bearer (as_role ow ro r) = bearer r"
    "as_role o2 r2 (as_role ow ro r) = as_role o2 r2 r" "as_role o2 r2 (withGuestKey k (as_role ow ro r)) = as_role o2 r2 (withGuestKey k r)" for o2 r2 k
    by (simp_all add: anonymousAdminAllowed_def bearer_def as_role_def withGuestKey_def)
  have "proxy_credentials env cfg (as_role ow ro r) s = proxy_credentials env cfg r s"
    unfolding proxy_credentials_def Let_def a by (simp split: option.splits)
  with assms(1) show ?thesis by (simp add: withProxyAuth_def f)
qed

text \<open>A star in the list of addresses lets nobody in as the administrator.\<close>

lemma star_denies: "isAllowedAnonymousIP addr ''*'' = False"
  by (simp add: isAllowedAnonymousIP_def trim_space_def is_space_def)

section \<open>The other guards\<close>

text \<open>
  The pages for the local network stay there. A request passes the guard of these endpoints exactly if it was not dispatched by
  the relay, its socket has an address that counts as local, and no proxy reports a public client address; then the socket's
  address is in the internal ranges.
\<close>

theorem local_only_passes:
  "localOnly env r = Pass r' \<longleftrightarrow>
     r' = r \<and> \<not> hr_relayDispatch r \<and>
     (\<exists>x. ne_ParseIP (ge_net env) (extractClientIP (hr_RemoteAddr r)) = Some x \<and> internal_ip x) \<and>
     isLocalOrPrivateIP (ge_net env) (extractClientIP (hr_RemoteAddr r)) \<and>
     (case ne_ParseIP (ge_net env) (hr_cfIP r) of None \<Rightarrow> True | Some a \<Rightarrow> IsLoopback a \<or> IsPrivate a)"
  unfolding localOnly_def Let_def
  using local_is_internal [of "ge_net env" "extractClientIP (hr_RemoteAddr r)"]
  by (auto split: option.splits)

text \<open>
  Credentials cross origins only for listed origins. The answer allows credentials exactly for an origin that is one of the listed texts;
  a star is only given for changes of providers, and never together with credentials.
\<close>

theorem cors_credentials:
  assumes "c = corsMiddleware cfg origin r"
  shows "(co_credentials c \<longrightarrow> co_allowOrigin c = Some origin \<and> origin \<noteq> [] \<and>
           (gc_corsOrigins cfg \<noteq> [] \<longrightarrow> origin \<in> trim_space ` set (split_commas (gc_corsOrigins cfg)))) \<and>
         (co_allowOrigin c = Some ''*'' \<and> origin \<noteq> ''*'' \<longrightarrow> \<not> co_credentials c \<and> prefix ''/api/providers/'' (hr_path r))"
  unfolding assms corsMiddleware_def Let_def
  by (auto simp: isOriginAllowed_def list_ex_iff Let_def split: if_splits)

section \<open>What the code gets wrong\<close>

text \<open>
  The signature of a federation request covers no time. A request that was accepted once is accepted at any later time, if only its
  unsigned timestamp is replaced.
\<close>

lemma federation_signature_never_expires:
  assumes "fed_signed env r"
  shows "fed_signed (env\<lparr>ge_relay := (ge_relay env)\<lparr>rl_now := t\<rparr>\<rparr>) (r\<lparr>hr_nodeTimestamp := Some (t div 1000000000)\<rparr>)"
  using assms unfolding fed_signed_def Let_def federationSigValid_def fed_payload_def fed_legacy_def ge_now_def
  by (auto split: option.splits if_splits)

text \<open>
  The key of a consumer starts like a proxy key, and is taken for one when the request comes directly: the consumer reaches every provider,
  private ones included. Through the relay the same key is of the class \<open>consumer\<close>, which no provider but one admits.
\<close>

lemma consumer_reaches_everything:
  assumes "hr_internalKeyType r = []" and "hr_relaySig r = []" and "bearer r = Some key" and "ClassifyKey key = KeyTypeProxy"
    and "key \<noteq> gc_proxyKey cfg" and "gs_users s = Some users" and "ValidateAPIKey (rl_sha256 (ge_relay env)) key users = Some c"
  shows "\<exists>r'. withProxyAuth env cfg r s = (Pass r', s) \<and> hr_role r' = ''consumer'' \<and> key_class env s r' = ''proxy'' \<and>
    FilterByAccessControl shared cands (key_class env s r') = cands"
proof -
  have k: "trim_bearer (hr_Authorization r) = key" using bearer_trim [OF assms(3)] .
  have np: "key \<noteq> PublicKeyValue" using assms(4) by (auto simp: ClassifyKey_def)
  let ?r' = "(as_role (cu_ID c) ''consumer'' r)\<lparr>hr_consumerName := cu_Name c\<rparr>"
  have "withProxyAuth env cfg r s = (Pass ?r', s)"
    using assms np by (simp add: withProxyAuth_def signed_forward_def proxy_credentials_def Let_def)
  moreover have "key_class env s ?r' = ''proxy''"
    using assms(1,4) k by (simp add: key_class_def RequestKeyType_def Let_def)
  ultimately show ?thesis by (simp add: FilterByAccessControl_def)
qed

lemma consumer_through_relay:
  assumes "ClassifyKey (trim_bearer (hr_Authorization r)) = KeyTypeProxy" and "trim_bearer (hr_Authorization r) \<noteq> gc_proxyKey cfg"
    and "handleRelayToLocal env cfg parts r s = Pass r3"
  shows "key_class env s r3 = ''consumer'' \<and> (\<forall>c\<in>set (FilterByAccessControl True cands (key_class env s r3)). pr_ID (ca_Provider c) = ''sider'')"
proof -
  from assms have "hr_internalKeyType r3 = ''consumer''"
    by (auto simp: handleRelayToLocal_def relay_key_def Let_def split: option.splits if_splits)
  then have "key_class env s r3 = ''consumer''" by (simp add: key_class_def RequestKeyType_def)
  then show ?thesis by (auto simp: FilterByAccessControl_def split: if_splits)
qed

text \<open>A known node gets access without limits by adding any key that starts like a proxy key to a forward: the header is not part of what it signs.\<close>

lemma peer_reaches_everything:
  assumes "hr_internalKeyType r = []" and "hr_relaySig r \<noteq> []" and "length (hr_body r) \<le> maxGatewayBodySize" and "is_forward r"
    and "fst (fst (verifyRelayForwardAuth (ge_relay env) r (gs_relay s))) = 0" and "hr_Authorization r = ''Bearer sk-x''"
  shows "\<exists>r'. fst (withProxyAuth env cfg r s) = Pass r' \<and> key_class env s r' = ''proxy''"
proof -
  obtain st r1 n1 where v: "verifyRelayForwardAuth (ge_relay env) r (gs_relay s) = (st, r1, n1)" by (metis prod_cases3)
  with assms(5) verify_accepts [OF v _ assms(4)] have r1: "r1 = r\<lparr>hr_relayVerified := True\<rparr>" by auto
  let ?r' = "if hr_role r1 = ''admin'' then as_role [] ''public'' r1 else r1"
  have c: "claimed_node r \<noteq> []" using assms(4) by (simp add: is_forward_def)
  have "fst (withProxyAuth env cfg r s) = Pass ?r'"
    using assms(1,2,3,5) v c by (cases st) (simp add: withProxyAuth_def signed_forward_def)
  moreover have "key_class env s ?r' = ''proxy''"
    using assms(1,6) by (simp add: key_class_def RequestKeyType_def Let_def r1 trim_bearer_def ClassifyKey_def PublicKeyValue_def)
  ultimately show ?thesis by blast
qed

section \<open>A sample request\<close>

definition sample_guard_env :: guard_env where
  "sample_guard_env = \<lparr>ge_relay = (sample_relay_env 0)\<lparr>rl_sha256 := sample_sha\<rparr>, ge_jwt = sample_jwt,
     ge_net = \<lparr>ne_ParseIP = (\<lambda>s. None), ne_LookupHost = (\<lambda>s. None), ne_LookupIP = (\<lambda>s. None), ne_urlParse = (\<lambda>s. None)\<rparr>\<rparr>"

definition sample_guard_config :: guard_config where
  "sample_guard_config = \<lparr>gc_proxyKey = ''sk-op'', gc_anonymousIPs = [], gc_fedSecret = [], gc_corsOrigins = [], gc_tunnelURL = []\<rparr>"

definition sample_guard_state :: guard_state where
  "sample_guard_state = \<lparr>gs_users = Some one_consumer, gs_auth = after_setup, gs_guests = None, gs_shared = True, gs_relay = sample_cache\<rparr>"

definition consumer_request :: http_request where
  "consumer_request = sample_forward\<lparr>hr_Authorization := ''Bearer sk-k'', hr_role := ''admin'', hr_nodeID := [], hr_nodeAuth := [], hr_relaySig := []\<rparr>"

lemma sample_key_valid: "\<exists>c. ValidateAPIKey sample_sha ''sk-k'' one_consumer = Some c"
proof -
  have "gget (mu_apiKeyMap one_consumer) (hashAPIKey sample_sha ''sk-k'') = Some ''consumer-1''"
    by (simp add: one_consumer_def initMultiUser_def CreateInviteCode_def CreateConsumer_def Let_def fully_used_def single_used_def gput_def
        sample_user_env_def new_consumer_def new_id_def new_key_def)
  then show ?thesis by (simp add: ValidateAPIKey_def one_consumer_tables)
qed

theorem unlimited_access_grounds_witness:
  "(\<exists>r'. handed_on sample_guard_env sample_guard_config ''mmx-1'' consumer_request sample_guard_state r' \<and> unlimited sample_guard_env sample_guard_state r') \<and>
   valid_consumer sample_guard_env consumer_request sample_guard_state"
proof -
  obtain c where c: "ValidateAPIKey sample_sha ''sk-k'' one_consumer = Some c" using sample_key_valid by blast
  let ?r = "stripInternalHeadersMiddleware consumer_request"
  have f: "hr_internalKeyType consumer_request = []" "hr_relaySig consumer_request = []" "hr_Authorization consumer_request = ''Bearer sk-k''"
    "outside consumer_request" "claimed_node consumer_request = []"
    by (simp_all add: consumer_request_def sample_forward_def outside_def claimed_node_def sanitizeNodeID_def Let_def)
  have k: "ClassifyKey ''sk-k'' = KeyTypeProxy" by (simp add: ClassifyKey_def PublicKeyValue_def)
  obtain r' where r': "withProxyAuth sample_guard_env sample_guard_config ?r sample_guard_state = (Pass r', sample_guard_state)"
      "key_class sample_guard_env sample_guard_state r' = ''proxy''"
    using consumer_reaches_everything [of ?r "''sk-k''" sample_guard_config sample_guard_state one_consumer sample_guard_env c True "[]"] f k c
    by (auto simp: bearer_def sample_guard_config_def sample_guard_state_def sample_guard_env_def)
  have h: "handed_on sample_guard_env sample_guard_config ''mmx-1'' consumer_request sample_guard_state r'"
    using r'(1) by (simp add: handed_on_def)
  have u: "unlimited sample_guard_env sample_guard_state r'" using r'(2) by (simp add: unlimited_def)
  have "\<not> has_proxy_key sample_guard_config consumer_request" "\<not> anonymous_operator sample_guard_config consumer_request sample_guard_state"
    "\<not> signed_by_peer sample_guard_env consumer_request"
    using f by (simp_all add: has_proxy_key_def anonymous_operator_def signed_by_peer_def sample_guard_config_def trim_bearer_def
        sample_guard_env_def sample_relay_env_def fed_GetNode_def)
  with unlimited_access_grounds [OF f(4) h u] h u show ?thesis by blast
qed

definition visitor_request :: http_request where
  "visitor_request = consumer_request\<lparr>hr_Authorization := ''Bearer '' @ PublicKeyValue\<rparr>"


theorem cors_credentials_witness: "co_credentials (corsMiddleware sample_guard_config ''http://evil'' consumer_request) = False"
proof -
  let ?c = "corsMiddleware sample_guard_config ''http://evil'' consumer_request"
  have "co_allowOrigin ?c \<noteq> Some ''http://evil''"
    by (simp add: corsMiddleware_def Let_def sample_guard_config_def isOriginAllowed_def trim_space_def is_space_def)
  with cors_credentials [OF refl, of sample_guard_config "''http://evil''" consumer_request] show ?thesis by blast
qed

end
