(* ===== verification/Spec2Isabelle.thy ===== *)
theory Spec2Isabelle
  imports Contribution_Quota Rate_Limiter Governance Public_Key_Quota Quota_Priority Kademlia Provider_Routing DHT_Wire Ledger_Replication Ticket_Store Reputation Algorithm_Governance Data_Integrity Open_Key_Quota Admin_Sessions Invites Node_Weights Users Access_Control
begin

text \<open>
  A verification library for OpenModelPool (Go, \<open>src/\<close>), a gateway that offers the models of several AI providers behind one
  API and lets nodes share unused capacity with each other.

  \<^bold>\<open>The program.\<close> A request comes in through the guards of \<open>middleware.go\<close>, directly or forwarded by another node
  (\<open>network_relay.go\<close>). The guards classify its key (operator, consumer, guest, public) and check rate limits and quotas. Routing
  (\<open>provider.go\<close>) selects a provider and one of its API keys. What a node gives to others is recorded in a signed,
  hash-chained ledger (\<open>contribution_ledger.go\<close>) that accrues an entitlement the node may draw on, is stored, and is replicated to
  other nodes. Nodes find each other over a Kademlia table and signed datagrams (\<open>dht_*.go\<close>), rate each other
  (\<open>reputation.go\<close>) and vote on rules (\<open>governance.go\<close>, \<open>algorithm_governance.go\<close>). Administrators, collaborators and consumers have
  accounts of their own (\<open>auth.go\<close>, \<open>multiuser.go\<close>, \<open>invite.go\<close>).

  \<^bold>\<open>Shared theories.\<close> \<open>Omp_Prelude\<close>: 64-bit arithmetic, Go maps, sorting, and the locales \<open>finite_map\<close>, \<open>quota_source\<close> (an
  operation that checks and deducts) and \<open>hash_chain\<close> (a log whose entries name their predecessor). \<open>Storage_Model\<close>: files, the embedded
  store and the outcomes of writes (\<open>storage_bbolt.go\<close>). \<open>Calendar\<close>, \<open>Hex_Text\<close>, \<open>Json_Text\<close>: window keys of times, hexadecimal text, and
  what the JSON package does to raw messages. \<open>Field_Encryption\<close>: encrypted fields (\<open>encryptor.go\<close>). \<open>Data_Integrity\<close>: files with a keyed
  hash (\<open>data_integrity.go\<close>).

  \<^bold>\<open>Quotas and limits.\<close>
  \<^item> \<open>Contribution_Quota\<close> (\<open>ledger_contrib_quota.go\<close>, \<open>ledger_quota_consume.go\<close>): the entitlement of a contributor. Its books balance
    in every reachable state, it refines an abstract ledger of donated and spent tokens, is never overdrawn, and survives restarts.
  \<^item> \<open>Global_Pool\<close> and \<open>Public_Key_Quota\<close> (\<open>network_global_pool.go\<close>, with the settlement of \<open>middleware.go\<close>): the pool with the
    shares of its members, and the four layers of the public quota, each bounded over any requests.
  \<^item> \<open>Quota_Priority\<close> (\<open>quota_priority.go\<close>): which of the private, shared and remote pools pays, and that exactly this one does.
  \<^item> \<open>Open_Key_Quota\<close> (\<open>network_quota.go\<close>): the quota of the network, the shares of nodes and their bounded cache.
  \<^item> \<open>Guest_Keys\<close> (\<open>network_keys.go\<close>): key classes, guest keys, their windows of use, revocation and expiry.
  \<^item> \<open>Rate_Limiter\<close> (\<open>ratelimit.go\<close>): token buckets as the locales \<open>token_bucket\<close> and \<open>capped_bucket\<close>, interpreted on one bucket and on
    the whole middleware; bounds for every window of requests although idle buckets are evicted.

  \<^bold>\<open>Providers.\<close> \<open>Provider_Model\<close> (\<open>provider.go\<close>, \<open>types.go\<close>): the table of providers, the selection and rotation of keys, the file with
  its secrets. \<open>Provider_Routing\<close> (\<open>provider.go\<close>, \<open>pricing_impl.go\<close>): candidates, access by key class, circuit breaker, orders of
  fallback and lists of models.

  \<^bold>\<open>Network.\<close> \<open>Kademlia\<close> (\<open>dht_kademlia.go\<close>): buckets by distance and closest entries. \<open>DHT_Node\<close> (\<open>dht_networking.go\<close>): lookups against an
  arbitrary network. \<open>DHT_Wire\<close> (\<open>dht_wire_auth.go\<close>, \<open>dht_udp.go\<close>): authentication of datagrams and pinned keys.
  \<open>Net_Addresses\<close> (\<open>client.go\<close>, \<open>nat_traversal.go\<close> and others): guards against internal targets. \<open>Relay_Auth\<close> (\<open>network_relay.go\<close>,
  \<open>node.go\<close>, \<open>federation.go\<close>): signed forwards and the cache against replays.

  \<^bold>\<open>Ledger and trust.\<close> \<open>Contribution_Ledger\<close> (\<open>contribution_ledger.go\<close>): records, the chain of transactions, daily counters, merging.
  \<open>Ledger_Storage\<close> (\<open>contribution_ledger.go\<close>, \<open>contribution_ledger_init.go\<close>): the two backends, dirty keys, failed saves, restart.
  \<open>Ledger_Replication\<close> (\<open>ledger_redundancy.go\<close>, \<open>ledger_replication.go\<close>): digests, healing from peers, consistency of replicas.
  \<open>Ticket_Store\<close> (\<open>ticket.go\<close>): usage tickets that are accepted once. \<open>Reputation\<close> (\<open>reputation.go\<close>): averages, posted scores, grades.

  \<^bold>\<open>Votes.\<close> \<open>Governance\<close> (\<open>governance.go\<close>): proposals and ratifications in two hash chains. \<open>Algorithm_Governance\<close>
  (\<open>algorithm_governance.go\<close>, \<open>algorithm_chain.go\<close>, \<open>handlers_missing.go\<close>): votes with a replayable history.
  \<open>Node_Weights\<close> (\<open>node_weight.go\<close>, \<open>credits.go\<close>): weights that need approval, and the split of a quota.

  \<^bold>\<open>Accounts and guards.\<close> \<open>Admin_Auth\<close> (\<open>auth.go\<close>): the account, passwords, reset tokens and codes, the file. \<open>Admin_Sessions\<close>
  (\<open>auth.go\<close>, \<open>admin_auth.go\<close>, \<open>admin_collab.go\<close>, \<open>admin_smtp.go\<close>): tokens and the handlers of the account. \<open>Invites\<close> (\<open>invite.go\<close>): signed
  invitations. \<open>Users\<close> (\<open>multiuser.go\<close>): consumers, API keys and invite codes. \<open>Access_Control\<close> (\<open>middleware.go\<close>, \<open>multiuser.go\<close>,
  \<open>federation.go\<close>, \<open>network_relay.go\<close>): all guards together, the way of a request through them and through the relay, and what
  each kind of credential reaches.

  \<^bold>\<open>How the code is modelled.\<close> A struct is a record, an operation a function from the state to its answer and the next state, an error a
  value of the answer. A method that runs under a lock is one step; where the code releases a lock in between (saves of reputations, the sending of
  datagrams, the countersigning of tickets), the parts are separate steps that may interleave. \<open>int64\<close> and \<open>int\<close> wrap at 64
  bits (\<open>i64\<close>) where sums can grow; theorems about sums state the bound below which nothing wraps. \<open>float64\<close> is \<open>real\<close>, so
  rounding is not modelled. Times are nanoseconds. A map is an association list, and where the order of a \<open>range\<close> loop matters it
  is an argument. A pointer that is shared in the source is an index or a copy, as its theory says. JSON encoding is lossless except for
  raw messages, whose layout changes.

  \<^bold>\<open>Parameters.\<close> Digests, Ed25519, bcrypt, JWT and AES-GCM, encoders, the network, name resolution, mail, clocks and random draws are
  arguments. What a theorem needs of them is a named hypothesis: \<open>opens_sealed\<close> (decryption undoes encryption), \<open>jwt_ok\<close> and
  \<open>jwt_carries_claims\<close>, \<open>unforged\<close> (no forged token), \<open>signer_ok\<close> (signatures verify), freshness of draws; each has a witness with concrete
  functions. Every I/O call of an operation may fail when its environment says so; theorems that need successful writes say it.

  \<^bold>\<open>Bounds and fuel.\<close> Lookups have 256 rounds, the bound of the source, and recurse on the rounds that are left; the two loops that evict
  until a cache is small enough terminate by the size of the cache; all other loops recurse on their data. No fuel is invented. The
  bounds of caches and tables are those of the source: 20 entries of a bucket, 1024 and 65536 entries of the caches of quotas
  and of forwards, 10000 address limiters, 500 consumers, 100 codes, 20 collaborators, 24 hours of tickets.

  \<^bold>\<open>What is not modelled.\<close> The handlers that proxy and stream model traffic and the adapters of provider protocols (I/O of HTTP
  clients), the load balancer and the network manager with its timers, gossip and federation traffic beyond signatures, NAT
  traversal beyond its guard, updates and installation, statistics, logs, health pages and the browser pages. Of the modelled files
  the parts that only format answers, log or start timers are left out; the manifest lists each component with its state. Panics
  are modelled where the code can reach them. Deviations between the code and its comments or its purpose are proved as lemmas in the
  sections on what the code leaves open or gets wrong.
\<close>

end
